(* ===== verification/Prelude.thy ===== *)
theory Prelude
  imports Complex_Main "HOL-Library.AList" "HOL-Library.Multiset"
    "HOL-Library.Product_Lexorder" "HOL-Library.List_Lexorder" "HOL-Library.Char_ord"
begin

text \<open>
  Shared vocabulary of the development.

  \<^item> Errors are values. A Python function that may raise returns an \<open>'a result\<close>, that is
    \<open>error + 'a\<close>: \<open>Inl e\<close> for the exception and \<open>Inr x\<close> for the returned value. A method that
    also changes its object returns the new state next to the result, so that a mutation done
    before a raise stays visible.
  \<^item> A Python \<open>dict\<close> keeps insertion order, so it is an association list with distinct keys,
    \<open>('k, 'v) dict\<close>. Reading is \<open>map_of\<close>; \<open>d[k] = v\<close> is \<open>AList.update\<close>, which overwrites in
    place or appends, and \<open>d.pop(k)\<close> is \<open>AList.delete\<close>.
  \<^item> Python integers are \<open>int\<close> (or \<open>nat\<close> where the source checks that they are not negative),
    aware datetimes are instants (\<open>int\<close> microseconds), a UUID is its canonical string.
  \<^item> \<open>raise_first\<close> runs a sequence of \<open>if condition: raise error\<close> statements.
\<close>

section \<open>Hint collections\<close>

named_theorems op_defs \<open>definitions of the operations of a component\<close>
named_theorems inv_intros \<open>preservation lemmas of component invariants\<close>

section \<open>Errors and results\<close>

type_synonym uuid = string

datatype error =
    ValueError string
  | RuntimeError string
  | TypeError string
  | KeyError string
  | IndexError string
  | SchedulingStopped string
  | InvalidInputError string
  | NodeNotFoundError string
  | ResourceConflictError string
  | ResourceTooLargeError string
  | StorageQuotaExceededError int int int int
  | StorageCapacityExceededError
  | WorkspaceNotFoundError
  | WorkspaceNotOpenError
  | WorkspaceClosingError
  | WorkspaceConflictError string
  | WorkspaceCorruptError string
  | BackendCapacityExceededError
  | TabNotFoundError
  | TabCorruptError
  | OSError string
  | WorkspaceSnapshotInvalidError string
  | WorkspaceSchemaVersionError int
  | TabSnapshotInvalidError uuid
  | WorkspaceRevisionConflictError "int option" "int option"
  | WorkspaceCapacityError string
  | WorkspaceSerializationError string
  | AtomicWriteCapacityError
  | NodePlanCapacityError
  | UnsafePathError string
  | NotFoundError string
  | FileNotFoundError string
  | InternalServiceError string
  | UserFileTreeTooLargeError string
  | UploadTooLargeError string
  | InvalidWorkspaceArchiveError string
  | BackendStoppingError
  | AnalysisNotFoundError
  | AnalysisCorruptError
  | AnalysisKindMismatchError
  | AnalysisInputMissingError string
  | AnalysisInputGoneError
  | TabAnalysisExistsError
  | AnalysisParentInvalidError string
  | AnalysisNotCancellableError
  | AnalysisNotSucceededError
  | DataBlockInUseError string
  | UserFileImportNotFoundError
  | UserFileImportNotCancellableError
  | UserFileImportNotTerminalError

type_synonym 'a result = "error + 'a"
type_synonym timestamp = int
type_synonym ('k, 'v) dict = "('k \<times> 'v) list"

definition bind_result :: "'a result \<Rightarrow> ('a \<Rightarrow> 'b result) \<Rightarrow> 'b result" where
  "bind_result m f = (case m of Inl e \<Rightarrow> Inl e | Inr x \<Rightarrow> f x)"

lemma bind_result_simps [simp]:
  "bind_result (Inl e) f = Inl e"
  "bind_result (Inr x) f = f x"
  by (simp_all add: bind_result_def)

lemma bind_result_Inr_iff:
  "bind_result m f = Inr y \<longleftrightarrow> (\<exists>x. m = Inr x \<and> f x = Inr y)"
  by (cases m) auto

text \<open>\<open>except_as caught e r\<close> is \<open>try: r except caught as exc: raise e from exc\<close>.\<close>

definition except_as :: "(error \<Rightarrow> bool) \<Rightarrow> error \<Rightarrow> 'a result \<Rightarrow> 'a result" where
  "except_as caught e r = (case r of Inl raised \<Rightarrow> Inl (if caught raised then e else raised) | Inr x \<Rightarrow> Inr x)"

lemma except_as_simps [simp]:
  "except_as caught e (Inr x) = Inr x"
  "except_as caught e (Inl raised) = Inl (if caught raised then e else raised)"
  by (simp_all add: except_as_def)

lemma except_as_Inr_iff [simp]: "except_as caught e r = Inr x \<longleftrightarrow> r = Inr x"
  by (cases r) simp_all

fun map_result :: "('a \<Rightarrow> 'b result) \<Rightarrow> 'a list \<Rightarrow> 'b list result" where
  "map_result f [] = Inr []"
| "map_result f (x # xs) =
     bind_result (f x) (\<lambda>y. bind_result (map_result f xs) (\<lambda>ys. Inr (y # ys)))"

lemma map_result_Inr_iff:
  "map_result f xs = Inr ys \<longleftrightarrow> list_all2 (\<lambda>x y. f x = Inr y) xs ys"
  by (induction xs arbitrary: ys) (auto simp: bind_result_Inr_iff list_all2_Cons1)

text \<open>\<open>raise_first [(c1, e1), \<dots>] x\<close> raises the error of the first condition that holds.\<close>

fun raise_first :: "(bool \<times> error) list \<Rightarrow> 'a \<Rightarrow> 'a result" where
  "raise_first [] x = Inr x"
| "raise_first ((c, e) # cs) x = (if c then Inl e else raise_first cs x)"

lemma raise_first_Inr_iff:
  "raise_first cs x = Inr y \<longleftrightarrow> y = x \<and> list_all (\<lambda>(c, e). \<not> c) cs"
  by (induction cs x rule: raise_first.induct) auto

lemma raise_first_append [simp]:
  "raise_first (cs @ ds) x = bind_result (raise_first cs x) (raise_first ds)"
  by (induction cs x rule: raise_first.induct) auto

section \<open>Dictionaries\<close>

declare map_of_eq_Some_iff [simp del]

abbreviation dict_keys :: "('k, 'v) dict \<Rightarrow> 'k list" where
  "dict_keys d \<equiv> map fst d"

abbreviation dict_values :: "('k, 'v) dict \<Rightarrow> 'v list" where
  "dict_values d \<equiv> map snd d"

abbreviation wf_dict :: "('k, 'v) dict \<Rightarrow> bool" where
  "wf_dict d \<equiv> distinct (dict_keys d)"

text \<open>\<open>d.get(k, default)\<close> and \<open>d.setdefault(k, default)\<close>.\<close>

definition dict_get :: "('k, 'v) dict \<Rightarrow> 'k \<Rightarrow> 'v \<Rightarrow> 'v" where
  "dict_get d k dflt = (case map_of d k of None \<Rightarrow> dflt | Some v \<Rightarrow> v)"

lemma dict_get_update [simp]:
  "dict_get (AList.update k v d) j dflt = (if j = k then v else dict_get d j dflt)"
  by (simp add: dict_get_def update_conv')

lemma dict_get_delete [simp]:
  "dict_get (AList.delete k d) j dflt = (if j = k then dflt else dict_get d j dflt)"
  by (simp add: dict_get_def delete_conv')

lemma wf_dict_update [simp]: "wf_dict d \<Longrightarrow> wf_dict (AList.update k v d)"
  by (rule distinct_update)

lemma wf_dict_delete [simp]: "wf_dict d \<Longrightarrow> wf_dict (AList.delete k d)"
  by (rule distinct_delete)

lemma dict_keys_update_mem [simp]:
  "fst ` set (AList.update k v d) = insert k (fst ` set d)"
  using dom_update [of k v d] by (simp add: dom_map_of_conv_image_fst)

lemma dict_keys_delete_mem [simp]:
  "fst ` set (AList.delete k d) = fst ` set d - {k}"
  by (auto simp: AList.delete_eq image_iff)

lemma dict_keys_dom: "fst ` set d = dom (map_of d)"
  by (simp add: dom_map_of_conv_image_fst)

lemma map_of_None_iff_keys: "map_of d k = None \<longleftrightarrow> k \<notin> fst ` set d"
  by (simp add: map_of_eq_None_iff)

text \<open>Over a dictionary, a property of all entries is a property of all lookups.\<close>

lemma wf_dict_all_iff:
  "wf_dict d \<Longrightarrow> (\<forall>(k, v) \<in> set d. P k v) \<longleftrightarrow> (\<forall>k v. map_of d k = Some v \<longrightarrow> P k v)"
  by (metis case_prodD case_prodI2 map_of_eq_Some_iff)

lemma dict_get_list_mem:
  "x \<in> set (dict_get d k []) \<longleftrightarrow> (\<exists>xs. map_of d k = Some xs \<and> x \<in> set xs)"
  by (cases "map_of d k") (simp_all add: dict_get_def)

lemma wf_dict_values_mem:
  "wf_dict d \<Longrightarrow> v \<in> snd ` set d \<longleftrightarrow> (\<exists>k. map_of d k = Some v)"
  by (force simp: map_of_eq_Some_iff image_iff)

lemma update_absent:
  "k \<notin> fst ` set d \<Longrightarrow> AList.update k v d = d @ [(k, v)]"
  by (induction d) auto

lemma length_update_dict:
  "length (AList.update k v d) = (if k \<in> fst ` set d then length d else Suc (length d))"
  by (induction d) auto

lemma update_not_Nil [simp]: "AList.update k v d \<noteq> []"
  by (cases d) auto

lemma filter_keys_delete: "filter (\<lambda>kv. fst kv \<noteq> n) d = AList.delete n d"
  by (induction d) auto

lemma delete_Nil_iff: "AList.delete k d = [] \<longleftrightarrow> fst ` set d \<subseteq> {k}"
  by (auto simp: AList.delete_eq filter_empty_conv)

text \<open>The values of a dictionary as a multiset, after an update and after a deletion.\<close>

lemma mset_values_split:
  assumes "wf_dict d" "map_of d k = Some v"
  shows "mset (dict_values d) = add_mset v (mset (dict_values (AList.delete k d)))"
  using assms
proof (induction d)
  case Nil
  then show ?case by simp
next
  case (Cons p d)
  show ?case
  proof (cases "fst p = k")
    case True
    with Cons.prems have "k \<notin> fst ` set d" by auto
    with True Cons.prems show ?thesis by (cases p) simp
  next
    case False
    with Cons show ?thesis by (cases p) (auto simp: AList.delete_eq)
  qed
qed

section \<open>Lists\<close>

text \<open>First occurrences in order: \<open>dict.fromkeys(xs)\<close>, or a visit with a \<open>seen\<close> set.\<close>

fun dedupe :: "'a list \<Rightarrow> 'a list" where
  "dedupe [] = []"
| "dedupe (x # xs) = x # filter (\<lambda>y. y \<noteq> x) (dedupe xs)"

lemma set_dedupe [simp]: "set (dedupe xs) = set xs"
  by (induction xs) auto

lemma distinct_dedupe [simp]: "distinct (dedupe xs)"
  by (induction xs) auto

lemma dedupe_id [simp]: "distinct xs \<Longrightarrow> dedupe xs = xs"
  by (induction xs) (auto simp: filter_id_conv)

text \<open>\<open>len(xs) != len(set(xs))\<close>, the source's duplicate test.\<close>

lemma len_set_distinct: "length xs = card (set xs) \<longleftrightarrow> distinct xs"
  by (metis card_distinct distinct_card)

definition has_duplicates :: "'a list \<Rightarrow> bool" where
  "has_duplicates xs \<longleftrightarrow> length xs \<noteq> length (remdups xs)"

lemma has_duplicates_iff [simp]: "has_duplicates xs \<longleftrightarrow> \<not> distinct xs"
  unfolding has_duplicates_def
  by (metis length_remdups_card_conv len_set_distinct)

lemma distinct_map_mset_cong:
  "mset xs = mset ys \<Longrightarrow> distinct (map f xs) \<longleftrightarrow> distinct (map f ys)"
  by (metis mset_eq_imp_distinct_iff mset_map)

lemma removeAll_Nil_iff: "removeAll x xs = [] \<longleftrightarrow> set xs \<subseteq> {x}"
  by (induction xs) auto

lemma insert_remove1: "x \<in> set xs \<Longrightarrow> insert x (set (remove1 x xs)) = set xs"
  by (induction xs) auto

definition enumerate0 :: "'a list \<Rightarrow> (nat \<times> 'a) list" where
  "enumerate0 xs = zip [0..<length xs] xs"

end
