(* ===== verification/FairQueue.thy ===== *)
theory FairQueue
  imports Prelude
begin

text \<open>
  The per-user fair queue of \<^verbatim>\<open>services/fair_queue.py\<close> (class \<open>FairUserQueue\<close>), shared by the
  Analysis scheduler and the User File Import scheduler.

  \<^item> state: \<open>fair_queue\<close>, one field per attribute of the class; the deque is a list with its
    left end first;
  \<^item> operations: \<open>fq_add\<close>, \<open>fq_pop\<close>, \<open>fq_remove\<close>, \<open>fq_items_for\<close>, \<open>fq_values\<close>, \<open>fq_clear\<close> and
    \<open>fq_bool\<close>, one per method;
  \<^item> \<open>fq_inv\<close>: the rotation holds exactly the users with queued work, each once; \<open>fq_pop\<close> then
    never raises, takes the oldest item of the selected user, and never selects the user it
    selected last while another one waits;
  \<^item> locales \<open>work_queue\<close> and \<open>keyed_queue\<close>: what the two schedulers rely on, interpreted here on
    the queue's own operations.
\<close>

section \<open>State and operations\<close>

type_synonym user_id = string

record 'a fair_queue =
  fq_items :: "(user_id, 'a list) dict"
  fq_user_order :: "user_id list"
  fq_last_user :: "user_id option"

definition fq_init :: "'a fair_queue" where
  "fq_init = \<lparr>fq_items = [], fq_user_order = [], fq_last_user = None\<rparr>"

definition fq_bool :: "'a fair_queue \<Rightarrow> bool" where
  "fq_bool q \<longleftrightarrow> fq_user_order q \<noteq> []"

definition fq_add ::
    "('a \<Rightarrow> 'k::linorder) \<Rightarrow> user_id \<Rightarrow> 'a \<Rightarrow> 'a fair_queue \<Rightarrow> 'a fair_queue" where
  "fq_add order_key user_id item q =
     (let items = sort_key order_key (dict_get (fq_items q) user_id [] @ [item])
      in q\<lparr>fq_items := AList.update user_id items (fq_items q),
           fq_user_order :=
             (if user_id \<notin> set (fq_user_order q) then fq_user_order q @ [user_id]
              else fq_user_order q)\<rparr>)"

text \<open>\<open>deque.rotate(-1)\<close>, then the rotation \<open>pop\<close> starts from.\<close>

definition rotate_left :: "'a list \<Rightarrow> 'a list" where
  "rotate_left xs = (case xs of [] \<Rightarrow> [] | y # ys \<Rightarrow> ys @ [y])"

definition fq_rotated :: "'a fair_queue \<Rightarrow> user_id list" where
  "fq_rotated q =
     (if 1 < length (fq_user_order q) \<and> Some (hd (fq_user_order q)) = fq_last_user q
      then rotate_left (fq_user_order q) else fq_user_order q)"

definition fq_pop :: "'a fair_queue \<Rightarrow> 'a result \<times> 'a fair_queue" where
  "fq_pop q =
     (case fq_rotated q of
        [] \<Rightarrow> (Inl (IndexError ''pop from an empty deque''), q)
      | user_id # rest \<Rightarrow>
          (case map_of (fq_items q) user_id of
             None \<Rightarrow> (Inl (KeyError user_id), q\<lparr>fq_user_order := rest\<rparr>)
           | Some [] \<Rightarrow> (Inl (IndexError ''pop from empty list''), q\<lparr>fq_user_order := rest\<rparr>)
           | Some (selected # items) \<Rightarrow>
               (if items \<noteq> [] then
                  (Inr selected,
                   q\<lparr>fq_items := AList.update user_id items (fq_items q),
                     fq_user_order := rest @ [user_id],
                     fq_last_user := Some user_id\<rparr>)
                else
                  (Inr selected,
                   q\<lparr>fq_items := AList.delete user_id (fq_items q),
                     fq_user_order := rest,
                     fq_last_user := Some user_id\<rparr>))))"

definition fq_remove ::
    "user_id \<Rightarrow> ('a \<Rightarrow> bool) \<Rightarrow> 'a fair_queue \<Rightarrow> 'a list \<times> 'a fair_queue" where
  "fq_remove user_id predicate q =
     (case map_of (fq_items q) user_id of
        None \<Rightarrow> ([], q)
      | Some items \<Rightarrow>
          (let removed = filter predicate items in
           if removed = [] then ([], q)
           else
             (let retained = filter (\<lambda>item. \<not> predicate item) items in
              if retained \<noteq> [] then
                (removed, q\<lparr>fq_items := AList.update user_id retained (fq_items q)\<rparr>)
              else
                (removed,
                 q\<lparr>fq_items := AList.delete user_id (fq_items q),
                   fq_user_order := filter (\<lambda>u. u \<noteq> user_id) (fq_user_order q)\<rparr>))))"

definition fq_items_for :: "user_id \<Rightarrow> 'a fair_queue \<Rightarrow> 'a list" where
  "fq_items_for user_id q = dict_get (fq_items q) user_id []"

definition fq_values :: "'a fair_queue \<Rightarrow> 'a list" where
  "fq_values q = concat (dict_values (fq_items q))"

definition fq_clear :: "'a fair_queue \<Rightarrow> 'a list \<times> 'a fair_queue" where
  "fq_clear q = (fq_values q, q\<lparr>fq_items := [], fq_user_order := []\<rparr>)"

section \<open>Invariant\<close>

text \<open>
  \<open>fq_inv owner q\<close>: the rotation is the set of users with work, without repetition; no user is
  stored with an empty list; every item is stored under its owner.
\<close>

definition fq_inv :: "('a \<Rightarrow> user_id) \<Rightarrow> 'a fair_queue \<Rightarrow> bool" where
  "fq_inv owner q \<longleftrightarrow>
     wf_dict (fq_items q) \<and> distinct (fq_user_order q) \<and>
     set (fq_user_order q) = set (dict_keys (fq_items q)) \<and>
     (\<forall>(u, xs) \<in> set (fq_items q). xs \<noteq> [] \<and> (\<forall>x \<in> set xs. owner x = u))"

definition fq_sorted :: "('a \<Rightarrow> 'k::linorder) \<Rightarrow> 'a fair_queue \<Rightarrow> bool" where
  "fq_sorted order_key q \<longleftrightarrow> (\<forall>(u, xs) \<in> set (fq_items q). sorted (map order_key xs))"

lemma fq_inv_iff:
  "fq_inv owner q \<longleftrightarrow>
     wf_dict (fq_items q) \<and> distinct (fq_user_order q) \<and>
     set (fq_user_order q) = dom (map_of (fq_items q)) \<and>
     (\<forall>u xs. map_of (fq_items q) u = Some xs \<longrightarrow> xs \<noteq> [] \<and> (\<forall>x \<in> set xs. owner x = u))"
  unfolding fq_inv_def by (simp add: wf_dict_all_iff dict_keys_dom cong: conj_cong)

lemma fq_invD:
  assumes "fq_inv owner q"
  shows "wf_dict (fq_items q)" "distinct (fq_user_order q)"
    "set (fq_user_order q) = dom (map_of (fq_items q))"
    "map_of (fq_items q) u = Some xs \<Longrightarrow> xs \<noteq> []"
    "map_of (fq_items q) u = Some xs \<Longrightarrow> x \<in> set xs \<Longrightarrow> owner x = u"
  using assms by (auto simp: fq_inv_iff)

lemma set_rotate_left [simp]: "set (rotate_left xs) = set xs"
  by (cases xs) (auto simp: rotate_left_def)

lemma distinct_rotate_left [simp]: "distinct (rotate_left xs) = distinct xs"
  by (cases xs) (auto simp: rotate_left_def)

lemma rotate_left_Nil_iff [simp]: "rotate_left xs = [] \<longleftrightarrow> xs = []"
  by (cases xs) (auto simp: rotate_left_def)

lemma fq_rotated_simps [simp]:
  "set (fq_rotated q) = set (fq_user_order q)"
  "distinct (fq_rotated q) = distinct (fq_user_order q)"
  "fq_rotated q = [] \<longleftrightarrow> fq_user_order q = []"
  by (simp_all add: fq_rotated_def)

lemma fq_inv_init [inv_intros]: "fq_inv owner fq_init"
  by (simp add: fq_inv_def fq_init_def)

lemma fq_inv_add [inv_intros]:
  assumes "fq_inv owner q" "owner item = user_id"
  shows "fq_inv owner (fq_add order_key user_id item q)"
proof -
  have "\<And>x. x \<in> set (dict_get (fq_items q) user_id []) \<Longrightarrow> owner x = user_id"
    using fq_invD(5) [OF assms(1)] by (auto simp: dict_get_list_mem)
  moreover have "sort_key order_key (xs @ [item]) \<noteq> []" for xs
    by (metis append_is_Nil_conv length_0_conv length_sort not_Cons_self2)
  ultimately show ?thesis
    using assms by (auto simp: fq_inv_iff fq_add_def Let_def update_conv')
qed

lemma fq_pop_cases:
  assumes "fq_inv owner q" "fq_bool q"
  obtains user_id rest selected items where
    "fq_rotated q = user_id # rest"
    "map_of (fq_items q) user_id = Some (selected # items)"
    "owner selected = user_id"
    "fq_pop q = (Inr selected,
       if items \<noteq> [] then
         q\<lparr>fq_items := AList.update user_id items (fq_items q),
           fq_user_order := rest @ [user_id], fq_last_user := Some user_id\<rparr>
       else
         q\<lparr>fq_items := AList.delete user_id (fq_items q),
           fq_user_order := rest, fq_last_user := Some user_id\<rparr>)"
proof -
  from assms(2) obtain u rest where u: "fq_rotated q = u # rest"
    by (cases "fq_rotated q") (auto simp: fq_bool_def)
  then have "u \<in> set (fq_user_order q)"
    by (metis fq_rotated_simps(1) list.set_intros(1))
  with fq_invD(3) [OF assms(1)] obtain xs where xs: "map_of (fq_items q) u = Some xs"
    by auto
  with fq_invD(4) [OF assms(1)] obtain x ys where "xs = x # ys" by (cases xs) auto
  with u xs fq_invD(5) [OF assms(1) xs] show thesis
    by (intro that [of u rest x ys]) (auto simp: fq_pop_def)
qed

lemma fq_inv_pop [inv_intros]:
  assumes "fq_inv owner q" "fq_bool q"
  shows "fq_inv owner (snd (fq_pop q))"
  using assms
proof (rule fq_pop_cases)
  fix u rest x ys
  assume r: "fq_rotated q = u # rest" and m: "map_of (fq_items q) u = Some (x # ys)"
    and p: "fq_pop q = (Inr x, if ys \<noteq> [] then
         q\<lparr>fq_items := AList.update u ys (fq_items q),
           fq_user_order := rest @ [u], fq_last_user := Some u\<rparr>
       else
         q\<lparr>fq_items := AList.delete u (fq_items q),
           fq_user_order := rest, fq_last_user := Some u\<rparr>)"
  have d: "distinct (u # rest)" and s: "set (u # rest) = dom (map_of (fq_items q))"
    using r fq_invD(2,3) [OF assms(1)] by (metis fq_rotated_simps(1,2))+
  then have "set rest = dom (map_of (fq_items q)) - {u}" by auto
  with d m assms(1) show ?thesis
    by (auto simp: p fq_inv_iff update_conv' delete_conv')
qed

lemma fq_inv_remove [inv_intros]:
  assumes "fq_inv owner q"
  shows "fq_inv owner (snd (fq_remove user_id predicate q))"
proof (cases "map_of (fq_items q) user_id")
  case None
  with assms show ?thesis by (simp add: fq_remove_def)
next
  case (Some xs)
  with assms show ?thesis
    by (auto simp: fq_inv_iff fq_remove_def Let_def update_conv' delete_conv' filter_empty_conv)
qed

lemma fq_inv_clear [inv_intros]: "fq_inv owner (snd (fq_clear q))"
  by (simp add: fq_inv_def fq_clear_def)

section \<open>Contents: no item is lost or invented\<close>

lemma fq_values_empty_iff: "fq_inv owner q \<Longrightarrow> fq_bool q \<longleftrightarrow> fq_values q \<noteq> []"
proof -
  assume inv: "fq_inv owner q"
  have "fq_values q = [] \<longleftrightarrow> fq_items q = []"
    using inv by (cases "fq_items q") (auto simp: fq_values_def fq_inv_def)
  moreover have "fq_user_order q = [] \<longleftrightarrow> fq_items q = []"
    using inv by (cases "fq_items q") (auto simp: fq_inv_def)
  ultimately show ?thesis by (simp add: fq_bool_def)
qed

lemma mset_fq_values: "mset (fq_values q) = (\<Sum>xs\<leftarrow>dict_values (fq_items q). mset xs)"
  by (simp add: fq_values_def mset_concat)

text \<open>Setting, and dropping, the list of one user.\<close>

lemma sum_values_update:
  assumes "wf_dict d"
  shows "(\<Sum>xs\<leftarrow>dict_values (AList.update u ys d). mset xs) + mset (dict_get d u []) =
    (\<Sum>xs\<leftarrow>dict_values d. mset xs) + mset ys"
  using assms by (induction d) (auto simp: dict_get_def map_of_None_iff_keys)

lemma sum_values_delete:
  assumes "wf_dict d"
  shows "(\<Sum>xs\<leftarrow>dict_values (AList.delete u d). mset xs) + mset (dict_get d u []) =
    (\<Sum>xs\<leftarrow>dict_values d. mset xs)"
  using assms by (induction d) (auto simp: dict_get_def split: option.splits)

lemma fq_values_add:
  assumes "fq_inv owner q"
  shows "mset (fq_values (fq_add order_key u x q)) = add_mset x (mset (fq_values q))"
proof -
  have "mset (fq_values (fq_add order_key u x q)) + mset (dict_get (fq_items q) u []) =
      mset (fq_values q) + mset (sort_key order_key (dict_get (fq_items q) u [] @ [x]))"
    using sum_values_update [OF fq_invD(1) [OF assms]]
    by (simp add: fq_add_def mset_fq_values Let_def)
  then show ?thesis by simp
qed

lemma fq_values_pop:
  assumes "fq_inv owner q" "fq_pop q = (Inr x, q')"
  shows "mset (fq_values q) = add_mset x (mset (fq_values q'))"
proof -
  have "fq_rotated q \<noteq> []" using assms(2) by (auto simp: fq_pop_def simp del: fq_rotated_simps(3))
  then have "fq_bool q" by (simp add: fq_bool_def)
  with assms(1) show ?thesis
  proof (rule fq_pop_cases)
    fix u rest y ys
    assume m: "map_of (fq_items q) u = Some (y # ys)"
      and p: "fq_pop q = (Inr y, if ys \<noteq> [] then
         q\<lparr>fq_items := AList.update u ys (fq_items q),
           fq_user_order := rest @ [u], fq_last_user := Some u\<rparr>
       else
         q\<lparr>fq_items := AList.delete u (fq_items q),
           fq_user_order := rest, fq_last_user := Some u\<rparr>)"
    have g: "dict_get (fq_items q) u [] = y # ys" using m by (simp add: dict_get_def)
    show ?thesis
      using sum_values_update [OF fq_invD(1) [OF assms(1)], of u ys]
        sum_values_delete [OF fq_invD(1) [OF assms(1)], of u] assms(2) p g
      by (auto simp: mset_fq_values split: if_splits)
  qed
qed

lemma values_of_owner:
  assumes "wf_dict d" "\<forall>(k, xs) \<in> set d. \<forall>x \<in> set xs. owner x = k"
  shows "filter_mset (\<lambda>x. owner x = u) (\<Sum>xs\<leftarrow>dict_values d. mset xs) = mset (dict_get d u [])"
  using assms
proof (induction d)
  case Nil
  then show ?case by (simp add: dict_get_def)
next
  case (Cons p d)
  obtain k xs where p: "p = (k, xs)" by fastforce
  have "filter (\<lambda>x. owner x = u) xs = (if k = u then xs else [])"
    using Cons.prems by (auto simp: p filter_id_conv filter_empty_conv)
  then have "filter_mset (\<lambda>x. owner x = u) (mset xs) = (if k = u then mset xs else {#})"
    by (simp flip: mset_filter)
  moreover have "map_of d k = None"
    using Cons.prems by (simp add: p map_of_None_iff_keys)
  ultimately show ?case
    using Cons by (auto simp: p dict_get_def)
qed

lemma fq_items_for_owner:
  assumes "fq_inv owner q"
  shows "mset (fq_items_for u q) = filter_mset (\<lambda>x. owner x = u) (mset (fq_values q))"
  using values_of_owner [of "fq_items q" owner u] assms
  by (force simp: fq_items_for_def mset_fq_values fq_inv_def)

lemma fq_remove_list: "fst (fq_remove u p q) = filter p (fq_items_for u q)"
  by (auto simp: fq_remove_def fq_items_for_def dict_get_def Let_def split: option.splits)

lemma fq_remove_sum:
  assumes "fq_inv owner q"
  shows "mset (fq_values (snd (fq_remove u p q))) + mset (fq_items_for u q) =
    mset (fq_values q) + mset (filter (\<lambda>x. \<not> p x) (fq_items_for u q))"
proof (cases "map_of (fq_items q) u")
  case None
  then show ?thesis by (simp add: fq_remove_def fq_items_for_def dict_get_def)
next
  case (Some xs)
  then have g: "dict_get (fq_items q) u [] = xs" by (simp add: dict_get_def)
  note wf = fq_invD(1) [OF assms]
  show ?thesis
  proof (cases "filter p xs = []")
    case True
    then have "filter (\<lambda>x. \<not> p x) xs = xs"
      by (simp add: filter_empty_conv filter_id_conv)
    with True Some g show ?thesis by (simp add: fq_remove_def fq_items_for_def)
  next
    case False
    then show ?thesis
      using sum_values_update [OF wf, of u "filter (\<lambda>x. \<not> p x) xs"]
        sum_values_delete [OF wf, of u] Some g
      by (auto simp: fq_remove_def fq_items_for_def mset_fq_values Let_def simp flip: mset_filter)
  qed
qed

lemma multiset_exchange: "A + B = C + D \<Longrightarrow> C = B + E \<Longrightarrow> A = E + (D :: 'a multiset)"
  by (simp add: ac_simps)

lemma fq_values_remove:
  assumes "fq_inv owner q"
  shows "mset (fq_values (snd (fq_remove u p q))) =
    filter_mset (\<lambda>x. owner x = u \<longrightarrow> \<not> p x) (mset (fq_values q))"
proof -
  let ?V = "mset (fq_values q)" and ?I = "fq_items_for u q"
  have I: "mset ?I = filter_mset (\<lambda>x. owner x = u) ?V"
    by (rule fq_items_for_owner [OF assms])
  have V: "?V = mset ?I + filter_mset (\<lambda>x. owner x \<noteq> u) ?V"
    unfolding I by (rule multiset_partition)
  have "mset (fq_values (snd (fq_remove u p q))) =
      filter_mset (\<lambda>x. owner x \<noteq> u) ?V + mset (filter (\<lambda>x. \<not> p x) ?I)"
    by (rule multiset_exchange [OF fq_remove_sum [OF assms] V])
  moreover have "filter_mset (\<lambda>x. owner x = u \<longrightarrow> \<not> p x) ?V =
      filter_mset (\<lambda>x. owner x \<noteq> u) ?V + filter_mset (\<lambda>x. owner x = u \<and> \<not> p x) ?V"
    by (rule multiset_eqI) auto
  moreover have "mset (filter (\<lambda>x. \<not> p x) ?I) = filter_mset (\<lambda>x. owner x = u \<and> \<not> p x) ?V"
    by (rule multiset_eqI) (simp add: I)
  ultimately show ?thesis by simp
qed

section \<open>The interface the schedulers rely on\<close>

text \<open>
  \<open>work_queue\<close> states the queue's contract over the multiset of its items: adding, popping and
  removing change it by exactly the items involved, and a non-empty queue can be popped.
\<close>

locale work_queue =
  fixes init :: "'q"
    and add :: "user_id \<Rightarrow> 'a \<Rightarrow> 'q \<Rightarrow> 'q"
    and pop :: "'q \<Rightarrow> 'a result \<times> 'q"
    and remove :: "user_id \<Rightarrow> ('a \<Rightarrow> bool) \<Rightarrow> 'q \<Rightarrow> 'a list \<times> 'q"
    and items_for :: "user_id \<Rightarrow> 'q \<Rightarrow> 'a list"
    and vals :: "'q \<Rightarrow> 'a list"
    and nonempty :: "'q \<Rightarrow> bool"
    and clear :: "'q \<Rightarrow> 'a list \<times> 'q"
    and invar :: "'q \<Rightarrow> bool"
    and owner :: "'a \<Rightarrow> user_id"
  assumes vals_init: "vals init = []"
    and invar_init: "invar init"
    and invar_add: "invar q \<Longrightarrow> invar (add (owner x) x q)"
    and vals_add: "invar q \<Longrightarrow> mset (vals (add (owner x) x q)) = add_mset x (mset (vals q))"
    and nonempty_iff: "invar q \<Longrightarrow> nonempty q \<longleftrightarrow> vals q \<noteq> []"
    and pop_ok: "invar q \<Longrightarrow> nonempty q \<Longrightarrow> \<exists>x q'. pop q = (Inr x, q')"
    and invar_pop: "invar q \<Longrightarrow> pop q = (Inr x, q') \<Longrightarrow> invar q'"
    and vals_pop: "invar q \<Longrightarrow> pop q = (Inr x, q') \<Longrightarrow>
      mset (vals q) = add_mset x (mset (vals q'))"
    and items_for_spec: "invar q \<Longrightarrow>
      mset (items_for u q) = filter_mset (\<lambda>x. owner x = u) (mset (vals q))"
    and remove_list: "fst (remove u p q) = filter p (items_for u q)"
    and invar_remove: "invar q \<Longrightarrow> invar (snd (remove u p q))"
    and vals_remove: "invar q \<Longrightarrow> mset (vals (snd (remove u p q))) =
      filter_mset (\<lambda>x. owner x = u \<longrightarrow> \<not> p x) (mset (vals q))"
    and clear_list: "fst (clear q) = vals q"
    and vals_clear: "vals (snd (clear q)) = []"
    and invar_clear: "invar (snd (clear q))"

text \<open>
  \<open>keyed_queue\<close>: items carry an identity that determines their user. The schedulers keep these
  identities distinct; the lemmas below say what each operation does to the set of identities.
\<close>

locale keyed_queue = work_queue +
  fixes key :: "'a \<Rightarrow> 'k"
    and key_user :: "'k \<Rightarrow> user_id"
  assumes owner_key: "owner x = key_user (key x)"
begin

lemma keys_add:
  "invar q \<Longrightarrow> key ` set (vals (add (key_user (key x)) x q)) = insert (key x) (key ` set (vals q))"
  by (metis vals_add owner_key image_insert set_mset_add_mset_insert set_mset_mset)

lemma distinct_add:
  assumes "invar q" "distinct (map key (vals q))" "key x \<notin> key ` set (vals q)"
  shows "distinct (map key (vals (add (key_user (key x)) x q)))"
proof -
  have "mset (vals (add (key_user (key x)) x q)) = mset (x # vals q)"
    using vals_add [OF assms(1), of x] by (simp add: owner_key)
  from distinct_map_mset_cong [OF this, of key] assms(2,3) show ?thesis by simp
qed

lemma keys_pop:
  assumes "invar q" "distinct (map key (vals q))" "pop q = (Inr x, q')"
  shows "distinct (map key (vals q'))" "key x \<notin> key ` set (vals q')"
    "key ` set (vals q) = insert (key x) (key ` set (vals q'))"
proof -
  have m: "mset (vals q) = mset (x # vals q')"
    using vals_pop [OF assms(1,3)] by simp
  from distinct_map_mset_cong [OF m, of key] assms(2)
  show "distinct (map key (vals q'))" "key x \<notin> key ` set (vals q')" by auto
  from mset_eq_setD [OF m] show "key ` set (vals q) = insert (key x) (key ` set (vals q'))"
    by simp
qed

lemma set_remove:
  "invar q \<Longrightarrow> set (vals (snd (remove u p q))) = {x \<in> set (vals q). owner x = u \<longrightarrow> \<not> p x}"
  using vals_remove [of q u p] by (metis set_mset_mset set_mset_filter)

lemma set_items_for: "invar q \<Longrightarrow> set (items_for u q) = {x \<in> set (vals q). owner x = u}"
  using items_for_spec [of q u] by (metis set_mset_mset set_mset_filter)

lemma distinct_remove:
  assumes "invar q" "distinct (map key (vals q))"
  shows "distinct (map key (vals (snd (remove u p q))))"
proof -
  have "mset (vals (snd (remove u p q))) = mset (filter (\<lambda>x. owner x = u \<longrightarrow> \<not> p x) (vals q))"
    by (simp add: vals_remove [OF assms(1)])
  from distinct_map_mset_cong [OF this, of key] show ?thesis
    using assms(2) by (simp add: distinct_map_filter)
qed

text \<open>Removing one identity: exactly that identity leaves, and the returned list tells whether it
  was there.\<close>

lemma keys_remove_key:
  assumes "invar q"
  shows "key ` set (vals (snd (remove (key_user k) (\<lambda>x. key x = k) q))) =
      key ` set (vals q) - {k}"
    "fst (remove (key_user k) (\<lambda>x. key x = k) q) \<noteq> [] \<longleftrightarrow> k \<in> key ` set (vals q)"
  by (auto simp: set_remove [OF assms] remove_list filter_empty_conv set_items_for [OF assms]
      owner_key)

lemma remove_absent:
  assumes "invar q" "k \<notin> key ` set (vals q)"
  shows "fst (remove (key_user k) (\<lambda>x. key x = k) q) = []"
  using keys_remove_key(2) [OF assms(1), of k] assms(2) by blast

end

interpretation fair: work_queue fq_init "fq_add order_key" fq_pop fq_remove fq_items_for
  fq_values fq_bool fq_clear "fq_inv owner" owner
  for order_key :: "'a \<Rightarrow> 'k::linorder" and owner
proof (unfold_locales, goal_cases)
  case (6 q)
  then show ?case by (rule fq_pop_cases) blast
next
  case (7 q x q')
  then have "fq_rotated q \<noteq> []" by (auto simp: fq_pop_def simp del: fq_rotated_simps(3))
  with fq_inv_pop [OF 7(1)] 7(2) show ?case by (simp add: fq_bool_def)
qed (auto intro: inv_intros simp: fq_values_add fq_values_pop fq_values_remove fq_remove_list
    fq_items_for_owner fq_values_empty_iff, auto simp: fq_values_def fq_init_def fq_clear_def)

section \<open>Order and fairness\<close>

lemma fq_sorted_iff:
  "wf_dict (fq_items q) \<Longrightarrow> fq_sorted order_key q \<longleftrightarrow>
     (\<forall>u xs. map_of (fq_items q) u = Some xs \<longrightarrow> sorted (map order_key xs))"
  unfolding fq_sorted_def by (simp add: wf_dict_all_iff)

lemma fq_sorted_lookup:
  "fq_inv owner q \<Longrightarrow> fq_sorted order_key q \<Longrightarrow> map_of (fq_items q) u = Some xs \<Longrightarrow>
     sorted (map order_key xs)"
  by (simp add: fq_sorted_iff fq_invD(1))

lemma fq_sorted_add:
  assumes "fq_inv owner q" "fq_sorted order_key q"
  shows "fq_sorted order_key (fq_add order_key u x q)"
  using assms(2) fq_invD(1) [OF assms(1)]
  by (auto simp: fq_sorted_iff fq_add_def Let_def update_conv')

lemma fq_sorted_pop:
  assumes "fq_inv owner q" "fq_sorted order_key q" "fq_pop q = (Inr x, q')"
  shows "fq_sorted order_key q'"
proof -
  have "fq_bool q"
    using assms(3) by (auto simp: fq_pop_def fq_bool_def simp flip: fq_rotated_simps(3))
  with assms(1) show ?thesis
  proof (rule fq_pop_cases)
    fix u rest y ys
    assume m: "map_of (fq_items q) u = Some (y # ys)"
      and p: "fq_pop q = (Inr y, if ys \<noteq> [] then
         q\<lparr>fq_items := AList.update u ys (fq_items q),
           fq_user_order := rest @ [u], fq_last_user := Some u\<rparr>
       else
         q\<lparr>fq_items := AList.delete u (fq_items q),
           fq_user_order := rest, fq_last_user := Some u\<rparr>)"
    note wf = fq_invD(1) [OF assms(1)]
    have "sorted (map order_key ys)"
      using fq_sorted_lookup [OF assms(1,2) m] by simp
    with p assms(2,3) wf show ?thesis
      by (auto simp: fq_sorted_iff update_conv' delete_conv' split: if_splits)
  qed
qed

lemma fq_sorted_remove:
  assumes "fq_inv owner q" "fq_sorted order_key q"
  shows "fq_sorted order_key (snd (fq_remove u p q))"
proof (cases "map_of (fq_items q) u")
  case None
  with assms show ?thesis by (simp add: fq_remove_def)
next
  case (Some xs)
  with assms fq_invD(1) [OF assms(1)] show ?thesis
    by (auto simp: fq_sorted_iff fq_remove_def Let_def update_conv' delete_conv' sorted_filter)
qed

text \<open>The user served by a successful \<open>pop\<close>, and what the selected item is.\<close>

lemma fq_pop_served:
  assumes "fq_inv owner q" "fq_pop q = (Inr x, q')"
  shows "fq_last_user q' = Some (owner x)" "hd (fq_rotated q) = owner x"
    "\<exists>xs. map_of (fq_items q) (owner x) = Some (x # xs)"
    "fq_user_order q' = tl (fq_rotated q) \<or> fq_user_order q' = tl (fq_rotated q) @ [owner x]"
proof -
  have "fq_bool q"
    using assms(2) by (auto simp: fq_pop_def fq_bool_def simp flip: fq_rotated_simps(3))
  with assms(1) show "fq_last_user q' = Some (owner x)" "hd (fq_rotated q) = owner x"
    "\<exists>xs. map_of (fq_items q) (owner x) = Some (x # xs)"
    "fq_user_order q' = tl (fq_rotated q) \<or> fq_user_order q' = tl (fq_rotated q) @ [owner x]"
    using assms(2) by (auto elim!: fq_pop_cases split: if_splits)
qed

text \<open>How many users are ahead of \<open>u\<close> in the rotation.\<close>

definition fq_ahead :: "user_id \<Rightarrow> 'a fair_queue \<Rightarrow> nat" where
  "fq_ahead u q = length (takeWhile (\<lambda>v. v \<noteq> u) (fq_user_order q))"

lemma takeWhile_ne_append:
  "u \<in> set xs \<Longrightarrow> takeWhile (\<lambda>v. v \<noteq> u) (xs @ ys) = takeWhile (\<lambda>v. v \<noteq> u) xs"
  by (induction xs) auto

lemma rotated_ahead:
  assumes "u \<in> set (fq_user_order q)" "fq_last_user q \<noteq> Some u"
  shows "length (takeWhile (\<lambda>v. v \<noteq> u) (fq_rotated q)) \<le> fq_ahead u q"
  using assms
  by (cases "fq_user_order q") (auto simp: fq_rotated_def fq_ahead_def rotate_left_def
      takeWhile_ne_append)

lemma fq_pop_progress:
  assumes "fq_inv owner q" "fq_pop q = (Inr x, q')"
    and "u \<in> set (fq_user_order q)" "fq_last_user q \<noteq> Some u" "owner x \<noteq> u"
  shows "u \<in> set (fq_user_order q')" "fq_last_user q' \<noteq> Some u" "fq_ahead u q' < fq_ahead u q"
proof -
  note served = fq_pop_served [OF assms(1,2)]
  obtain rest where r: "fq_rotated q = owner x # rest"
    using served(2) assms(3) by (cases "fq_rotated q") (auto simp flip: fq_rotated_simps(1))
  with assms(3,5) have u: "u \<in> set rest" by (metis fq_rotated_simps(1) set_ConsD)
  show "fq_last_user q' \<noteq> Some u" using served(1) assms(5) by simp
  show "u \<in> set (fq_user_order q')" using served(4) r u by auto
  have "length (takeWhile (\<lambda>v. v \<noteq> u) rest) < fq_ahead u q"
    using rotated_ahead [OF assms(3,4)] r assms(5) by simp
  then show "fq_ahead u q' < fq_ahead u q"
    using served(4) r u by (auto simp: fq_ahead_def takeWhile_ne_append)
qed

text \<open>An arbitrary schedule of queue operations and the users it serves.\<close>

datatype 'a fq_op = Add 'a | Pop | Remove user_id "'a \<Rightarrow> bool"

fun fq_exec :: "('a \<Rightarrow> 'k::linorder) \<Rightarrow> ('a \<Rightarrow> user_id) \<Rightarrow> 'a fq_op list \<Rightarrow> 'a fair_queue \<Rightarrow>
    'a list \<times> 'a fair_queue" where
  "fq_exec order_key owner [] q = ([], q)"
| "fq_exec order_key owner (Add x # ops) q =
     fq_exec order_key owner ops (fq_add order_key (owner x) x q)"
| "fq_exec order_key owner (Remove u p # ops) q =
     fq_exec order_key owner ops (snd (fq_remove u p q))"
| "fq_exec order_key owner (Pop # ops) q =
     (case fq_pop q of
        (Inl e, q') \<Rightarrow> fq_exec order_key owner ops q'
      | (Inr x, q') \<Rightarrow> (case fq_exec order_key owner ops q' of (xs, q'') \<Rightarrow> (x # xs, q'')))"

fun spares_user :: "user_id \<Rightarrow> 'a fq_op \<Rightarrow> bool" where
  "spares_user u (Remove v p) = (v \<noteq> u)"
| "spares_user u _ = True"

fun pop_count :: "'a fq_op list \<Rightarrow> nat" where
  "pop_count [] = 0"
| "pop_count (Pop # ops) = Suc (pop_count ops)"
| "pop_count (_ # ops) = pop_count ops"

lemma fq_add_position:
  assumes "u \<in> set (fq_user_order q)"
  shows "u \<in> set (fq_user_order (fq_add order_key v x q))"
    "fq_ahead u (fq_add order_key v x q) = fq_ahead u q"
    "fq_last_user (fq_add order_key v x q) = fq_last_user q"
  using assms by (auto simp: fq_add_def Let_def fq_ahead_def takeWhile_ne_append)

lemma length_takeWhile_filter:
  "v \<noteq> u \<Longrightarrow> length (takeWhile (\<lambda>w. w \<noteq> u) (filter (\<lambda>w. w \<noteq> v) xs))
     \<le> length (takeWhile (\<lambda>w. w \<noteq> u) xs)"
  by (induction xs) auto

lemma fq_remove_position:
  assumes "u \<in> set (fq_user_order q)" "v \<noteq> u"
  shows "u \<in> set (fq_user_order (snd (fq_remove v p q)))"
    "fq_ahead u (snd (fq_remove v p q)) \<le> fq_ahead u q"
    "fq_last_user (snd (fq_remove v p q)) = fq_last_user q"
  using assms
  by (auto simp: fq_remove_def Let_def fq_ahead_def length_takeWhile_filter split: option.splits)



text \<open>With work of at least two users queued, a pop never serves the user served last.\<close>

theorem fq_pop_rotates:
  assumes "fq_inv owner q" "1 < length (fq_user_order q)" "fq_pop q = (Inr x, q')"
  shows "fq_last_user q' = Some (owner x) \<and> fq_last_user q \<noteq> Some (owner x)"
proof -
  obtain u v us where o: "fq_user_order q = u # v # us"
    using assms(2) by (metis One_nat_def length_0_conv length_Cons less_numeral_extra(4)
        neq_Nil_conv not_less_zero)
  with fq_invD(2) [OF assms(1)] have "u \<noteq> v" by simp
  with o fq_pop_served(1,2) [OF assms(1,3)] show ?thesis
    by (auto simp: fq_rotated_def rotate_left_def split: if_splits)
qed

theorem fq_pop_rotates_witness:
  "let q = fq_add snd ''a'' (''a'', 4::nat) (fq_add snd ''b'' (''b'', 2)
       (snd (fq_pop (fq_add snd ''a'' (''a'', 1) fq_init))));
     (r, q') = fq_pop q
   in r = Inr (''b'', 2) \<and> fq_last_user q = Some ''a'' \<and> fq_last_user q' = Some (fst (''b'', 2::nat))"
  using fq_pop_rotates [of fst
      "fq_add snd ''a'' (''a'', 4::nat) (fq_add snd ''b'' (''b'', 2)
        (snd (fq_pop (fq_add snd ''a'' (''a'', 1) fq_init))))" "(''b'', 2)"
      "snd (fq_pop (fq_add snd ''a'' (''a'', 4::nat) (fq_add snd ''b'' (''b'', 2)
        (snd (fq_pop (fq_add snd ''a'' (''a'', 1) fq_init))))))"]
  by code_simp

text \<open>Within a user the oldest item goes first. The selected item has the least order key of
  everything its user had queued, and the remaining queue is again sorted.\<close>

theorem fq_pop_oldest:
  assumes "fq_inv owner q" "fq_sorted order_key q" "fq_pop q = (Inr x, q')"
  shows "(\<forall>y \<in> set (fq_items_for (owner x) q). order_key x \<le> order_key y) \<and>
    fq_sorted order_key q'"
proof -
  obtain xs where m: "map_of (fq_items q) (owner x) = Some (x # xs)"
    using fq_pop_served(3) [OF assms(1,3)] by blast
  then have "sorted (map order_key (x # xs))" by (rule fq_sorted_lookup [OF assms(1,2)])
  with m fq_sorted_pop [OF assms] show ?thesis
    by (simp add: fq_items_for_def dict_get_def)
qed

theorem fq_pop_oldest_witness:
  "let q = fq_add snd ''a'' (''a'', 1::nat) (fq_add snd ''a'' (''a'', 4) fq_init)
   in fst (fq_pop q) = Inr (''a'', 1) \<and>
     (\<forall>y \<in> set (fq_items_for (fst (''a'', 1::nat)) q). snd (''a'', 1::nat) \<le> snd y)"
  using fq_pop_oldest [of fst
      "fq_add snd ''a'' (''a'', 1::nat) (fq_add snd ''a'' (''a'', 4) fq_init)" snd "(''a'', 1)"
      "snd (fq_pop (fq_add snd ''a'' (''a'', 1::nat) (fq_add snd ''a'' (''a'', 4) fq_init)))"]
  by code_simp

end
