(* ===== verification/SchedulerCore.thy ===== *)
theory SchedulerCore
  imports FairQueue
begin

text \<open>
  The part of their state that the two schedulers of \<^verbatim>\<open>services/\<close> have in common: capacity, the
  \<open>_wake\<close> and \<open>_idle\<close> events, the lifecycle flags, where the dispatch loop \<open>_run\<close> stands and who
  is suspended in \<open>wait_idle\<close>. Each scheduler extends this record with its queue and its slots.

  An \<open>anyio.Event\<close> is an object that is replaced by a fresh one, so events are numbered; a waiter
  holds the number of the object it waits for, and \<open>sc_events\<close> lists the events that are set.

  The two invariants are stated once: \<open>sc_event_inv\<close> (the idle event is set exactly while no slot is
  taken, and nobody waits for an abandoned event that was never set) and \<open>sc_control_inv\<close> (the
  dispatch loop never sleeps on an unset event while there is something to dispatch).
\<close>

section \<open>State\<close>

datatype dispatcher =
    NotStarted | LoopHead | Waiting nat | Returned | is_crashed: Crashed error

record sched_core =
  sc_capacity :: int
  sc_wake :: nat
  sc_idle :: nat
  sc_events :: "nat list"
  sc_next_event :: nat
  sc_task_group :: bool
  sc_accepting :: bool
  sc_stopping :: bool
  sc_dispatcher :: dispatcher
  sc_idle_waiters :: "nat list"

abbreviation event_is_set :: "'z sched_core_scheme \<Rightarrow> nat \<Rightarrow> bool" where
  "event_is_set s e \<equiv> e \<in> set (sc_events s)"

abbreviation set_event :: "nat \<Rightarrow> 'z sched_core_scheme \<Rightarrow> 'z sched_core_scheme" where
  "set_event e s \<equiv> s\<lparr>sc_events := List.insert e (sc_events s)\<rparr>"

text \<open>\<open>self._idle = anyio.Event()\<close> and \<open>self._wake = anyio.Event()\<close>.\<close>

abbreviation fresh_idle :: "'z sched_core_scheme \<Rightarrow> 'z sched_core_scheme" where
  "fresh_idle s \<equiv> s\<lparr>sc_idle := sc_next_event s, sc_next_event := Suc (sc_next_event s)\<rparr>"

abbreviation fresh_wake :: "'z sched_core_scheme \<Rightarrow> 'z sched_core_scheme" where
  "fresh_wake s \<equiv> s\<lparr>sc_wake := sc_next_event s, sc_next_event := Suc (sc_next_event s)\<rparr>"

section \<open>Invariants\<close>

text \<open>\<open>idle\<close>: no slot is taken; \<open>work\<close>: something is queued; \<open>free\<close>: a slot is free.\<close>

definition sc_event_inv :: "bool \<Rightarrow> 'z sched_core_scheme \<Rightarrow> bool" where
  "sc_event_inv idle s \<longleftrightarrow>
     sc_wake s < sc_next_event s \<and> sc_idle s < sc_next_event s \<and> sc_wake s \<noteq> sc_idle s \<and>
     (\<forall>e \<in> set (sc_events s). e < sc_next_event s) \<and>
     (event_is_set s (sc_idle s) \<longleftrightarrow> idle) \<and>
     (\<forall>e \<in> set (sc_idle_waiters s). e = sc_idle s \<or> event_is_set s e)"

definition sc_control_inv :: "bool \<Rightarrow> bool \<Rightarrow> 'z sched_core_scheme \<Rightarrow> bool" where
  "sc_control_inv work free s \<longleftrightarrow>
     (sc_accepting s \<longleftrightarrow> \<not> sc_stopping s) \<and> (sc_stopping s \<longrightarrow> \<not> work) \<and>
     (case sc_dispatcher s of
        NotStarted \<Rightarrow> \<not> sc_task_group s
      | LoopHead \<Rightarrow> sc_task_group s
      | Waiting w \<Rightarrow> sc_task_group s \<and> w = sc_wake s \<and>
          (\<not> event_is_set s w \<longrightarrow> \<not> sc_stopping s \<and> \<not> (work \<and> free))
      | Returned \<Rightarrow> sc_task_group s \<and> sc_stopping s
      | Crashed e \<Rightarrow> False)"

lemma sc_event_inv_wake: "sc_event_inv b s \<Longrightarrow> sc_event_inv b (set_event (sc_wake s) s)"
  by (auto simp: sc_event_inv_def)

lemma sc_event_inv_idle: "sc_event_inv b s \<Longrightarrow> sc_event_inv True (set_event (sc_idle s) s)"
  by (auto simp: sc_event_inv_def)

lemma sc_event_inv_fresh_idle: "sc_event_inv True s \<Longrightarrow> sc_event_inv False (fresh_idle s)"
  by (auto simp: sc_event_inv_def less_Suc_eq)

lemma sc_event_inv_fresh_wake: "sc_event_inv b s \<Longrightarrow> sc_event_inv b (fresh_wake s)"
  by (auto simp: sc_event_inv_def less_Suc_eq)

lemma sc_event_inv_waiter: "sc_event_inv b s \<Longrightarrow> sc_event_inv b
    (s\<lparr>sc_idle_waiters := sc_idle s # sc_idle_waiters s\<rparr>)"
  by (auto simp: sc_event_inv_def)

lemma sc_event_inv_woken: "sc_event_inv b s \<Longrightarrow> sc_event_inv b
    (s\<lparr>sc_idle_waiters := remove1 e (sc_idle_waiters s)\<rparr>)"
  by (auto simp: sc_event_inv_def dest: notin_set_remove1)

text \<open>Once the wake event is set the loop will look again, whatever became dispatchable.\<close>

lemma sc_control_inv_wake:
  "sc_control_inv w f s \<Longrightarrow> (sc_stopping s \<Longrightarrow> \<not> w') \<Longrightarrow>
     sc_control_inv w' f' (set_event (sc_wake s) s)"
  by (auto simp: sc_control_inv_def split: dispatcher.splits)

lemma sc_control_inv_shrink:
  "sc_control_inv w f s \<Longrightarrow> (w' \<Longrightarrow> w) \<Longrightarrow> sc_control_inv w' f s"
  by (auto simp: sc_control_inv_def split: dispatcher.splits)

lemma sc_control_inv_stop:
  "sc_control_inv w f s \<Longrightarrow>
     sc_control_inv False f' (set_event (sc_wake s) (s\<lparr>sc_accepting := False, sc_stopping := True\<rparr>))"
  by (auto simp: sc_control_inv_def split: dispatcher.splits)

text \<open>Where the loop can stand after a turn.\<close>

lemma sc_control_inv_at:
  assumes "sc_control_inv w f s" "sc_task_group s"
  shows "sc_stopping s \<Longrightarrow> sc_control_inv w f' (s\<lparr>sc_dispatcher := Returned\<rparr>)"
    "\<not> sc_stopping s \<Longrightarrow> sc_control_inv w' f' (s\<lparr>sc_dispatcher := LoopHead\<rparr>)"
    "\<not> sc_stopping s \<Longrightarrow> \<not> (w' \<and> f') \<Longrightarrow>
       sc_control_inv w' f' (s\<lparr>sc_dispatcher := Waiting (sc_wake s)\<rparr>)"
    "(sc_stopping s \<Longrightarrow> \<not> w') \<Longrightarrow> sc_control_inv w' f' (s\<lparr>sc_dispatcher := LoopHead\<rparr>)"
  using assms by (auto simp: sc_control_inv_def)

lemma sc_control_invD:
  assumes "sc_control_inv w f s"
  shows "sc_dispatcher s = LoopHead \<Longrightarrow> sc_task_group s"
    "sc_dispatcher s = Waiting e \<Longrightarrow> sc_task_group s \<and> e = sc_wake s"
    "sc_dispatcher s = Waiting e \<Longrightarrow> \<not> event_is_set s e \<Longrightarrow> \<not> sc_stopping s \<and> \<not> (w \<and> f)"
    "\<not> is_crashed (sc_dispatcher s)" "sc_stopping s \<Longrightarrow> \<not> w \<and> \<not> sc_accepting s"
  using assms by (auto simp: sc_control_inv_def split: dispatcher.splits)

end
