(* ===== verification/AnalysisScheduler.thy ===== *)
theory AnalysisScheduler
  imports SchedulerCore
begin

text \<open>
  The Analysis scheduler of \<^verbatim>\<open>services/analysis_scheduler.py\<close> (class \<open>AnalysisScheduler\<close>, with the
  identities of \<^verbatim>\<open>services/analysis_execution_types.py\<close>).

  \<^item> state: \<open>analysis_scheduler\<close>, the shared \<open>sched_core\<close> (capacity, events, flags, dispatch loop,
    \<open>wait_idle\<close> callers) with the fair queue of pending work, the set of active keys as a
    duplicate-free list, and the \<open>_run_one\<close> tasks that have been started and not yet ended;
  \<^item> operations: every \<open>async with self._lock\<close> section is one function, since the sections of
    different tasks exclude each other and nothing else touches the state;
  \<^item> \<open>as_step\<close>: one section of any task, in any order; \<open>as_reachable\<close>: the states the scheduler
    can be in.
  The runner, \<open>cancel_running\<close> and \<open>work_removed\<close> are callbacks given to the constructor; the
  operations return which of them is called.
\<close>

section \<open>State\<close>

record analysis_key =
  ak_user_id :: user_id
  ak_workspace_id :: uuid
  ak_analysis_id :: uuid

record scheduled_analysis =
  sa_key :: analysis_key
  sa_created_at :: timestamp
  sa_credential :: "string option"

definition sa_order_key :: "scheduled_analysis \<Rightarrow> timestamp \<times> uuid" where
  "sa_order_key queued = (sa_created_at queued, ak_analysis_id (sa_key queued))"

record analysis_scheduler = sched_core +
  as_pending :: "scheduled_analysis fair_queue"
  as_active :: "analysis_key list"
  as_running :: "scheduled_analysis list"

definition as_init :: "int \<Rightarrow> analysis_scheduler result" where
  "as_init capacity =
     (if capacity < 1 then Inl (ValueError ''Analysis execution capacity must be positive'')
      else Inr \<lparr>sc_capacity = capacity, sc_wake = 0, sc_idle = 1, sc_events = [1],
        sc_next_event = 2, sc_task_group = False, sc_accepting = True, sc_stopping = False,
        sc_dispatcher = NotStarted, sc_idle_waiters = [],
        as_pending = fq_init, as_active = [], as_running = []\<rparr>)"

section \<open>Operations\<close>

definition as_start :: "analysis_scheduler \<Rightarrow> unit result \<times> analysis_scheduler" where
  "as_start s =
     (if sc_task_group s then (Inl (RuntimeError ''Analysis scheduler already started''), s)
      else (Inr (), s\<lparr>sc_task_group := True, sc_dispatcher := LoopHead\<rparr>))"

definition as_enqueue ::
    "analysis_key \<Rightarrow> timestamp \<Rightarrow> string option \<Rightarrow> analysis_scheduler \<Rightarrow>
     unit result \<times> analysis_scheduler" where
  "as_enqueue key created_at credential s =
     (let item = \<lparr>sa_key = key, sa_created_at = created_at, sa_credential = credential\<rparr> in
      if \<not> sc_accepting s \<or> \<not> sc_task_group s then
        (Inl (SchedulingStopped ''Analysis scheduler is not accepting work''), s)
      else if key \<in> set (as_active s) \<or>
          (\<exists>queued \<in> set (fq_values (as_pending s)). sa_key queued = key) then
        (Inl (ValueError ''Analysis is already scheduled''), s)
      else
        (Inr (), set_event (sc_wake s)
           (s\<lparr>as_pending := fq_add sa_order_key (ak_user_id key) item (as_pending s)\<rparr>)))"

datatype cancel_call = CallWorkRemoved analysis_key | CallCancelRunning analysis_key | NoCall

definition as_cancel ::
    "analysis_key \<Rightarrow> analysis_scheduler \<Rightarrow> cancel_call \<times> analysis_scheduler" where
  "as_cancel key s =
     (case fq_remove (ak_user_id key) (\<lambda>item. sa_key item = key) (as_pending s) of
        (removed, pending) \<Rightarrow>
          (let s1 = s\<lparr>as_pending := pending\<rparr>;
               s2 = (if removed \<noteq> [] then set_event (sc_wake s1) s1 else s1)
           in (if removed \<noteq> [] then CallWorkRemoved key
               else if key \<in> set (as_active s2) then CallCancelRunning key
               else NoCall, s2)))"

definition as_has_workspace_work :: "user_id \<Rightarrow> uuid \<Rightarrow> analysis_scheduler \<Rightarrow> bool" where
  "as_has_workspace_work user_id workspace_id s \<longleftrightarrow>
     (\<exists>item \<in> set (fq_items_for user_id (as_pending s)).
        ak_workspace_id (sa_key item) = workspace_id) \<or>
     (\<exists>key \<in> set (as_active s). ak_user_id key = user_id \<and> ak_workspace_id key = workspace_id)"

text \<open>The returned keys are those whose runner is then signalled.\<close>

definition as_cancel_workspace ::
    "user_id \<Rightarrow> uuid \<Rightarrow> analysis_scheduler \<Rightarrow> analysis_key list \<times> analysis_scheduler" where
  "as_cancel_workspace user_id workspace_id s =
     (let queued = filter (\<lambda>item. ak_workspace_id (sa_key item) = workspace_id)
            (fq_items_for user_id (as_pending s));
          pending = fold (\<lambda>item p. snd (fq_remove user_id
            (\<lambda>candidate. sa_key candidate = sa_key item) p)) queued (as_pending s);
          active = filter (\<lambda>key. ak_user_id key = user_id \<and> ak_workspace_id key = workspace_id)
            (as_active s);
          s1 = s\<lparr>as_pending := pending\<rparr>
      in (active, if queued \<noteq> [] then set_event (sc_wake s1) s1 else s1))"

definition as_stop_dispatch ::
    "analysis_scheduler \<Rightarrow> scheduled_analysis list \<times> analysis_scheduler" where
  "as_stop_dispatch s =
     (if sc_stopping s then ([], s)
      else
        (let s1 = s\<lparr>sc_accepting := False, sc_stopping := True\<rparr>;
             (queued, pending) = fq_clear (as_pending s1)
         in (queued, set_event (sc_wake s1) (s1\<lparr>as_pending := pending\<rparr>))))"

definition as_active_keys :: "analysis_scheduler \<Rightarrow> analysis_key list" where
  "as_active_keys s = as_active s"

text \<open>One turn of \<open>wait_idle\<close>: \<open>None\<close> when it returns, or the event it goes on to wait for.\<close>

definition as_wait_idle :: "analysis_scheduler \<Rightarrow> nat option \<times> analysis_scheduler" where
  "as_wait_idle s =
     (if as_active s = [] then (None, s)
      else (Some (sc_idle s), s\<lparr>sc_idle_waiters := sc_idle s # sc_idle_waiters s\<rparr>))"

text \<open>A waiter whose event is set wakes up and looks again.\<close>

definition as_idle_woken :: "nat \<Rightarrow> analysis_scheduler \<Rightarrow> analysis_scheduler" where
  "as_idle_woken e s = s\<lparr>sc_idle_waiters := remove1 e (sc_idle_waiters s)\<rparr>"

text \<open>One lock section of the dispatch loop \<open>_run\<close>, from the loop head.\<close>

definition as_run :: "analysis_scheduler \<Rightarrow> analysis_scheduler" where
  "as_run s =
     (if sc_stopping s then s\<lparr>sc_dispatcher := Returned\<rparr>
      else if fq_bool (as_pending s) \<and> int (length (as_active s)) < sc_capacity s then
        (case fq_pop (as_pending s) of
           (Inl e, pending) \<Rightarrow> s\<lparr>as_pending := pending, sc_dispatcher := Crashed e\<rparr>
         | (Inr item, pending) \<Rightarrow>
             (let s1 = s\<lparr>as_pending := pending\<rparr>;
                  s2 = (if as_active s1 = [] then fresh_idle s1 else s1);
                  s3 = s2\<lparr>as_active := List.insert (sa_key item) (as_active s2)\<rparr>
              in if \<not> sc_task_group s3 then s3\<lparr>sc_dispatcher := Crashed (RuntimeError ''assert'')\<rparr>
                 else s3\<lparr>as_running := item # as_running s3, sc_dispatcher := LoopHead\<rparr>))
      else s\<lparr>sc_dispatcher := Waiting (sc_wake s)\<rparr>)"

text \<open>The section after \<open>await wake.wait()\<close>.\<close>

definition as_run_woken :: "nat \<Rightarrow> analysis_scheduler \<Rightarrow> analysis_scheduler" where
  "as_run_woken wake s =
     (let s1 = (if sc_wake s = wake then fresh_wake s else s)
      in s1\<lparr>sc_dispatcher := LoopHead\<rparr>)"

text \<open>The \<open>finally\<close> section of \<open>_run_one\<close>, after which \<open>work_removed\<close> is called for the key.\<close>

definition as_run_one_finally ::
    "scheduled_analysis \<Rightarrow> analysis_scheduler \<Rightarrow> analysis_key \<times> analysis_scheduler" where
  "as_run_one_finally item s =
     (let s1 = s\<lparr>as_active := removeAll (sa_key item) (as_active s)\<rparr>;
          s2 = (if as_active s1 = [] then set_event (sc_idle s1) s1 else s1);
          s3 = set_event (sc_wake s2) s2
      in (sa_key item, s3\<lparr>as_running := remove1 item (as_running s3)\<rparr>))"

lemmas as_ops = as_start_def as_enqueue_def as_cancel_def as_cancel_workspace_def
  as_stop_dispatch_def as_wait_idle_def as_idle_woken_def as_run_def as_run_woken_def
  as_run_one_finally_def

section \<open>Interleaving\<close>

inductive as_step :: "analysis_scheduler \<Rightarrow> analysis_scheduler \<Rightarrow> bool" where
  start: "as_step s (snd (as_start s))"
| enqueue: "as_step s (snd (as_enqueue key created_at credential s))"
| cancel: "as_step s (snd (as_cancel key s))"
| cancel_workspace: "as_step s (snd (as_cancel_workspace user_id workspace_id s))"
| stop_dispatch: "as_step s (snd (as_stop_dispatch s))"
| wait_idle: "as_step s (snd (as_wait_idle s))"
| idle_woken: "e \<in> set (sc_idle_waiters s) \<Longrightarrow> event_is_set s e \<Longrightarrow> as_step s (as_idle_woken e s)"
| run: "sc_dispatcher s = LoopHead \<Longrightarrow> as_step s (as_run s)"
| run_woken: "sc_dispatcher s = Waiting wake \<Longrightarrow> event_is_set s wake \<Longrightarrow>
    as_step s (as_run_woken wake s)"
| run_one_finally: "item \<in> set (as_running s) \<Longrightarrow> as_step s (snd (as_run_one_finally item s))"

inductive as_reachable :: "analysis_scheduler \<Rightarrow> bool" where
  init: "as_init capacity = Inr s \<Longrightarrow> as_reachable s"
| step: "as_reachable s \<Longrightarrow> as_step s t \<Longrightarrow> as_reachable t"

section \<open>Invariant\<close>

definition as_owner :: "scheduled_analysis \<Rightarrow> user_id" where
  "as_owner item = ak_user_id (sa_key item)"

interpretation aq: keyed_queue fq_init "fq_add sa_order_key" fq_pop fq_remove fq_items_for
  fq_values fq_bool fq_clear "fq_inv as_owner" as_owner sa_key ak_user_id
  by unfold_locales (simp add: as_owner_def)

definition as_queue_inv :: "analysis_scheduler \<Rightarrow> bool" where
  "as_queue_inv s \<longleftrightarrow>
     fq_inv as_owner (as_pending s) \<and>
     distinct (map sa_key (fq_values (as_pending s))) \<and>
     distinct (as_active s) \<and>
     sa_key ` set (fq_values (as_pending s)) \<inter> set (as_active s) = {} \<and>
     distinct (map sa_key (as_running s)) \<and> sa_key ` set (as_running s) = set (as_active s) \<and>
     0 < sc_capacity s \<and> int (length (as_active s)) \<le> sc_capacity s"

abbreviation as_work :: "analysis_scheduler \<Rightarrow> bool" where
  "as_work s \<equiv> fq_bool (as_pending s)"

abbreviation as_free :: "analysis_scheduler \<Rightarrow> bool" where
  "as_free s \<equiv> int (length (as_active s)) < sc_capacity s"

definition as_inv :: "analysis_scheduler \<Rightarrow> bool" where
  "as_inv s \<longleftrightarrow> as_queue_inv s \<and> sc_event_inv (as_active s = []) s \<and>
     sc_control_inv (as_work s) (as_free s) s"

lemma as_invD:
  assumes "as_inv s"
  shows "as_queue_inv s" "sc_event_inv (as_active s = []) s"
    "sc_control_inv (as_work s) (as_free s) s"
  using assms by (simp_all add: as_inv_def)

subsection \<open>Each operation keeps the queue part\<close>

lemma as_queue_invD:
  assumes "as_queue_inv s"
  shows "fq_inv as_owner (as_pending s)"
    "distinct (map sa_key (fq_values (as_pending s)))"
    "distinct (as_active s)"
    "sa_key ` set (fq_values (as_pending s)) \<inter> set (as_active s) = {}"
    "distinct (map sa_key (as_running s))" "sa_key ` set (as_running s) = set (as_active s)"
    "0 < sc_capacity s" "int (length (as_active s)) \<le> sc_capacity s"
  using assms by (simp_all add: as_queue_inv_def)

lemma as_queue_inv_cong:
  "as_pending t = as_pending s \<Longrightarrow> as_active t = as_active s \<Longrightarrow> as_running t = as_running s \<Longrightarrow>
   sc_capacity t = sc_capacity s \<Longrightarrow> as_queue_inv t = as_queue_inv s"
  by (simp add: as_queue_inv_def)

lemma as_queue_inv_pending:
  assumes "as_queue_inv s" "fq_inv as_owner pending"
    "distinct (map sa_key (fq_values pending))"
    "sa_key ` set (fq_values pending) \<subseteq> sa_key ` set (fq_values (as_pending s))"
  shows "as_queue_inv (s\<lparr>as_pending := pending\<rparr>)"
  using assms by (auto simp: as_queue_inv_def)

lemma as_queue_inv_enqueue:
  assumes "as_queue_inv s"
  shows "as_queue_inv (snd (as_enqueue key created_at credential s))"
proof -
  let ?item = "\<lparr>sa_key = key, sa_created_at = created_at, sa_credential = credential\<rparr>"
  let ?q = "fq_add sa_order_key (ak_user_id key) ?item (as_pending s)"
  note D = as_queue_invD [OF assms]
  show ?thesis
  proof (cases "key \<in> set (as_active s) \<or> key \<in> sa_key ` set (fq_values (as_pending s))")
    case True
    with assms show ?thesis by (auto simp: as_enqueue_def Let_def image_iff)
  next
    case False
    have "fq_inv as_owner ?q" using D(1) by (rule fq_inv_add) (simp add: as_owner_def)
    moreover have "distinct (map sa_key (fq_values ?q))"
      using aq.distinct_add [OF D(1,2), of ?item] False by simp
    moreover have "sa_key ` set (fq_values ?q) = insert key (sa_key ` set (fq_values (as_pending s)))"
      using aq.keys_add [OF D(1), of ?item] by simp
    ultimately show ?thesis using assms False
      by (auto simp: as_enqueue_def Let_def as_queue_inv_def)
  qed
qed

lemma as_queue_inv_cancel:
  assumes "as_queue_inv s"
  shows "as_queue_inv (snd (as_cancel key s))"
proof -
  note D = as_queue_invD [OF assms]
  let ?q = "snd (fq_remove (ak_user_id key) (\<lambda>item. sa_key item = key) (as_pending s))"
  have "as_queue_inv (s\<lparr>as_pending := ?q\<rparr>)"
    using assms by (rule as_queue_inv_pending)
      (auto simp: fq_inv_remove [OF D(1)] aq.distinct_remove [OF D(1,2)] aq.set_remove [OF D(1)])
  then show ?thesis
    by (auto simp: as_cancel_def Let_def split: prod.splits elim!: as_queue_inv_cong [THEN iffD1, rotated -1])
qed

lemma fold_remove_keys:
  assumes "fq_inv as_owner q" "distinct (map sa_key (fq_values q))"
  shows "let q' = fold (\<lambda>item p. snd (fq_remove u (\<lambda>c. sa_key c = sa_key item) p)) items q
    in fq_inv as_owner q' \<and> distinct (map sa_key (fq_values q')) \<and>
       set (fq_values q') =
         {x \<in> set (fq_values q). as_owner x = u \<longrightarrow> sa_key x \<notin> sa_key ` set items}"
  using assms
proof (induction items arbitrary: q)
  case Nil
  then show ?case by simp
next
  case (Cons item items)
  let ?q = "snd (fq_remove u (\<lambda>c. sa_key c = sa_key item) q)"
  have "fq_inv as_owner ?q" "distinct (map sa_key (fq_values ?q))"
    using Cons.prems by (auto intro: inv_intros aq.distinct_remove)
  from Cons.IH [OF this] show ?case
    by (auto simp: Let_def aq.set_remove [OF Cons.prems(1)])
qed

lemma as_queue_inv_cancel_workspace:
  assumes "as_queue_inv s"
  shows "as_queue_inv (snd (as_cancel_workspace user_id workspace_id s))"
proof -
  note D = as_queue_invD [OF assms]
  let ?items = "filter (\<lambda>item. ak_workspace_id (sa_key item) = workspace_id)
            (fq_items_for user_id (as_pending s))"
  let ?q = "fold (\<lambda>item p. snd (fq_remove user_id
            (\<lambda>candidate. sa_key candidate = sa_key item) p)) ?items (as_pending s)"
  have "as_queue_inv (s\<lparr>as_pending := ?q\<rparr>)"
    using assms fold_remove_keys [OF D(1,2), of user_id ?items]
    by (intro as_queue_inv_pending) (auto simp: Let_def)
  then show ?thesis
    by (auto simp: as_cancel_workspace_def Let_def elim!: as_queue_inv_cong [THEN iffD1, rotated -1])
qed

lemma as_queue_inv_stop_dispatch:
  assumes "as_queue_inv s"
  shows "as_queue_inv (snd (as_stop_dispatch s))"
proof -
  have "as_queue_inv (s\<lparr>as_pending := snd (fq_clear (as_pending s))\<rparr>)"
    using assms by (rule as_queue_inv_pending)
      (simp_all add: fq_inv_clear fair.vals_clear)
  moreover have "as_queue_inv (snd (as_stop_dispatch s)) =
      as_queue_inv (s\<lparr>as_pending := snd (fq_clear (as_pending s))\<rparr>)" if "\<not> sc_stopping s"
    using that by (intro as_queue_inv_cong) (simp_all add: as_stop_dispatch_def split: prod.splits)
  ultimately show ?thesis using assms by (cases "sc_stopping s") (simp_all add: as_stop_dispatch_def)
qed

lemma as_queue_inv_run_one_finally:
  assumes "as_queue_inv s" "item \<in> set (as_running s)"
  shows "as_queue_inv (snd (as_run_one_finally item s))"
proof -
  note D = as_queue_invD [OF assms(1)]
  have "distinct (as_running s)" using D(5) by (simp add: distinct_map)
  then have "sa_key ` set (remove1 item (as_running s)) = set (as_active s) - {sa_key item}"
    using D(5,6) assms(2) by (auto simp: distinct_map inj_on_def)
  moreover have "int (length (removeAll (sa_key item) (as_active s))) \<le> sc_capacity s"
    using D(8) by (simp add: removeAll_filter_not_eq
        order_trans [OF of_nat_mono [OF length_filter_le]])
  ultimately show ?thesis
    using assms(1) by (auto simp: as_run_one_finally_def as_queue_inv_def Let_def
        distinct_map inj_on_def distinct_removeAll removeAll_Nil_iff dest: notin_set_remove1)
qed

text \<open>A turn of the dispatch loop that starts an item.\<close>

lemma as_run_dispatch:
  assumes "as_queue_inv s" "\<not> sc_stopping s" "sc_task_group s"
    "fq_bool (as_pending s)" "int (length (as_active s)) < sc_capacity s"
  obtains item pending where
    "fq_pop (as_pending s) = (Inr item, pending)"
    "sa_key item \<notin> set (as_active s)"
    "as_pending (as_run s) = pending" "as_active (as_run s) = sa_key item # as_active s"
    "as_running (as_run s) = item # as_running s" "sc_dispatcher (as_run s) = LoopHead"
    "sc_idle (as_run s) = (if as_active s = [] then sc_next_event s else sc_idle s)"
    "sc_next_event (as_run s) =
       (if as_active s = [] then Suc (sc_next_event s) else sc_next_event s)"
proof -
  note D = as_queue_invD [OF assms(1)]
  obtain item pending where p: "fq_pop (as_pending s) = (Inr item, pending)"
    using fair.pop_ok [OF D(1) assms(4)] by blast
  have "sa_key item \<notin> set (as_active s)"
    using aq.keys_pop(3) [OF D(1,2) p] D(4) by blast
  then show thesis
    using assms p by (intro that [of item pending]) (auto simp: as_run_def Let_def)
qed

lemma as_run_frame [simp]:
  "sc_capacity (as_run s) = sc_capacity s" "sc_wake (as_run s) = sc_wake s"
  "sc_events (as_run s) = sc_events s" "sc_task_group (as_run s) = sc_task_group s"
  "sc_accepting (as_run s) = sc_accepting s" "sc_stopping (as_run s) = sc_stopping s"
  "sc_idle_waiters (as_run s) = sc_idle_waiters s"
  by (auto simp: as_run_def Let_def split: prod.splits sum.splits)

lemma as_run_idle:
  assumes "sc_stopping s \<or> \<not> (as_work s \<and> as_free s)"
  shows "as_pending (as_run s) = as_pending s" "as_active (as_run s) = as_active s"
    "as_running (as_run s) = as_running s" "sc_idle (as_run s) = sc_idle s"
    "sc_next_event (as_run s) = sc_next_event s"
    "sc_dispatcher (as_run s) = (if sc_stopping s then Returned else Waiting (sc_wake s))"
  using assms by (auto simp: as_run_def)

lemma as_queue_inv_run:
  assumes "as_queue_inv s" "sc_task_group s"
  shows "as_queue_inv (as_run s)"
proof (cases "as_work s \<and> as_free s \<and> \<not> sc_stopping s")
  case True
  note D = as_queue_invD [OF assms(1)]
  from True have ready: "\<not> sc_stopping s" "fq_bool (as_pending s)"
      "int (length (as_active s)) < sc_capacity s"
    by auto
  obtain item pending where r: "fq_pop (as_pending s) = (Inr item, pending)"
    "sa_key item \<notin> set (as_active s)"
    "as_pending (as_run s) = pending" "as_active (as_run s) = sa_key item # as_active s"
    "as_running (as_run s) = item # as_running s"
    using as_run_dispatch [OF assms(1) ready(1) assms(2) ready(2,3)] by blast
  have "fq_inv as_owner pending" by (rule fair.invar_pop [OF D(1) r(1)])
  with r aq.keys_pop [OF D(1,2) r(1)] D ready(3)
  show ?thesis by (auto simp: as_queue_inv_def)
next
  case False
  with assms show ?thesis
    using as_run_idle [of s] as_queue_inv_cong [of "as_run s" s] by auto
qed

subsection \<open>Each operation keeps the invariant\<close>

lemma as_sc_frame [simp]:
  "sc_event_inv b (s\<lparr>as_pending := p\<rparr>) = sc_event_inv b s"
  "sc_event_inv b (s\<lparr>as_active := a\<rparr>) = sc_event_inv b s"
  "sc_event_inv b (s\<lparr>as_running := r\<rparr>) = sc_event_inv b s"
  "sc_event_inv b (s\<lparr>sc_dispatcher := d\<rparr>) = sc_event_inv b s"
  "sc_control_inv w f (s\<lparr>as_pending := p\<rparr>) = sc_control_inv w f s"
  "sc_control_inv w f (s\<lparr>as_active := a\<rparr>) = sc_control_inv w f s"
  "sc_control_inv w f (s\<lparr>as_running := r\<rparr>) = sc_control_inv w f s"
  "sc_control_inv w f (s\<lparr>sc_idle_waiters := ws\<rparr>) = sc_control_inv w f s"
  "sc_control_inv w f (s\<lparr>sc_idle := e, sc_next_event := n\<rparr>) = sc_control_inv w f s"
  by (simp_all add: sc_event_inv_def sc_control_inv_def split: dispatcher.splits)

lemma fq_bool_mono:
  "fq_inv owner q \<Longrightarrow> fq_inv owner q' \<Longrightarrow> set (fq_values q') \<subseteq> set (fq_values q) \<Longrightarrow>
     fq_bool q' \<Longrightarrow> fq_bool q"
  by (auto simp: fq_values_empty_iff)

lemma as_inv_init: "as_init capacity = Inr s \<Longrightarrow> as_inv s"
  by (auto simp: as_init_def as_inv_def as_queue_inv_def sc_event_inv_def sc_control_inv_def
      fq_inv_init fair.vals_init split: if_splits)

lemma as_inv_start: "as_inv s \<Longrightarrow> as_inv (snd (as_start s))"
  by (cases "sc_task_group s")
    (auto simp: as_start_def as_inv_def as_queue_inv_def sc_event_inv_def sc_control_inv_def)

text \<open>Changing the queue and signalling the loop keeps the invariant, and so does shrinking the
  queue without a signal.\<close>

lemma as_inv_requeue:
  assumes "as_inv s" "as_queue_inv (s\<lparr>as_pending := pending\<rparr>)"
  shows "(sc_stopping s \<Longrightarrow> \<not> fq_bool pending) \<Longrightarrow>
      as_inv (set_event (sc_wake s) (s\<lparr>as_pending := pending\<rparr>))"
    "(fq_bool pending \<Longrightarrow> as_work s) \<Longrightarrow> as_inv (s\<lparr>as_pending := pending\<rparr>)"
proof -
  let ?t = "s\<lparr>as_pending := pending\<rparr>"
  have e: "sc_event_inv (as_active ?t = []) ?t" and c: "sc_control_inv (as_work s) (as_free s) ?t"
    using as_invD [OF assms(1)] by simp_all
  have q: "as_queue_inv (set_event (sc_wake ?t) ?t)"
    using assms(2) as_queue_inv_cong [of "set_event (sc_wake ?t) ?t" ?t] by simp
  show "as_inv (set_event (sc_wake s) ?t)" if "sc_stopping s \<Longrightarrow> \<not> fq_bool pending"
    using q sc_event_inv_wake [OF e] sc_control_inv_wake [OF c, of "fq_bool pending" "as_free s"] that
    by (simp add: as_inv_def)
  show "as_inv ?t" if "fq_bool pending \<Longrightarrow> as_work s"
    using assms(2) e sc_control_inv_shrink [OF c, of "fq_bool pending"] that
    by (simp add: as_inv_def)
qed

lemma as_inv_shrink:
  assumes "as_inv s" "as_queue_inv (s\<lparr>as_pending := pending\<rparr>)"
    "set (fq_values pending) \<subseteq> set (fq_values (as_pending s))"
  shows "as_inv (s\<lparr>as_pending := pending\<rparr>)"
    "as_inv (set_event (sc_wake s) (s\<lparr>as_pending := pending\<rparr>))"
proof -
  have w: "fq_bool pending \<Longrightarrow> as_work s"
    using assms as_invD(1) [OF assms(1)]
    by (auto simp: as_queue_inv_def intro: fq_bool_mono)
  then show "as_inv (s\<lparr>as_pending := pending\<rparr>)" by (rule as_inv_requeue(2) [OF assms(1,2)])
  show "as_inv (set_event (sc_wake s) (s\<lparr>as_pending := pending\<rparr>))"
    using w sc_control_invD(5) [OF as_invD(3) [OF assms(1)]]
    by (intro as_inv_requeue(1) [OF assms(1,2)]) blast
qed

lemma as_inv_enqueue:
  assumes "as_inv s"
  shows "as_inv (snd (as_enqueue key created_at credential s))"
proof (cases "fst (as_enqueue key created_at credential s)")
  case (Inl e)
  then show ?thesis using assms by (auto simp: as_enqueue_def Let_def split: if_splits)
next
  case (Inr u)
  let ?item = "\<lparr>sa_key = key, sa_created_at = created_at, sa_credential = credential\<rparr>"
  let ?t = "s\<lparr>as_pending := fq_add sa_order_key (ak_user_id key) ?item (as_pending s)\<rparr>"
  from Inr have t: "snd (as_enqueue key created_at credential s) = set_event (sc_wake s) ?t"
    and ns: "\<not> sc_stopping s"
    using as_invD(3) [OF assms]
    by (auto simp: as_enqueue_def Let_def sc_control_inv_def split: if_splits)
  have "as_queue_inv ?t"
    using as_queue_inv_enqueue [OF as_invD(1) [OF assms], of key created_at credential]
      as_queue_inv_cong [of "set_event (sc_wake s) ?t" ?t] by (simp add: t)
  then show ?thesis using as_inv_requeue(1) [OF assms] ns by (simp add: t)
qed

lemma as_inv_cancel:
  assumes "as_inv s"
  shows "as_inv (snd (as_cancel key s))"
proof -
  let ?q = "snd (fq_remove (ak_user_id key) (\<lambda>item. sa_key item = key) (as_pending s))"
  note inv = as_queue_invD(1,2) [OF as_invD(1) [OF assms]]
  have sub: "set (fq_values ?q) \<subseteq> set (fq_values (as_pending s))"
    by (auto simp: aq.set_remove [OF inv(1)])
  have "as_queue_inv (s\<lparr>as_pending := ?q\<rparr>)"
    using inv sub as_invD(1) [OF assms]
    by (intro as_queue_inv_pending) (auto intro: fq_inv_remove aq.distinct_remove)
  from as_inv_shrink [OF assms this sub] show ?thesis
    by (auto simp: as_cancel_def Let_def split: prod.splits)
qed

lemma as_inv_cancel_workspace:
  assumes "as_inv s"
  shows "as_inv (snd (as_cancel_workspace user_id workspace_id s))"
proof -
  let ?items = "filter (\<lambda>item. ak_workspace_id (sa_key item) = workspace_id)
            (fq_items_for user_id (as_pending s))"
  let ?q = "fold (\<lambda>item p. snd (fq_remove user_id
            (\<lambda>candidate. sa_key candidate = sa_key item) p)) ?items (as_pending s)"
  note inv = as_queue_invD(1,2) [OF as_invD(1) [OF assms]]
  note f = fold_remove_keys [OF inv, of user_id ?items, unfolded Let_def]
  have sub: "set (fq_values ?q) \<subseteq> set (fq_values (as_pending s))" using f by auto
  have "as_queue_inv (s\<lparr>as_pending := ?q\<rparr>)"
    using as_invD(1) [OF assms] f by (intro as_queue_inv_pending) auto
  from as_inv_shrink [OF assms this sub] show ?thesis
    by (auto simp: as_cancel_workspace_def Let_def)
qed

lemma as_inv_stop_dispatch:
  assumes "as_inv s"
  shows "as_inv (snd (as_stop_dispatch s))"
proof (cases "sc_stopping s")
  case True
  with assms show ?thesis by (simp add: as_stop_dispatch_def)
next
  case False
  let ?t = "s\<lparr>sc_accepting := False, sc_stopping := True\<rparr>"
  let ?p = "snd (fq_clear (as_pending s))"
  have t: "snd (as_stop_dispatch s) = set_event (sc_wake s) ?t\<lparr>as_pending := ?p\<rparr>"
    using False by (simp add: as_stop_dispatch_def split: prod.splits)
  have "sc_event_inv (as_active s = []) (set_event (sc_wake s) ?t)"
    using as_invD(2) [OF assms] by (auto simp: sc_event_inv_def)
  moreover have "sc_control_inv (fq_bool ?p) (as_free s) (set_event (sc_wake s) ?t)"
    using sc_control_inv_stop [OF as_invD(3) [OF assms]] by (simp add: fq_clear_def fq_bool_def)
  moreover have "as_queue_inv (snd (as_stop_dispatch s))"
    by (rule as_queue_inv_stop_dispatch [OF as_invD(1) [OF assms]])
  ultimately show ?thesis by (simp add: as_inv_def t)
qed

lemma as_inv_wait_idle: "as_inv s \<Longrightarrow> as_inv (snd (as_wait_idle s))"
  using as_queue_inv_cong [of "snd (as_wait_idle s)" s] sc_event_inv_waiter [of False s]
  by (auto simp: as_wait_idle_def as_inv_def)

lemma as_inv_idle_woken: "as_inv s \<Longrightarrow> as_inv (as_idle_woken e s)"
  using as_queue_inv_cong [of "as_idle_woken e s" s]
  by (auto simp: as_idle_woken_def as_inv_def sc_event_inv_woken)

lemma as_inv_run:
  assumes "as_inv s" "sc_dispatcher s = LoopHead"
  shows "as_inv (as_run s)"
proof -
  note I = as_invD [OF assms(1)]
  have tg: "sc_task_group s" by (rule sc_control_invD(1) [OF I(3) assms(2)])
  have q: "as_queue_inv (as_run s)" by (rule as_queue_inv_run [OF I(1) tg])
  show ?thesis
  proof (cases "as_work s \<and> as_free s \<and> \<not> sc_stopping s")
    case True
    then obtain item pending where
      p: "fq_pop (as_pending s) = (Inr item, pending)" "sa_key item \<notin> set (as_active s)"
      using as_run_dispatch [OF I(1) _ tg] by metis
    let ?t = "(if as_active s = [] then fresh_idle s else s)
      \<lparr>as_pending := pending, as_active := sa_key item # as_active s,
       as_running := item # as_running s, sc_dispatcher := LoopHead\<rparr>"
    have t: "as_run s = ?t" using True p tg by (simp add: as_run_def Let_def)
    have "sc_event_inv False (if as_active s = [] then fresh_idle s else s)"
      using I(2) sc_event_inv_fresh_idle [of s] by auto
    moreover have "sc_control_inv w' f' ?t" for w' f'
      using I(3) tg True by (auto simp: sc_control_inv_def)
    ultimately show ?thesis using q by (cases "as_active s = []") (simp_all add: as_inv_def t)
  next
    case False
    then have t: "as_run s = s\<lparr>sc_dispatcher :=
        (if sc_stopping s then Returned else Waiting (sc_wake s))\<rparr>"
      by (auto simp: as_run_def)
    show ?thesis
      using q I sc_control_inv_at(1) [OF I(3) tg, of "as_free s"]
        sc_control_inv_at(3) [OF I(3) tg, of "as_work s" "as_free s"] False
      by (auto simp: as_inv_def t)
  qed
qed

lemma as_inv_run_woken:
  assumes "as_inv s" "sc_dispatcher s = Waiting wake"
  shows "as_inv (as_run_woken wake s)"
proof -
  note I = as_invD [OF assms(1)]
  have tg: "sc_task_group s" "wake = sc_wake s" using sc_control_invD(2) [OF I(3) assms(2)] by auto
  then have t: "as_run_woken wake s = fresh_wake s\<lparr>sc_dispatcher := LoopHead\<rparr>"
    by (simp add: as_run_woken_def)
  have "sc_control_inv (as_work s) (as_free s) (s\<lparr>sc_dispatcher := LoopHead\<rparr>)"
    using sc_control_invD(5) [OF I(3)] by (intro sc_control_inv_at(4) [OF I(3) tg(1)]) blast
  then have "sc_control_inv (as_work s) (as_free s) (fresh_wake s\<lparr>sc_dispatcher := LoopHead\<rparr>)"
    by (simp add: sc_control_inv_def)
  moreover have "as_queue_inv (as_run_woken wake s)"
    using I(1) as_queue_inv_cong [of "as_run_woken wake s" s] by (simp add: t)
  ultimately show ?thesis
    using sc_event_inv_fresh_wake [OF I(2)] by (simp add: as_inv_def t)
qed

lemma as_inv_run_one_finally:
  assumes "as_inv s" "item \<in> set (as_running s)"
  shows "as_inv (snd (as_run_one_finally item s))"
proof -
  note I = as_invD [OF assms(1)]
  let ?a = "removeAll (sa_key item) (as_active s)"
  let ?s1 = "s\<lparr>as_active := ?a\<rparr>"
  let ?s2 = "if ?a = [] then set_event (sc_idle s) ?s1 else ?s1"
  have t: "snd (as_run_one_finally item s) =
      set_event (sc_wake s) ?s2\<lparr>as_running := remove1 item (as_running s)\<rparr>"
    by (simp add: as_run_one_finally_def Let_def)
  have "as_active s \<noteq> []" using assms(2) as_queue_invD(6) [OF I(1)] by auto
  then have "sc_event_inv (?a = []) ?s2"
    using I(2) sc_event_inv_idle [of False ?s1] by auto
  from sc_event_inv_wake [OF this]
  have "sc_event_inv (?a = []) (set_event (sc_wake s) ?s2)" by (auto split: if_splits)
  moreover have "sc_control_inv (as_work s) f
      (set_event (sc_wake s) ?s2\<lparr>as_running := remove1 item (as_running s)\<rparr>)" for f
    using I(3) by (auto simp: sc_control_inv_def split: dispatcher.splits)
  moreover have "as_queue_inv (snd (as_run_one_finally item s))"
    by (rule as_queue_inv_run_one_finally [OF I(1) assms(2)])
  ultimately show ?thesis
    unfolding as_inv_def t by (cases "?a = []") (simp_all add: sc_event_inv_def)
qed

lemma as_inv_step: "as_step s t \<Longrightarrow> as_inv s \<Longrightarrow> as_inv t"
  by (induction rule: as_step.induct)
    (auto intro: as_inv_start as_inv_enqueue as_inv_cancel as_inv_cancel_workspace
      as_inv_stop_dispatch as_inv_wait_idle as_inv_idle_woken as_inv_run as_inv_run_woken
      as_inv_run_one_finally)

lemma as_reachable_inv: "as_reachable s \<Longrightarrow> as_inv s"
  by (induction rule: as_reachable.induct) (auto intro: as_inv_init as_inv_step)

section \<open>Example states\<close>

text \<open>Capacity one, two Analyses of two users enqueued, and the dispatch loop run until it waits.\<close>

definition key_a :: analysis_key where
  "key_a = \<lparr>ak_user_id = ''a'', ak_workspace_id = ''w'', ak_analysis_id = ''1''\<rparr>"

definition key_b :: analysis_key where
  "key_b = \<lparr>ak_user_id = ''b'', ak_workspace_id = ''v'', ak_analysis_id = ''2''\<rparr>"

definition as_example_queued :: analysis_scheduler where
  "as_example_queued = snd (as_enqueue key_b 2 None (snd (as_enqueue key_a 1 None
     (snd (as_start (projr (as_init 1)))))))"

definition as_example :: analysis_scheduler where
  "as_example = as_run (as_run_woken 0 (as_run (as_run as_example_queued)))"

text \<open>The same scheduler with a caller waiting for it to become idle, after both runners ended.\<close>

definition as_example_waiting :: analysis_scheduler where
  "as_example_waiting = snd (as_wait_idle as_example)"

definition as_example_idle :: analysis_scheduler where
  "as_example_idle = (let t = snd (as_cancel key_b as_example_waiting)
     in snd (as_run_one_finally (hd (as_running t)) t))"

lemma as_example_reachable: "as_reachable as_example"
proof -
  have r: "as_reachable as_example_queued"
    unfolding as_example_queued_def
    by (intro as_reachable.step [OF _ as_step.enqueue] as_reachable.step [OF _ as_step.start]
        as_reachable.init [of 1]) (simp add: as_init_def)
  have "sc_dispatcher as_example_queued = LoopHead"
    "sc_dispatcher (as_run as_example_queued) = LoopHead"
    "sc_dispatcher (as_run (as_run as_example_queued)) = Waiting 0"
    "event_is_set (as_run (as_run as_example_queued)) 0"
    "sc_dispatcher (as_run_woken 0 (as_run (as_run as_example_queued))) = LoopHead"
    by code_simp+
  then show ?thesis
    unfolding as_example_def
    by (intro as_reachable.step [OF _ as_step.run] as_reachable.step [OF _ as_step.run_woken] r)
qed

lemma as_example_idle_reachable: "as_reachable as_example_idle"
proof -
  let ?t = "snd (as_cancel key_b as_example_waiting)"
  have "hd (as_running ?t) \<in> set (as_running ?t)" by code_simp
  then show ?thesis
    unfolding as_example_idle_def Let_def as_example_waiting_def
    by (intro as_reachable.step [OF _ as_step.run_one_finally]
        as_reachable.step [OF _ as_step.cancel] as_reachable.step [OF _ as_step.wait_idle]
        as_example_reachable)
qed

section \<open>Properties\<close>

text \<open>C1: whatever the interleaving of callers, runners and the dispatch loop, at most \<open>capacity\<close>
  Analyses run, no Analysis is scheduled twice (neither queued twice, nor running twice, nor queued
  while it runs), every occupied slot has exactly one runner task, and no section of the loop raises.\<close>

theorem as_capacity_and_uniqueness:
  assumes "as_reachable s"
  shows "int (length (as_active s)) \<le> sc_capacity s \<and> distinct (as_active s) \<and>
    distinct (map sa_key (fq_values (as_pending s)) @ as_active s) \<and>
    distinct (map sa_key (as_running s)) \<and> sa_key ` set (as_running s) = set (as_active s) \<and>
    \<not> is_crashed (sc_dispatcher s)"
proof -
  have "as_inv s" using assms by (rule as_reachable_inv)
  note I = as_invD [OF this]
  from as_queue_invD [OF I(1)] sc_control_invD(4) [OF I(3)] show ?thesis by auto
qed

theorem as_capacity_and_uniqueness_witness:
  "length (as_active as_example) = 1 \<and> length (fq_values (as_pending as_example)) = 1 \<and>
   int (length (as_active as_example)) \<le> sc_capacity as_example"
proof -
  have "length (as_active as_example) = 1 \<and> length (fq_values (as_pending as_example)) = 1"
    by code_simp
  with as_capacity_and_uniqueness [OF as_example_reachable] show ?thesis by blast
qed

text \<open>C22: the scheduler is work conserving and loses no wake-up. While the dispatch loop sleeps on
  an event nobody has set, it is not stopping, and either nothing is queued or every slot is taken.\<close>

theorem as_work_conserving:
  assumes "as_reachable s" "sc_dispatcher s = Waiting wake" "\<not> event_is_set s wake"
  shows "\<not> sc_stopping s \<and>
    (fq_values (as_pending s) = [] \<or> int (length (as_active s)) = sc_capacity s)"
proof -
  note I = as_invD [OF as_reachable_inv [OF assms(1)]]
  from sc_control_invD(3) [OF I(3) assms(2,3)] as_queue_invD(8) [OF I(1)]
    fq_values_empty_iff [OF as_queue_invD(1) [OF I(1)]] show ?thesis by auto
qed

theorem as_work_conserving_witness:
  "\<not> sc_stopping as_example \<and> (fq_values (as_pending as_example) = [] \<or>
     int (length (as_active as_example)) = sc_capacity as_example)"
  by (rule as_work_conserving [OF as_example_reachable, of 3]) code_simp+

text \<open>\<open>wait_idle\<close> is never left behind. Whenever no runner holds a slot, the event of every
  caller suspended in \<open>wait_idle\<close> is set, although the scheduler replaces that event each time it
  becomes busy again.\<close>

theorem as_idle_waiters_released:
  assumes "as_reachable s" "as_active s = []" "e \<in> set (sc_idle_waiters s)"
  shows "event_is_set s e"
proof -
  have "sc_event_inv True s" using as_invD(2) [OF as_reachable_inv [OF assms(1)]] assms(2) by simp
  with assms(3) show ?thesis by (auto simp: sc_event_inv_def)
qed

theorem as_idle_waiters_released_witness: "event_is_set as_example_idle 2"
  by (rule as_idle_waiters_released [OF as_example_idle_reachable]) code_simp+

lemma as_step_stopping:
  assumes "as_step s t" "sc_stopping s"
  shows "sc_stopping t \<and> set (as_active t) \<subseteq> set (as_active s)"
  using assms
proof (cases rule: as_step.cases)
  case run
  then show ?thesis using assms(2) as_run_idle(2) [of s] by simp
qed (auto simp: as_start_def as_enqueue_def as_cancel_def as_cancel_workspace_def as_stop_dispatch_def
    as_wait_idle_def as_idle_woken_def as_run_woken_def as_run_one_finally_def Let_def
    split: prod.splits)

text \<open>\<open>stop_dispatch\<close> is final. It hands back everything that was queued, and from then on
  enqueuing is refused and no step of any task starts another Analysis.\<close>

theorem as_stop_is_final:
  assumes "as_reachable s" "\<not> sc_stopping s" "as_stop_dispatch s = (queued, t)"
    and "as_step\<^sup>*\<^sup>* t u"
  shows "queued = fq_values (as_pending s) \<and> fq_values (as_pending u) = [] \<and>
    set (as_active u) \<subseteq> set (as_active s) \<and>
    fst (as_enqueue key created_at credential u) =
      Inl (SchedulingStopped ''Analysis scheduler is not accepting work'')"
proof -
  have q: "queued = fq_values (as_pending s)" "sc_stopping t" "as_active t = as_active s"
    using assms(2,3) by (auto simp: as_stop_dispatch_def Let_def fq_clear_def)
  have "as_reachable t"
    using as_reachable.step [OF assms(1) as_step.stop_dispatch] assms(3) by simp
  with assms(4) q have u: "as_reachable u \<and> sc_stopping u \<and> set (as_active u) \<subseteq> set (as_active s)"
    by (induction rule: rtranclp_induct) (auto dest: as_step_stopping intro: as_reachable.step)
  then have inv: "as_inv u" by (blast intro: as_reachable_inv)
  then have "fq_inv as_owner (as_pending u)" "\<not> fq_bool (as_pending u)" "\<not> sc_accepting u"
    using u as_queue_invD(1) [OF as_invD(1) [OF inv]] sc_control_invD(5) [OF as_invD(3) [OF inv]]
    by auto
  then show ?thesis
    using q(1) u by (auto simp: as_enqueue_def Let_def fq_values_empty_iff)
qed

theorem as_stop_is_final_witness:
  "fst (as_stop_dispatch as_example) = fq_values (as_pending as_example) \<and>
   fst (as_enqueue key_b 7 None (snd (as_stop_dispatch as_example))) =
      Inl (SchedulingStopped ''Analysis scheduler is not accepting work'')"
proof -
  have "\<not> sc_stopping as_example" by code_simp
  from as_stop_is_final [OF as_example_reachable this prod.collapse [symmetric] rtranclp.rtrancl_refl]
  show ?thesis by blast
qed

text \<open>Cancelling acts on the Analysis exactly where it is. A queued one leaves the queue and its
  removal is reported, a running one has its runner signalled, an unknown one causes no call; every
  other queued Analysis stays queued and the running set does not change.\<close>

theorem as_cancel_spec:
  assumes "as_reachable s"
  shows "fst (as_cancel key s) =
      (if key \<in> sa_key ` set (fq_values (as_pending s)) then CallWorkRemoved key
       else if key \<in> set (as_active s) then CallCancelRunning key else NoCall) \<and>
    sa_key ` set (fq_values (as_pending (snd (as_cancel key s)))) =
      sa_key ` set (fq_values (as_pending s)) - {key} \<and>
    as_active (snd (as_cancel key s)) = as_active s"
proof -
  have inv: "fq_inv as_owner (as_pending s)"
    using as_reachable_inv [OF assms] by (simp add: as_inv_def as_queue_inv_def)
  obtain removed pending where
    r: "fq_remove (ak_user_id key) (\<lambda>item. sa_key item = key) (as_pending s) = (removed, pending)"
    by fastforce
  from aq.keys_remove_key [OF inv, of key] r show ?thesis
    by (auto simp: as_cancel_def Let_def)
qed

theorem as_cancel_spec_witness:
  "fst (as_cancel key_a as_example) = CallCancelRunning key_a \<and>
   fst (as_cancel key_b as_example) = CallWorkRemoved key_b"
proof -
  have "key_a \<notin> sa_key ` set (fq_values (as_pending as_example))"
    "key_a \<in> set (as_active as_example)"
    "key_b \<in> sa_key ` set (fq_values (as_pending as_example))"
    by code_simp+
  then show ?thesis
    using as_cancel_spec [OF as_example_reachable, of key_a]
      as_cancel_spec [OF as_example_reachable, of key_b] by simp
qed

text \<open>Cancelling a Workspace removes all its queued work, signals exactly its running work, and
  leaves every other Workspace's queue alone; what \<open>has_workspace_work\<close> then still reports is
  precisely the signalled work.\<close>

theorem as_cancel_workspace_spec:
  assumes "as_reachable s" "as_cancel_workspace user_id workspace_id s = (signalled, t)"
  shows "set (fq_values (as_pending t)) = {item \<in> set (fq_values (as_pending s)).
      \<not> (ak_user_id (sa_key item) = user_id \<and> ak_workspace_id (sa_key item) = workspace_id)} \<and>
    set signalled = {key \<in> set (as_active s).
      ak_user_id key = user_id \<and> ak_workspace_id key = workspace_id} \<and>
    (as_has_workspace_work user_id workspace_id t \<longleftrightarrow> signalled \<noteq> [])"
proof -
  have inv: "fq_inv as_owner (as_pending s)" "distinct (map sa_key (fq_values (as_pending s)))"
    using as_reachable_inv [OF assms(1)] by (simp_all add: as_inv_def as_queue_inv_def)
  let ?items = "filter (\<lambda>item. ak_workspace_id (sa_key item) = workspace_id)
            (fq_items_for user_id (as_pending s))"
  have t: "as_pending t = fold (\<lambda>item p. snd (fq_remove user_id
            (\<lambda>candidate. sa_key candidate = sa_key item) p)) ?items (as_pending s)"
    "as_active t = as_active s"
    "signalled = filter (\<lambda>key. ak_user_id key = user_id \<and> ak_workspace_id key = workspace_id)
       (as_active s)"
    using assms(2) by (auto simp: as_cancel_workspace_def Let_def)
  note f = fold_remove_keys [OF inv, of user_id ?items, unfolded Let_def, folded t(1)]
  have items: "set ?items = {item \<in> set (fq_values (as_pending s)).
      ak_user_id (sa_key item) = user_id \<and> ak_workspace_id (sa_key item) = workspace_id}"
    by (auto simp: aq.set_items_for [OF inv(1)] as_owner_def)
  have pending: "set (fq_values (as_pending t)) = {item \<in> set (fq_values (as_pending s)).
      \<not> (ak_user_id (sa_key item) = user_id \<and> ak_workspace_id (sa_key item) = workspace_id)}"
    using f inv(2) unfolding items by (auto simp: as_owner_def distinct_map inj_on_def image_iff)
  then show ?thesis
    using f by (auto simp: t(2,3) as_has_workspace_work_def aq.set_items_for as_owner_def
        filter_empty_conv)
qed

theorem as_cancel_workspace_spec_witness:
  "set (fq_values (as_pending (snd (as_cancel_workspace ''b'' ''v'' as_example)))) = {} \<and>
   set (fq_values (as_pending as_example)) \<noteq> {}"
proof -
  have "{item \<in> set (fq_values (as_pending as_example)).
      \<not> (ak_user_id (sa_key item) = ''b'' \<and> ak_workspace_id (sa_key item) = ''v'')} = {}"
    "set (fq_values (as_pending as_example)) \<noteq> {}"
    by code_simp+
  with as_cancel_workspace_spec [OF as_example_reachable prod.collapse [symmetric], of "''b''" "''v''"]
  show ?thesis by simp
qed

end
