(* ===== verification/ImportScheduler.thy ===== *)
theory ImportScheduler
  imports SchedulerCore
begin

text \<open>
  The scheduler of User File Imports, \<^verbatim>\<open>services/user_file_import_scheduler.py\<close>, over the same
  queue and the same control state as the Analysis scheduler.

  What is its own is cancellation by cancel scope. The scope of a running import does not exist until
  its task has been given a turn, so \<open>cancel\<close> leaves a request in the \<open>_ActiveImport\<close> entry, and the
  task looks for it when it binds its scope. A scope is reachable through its entry alone, so the
  entry holds it by value. \<open>ui_starting\<close> are the \<open>_run_one\<close> tasks before that section and
  \<open>ui_running\<close> those that have called the runner.
\<close>

section \<open>State\<close>

record import_key =
  ik_user_id :: user_id
  ik_import_id :: uuid

record scheduled_import =
  si_key :: import_key
  si_created_at :: timestamp

record cancel_scope =
  cs_cancel_called :: bool

record active_import =
  ai_scope :: "cancel_scope option"
  ai_cancellation_requested :: bool

definition si_order_key :: "scheduled_import \<Rightarrow> timestamp \<times> uuid" where
  "si_order_key queued = (si_created_at queued, ik_import_id (si_key queued))"

record import_scheduler = sched_core +
  ui_pending :: "scheduled_import fair_queue"
  ui_active :: "(import_key, active_import) dict"
  ui_starting :: "scheduled_import list"
  ui_running :: "scheduled_import list"

definition ui_init :: "int \<Rightarrow> import_scheduler result" where
  "ui_init capacity =
     (if capacity < 1 then Inl (ValueError ''User File Import capacity must be positive'')
      else Inr \<lparr>sc_capacity = capacity, sc_wake = 0, sc_idle = 1, sc_events = [1],
        sc_next_event = 2, sc_task_group = False, sc_accepting = True, sc_stopping = False,
        sc_dispatcher = NotStarted, sc_idle_waiters = [],
        ui_pending = fq_init, ui_active = [], ui_starting = [], ui_running = []\<rparr>)"

section \<open>Operations\<close>

definition ui_start :: "import_scheduler \<Rightarrow> unit result \<times> import_scheduler" where
  "ui_start s =
     (if sc_task_group s then (Inl (RuntimeError ''User File Import scheduler already started''), s)
      else (Inr (), s\<lparr>sc_task_group := True, sc_dispatcher := LoopHead\<rparr>))"

definition ui_enqueue ::
    "import_key \<Rightarrow> timestamp \<Rightarrow> import_scheduler \<Rightarrow> unit result \<times> import_scheduler" where
  "ui_enqueue key created_at s =
     (let item = \<lparr>si_key = key, si_created_at = created_at\<rparr> in
      if \<not> sc_accepting s \<or> \<not> sc_task_group s then
        (Inl (SchedulingStopped ''User File Import scheduler is not accepting work''), s)
      else if key \<in> set (dict_keys (ui_active s)) \<or>
          (\<exists>queued \<in> set (fq_values (ui_pending s)). si_key queued = key) then
        (Inl (ValueError ''User File Import is already scheduled''), s)
      else
        (Inr (), set_event (sc_wake s)
           (s\<lparr>ui_pending := fq_add si_order_key (ik_user_id key) item (ui_pending s)\<rparr>)))"

datatype cancellation_target = TargetQueued | TargetRunning | TargetMissing

text \<open>\<open>cancellation_requested = True\<close>, and \<open>scope.cancel()\<close> where there is a scope.\<close>

definition ai_cancel :: "active_import \<Rightarrow> active_import" where
  "ai_cancel active =
     (let a = active\<lparr>ai_cancellation_requested := True\<rparr>
      in case ai_scope a of None \<Rightarrow> a | Some scope \<Rightarrow> a\<lparr>ai_scope := Some (scope\<lparr>cs_cancel_called := True\<rparr>)\<rparr>)"

definition ui_cancel ::
    "import_key \<Rightarrow> import_scheduler \<Rightarrow> cancellation_target \<times> import_scheduler" where
  "ui_cancel key s =
     (case fq_remove (ik_user_id key) (\<lambda>item. si_key item = key) (ui_pending s) of
        (removed, pending) \<Rightarrow>
          (let s1 = s\<lparr>ui_pending := pending\<rparr>
           in if removed \<noteq> [] then (TargetQueued, set_event (sc_wake s1) s1)
              else case map_of (ui_active s1) key of
                None \<Rightarrow> (TargetMissing, s1)
              | Some active \<Rightarrow>
                  (TargetRunning, s1\<lparr>ui_active := AList.update key (ai_cancel active) (ui_active s1)\<rparr>)))"

definition ui_stop_dispatch ::
    "import_scheduler \<Rightarrow> scheduled_import list \<times> import_scheduler" where
  "ui_stop_dispatch s =
     (if sc_stopping s then ([], s)
      else
        (let s1 = s\<lparr>sc_accepting := False, sc_stopping := True\<rparr>;
             (queued, pending) = fq_clear (ui_pending s1)
         in (queued, set_event (sc_wake s1) (s1\<lparr>ui_pending := pending\<rparr>))))"

definition ui_cancel_active :: "import_scheduler \<Rightarrow> import_key list \<times> import_scheduler" where
  "ui_cancel_active s =
     (dict_keys (ui_active s),
      s\<lparr>ui_active := map (\<lambda>(key, active). (key, ai_cancel active)) (ui_active s)\<rparr>)"

text \<open>One turn of \<open>wait_idle\<close>: \<open>None\<close> when it returns, or the event it goes on to wait for.\<close>

definition ui_wait_idle :: "import_scheduler \<Rightarrow> nat option \<times> import_scheduler" where
  "ui_wait_idle s =
     (if ui_active s = [] then (None, s)
      else (Some (sc_idle s), s\<lparr>sc_idle_waiters := sc_idle s # sc_idle_waiters s\<rparr>))"

definition ui_idle_woken :: "nat \<Rightarrow> import_scheduler \<Rightarrow> import_scheduler" where
  "ui_idle_woken e s = s\<lparr>sc_idle_waiters := remove1 e (sc_idle_waiters s)\<rparr>"

text \<open>One lock section of the dispatch loop \<open>_run\<close>, from the loop head.\<close>

definition ui_run :: "import_scheduler \<Rightarrow> import_scheduler" where
  "ui_run s =
     (if sc_stopping s then s\<lparr>sc_dispatcher := Returned\<rparr>
      else if fq_bool (ui_pending s) \<and> int (length (ui_active s)) < sc_capacity s then
        (case fq_pop (ui_pending s) of
           (Inl e, pending) \<Rightarrow> s\<lparr>ui_pending := pending, sc_dispatcher := Crashed e\<rparr>
         | (Inr item, pending) \<Rightarrow>
             (let s1 = s\<lparr>ui_pending := pending\<rparr>;
                  s2 = (if ui_active s1 = [] then fresh_idle s1 else s1);
                  s3 = s2\<lparr>ui_active := AList.update (si_key item)
                    \<lparr>ai_scope = None, ai_cancellation_requested = False\<rparr> (ui_active s2)\<rparr>
              in if \<not> sc_task_group s3 then s3\<lparr>sc_dispatcher := Crashed (RuntimeError ''assert'')\<rparr>
                 else s3\<lparr>ui_starting := item # ui_starting s3, sc_dispatcher := LoopHead\<rparr>))
      else s\<lparr>sc_dispatcher := Waiting (sc_wake s)\<rparr>)"

text \<open>The section after \<open>await wake.wait()\<close>.\<close>

definition ui_run_woken :: "nat \<Rightarrow> import_scheduler \<Rightarrow> import_scheduler" where
  "ui_run_woken wake s =
     (let s1 = (if sc_wake s = wake then fresh_wake s else s)
      in s1\<lparr>sc_dispatcher := LoopHead\<rparr>)"

text \<open>The first section of \<open>_run_one\<close>: bind the scope, and cancel it when that was requested. A
  missing entry would be a \<open>KeyError\<close>, which \<open>_run_one\<close> logs before its \<open>finally\<close> section.\<close>

definition ui_run_one_bind ::
    "scheduled_import \<Rightarrow> import_scheduler \<Rightarrow> unit result \<times> import_scheduler" where
  "ui_run_one_bind item s =
     (case map_of (ui_active s) (si_key item) of
        None \<Rightarrow> (Inl (KeyError ''item.key''), s)
      | Some active \<Rightarrow>
          (let scope = \<lparr>cs_cancel_called = False\<rparr>;
               scope' = (if ai_cancellation_requested active then scope\<lparr>cs_cancel_called := True\<rparr>
                         else scope)
           in (Inr (), s\<lparr>ui_active := AList.update (si_key item)
                            (active\<lparr>ai_scope := Some scope'\<rparr>) (ui_active s),
                  ui_starting := remove1 item (ui_starting s),
                  ui_running := item # ui_running s\<rparr>)))"

text \<open>The \<open>finally\<close> section of \<open>_run_one\<close>, which a task reaches from either place.\<close>

definition ui_run_one_finally :: "scheduled_import \<Rightarrow> import_scheduler \<Rightarrow> import_scheduler" where
  "ui_run_one_finally item s =
     (let s1 = s\<lparr>ui_active := AList.delete (si_key item) (ui_active s)\<rparr>;
          s2 = (if ui_active s1 = [] then set_event (sc_idle s1) s1 else s1);
          s3 = set_event (sc_wake s2) s2
      in s3\<lparr>ui_starting := remove1 item (ui_starting s3),
            ui_running := remove1 item (ui_running s3)\<rparr>)"

section \<open>Interleaving\<close>

inductive ui_step :: "import_scheduler \<Rightarrow> import_scheduler \<Rightarrow> bool" where
  start: "ui_step s (snd (ui_start s))"
| enqueue: "ui_step s (snd (ui_enqueue key created_at s))"
| cancel: "ui_step s (snd (ui_cancel key s))"
| cancel_active: "ui_step s (snd (ui_cancel_active s))"
| stop_dispatch: "ui_step s (snd (ui_stop_dispatch s))"
| wait_idle: "ui_step s (snd (ui_wait_idle s))"
| idle_woken: "e \<in> set (sc_idle_waiters s) \<Longrightarrow> event_is_set s e \<Longrightarrow> ui_step s (ui_idle_woken e s)"
| run: "sc_dispatcher s = LoopHead \<Longrightarrow> ui_step s (ui_run s)"
| run_woken: "sc_dispatcher s = Waiting wake \<Longrightarrow> event_is_set s wake \<Longrightarrow>
    ui_step s (ui_run_woken wake s)"
| run_one_bind: "item \<in> set (ui_starting s) \<Longrightarrow> ui_step s (snd (ui_run_one_bind item s))"
| run_one_finally: "item \<in> set (ui_starting s @ ui_running s) \<Longrightarrow>
    ui_step s (ui_run_one_finally item s)"

inductive ui_reachable :: "import_scheduler \<Rightarrow> bool" where
  init: "ui_init capacity = Inr s \<Longrightarrow> ui_reachable s"
| step: "ui_reachable s \<Longrightarrow> ui_step s t \<Longrightarrow> ui_reachable t"

section \<open>Invariant\<close>

definition ui_owner :: "scheduled_import \<Rightarrow> user_id" where
  "ui_owner item = ik_user_id (si_key item)"

interpretation uq: keyed_queue fq_init "fq_add si_order_key" fq_pop fq_remove fq_items_for
  fq_values fq_bool fq_clear "fq_inv ui_owner" ui_owner si_key ik_user_id
  by unfold_locales (simp add: ui_owner_def)

abbreviation ui_tasks :: "import_scheduler \<Rightarrow> scheduled_import list" where
  "ui_tasks s \<equiv> ui_starting s @ ui_running s"

definition ui_queue_inv :: "import_scheduler \<Rightarrow> bool" where
  "ui_queue_inv s \<longleftrightarrow>
     fq_inv ui_owner (ui_pending s) \<and>
     distinct (map si_key (fq_values (ui_pending s))) \<and>
     wf_dict (ui_active s) \<and>
     si_key ` set (fq_values (ui_pending s)) \<inter> fst ` set (ui_active s) = {} \<and>
     0 < sc_capacity s \<and> int (length (ui_active s)) \<le> sc_capacity s"

text \<open>Every entry belongs to one task; its scope exists once the task has bound it, and is cancelled
  exactly when cancellation has been requested.\<close>

definition ui_entry_ok :: "bool \<Rightarrow> active_import \<Rightarrow> bool" where
  "ui_entry_ok starting e \<longleftrightarrow>
     (case ai_scope e of None \<Rightarrow> starting
      | Some sc \<Rightarrow> \<not> starting \<and> cs_cancel_called sc = ai_cancellation_requested e)"

definition ui_task_inv :: "import_scheduler \<Rightarrow> bool" where
  "ui_task_inv s \<longleftrightarrow>
     distinct (map si_key (ui_tasks s)) \<and>
     (\<forall>k. k \<in> si_key ` set (ui_tasks s) \<longleftrightarrow> map_of (ui_active s) k \<noteq> None) \<and>
     (\<forall>k e. map_of (ui_active s) k = Some e \<longrightarrow> ui_entry_ok (k \<in> si_key ` set (ui_starting s)) e)"

abbreviation ui_work :: "import_scheduler \<Rightarrow> bool" where
  "ui_work s \<equiv> fq_bool (ui_pending s)"

abbreviation ui_free :: "import_scheduler \<Rightarrow> bool" where
  "ui_free s \<equiv> int (length (ui_active s)) < sc_capacity s"

definition ui_inv :: "import_scheduler \<Rightarrow> bool" where
  "ui_inv s \<longleftrightarrow> ui_queue_inv s \<and> ui_task_inv s \<and> sc_event_inv (ui_active s = []) s \<and>
     sc_control_inv (ui_work s) (ui_free s) s"

lemma ui_invD:
  assumes "ui_inv s"
  shows "ui_queue_inv s" "ui_task_inv s" "sc_event_inv (ui_active s = []) s"
    "sc_control_inv (ui_work s) (ui_free s) s"
  using assms by (simp_all add: ui_inv_def)

lemma ui_queue_invD:
  assumes "ui_queue_inv s"
  shows "fq_inv ui_owner (ui_pending s)"
    "distinct (map si_key (fq_values (ui_pending s)))"
    "wf_dict (ui_active s)"
    "si_key ` set (fq_values (ui_pending s)) \<inter> fst ` set (ui_active s) = {}"
    "0 < sc_capacity s" "int (length (ui_active s)) \<le> sc_capacity s"
  using assms by (simp_all add: ui_queue_inv_def)

subsection \<open>Each operation keeps the queue part\<close>

lemma ui_queue_inv_cong:
  "ui_pending t = ui_pending s \<Longrightarrow> ui_active t = ui_active s \<Longrightarrow> sc_capacity t = sc_capacity s \<Longrightarrow>
   ui_queue_inv t = ui_queue_inv s"
  by (simp add: ui_queue_inv_def)

lemma ui_task_inv_cong:
  "ui_active t = ui_active s \<Longrightarrow> ui_starting t = ui_starting s \<Longrightarrow> ui_running t = ui_running s \<Longrightarrow>
   ui_task_inv t = ui_task_inv s"
  by (simp add: ui_task_inv_def)

lemma ui_queue_inv_enqueue:
  assumes "ui_queue_inv s"
  shows "ui_queue_inv (snd (ui_enqueue key created_at s))"
proof (cases "key \<in> fst ` set (ui_active s) \<or> key \<in> si_key ` set (fq_values (ui_pending s))")
  case True
  with assms show ?thesis by (auto simp: ui_enqueue_def Let_def image_iff)
next
  case False
  let ?item = "\<lparr>si_key = key, si_created_at = created_at\<rparr>"
  note D = ui_queue_invD [OF assms]
  let ?q = "fq_add si_order_key (ik_user_id key) ?item (ui_pending s)"
  have "fq_inv ui_owner ?q" using D(1) by (rule fq_inv_add) (simp add: ui_owner_def)
  moreover have "distinct (map si_key (fq_values ?q))"
    using uq.distinct_add [OF D(1,2), of ?item] False by simp
  moreover have "si_key ` set (fq_values ?q) = insert key (si_key ` set (fq_values (ui_pending s)))"
    using uq.keys_add [OF D(1), of ?item] by simp
  ultimately show ?thesis using assms False
    by (auto simp: ui_enqueue_def Let_def ui_queue_inv_def)
qed

lemma ui_queue_inv_cancel:
  assumes "ui_queue_inv s"
  shows "ui_queue_inv (snd (ui_cancel key s))"
proof -
  note D = ui_queue_invD [OF assms]
  obtain removed pending where
    r: "fq_remove (ik_user_id key) (\<lambda>item. si_key item = key) (ui_pending s) = (removed, pending)"
    by fastforce
  have "fq_inv ui_owner pending" "distinct (map si_key (fq_values pending))"
    "set (fq_values pending) \<subseteq> set (fq_values (ui_pending s))"
    using fq_inv_remove [OF D(1)] uq.distinct_remove [OF D(1,2)] uq.set_remove [OF D(1)] r
    by (metis snd_conv, metis snd_conv, metis (no_types, lifting) snd_conv mem_Collect_eq subsetI)
  with D show ?thesis
    by (auto simp: ui_cancel_def r ui_queue_inv_def Let_def map_of_None_iff_keys length_update_dict
        dict_keys_dom update_conv' split: option.splits if_splits)
qed

lemma ui_queue_inv_cancel_active: "ui_queue_inv s \<Longrightarrow> ui_queue_inv (snd (ui_cancel_active s))"
  by (simp add: ui_cancel_active_def ui_queue_inv_def case_prod_unfold comp_def image_image)

lemma ui_queue_inv_run_one_finally: "ui_queue_inv s \<Longrightarrow> ui_queue_inv (ui_run_one_finally item s)"
  using AList.length_delete_le [of "si_key item" "ui_active s"]
  by (auto simp: ui_run_one_finally_def ui_queue_inv_def Let_def)

lemma ui_queue_inv_bind: "ui_queue_inv s \<Longrightarrow> ui_queue_inv (snd (ui_run_one_bind item s))"
  by (auto simp: ui_run_one_bind_def ui_queue_inv_def length_update_dict dict_keys_dom
      update_conv' Let_def split: option.splits if_splits)

lemma ui_run_dispatch:
  assumes "ui_queue_inv s" "sc_task_group s" "\<not> sc_stopping s" "ui_work s" "ui_free s"
  obtains item pending where
    "fq_pop (ui_pending s) = (Inr item, pending)" "si_key item \<notin> fst ` set (ui_active s)"
    "ui_run s = (if ui_active s = [] then fresh_idle s else s)
      \<lparr>ui_pending := pending,
       ui_active := ui_active s @ [(si_key item, \<lparr>ai_scope = None, ai_cancellation_requested = False\<rparr>)],
       ui_starting := item # ui_starting s, sc_dispatcher := LoopHead\<rparr>"
proof -
  note D = ui_queue_invD [OF assms(1)]
  obtain item pending where p: "fq_pop (ui_pending s) = (Inr item, pending)"
    using fair.pop_ok [OF D(1) assms(4)] by blast
  have "si_key item \<notin> fst ` set (ui_active s)"
    using uq.keys_pop(3) [OF D(1,2) p] D(4) by blast
  with assms p show thesis
    by (intro that [of item pending]) (auto simp: ui_run_def Let_def update_absent)
qed

lemma ui_run_idle:
  assumes "sc_stopping s \<or> \<not> (ui_work s \<and> ui_free s)"
  shows "ui_run s = s\<lparr>sc_dispatcher := (if sc_stopping s then Returned else Waiting (sc_wake s))\<rparr>"
  using assms by (auto simp: ui_run_def)

lemma ui_queue_inv_run:
  assumes "ui_queue_inv s" "sc_task_group s"
  shows "ui_queue_inv (ui_run s)"
proof (cases "ui_work s \<and> ui_free s \<and> \<not> sc_stopping s")
  case True
  note D = ui_queue_invD [OF assms(1)]
  from True have ready: "\<not> sc_stopping s" "ui_work s" "ui_free s" by auto
  obtain item pending where r: "fq_pop (ui_pending s) = (Inr item, pending)"
    "si_key item \<notin> fst ` set (ui_active s)"
    and t: "ui_run s = (if ui_active s = [] then fresh_idle s else s)
      \<lparr>ui_pending := pending,
       ui_active := ui_active s @ [(si_key item, \<lparr>ai_scope = None, ai_cancellation_requested = False\<rparr>)],
       ui_starting := item # ui_starting s, sc_dispatcher := LoopHead\<rparr>"
    by (rule ui_run_dispatch [OF assms ready])
  have "fq_inv ui_owner pending" by (rule fair.invar_pop [OF D(1) r(1)])
  with r(2) uq.keys_pop [OF D(1,2) r(1)] D ready(3)
  show ?thesis unfolding t by (auto simp: ui_queue_inv_def)
next
  case False
  then have "sc_stopping s \<or> \<not> (ui_work s \<and> ui_free s)" by blast
  with assms(1) show ?thesis by (simp add: ui_run_idle ui_queue_inv_def)
qed

subsection \<open>Each operation keeps the task part\<close>

lemma ui_task_invD:
  assumes "ui_task_inv s"
  shows "distinct (map si_key (ui_tasks s))"
    "k \<in> si_key ` set (ui_tasks s) \<longleftrightarrow> map_of (ui_active s) k \<noteq> None"
    "map_of (ui_active s) k = Some e \<Longrightarrow> ui_entry_ok (k \<in> si_key ` set (ui_starting s)) e"
  using assms unfolding ui_task_inv_def by (simp, blast, blast)

lemma ui_entry_ok_cancelI: "ui_entry_ok b e \<Longrightarrow> ui_entry_ok b (ai_cancel e)"
  by (auto simp: ui_entry_ok_def ai_cancel_def split: option.splits)

lemma ui_task_inv_cancel:
  assumes "ui_task_inv s"
  shows "ui_task_inv (snd (ui_cancel key s))"
  using ui_task_invD [OF assms]
  by (auto simp: ui_cancel_def ui_task_inv_def update_conv' ui_entry_ok_cancelI Let_def
      split: prod.splits option.splits if_splits)

lemma ui_task_inv_cancel_active:
  assumes "ui_task_inv s"
  shows "ui_task_inv (snd (ui_cancel_active s))"
  using ui_task_invD [OF assms]
  by (auto simp: ui_cancel_active_def ui_task_inv_def map_of_map ui_entry_ok_cancelI)

lemma distinct_map_remove1_keys:
  assumes "distinct (map f xs)" "x \<in> set xs"
  shows "f ` set (remove1 x xs) = f ` set xs - {f x}" "distinct (map f (remove1 x xs))"
  using assms by (auto simp: distinct_map inj_on_def distinct_remove1 dest: notin_set_remove1)

lemma ui_task_inv_bind:
  assumes "ui_task_inv s" "item \<in> set (ui_starting s)"
  shows "ui_task_inv (snd (ui_run_one_bind item s))"
proof -
  note D = ui_task_invD [OF assms(1)]
  from D(1) have "distinct (map si_key (ui_starting s))" by simp
  note R = distinct_map_remove1_keys [OF this assms(2)]
  obtain active where a: "map_of (ui_active s) (si_key item) = Some active"
    using D(2) [of "si_key item"] assms(2) by auto
  let ?t = "snd (ui_run_one_bind item s)"
  have "set (ui_tasks ?t) = set (ui_tasks s)"
    using insert_remove1 [OF assms(2)] by (auto simp: ui_run_one_bind_def a Let_def)
  moreover have "distinct (map si_key (ui_tasks ?t))"
    using D(1) R assms(2) by (auto simp: ui_run_one_bind_def a Let_def)
  moreover have "ui_entry_ok (k \<in> si_key ` set (ui_starting ?t)) e"
    if "map_of (ui_active ?t) k = Some e" for k e
    using that R(1) D(3) [of k e]
    by (auto simp: ui_run_one_bind_def a update_conv' ui_entry_ok_def Let_def
        split: if_splits option.splits)
  moreover have "(map_of (ui_active ?t) k \<noteq> None) = (map_of (ui_active s) k \<noteq> None)" for k
    using a by (simp add: ui_run_one_bind_def update_conv' Let_def)
  ultimately show ?thesis
    using D(2) unfolding ui_task_inv_def by (metis image_cong)
qed

lemma distinct_map_remove1: "distinct (map f xs) \<Longrightarrow> distinct (map f (remove1 x xs))"
  by (induction xs) (auto dest!: set_remove1_subset [THEN subsetD] simp: image_iff)

lemma ui_task_inv_run_one_finally:
  assumes "ui_task_inv s" "item \<in> set (ui_tasks s)"
  shows "ui_task_inv (ui_run_one_finally item s)"
proof -
  note D = ui_task_invD [OF assms(1)]
  let ?t = "ui_run_one_finally item s"
  have inj: "inj_on si_key (set (ui_tasks s))" using D(1) unfolding distinct_map by blast
  have d: "distinct (ui_starting s)" "distinct (ui_running s)"
    using D(1) by (simp_all add: distinct_map)
  then have mem: "set (ui_starting ?t) = set (ui_starting s) - {item}"
    "set (ui_running ?t) = set (ui_running s) - {item}"
    by (simp_all add: ui_run_one_finally_def Let_def)
  have keys: "si_key ` set (ui_starting ?t) = si_key ` set (ui_starting s) - {si_key item}"
    "si_key ` set (ui_tasks ?t) = si_key ` set (ui_tasks s) - {si_key item}"
    using inj_on_image_set_diff [OF inj, of "set (ui_starting s)" "{item}"]
      inj_on_image_set_diff [OF inj, of "set (ui_tasks s)" "{item}"] assms(2) mem
    by (auto simp: Un_Diff)
  have "distinct (map si_key (ui_tasks ?t))"
    using D(1) keys(1) image_mono [OF set_remove1_subset, of si_key item "ui_running s"]
    by (auto simp: ui_run_one_finally_def Let_def distinct_map_remove1 simp del: image_mono)
  moreover have "ui_active ?t = AList.delete (si_key item) (ui_active s)"
    by (simp add: ui_run_one_finally_def Let_def)
  ultimately show ?thesis
    using D(2,3) keys unfolding ui_task_inv_def by (auto simp: delete_conv' split: if_splits)
qed

lemma ui_task_inv_run:
  assumes "ui_task_inv s" "ui_queue_inv s" "sc_task_group s"
  shows "ui_task_inv (ui_run s)"
proof (cases "ui_work s \<and> ui_free s \<and> \<not> sc_stopping s")
  case True
  then have ready: "\<not> sc_stopping s" "ui_work s" "ui_free s" by auto
  obtain item pending where new: "si_key item \<notin> fst ` set (ui_active s)"
    and t: "ui_run s = (if ui_active s = [] then fresh_idle s else s)
      \<lparr>ui_pending := pending,
       ui_active := ui_active s @ [(si_key item, \<lparr>ai_scope = None, ai_cancellation_requested = False\<rparr>)],
       ui_starting := item # ui_starting s, sc_dispatcher := LoopHead\<rparr>"
    by (rule ui_run_dispatch [OF assms(2,3) ready])
  note D = ui_task_invD [OF assms(1)]
  have none: "map_of (ui_active s) (si_key item) = None"
    using new by (simp add: map_of_None_iff_keys)
  then have "si_key item \<notin> si_key ` set (ui_tasks s)" using D(2) by simp
  then have "distinct (map si_key (item # ui_tasks s))" using D(1) by (simp add: image_Un)
  moreover have "(k \<in> si_key ` set (item # ui_tasks s)) = (k = si_key item \<or> map_of (ui_active s) k \<noteq> None)"
    for k using D(2) [of k] by auto
  moreover have "ui_entry_ok (k \<in> si_key ` set (item # ui_starting s)) e"
    if "map_of (ui_active s) k = Some e" "k \<noteq> si_key item" for k e
    using D(3) [OF that(1)] that(2) by (simp add: image_iff)
  moreover have "ui_entry_ok True \<lparr>ai_scope = None, ai_cancellation_requested = False\<rparr>"
    by (simp add: ui_entry_ok_def)
  moreover have "map_of (ui_active (ui_run s)) k = (if k = si_key item
      then Some \<lparr>ai_scope = None, ai_cancellation_requested = False\<rparr> else map_of (ui_active s) k)" for k
    using none by (simp add: t map_add_def split: option.splits)
  ultimately show ?thesis
    unfolding ui_task_inv_def by (simp add: t)
next
  case False
  then have "sc_stopping s \<or> \<not> (ui_work s \<and> ui_free s)" by blast
  with assms(1) show ?thesis by (simp add: ui_run_idle ui_task_inv_def)
qed

subsection \<open>Each operation keeps the invariant\<close>

lemma ui_inv_init: "ui_init capacity = Inr s \<Longrightarrow> ui_inv s"
  by (auto simp: ui_init_def ui_inv_def ui_queue_inv_def ui_task_inv_def sc_event_inv_def
      sc_control_inv_def fq_inv_init fair.vals_init split: if_splits)

lemma ui_inv_start: "ui_inv s \<Longrightarrow> ui_inv (snd (ui_start s))"
  by (cases "sc_task_group s")
    (auto simp: ui_start_def ui_inv_def ui_queue_inv_def ui_task_inv_def sc_event_inv_def
      sc_control_inv_def)

lemma ui_pending_mono:
  "ui_queue_inv s \<Longrightarrow> ui_queue_inv t \<Longrightarrow>
   set (fq_values (ui_pending t)) \<subseteq> set (fq_values (ui_pending s)) \<Longrightarrow> ui_work t \<Longrightarrow> ui_work s"
  by (auto simp: ui_queue_inv_def fq_values_empty_iff)

text \<open>An operation that touches the queue and the entries, and perhaps signals the loop.\<close>

lemma ui_inv_frame:
  assumes "ui_inv s" "ui_queue_inv t" "ui_task_inv t"
    and "ui_active t = [] \<longleftrightarrow> ui_active s = []" "length (ui_active t) = length (ui_active s)"
    and "sc_dispatcher t = sc_dispatcher s" "sc_task_group t = sc_task_group s"
      "sc_accepting t = sc_accepting s" "sc_stopping t = sc_stopping s" "sc_wake t = sc_wake s"
      "sc_idle t = sc_idle s" "sc_next_event t = sc_next_event s" "sc_capacity t = sc_capacity s"
      "sc_idle_waiters t = sc_idle_waiters s"
    and "sc_events t = sc_events s \<and> (ui_work t \<longrightarrow> ui_work s) \<or>
      sc_events t = List.insert (sc_wake s) (sc_events s) \<and> (sc_stopping s \<longrightarrow> \<not> ui_work t)"
  shows "ui_inv t"
proof -
  note I = ui_invD [OF assms(1)]
  have "sc_event_inv (ui_active s = []) t"
    using I(3) assms(10-15) unfolding sc_event_inv_def by auto
  moreover have "sc_control_inv (ui_work t) (ui_free t) t"
    using I(4) assms(5-15) unfolding sc_control_inv_def by (auto split: dispatcher.splits)
  ultimately show ?thesis using assms(2-4) by (simp add: ui_inv_def)
qed

lemma ui_inv_enqueue:
  assumes "ui_inv s"
  shows "ui_inv (snd (ui_enqueue key created_at s))"
  using sc_control_invD(5) [OF ui_invD(4) [OF assms]] ui_task_inv_cong [of "snd (ui_enqueue key created_at s)" s]
  by (intro ui_inv_frame [OF assms ui_queue_inv_enqueue [OF ui_invD(1) [OF assms]]])
    (use ui_invD(2) [OF assms] in \<open>auto simp: ui_enqueue_def Let_def\<close>)

lemma ui_inv_cancel:
  assumes "ui_inv s"
  shows "ui_inv (snd (ui_cancel key s))"
proof -
  note I = ui_invD [OF assms]
  note q = ui_queue_inv_cancel [OF I(1), of key]
  have "set (fq_values (ui_pending (snd (ui_cancel key s)))) \<subseteq> set (fq_values (ui_pending s))"
    using uq.set_remove [OF ui_queue_invD(1) [OF I(1)], of "ik_user_id key"]
    by (auto simp: ui_cancel_def Let_def split: prod.splits option.splits)
      (metis (no_types, lifting) mem_Collect_eq snd_conv)+
  from ui_pending_mono [OF I(1) q this] sc_control_invD(5) [OF I(4)] show ?thesis
    by (intro ui_inv_frame [OF assms q ui_task_inv_cancel [OF I(2)]])
      (auto simp: ui_cancel_def Let_def length_update_dict dict_keys_dom
        split: prod.splits option.splits)
qed

lemma ui_inv_cancel_active:
  assumes "ui_inv s"
  shows "ui_inv (snd (ui_cancel_active s))"
  using ui_queue_inv_cancel_active [OF ui_invD(1) [OF assms]]
    ui_task_inv_cancel_active [OF ui_invD(2) [OF assms]]
  by (intro ui_inv_frame [OF assms]) (simp_all add: ui_cancel_active_def)

lemma ui_inv_stop_dispatch:
  assumes "ui_inv s"
  shows "ui_inv (snd (ui_stop_dispatch s))"
proof (cases "sc_stopping s")
  case False
  note I = ui_invD [OF assms]
  let ?t = "set_event (sc_wake s) (s\<lparr>sc_accepting := False, sc_stopping := True\<rparr>)"
  have t: "snd (ui_stop_dispatch s) = ?t\<lparr>ui_pending := snd (fq_clear (ui_pending s))\<rparr>"
    using False by (simp add: ui_stop_dispatch_def split: prod.splits)
  have "ui_queue_inv (snd (ui_stop_dispatch s))"
    using I(1) unfolding t by (simp add: ui_queue_inv_def fq_inv_clear fair.vals_clear)
  moreover have "sc_control_inv False f ?t" for f by (rule sc_control_inv_stop [OF I(4)])
  ultimately show ?thesis
    using I(2,3) unfolding t
    by (auto simp: ui_inv_def ui_task_inv_def sc_event_inv_def sc_control_inv_def
        fq_clear_def fq_bool_def split: dispatcher.splits)
qed (use assms in \<open>simp add: ui_stop_dispatch_def\<close>)

lemma ui_inv_wait_idle: "ui_inv s \<Longrightarrow> ui_inv (snd (ui_wait_idle s))"
  by (auto simp: ui_wait_idle_def ui_inv_def ui_queue_inv_def ui_task_inv_def sc_event_inv_def
      sc_control_inv_def split: dispatcher.splits)

lemma ui_inv_idle_woken: "ui_inv s \<Longrightarrow> ui_inv (ui_idle_woken e s)"
  using sc_event_inv_woken [of "ui_active s = []" s e]
  by (simp add: ui_idle_woken_def ui_inv_def ui_queue_inv_def ui_task_inv_def sc_control_inv_def
      split: dispatcher.splits)

lemma ui_inv_run:
  assumes "ui_inv s" "sc_dispatcher s = LoopHead"
  shows "ui_inv (ui_run s)"
proof -
  note I = ui_invD [OF assms(1)]
  have tg: "sc_task_group s" by (rule sc_control_invD(1) [OF I(4) assms(2)])
  note q = ui_queue_inv_run [OF I(1) tg] and k = ui_task_inv_run [OF I(2,1) tg]
  show ?thesis
  proof (cases "ui_work s \<and> ui_free s \<and> \<not> sc_stopping s")
    case True
    then have ready: "\<not> sc_stopping s" "ui_work s" "ui_free s" by auto
    obtain item pending where
      t: "ui_run s = (if ui_active s = [] then fresh_idle s else s)
      \<lparr>ui_pending := pending,
       ui_active := ui_active s @ [(si_key item, \<lparr>ai_scope = None, ai_cancellation_requested = False\<rparr>)],
       ui_starting := item # ui_starting s, sc_dispatcher := LoopHead\<rparr>"
      by (rule ui_run_dispatch [OF I(1) tg ready])
    have "sc_event_inv False (ui_run s)"
      using I(3) unfolding t by (auto simp: sc_event_inv_def less_Suc_eq)
    moreover have "sc_control_inv w f (ui_run s)" for w f
      using I(4) tg True unfolding t by (auto simp: sc_control_inv_def)
    ultimately show ?thesis using q k by (simp add: ui_inv_def t)
  next
    case False
    then have t: "ui_run s =
        s\<lparr>sc_dispatcher := (if sc_stopping s then Returned else Waiting (sc_wake s))\<rparr>"
      by (intro ui_run_idle) blast
    show ?thesis
      using q k I(3,4) False tg unfolding t
      by (auto simp: ui_inv_def sc_event_inv_def sc_control_inv_def)
  qed
qed

lemma ui_inv_run_woken:
  assumes "ui_inv s" "sc_dispatcher s = Waiting wake"
  shows "ui_inv (ui_run_woken wake s)"
  using ui_invD [OF assms(1)] assms(2)
  by (auto simp: ui_run_woken_def ui_inv_def ui_queue_inv_def ui_task_inv_def sc_event_inv_def
      sc_control_inv_def less_Suc_eq)

lemma ui_inv_run_one_bind:
  assumes "ui_inv s" "item \<in> set (ui_starting s)"
  shows "ui_inv (snd (ui_run_one_bind item s))"
  using ui_queue_inv_bind [OF ui_invD(1) [OF assms(1)]]
    ui_task_inv_bind [OF ui_invD(2) [OF assms(1)] assms(2)]
  by (intro ui_inv_frame [OF assms(1)])
    (auto simp: ui_run_one_bind_def Let_def length_update_dict dict_keys_dom split: option.splits)

lemma ui_inv_run_one_finally:
  assumes "ui_inv s" "item \<in> set (ui_tasks s)"
  shows "ui_inv (ui_run_one_finally item s)"
proof -
  note I = ui_invD [OF assms(1)]
  let ?t = "ui_run_one_finally item s"
  have "ui_active s \<noteq> []"
    using ui_task_invD(2) [OF I(2), of "si_key item"] assms(2) by fastforce
  then have "sc_event_inv (ui_active ?t = []) ?t"
    using I(3) by (auto simp: ui_run_one_finally_def Let_def sc_event_inv_def)
  moreover have "sc_control_inv (ui_work ?t) f ?t" for f
    using I(4) by (auto simp: ui_run_one_finally_def Let_def sc_control_inv_def split: dispatcher.splits)
  ultimately show ?thesis
    using ui_queue_inv_run_one_finally [OF I(1)] ui_task_inv_run_one_finally [OF I(2) assms(2)]
    by (simp add: ui_inv_def)
qed

lemma ui_inv_step: "ui_step s t \<Longrightarrow> ui_inv s \<Longrightarrow> ui_inv t"
  by (induction rule: ui_step.induct)
    (simp_all add: ui_inv_start ui_inv_enqueue ui_inv_cancel ui_inv_cancel_active
      ui_inv_stop_dispatch ui_inv_wait_idle ui_inv_idle_woken ui_inv_run ui_inv_run_woken
      ui_inv_run_one_bind ui_inv_run_one_finally)

lemma ui_reachable_inv: "ui_reachable s \<Longrightarrow> ui_inv s"
  by (induction rule: ui_reachable.induct) (auto intro: ui_inv_init ui_inv_step)

section \<open>Properties\<close>

text \<open>Capacity one, two imports of one user, the first started and not yet given a turn.\<close>

definition ikey_1 :: import_key where
  "ikey_1 = \<lparr>ik_user_id = ''a'', ik_import_id = ''1''\<rparr>"

definition ikey_2 :: import_key where
  "ikey_2 = \<lparr>ik_user_id = ''a'', ik_import_id = ''2''\<rparr>"

definition ui_example_queued :: import_scheduler where
  "ui_example_queued = snd (ui_enqueue ikey_2 2 (snd (ui_enqueue ikey_1 1
     (snd (ui_start (projr (ui_init 1)))))))"

definition ui_example :: import_scheduler where
  "ui_example = ui_run ui_example_queued"

definition ui_example_cancelled :: import_scheduler where
  "ui_example_cancelled = snd (ui_cancel ikey_1 ui_example)"

definition ui_example_bound :: import_scheduler where
  "ui_example_bound = snd (ui_run_one_bind (hd (ui_starting ui_example_cancelled)) ui_example_cancelled)"

lemma ui_example_reachable: "ui_reachable ui_example"
proof -
  have r: "ui_reachable ui_example_queued"
    unfolding ui_example_queued_def
    by (intro ui_reachable.step [OF _ ui_step.enqueue] ui_reachable.step [OF _ ui_step.start]
        ui_reachable.init [of 1]) (simp add: ui_init_def)
  have "sc_dispatcher ui_example_queued = LoopHead" by code_simp
  then show ?thesis
    unfolding ui_example_def by (intro ui_reachable.step [OF r] ui_step.run)
qed

lemma ui_example_cancelled_reachable: "ui_reachable ui_example_cancelled"
  unfolding ui_example_cancelled_def
  by (rule ui_reachable.step [OF ui_example_reachable ui_step.cancel])

lemma ui_example_bound_reachable: "ui_reachable ui_example_bound"
proof -
  have "hd (ui_starting ui_example_cancelled) \<in> set (ui_starting ui_example_cancelled)" by code_simp
  then show ?thesis
    unfolding ui_example_bound_def
    by (intro ui_reachable.step [OF ui_example_cancelled_reachable] ui_step.run_one_bind)
qed

text \<open>The import scheduler never exceeds its capacity, never schedules an import twice, has
  exactly one task for every occupied slot, and neither its dispatch loop nor the first section of
  a task can raise.\<close>

theorem ui_capacity_and_uniqueness:
  assumes "ui_reachable s"
  shows "int (length (ui_active s)) \<le> sc_capacity s \<and>
    distinct (map si_key (fq_values (ui_pending s)) @ dict_keys (ui_active s)) \<and>
    distinct (map si_key (ui_tasks s)) \<and> si_key ` set (ui_tasks s) = set (dict_keys (ui_active s)) \<and>
    \<not> is_crashed (sc_dispatcher s) \<and>
    (\<forall>item \<in> set (ui_starting s). fst (ui_run_one_bind item s) = Inr ())"
proof -
  note I = ui_invD [OF ui_reachable_inv [OF assms]]
  have k: "si_key ` set (ui_tasks s) = set (dict_keys (ui_active s))"
    using ui_task_invD(2) [OF I(2)] by (auto simp: dict_keys_dom dom_def)
  moreover have "fst (ui_run_one_bind item s) = Inr ()" if "item \<in> set (ui_starting s)" for item
    using ui_task_invD(2) [OF I(2), of "si_key item"] that
    by (auto simp: ui_run_one_bind_def Let_def)
  ultimately show ?thesis
    using ui_queue_invD [OF I(1)] ui_task_invD(1) [OF I(2)] sc_control_invD(4) [OF I(4)] by auto
qed

theorem ui_capacity_and_uniqueness_witness:
  "length (ui_active ui_example) = 1 \<and> length (fq_values (ui_pending ui_example)) = 1 \<and>
   int (length (ui_active ui_example)) \<le> sc_capacity ui_example"
proof -
  have "length (ui_active ui_example) = 1 \<and> length (fq_values (ui_pending ui_example)) = 1"
    by code_simp
  with ui_capacity_and_uniqueness [OF ui_example_reachable] show ?thesis by blast
qed

lemma ui_step_requested:
  assumes "ui_step s t" "ui_inv s" "map_of (ui_active s) key = Some e" "ai_cancellation_requested e"
    "map_of (ui_active t) key = Some e'"
  shows "ai_cancellation_requested e'"
  using assms
proof (cases rule: ui_step.cases)
  case run
  note I = ui_invD [OF assms(2)]
  have tg: "sc_task_group s" by (rule sc_control_invD(1) [OF I(4) run(2)])
  show ?thesis
  proof (cases "ui_work s \<and> ui_free s \<and> \<not> sc_stopping s")
    case True
    then have ready: "\<not> sc_stopping s" "ui_work s" "ui_free s" by auto
    obtain item pending where t: "ui_run s = (if ui_active s = [] then fresh_idle s else s)
      \<lparr>ui_pending := pending,
       ui_active := ui_active s @ [(si_key item, \<lparr>ai_scope = None, ai_cancellation_requested = False\<rparr>)],
       ui_starting := item # ui_starting s, sc_dispatcher := LoopHead\<rparr>"
      by (rule ui_run_dispatch [OF I(1) tg ready])
    then show ?thesis using assms(3-5) run(1) by (simp add: map_add_def)
  next
    case False
    then show ?thesis using assms(3-5) run(1) by (subst (asm) ui_run_idle) auto
  qed
next
  case (run_one_bind item)
  then show ?thesis using assms(3-5)
    by (auto simp: ui_run_one_bind_def Let_def update_conv' split: option.splits if_splits)
qed (auto simp: ui_start_def ui_enqueue_def ui_cancel_def ui_cancel_active_def ui_stop_dispatch_def
    ui_wait_idle_def ui_idle_woken_def ui_run_woken_def ui_run_one_finally_def ai_cancel_def
    update_conv' delete_conv' map_of_map Let_def split: prod.splits option.splits if_splits)



text \<open>\<open>cancel\<close> answers by where the import is, and acts there. A queued import leaves the queue;
  an import in a slot has the request recorded in its entry, and its scope cancelled if it has one;
  nothing else in the queue or among the slots changes.\<close>

theorem ui_cancel_spec:
  assumes "ui_reachable s"
  shows "fst (ui_cancel key s) =
      (if key \<in> si_key ` set (fq_values (ui_pending s)) then TargetQueued
       else if key \<in> set (dict_keys (ui_active s)) then TargetRunning else TargetMissing) \<and>
    si_key ` set (fq_values (ui_pending (snd (ui_cancel key s)))) =
      si_key ` set (fq_values (ui_pending s)) - {key} \<and>
    map_of (ui_active (snd (ui_cancel key s))) =
      (if key \<in> set (dict_keys (ui_active s))
       then (map_of (ui_active s))(key := map_option ai_cancel (map_of (ui_active s) key))
       else map_of (ui_active s))"
proof -
  note I = ui_invD [OF ui_reachable_inv [OF assms]]
  note Q = ui_queue_invD [OF I(1)]
  obtain removed pending where
    r: "fq_remove (ik_user_id key) (\<lambda>item. si_key item = key) (ui_pending s) = (removed, pending)"
    by fastforce
  note k = uq.keys_remove_key [OF Q(1), of key, unfolded r, simplified]
  have "key \<notin> dom (map_of (ui_active s))" if "removed \<noteq> []"
    using Q(4) k(2) that by (auto simp: dict_keys_dom)
  then show ?thesis
    using k by (auto simp: ui_cancel_def r Let_def dict_keys_dom update_conv' split: option.splits)
qed

theorem ui_cancel_spec_witness:
  "fst (ui_cancel ikey_1 ui_example) = TargetRunning \<and>
   fst (ui_cancel ikey_2 ui_example) = TargetQueued"
proof -
  have "ikey_1 \<notin> si_key ` set (fq_values (ui_pending ui_example))"
    "ikey_1 \<in> set (dict_keys (ui_active ui_example))"
    "ikey_2 \<in> si_key ` set (fq_values (ui_pending ui_example))"
    by code_simp+
  then show ?thesis
    using ui_cancel_spec [OF ui_example_reachable, of ikey_1]
      ui_cancel_spec [OF ui_example_reachable, of ikey_2] by simp
qed

end
