(* ===== verification/PyString.thy ===== *)
theory PyString
  imports Prelude
begin

text \<open>
  The part of Python's \<open>str\<close> the modelled code uses. A string is a list of code points below 256
  (\<open>string\<close>), indexed from 0; slicing clips to the ends and a negative bound counts from the end.
  The methods have their Python names with the prefix \<open>py_\<close>.
\<close>

section \<open>Slicing and searching\<close>

definition py_bound :: "nat \<Rightarrow> int \<Rightarrow> nat" where
  "py_bound n i = (if i < 0 then nat (int n + i) else min n (nat i))"

text \<open>\<open>s[i:j]\<close>.\<close>

definition py_slice :: "'a list \<Rightarrow> int \<Rightarrow> int \<Rightarrow> 'a list" where
  "py_slice s i j = drop (py_bound (length s) i) (take (py_bound (length s) j) s)"

lemma py_slice_nat [simp]: "py_slice s (int i) (int j) = drop i (take j s)"
  by (cases "i \<le> length s"; cases "j \<le> length s") (simp_all add: py_slice_def py_bound_def min_def)

lemma length_py_slice_le: "length (py_slice s i j) \<le> length s"
  by (simp add: py_slice_def)

fun py_startswith :: "'a list \<Rightarrow> 'a list \<Rightarrow> bool" where
  "py_startswith s [] \<longleftrightarrow> True"
| "py_startswith [] (p # ps) \<longleftrightarrow> False"
| "py_startswith (c # s) (p # ps) \<longleftrightarrow> c = p \<and> py_startswith s ps"

lemma py_startswith_iff: "py_startswith s p \<longleftrightarrow> take (length p) s = p"
  by (induction s p rule: py_startswith.induct) auto

lemma py_startswith_append: "py_startswith s p \<longleftrightarrow> (\<exists>t. s = p @ t)"
  by (induction s p rule: py_startswith.induct) auto

text \<open>\<open>p in s\<close> for a string \<open>p\<close>.\<close>

fun py_contains :: "'a list \<Rightarrow> 'a list \<Rightarrow> bool" where
  "py_contains [] p \<longleftrightarrow> p = []"
| "py_contains (c # s) p \<longleftrightarrow> py_startswith (c # s) p \<or> py_contains s p"

lemma py_contains_iff: "py_contains s p \<longleftrightarrow> (\<exists>a b. s = a @ p @ b)"
proof (induction s)
  case (Cons c s)
  note IH = Cons.IH
  show ?case
  proof
    assume "py_contains (c # s) p"
    then consider t where "c # s = p @ t" | a b where "s = a @ p @ b"
      using Cons by (auto simp: py_startswith_append simp del: py_startswith.simps)
    then show "\<exists>a b. c # s = a @ p @ b"
      by cases (metis append_Nil, metis append_Cons)
  next
    assume "\<exists>a b. c # s = a @ p @ b"
    then obtain a b where ab: "c # s = a @ p @ b" by blast
    show "py_contains (c # s) p"
    proof (cases a)
      case Nil
      then have "py_startswith (c # s) p" using ab py_startswith_append by fastforce
      then show ?thesis unfolding py_contains.simps by blast
    next
      case (Cons d e)
      then have "\<exists>a b. s = a @ p @ b" using ab by auto
      then show ?thesis unfolding py_contains.simps IH by blast
    qed
  qed
qed auto

definition py_endswith :: "'a list \<Rightarrow> 'a list \<Rightarrow> bool" where
  "py_endswith s p \<longleftrightarrow> length p \<le> length s \<and> drop (length s - length p) s = p"

section \<open>Character classes\<close>

text \<open>\<open>str.isspace\<close> and the characters \<open>strip()\<close> removes, and the control characters (category Cc).\<close>

definition py_space :: "char \<Rightarrow> bool" where
  "py_space c \<longleftrightarrow> (let n = of_char c :: nat in
     9 \<le> n \<and> n \<le> 13 \<or> 28 \<le> n \<and> n \<le> 32 \<or> n = 133 \<or> n = 160)"

definition py_control :: "char \<Rightarrow> bool" where
  "py_control c \<longleftrightarrow> (let n = of_char c :: nat in n < 32 \<or> 127 \<le> n \<and> n \<le> 159)"

definition ascii_lower :: "char \<Rightarrow> bool" where
  "ascii_lower c \<longleftrightarrow> (let n = of_char c :: nat in 97 \<le> n \<and> n \<le> 122)"

definition ascii_upper :: "char \<Rightarrow> bool" where
  "ascii_upper c \<longleftrightarrow> (let n = of_char c :: nat in 65 \<le> n \<and> n \<le> 90)"

definition ascii_digit :: "char \<Rightarrow> bool" where
  "ascii_digit c \<longleftrightarrow> (let n = of_char c :: nat in 48 \<le> n \<and> n \<le> 57)"

text \<open>The number of bytes of the UTF-8 encoding.\<close>

definition utf8_length :: "string \<Rightarrow> nat" where
  "utf8_length s = sum_list (map (\<lambda>c. if (of_char c :: nat) < 128 then 1 else 2) s)"

lemma utf8_length_append [simp]: "utf8_length (s @ t) = utf8_length s + utf8_length t"
  by (simp add: utf8_length_def)

lemma utf8_length_Nil [simp]: "utf8_length [] = 0"
  by (simp add: utf8_length_def)

section \<open>Stripping\<close>

definition py_lstrip :: "string \<Rightarrow> string" where
  "py_lstrip s = dropWhile py_space s"

definition py_rstrip_with :: "(char \<Rightarrow> bool) \<Rightarrow> string \<Rightarrow> string" where
  "py_rstrip_with p s = rev (dropWhile p (rev s))"

definition py_strip :: "string \<Rightarrow> string" where
  "py_strip s = py_rstrip_with py_space (py_lstrip s)"

lemma py_rstrip_prefix: "\<exists>t. s = py_rstrip_with p s @ t \<and> (\<forall>c \<in> set t. p c)"
proof (intro exI conjI)
  show "s = py_rstrip_with p s @ rev (takeWhile p (rev s))"
    unfolding py_rstrip_with_def by (metis rev_append rev_rev_ident takeWhile_dropWhile_id)
  show "\<forall>c \<in> set (rev (takeWhile p (rev s))). p c" by (auto dest: set_takeWhileD)
qed

lemma py_rstrip_last: "py_rstrip_with p s \<noteq> [] \<Longrightarrow> \<not> p (last (py_rstrip_with p s))"
  unfolding py_rstrip_with_def by (metis hd_dropWhile last_rev rev.simps(1))

lemma py_rstrip_id: "s = [] \<or> \<not> p (last s) \<Longrightarrow> py_rstrip_with p s = s"
  unfolding py_rstrip_with_def by (cases s rule: rev_cases) auto

lemma py_rstrip_set: "set (py_rstrip_with p s) \<subseteq> set s"
  using py_rstrip_prefix [of s p] by (metis set_append sup_ge1)

lemma py_strip_hd: "py_strip s \<noteq> [] \<Longrightarrow> \<not> py_space (hd (py_strip s))"
proof -
  assume ne: "py_strip s \<noteq> []"
  obtain t where t: "py_lstrip s = py_strip s @ t"
    using py_rstrip_prefix unfolding py_strip_def by blast
  with ne have "py_lstrip s \<noteq> []" "hd (py_lstrip s) = hd (py_strip s)" by auto
  then show ?thesis using hd_dropWhile [of py_space s] by (simp add: py_lstrip_def)
qed

lemma py_strip_last: "py_strip s \<noteq> [] \<Longrightarrow> \<not> py_space (last (py_strip s))"
  unfolding py_strip_def by (rule py_rstrip_last)

lemma py_strip_id_iff: "py_strip s = s \<longleftrightarrow> s = [] \<or> \<not> py_space (hd s) \<and> \<not> py_space (last s)"
proof
  show "py_strip s = s \<Longrightarrow> s = [] \<or> \<not> py_space (hd s) \<and> \<not> py_space (last s)"
    using py_strip_hd [of s] py_strip_last [of s] by auto
  assume "s = [] \<or> \<not> py_space (hd s) \<and> \<not> py_space (last s)"
  then have "py_lstrip s = s" "py_rstrip_with py_space s = s"
    by (auto simp: py_lstrip_def intro: py_rstrip_id) (cases s; auto)+
  then show "py_strip s = s" by (simp add: py_strip_def)
qed

lemma py_strip_idem [simp]: "py_strip (py_strip s) = py_strip s"
  using py_strip_hd py_strip_last by (subst py_strip_id_iff) blast

lemma length_py_strip_le: "length (py_strip s) \<le> length s"
  unfolding py_strip_def py_rstrip_with_def py_lstrip_def
  by (metis length_dropWhile_le length_rev order_trans)

section \<open>Splitting and joining\<close>

text \<open>\<open>s.split(sep)\<close> for a separator of one character: one more piece than separators.\<close>

fun py_split :: "char \<Rightarrow> string \<Rightarrow> string list" where
  "py_split sep [] = [[]]"
| "py_split sep (c # s) =
     (if c = sep then [] # py_split sep s
      else (case py_split sep s of [] \<Rightarrow> [[c]] | p # ps \<Rightarrow> (c # p) # ps))"

fun py_join :: "string \<Rightarrow> string list \<Rightarrow> string" where
  "py_join sep [] = []"
| "py_join sep [p] = p"
| "py_join sep (p # q # ps) = p @ sep @ py_join sep (q # ps)"

lemma py_split_not_Nil [simp]: "py_split sep s \<noteq> []"
  by (induction s) (auto split: list.splits)

lemma py_split_pieces: "p \<in> set (py_split sep s) \<Longrightarrow> sep \<notin> set p \<and> set p \<subseteq> set s"
proof (induction s arbitrary: p)
  case (Cons c s)
  show ?case
  proof (cases "c = sep")
    case True
    with Cons show ?thesis by (auto split: if_splits)
  next
    case False
    obtain q qs where q: "py_split sep s = q # qs" by (cases "py_split sep s") auto
    from Cons.IH [of q] Cons.IH [of p] False Cons.prems show ?thesis by (auto simp: q)
  qed
qed simp

lemma py_split_single: "sep \<notin> set s \<Longrightarrow> py_split sep s = [s]"
  by (induction s) auto

lemma py_split_cons: "sep \<notin> set p \<Longrightarrow> py_split sep (p @ sep # s) = p # py_split sep s"
  by (induction p) auto

lemma py_split_join:
  "ps \<noteq> [] \<Longrightarrow> \<forall>p \<in> set ps. sep \<notin> set p \<Longrightarrow> py_split sep (py_join [sep] ps) = ps"
  by (induction ps rule: induct_list012)
    (simp_all add: py_split_single py_split_cons)

lemma py_join_split: "py_join [sep] (py_split sep s) = s"
proof (induction s)
  case (Cons c s)
  obtain q qs where q: "py_split sep s = q # qs" by (cases "py_split sep s") auto
  with Cons show ?case by (cases qs) auto
qed simp

lemma set_py_join: "set (py_join [sep] ps) \<subseteq> insert sep (\<Union> (set ` set ps))"
  by (induction ps rule: induct_list012) auto

end
