(* ===== verification/Background.thy ===== *)
theory Background
  imports PyString
begin

text \<open>
  \<^verbatim>\<open>domain/background.py\<close>: the states, progress and failures that Analyses and User File Imports
  share, and the contract of their life cycles.

  \<^item> A pydantic model is a record with a \<open>coerce\<close> function (the coercions of its field types,
    such as stripping) and a list of checks in the order pydantic makes them: the constraints of the
    fields, then the model validator. \<open>validate\<close> runs both.
  \<^item> locale \<open>background_resource\<close>: a resource that is replaced by a new value at every transition. Its
    laws are what one transition may do; what follows for whole histories is proved once.
\<close>

section \<open>Validation\<close>

definition validate :: "('a \<Rightarrow> 'a) \<Rightarrow> ('a \<Rightarrow> (bool \<times> error) list) \<Rightarrow> 'a \<Rightarrow> 'a result" where
  "validate coerce checks r = (let n = coerce r in raise_first (checks n) n)"

lemma validate_Inr_iff:
  "validate coerce checks r = Inr n \<longleftrightarrow>
     n = coerce r \<and> list_all (\<lambda>(c, e). \<not> c) (checks n)"
  by (auto simp: validate_def Let_def raise_first_Inr_iff)

lemma validate_idem:
  "validate coerce checks r = Inr n \<Longrightarrow> coerce n = n \<Longrightarrow> validate coerce checks n = Inr n"
  unfolding validate_Inr_iff by (elim conjE) (intro conjI, simp_all)

text \<open>A float, with the values that are no numbers.\<close>

datatype py_float = is_fin: Fin (fin_val: rat) | PosInf | NegInf | NaN

text \<open>\<open>lo <= f <= hi\<close> with \<open>allow_inf_nan=False\<close>.\<close>

definition float_between :: "rat \<Rightarrow> rat \<Rightarrow> py_float \<Rightarrow> bool" where
  "float_between lo hi f \<longleftrightarrow> is_fin f \<and> lo \<le> fin_val f \<and> fin_val f \<le> hi"

definition option_ok :: "('a \<Rightarrow> bool) \<Rightarrow> 'a option \<Rightarrow> bool" where
  "option_ok p v = (case v of None \<Rightarrow> True | Some x \<Rightarrow> p x)"

lemma option_ok_simps [simp]: "option_ok p None" "option_ok p (Some x) = p x"
  by (simp_all add: option_ok_def)

text \<open>The constraint of a field: it raises pydantic's error when the value does not satisfy it.\<close>

abbreviation field_check :: "bool \<Rightarrow> bool \<times> error" where
  "field_check ok \<equiv> (\<not> ok, ValueError ''validation error'')"

text \<open>\<open>NonEmptyText\<close>, once stripped, with the maximal length of its field.\<close>

definition text_ok :: "string \<Rightarrow> bool" where
  "text_ok s \<longleftrightarrow> s \<noteq> []"

definition text_max :: "nat \<Rightarrow> string \<Rightarrow> bool" where
  "text_max n s \<longleftrightarrow> s \<noteq> [] \<and> length s \<le> n"

definition strip_values :: "('k, string) dict \<Rightarrow> ('k, string) dict" where
  "strip_values d = map (\<lambda>(k, v). (k, py_strip v)) d"

lemma strip_values_idem [simp]: "strip_values (strip_values d) = strip_values d"
  by (simp add: strip_values_def case_prod_unfold)

lemma keys_strip_values [simp]: "fst ` set (strip_values d) = fst ` set d"
  by (force simp: strip_values_def)

lemma map_py_strip_idem [simp]: "map (py_strip \<circ> py_strip) xs = map py_strip xs"
  by (simp add: comp_def)

lemma map_option_py_strip_idem [simp]:
  "map_option (py_strip \<circ> py_strip) v = map_option py_strip v"
  by (cases v) simp_all

section \<open>Shared values\<close>

definition safe_public_text :: "string \<Rightarrow> bool" where
  "safe_public_text s \<longleftrightarrow> 1 \<le> length s \<and> length s \<le> 500 \<and> \<not> (\<exists>c \<in> set s. py_control c)"

datatype background_state = QUEUED | RUNNING | SUCCEEDED | FAILED | CANCELLED

record progress =
  pg_fraction :: "py_float option"
  pg_message :: "string option"

definition progress_ok :: "progress \<Rightarrow> bool" where
  "progress_ok p \<longleftrightarrow> option_ok (float_between 0 1) (pg_fraction p) \<and>
     option_ok safe_public_text (pg_message p)"

abbreviation progress_complete :: "progress \<Rightarrow> bool" where
  "progress_complete p \<equiv> pg_fraction p = Some (Fin 1)"

record failure =
  fl_code :: string
  fl_message :: string

definition failure_ok :: "failure \<Rightarrow> bool" where
  "failure_ok f \<longleftrightarrow>
     (case fl_code f of [] \<Rightarrow> False
      | c # cs \<Rightarrow> ascii_lower c \<and> (\<forall>d \<in> set cs. ascii_lower d \<or> ascii_digit d \<or> d = CHR ''_'')) \<and>
     length (fl_code f) \<le> 100 \<and> safe_public_text (fl_message f)"

definition terminal :: "background_state \<Rightarrow> bool" where
  "terminal st \<longleftrightarrow> st \<in> {SUCCEEDED, FAILED, CANCELLED}"

lemma terminal_simps [simp]:
  "\<not> terminal QUEUED" "\<not> terminal RUNNING" "terminal SUCCEEDED" "terminal FAILED" "terminal CANCELLED"
  by (simp_all add: terminal_def)

section \<open>The contract of a life cycle\<close>

text \<open>What is left to happen to a resource: a queued one can be started, asked to cancel and ended.\<close>

definition remaining :: "background_state \<Rightarrow> bool \<Rightarrow> nat" where
  "remaining st requested = (case st of QUEUED \<Rightarrow> 3 | RUNNING \<Rightarrow> (if requested then 1 else 2) | _ \<Rightarrow> 0)"

locale background_resource =
  fixes valid :: "'a \<Rightarrow> bool"
    and transition :: "'a \<Rightarrow> 'a \<Rightarrow> bool"
    and state :: "'a \<Rightarrow> background_state"
    and requested :: "'a \<Rightarrow> timestamp option"
    and created :: "'a \<Rightarrow> timestamp"
    and started :: "'a \<Rightarrow> timestamp option"
    and finished :: "'a \<Rightarrow> timestamp option"
    and revision :: "'a \<Rightarrow> int"
  assumes transition_valid: "transition r r' \<Longrightarrow> valid r'"
    and transition_remaining: "transition r r' \<Longrightarrow>
      remaining (state r') (requested r' \<noteq> None) < remaining (state r) (requested r \<noteq> None)"
    and transition_revision: "transition r r' \<Longrightarrow> revision r' = revision r + 1"
    and transition_created: "transition r r' \<Longrightarrow> created r' = created r"
    and transition_requested: "transition r r' \<Longrightarrow> requested r \<noteq> None \<Longrightarrow> requested r' \<noteq> None"
    and transition_started: "transition r r' \<Longrightarrow> valid r \<Longrightarrow> started r \<noteq> None \<Longrightarrow> started r' = started r"
    and valid_finished: "valid r \<Longrightarrow> terminal (state r) \<longleftrightarrow> finished r \<noteq> None"
    and valid_times: "valid r \<Longrightarrow> finished r = Some f \<Longrightarrow>
      created r \<le> f \<and> (\<forall>b. started r = Some b \<longrightarrow> created r \<le> b \<and> b \<le> f)"
    and valid_requested: "valid r \<Longrightarrow> state r = CANCELLED \<Longrightarrow> requested r \<noteq> None"
begin

text \<open>A history: the values a resource takes, transition by transition.\<close>

inductive history :: "'a \<Rightarrow> nat \<Rightarrow> 'a \<Rightarrow> bool" where
  here: "history r 0 r"
| more: "history r n r' \<Longrightarrow> transition r' r'' \<Longrightarrow> history r (Suc n) r''"

lemma history_facts:
  assumes "history r n r'" "valid r"
  shows "valid r' \<and> revision r' = revision r + int n \<and> created r' = created r \<and>
    (requested r \<noteq> None \<longrightarrow> requested r' \<noteq> None) \<and>
    (started r \<noteq> None \<longrightarrow> started r' = started r) \<and>
    n + remaining (state r') (requested r' \<noteq> None) \<le> remaining (state r) (requested r \<noteq> None)"
  using assms
proof (induction rule: history.induct)
  case (more r n r' r'')
  note t = more.hyps(2)
  from more show ?case
    using transition_valid [OF t] transition_remaining [OF t] transition_revision [OF t]
      transition_created [OF t] transition_requested [OF t] transition_started [OF t]
    by auto
qed simp

lemma terminal_no_transition: "terminal (state r) \<Longrightarrow> \<not> transition r r'"
  using transition_remaining [of r r'] by (auto simp: terminal_def remaining_def)

lemma history_queued_bound:
  assumes "history r n r'" "valid r" "state r = QUEUED"
  shows "n \<le> 3" "revision r' = revision r + int n" "n = 3 \<Longrightarrow> terminal (state r')"
proof -
  have b: "n + remaining (state r') (requested r' \<noteq> None) \<le> 3" "revision r' = revision r + int n"
    using history_facts [OF assms(1,2)] assms(3) by (auto simp: remaining_def)
  then show "n \<le> 3" "revision r' = revision r + int n" by auto
  show "terminal (state r')" if "n = 3"
    using b(1) that by (cases "state r'") (auto simp: remaining_def split: if_splits)
qed

lemma history_times:
  assumes "history r n r'" "valid r" "finished r' = Some f"
  shows "terminal (state r')" "created r \<le> f" "started r' = Some b \<Longrightarrow> created r \<le> b \<and> b \<le> f"
  using history_facts [OF assms(1,2)] assms(3) valid_finished [of r'] valid_times [of r' f] by auto

end

end
