(* ===== verification/Annotation.thy ===== *)
theory Annotation
  imports Background
begin

text \<open>
  \<^verbatim>\<open>domain/annotation.py\<close>: the values an Annotation request is made of, and the normalisation of a
  custom provider's base URL.

  \<open>urlsplit\<close>, \<open>urlunsplit\<close> and the \<open>hostname\<close> and \<open>username\<close> of a split URL are the standard library's,
  written out for strings; its validation of a bracketed or non-ASCII host is the parameter
  \<open>netloc_ok\<close>.
\<close>

section \<open>Provider URLs\<close>

record split_url =
  url_scheme :: string
  url_netloc :: string
  url_path :: string
  url_query :: string
  url_fragment :: string

definition scheme_char :: "char \<Rightarrow> bool" where
  "scheme_char c \<longleftrightarrow> ascii_lower c \<or> ascii_upper c \<or> ascii_digit c \<or> c \<in> set ''+-.''"

definition char_lower :: "char \<Rightarrow> char" where
  "char_lower c = (if ascii_upper c then char_of ((of_char c :: nat) + 32) else c)"

definition url_clean :: "string \<Rightarrow> string" where
  "url_clean value = filter (\<lambda>c. c \<notin> set [CHR 9, CHR 10, CHR 13])
     (dropWhile (\<lambda>c. (of_char c :: nat) \<le> 32) value)"

definition split_scheme :: "string \<Rightarrow> string \<times> string" where
  "split_scheme url =
     (let prefix = takeWhile (\<lambda>c. c \<noteq> CHR '':'') url in
      if prefix \<noteq> [] \<and> prefix \<noteq> url \<and> (ascii_lower (hd prefix) \<or> ascii_upper (hd prefix)) \<and>
        list_all scheme_char prefix
      then (map char_lower prefix, drop (length prefix + 1) url) else ([], url))"

definition split_netloc :: "string \<Rightarrow> string \<times> string" where
  "split_netloc url =
     (if py_startswith url ''//''
      then (takeWhile (\<lambda>c. c \<notin> set ''/?#'') (drop 2 url), dropWhile (\<lambda>c. c \<notin> set ''/?#'') (drop 2 url))
      else ([], url))"

definition urlsplit :: "(string \<Rightarrow> bool) \<Rightarrow> string \<Rightarrow> split_url result" where
  "urlsplit netloc_ok value =
     (let (scheme, rest) = split_scheme (url_clean value);
          (netloc, tail) = split_netloc rest;
          no_fragment = takeWhile (\<lambda>c. c \<noteq> CHR ''#'') tail;
          path = takeWhile (\<lambda>c. c \<noteq> CHR ''?'') no_fragment
      in if (CHR ''['' \<in> set netloc) \<noteq> (CHR '']'' \<in> set netloc) then
           Inl (ValueError ''Invalid IPv6 URL'')
         else if \<not> netloc_ok netloc then Inl (ValueError ''netloc'')
         else Inr \<lparr>url_scheme = scheme, url_netloc = netloc, url_path = path,
           url_query = drop (length path + 1) no_fragment,
           url_fragment = drop (length no_fragment + 1) tail\<rparr>)"

text \<open>\<open>parsed.hostname\<close> is \<open>None\<close> when this is empty; \<open>parsed.username\<close> and \<open>parsed.password\<close> are
  \<open>None\<close> when the network location has no user information.\<close>

definition url_hostname :: "split_url \<Rightarrow> string" where
  "url_hostname parsed =
     (let hostinfo = rev (takeWhile (\<lambda>c. c \<noteq> CHR ''@'') (rev (url_netloc parsed)))
      in map char_lower
        (if CHR ''['' \<in> set hostinfo
         then takeWhile (\<lambda>c. c \<noteq> CHR '']'') (drop 1 (dropWhile (\<lambda>c. c \<noteq> CHR ''['') hostinfo))
         else takeWhile (\<lambda>c. c \<noteq> CHR '':'') hostinfo))"

definition url_has_userinfo :: "split_url \<Rightarrow> bool" where
  "url_has_userinfo parsed \<longleftrightarrow> CHR ''@'' \<in> set (url_netloc parsed)"

text \<open>\<open>urlunsplit((scheme, netloc, path, "", ""))\<close>.\<close>

definition urlunsplit :: "string \<Rightarrow> string \<Rightarrow> string \<Rightarrow> string" where
  "urlunsplit scheme netloc path =
     (let url = (if netloc \<noteq> [] then ''//'' @ netloc @
            (if path \<noteq> [] \<and> hd path \<noteq> CHR ''/'' then ''/'' @ path else path) else path)
      in if scheme \<noteq> [] then scheme @ '':'' @ url else url)"

definition normalize_annotation_provider_base_url ::
    "(string \<Rightarrow> bool) \<Rightarrow> string \<Rightarrow> string result" where
  "normalize_annotation_provider_base_url netloc_ok value =
     bind_result (urlsplit netloc_ok (py_strip value)) (\<lambda>parsed.
       if url_scheme parsed \<notin> {''http'', ''https''} \<or> url_hostname parsed = [] then
         Inl (ValueError ''Custom base URL must be an absolute HTTP(S) URL'')
       else if url_has_userinfo parsed then
         Inl (ValueError ''Custom base URL cannot contain user information'')
       else if url_query parsed \<noteq> [] \<or> url_fragment parsed \<noteq> [] then
         Inl (ValueError ''Custom base URL cannot contain a query or fragment'')
       else Inr (urlunsplit (map char_lower (url_scheme parsed)) (url_netloc parsed)
         (py_rstrip_with (\<lambda>c. c = CHR ''/'') (url_path parsed))))"

section \<open>Models\<close>

datatype annotation_provider = OpenAI | OpenRouter | Anthropic | Google | Custom

record annotation_class =
  ac_name :: string
  ac_description :: string

definition annotation_class_coerce :: "annotation_class \<Rightarrow> annotation_class" where
  "annotation_class_coerce c = c\<lparr>ac_name := py_strip (ac_name c)\<rparr>"

definition annotation_class_ok :: "annotation_class \<Rightarrow> bool" where
  "annotation_class_ok c \<longleftrightarrow> text_max 200 (ac_name c) \<and> length (ac_description c) \<le> 2000"

record annotation_provider_snapshot =
  ap_configuration_id :: uuid
  ap_provider :: annotation_provider
  ap_base_url :: "string option"

definition AnnotationProviderSnapshot ::
    "(string \<Rightarrow> bool) \<Rightarrow> annotation_provider_snapshot \<Rightarrow> annotation_provider_snapshot result" where
  "AnnotationProviderSnapshot netloc_ok s =
     bind_result
       (case ap_base_url s of None \<Rightarrow> Inr None
        | Some url \<Rightarrow> map_sum id Some (normalize_annotation_provider_base_url netloc_ok url))
       (\<lambda>base_url. raise_first
          [field_check (option_ok (\<lambda>url. length url \<le> 2000) base_url),
           (ap_provider s = Custom \<and> base_url = None,
            ValueError ''Custom providers require a base URL''),
           (ap_provider s \<noteq> Custom \<and> base_url \<noteq> None,
            ValueError ''Built-in providers cannot define a base URL'')]
          (s\<lparr>ap_base_url := base_url\<rparr>))"

section \<open>Lemmas\<close>

lemma split_netloc_chars:
  assumes "split_netloc url = (netloc, tail)" "netloc \<noteq> []"
  shows "set netloc \<inter> set ''/?#'' = {}" "tail = [] \<or> hd tail \<in> set ''/?#''"
proof -
  let ?p = "\<lambda>c. c \<notin> set ''/?#''"
  have t: "netloc = takeWhile ?p (drop 2 url)" "tail = dropWhile ?p (drop 2 url)"
    using assms unfolding split_netloc_def by (auto split: if_splits)
  show "set netloc \<inter> set ''/?#'' = {}" unfolding t(1) by (auto dest: set_takeWhileD)
  show "tail = [] \<or> hd tail \<in> set ''/?#''" unfolding t(2) using hd_dropWhile [of ?p "drop 2 url"] by blast
qed

lemma urlsplit_shape:
  assumes "urlsplit netloc_ok value = Inr parsed" "url_netloc parsed \<noteq> []"
  shows "set (url_netloc parsed) \<inter> set ''/?#'' = {}" "set (url_path parsed) \<inter> set ''?#'' = {}"
    "url_path parsed = [] \<or> hd (url_path parsed) = CHR ''/''"
proof -
  obtain netloc tail where s: "split_netloc (snd (split_scheme (url_clean value))) = (netloc, tail)"
    by fastforce
  have f: "url_netloc parsed = netloc"
    "url_path parsed = takeWhile (\<lambda>c. c \<noteq> CHR ''?'') (takeWhile (\<lambda>c. c \<noteq> CHR ''#'') tail)"
    using assms(1) s unfolding urlsplit_def Let_def by (auto split: if_splits prod.splits)
  show "set (url_netloc parsed) \<inter> set ''/?#'' = {}"
    using split_netloc_chars [OF s] assms(2) by (simp add: f)
  show "set (url_path parsed) \<inter> set ''?#'' = {}" unfolding f by (auto dest: set_takeWhileD)
  show "url_path parsed = [] \<or> hd (url_path parsed) = CHR ''/''"
    using split_netloc_chars(2) [OF s] assms(2) unfolding f by (cases tail) auto
qed

lemma normalize_base_url_cases:
  assumes "normalize_annotation_provider_base_url netloc_ok value = Inr r"
  obtains parsed where "urlsplit netloc_ok (py_strip value) = Inr parsed"
    "url_scheme parsed \<in> {''http'', ''https''}" "url_netloc parsed \<noteq> []" "\<not> url_has_userinfo parsed"
    "r = url_scheme parsed @ ''://'' @ url_netloc parsed @
       py_rstrip_with (\<lambda>c. c = CHR ''/'') (url_path parsed)"
proof -
  obtain parsed where p: "urlsplit netloc_ok (py_strip value) = Inr parsed"
    and scheme: "url_scheme parsed = ''http'' \<or> url_scheme parsed = ''https''"
    and host: "url_hostname parsed \<noteq> []" and user: "\<not> url_has_userinfo parsed"
    and r: "r = urlunsplit (map char_lower (url_scheme parsed)) (url_netloc parsed)
         (py_rstrip_with (\<lambda>c. c = CHR ''/'') (url_path parsed))"
    using assms unfolding normalize_annotation_provider_base_url_def bind_result_Inr_iff
    by (auto split: if_splits)
  have lower: "map char_lower (url_scheme parsed) = url_scheme parsed"
    using scheme by (auto simp: char_lower_def ascii_upper_def)
  have netloc: "url_netloc parsed \<noteq> []" using host by (auto simp: url_hostname_def)
  let ?path = "py_rstrip_with (\<lambda>c. c = CHR ''/'') (url_path parsed)"
  obtain t where "url_path parsed = ?path @ t" using py_rstrip_prefix by blast
  then have "?path = [] \<or> hd ?path = CHR ''/''"
    using urlsplit_shape(3) [OF p netloc] by (cases ?path) auto
  then have "r = url_scheme parsed @ ''://'' @ url_netloc parsed @ ?path"
    using netloc scheme unfolding r lower by (auto simp: urlunsplit_def)
  with p scheme netloc user show thesis by (intro that) auto
qed

section \<open>Properties\<close>

text \<open>An accepted provider base URL is an HTTP or HTTPS root and nothing else. It has a network
  location without user information, then a path that does not end with a slash, and neither a query
  nor a fragment.\<close>

theorem normalize_base_url_safe:
  assumes "normalize_annotation_provider_base_url netloc_ok value = Inr r"
  shows "\<exists>scheme netloc path. r = scheme @ ''://'' @ netloc @ path \<and> scheme \<in> {''http'', ''https''} \<and>
    netloc \<noteq> [] \<and> set netloc \<inter> set ''/?#@'' = {} \<and> set path \<inter> set ''?#'' = {} \<and>
    (path = [] \<or> last path \<noteq> CHR ''/'')"
proof -
  obtain parsed where p: "urlsplit netloc_ok (py_strip value) = Inr parsed"
    "url_scheme parsed \<in> {''http'', ''https''}" "url_netloc parsed \<noteq> []" "\<not> url_has_userinfo parsed"
    "r = url_scheme parsed @ ''://'' @ url_netloc parsed @
       py_rstrip_with (\<lambda>c. c = CHR ''/'') (url_path parsed)"
    using assms by (rule normalize_base_url_cases)
  note s = urlsplit_shape [OF p(1,3)]
  let ?path = "py_rstrip_with (\<lambda>c. c = CHR ''/'') (url_path parsed)"
  have "set (url_netloc parsed) \<inter> set ''/?#@'' = {}"
    using s(1) p(4) by (auto simp: url_has_userinfo_def)
  moreover have "set ?path \<inter> set ''?#'' = {}" using s(2) py_rstrip_set by fastforce
  moreover have "?path = [] \<or> last ?path \<noteq> CHR ''/''" using py_rstrip_last by blast
  ultimately show ?thesis using p(2,3,5) by blast
qed

theorem normalize_base_url_safe_witness:
  "normalize_annotation_provider_base_url (\<lambda>n. True) ''HTTPS://Host:8080/v1//'' =
     Inr ''https://Host:8080/v1'' \<and>
   (\<exists>scheme netloc path. ''https://Host:8080/v1'' = scheme @ ''://'' @ netloc @ path \<and>
     set path \<inter> set ''?#'' = {})"
proof -
  have *: "normalize_annotation_provider_base_url (\<lambda>n. True) ''HTTPS://Host:8080/v1//'' =
     Inr ''https://Host:8080/v1''" by code_simp
  from normalize_base_url_safe [OF *] * show ?thesis by blast
qed

text \<open>The normalisation is not a fixpoint: a blank before the trailing slashes survives the first
  application and is stripped by the second.\<close>

lemma normalize_base_url_not_idempotent:
  "normalize_annotation_provider_base_url (\<lambda>n. True) ''http://h/a /'' = Inr ''http://h/a '' \<and>
   normalize_annotation_provider_base_url (\<lambda>n. True) ''http://h/a '' = Inr ''http://h/a''"
  by code_simp

end
