(* ===== verification/AnalysisRequests.thy ===== *)
theory AnalysisRequests
  imports Annotation
begin

text \<open>
  The request models of \<^verbatim>\<open>domain/workspace/analysis.py\<close>, which Data Blocks they read, and what of a
  submission is persisted.

  Each pydantic model is a record \<open>*_request\<close> with the coercion of its fields (\<open>NonEmptyText\<close> strips)
  and its checks: first the constraints of the fields, then its model validator, in order. The keys of
  a dictionary are distinct, as those of a parsed JSON object are. Defaults are supplied by whoever
  parses the JSON; a \<open>kind\<close> is the constructor of \<open>analysis_request\<close>.
\<close>

section \<open>Data Block columns\<close>

definition validate_node_columns :: "uuid list \<Rightarrow> (uuid, string) dict \<Rightarrow> (bool \<times> error) list" where
  "validate_node_columns node_ids node_columns =
     [(has_duplicates node_ids, ValueError ''Data Block IDs must be distinct''),
      (set (dict_keys node_columns) \<noteq> set node_ids,
       ValueError ''Data Block columns must exactly match the requested IDs''),
      (\<exists>column \<in> set (dict_values node_columns). py_strip column = [],
       ValueError ''Every Data Block requires a non-empty source column'')]"

definition node_ids_ok :: "uuid list \<Rightarrow> bool" where
  "node_ids_ok node_ids \<longleftrightarrow> 1 \<le> length node_ids \<and> length node_ids \<le> 2"

definition texts_ok :: "('k, string) dict \<Rightarrow> bool" where
  "texts_ok d \<longleftrightarrow> (\<forall>v \<in> set (dict_values d). text_ok v)"

section \<open>Preview requests\<close>

record token_frequency_request =
  tf_node_ids :: "uuid list"
  tf_node_columns :: "(uuid, string) dict"
  tf_token_limit :: int
  tf_node_tokenizer_models :: "(uuid, string) dict"

definition tf_coerce :: "token_frequency_request \<Rightarrow> token_frequency_request" where
  "tf_coerce r = r\<lparr>tf_node_columns := strip_values (tf_node_columns r),
     tf_node_tokenizer_models := strip_values (tf_node_tokenizer_models r)\<rparr>"

definition tf_checks :: "token_frequency_request \<Rightarrow> (bool \<times> error) list" where
  "tf_checks r =
     [field_check (node_ids_ok (tf_node_ids r) \<and> texts_ok (tf_node_columns r) \<and>
        1 \<le> tf_token_limit r \<and> tf_token_limit r \<le> 5000 \<and> texts_ok (tf_node_tokenizer_models r))] @
     validate_node_columns (tf_node_ids r) (tf_node_columns r) @
     [(set (dict_keys (tf_node_tokenizer_models r)) \<noteq> set (tf_node_ids r),
       ValueError ''Tokenizer models must exactly match requested inputs'')]"

datatype topic_segmentation_method = Automatic | Paragraph | Sentence

record topic_modeling_request =
  tm_node_ids :: "uuid list"
  tm_node_columns :: "(uuid, string) dict"
  tm_min_topic_size :: int
  tm_random_seed :: int
  tm_sample_fractions :: "py_float option list option"
  tm_segmentation_method :: topic_segmentation_method
  tm_max_segment_tokens :: int

definition tm_coerce :: "topic_modeling_request \<Rightarrow> topic_modeling_request" where
  "tm_coerce r = r\<lparr>tm_node_columns := strip_values (tm_node_columns r)\<rparr>"

definition tm_checks :: "topic_modeling_request \<Rightarrow> (bool \<times> error) list" where
  "tm_checks r =
     [field_check (node_ids_ok (tm_node_ids r) \<and> texts_ok (tm_node_columns r) \<and>
        2 \<le> tm_min_topic_size r \<and> 32 \<le> tm_max_segment_tokens r \<and> tm_max_segment_tokens r \<le> 510)] @
     validate_node_columns (tm_node_ids r) (tm_node_columns r) @
     (case tm_sample_fractions r of None \<Rightarrow> []
      | Some fractions \<Rightarrow>
          [(length fractions \<noteq> length (tm_node_ids r),
            ValueError ''Sample fractions must align with Data Block IDs''),
           (\<exists>fraction \<in> set fractions. fraction \<noteq> None \<and>
              (\<not> is_fin (the fraction) \<or> \<not> (0 < fin_val (the fraction) \<and> fin_val (the fraction) \<le> 1)),
            ValueError ''Sample fractions must be finite and in (0, 1]'')])"

datatype search_mode = RegexMode | TokensMode

record concordance_request =
  cc_node_ids :: "uuid list"
  cc_node_columns :: "(uuid, string) dict"
  cc_search_word :: string
  cc_num_left_tokens :: int
  cc_num_right_tokens :: int
  cc_regex :: bool
  cc_whole_word :: bool
  cc_case_sensitive :: bool
  cc_ignore_punctuation :: bool
  cc_search_mode :: search_mode
  cc_node_tokenizer_models :: "(uuid, string) dict"

definition cc_coerce :: "concordance_request \<Rightarrow> concordance_request" where
  "cc_coerce r = r\<lparr>cc_node_columns := strip_values (cc_node_columns r),
     cc_search_word := py_strip (cc_search_word r),
     cc_node_tokenizer_models := strip_values (cc_node_tokenizer_models r)\<rparr>"

definition cc_checks :: "concordance_request \<Rightarrow> (bool \<times> error) list" where
  "cc_checks r =
     (let tokenizer_ids = set (dict_keys (cc_node_tokenizer_models r));
          requested_ids = set (cc_node_ids r)
      in [field_check (node_ids_ok (cc_node_ids r) \<and> texts_ok (cc_node_columns r) \<and>
            text_ok (cc_search_word r) \<and>
            0 \<le> cc_num_left_tokens r \<and> cc_num_left_tokens r \<le> 1000 \<and>
            0 \<le> cc_num_right_tokens r \<and> cc_num_right_tokens r \<le> 1000 \<and>
            texts_ok (cc_node_tokenizer_models r))] @
         validate_node_columns (cc_node_ids r) (cc_node_columns r) @
         [(tokenizer_ids - requested_ids \<noteq> {},
           ValueError ''Tokenizer models may reference only requested inputs''),
          (cc_search_mode r = TokensMode \<and> tokenizer_ids \<noteq> requested_ids,
           ValueError ''Tokens mode tokenizer models must exactly match requested inputs'')])"

datatype quotation_engine_type = LocalEngine | RemoteEngine

record quotation_engine_selection =
  qe_type :: quotation_engine_type
  qe_engine_id :: "string option"

definition qe_checks :: "quotation_engine_selection \<Rightarrow> (bool \<times> error) list" where
  "qe_checks s =
     [field_check (option_ok (\<lambda>i. length i \<le> 64) (qe_engine_id s)),
      (qe_type s = LocalEngine \<and> qe_engine_id s \<noteq> None,
       ValueError ''A local quotation engine has no engine_id''),
      (qe_type s \<noteq> LocalEngine \<and> (qe_engine_id s = None \<or> qe_engine_id s = Some []),
       ValueError ''A remote quotation engine requires an engine_id'')]"

record quotation_request =
  qt_node_id :: uuid
  qt_column :: string
  qt_engine :: quotation_engine_selection

definition qt_coerce :: "quotation_request \<Rightarrow> quotation_request" where
  "qt_coerce r = r\<lparr>qt_column := py_strip (qt_column r)\<rparr>"

definition qt_checks :: "quotation_request \<Rightarrow> (bool \<times> error) list" where
  "qt_checks r = field_check (text_ok (qt_column r)) # qe_checks (qt_engine r)"

datatype sequential_frequency =
    Second | Minute | Hourly | Daily | Weekly | Monthly | Quarterly | Yearly | CustomFrequency
datatype sequential_column_type = DatetimeColumn | NumericColumn
datatype interval_unit = Seconds | Minutes | Hours | Days | Weeks

record sequential_request =
  sq_node_id :: uuid
  sq_time_column :: string
  sq_group_by_columns :: "string list"
  sq_frequency :: sequential_frequency
  sq_sort_by_time :: bool
  sq_column_type :: sequential_column_type
  sq_numeric_origin :: "py_float option"
  sq_numeric_interval :: "py_float option"
  sq_custom_interval_value :: "int option"
  sq_custom_interval_unit :: "interval_unit option"
  sq_case_sensitive :: bool

definition sq_coerce :: "sequential_request \<Rightarrow> sequential_request" where
  "sq_coerce r = r\<lparr>sq_time_column := py_strip (sq_time_column r),
     sq_group_by_columns := map py_strip (sq_group_by_columns r)\<rparr>"

definition sq_checks :: "sequential_request \<Rightarrow> (bool \<times> error) list" where
  "sq_checks r =
     [field_check (text_ok (sq_time_column r) \<and> list_all text_ok (sq_group_by_columns r) \<and>
        length (sq_group_by_columns r) \<le> 3 \<and> option_ok is_fin (sq_numeric_origin r) \<and>
        option_ok is_fin (sq_numeric_interval r) \<and> option_ok (\<lambda>i. 1 \<le> i) (sq_custom_interval_value r)),
      (sq_column_type r = NumericColumn \<and>
         (sq_numeric_interval r = None \<or> fin_val (the (sq_numeric_interval r)) \<le> 0),
       ValueError ''Numeric input requires a positive numeric_interval''),
      (sq_column_type r = DatetimeColumn \<and> sq_frequency r = CustomFrequency \<and>
         (sq_custom_interval_value r = None \<or> sq_custom_interval_unit r = None),
       ValueError ''Custom datetime frequency requires a value and unit'')]"

datatype example_sampling = RandomSample | FirstN | LastN
datatype reasoning_effort = LowEffort | MediumEffort | HighEffort

record annotation_request = annotation_provider_snapshot +
  an_node_id :: uuid
  an_text_column :: string
  an_annotation_column :: string
  an_correction_column :: "string option"
  an_class_node_id :: uuid
  an_class_column :: string
  an_description_column :: string
  an_example_node_id :: "uuid option"
  an_example_text_column :: "string option"
  an_example_annotation_column :: "string option"
  an_max_examples_per_class :: int
  an_example_sampling_method :: example_sampling
  an_example_random_seed :: int
  an_classes :: "annotation_class list"
  an_model :: string
  an_instruction :: string
  an_temperature :: py_float
  an_max_retries_per_batch :: int
  an_reasoning_enabled :: bool
  an_reasoning_effort :: reasoning_effort

text \<open>The coercion of the base URL may fail; it is part of \<open>validate_request\<close>.\<close>

definition an_coerce :: "annotation_request \<Rightarrow> annotation_request" where
  "an_coerce r = r\<lparr>an_text_column := py_strip (an_text_column r),
     an_annotation_column := py_strip (an_annotation_column r),
     an_correction_column := map_option py_strip (an_correction_column r),
     an_class_column := py_strip (an_class_column r),
     an_description_column := py_strip (an_description_column r),
     an_example_text_column := map_option py_strip (an_example_text_column r),
     an_example_annotation_column := map_option py_strip (an_example_annotation_column r),
     an_classes := map annotation_class_coerce (an_classes r),
     an_model := py_strip (an_model r), an_instruction := py_strip (an_instruction r)\<rparr>"

definition an_field_check :: "annotation_request \<Rightarrow> bool" where
  "an_field_check r \<longleftrightarrow>
     text_max 500 (an_text_column r) \<and> text_max 500 (an_annotation_column r) \<and>
     option_ok (text_max 500) (an_correction_column r) \<and> text_max 500 (an_class_column r) \<and>
     text_max 500 (an_description_column r) \<and> option_ok (text_max 500) (an_example_text_column r) \<and>
     option_ok (text_max 500) (an_example_annotation_column r) \<and> 1 \<le> an_max_examples_per_class r \<and>
     0 \<le> an_example_random_seed r \<and> 1 \<le> length (an_classes r) \<and> length (an_classes r) \<le> 200 \<and>
     list_all annotation_class_ok (an_classes r) \<and> text_max 500 (an_model r) \<and>
     text_max 20000 (an_instruction r) \<and> float_between 0 2 (an_temperature r) \<and>
     0 \<le> an_max_retries_per_batch r \<and> an_max_retries_per_batch r \<le> 10"

text \<open>The snapshot's model validator runs before the one of the derived class.\<close>

definition an_checks :: "(string \<Rightarrow> string) \<Rightarrow> annotation_request \<Rightarrow> (bool \<times> error) list" where
  "an_checks casefold r =
     (let example_fields = [an_example_node_id r, an_example_text_column r,
            an_example_annotation_column r]
      in [field_check (an_field_check r \<and> option_ok (\<lambda>url. length url \<le> 2000) (ap_base_url r)),
          (ap_provider r = Custom \<and> ap_base_url r = None,
           ValueError ''Custom providers require a base URL''),
          (ap_provider r \<noteq> Custom \<and> ap_base_url r \<noteq> None,
           ValueError ''Built-in providers cannot define a base URL''),
          (has_duplicates (map (\<lambda>item. casefold (ac_name item)) (an_classes r)),
           ValueError ''Annotation class names must be unique''),
          (an_correction_column r \<in> {Some (an_text_column r), Some (an_annotation_column r)},
           ValueError ''Annotation correction column must differ from text and annotation columns''),
          ((\<exists>value \<in> set example_fields. value \<noteq> None) \<and> (\<exists>value \<in> set example_fields. value = None),
           ValueError ''Example Data Block fields must be provided together'')])"

section \<open>Supporting requests\<close>

record data_block_creation_source =
  ds_source_node_id :: uuid
  ds_selected_columns :: "string list"
  ds_new_node_name :: string

definition ds_coerce :: "data_block_creation_source \<Rightarrow> data_block_creation_source" where
  "ds_coerce s = s\<lparr>ds_selected_columns := map py_strip (ds_selected_columns s),
     ds_new_node_name := py_strip (ds_new_node_name s)\<rparr>"

definition ds_checks :: "data_block_creation_source \<Rightarrow> (bool \<times> error) list" where
  "ds_checks s =
     [field_check (1 \<le> length (ds_selected_columns s) \<and> list_all text_ok (ds_selected_columns s) \<and>
        text_max 500 (ds_new_node_name s)),
      (has_duplicates (ds_selected_columns s),
       ValueError ''Data Block Creation columns must be unique'')]"

record document_creation_source =
  dd_source_node_id :: uuid
  dd_selected_metadata_columns :: "string list"
  dd_new_node_name :: string
  dd_excluded_matched_texts :: "string list"
  dd_bin_count :: "int option"
  dd_selected_bins :: "int list option"

definition dd_coerce :: "document_creation_source \<Rightarrow> document_creation_source" where
  "dd_coerce s = s\<lparr>dd_selected_metadata_columns := map py_strip (dd_selected_metadata_columns s),
     dd_new_node_name := py_strip (dd_new_node_name s),
     dd_excluded_matched_texts := map py_strip (dd_excluded_matched_texts s)\<rparr>"

text \<open>A missing bin count in the last check would be an \<open>assert\<close>, after the check that excludes it.\<close>

definition dd_checks :: "document_creation_source \<Rightarrow> (bool \<times> error) list" where
  "dd_checks s =
     [field_check (list_all text_ok (dd_selected_metadata_columns s) \<and>
        text_max 500 (dd_new_node_name s) \<and> list_all text_ok (dd_excluded_matched_texts s) \<and>
        option_ok (\<lambda>n. n \<in> {4, 5, 10, 20, 25, 50, 100}) (dd_bin_count s) \<and>
        option_ok (\<lambda>bins. 1 \<le> length bins \<and> length bins \<le> 100) (dd_selected_bins s)),
      (has_duplicates (dd_selected_metadata_columns s),
       ValueError ''Document Data Block Creation metadata columns must be unique''),
      (has_duplicates (dd_excluded_matched_texts s),
       ValueError ''Excluded Concordance terms must be unique''),
      ((dd_bin_count s = None) \<noteq> (dd_selected_bins s = None),
       ValueError ''Selected bins and bin count must be provided together'')] @
     (case dd_selected_bins s of None \<Rightarrow> []
      | Some bins \<Rightarrow>
          [(has_duplicates bins, ValueError ''Selected Concordance bins must be unique''),
           (dd_bin_count s = None, RuntimeError ''assert''),
           (\<exists>index \<in> set bins. index < 0 \<or> index \<ge> the (dd_bin_count s),
            ValueError ''Selected Concordance bin is out of range'')])"

definition match_creation_checks :: "data_block_creation_source list \<Rightarrow> (bool \<times> error) list" where
  "match_creation_checks sources =
     field_check (1 \<le> length sources \<and> length sources \<le> 2) # concat (map ds_checks sources) @
     [(has_duplicates (map ds_source_node_id sources),
       ValueError ''Data Block Creation source IDs must be unique'')]"

definition document_creation_checks :: "document_creation_source list \<Rightarrow> (bool \<times> error) list" where
  "document_creation_checks sources =
     field_check (1 \<le> length sources \<and> length sources \<le> 2) # concat (map dd_checks sources) @
     [(has_duplicates (map dd_source_node_id sources),
       ValueError ''Document Data Block Creation source IDs must be unique'')]"

datatype processing_mode = ReprocessAll | FillMissing

record annotation_run_all_request =
  ar_source :: annotation_request
  ar_batch_size :: int
  ar_processing_mode :: processing_mode

definition ar_coerce :: "annotation_run_all_request \<Rightarrow> annotation_run_all_request" where
  "ar_coerce r = r\<lparr>ar_source := an_coerce (ar_source r)\<rparr>"

definition ar_checks :: "(string \<Rightarrow> string) \<Rightarrow> annotation_run_all_request \<Rightarrow> (bool \<times> error) list" where
  "ar_checks casefold r = an_checks casefold (ar_source r) @
     [field_check (1 \<le> ar_batch_size r \<and> ar_batch_size r \<le> 100)]"

record topic_meaning_override =
  mo_topic_id :: int
  mo_words :: "string list"

record topic_creation_request =
  tc_node_ids :: "uuid list"
  tc_selected_columns :: "(uuid, string list) dict"
  tc_new_node_names :: "(uuid, string) dict"
  tc_topic_ids :: "int list option"
  tc_topic_meanings_override :: "topic_meaning_override list"

definition tc_coerce :: "topic_creation_request \<Rightarrow> topic_creation_request" where
  "tc_coerce r = r\<lparr>tc_selected_columns := map (\<lambda>(k, cs). (k, map py_strip cs)) (tc_selected_columns r),
     tc_new_node_names := strip_values (tc_new_node_names r),
     tc_topic_meanings_override :=
       map (\<lambda>m. m\<lparr>mo_words := map py_strip (mo_words m)\<rparr>) (tc_topic_meanings_override r)\<rparr>"

definition tc_checks :: "topic_creation_request \<Rightarrow> (bool \<times> error) list" where
  "tc_checks r =
     (let expected = set (tc_node_ids r) in
      [field_check (node_ids_ok (tc_node_ids r) \<and> texts_ok (tc_new_node_names r) \<and>
         (\<forall>cs \<in> set (dict_values (tc_selected_columns r)). list_all text_ok cs) \<and>
         (\<forall>m \<in> set (tc_topic_meanings_override r). list_all text_ok (mo_words m))),
       (has_duplicates (tc_node_ids r),
        ValueError ''Topic Modeling Data Block Creation Data Block IDs must be unique''),
       (set (dict_keys (tc_selected_columns r)) \<noteq> expected \<or>
          set (dict_keys (tc_new_node_names r)) \<noteq> expected,
        ValueError ''Topic Modeling Data Block Creation source fields must align''),
       (\<exists>name \<in> set (dict_values (tc_new_node_names r)). 475 < length name,
        ValueError ''Topic Modeling Data Block Creation Data Block names are too long''),
       (tc_topic_ids r \<noteq> None \<and> has_duplicates (the (tc_topic_ids r)),
        ValueError ''Selected Topic IDs must be unique''),
       (has_duplicates (map mo_topic_id (tc_topic_meanings_override r)),
        ValueError ''Topic meaning overrides must be unique'')])"

section \<open>The request union\<close>

datatype analysis_request =
    TokenFrequency token_frequency_request
  | TopicModeling topic_modeling_request
  | Concordance concordance_request
  | Quotation quotation_request
  | Sequential sequential_request
  | is_annotation: Annotation annotation_request
  | ConcordanceRunAll concordance_request
  | QuotationRunAll quotation_request
  | ConcordanceMatchCreation "data_block_creation_source list"
  | ConcordanceDocumentCreation "document_creation_source list"
  | QuotationResultCreation data_block_creation_source
  | is_annotation_run_all: AnnotationRunAll annotation_run_all_request
  | TopicModelingCreation topic_creation_request

fun request_kind :: "analysis_request \<Rightarrow> string" where
  "request_kind (TokenFrequency r) = ''token_frequency''"
| "request_kind (TopicModeling r) = ''topic_modeling''"
| "request_kind (Concordance r) = ''concordance''"
| "request_kind (Quotation r) = ''quotation''"
| "request_kind (Sequential r) = ''sequential''"
| "request_kind (Annotation r) = ''annotation''"
| "request_kind (ConcordanceRunAll r) = ''concordance_run_all''"
| "request_kind (QuotationRunAll r) = ''quotation_run_all''"
| "request_kind (ConcordanceMatchCreation r) = ''concordance_match_data_block_creation''"
| "request_kind (ConcordanceDocumentCreation r) = ''concordance_document_data_block_creation''"
| "request_kind (QuotationResultCreation r) = ''quotation_result_data_block_creation''"
| "request_kind (AnnotationRunAll r) = ''annotation_run_all''"
| "request_kind (TopicModelingCreation r) = ''topic_modeling_data_block_creation''"

fun request_coerce :: "analysis_request \<Rightarrow> analysis_request" where
  "request_coerce (TokenFrequency r) = TokenFrequency (tf_coerce r)"
| "request_coerce (TopicModeling r) = TopicModeling (tm_coerce r)"
| "request_coerce (Concordance r) = Concordance (cc_coerce r)"
| "request_coerce (Quotation r) = Quotation (qt_coerce r)"
| "request_coerce (Sequential r) = Sequential (sq_coerce r)"
| "request_coerce (Annotation r) = Annotation (an_coerce r)"
| "request_coerce (ConcordanceRunAll r) = ConcordanceRunAll (cc_coerce r)"
| "request_coerce (QuotationRunAll r) = QuotationRunAll (qt_coerce r)"
| "request_coerce (ConcordanceMatchCreation rs) = ConcordanceMatchCreation (map ds_coerce rs)"
| "request_coerce (ConcordanceDocumentCreation rs) = ConcordanceDocumentCreation (map dd_coerce rs)"
| "request_coerce (QuotationResultCreation r) = QuotationResultCreation (ds_coerce r)"
| "request_coerce (AnnotationRunAll r) = AnnotationRunAll (ar_coerce r)"
| "request_coerce (TopicModelingCreation r) = TopicModelingCreation (tc_coerce r)"

fun request_checks :: "(string \<Rightarrow> string) \<Rightarrow> analysis_request \<Rightarrow> (bool \<times> error) list" where
  "request_checks casefold (TokenFrequency r) = tf_checks r"
| "request_checks casefold (TopicModeling r) = tm_checks r"
| "request_checks casefold (Concordance r) = cc_checks r"
| "request_checks casefold (Quotation r) = qt_checks r"
| "request_checks casefold (Sequential r) = sq_checks r"
| "request_checks casefold (Annotation r) = an_checks casefold r"
| "request_checks casefold (ConcordanceRunAll r) = cc_checks r"
| "request_checks casefold (QuotationRunAll r) = qt_checks r"
| "request_checks casefold (ConcordanceMatchCreation rs) = match_creation_checks rs"
| "request_checks casefold (ConcordanceDocumentCreation rs) = document_creation_checks rs"
| "request_checks casefold (QuotationResultCreation r) = ds_checks r"
| "request_checks casefold (AnnotationRunAll r) = ar_checks casefold r"
| "request_checks casefold (TopicModelingCreation r) = tc_checks r"

text \<open>The base URL an annotation request carries, directly or in its source.\<close>

fun request_base_url :: "analysis_request \<Rightarrow> string option" where
  "request_base_url (Annotation r) = ap_base_url r"
| "request_base_url (AnnotationRunAll r) = ap_base_url (ar_source r)"
| "request_base_url r = None"

fun request_with_base_url :: "string option \<Rightarrow> analysis_request \<Rightarrow> analysis_request" where
  "request_with_base_url url (Annotation r) = Annotation (r\<lparr>ap_base_url := url\<rparr>)"
| "request_with_base_url url (AnnotationRunAll r) =
     AnnotationRunAll (r\<lparr>ar_source := (ar_source r)\<lparr>ap_base_url := url\<rparr>\<rparr>)"
| "request_with_base_url url r = r"

definition normalize_base_url :: "(string \<Rightarrow> bool) \<Rightarrow> string option \<Rightarrow> string option result" where
  "normalize_base_url netloc_ok base_url =
     (case base_url of None \<Rightarrow> Inr None
      | Some url \<Rightarrow> map_sum id Some (normalize_annotation_provider_base_url netloc_ok url))"

definition validate_request ::
    "(string \<Rightarrow> bool) \<Rightarrow> (string \<Rightarrow> string) \<Rightarrow> analysis_request \<Rightarrow> analysis_request result" where
  "validate_request netloc_ok casefold r =
     bind_result (normalize_base_url netloc_ok (request_base_url r)) (\<lambda>url.
       validate request_coerce (request_checks casefold) (request_with_base_url url r))"

section \<open>Submissions\<close>

text \<open>A submission is a request, with a credential when it is an annotation. What is persisted of an
  Annotation submission is dumped without the credential and validated again; an Annotation run is
  rebuilt around its source, which is already validated.\<close>

record analysis_submission =
  sub_request :: analysis_request
  sub_api_key :: "string option"

definition persisted_submission ::
    "(string \<Rightarrow> bool) \<Rightarrow> (string \<Rightarrow> string) \<Rightarrow> analysis_submission \<Rightarrow> analysis_request result" where
  "persisted_submission netloc_ok casefold submission =
     (if is_annotation (sub_request submission)
      then validate_request netloc_ok casefold (sub_request submission)
      else Inr (sub_request submission))"

section \<open>Input Data Blocks\<close>

text \<open>\<open>request.source\<close> is looked into again; that ends because a source is no run of its own.\<close>

function (sequential) analysis_input_ids :: "analysis_request \<Rightarrow> uuid list" where
  "analysis_input_ids (ConcordanceRunAll r) = cc_node_ids r"
| "analysis_input_ids (QuotationRunAll r) = [qt_node_id r]"
| "analysis_input_ids (AnnotationRunAll r) = analysis_input_ids (Annotation (ar_source r))"
| "analysis_input_ids (ConcordanceMatchCreation sources) = map ds_source_node_id sources"
| "analysis_input_ids (ConcordanceDocumentCreation sources) = map dd_source_node_id sources"
| "analysis_input_ids (QuotationResultCreation source) = [ds_source_node_id source]"
| "analysis_input_ids (TokenFrequency r) = tf_node_ids r"
| "analysis_input_ids (TopicModeling r) = tm_node_ids r"
| "analysis_input_ids (Concordance r) = cc_node_ids r"
| "analysis_input_ids (TopicModelingCreation r) = tc_node_ids r"
| "analysis_input_ids (Quotation r) = dedupe [qt_node_id r]"
| "analysis_input_ids (Sequential r) = dedupe [sq_node_id r]"
| "analysis_input_ids (Annotation r) = dedupe ([an_node_id r, an_class_node_id r] @
     (case an_example_node_id r of None \<Rightarrow> [] | Some i \<Rightarrow> [i]))"
  by pat_completeness auto
termination
  by (relation "measure (\<lambda>r. if is_annotation_run_all r then 1 else 0)") auto

function (sequential) analysis_snapshot_input_ids :: "analysis_request \<Rightarrow> uuid list" where
  "analysis_snapshot_input_ids (AnnotationRunAll r) =
     analysis_snapshot_input_ids (Annotation (ar_source r))"
| "analysis_snapshot_input_ids (Annotation r) = dedupe ([an_node_id r] @
     (case an_example_node_id r of None \<Rightarrow> [] | Some i \<Rightarrow> [i]))"
| "analysis_snapshot_input_ids r = analysis_input_ids r"
  by pat_completeness auto
termination
  by (relation "measure (\<lambda>r. if is_annotation_run_all r then 1 else 0)") auto

section \<open>Lemmas\<close>

lemma coerce_idem [simp]:
  "tf_coerce (tf_coerce r1) = tf_coerce r1" "tm_coerce (tm_coerce r2) = tm_coerce r2"
  "cc_coerce (cc_coerce r3) = cc_coerce r3" "qt_coerce (qt_coerce r4) = qt_coerce r4"
  "sq_coerce (sq_coerce r5) = sq_coerce r5" "ds_coerce (ds_coerce r6) = ds_coerce r6"
  "dd_coerce (dd_coerce r7) = dd_coerce r7"
  by (simp_all add: tf_coerce_def tm_coerce_def cc_coerce_def qt_coerce_def sq_coerce_def
      ds_coerce_def dd_coerce_def option.map_comp)

lemma annotation_class_coerce_idem [simp]:
  "annotation_class_coerce \<circ> annotation_class_coerce = annotation_class_coerce"
  by (auto simp: annotation_class_coerce_def)

lemma an_coerce_idem [simp]: "an_coerce (an_coerce r) = an_coerce r"
  by (simp add: an_coerce_def option.map_comp)

lemma ar_tc_coerce_idem [simp]:
  "ar_coerce (ar_coerce r) = ar_coerce r" "tc_coerce (tc_coerce q) = tc_coerce q"
  by (simp_all add: ar_coerce_def tc_coerce_def case_prod_unfold comp_def)

lemma request_coerce_idem [simp]: "request_coerce (request_coerce r) = request_coerce r"
  by (cases r) (simp_all add: comp_def)

lemma request_base_url_coerce [simp]: "request_base_url (request_coerce r) = request_base_url r"
  by (cases r) (simp_all add: an_coerce_def ar_coerce_def)

lemma request_with_base_url_same [simp]:
  "request_base_url r = url \<Longrightarrow> request_with_base_url url r = r"
  by (cases r) auto

lemma request_base_url_with [simp]:
  "request_base_url (request_with_base_url url r) =
     (if is_annotation r \<or> is_annotation_run_all r then url else None)"
  by (cases r) auto

lemma validate_requestD:
  assumes "validate_request netloc_ok casefold r = Inr n"
  obtains url where "normalize_base_url netloc_ok (request_base_url r) = Inr url"
    "n = request_coerce (request_with_base_url url r)"
    "list_all (\<lambda>(c, e). \<not> c) (request_checks casefold n)" "request_base_url n = url"
proof -
  obtain url where u: "normalize_base_url netloc_ok (request_base_url r) = Inr url"
    and v: "validate request_coerce (request_checks casefold) (request_with_base_url url r) = Inr n"
    using assms unfolding validate_request_def bind_result_Inr_iff by blast
  have "\<not> (is_annotation r \<or> is_annotation_run_all r) \<Longrightarrow> url = None"
    using u by (cases r) (auto simp: normalize_base_url_def)
  then have "request_base_url n = url" using v by (auto simp: validate_Inr_iff)
  with u v show thesis by (intro that) (auto simp: validate_Inr_iff)
qed

section \<open>Properties\<close>


definition example_concordance :: concordance_request where
  "example_concordance = \<lparr>cc_node_ids = [''n1'', ''n2''],
     cc_node_columns = [(''n2'', ''body''), (''n1'', '' text '')], cc_search_word = ''  word'',
     cc_num_left_tokens = 0, cc_num_right_tokens = 10, cc_regex = False, cc_whole_word = True,
     cc_case_sensitive = False, cc_ignore_punctuation = False, cc_search_mode = RegexMode,
     cc_node_tokenizer_models = []\<rparr>"


text \<open>A valid request names its input Data Blocks once each and has at least one and at most three of
  them; the ones whose plans are read, which a snapshot retains, are among them, and there is one.\<close>

theorem analysis_input_ids_distinct:
  assumes "validate_request netloc_ok casefold r = Inr n"
  shows "distinct (analysis_input_ids n) \<and> analysis_input_ids n \<noteq> [] \<and>
    length (analysis_input_ids n) \<le> 3 \<and>
    distinct (analysis_snapshot_input_ids n) \<and> analysis_snapshot_input_ids n \<noteq> [] \<and>
    set (analysis_snapshot_input_ids n) \<subseteq> set (analysis_input_ids n)"
proof -
  have c: "list_all (\<lambda>(c, e). \<not> c) (request_checks casefold n)"
    using assms by (rule validate_requestD)
  then show ?thesis
    by (cases n)
      (auto simp: tf_checks_def tm_checks_def cc_checks_def tc_checks_def validate_node_columns_def
        node_ids_ok_def match_creation_checks_def document_creation_checks_def Let_def
        split: option.splits)
qed

theorem analysis_input_ids_distinct_witness:
  "analysis_input_ids (Concordance (cc_coerce example_concordance)) = [''n1'', ''n2''] \<and>
   distinct (analysis_input_ids (Concordance (cc_coerce example_concordance)))"
proof -
  have *: "validate_request (\<lambda>n. True) id (Concordance example_concordance) =
     Inr (Concordance (cc_coerce example_concordance))" by code_simp
  show ?thesis using analysis_input_ids_distinct [OF *] by (simp add: cc_coerce_def example_concordance_def)
qed

end
