(* ===== verification/AnalysisRecords.thy ===== *)
theory AnalysisRecords
  imports AnalysisRequests
begin

text \<open>
  The Analysis record of \<^verbatim>\<open>domain/workspace/analysis.py\<close> (\<open>_AnalysisLifecycle\<close>, \<open>AnalysisRecord\<close>) and
  its transitions.

  The fields that an Analysis shares with a User File Import are the record \<open>lifecycle\<close>, which both
  extend. A transition dumps the record, changes some fields, counts the revision up and validates
  everything again, so each is \<open>rec_validate\<close> of the changed record. \<open>rec_transition\<close> collects the
  transitions, for which the contract of \<open>Background\<close> is interpreted.
\<close>

section \<open>Records\<close>

record lifecycle =
  lc_state :: background_state
  lc_progress :: progress
  lc_cancellation_requested_at :: "timestamp option"
  lc_error :: "failure option"
  lc_created_at :: timestamp
  lc_started_at :: "timestamp option"
  lc_finished_at :: "timestamp option"
  lc_revision :: int

datatype execution_scope = Preview | RunAll | Supporting

record artifact_record =
  art_name :: string
  art_relative_path :: string
  art_media_type :: "string option"

type_synonym json = string

record analysis_record = lifecycle +
  rec_id :: uuid
  rec_tab_id :: uuid
  rec_parent_analysis_id :: "uuid option"
  rec_execution_scope :: execution_scope
  rec_supersedes_analysis_ids :: "uuid list"
  rec_request :: analysis_request
  rec_output_node_ids :: "uuid list"
  rec_result_payload :: "json option"
  rec_artifact_references :: "artifact_record list"
  rec_query_snapshot :: "string option"

section \<open>Validation\<close>

definition artifact_coerce :: "artifact_record \<Rightarrow> artifact_record" where
  "artifact_coerce a = a\<lparr>art_name := py_strip (art_name a),
     art_relative_path := py_strip (art_relative_path a)\<rparr>"

definition artifact_ok :: "artifact_record \<Rightarrow> bool" where
  "artifact_ok a \<longleftrightarrow> text_max 500 (art_name a) \<and> text_max 1000 (art_relative_path a) \<and>
     option_ok (\<lambda>m. length m \<le> 200) (art_media_type a)"

definition rec_coerce :: "analysis_record \<Rightarrow> analysis_record" where
  "rec_coerce r = r\<lparr>rec_artifact_references := map artifact_coerce (rec_artifact_references r),
     rec_query_snapshot := map_option py_strip (rec_query_snapshot r)\<rparr>"

definition rec_field_check :: "analysis_record \<Rightarrow> bool" where
  "rec_field_check r \<longleftrightarrow> progress_ok (lc_progress r) \<and> option_ok failure_ok (lc_error r) \<and>
     1 \<le> lc_revision r \<and> list_all artifact_ok (rec_artifact_references r) \<and>
     option_ok (text_max 1000) (rec_query_snapshot r)"

definition rec_lifecycle_checks :: "analysis_record \<Rightarrow> (bool \<times> error) list" where
  "rec_lifecycle_checks r =
     [(rec_parent_analysis_id r = Some (rec_id r), ValueError ''An Analysis cannot parent itself''),
      (rec_id r \<in> set (rec_supersedes_analysis_ids r) \<or>
         has_duplicates (rec_supersedes_analysis_ids r),
       ValueError ''Superseded Analysis IDs must be distinct''),
      (terminal (lc_state r) \<noteq> (lc_finished_at r \<noteq> None),
       ValueError ''Terminal Analysis state and finished_at must agree''),
      (lc_state r = QUEUED \<and> lc_started_at r \<noteq> None,
       ValueError ''Queued Analyses cannot have started_at''),
      (lc_state r \<in> {RUNNING, SUCCEEDED} \<and> lc_started_at r = None,
       ValueError ''Running and successful Analyses require started_at''),
      ((lc_state r = FAILED) \<noteq> (lc_error r \<noteq> None),
       ValueError ''Only failed Analyses contain a Failure''),
      (lc_state r = CANCELLED \<and> lc_cancellation_requested_at r = None,
       ValueError ''Cancelled Analyses require a cancellation request''),
      (lc_state r = SUCCEEDED \<and> \<not> progress_complete (lc_progress r),
       ValueError ''Successful Analyses require complete Progress''),
      (lc_state r \<noteq> SUCCEEDED \<and> progress_complete (lc_progress r),
       ValueError ''Only successful Analyses may persist complete Progress''),
      (lc_started_at r \<noteq> None \<and> the (lc_started_at r) < lc_created_at r,
       ValueError ''started_at cannot precede created_at''),
      (lc_cancellation_requested_at r \<noteq> None \<and>
         the (lc_cancellation_requested_at r) < lc_created_at r,
       ValueError ''cancellation_requested_at cannot precede created_at''),
      (lc_finished_at r \<noteq> None \<and> the (lc_finished_at r) <
         (case lc_started_at r of Some b \<Rightarrow> b | None \<Rightarrow> lc_created_at r),
       ValueError ''finished_at precedes the Analysis lifecycle'')]"

definition rec_result_checks :: "analysis_record \<Rightarrow> (bool \<times> error) list" where
  "rec_result_checks r =
     (let succeeded = (lc_state r = SUCCEEDED);
          expected = ''analyses/'' @ rec_id r @ ''/query-input'';
          names = map art_name (rec_artifact_references r);
          paths = map art_relative_path (rec_artifact_references r)
      in [(succeeded \<noteq> (rec_result_payload r \<noteq> None),
           ValueError ''Only a successful Analysis has a Result''),
          (\<not> succeeded \<and> rec_artifact_references r \<noteq> [],
           ValueError ''Only a successful Analysis owns published Artifacts''),
          (\<not> succeeded \<and> rec_query_snapshot r \<noteq> None,
           ValueError ''Only a successful Analysis owns a query snapshot''),
          (rec_query_snapshot r \<noteq> None \<and>
             request_kind (rec_request r) \<notin> {''annotation'', ''concordance'', ''quotation''},
           ValueError ''Analysis kind does not support a query snapshot''),
          (rec_query_snapshot r \<noteq> None \<and> the (rec_query_snapshot r) \<noteq> expected,
           ValueError ''Analysis query snapshot path is invalid''),
          (has_duplicates names \<or> has_duplicates paths,
           ValueError ''Analysis Artifact references must be unique''),
          (has_duplicates (rec_output_node_ids r),
           ValueError ''Analysis output Data Block IDs must be unique''),
          (\<not> succeeded \<and> rec_output_node_ids r \<noteq> [],
           ValueError ''Only a successful Analysis may publish Data Blocks'')])"

definition rec_checks :: "analysis_record \<Rightarrow> (bool \<times> error) list" where
  "rec_checks r = field_check (rec_field_check r) # rec_lifecycle_checks r @ rec_result_checks r"

definition rec_validate ::
    "(string \<Rightarrow> bool) \<Rightarrow> (string \<Rightarrow> string) \<Rightarrow> analysis_record \<Rightarrow> analysis_record result" where
  "rec_validate netloc_ok casefold r =
     bind_result (validate_request netloc_ok casefold (rec_request r)) (\<lambda>request.
       validate rec_coerce rec_checks (r\<lparr>rec_request := request\<rparr>))"

section \<open>Operations\<close>

definition rec_create ::
    "(string \<Rightarrow> bool) \<Rightarrow> (string \<Rightarrow> string) \<Rightarrow> analysis_request \<Rightarrow> uuid \<Rightarrow> execution_scope \<Rightarrow> timestamp \<Rightarrow>
     uuid option \<Rightarrow> uuid list \<Rightarrow> uuid \<Rightarrow> analysis_record result" where
  "rec_create netloc_ok casefold request tab_id scope timestamp parent supersedes analysis_id =
     rec_validate netloc_ok casefold
       \<lparr>lc_state = QUEUED, lc_progress = \<lparr>pg_fraction = Some (Fin 0), pg_message = Some ''Queued''\<rparr>,
        lc_cancellation_requested_at = None, lc_error = None, lc_created_at = timestamp,
        lc_started_at = None, lc_finished_at = None, lc_revision = 1, rec_id = analysis_id,
        rec_tab_id = tab_id, rec_parent_analysis_id = parent, rec_execution_scope = scope,
        rec_supersedes_analysis_ids = supersedes, rec_request = request, rec_output_node_ids = [],
        rec_result_payload = None, rec_artifact_references = [], rec_query_snapshot = None\<rparr>"

definition rec_bump ::
    "(string \<Rightarrow> bool) \<Rightarrow> (string \<Rightarrow> string) \<Rightarrow> (analysis_record \<Rightarrow> analysis_record) \<Rightarrow> analysis_record \<Rightarrow>
     analysis_record result" where
  "rec_bump netloc_ok casefold changes r =
     rec_validate netloc_ok casefold ((changes r)\<lparr>lc_revision := lc_revision r + 1\<rparr>)"

definition rec_start ::
    "(string \<Rightarrow> bool) \<Rightarrow> (string \<Rightarrow> string) \<Rightarrow> timestamp \<Rightarrow> analysis_record \<Rightarrow> analysis_record result" where
  "rec_start netloc_ok casefold timestamp r =
     (if lc_state r \<noteq> QUEUED then Inl (ValueError ''Only a queued Analysis can start'')
      else rec_bump netloc_ok casefold
        (\<lambda>r. r\<lparr>lc_state := RUNNING, lc_started_at := Some timestamp\<rparr>) r)"

definition rec_cancel_queued ::
    "(string \<Rightarrow> bool) \<Rightarrow> (string \<Rightarrow> string) \<Rightarrow> timestamp \<Rightarrow> analysis_record \<Rightarrow> analysis_record result" where
  "rec_cancel_queued netloc_ok casefold timestamp r =
     (if lc_state r \<noteq> QUEUED then
        Inl (ValueError ''Only a queued Analysis can be cancelled immediately'')
      else rec_bump netloc_ok casefold
        (\<lambda>r. r\<lparr>lc_state := CANCELLED, lc_cancellation_requested_at := Some timestamp,
            lc_finished_at := Some timestamp\<rparr>) r)"

definition rec_request_running_cancellation ::
    "(string \<Rightarrow> bool) \<Rightarrow> (string \<Rightarrow> string) \<Rightarrow> timestamp \<Rightarrow> analysis_record \<Rightarrow> analysis_record result" where
  "rec_request_running_cancellation netloc_ok casefold timestamp r =
     (if lc_state r \<noteq> RUNNING then
        Inl (ValueError ''Only a running Analysis can request cancellation'')
      else if lc_cancellation_requested_at r \<noteq> None then Inr r
      else rec_bump netloc_ok casefold
        (\<lambda>r. r\<lparr>lc_cancellation_requested_at := Some timestamp\<rparr>) r)"

definition rec_confirm_cancelled ::
    "(string \<Rightarrow> bool) \<Rightarrow> (string \<Rightarrow> string) \<Rightarrow> timestamp \<Rightarrow> progress \<Rightarrow> analysis_record \<Rightarrow>
     analysis_record result" where
  "rec_confirm_cancelled netloc_ok casefold timestamp progress r =
     (if lc_state r \<noteq> RUNNING \<or> lc_cancellation_requested_at r = None then
        Inl (ValueError ''Cancellation confirmation requires a pending request'')
      else rec_bump netloc_ok casefold
        (\<lambda>r. r\<lparr>lc_state := CANCELLED, lc_progress := progress, lc_finished_at := Some timestamp\<rparr>) r)"

definition rec_fail ::
    "(string \<Rightarrow> bool) \<Rightarrow> (string \<Rightarrow> string) \<Rightarrow> timestamp \<Rightarrow> failure \<Rightarrow> progress \<Rightarrow> analysis_record \<Rightarrow>
     analysis_record result" where
  "rec_fail netloc_ok casefold timestamp failure progress r =
     (if lc_state r \<notin> {QUEUED, RUNNING} then
        Inl (ValueError ''Only a non-terminal Analysis can fail'')
      else rec_bump netloc_ok casefold
        (\<lambda>r. r\<lparr>lc_state := FAILED, lc_progress := progress, lc_error := Some failure,
            lc_finished_at := Some timestamp\<rparr>) r)"

definition complete_progress :: progress where
  "complete_progress = \<lparr>pg_fraction = Some (Fin 1), pg_message = Some ''Complete''\<rparr>"

definition rec_succeed ::
    "(string \<Rightarrow> bool) \<Rightarrow> (string \<Rightarrow> string) \<Rightarrow> timestamp \<Rightarrow> json \<Rightarrow> artifact_record list \<Rightarrow> uuid list \<Rightarrow>
     string option \<Rightarrow> analysis_record \<Rightarrow> analysis_record result" where
  "rec_succeed netloc_ok casefold timestamp payload artifacts output_ids snapshot r =
     (if lc_state r \<noteq> RUNNING then Inl (ValueError ''Only a running Analysis can succeed'')
      else rec_bump netloc_ok casefold
        (\<lambda>r. r\<lparr>lc_state := SUCCEEDED, lc_progress := complete_progress,
            rec_result_payload := Some payload, rec_artifact_references := artifacts,
            rec_output_node_ids := output_ids, rec_query_snapshot := snapshot,
            lc_finished_at := Some timestamp\<rparr>) r)"

lemmas rec_ops = rec_start_def rec_cancel_queued_def rec_request_running_cancellation_def
  rec_confirm_cancelled_def rec_fail_def rec_succeed_def

text \<open>The transitions that make a new record.\<close>

inductive rec_transition ::
    "(string \<Rightarrow> bool) \<Rightarrow> (string \<Rightarrow> string) \<Rightarrow> analysis_record \<Rightarrow> analysis_record \<Rightarrow> bool"
  for netloc_ok casefold where
  start: "rec_start netloc_ok casefold t r = Inr r' \<Longrightarrow> rec_transition netloc_ok casefold r r'"
| cancel_queued: "rec_cancel_queued netloc_ok casefold t r = Inr r' \<Longrightarrow>
    rec_transition netloc_ok casefold r r'"
| request_cancellation: "rec_request_running_cancellation netloc_ok casefold t r = Inr r' \<Longrightarrow>
    lc_cancellation_requested_at r = None \<Longrightarrow> rec_transition netloc_ok casefold r r'"
| confirm_cancelled: "rec_confirm_cancelled netloc_ok casefold t p r = Inr r' \<Longrightarrow>
    rec_transition netloc_ok casefold r r'"
| fail: "rec_fail netloc_ok casefold t f p r = Inr r' \<Longrightarrow> rec_transition netloc_ok casefold r r'"
| succeed: "rec_succeed netloc_ok casefold t j as ids q r = Inr r' \<Longrightarrow>
    rec_transition netloc_ok casefold r r'"

section \<open>Lemmas\<close>

definition rec_ok :: "analysis_record \<Rightarrow> bool" where
  "rec_ok r \<longleftrightarrow> list_all (\<lambda>(c, e). \<not> c) (rec_checks r)"

lemma rec_okD:
  assumes "rec_ok r"
  shows "terminal (lc_state r) \<longleftrightarrow> lc_finished_at r \<noteq> None"
    "lc_state r = QUEUED \<Longrightarrow> lc_started_at r = None"
    "lc_state r \<in> {RUNNING, SUCCEEDED} \<Longrightarrow> lc_started_at r \<noteq> None"
    "lc_state r = FAILED \<longleftrightarrow> lc_error r \<noteq> None"
    "lc_state r = CANCELLED \<Longrightarrow> lc_cancellation_requested_at r \<noteq> None"
    "lc_state r = SUCCEEDED \<longleftrightarrow> progress_complete (lc_progress r)"
    "lc_state r = SUCCEEDED \<longleftrightarrow> rec_result_payload r \<noteq> None"
    "lc_started_at r = Some b \<Longrightarrow> lc_created_at r \<le> b"
    "lc_cancellation_requested_at r = Some q \<Longrightarrow> lc_created_at r \<le> q"
    "lc_finished_at r = Some f \<Longrightarrow> (case lc_started_at r of Some b \<Rightarrow> b | None \<Rightarrow> lc_created_at r) \<le> f"
    "distinct (rec_output_node_ids r)" "lc_state r \<noteq> SUCCEEDED \<Longrightarrow> rec_output_node_ids r = []"
    "lc_state r \<noteq> SUCCEEDED \<Longrightarrow> rec_artifact_references r = []"
    "lc_state r \<noteq> SUCCEEDED \<Longrightarrow> rec_query_snapshot r = None"
  using assms
  by (simp_all add: rec_ok_def rec_checks_def rec_lifecycle_checks_def rec_result_checks_def Let_def)
    (cases "lc_state r"; simp)+

lemma rec_validate_Inr_iff:
  "rec_validate netloc_ok casefold r = Inr r' \<longleftrightarrow>
     (\<exists>request. validate_request netloc_ok casefold (rec_request r) = Inr request \<and>
        r' = rec_coerce (r\<lparr>rec_request := request\<rparr>) \<and> rec_ok r')"
  unfolding rec_validate_def bind_result_Inr_iff validate_Inr_iff rec_ok_def by blast

lemma rec_coerce_frame [simp]:
  "lc_state (rec_coerce r) = lc_state r" "lc_progress (rec_coerce r) = lc_progress r"
  "lc_cancellation_requested_at (rec_coerce r) = lc_cancellation_requested_at r"
  "lc_error (rec_coerce r) = lc_error r" "lc_created_at (rec_coerce r) = lc_created_at r"
  "lc_started_at (rec_coerce r) = lc_started_at r" "lc_finished_at (rec_coerce r) = lc_finished_at r"
  "lc_revision (rec_coerce r) = lc_revision r" "rec_id (rec_coerce r) = rec_id r"
  "rec_tab_id (rec_coerce r) = rec_tab_id r" "rec_request (rec_coerce r) = rec_request r"
  "rec_output_node_ids (rec_coerce r) = rec_output_node_ids r"
  "rec_result_payload (rec_coerce r) = rec_result_payload r"
  "rec_supersedes_analysis_ids (rec_coerce r) = rec_supersedes_analysis_ids r"
  "rec_parent_analysis_id (rec_coerce r) = rec_parent_analysis_id r"
  by (simp_all add: rec_coerce_def)

lemma rec_bumpD:
  assumes "rec_bump netloc_ok casefold changes r = Inr r'"
  obtains request where "validate_request netloc_ok casefold (rec_request (changes r)) = Inr request"
    "r' = rec_coerce ((changes r)\<lparr>lc_revision := lc_revision r + 1, rec_request := request\<rparr>)" "rec_ok r'"
  using assms unfolding rec_bump_def rec_validate_Inr_iff by auto

text \<open>What each transition leaves in the fields of the life cycle.\<close>

lemma rec_transition_cases:
  assumes "rec_transition netloc_ok casefold r r'"
  obtains (start) t where "lc_state r = QUEUED" "lc_state r' = RUNNING" "lc_started_at r' = Some t"
      "lc_cancellation_requested_at r' = lc_cancellation_requested_at r" "lc_finished_at r' = lc_finished_at r"
    | (cancel_queued) t where "lc_state r = QUEUED" "lc_state r' = CANCELLED"
      "lc_started_at r' = lc_started_at r" "lc_cancellation_requested_at r' = Some t"
      "lc_finished_at r' = Some t"
    | (request) t where "lc_state r = RUNNING" "lc_state r' = RUNNING"
      "lc_cancellation_requested_at r = None" "lc_cancellation_requested_at r' = Some t"
      "lc_started_at r' = lc_started_at r" "lc_finished_at r' = lc_finished_at r"
    | (ended) t where "lc_state r = RUNNING \<or> lc_state r = QUEUED" "terminal (lc_state r')"
      "lc_finished_at r' = Some t" "lc_started_at r' = lc_started_at r"
      "lc_cancellation_requested_at r' = lc_cancellation_requested_at r"
  using assms
proof (cases rule: rec_transition.cases)
  case (start t)
  then show thesis
    by (intro that(1)) (auto simp: rec_start_def split: if_splits elim!: rec_bumpD)
next
  case (cancel_queued t)
  then show thesis
    by (intro that(2)) (auto simp: rec_cancel_queued_def split: if_splits elim!: rec_bumpD)
next
  case (request_cancellation t)
  then show thesis
    by (intro that(3))
      (auto simp: rec_request_running_cancellation_def split: if_splits elim!: rec_bumpD)
next
  case (confirm_cancelled t p)
  then show thesis
    by (intro that(4)) (auto simp: rec_confirm_cancelled_def split: if_splits elim!: rec_bumpD)
next
  case (fail t f p)
  then show thesis
    by (intro that(4)) (auto simp: rec_fail_def split: if_splits elim!: rec_bumpD)
next
  case (succeed t j as ids q)
  then show thesis
    by (intro that(4)) (auto simp: rec_succeed_def split: if_splits elim!: rec_bumpD)
qed

lemma rec_transition_frame:
  assumes "rec_transition netloc_ok casefold r r'"
  shows "rec_ok r'" "lc_revision r' = lc_revision r + 1" "lc_created_at r' = lc_created_at r"
    "rec_id r' = rec_id r" "rec_tab_id r' = rec_tab_id r"
  using assms
  by (auto elim!: rec_transition.cases rec_bumpD simp: rec_ops split: if_splits)

lemma rec_ok_times:
  assumes "rec_ok r" "lc_finished_at r = Some f"
  shows "lc_created_at r \<le> f \<and>
    (\<forall>b. lc_started_at r = Some b \<longrightarrow> lc_created_at r \<le> b \<and> b \<le> f)"
  using rec_okD(8,10) [OF assms(1)] assms(2) by (cases "lc_started_at r") auto

interpretation analysis: background_resource rec_ok "rec_transition netloc_ok casefold" lc_state
  lc_cancellation_requested_at lc_created_at lc_started_at lc_finished_at lc_revision
  for netloc_ok casefold
proof (unfold_locales, goal_cases)
  case (2 r r')
  then show ?case by (cases rule: rec_transition_cases) (auto simp: remaining_def terminal_def)
next
  case (5 r r')
  then show ?case by (cases rule: rec_transition_cases) auto
next
  case (6 r r')
  from 6(1) show ?case
    by (cases rule: rec_transition_cases) (use rec_okD(2) [OF 6(2)] 6(3) in auto)
qed (auto simp: rec_transition_frame rec_okD(1,5) rec_ok_times)

section \<open>Properties\<close>

lemma rec_create_ok:
  assumes "rec_create netloc_ok casefold request tab_id scope timestamp parent supersedes i = Inr r"
  shows "rec_ok r" "lc_state r = QUEUED" "lc_revision r = 1" "lc_created_at r = timestamp" "rec_id r = i"
  using assms by (auto simp: rec_create_def rec_validate_Inr_iff)


definition example_record :: analysis_record where
  "example_record = \<lparr>lc_state = QUEUED, lc_progress = \<lparr>pg_fraction = Some (Fin 0), pg_message = Some ''Queued''\<rparr>,
     lc_cancellation_requested_at = None, lc_error = None, lc_created_at = 100, lc_started_at = None,
     lc_finished_at = None, lc_revision = 1, rec_id = ''i'', rec_tab_id = ''t'', rec_parent_analysis_id = None,
     rec_execution_scope = Preview, rec_supersedes_analysis_ids = [],
     rec_request = Concordance
       \<lparr>cc_node_ids = [''n1'', ''n2''], cc_node_columns = [(''n2'', ''body''), (''n1'', ''text'')],
        cc_search_word = ''word'', cc_num_left_tokens = 0, cc_num_right_tokens = 10, cc_regex = False,
        cc_whole_word = True, cc_case_sensitive = False, cc_ignore_punctuation = False,
        cc_search_mode = RegexMode, cc_node_tokenizer_models = []\<rparr>,
     rec_output_node_ids = [], rec_result_payload = None, rec_artifact_references = [],
     rec_query_snapshot = None\<rparr>"

definition example_running :: analysis_record where
  "example_running = example_record\<lparr>lc_state := RUNNING, lc_started_at := Some 110, lc_revision := 2\<rparr>"

lemma example_record_eqs:
  "rec_create (\<lambda>n. True) id (Concordance (cc_coerce example_concordance)) ''t'' Preview 100 None [] ''i'' =
     Inr example_record"
  "rec_start (\<lambda>n. True) id 110 example_record = Inr example_running"
  by code_simp+


definition rec_now :: "timestamp \<Rightarrow> analysis_record \<Rightarrow> bool" where
  "rec_now t r \<longleftrightarrow> lc_created_at r \<le> t \<and> (case lc_started_at r of None \<Rightarrow> True | Some b \<Rightarrow> b \<le> t)"

definition rec_open_progress :: "progress \<Rightarrow> bool" where
  "rec_open_progress p \<longleftrightarrow> progress_ok p \<and> \<not> progress_complete p"

lemma rec_bump_accepted:
  assumes "rec_validate netloc_ok casefold r = Inr r" "rec_request (changes r) = rec_request r"
    and "rec_ok (rec_coerce ((changes r)\<lparr>lc_revision := lc_revision r + 1\<rparr>))"
  shows "rec_bump netloc_ok casefold changes r =
     Inr (rec_coerce ((changes r)\<lparr>lc_revision := lc_revision r + 1\<rparr>))"
proof -
  obtain request where q: "validate_request netloc_ok casefold (rec_request r) = Inr request"
    "r = rec_coerce (r\<lparr>rec_request := request\<rparr>)"
    using assms(1) unfolding rec_validate_Inr_iff by blast
  let ?x = "(changes r)\<lparr>lc_revision := lc_revision r + 1\<rparr>"
  have "rec_request r = request" by (subst q(2)) simp
  then have x: "rec_request ?x = request" using assms(2) by simp
  then have same: "?x\<lparr>rec_request := request\<rparr> = ?x" by (cases ?x) (simp only: analysis_record.simps)
  have "validate_request netloc_ok casefold (rec_request ?x) = Inr request"
    using q(1) x \<open>rec_request r = request\<close> by metis
  with assms(3) show ?thesis
    unfolding rec_bump_def rec_validate_Inr_iff by (intro exI [of _ request] conjI) (simp_all only: same)
qed

lemmas rec_ok_unfold = rec_ok_def rec_checks_def rec_lifecycle_checks_def rec_result_checks_def
  rec_field_check_def rec_coerce_def Let_def

lemma rec_ok_active:
  assumes "rec_ok r" "lc_state r \<in> {QUEUED, RUNNING}" "rec_now t r"
  shows "lc_state r = QUEUED \<Longrightarrow> rec_ok (rec_coerce (r\<lparr>lc_state := RUNNING,
      lc_started_at := Some t, lc_revision := lc_revision r + 1\<rparr>))"
    "lc_state r = QUEUED \<Longrightarrow> rec_ok (rec_coerce (r\<lparr>lc_state := CANCELLED,
      lc_cancellation_requested_at := Some t, lc_finished_at := Some t, lc_revision := lc_revision r + 1\<rparr>))"
    "lc_state r = RUNNING \<Longrightarrow> rec_ok (rec_coerce (r\<lparr>lc_cancellation_requested_at := Some t,
      lc_revision := lc_revision r + 1\<rparr>))"
    "lc_cancellation_requested_at r \<noteq> None \<Longrightarrow> rec_open_progress p \<Longrightarrow>
      rec_ok (rec_coerce (r\<lparr>lc_state := CANCELLED, lc_progress := p,
      lc_finished_at := Some t, lc_revision := lc_revision r + 1\<rparr>))"
    "rec_open_progress p \<Longrightarrow> failure_ok f \<Longrightarrow>
      rec_ok (rec_coerce (r\<lparr>lc_state := FAILED, lc_progress := p, lc_error := Some f,
      lc_finished_at := Some t, lc_revision := lc_revision r + 1\<rparr>))"
  using assms
  by (auto simp: rec_ok_unfold rec_now_def rec_open_progress_def split: option.splits)

lemma rec_ok_succeed:
  assumes "rec_ok r" "lc_state r = RUNNING" "rec_now t r"
  shows "rec_ok (rec_coerce (r\<lparr>lc_state := SUCCEEDED, lc_progress := complete_progress,
      rec_result_payload := Some payload, rec_artifact_references := [], rec_output_node_ids := [],
      rec_query_snapshot := None, lc_finished_at := Some t, lc_revision := lc_revision r + 1\<rparr>))"
proof -
  have "progress_ok complete_progress" by code_simp
  with assms show ?thesis
    by (auto simp: rec_ok_unfold rec_now_def complete_progress_def split: option.splits)
qed

text \<open>Nothing but the guards blocks a transition. On a record that is a fixpoint of validation, at a
  time not before its own times, start, immediate and requested cancellation, its confirmation, failure
  and success are accepted exactly in the states that offer them, and the record moves to the state
  each is named for; the validators reject none of them.\<close>

theorem rec_transitions_accepted:
  assumes "rec_validate netloc_ok casefold r = Inr r" "rec_now t r" "rec_open_progress p" "failure_ok f"
  shows "(lc_state r = QUEUED \<longleftrightarrow> (\<exists>r'. rec_start netloc_ok casefold t r = Inr r' \<and> lc_state r' = RUNNING)) \<and>
    (lc_state r = QUEUED \<longleftrightarrow>
       (\<exists>r'. rec_cancel_queued netloc_ok casefold t r = Inr r' \<and> lc_state r' = CANCELLED)) \<and>
    (lc_state r = RUNNING \<longleftrightarrow> (\<exists>r'. rec_request_running_cancellation netloc_ok casefold t r = Inr r' \<and>
       lc_state r' = RUNNING \<and> lc_cancellation_requested_at r' \<noteq> None)) \<and>
    (lc_state r = RUNNING \<and> lc_cancellation_requested_at r \<noteq> None \<longleftrightarrow>
       (\<exists>r'. rec_confirm_cancelled netloc_ok casefold t p r = Inr r' \<and> lc_state r' = CANCELLED)) \<and>
    (lc_state r \<in> {QUEUED, RUNNING} \<longleftrightarrow>
       (\<exists>r'. rec_fail netloc_ok casefold t f p r = Inr r' \<and> lc_state r' = FAILED)) \<and>
    (lc_state r = RUNNING \<longleftrightarrow>
       (\<exists>r'. rec_succeed netloc_ok casefold t payload [] [] None r = Inr r' \<and> lc_state r' = SUCCEEDED))"
proof -
  have ok: "rec_ok r" using assms(1) unfolding rec_validate_Inr_iff by blast
  note b = rec_bump_accepted [OF assms(1)]
  note a = rec_ok_active [OF ok _ assms(2)]
  show ?thesis
    unfolding rec_ops
    using a b assms(3,4) rec_ok_succeed [OF ok _ assms(2), of payload]
    by (auto 0 3 simp: b)
qed

theorem rec_transitions_accepted_witness:
  "\<exists>r'. rec_start (\<lambda>n. True) id 110 example_record = Inr r' \<and> lc_state r' = RUNNING"
proof -
  have "rec_validate (\<lambda>n. True) id example_record = Inr example_record"
    "rec_now 110 example_record" "lc_state example_record = QUEUED"
    "rec_open_progress \<lparr>pg_fraction = None, pg_message = None\<rparr>"
    "failure_ok \<lparr>fl_code = ''stopped'', fl_message = ''Stopped''\<rparr>"
    by code_simp+
  from rec_transitions_accepted [OF this(1,2,4,5)] this(3) show ?thesis by blast
qed

section \<open>Live progress and the public view\<close>

text \<open>The checks of \<open>AnalysisService.report_progress\<close> (\<^verbatim>\<open>services/analyses.py\<close>) for one report of a
  running Analysis, given the last accepted one.\<close>

definition accept_progress :: "analysis_record \<Rightarrow> progress option \<Rightarrow> progress \<Rightarrow> progress result" where
  "accept_progress r previous_live p =
     (let previous_fraction = (case previous_live of Some l \<Rightarrow> pg_fraction l
            | None \<Rightarrow> pg_fraction (lc_progress r))
      in raise_first
        [field_check (progress_ok p),
         (progress_complete p, ValueError ''Workers cannot report completion''),
         (pg_fraction p = None \<and> previous_live \<noteq> None \<and> pg_fraction (the previous_live) \<noteq> None,
          ValueError ''Progress cannot return to indeterminate''),
         (pg_fraction p \<noteq> None \<and> previous_fraction \<noteq> None \<and>
            fin_val (the (pg_fraction p)) < fin_val (the previous_fraction),
          ValueError ''Progress cannot decrease'')] p)"

fun accept_all :: "analysis_record \<Rightarrow> progress option \<Rightarrow> progress list \<Rightarrow> progress option result" where
  "accept_all r live [] = Inr live"
| "accept_all r live (p # ps) =
     bind_result (accept_progress r live p) (\<lambda>p'. accept_all r (Some p') ps)"

datatype integrity = ValidInputs | InvalidInputs (missing_input_ids: "uuid list")

fun integrity_ok :: "integrity \<Rightarrow> bool" where
  "integrity_ok ValidInputs = True"
| "integrity_ok (InvalidInputs ids) = (ids \<noteq> [] \<and> \<not> has_duplicates ids)"

text \<open>\<open>public_analysis\<close>: the fields it excludes are blank in the view. \<open>None\<close> for the live progress means
  that of the record.\<close>

definition public_analysis ::
    "(string \<Rightarrow> bool) \<Rightarrow> (string \<Rightarrow> string) \<Rightarrow> analysis_record \<Rightarrow> integrity \<Rightarrow> progress option \<Rightarrow>
     (analysis_record \<times> integrity) result" where
  "public_analysis netloc_ok casefold r integrity live =
     (let view = r\<lparr>rec_result_payload := None, rec_artifact_references := [],
            rec_query_snapshot := None,
            lc_progress := (case live of None \<Rightarrow> lc_progress r | Some p \<Rightarrow> p)\<rparr>
      in bind_result (validate_request netloc_ok casefold (rec_request r)) (\<lambda>request.
         raise_first (field_check (rec_field_check view \<and> integrity_ok integrity) #
             rec_lifecycle_checks view)
           (view\<lparr>rec_request := request\<rparr>, integrity)))"

lemma accept_progressD:
  assumes "accept_progress r live p = Inr p'"
  shows "p' = p" "progress_ok p" "\<not> progress_complete p"
    "live = Some l \<Longrightarrow> pg_fraction l = Some a \<Longrightarrow>
       \<exists>b. pg_fraction p = Some b \<and> fin_val a \<le> fin_val b"
  using assms
  by (auto simp: accept_progress_def Let_def raise_first_Inr_iff split: if_splits)

lemma accept_all_last:
  assumes "accept_all r live ps = Inr final" "ps \<noteq> [] \<or> live \<noteq> None"
  shows "\<exists>l. final = Some l \<and> (ps = [] \<longrightarrow> live = Some l) \<and> (ps \<noteq> [] \<longrightarrow> l = last ps \<and> rec_open_progress l)"
  using assms
proof (induction ps arbitrary: live)
  case (Cons p ps)
  obtain p' where a: "accept_progress r live p = Inr p'" "accept_all r (Some p') ps = Inr final"
    using Cons.prems(1) by (auto simp: bind_result_Inr_iff)
  note d = accept_progressD(1-3) [OF a(1)]
  from Cons.IH [OF a(2)] d show ?case by (auto simp: rec_open_progress_def)
qed auto

lemma accept_all_sorted:
  assumes "accept_all r live ps = Inr final"
  shows "sorted (map (fin_val \<circ> the) (filter (\<lambda>f. f \<noteq> None) (map pg_fraction ps))) \<and>
    (\<forall>l a. live = Some l \<longrightarrow> pg_fraction l = Some a \<longrightarrow>
       (\<forall>p \<in> set ps. \<exists>b. pg_fraction p = Some b \<and> fin_val a \<le> fin_val b))"
  using assms
proof (induction ps arbitrary: live)
  case (Cons p ps)
  obtain p' where a: "accept_progress r live p = Inr p'" "accept_all r (Some p') ps = Inr final"
    using Cons.prems(1) by (auto simp: bind_result_Inr_iff)
  note d = accept_progressD [OF a(1)]
  note ih = Cons.IH [OF a(2)]
  show ?case
  proof (intro conjI allI impI)
    show "sorted (map (fin_val \<circ> the) (filter (\<lambda>f. f \<noteq> None) (map pg_fraction (p # ps))))"
    proof (cases "pg_fraction p")
      case (Some a)
      then have "\<forall>q \<in> set ps. \<exists>b. pg_fraction q = Some b \<and> fin_val a \<le> fin_val b"
        using ih d(1) by blast
      then have "\<forall>f \<in> set (filter (\<lambda>f. f \<noteq> None) (map pg_fraction ps)). fin_val a \<le> fin_val (the f)"
        by auto
      then show ?thesis using ih Some by (auto simp: comp_def)
    qed (use ih in \<open>simp add: comp_def\<close>)
    fix l a assume la: "live = Some l" "pg_fraction l = Some a"
    then obtain b where b: "pg_fraction p = Some b" "fin_val a \<le> fin_val b" using d(4) by blast
    with ih d(1) show "\<forall>q \<in> set (p # ps). \<exists>b. pg_fraction q = Some b \<and> fin_val a \<le> fin_val b"
      by fastforce
  qed
qed simp

text \<open>Live progress never goes back and never spoils the public view. When a sequence of reports of
  a running Analysis is accepted, their fractions do not decrease, the last one is below completion,
  and the view of the record with it validates, whatever the integrity of its inputs is.\<close>

theorem live_progress_monotone_and_public:
  assumes "rec_validate netloc_ok casefold r = Inr r" "lc_state r = RUNNING"
    and "accept_all r None ps = Inr (Some live)" "integrity_ok integrity"
  shows "sorted (map (fin_val \<circ> the) (filter (\<lambda>f. f \<noteq> None) (map pg_fraction ps))) \<and>
    live = last ps \<and> \<not> progress_complete live \<and>
    (\<exists>view. public_analysis netloc_ok casefold r integrity (Some live) = Inr (view, integrity) \<and>
       lc_progress view = live)"
proof -
  have ne: "ps \<noteq> []" using assms(3) by auto
  then have l: "live = last ps" "rec_open_progress live"
    using accept_all_last [OF assms(3)] by auto
  obtain request where q: "validate_request netloc_ok casefold (rec_request r) = Inr request"
    and ok: "rec_ok r"
    using assms(1) unfolding rec_validate_Inr_iff by auto
  have "\<exists>view. public_analysis netloc_ok casefold r integrity (Some live) = Inr (view, integrity) \<and>
       lc_progress view = live"
    using ok assms(2,4) l(2)
    by (auto simp: public_analysis_def q Let_def raise_first_Inr_iff rec_ok_unfold rec_open_progress_def)
  then show ?thesis
    using accept_all_sorted [OF assms(3)] l by (auto simp: rec_open_progress_def)
qed

theorem live_progress_monotone_and_public_witness:
  "\<exists>view. public_analysis (\<lambda>n. True) id example_running (InvalidInputs [''n1'']) (Some
     \<lparr>pg_fraction = Some (Fin (1/2)), pg_message = None\<rparr>) = Inr (view, InvalidInputs [''n1'']) \<and>
     lc_progress view = \<lparr>pg_fraction = Some (Fin (1/2)), pg_message = None\<rparr>"
proof -
  let ?p = "\<lparr>pg_fraction = Some (Fin (1/2)), pg_message = None\<rparr>"
  have "rec_validate (\<lambda>n. True) id example_running = Inr example_running"
    "lc_state example_running = RUNNING" "integrity_ok (InvalidInputs [''n1''])"
    "accept_all example_running None [\<lparr>pg_fraction = Some (Fin 0), pg_message = None\<rparr>, ?p] = Inr (Some ?p)"
    by code_simp+
  from live_progress_monotone_and_public [OF this(1,2,4,3)] show ?thesis by blast
qed

end
