(* ===== verification/PortableNames.thy ===== *)
theory PortableNames
  imports PyString
begin

text \<open>
  \<^verbatim>\<open>shared/portable_names.py\<close>: which path components are stable on every supported filesystem, and
  the canonical relative paths made of them.

  Unicode normalisation and case folding are functions of the Unicode database, so \<open>nfc\<close> and
  \<open>casefold\<close> are parameters. \<open>PurePosixPath\<close> and \<open>PureWindowsPath\<close> are modelled as far as they are
  used: the parts of a relative path are its non-empty pieces other than \<open>.\<close>, and a path is not
  relative for one of the two systems when it starts with a slash or a drive letter.
\<close>

definition MAX_PORTABLE_COMPONENT_BYTES :: nat where
  "MAX_PORTABLE_COMPONENT_BYTES = 255"

definition MAX_RELATIVE_PATH_BYTES :: nat where
  "MAX_RELATIVE_PATH_BYTES = 1024"

definition MAX_RELATIVE_PATH_DEPTH :: nat where
  "MAX_RELATIVE_PATH_DEPTH = 32"

definition WINDOWS_RESERVED_NAMES :: "string list" where
  "WINDOWS_RESERVED_NAMES = [''con'', ''prn'', ''aux'', ''nul''] @
     map (\<lambda>d. ''com'' @ [d]) ''123456789'' @ map (\<lambda>d. ''lpt'' @ [d]) ''123456789''"

definition PORTABLE_FORBIDDEN_CHARACTERS :: string where
  "PORTABLE_FORBIDDEN_CHARACTERS = CHR ''<'' # CHR ''>'' # CHR '':'' # CHR 34 # CHR ''/'' #
     CHR 92 # CHR ''|'' # CHR ''?'' # CHR ''*'' # []"

section \<open>Names\<close>

definition portable_name_error ::
    "(string \<Rightarrow> string) \<Rightarrow> (string \<Rightarrow> string) \<Rightarrow> string \<Rightarrow> bool \<Rightarrow> string option" where
  "portable_name_error nfc casefold name exact =
     (let normalized = nfc name;
          candidate = (if exact then normalized else py_strip normalized)
      in if candidate = [] then Some ''name cannot be empty''
         else if exact \<and> (candidate \<noteq> name \<or> candidate \<noteq> py_strip candidate) then
           Some ''name must use canonical Unicode and no surrounding whitespace''
         else if \<not> exact \<and> candidate \<noteq> py_strip name then Some ''name must use canonical Unicode''
         else if py_endswith candidate ''.'' \<or> py_endswith candidate '' '' then
           Some ''name cannot end with a dot or space''
         else if \<exists>character \<in> set candidate. character \<in> set PORTABLE_FORBIDDEN_CHARACTERS then
           Some ''name contains a character unsupported by portable storage''
         else if \<exists>character \<in> set candidate.
             (of_char character :: nat) < 32 \<or> (of_char character :: nat) = 127 then
           Some ''name cannot contain control characters''
         else if py_contains candidate ''..'' then 
           Some (''name cannot contain '' @ [CHR 39] @ ''..'' @ [CHR 39])
         else if casefold (hd (py_split (CHR ''.'') candidate)) \<in> set WINDOWS_RESERVED_NAMES then
           Some ''name is reserved by a supported filesystem''
         else None)"

definition portable_collision_key ::
    "(string \<Rightarrow> string) \<Rightarrow> (string \<Rightarrow> string) \<Rightarrow> string \<Rightarrow> string" where
  "portable_collision_key nfc casefold name = casefold (nfc name)"

section \<open>Relative paths\<close>

definition posix_parts :: "string \<Rightarrow> string list" where
  "posix_parts value = filter (\<lambda>part. part \<noteq> [] \<and> part \<noteq> ''.'') (py_split (CHR ''/'') value)"

text \<open>\<open>windows.drive or windows.root or posix.is_absolute()\<close>, for a value without backslashes.\<close>

definition path_anchored :: "string \<Rightarrow> bool" where
  "path_anchored value \<longleftrightarrow> py_startswith value ''/'' \<or> py_startswith (drop 1 value) '':''"

definition as_posix :: "string list \<Rightarrow> string" where
  "as_posix parts = py_join ''/'' parts"

definition portable_relative_path_parts ::
    "(string \<Rightarrow> string) \<Rightarrow> (string \<Rightarrow> string) \<Rightarrow> string \<Rightarrow> bool \<Rightarrow> string list result" where
  "portable_relative_path_parts nfc casefold value allow_root =
     (let parts = posix_parts value in
      if CHR 0x00 \<in> set value \<or> CHR 92 \<in> set value then Inl (ValueError ''Path is not portable'')
      else if path_anchored value then Inl (ValueError ''Path is not relative'')
      else if parts = [] then
        (if allow_root \<and> py_strip value \<in> {[], ''.''} then Inr []
         else Inl (ValueError ''Path is empty''))
      else raise_first
        [(\<exists>part \<in> set parts. part \<in> {[], ''.'', ''..''}, ValueError ''Path contains traversal''),
         (length parts > MAX_RELATIVE_PATH_DEPTH, ValueError ''Path has too many components''),
         (utf8_length (as_posix parts) > MAX_RELATIVE_PATH_BYTES, ValueError ''Path is too long''),
         (\<exists>part \<in> set parts. utf8_length part > MAX_PORTABLE_COMPONENT_BYTES,
          ValueError ''Path component is too long''),
         (\<exists>part \<in> set parts. portable_name_error nfc casefold part True \<noteq> None,
          ValueError ''Path component is not portable'')]
        parts)"

section \<open>Lemmas\<close>

lemma portable_name_ok:
  assumes "portable_name_error nfc casefold name True = None"
  shows "name \<noteq> []" "py_strip name = name" "nfc name = name"
    "set name \<inter> set PORTABLE_FORBIDDEN_CHARACTERS = {}" "CHR 0x00 \<notin> set name"
    "name \<noteq> ''.''" "name \<noteq> ''..''" "\<not> py_contains name ''..''"
  using assms
  by (auto simp: portable_name_error_def Let_def py_endswith_def split: if_splits)

lemma portable_relative_path_partsD:
  assumes "portable_relative_path_parts nfc casefold value allow_root = Inr parts" "parts \<noteq> []"
  shows "parts = posix_parts value" "length parts \<le> MAX_RELATIVE_PATH_DEPTH"
    "utf8_length (as_posix parts) \<le> MAX_RELATIVE_PATH_BYTES"
    "\<forall>part \<in> set parts. portable_name_error nfc casefold part True = None \<and>
       utf8_length part \<le> MAX_PORTABLE_COMPONENT_BYTES"
    "CHR 0x00 \<notin> set value \<and> CHR 92 \<notin> set value"
  using assms
  by (auto simp: portable_relative_path_parts_def Let_def raise_first_Inr_iff split: if_splits)

lemma posix_parts_join:
  assumes "ps \<noteq> []" "\<forall>p \<in> set ps. CHR ''/'' \<notin> set p \<and> p \<noteq> [] \<and> p \<noteq> ''.''"
  shows "posix_parts (as_posix ps) = ps"
proof -
  have "py_split (CHR ''/'') (as_posix ps) = ps"
    unfolding as_posix_def using assms by (intro py_split_join) auto
  then show ?thesis using assms(2) by (simp add: posix_parts_def filter_id_conv)
qed

lemma as_posix_unanchored:
  assumes "ps \<noteq> []" "\<forall>p \<in> set ps. p \<noteq> [] \<and> CHR ''/'' \<notin> set p \<and> CHR '':'' \<notin> set p"
  shows "\<not> path_anchored (as_posix ps)"
proof -
  obtain p qs where ps: "ps = p # qs" using assms(1) by (cases ps) auto
  have "as_posix ps = p \<or> (\<exists>r. as_posix ps = p @ CHR ''/'' # r)"
    unfolding as_posix_def ps by (cases qs) auto
  moreover obtain c p' where p: "p = c # p'" using assms(2) by (cases p) (auto simp: ps)
  moreover have "c \<noteq> CHR ''/''" "CHR '':'' \<notin> set p'" using assms(2) by (auto simp: ps p)
  then have "\<not> path_anchored (p @ s)" if "s = [] \<or> (\<exists>r. s = CHR ''/'' # r)" for s
    using that by (cases p') (auto simp: path_anchored_def p)
  from this [of "[]"] this [of "CHR ''/'' # r" for r] have "\<not> path_anchored p" "\<And>r. \<not> path_anchored (p @ CHR ''/'' # r)"
    by simp_all
  ultimately show ?thesis by metis
qed

section \<open>Properties\<close>

text \<open>The components of an accepted path can be joined and parsed again: the canonical spelling
  of a path is accepted, at the root or not, with exactly the same components.\<close>

theorem portable_path_roundtrip:
  assumes "portable_relative_path_parts nfc casefold value allow_root = Inr parts" "parts \<noteq> []"
  shows "portable_relative_path_parts nfc casefold (as_posix parts) at_root = Inr parts"
proof -
  note D = portable_relative_path_partsD [OF assms]
  have ok: "p \<noteq> [] \<and> p \<noteq> ''.'' \<and> p \<noteq> ''..'' \<and> CHR ''/'' \<notin> set p \<and> CHR '':'' \<notin> set p \<and>
      CHR 92 \<notin> set p \<and> CHR 0x00 \<notin> set p" if "p \<in> set parts" for p
    using portable_name_ok [of nfc casefold p] D(4) that
    by (auto simp: PORTABLE_FORBIDDEN_CHARACTERS_def)
  have "posix_parts (as_posix parts) = parts" using ok by (intro posix_parts_join assms(2)) blast
  moreover have "\<not> path_anchored (as_posix parts)" using ok by (intro as_posix_unanchored assms(2)) blast
  moreover have "set (as_posix parts) \<subseteq> insert (CHR ''/'') (\<Union> (set ` set parts))"
    unfolding as_posix_def by (rule set_py_join)
  then have "CHR 0x00 \<notin> set (as_posix parts) \<and> CHR 92 \<notin> set (as_posix parts)" using ok by auto
  ultimately show ?thesis
    using D(2-4) ok assms(2)
    by (force simp: portable_relative_path_parts_def Let_def raise_first_Inr_iff)
qed

theorem portable_path_roundtrip_witness:
  "portable_relative_path_parts id id ''.//data/./notes.txt'' False = Inr [''data'', ''notes.txt''] \<and>
   portable_relative_path_parts id id (as_posix [''data'', ''notes.txt'']) True = Inr [''data'', ''notes.txt'']"
proof -
  have *: "portable_relative_path_parts id id ''.//data/./notes.txt'' False = Inr [''data'', ''notes.txt'']"
    by code_simp
  then show ?thesis using portable_path_roundtrip [OF *] by simp
qed



end
