(* ===== verification/UserFileImports.thy ===== *)
theory UserFileImports
  imports AnalysisRecords PortableNames
begin

text \<open>
  The User File Import resource of \<^verbatim>\<open>domain/user_file_import.py\<close>: its requests and results, its life
  cycle, and the same contract of \<open>Background\<close> interpreted on it. Requests and results of the two kinds
  are the constructors of \<open>import_request\<close> and \<open>import_result\<close>.
\<close>

section \<open>Requests and results\<close>

datatype import_request =
    SampleRequest (smp_collection_id: string)
  | PortalRequest (prt_identifier: string) (prt_name: "string option")

datatype import_result =
    SampleResult string string int int
  | PortalResult string int int

fun request_is_sample :: "import_request \<Rightarrow> bool" where
  "request_is_sample (SampleRequest c) = True"
| "request_is_sample (PortalRequest i n) = False"

fun result_is_sample :: "import_result \<Rightarrow> bool" where
  "result_is_sample (SampleResult c d f b) = True"
| "result_is_sample (PortalResult d f b) = False"

text \<open>\<open>_validate_collection_id\<close> and the validators of the destination path: the value must be its own
  canonical spelling. The first one reports a path that is not portable with its own message, the
  others let the error of the path through.\<close>

definition validate_collection_id ::
    "(string \<Rightarrow> string) \<Rightarrow> (string \<Rightarrow> string) \<Rightarrow> string \<Rightarrow> string result" where
  "validate_collection_id nfc casefold value =
     (case portable_relative_path_parts nfc casefold value False of
        Inl e \<Rightarrow> Inl (ValueError ''Sample collection ID is not portable'')
      | Inr parts \<Rightarrow>
          if as_posix parts \<noteq> value then Inl (ValueError ''Sample collection ID is not canonical'')
          else Inr value)"

definition validate_public_path ::
    "(string \<Rightarrow> string) \<Rightarrow> (string \<Rightarrow> string) \<Rightarrow> string \<Rightarrow> string result" where
  "validate_public_path nfc casefold path =
     map_sum id as_posix (portable_relative_path_parts nfc casefold path False)"

definition destination_check ::
    "(string \<Rightarrow> string) \<Rightarrow> (string \<Rightarrow> string) \<Rightarrow> string \<Rightarrow> unit result" where
  "destination_check nfc casefold path =
     bind_result (validate_public_path nfc casefold path) (\<lambda>canonical.
       if canonical \<noteq> path then Inl (ValueError ''User File import paths must be canonical'')
       else Inr ())"

fun import_request_validate ::
    "(string \<Rightarrow> string) \<Rightarrow> (string \<Rightarrow> string) \<Rightarrow> import_request \<Rightarrow> import_request result" where
  "import_request_validate nfc casefold (SampleRequest c) =
     (if text_max 1024 c
      then bind_result (validate_collection_id nfc casefold c) (\<lambda>c. Inr (SampleRequest c))
      else Inl (ValueError ''validation error''))"
| "import_request_validate nfc casefold (PortalRequest i n) =
     (let i' = py_strip i; n' = map_option py_strip n in
      raise_first [field_check (text_max 4000 i' \<and> option_ok (text_max 500) n')] (PortalRequest i' n'))"

fun import_result_validate ::
    "(string \<Rightarrow> string) \<Rightarrow> (string \<Rightarrow> string) \<Rightarrow> import_result \<Rightarrow> import_result result" where
  "import_result_validate nfc casefold (SampleResult c d files bytes) =
     (if text_max 1024 c \<and> text_max 4000 d \<and> 0 \<le> files \<and> 0 \<le> bytes
      then bind_result (validate_collection_id nfc casefold c) (\<lambda>c.
        bind_result (destination_check nfc casefold d) (\<lambda>u. Inr (SampleResult c d files bytes)))
      else Inl (ValueError ''validation error''))"
| "import_result_validate nfc casefold (PortalResult d files bytes) =
     (if text_max 4000 d \<and> 0 \<le> files \<and> 0 \<le> bytes
      then bind_result (destination_check nfc casefold d) (\<lambda>u. Inr (PortalResult d files bytes))
      else Inl (ValueError ''validation error''))"

section \<open>The resource\<close>

record user_file_import = lifecycle +
  ufi_id :: uuid
  ufi_request :: import_request
  ufi_result :: "import_result option"

definition ufi_checks :: "user_file_import \<Rightarrow> (bool \<times> error) list" where
  "ufi_checks r =
     [field_check (progress_ok (lc_progress r) \<and> option_ok failure_ok (lc_error r) \<and> 1 \<le> lc_revision r),
      (terminal (lc_state r) \<noteq> (lc_finished_at r \<noteq> None),
       ValueError ''Terminal imports and finished_at must agree''),
      (lc_state r = QUEUED \<and> lc_started_at r \<noteq> None,
       ValueError ''Queued imports cannot have started_at''),
      (lc_state r \<in> {RUNNING, SUCCEEDED} \<and> lc_started_at r = None,
       ValueError ''Running and successful imports require started_at''),
      ((lc_state r = FAILED) \<noteq> (lc_error r \<noteq> None),
       ValueError ''Only failed imports contain a Failure''),
      ((lc_state r = SUCCEEDED) \<noteq> (ufi_result r \<noteq> None),
       ValueError ''Only successful imports contain a Result''),
      (ufi_result r \<noteq> None \<and> result_is_sample (the (ufi_result r)) \<noteq> request_is_sample (ufi_request r),
       ValueError ''Import request and Result kinds must match''),
      (lc_state r = CANCELLED \<and> lc_cancellation_requested_at r = None,
       ValueError ''Cancelled imports require a cancellation request''),
      (lc_state r = SUCCEEDED \<and> \<not> progress_complete (lc_progress r),
       ValueError ''Successful imports require complete Progress''),
      (lc_state r \<noteq> SUCCEEDED \<and> progress_complete (lc_progress r),
       ValueError ''Only successful imports may persist complete Progress''),
      (lc_started_at r \<noteq> None \<and> the (lc_started_at r) < lc_created_at r,
       ValueError ''started_at cannot precede created_at''),
      (lc_cancellation_requested_at r \<noteq> None \<and>
         the (lc_cancellation_requested_at r) < lc_created_at r,
       ValueError ''cancellation_requested_at cannot precede created_at''),
      (lc_finished_at r \<noteq> None \<and> the (lc_finished_at r) <
         (case lc_started_at r of Some b \<Rightarrow> b | None \<Rightarrow> lc_created_at r),
       ValueError ''finished_at precedes the import lifecycle'')]"

definition ufi_validate ::
    "(string \<Rightarrow> string) \<Rightarrow> (string \<Rightarrow> string) \<Rightarrow> user_file_import \<Rightarrow> user_file_import result" where
  "ufi_validate nfc casefold r =
     bind_result (import_request_validate nfc casefold (ufi_request r)) (\<lambda>request.
     bind_result (case ufi_result r of None \<Rightarrow> Inr None
        | Some res \<Rightarrow> map_sum id Some (import_result_validate nfc casefold res)) (\<lambda>res.
       let v = r\<lparr>ufi_request := request, ufi_result := res\<rparr> in raise_first (ufi_checks v) v))"

section \<open>Operations\<close>

definition ufi_create ::
    "(string \<Rightarrow> string) \<Rightarrow> (string \<Rightarrow> string) \<Rightarrow> import_request \<Rightarrow> timestamp \<Rightarrow> uuid \<Rightarrow>
     user_file_import result" where
  "ufi_create nfc casefold request timestamp import_id =
     ufi_validate nfc casefold
       \<lparr>lc_state = QUEUED, lc_progress = \<lparr>pg_fraction = Some (Fin 0), pg_message = Some ''Queued''\<rparr>,
        lc_cancellation_requested_at = None, lc_error = None, lc_created_at = timestamp,
        lc_started_at = None, lc_finished_at = None, lc_revision = 1,
        ufi_id = import_id, ufi_request = request, ufi_result = None\<rparr>"

definition ufi_bump ::
    "(string \<Rightarrow> string) \<Rightarrow> (string \<Rightarrow> string) \<Rightarrow> (user_file_import \<Rightarrow> user_file_import) \<Rightarrow>
     user_file_import \<Rightarrow> user_file_import result" where
  "ufi_bump nfc casefold changes r =
     ufi_validate nfc casefold ((changes r)\<lparr>lc_revision := lc_revision r + 1\<rparr>)"

definition ufi_start ::
    "(string \<Rightarrow> string) \<Rightarrow> (string \<Rightarrow> string) \<Rightarrow> timestamp \<Rightarrow> user_file_import \<Rightarrow>
     user_file_import result" where
  "ufi_start nfc casefold timestamp r =
     (if lc_state r \<noteq> QUEUED then Inl (ValueError ''Only a queued import can start'')
      else ufi_bump nfc casefold (\<lambda>r. r\<lparr>lc_state := RUNNING, lc_started_at := Some timestamp\<rparr>) r)"

definition ufi_cancel_queued ::
    "(string \<Rightarrow> string) \<Rightarrow> (string \<Rightarrow> string) \<Rightarrow> timestamp \<Rightarrow> user_file_import \<Rightarrow>
     user_file_import result" where
  "ufi_cancel_queued nfc casefold timestamp r =
     (if lc_state r \<noteq> QUEUED then
        Inl (ValueError ''Only a queued import can be cancelled immediately'')
      else ufi_bump nfc casefold (\<lambda>r. r\<lparr>lc_state := CANCELLED,
        lc_cancellation_requested_at := Some timestamp, lc_finished_at := Some timestamp\<rparr>) r)"

definition ufi_request_running_cancellation ::
    "(string \<Rightarrow> string) \<Rightarrow> (string \<Rightarrow> string) \<Rightarrow> timestamp \<Rightarrow> user_file_import \<Rightarrow>
     user_file_import result" where
  "ufi_request_running_cancellation nfc casefold timestamp r =
     (if lc_state r \<noteq> RUNNING then
        Inl (ValueError ''Only a running import can request cancellation'')
      else if lc_cancellation_requested_at r \<noteq> None then Inr r
      else ufi_bump nfc casefold (\<lambda>r. r\<lparr>lc_cancellation_requested_at := Some timestamp\<rparr>) r)"

definition ufi_confirm_cancelled ::
    "(string \<Rightarrow> string) \<Rightarrow> (string \<Rightarrow> string) \<Rightarrow> timestamp \<Rightarrow> progress \<Rightarrow> user_file_import \<Rightarrow>
     user_file_import result" where
  "ufi_confirm_cancelled nfc casefold timestamp progress r =
     (if lc_state r \<noteq> RUNNING \<or> lc_cancellation_requested_at r = None then
        Inl (ValueError ''Import cancellation has not been requested'')
      else ufi_bump nfc casefold (\<lambda>r. r\<lparr>lc_state := CANCELLED, lc_progress := progress,
        lc_finished_at := Some timestamp\<rparr>) r)"

definition ufi_fail ::
    "(string \<Rightarrow> string) \<Rightarrow> (string \<Rightarrow> string) \<Rightarrow> timestamp \<Rightarrow> failure \<Rightarrow> progress \<Rightarrow> user_file_import \<Rightarrow>
     user_file_import result" where
  "ufi_fail nfc casefold timestamp failure progress r =
     (if lc_state r \<notin> {QUEUED, RUNNING} then
        Inl (ValueError ''Only a non-terminal import can fail'')
      else ufi_bump nfc casefold (\<lambda>r. r\<lparr>lc_state := FAILED, lc_progress := progress,
        lc_error := Some failure, lc_finished_at := Some timestamp\<rparr>) r)"

definition ufi_succeed ::
    "(string \<Rightarrow> string) \<Rightarrow> (string \<Rightarrow> string) \<Rightarrow> timestamp \<Rightarrow> import_result \<Rightarrow> user_file_import \<Rightarrow>
     user_file_import result" where
  "ufi_succeed nfc casefold timestamp res r =
     (if lc_state r \<noteq> RUNNING then Inl (ValueError ''Only a running import can succeed'')
      else ufi_bump nfc casefold (\<lambda>r. r\<lparr>lc_state := SUCCEEDED, lc_progress := complete_progress,
        ufi_result := Some res, lc_finished_at := Some timestamp\<rparr>) r)"

lemmas ufi_ops = ufi_start_def ufi_cancel_queued_def ufi_request_running_cancellation_def
  ufi_confirm_cancelled_def ufi_fail_def ufi_succeed_def

inductive ufi_transition ::
    "(string \<Rightarrow> string) \<Rightarrow> (string \<Rightarrow> string) \<Rightarrow> user_file_import \<Rightarrow> user_file_import \<Rightarrow> bool"
  for nfc casefold where
  start: "ufi_start nfc casefold t r = Inr r' \<Longrightarrow> ufi_transition nfc casefold r r'"
| cancel_queued: "ufi_cancel_queued nfc casefold t r = Inr r' \<Longrightarrow> ufi_transition nfc casefold r r'"
| request_cancellation: "ufi_request_running_cancellation nfc casefold t r = Inr r' \<Longrightarrow>
    lc_cancellation_requested_at r = None \<Longrightarrow> ufi_transition nfc casefold r r'"
| confirm_cancelled: "ufi_confirm_cancelled nfc casefold t p r = Inr r' \<Longrightarrow>
    ufi_transition nfc casefold r r'"
| fail: "ufi_fail nfc casefold t f p r = Inr r' \<Longrightarrow> ufi_transition nfc casefold r r'"
| succeed: "ufi_succeed nfc casefold t res r = Inr r' \<Longrightarrow> ufi_transition nfc casefold r r'"

section \<open>Lemmas\<close>

definition ufi_ok :: "user_file_import \<Rightarrow> bool" where
  "ufi_ok r \<longleftrightarrow> list_all (\<lambda>(c, e). \<not> c) (ufi_checks r)"

lemma ufi_okD:
  assumes "ufi_ok r"
  shows "terminal (lc_state r) \<longleftrightarrow> lc_finished_at r \<noteq> None"
    "lc_state r = QUEUED \<Longrightarrow> lc_started_at r = None"
    "lc_state r = CANCELLED \<Longrightarrow> lc_cancellation_requested_at r \<noteq> None"
    "lc_state r = SUCCEEDED \<longleftrightarrow> ufi_result r \<noteq> None"
    "lc_started_at r = Some b \<Longrightarrow> lc_created_at r \<le> b"
    "lc_finished_at r = Some f \<Longrightarrow> (case lc_started_at r of Some b \<Rightarrow> b | None \<Rightarrow> lc_created_at r) \<le> f"
  using assms
  by (simp_all add: ufi_ok_def ufi_checks_def)

lemma ufi_ok_times:
  assumes "ufi_ok r" "lc_finished_at r = Some f"
  shows "lc_created_at r \<le> f \<and>
    (\<forall>b. lc_started_at r = Some b \<longrightarrow> lc_created_at r \<le> b \<and> b \<le> f)"
  using ufi_okD(5,6) [OF assms(1)] assms(2) by (cases "lc_started_at r") auto

lemma ufi_validate_Inr_iff:
  "ufi_validate nfc casefold r = Inr r' \<longleftrightarrow>
     (\<exists>request res. import_request_validate nfc casefold (ufi_request r) = Inr request \<and>
        (case ufi_result r of None \<Rightarrow> Inr None
         | Some x \<Rightarrow> map_sum id Some (import_result_validate nfc casefold x)) = Inr res \<and>
        r' = r\<lparr>ufi_request := request, ufi_result := res\<rparr> \<and> ufi_ok r')"
  unfolding ufi_validate_def bind_result_Inr_iff Let_def raise_first_Inr_iff ufi_ok_def by blast

lemma ufi_bumpD:
  assumes "ufi_bump nfc casefold changes r = Inr r'"
  obtains request res where
    "r' = (changes r)\<lparr>lc_revision := lc_revision r + 1, ufi_request := request, ufi_result := res\<rparr>"
    "ufi_ok r'"
  using assms unfolding ufi_bump_def ufi_validate_Inr_iff by auto

lemma ufi_transition_frame:
  assumes "ufi_transition nfc casefold r r'"
  shows "ufi_ok r'" "lc_revision r' = lc_revision r + 1" "lc_created_at r' = lc_created_at r"
    "lc_cancellation_requested_at r \<noteq> None \<Longrightarrow> lc_cancellation_requested_at r' \<noteq> None"
    "ufi_ok r \<Longrightarrow> lc_started_at r \<noteq> None \<Longrightarrow> lc_started_at r' = lc_started_at r"
    "remaining (lc_state r') (lc_cancellation_requested_at r' \<noteq> None) <
       remaining (lc_state r) (lc_cancellation_requested_at r \<noteq> None)"
  using assms
  by (auto elim!: ufi_transition.cases ufi_bumpD simp: ufi_ops remaining_def dest: ufi_okD(2)
      split: if_splits)

interpretation ufi: background_resource ufi_ok "ufi_transition nfc casefold" lc_state
  lc_cancellation_requested_at lc_created_at lc_started_at lc_finished_at lc_revision
  for nfc casefold
  by unfold_locales ((rule ufi_transition_frame ufi_okD(1,3) ufi_ok_times; assumption)+)

section \<open>Properties\<close>

text \<open>A User File Import obeys the same life cycle as an Analysis: from \<open>create\<close>, at most three
  accepted transitions, each counting the revision up by one, with times in order and no way out of a
  terminal state; and it has a result, of the kind of its request, exactly when it succeeded.\<close>

theorem ufi_history_bounded:
  assumes "ufi_create nfc casefold request timestamp i = Inr r" "ufi.history nfc casefold r n r'"
  shows "n \<le> 3 \<and> lc_revision r' = 1 + int n \<and> lc_created_at r' = timestamp \<and>
    (n = 3 \<longrightarrow> terminal (lc_state r')) \<and>
    (terminal (lc_state r') \<longrightarrow> (\<forall>r''. \<not> ufi_transition nfc casefold r' r'')) \<and>
    (\<forall>f. lc_finished_at r' = Some f \<longrightarrow> timestamp \<le> f) \<and>
    (lc_state r' = SUCCEEDED \<longleftrightarrow> ufi_result r' \<noteq> None) \<and>
    (\<forall>res. ufi_result r' = Some res \<longrightarrow> result_is_sample res = request_is_sample (ufi_request r'))"
proof -
  have c: "ufi_ok r" "lc_state r = QUEUED" "lc_revision r = 1" "lc_created_at r = timestamp"
    using assms(1) by (auto simp: ufi_create_def ufi_validate_Inr_iff)
  note f = ufi.history_facts [OF assms(2) c(1)]
  then have ok: "ufi_ok r'" by blast
  then have "result_is_sample res = request_is_sample (ufi_request r')" if "ufi_result r' = Some res" for res
    using that by (simp add: ufi_ok_def ufi_checks_def)
  moreover have "timestamp \<le> x" if "lc_finished_at r' = Some x" for x
    using ufi.history_times(2) [OF assms(2) c(1) that] c(4) by simp
  ultimately show ?thesis
    using ufi.history_queued_bound [OF assms(2) c(1,2)] f c ufi.terminal_no_transition
      ufi_okD(4) [OF ok] by auto
qed

definition example_import :: user_file_import where
  "example_import = \<lparr>lc_state = QUEUED, lc_progress = \<lparr>pg_fraction = Some (Fin 0), pg_message = Some ''Queued''\<rparr>,
     lc_cancellation_requested_at = None, lc_error = None, lc_created_at = 5, lc_started_at = None,
     lc_finished_at = None, lc_revision = 1, ufi_id = ''i'', ufi_request = SampleRequest ''group/corpus'',
     ufi_result = None\<rparr>"

definition example_import_running :: user_file_import where
  "example_import_running = example_import\<lparr>lc_state := RUNNING, lc_started_at := Some 6, lc_revision := 2\<rparr>"

definition example_import_done :: user_file_import where
  "example_import_done = example_import_running\<lparr>lc_state := SUCCEEDED,
     lc_progress := \<lparr>pg_fraction = Some (Fin 1), pg_message = Some ''Complete''\<rparr>, lc_finished_at := Some 9,
     lc_revision := 3, ufi_result := Some (SampleResult ''group/corpus'' ''sample/corpus'' 3 1000)\<rparr>"

theorem ufi_history_bounded_witness:
  "lc_revision example_import_done = 3 \<and> lc_state example_import_done = SUCCEEDED \<and>
   (\<forall>r''. \<not> ufi_transition id id example_import_done r'')"
proof -
  have e: "ufi_create id id (SampleRequest ''group/corpus'') 5 ''i'' = Inr example_import"
    "ufi_start id id 6 example_import = Inr example_import_running"
    "ufi_succeed id id 9 (SampleResult ''group/corpus'' ''sample/corpus'' 3 1000) example_import_running =
       Inr example_import_done"
    "lc_state example_import_done = SUCCEEDED"
    by code_simp+
  have "ufi.history id id example_import (Suc (Suc 0)) example_import_done"
    by (rule ufi.history.more [OF ufi.history.more [OF ufi.history.here]])
      (rule ufi_transition.start [OF e(2)], rule ufi_transition.succeed [OF e(3)])
  from ufi_history_bounded [OF e(1) this] e(4) show ?thesis by simp
qed

end
