(* ===== verification/Provenance.thy ===== *)
theory Provenance
  imports Annotation
begin

text \<open>
  \<^verbatim>\<open>domain/workspace/provenance.py\<close>: how a Data Block was derived.

  \<^item> \<open>expression_spec\<close>, \<open>derivation_operation\<close>: the typed parameters of the operations, with the
    checks of their fields and model validators. A validation visits the parts before the whole;
  \<^item> \<open>provenance\<close>: a source snapshot, a reference to a live Data Block, or an operation over ordered
    inputs with roles. The source's \<open>NodeProvenance\<close> is a value that is no reference;
  \<^item> operations: the references in order of first use, substitution of a removed Data Block by its
    own provenance, and the description.
\<close>

section \<open>Expressions\<close>

datatype filter_scalar = SStr string | SInt int | SFloat py_float | SBool bool | SNone
datatype filter_value = VScalar filter_scalar | VList "filter_scalar list" | VObject string

datatype filter_operator = FEq | FNe | FGt | FGte | FLt | FLte | FIn | FContains | FStartsWith
  | FEndsWith | FIsNull | FIsNotNull | FBetween

record filter_condition =
  fc_column :: string
  fc_operator :: filter_operator
  fc_value :: filter_value
  fc_negate :: bool
  fc_regex :: bool
  fc_case_sensitive :: bool

datatype literal_value = LScalar filter_scalar | is_LList: LList "filter_scalar list"

datatype binary_op = OpAdd | OpSubtract | OpMultiply | OpDivide | OpModulo | OpEq | OpNe | OpGt | OpGte
  | OpLt | OpLte | OpAnd | OpOr | OpIsIn | OpFillNull
datatype unary_op = OpNot | OpIsNull | OpIsNotNull | OpAbs | OpLowercase | OpUppercase | OpYear
  | OpMonth | OpDay | OpSum | OpMean | OpMin | OpMax | OpCount | OpNUnique
datatype string_op = StrContains | StrStartsWith | StrEndsWith
datatype cast_dtype = CString | CInteger | CFloat | CBoolean | CDatetime | CDate

datatype expression_spec =
    ColumnExpression string
  | LiteralExpression literal_value
  | BinaryExpression binary_op expression_spec expression_spec
  | UnaryExpression unary_op expression_spec
  | StringExpression string_op expression_spec string bool
  | CastExpression expression_spec cast_dtype bool
  | RoundExpression expression_spec int
  | ConcatStringExpression "expression_spec list" string

fun expression_checks :: "expression_spec \<Rightarrow> (bool \<times> error) list" where
  "expression_checks (ColumnExpression name) = [field_check (text_max 200 name)]"
| "expression_checks (LiteralExpression value) = []"
| "expression_checks (BinaryExpression op left right) =
     expression_checks left @ expression_checks right @
     [(op = OpIsIn \<and> \<not> (case right of LiteralExpression value \<Rightarrow> is_LList value | _ \<Rightarrow> False),
       ValueError ''is_in requires a literal list on the right'')]"
| "expression_checks (UnaryExpression op operand) = expression_checks operand"
| "expression_checks (StringExpression op operand value literal) = expression_checks operand"
| "expression_checks (CastExpression operand dtype strict) = expression_checks operand"
| "expression_checks (RoundExpression operand decimals) =
     expression_checks operand @ [field_check (0 \<le> decimals \<and> decimals \<le> 15)]"
| "expression_checks (ConcatStringExpression operands separator) =
     concat (map expression_checks operands) @
     [field_check (2 \<le> length operands \<and> length operands \<le> 100 \<and> length separator \<le> 100)]"

record expression_item =
  ei_expression :: expression_spec
  ei_alias :: "string option"
  ei_descending :: bool

definition expression_item_checks :: "expression_item \<Rightarrow> (bool \<times> error) list" where
  "expression_item_checks i = expression_checks (ei_expression i) @
     [field_check (option_ok (text_max 200) (ei_alias i))]"

section \<open>Operations of a derivation\<close>

datatype slice_mode = SliceRange | RandomSampling | Shuffle
datatype filter_logic = LogicAnd | LogicOr
datatype replace_mode = ReplaceText | ExtractText
datatype replace_count = CountAll | CountFirst
datatype expression_context = CtxFilter | CtxWithColumns | CtxSelect | CtxSort | CtxGroupByAgg
datatype join_how = Inner | LeftJoin | RightJoin | Full | Semi | Anti | Cross
datatype cast_target = TString | TInteger | TFloat | TDatetime | TCategorical
datatype topic_role = TopicData | TopicMeanings

record slice_derivation =
  sl_mode :: slice_mode
  sl_offset :: int
  sl_length :: "int option"
  sl_sample_size :: "py_float option"
  sl_random_seed :: "int option"

record replace_derivation =
  rp_source_column :: string
  rp_pattern :: string
  rp_replacement :: string
  rp_output_column :: "string option"
  rp_mode :: replace_mode
  rp_count :: replace_count
  rp_match_limit :: "int option"
  rp_connector :: string

datatype derivation_operation =
    CloneDerivation
  | SliceDerivation slice_derivation
  | FilterDerivation "filter_condition list" filter_logic
  | ReplaceDerivation replace_derivation
  | ExpressionDerivation expression_context "expression_item list" "expression_item list"
  | ConcatDerivation bool
  | JoinDerivation "string option" "string option" join_how
  | CastDerivation string cast_target "string option" bool
  | SqlDerivation string
  | AnnotationDerivation string annotation_provider string
  | ConcordanceMatchDerivation
  | ConcordanceDocumentDerivation
  | QuotationResultDerivation
  | TopicModelingDerivation topic_role

text \<open>\<open>sample_size\<close> is positive, and beyond one it counts rows; an infinite one has no integer value.\<close>

definition slice_checks :: "slice_derivation \<Rightarrow> (bool \<times> error) list" where
  "slice_checks s =
     [field_check (0 \<le> sl_offset s \<and> option_ok (\<lambda>n. 0 \<le> n) (sl_length s) \<and>
        option_ok (\<lambda>f. f = PosInf \<or> is_fin f \<and> 0 < fin_val f) (sl_sample_size s) \<and>
        option_ok (\<lambda>n. 0 \<le> n) (sl_random_seed s)),
      (sl_mode s = RandomSampling \<and> sl_sample_size s = None,
       ValueError ''sample_size is required for random_sample''),
      (sl_mode s = RandomSampling \<and>
         (case sl_sample_size s of Some (Fin x) \<Rightarrow> 1 \<le> x \<and> x \<noteq> of_int \<lfloor>x\<rfloor> | Some f \<Rightarrow> True | None \<Rightarrow> False),
       ValueError ''sample_size values greater than one must be integers'')]"

definition replace_checks :: "replace_derivation \<Rightarrow> (bool \<times> error) list" where
  "replace_checks r =
     [field_check (text_max 200 (rp_source_column r) \<and> text_ok (rp_pattern r) \<and>
        option_ok (\<lambda>c. length c \<le> 200) (rp_output_column r) \<and> option_ok (\<lambda>n. 1 \<le> n) (rp_match_limit r))]"

fun operation_checks :: "derivation_operation \<Rightarrow> (bool \<times> error) list" where
  "operation_checks CloneDerivation = []"
| "operation_checks (SliceDerivation s) = slice_checks s"
| "operation_checks (FilterDerivation conditions logic) =
     [field_check (1 \<le> length conditions \<and> (\<forall>c \<in> set conditions. text_ok (fc_column c)))]"
| "operation_checks (ReplaceDerivation r) = replace_checks r"
| "operation_checks (ExpressionDerivation ctx expressions group_by) =
     concat (map expression_item_checks (expressions @ group_by)) @
     [field_check (1 \<le> length expressions),
      (ctx = CtxFilter \<and> length expressions \<noteq> 1,
       ValueError ''filter expressions require exactly one item''),
      (ctx = CtxGroupByAgg \<and> group_by = [],
       ValueError ''group_by_agg requires at least one group_by expression'')]"
| "operation_checks (ConcatDerivation deduplicate) = []"
| "operation_checks (JoinDerivation left_on right_on how) =
     [(how \<noteq> Cross \<and> (left_on \<in> {None, Some []} \<or> right_on \<in> {None, Some []}),
       ValueError ''left_on and right_on are required for non-cross joins'')]"
| "operation_checks (CastDerivation column target fmt strict) = [field_check (text_ok column)]"
| "operation_checks (SqlDerivation sql) = [field_check (text_ok sql)]"
| "operation_checks (AnnotationDerivation column provider model) =
     [field_check (text_max 500 column \<and> text_max 500 model)]"
| "operation_checks ConcordanceMatchDerivation = []"
| "operation_checks ConcordanceDocumentDerivation = []"
| "operation_checks QuotationResultDerivation = []"
| "operation_checks (TopicModelingDerivation role) = []"

section \<open>Provenance\<close>

datatype input_role = RoleSource | RoleLeft | RoleRight | RoleMember | RoleInput

datatype provenance =
    SourceProvenance
  | is_reference: NodeReference uuid
  | DerivationProvenance derivation_operation "(input_role \<times> provenance) list"

definition input_role_checks :: "derivation_operation \<Rightarrow> input_role list \<Rightarrow> (bool \<times> error) list" where
  "input_role_checks operation roles =
     (case operation of
        JoinDerivation l r h \<Rightarrow> [(roles \<noteq> [RoleLeft, RoleRight],
          ValueError ''Join provenance requires ordered left and right inputs'')]
      | ConcatDerivation d \<Rightarrow> [(length roles < 2 \<or> (\<exists>role \<in> set roles. role \<noteq> RoleMember),
          ValueError ''Concatenation provenance requires two or more members'')]
      | SqlDerivation q \<Rightarrow> [(roles = [] \<or> (\<exists>role \<in> set roles. role \<noteq> RoleInput),
          ValueError ''SQL provenance requires one or more ordered inputs'')]
      | _ \<Rightarrow> [(roles \<noteq> [RoleSource],
          ValueError ''Unary provenance requires exactly one source input'')])"

fun provenance_checks :: "provenance \<Rightarrow> (bool \<times> error) list" where
  "provenance_checks SourceProvenance = []"
| "provenance_checks (NodeReference node_id) = []"
| "provenance_checks (DerivationProvenance operation inputs) =
     operation_checks operation @ concat (map (\<lambda>i. provenance_checks (snd i)) inputs) @
     input_role_checks operation (map fst inputs)"

text \<open>A reference is no provenance of a Data Block: the tag is rejected.\<close>

definition validate_node_provenance :: "provenance \<Rightarrow> provenance result" where
  "validate_node_provenance p = raise_first (field_check (\<not> is_reference p) # provenance_checks p) p"

section \<open>References\<close>

fun visit :: "provenance \<Rightarrow> uuid list \<Rightarrow> uuid list" where
  "visit SourceProvenance ordered = ordered"
| "visit (NodeReference node_id) ordered =
     (if node_id \<in> set ordered then ordered else ordered @ [node_id])"
| "visit (DerivationProvenance operation inputs) ordered =
     fold (\<lambda>i ordered. visit (snd i) ordered) inputs ordered"

definition referenced_node_ids :: "provenance \<Rightarrow> uuid list" where
  "referenced_node_ids p = visit p []"

section \<open>Composition\<close>

fun replace_value :: "uuid \<Rightarrow> provenance \<Rightarrow> provenance \<Rightarrow> provenance" where
  "replace_value target replacement SourceProvenance = SourceProvenance"
| "replace_value target replacement (NodeReference node_id) =
     (if node_id = target then replacement else NodeReference node_id)"
| "replace_value target replacement (DerivationProvenance operation inputs) =
     DerivationProvenance operation
       (map (\<lambda>i. (fst i, replace_value target replacement (snd i))) inputs)"

definition compose_provenance :: "provenance \<Rightarrow> uuid \<Rightarrow> provenance \<Rightarrow> provenance result" where
  "compose_provenance p removed_node_id replacement =
     (let composed = replace_value removed_node_id replacement p in
      if is_reference composed then
        Inl (ValueError ''A Data Block provenance cannot be a node reference'')
      else Inr composed)"

section \<open>Description\<close>

fun how_name :: "join_how \<Rightarrow> string" where
  "how_name Inner = ''inner''" | "how_name LeftJoin = ''left''" | "how_name RightJoin = ''right''"
| "how_name Full = ''full''" | "how_name Semi = ''semi''" | "how_name Anti = ''anti''"
| "how_name Cross = ''cross''"

fun slice_mode_name :: "slice_mode \<Rightarrow> string" where
  "slice_mode_name SliceRange = ''slice''" | "slice_mode_name RandomSampling = ''random_sample''"
| "slice_mode_name Shuffle = ''shuffle''"

fun replace_mode_name :: "replace_mode \<Rightarrow> string" where
  "replace_mode_name ReplaceText = ''replace''" | "replace_mode_name ExtractText = ''extract''"

fun context_name :: "expression_context \<Rightarrow> string" where
  "context_name CtxFilter = ''filter''" | "context_name CtxWithColumns = ''with_columns''"
| "context_name CtxSelect = ''select''" | "context_name CtxSort = ''sort''"
| "context_name CtxGroupByAgg = ''group_by_agg''"

text \<open>The label of a unary operation; the others have none (a \<open>KeyError\<close> of the dictionary).\<close>

fun unary_label :: "derivation_operation \<Rightarrow> string result" where
  "unary_label CloneDerivation = Inr ''clone''"
| "unary_label (SliceDerivation s) = Inr (slice_mode_name (sl_mode s))"
| "unary_label (FilterDerivation c l) = Inr ''filter''"
| "unary_label (ReplaceDerivation r) = Inr (replace_mode_name (rp_mode r))"
| "unary_label (ExpressionDerivation ctx e g) = Inr (context_name ctx)"
| "unary_label (CastDerivation c t f s) = Inr ''cast''"
| "unary_label (AnnotationDerivation c pr m) = Inr ''annotation''"
| "unary_label ConcordanceMatchDerivation = Inr ''concordance Match Data Block Creation''"
| "unary_label ConcordanceDocumentDerivation = Inr ''concordance Document Data Block Creation''"
| "unary_label QuotationResultDerivation = Inr ''quotation Data Block Creation''"
| "unary_label (TopicModelingDerivation r) = Inr ''topic modeling Data Block Creation''"
| "unary_label op = Inl (KeyError ''operation'')"

definition item_at :: "'a list \<Rightarrow> nat \<Rightarrow> 'a result" where
  "item_at xs i = (if i < length xs then Inr (xs ! i) else Inl (IndexError ''list index out of range''))"

definition describe_operation :: "derivation_operation \<Rightarrow> string list \<Rightarrow> string result" where
  "describe_operation operation inputs =
     (case operation of
        JoinDerivation l r how \<Rightarrow>
          bind_result (item_at inputs 0) (\<lambda>a. bind_result (item_at inputs 1) (\<lambda>b.
            Inr (how_name how @ '' join of '' @ a @ '' and '' @ b)))
      | ConcatDerivation deduplicate \<Rightarrow>
          Inr ((if deduplicate then ''deduplicated concatenation'' else ''concatenation'') @
            '' of '' @ py_join '', '' inputs)
      | SqlDerivation q \<Rightarrow> Inr (''SQL query of '' @ py_join '', '' inputs)
      | _ \<Rightarrow> bind_result (unary_label operation) (\<lambda>label.
          bind_result (item_at inputs 0) (\<lambda>a. Inr (label @ '' of '' @ a))))"

text \<open>\<open>resolve_name(node_id) or node_id\<close>: an empty name counts as none.\<close>

definition name_or_id :: "(uuid \<Rightarrow> string option) \<Rightarrow> uuid \<Rightarrow> string" where
  "name_or_id resolve_name node_id =
     (case resolve_name node_id of None \<Rightarrow> node_id | Some n \<Rightarrow> if n = [] then node_id else n)"

fun describe_provenance :: "(uuid \<Rightarrow> string option) \<Rightarrow> provenance \<Rightarrow> string result" where
  "describe_provenance resolve_name SourceProvenance = Inr ''source snapshot''"
| "describe_provenance resolve_name (NodeReference node_id) = Inr (name_or_id resolve_name node_id)"
| "describe_provenance resolve_name (DerivationProvenance operation inputs) =
     bind_result (foldr (\<lambda>i acc. bind_result (describe_provenance resolve_name (snd i)) (\<lambda>d.
         bind_result acc (\<lambda>ds. Inr (d # ds)))) inputs (Inr []))
       (describe_operation operation)"

section \<open>Lemmas\<close>

text \<open>All references, in order, with repetitions.\<close>

fun references :: "provenance \<Rightarrow> uuid list" where
  "references SourceProvenance = []"
| "references (NodeReference node_id) = [node_id]"
| "references (DerivationProvenance operation inputs) = concat (map (\<lambda>i. references (snd i)) inputs)"

definition add_new :: "uuid list \<Rightarrow> uuid list \<Rightarrow> uuid list" where
  "add_new ordered xs = fold (\<lambda>x ordered. if x \<in> set ordered then ordered else ordered @ [x]) xs ordered"

lemma add_new_append: "add_new ordered (xs @ ys) = add_new (add_new ordered xs) ys"
  by (simp add: add_new_def)

lemma set_add_new [simp]: "set (add_new ordered xs) = set ordered \<union> set xs"
  by (induction xs arbitrary: ordered) (auto simp: add_new_def)

lemma distinct_add_new: "distinct ordered \<Longrightarrow> distinct (add_new ordered xs)"
  by (induction xs arbitrary: ordered) (auto simp: add_new_def)

lemma add_new_dedupe:
  "add_new ordered xs = ordered @ filter (\<lambda>x. x \<notin> set ordered) (dedupe xs)"
proof (induction xs arbitrary: ordered)
  case (Cons x xs)
  have "add_new ordered (x # xs) =
      add_new (if x \<in> set ordered then ordered else ordered @ [x]) xs"
    by (simp add: add_new_def)
  also have "\<dots> = ordered @ filter (\<lambda>y. y \<notin> set ordered) (dedupe (x # xs))"
    by (auto simp: Cons.IH intro!: filter_cong)
  finally show ?case .
qed (simp add: add_new_def)

lemma visit_add_new: "visit p ordered = add_new ordered (references p)"
proof (induction p arbitrary: ordered)
  case (DerivationProvenance operation inputs)
  have "fold (\<lambda>i ordered. visit (snd i) ordered) inputs ordered =
      add_new ordered (concat (map (\<lambda>i. references (snd i)) inputs))"
    using DerivationProvenance
  proof (induction inputs arbitrary: ordered)
    case (Cons i inputs)
    have "visit (snd i) ordered = add_new ordered (references (snd i))"
      using Cons.prems by (cases i) force
    moreover have "fold (\<lambda>i ordered. visit (snd i) ordered) inputs o' =
        add_new o' (concat (map (\<lambda>i. references (snd i)) inputs))" for o'
      using Cons.prems by (intro Cons.IH) auto
    ultimately show ?case by (simp add: add_new_append)
  qed (simp add: add_new_def)
  then show ?case by simp
qed (simp_all add: add_new_def)

lemma referenced_dedupe: "referenced_node_ids p = dedupe (references p)"
  by (simp add: referenced_node_ids_def visit_add_new add_new_dedupe)

lemma referenced_node_ids_set: "set (referenced_node_ids p) = set (references p)"
  by (simp add: referenced_dedupe)

lemma referenced_node_ids_distinct: "distinct (referenced_node_ids p)"
  by (simp add: referenced_dedupe)

lemma provenance_induct [case_names Source Node Derivation]:
  assumes "P SourceProvenance" "\<And>n. P (NodeReference n)"
    "\<And>operation inputs. (\<And>i. i \<in> set inputs \<Longrightarrow> P (snd i)) \<Longrightarrow> P (DerivationProvenance operation inputs)"
  shows "P p"
proof (induction p)
  case (DerivationProvenance operation inputs)
  have "P (snd i)" if "i \<in> set inputs" for i
    using DerivationProvenance [OF that] by (cases i) force
  then show ?case by (rule assms(3))
qed (fact assms)+

lemma concat_map_concat:
  "concat (map f (concat (map g xs))) = concat (map (\<lambda>x. concat (map f (g x))) xs)"
  by (induction xs) simp_all

lemma references_replace:
  "references (replace_value t r p) =
     concat (map (\<lambda>n. if n = t then references r else [n]) (references p))"
proof (induction p rule: provenance_induct)
  case (Derivation operation inputs)
  then show ?case by (auto simp: comp_def concat_map_concat intro!: arg_cong [of _ _ concat])
qed auto

lemma not_reference_replace: "\<not> is_reference p \<Longrightarrow> \<not> is_reference (replace_value t r p)"
  by (cases p) auto

lemma provenance_checks_replace:
  assumes "list_all (\<lambda>(c, e). \<not> c) (provenance_checks r)"
  shows "list_all (\<lambda>(c, e). \<not> c) (provenance_checks p) \<Longrightarrow>
    list_all (\<lambda>(c, e). \<not> c) (provenance_checks (replace_value t r p))"
proof (induction p rule: provenance_induct)
  case (Derivation operation inputs)
  then show ?case by (fastforce simp: comp_def list_all_iff)
qed (use assms in auto)

lemma describe_inputs_ok:
  assumes "\<And>i. i \<in> set inputs \<Longrightarrow> \<exists>d. describe_provenance nm (snd i) = Inr d"
  shows "\<exists>ds. foldr (\<lambda>i acc. bind_result (describe_provenance nm (snd i)) (\<lambda>d.
         bind_result acc (\<lambda>ds. Inr (d # ds)))) inputs (Inr []) = Inr ds \<and> length ds = length inputs"
  using assms
proof (induction inputs)
  case (Cons i inputs)
  obtain ds where "foldr (\<lambda>i acc. bind_result (describe_provenance nm (snd i)) (\<lambda>d.
         bind_result acc (\<lambda>ds. Inr (d # ds)))) inputs (Inr []) = Inr ds" "length ds = length inputs"
    using Cons by auto
  moreover obtain d where "describe_provenance nm (snd i) = Inr d" using Cons.prems [of i] by auto
  ultimately show ?case by simp
qed simp

section \<open>Properties\<close>

text \<open>\<open>referenced_node_ids\<close> lists every live reference exactly once, in the order of first use
  along the inputs, whatever the nesting.\<close>

theorem referenced_node_ids_spec:
  "referenced_node_ids p = dedupe (references p) \<and> distinct (referenced_node_ids p) \<and>
   set (referenced_node_ids p) = set (references p)"
  by (simp add: referenced_dedupe)

text \<open>Removing a Data Block substitutes its own provenance at each of its references. The result is
  a valid provenance again, never a bare reference, no longer refers to the removed Data Block unless
  its own provenance did, and refers to the rest in the order that the substitution gives.\<close>

theorem compose_provenance_spec:
  assumes "validate_node_provenance p = Inr p" "validate_node_provenance r = Inr r"
  shows "\<exists>q. compose_provenance p n r = Inr q \<and> validate_node_provenance q = Inr q \<and>
    referenced_node_ids q =
      dedupe (concat (map (\<lambda>m. if m = n then references r else [m]) (references p))) \<and>
    set (referenced_node_ids q) = (set (referenced_node_ids p) - {n}) \<union>
      (if n \<in> set (referenced_node_ids p) then set (referenced_node_ids r) else {})"
proof -
  have ok: "\<not> is_reference p" "list_all (\<lambda>(c, e). \<not> c) (provenance_checks p)"
    "list_all (\<lambda>(c, e). \<not> c) (provenance_checks r)"
    using assms by (auto simp: validate_node_provenance_def raise_first_Inr_iff split: if_splits)
  have "compose_provenance p n r = Inr (replace_value n r p)"
    using not_reference_replace [OF ok(1)] by (simp add: compose_provenance_def)
  moreover have "validate_node_provenance (replace_value n r p) = Inr (replace_value n r p)"
    using not_reference_replace [OF ok(1)] provenance_checks_replace [OF ok(3,2)]
    by (simp add: validate_node_provenance_def raise_first_Inr_iff)
  ultimately show ?thesis by (auto simp: referenced_dedupe references_replace)
qed

definition example_join :: provenance where
  "example_join = DerivationProvenance (JoinDerivation (Some ''id'') (Some ''id'') Inner)
     [(RoleLeft, NodeReference ''a''), (RoleRight,
       DerivationProvenance (ConcatDerivation True) [(RoleMember, NodeReference ''b''),
         (RoleMember, NodeReference ''a'')])]"

definition example_clone :: provenance where
  "example_clone = DerivationProvenance CloneDerivation [(RoleSource, NodeReference ''c'')]"

theorem compose_provenance_spec_witness:
  "\<exists>q. compose_provenance example_join ''a'' example_clone = Inr q \<and>
     referenced_node_ids q = [''c'', ''b'']"
proof -
  have "validate_node_provenance example_join = Inr example_join"
    "validate_node_provenance example_clone = Inr example_clone"
    "dedupe (concat (map (\<lambda>m. if m = ''a'' then references example_clone else [m])
       (references example_join))) = [''c'', ''b'']"
    by code_simp+
  with compose_provenance_spec [OF this(1,2), of "''a''"] show ?thesis by auto
qed

lemma describe_operation_ok:
  assumes "list_all (\<lambda>(c, e). \<not> c) (input_role_checks operation roles)" "length ds = length roles"
  shows "\<exists>d. describe_operation operation ds = Inr d"
  using assms
  by (cases operation) (auto simp: input_role_checks_def describe_operation_def item_at_def)

text \<open>A valid provenance can always be described: the inputs a description looks at exist because
  the roles were checked, and every operation that reaches the table of labels has one.\<close>

theorem describe_provenance_total:
  assumes "validate_node_provenance p = Inr p"
  shows "\<exists>d. describe_provenance resolve_name p = Inr d"
proof -
  have "list_all (\<lambda>(c, e). \<not> c) (provenance_checks p)"
    using assms by (auto simp: validate_node_provenance_def raise_first_Inr_iff split: if_splits)
  then show ?thesis
  proof (induction p rule: provenance_induct)
    case (Derivation operation inputs)
    have "list_all (\<lambda>(c, e). \<not> c) (provenance_checks (snd i))" if "i \<in> set inputs" for i
      using Derivation.prems that by (fastforce simp: list_all_iff)
    then obtain ds where d: "foldr (\<lambda>i acc. bind_result (describe_provenance resolve_name (snd i)) (\<lambda>d.
         bind_result acc (\<lambda>ds. Inr (d # ds)))) inputs (Inr []) = Inr ds" "length ds = length inputs"
      using describe_inputs_ok [of inputs resolve_name] Derivation.IH by blast
    have "list_all (\<lambda>(c, e). \<not> c) (input_role_checks operation (map fst inputs))"
      using Derivation.prems by simp
    from describe_operation_ok [OF this, of ds] d show ?case by simp
  qed simp_all
qed

theorem describe_provenance_total_witness:
  "\<exists>d. describe_provenance (\<lambda>n. None) example_join = Inr d"
  by (rule describe_provenance_total) code_simp

end
