(* ===== verification/WorkspaceGraph.thy ===== *)
theory WorkspaceGraph
  imports Provenance PyString
begin

text \<open>
  The Data Block graph of a Workspace: the node part of the class \<open>Workspace\<close>
  (\<^verbatim>\<open>domain/workspace/graph.py\<close>) over the \<open>Node\<close> objects of \<^verbatim>\<open>domain/workspace/node.py\<close>.

  \<open>Node\<close> objects are mutable and compared by identity, so they live in a heap: \<open>ng_heap\<close> maps an
  address to the object's fields, \<open>parents\<close> are addresses, and \<open>is\<close> is equality of addresses. The
  \<open>workspace\<close> of a node is the identity of the aggregate it is attached to. \<open>ng_nodes\<close> is the
  insertion-ordered dictionary \<open>nodes\<close> and \<open>ng_children\<close> the index \<open>_children_by_parent\<close>.

  The Tabs and Analyses of the class are in \<open>WorkspaceAnalyses\<close>; no method touches both parts.
\<close>

section \<open>State\<close>

type_synonym addr = nat

record node =
  nd_id :: uuid
  nd_name :: string
  nd_parents :: "addr list"
  nd_provenance :: provenance
  nd_document :: "string option"
  nd_color :: "string option"
  nd_tokenizer_model :: "string option"
  nd_workspace :: "nat option"

record node_graph =
  ng_self :: nat
  ng_heap :: "addr \<Rightarrow> node"
  ng_nodes :: "(uuid, addr) dict"
  ng_children :: "(uuid, addr list) dict"

abbreviation node_at :: "node_graph \<Rightarrow> addr \<Rightarrow> node" where
  "node_at g a \<equiv> ng_heap g a"

abbreviation parent_ids :: "node_graph \<Rightarrow> addr \<Rightarrow> uuid list" where
  "parent_ids g a \<equiv> map (\<lambda>p. nd_id (node_at g p)) (nd_parents (node_at g a))"

abbreviation set_node :: "addr \<Rightarrow> node \<Rightarrow> node_graph \<Rightarrow> node_graph" where
  "set_node a n g \<equiv> g\<lparr>ng_heap := (ng_heap g)(a := n)\<rparr>"

definition ng_init :: "nat \<Rightarrow> (addr \<Rightarrow> node) \<Rightarrow> node_graph" where
  "ng_init self heap = \<lparr>ng_self = self, ng_heap = heap, ng_nodes = [], ng_children = []\<rparr>"

section \<open>Operations\<close>

text \<open>\<open>tokenizer_model.strip()\<close>, or nothing.\<close>

definition normalized_tokenizer :: "string option \<Rightarrow> string" where
  "normalized_tokenizer tokenizer_model = (case tokenizer_model of None \<Rightarrow> [] | Some s \<Rightarrow> py_strip s)"

definition node_init_check :: "string \<Rightarrow> node_graph \<Rightarrow> addr \<Rightarrow> (bool \<times> error) list" where
  "node_init_check tokenizer g a =
     [(length tokenizer > 500, ValueError ''Tokenizer model ID exceeds 500 characters''),
      (referenced_node_ids (nd_provenance (node_at g a)) \<noteq> parent_ids g a,
       ValueError ''Node parents must exactly match its ordered provenance references'')]"

text \<open>\<open>Node.__init__\<close> at a new address; the Data Block's plan is in \<open>PlanHistory\<close>.\<close>

definition node_init ::
    "addr \<Rightarrow> uuid \<Rightarrow> string \<Rightarrow> addr list \<Rightarrow> provenance \<Rightarrow> string option \<Rightarrow> string option \<Rightarrow> string option \<Rightarrow>
     node_graph \<Rightarrow> addr result \<times> node_graph" where
  "node_init a i name parents provenance document color tokenizer_model g =
     (let tokenizer = normalized_tokenizer tokenizer_model;
          g' = set_node a \<lparr>nd_id = i, nd_name = (if name = [] then ''node_'' @ take 8 i else name),
            nd_parents = parents, nd_provenance = provenance, nd_document = document, nd_color = color,
            nd_tokenizer_model = (if tokenizer = [] then None else Some tokenizer), nd_workspace = None\<rparr> g
      in (raise_first (node_init_check tokenizer g' a) a, g'))"

definition add_node_checks :: "node_graph \<Rightarrow> addr \<Rightarrow> (bool \<times> error) list" where
  "add_node_checks g a =
     (let node = node_at g a in
      [(nd_id node \<in> set (dict_keys (ng_nodes g)), ValueError ''Workspace already contains node''),
       (\<exists>parent \<in> set (nd_parents node). parent = a, ValueError ''A node cannot be its own parent''),
       (has_duplicates (parent_ids g a), ValueError ''A node cannot contain duplicate parents''),
       (\<exists>parent \<in> set (nd_parents node). nd_workspace (node_at g parent) \<noteq> Some (ng_self g) \<or>
          map_of (ng_nodes g) (nd_id (node_at g parent)) \<noteq> Some parent,
        ValueError ''Node parents must already belong to this workspace''),
       (referenced_node_ids (nd_provenance node) \<noteq> parent_ids g a,
        ValueError ''Node parents do not match its provenance''),
       (nd_workspace node \<noteq> None \<and> nd_workspace node \<noteq> Some (ng_self g),
        ValueError ''Node already belongs to another workspace'')])"

text \<open>\<open>self._children_by_parent[parent.id].append(node)\<close> for each parent in turn.\<close>

definition add_child :: "addr \<Rightarrow> uuid \<Rightarrow> (uuid, addr list) dict \<Rightarrow> (uuid, addr list) dict" where
  "add_child a parent_id children =
     AList.update parent_id (dict_get children parent_id [] @ [a]) children"

definition add_node :: "addr \<Rightarrow> node_graph \<Rightarrow> addr result \<times> node_graph" where
  "add_node a g =
     (case raise_first (add_node_checks g a) a of
        Inl e \<Rightarrow> (Inl e, g)
      | Inr node \<Rightarrow>
          (Inr node, set_node a ((node_at g a)\<lparr>nd_workspace := Some (ng_self g)\<rparr>)
             (g\<lparr>ng_nodes := AList.update (nd_id (node_at g a)) a (ng_nodes g),
                ng_children := fold (add_child a) (parent_ids g a)
                  (AList.update (nd_id (node_at g a)) [] (ng_children g))\<rparr>)))"

definition children_of :: "uuid \<Rightarrow> node_graph \<Rightarrow> addr list result" where
  "children_of node_id g =
     (case map_of (ng_children g) node_id of None \<Rightarrow> Inl (KeyError node_id) | Some cs \<Rightarrow> Inr cs)"

definition reorder_nodes :: "uuid list \<Rightarrow> node_graph \<Rightarrow> uuid list result \<times> node_graph" where
  "reorder_nodes ordered_ids g =
     (if has_duplicates ordered_ids \<or> set ordered_ids \<noteq> set (dict_keys (ng_nodes g)) then
        (Inl (ValueError ''Node order must be an exact duplicate-free permutation''), g)
      else
        (let g' = g\<lparr>ng_nodes := map (\<lambda>i. (i, the (map_of (ng_nodes g) i))) ordered_ids\<rparr>
         in (Inr (dict_keys (ng_nodes g')), g')))"

text \<open>\<open>order.index(x)\<close> and \<open>order.insert(i, x)\<close>.\<close>

fun list_index :: "'a \<Rightarrow> 'a list \<Rightarrow> nat result" where
  "list_index x [] = Inl (ValueError ''x not in list'')"
| "list_index x (y # ys) = (if x = y then Inr 0 else map_sum id Suc (list_index x ys))"

definition list_insert :: "nat \<Rightarrow> 'a \<Rightarrow> 'a list \<Rightarrow> 'a list" where
  "list_insert i x xs = take i xs @ x # drop i xs"

definition place_node_after_parent :: "addr \<Rightarrow> node_graph \<Rightarrow> unit result \<times> node_graph" where
  "place_node_after_parent a g =
     (let node_id = nd_id (node_at g a) in
      if map_of (ng_nodes g) node_id \<noteq> Some a then
        (Inl (ValueError ''Node must belong to this workspace''), g)
      else case nd_parents (node_at g a) of [] \<Rightarrow> (Inr (), g)
      | parent # others \<Rightarrow>
          (let order = filter (\<lambda>nid. nid \<noteq> node_id) (dict_keys (ng_nodes g)) in
           case list_index (nd_id (node_at g parent)) order of
             Inl e \<Rightarrow> (Inl e, g)
           | Inr idx \<Rightarrow>
               (case reorder_nodes (list_insert (idx + 1) node_id order) g of
                  (r, g') \<Rightarrow> (map_sum id (\<lambda>x. ()) r, g'))))"

definition node_removal_affected_ids :: "uuid \<Rightarrow> node_graph \<Rightarrow> uuid list result" where
  "node_removal_affected_ids node_id g =
     (if node_id \<notin> set (dict_keys (ng_nodes g)) then Inr []
      else map_sum id (\<lambda>cs. node_id # map (\<lambda>c. nd_id (node_at g c)) cs) (children_of node_id g))"

text \<open>The lineage a child gets when its parent \<open>node_id\<close> at address \<open>a\<close> is removed.\<close>

definition replacement_for ::
    "uuid \<Rightarrow> addr \<Rightarrow> node_graph \<Rightarrow> addr \<Rightarrow> (provenance \<times> addr list) result" where
  "replacement_for node_id a g child =
     bind_result (compose_provenance (nd_provenance (node_at g child)) node_id
         (nd_provenance (node_at g a))) (\<lambda>provenance.
       let ids = referenced_node_ids provenance;
           survivors = filter (\<lambda>kv. fst kv \<noteq> node_id) (ng_nodes g)
       in if nd_id (node_at g child) \<in> set ids \<or> (\<exists>i \<in> set ids. i \<notin> set (dict_keys survivors)) then
            Inl (ValueError ''Deleting the node would create invalid provenance'')
          else Inr (provenance, map (\<lambda>i. the (map_of survivors i)) ids))"

definition rewrite_child ::
    "addr \<times> provenance \<times> addr list \<Rightarrow> node_graph \<Rightarrow> node_graph" where
  "rewrite_child r g =
     (case r of (child, provenance, parents) \<Rightarrow>
        set_node child ((node_at g child)\<lparr>nd_provenance := provenance, nd_parents := parents\<rparr>) g)"

text \<open>\<open>replacements\<close> is keyed by the identifier of the child, and each child is looked up in it.\<close>

definition rebuild_children :: "node_graph \<Rightarrow> (uuid, addr list) dict" where
  "rebuild_children g =
     fold (\<lambda>child children. fold (add_child child) (parent_ids g child) children)
       (dict_values (ng_nodes g)) (map (\<lambda>kv. (fst kv, [])) (ng_nodes g))"

definition remove_node :: "uuid \<Rightarrow> node_graph \<Rightarrow> bool result \<times> node_graph" where
  "remove_node node_id g =
     (case map_of (ng_nodes g) node_id of None \<Rightarrow> (Inr False, g)
      | Some a \<Rightarrow>
          (case bind_result (children_of node_id g) (\<lambda>cs.
               bind_result (map_result (replacement_for node_id a g) cs) (\<lambda>rs. Inr (zip cs rs))) of
             Inl e \<Rightarrow> (Inl e, g)
           | Inr replacements \<Rightarrow>
               (let g1 = fold rewrite_child replacements g;
                    g2 = set_node a ((node_at g1 a)\<lparr>nd_parents := [], nd_workspace := None\<rparr>) g1;
                    g3 = g2\<lparr>ng_nodes := AList.delete node_id (ng_nodes g2)\<rparr>
                in (Inr True, g3\<lparr>ng_children := rebuild_children g3\<rparr>))))"

section \<open>Invariant\<close>

definition ng_values :: "node_graph \<Rightarrow> addr set" where
  "ng_values g = set (dict_values (ng_nodes g))"

definition ng_edges :: "node_graph \<Rightarrow> (addr \<times> addr) set" where
  "ng_edges g = {(c, p). c \<in> ng_values g \<and> p \<in> set (nd_parents (node_at g c))}"

text \<open>A registered node is attached under its identifier, and its parents are registered and are what its
  valid provenance refers to.\<close>

definition node_ok :: "node_graph \<Rightarrow> uuid \<Rightarrow> addr \<Rightarrow> bool" where
  "node_ok g i a \<longleftrightarrow> nd_id (node_at g a) = i \<and> nd_workspace (node_at g a) = Some (ng_self g) \<and>
     set (nd_parents (node_at g a)) \<subseteq> ng_values g \<and>
     referenced_node_ids (nd_provenance (node_at g a)) = parent_ids g a \<and>
     \<not> is_reference (nd_provenance (node_at g a))"

definition ng_index_ok :: "node_graph \<Rightarrow> bool" where
  "ng_index_ok g \<longleftrightarrow> wf_dict (ng_children g) \<and>
     fst ` set (ng_children g) = fst ` set (ng_nodes g) \<and>
     (\<forall>i cs. map_of (ng_children g) i = Some cs \<longrightarrow> distinct cs \<and>
        set cs = {c \<in> ng_values g. i \<in> set (parent_ids g c)})"

definition ng_inv :: "node_graph \<Rightarrow> bool" where
  "ng_inv g \<longleftrightarrow> wf_dict (ng_nodes g) \<and>
     (\<forall>i a. map_of (ng_nodes g) i = Some a \<longrightarrow> node_ok g i a) \<and>
     acyclic (ng_edges g) \<and> ng_index_ok g"

lemma ng_invD:
  assumes "ng_inv g"
  shows "wf_dict (ng_nodes g)" "map_of (ng_nodes g) i = Some a \<Longrightarrow> node_ok g i a"
    "acyclic (ng_edges g)" "ng_index_ok g"
  using assms by (auto simp: ng_inv_def)

lemma ng_values_iff: "wf_dict (ng_nodes g) \<Longrightarrow> a \<in> ng_values g \<longleftrightarrow> (\<exists>i. map_of (ng_nodes g) i = Some a)"
  by (simp add: ng_values_def wf_dict_values_mem)

text \<open>Identifiers and addresses of registered nodes correspond.\<close>

lemma ng_lookup:
  assumes "ng_inv g"
  shows "a \<in> ng_values g \<longleftrightarrow> map_of (ng_nodes g) (nd_id (node_at g a)) = Some a"
    "a \<in> ng_values g \<Longrightarrow> b \<in> ng_values g \<Longrightarrow> nd_id (node_at g a) = nd_id (node_at g b) \<longleftrightarrow> a = b"
    "map_of (ng_nodes g) i = Some a \<Longrightarrow> nd_id (node_at g a) = i \<and> a \<in> ng_values g"
proof -
  note I = ng_invD [OF assms]
  show l: "a \<in> ng_values g \<longleftrightarrow> map_of (ng_nodes g) (nd_id (node_at g a)) = Some a" for a
    using I(2) by (auto simp: ng_values_iff [OF I(1)] node_ok_def)
  show "a \<in> ng_values g \<Longrightarrow> b \<in> ng_values g \<Longrightarrow> nd_id (node_at g a) = nd_id (node_at g b) \<longleftrightarrow> a = b"
    using l by (metis option.inject)
  show "map_of (ng_nodes g) i = Some a \<Longrightarrow> nd_id (node_at g a) = i \<and> a \<in> ng_values g"
    using I(2) by (auto simp: ng_values_iff [OF I(1)] node_ok_def)
qed

lemma ng_parent_mem:
  assumes "ng_inv g" "c \<in> ng_values g" "a \<in> ng_values g"
  shows "nd_id (node_at g a) \<in> set (parent_ids g c) \<longleftrightarrow> a \<in> set (nd_parents (node_at g c))"
proof -
  have "set (nd_parents (node_at g c)) \<subseteq> ng_values g"
    using ng_invD(2) [OF assms(1)] assms(2) ng_lookup(1) [OF assms(1)] by (auto simp: node_ok_def)
  then have "p = a" if "p \<in> set (nd_parents (node_at g c))" "nd_id (node_at g a) = nd_id (node_at g p)" for p
    using ng_lookup(2) [OF assms(1,3), of p] that by blast
  then show ?thesis by auto
qed

lemma ng_inv_init: "ng_inv (ng_init self heap)"
  by (simp add: ng_inv_def ng_init_def ng_index_ok_def ng_edges_def ng_values_def acyclic_def)

subsection \<open>The index of children\<close>

lemma map_of_fold_add_child:
  assumes "distinct ids"
  shows "map_of (fold (add_child a) ids children) i =
    (if i \<in> set ids then Some (dict_get children i [] @ [a]) else map_of children i)"
  using assms
proof (induction ids arbitrary: children)
  case (Cons x ids)
  then show ?case by (auto simp: add_child_def update_conv' dict_get_def)
qed simp

lemma wf_dict_fold_add_child: "wf_dict children \<Longrightarrow> wf_dict (fold (add_child a) ids children)"
  by (induction ids arbitrary: children) (simp_all add: add_child_def)

lemma keys_fold_add_child:
  "fst ` set (fold (add_child a) ids children) = set ids \<union> fst ` set children"
  by (induction ids arbitrary: children) (auto simp: add_child_def)

lemma fold_children:
  assumes "distinct cs" "\<forall>c \<in> set cs. distinct (f c)" "wf_dict children"
    and "\<forall>i. \<forall>xs. map_of children i = Some xs \<longrightarrow> distinct xs \<and> set xs \<inter> set cs = {}"
  shows "wf_dict (fold (\<lambda>c children. fold (add_child c) (f c) children) cs children) \<and>
    fst ` set (fold (\<lambda>c children. fold (add_child c) (f c) children) cs children) =
      fst ` set children \<union> (\<Union>c \<in> set cs. set (f c)) \<and>
    (\<forall>i xs. map_of (fold (\<lambda>c children. fold (add_child c) (f c) children) cs children) i = Some xs \<longrightarrow>
       distinct xs \<and> set xs = set (dict_get children i []) \<union> {c \<in> set cs. i \<in> set (f c)})"
  using assms
proof (induction cs arbitrary: children)
  case Nil
  then show ?case by (auto simp: dict_get_def)
next
  case (Cons c cs)
  let ?ch = "fold (add_child c) (f c) children"
  have m: "map_of ?ch i = (if i \<in> set (f c) then Some (dict_get children i [] @ [c]) else map_of children i)" for i
    using Cons.prems(2) by (intro map_of_fold_add_child) simp
  have dg: "distinct (dict_get children i []) \<and> set (dict_get children i []) \<inter> set (c # cs) = {}" for i
    using Cons.prems(4) by (cases "map_of children i") (auto simp: dict_get_def)
  have "\<forall>i xs. map_of ?ch i = Some xs \<longrightarrow> distinct xs \<and> set xs \<inter> set cs = {}"
  proof (intro allI impI)
    fix i xs assume "map_of ?ch i = Some xs"
    then have "xs = dict_get children i [] @ [c] \<or> map_of children i = Some xs"
      unfolding m by (simp split: if_splits)
    then show "distinct xs \<and> set xs \<inter> set cs = {}"
    proof (elim disjE)
      assume "xs = dict_get children i [] @ [c]"
      then show ?thesis using dg [of i] Cons.prems(1) by auto
    next
      assume "map_of children i = Some xs"
      then have "distinct xs \<and> set xs \<inter> set (c # cs) = {}" using Cons.prems(4) by blast
      then show ?thesis by auto
    qed
  qed
  from Cons.IH [OF _ _ wf_dict_fold_add_child [OF Cons.prems(3)] this] Cons.prems(1,2)
  have ih: "wf_dict (fold (\<lambda>c children. fold (add_child c) (f c) children) cs ?ch) \<and>
    fst ` set (fold (\<lambda>c children. fold (add_child c) (f c) children) cs ?ch) =
      fst ` set ?ch \<union> (\<Union>c \<in> set cs. set (f c)) \<and>
    (\<forall>i xs. map_of (fold (\<lambda>c children. fold (add_child c) (f c) children) cs ?ch) i = Some xs \<longrightarrow>
       distinct xs \<and> set xs = set (dict_get ?ch i []) \<union> {c \<in> set cs. i \<in> set (f c)})"
    by simp
  have "set (dict_get ?ch i []) = set (dict_get children i []) \<union> (if i \<in> set (f c) then {c} else {})" for i
    by (auto simp: dict_get_def m split: option.splits)
  with ih show ?case by (auto simp: keys_fold_add_child)
qed

subsection \<open>Adding and ordering nodes\<close>

lemma acyclic_add_source:
  assumes "acyclic r" "\<And>x y. (x, y) \<in> s \<Longrightarrow> x = a" "a \<notin> Range r" "a \<notin> Range s"
  shows "acyclic (r \<union> s)"
proof (rule acyclicI, intro allI notI)
  have path: "(x, y) \<in> (r \<union> s)\<^sup>+ \<Longrightarrow> x \<noteq> a \<Longrightarrow> (x, y) \<in> r\<^sup>+ \<and> y \<noteq> a" for x y
  proof (induction rule: trancl_induct)
    case (base y)
    then show ?case using assms(2,3) by blast
  next
    case (step y z)
    then show ?case using assms(2,3) by (blast intro: trancl_into_trancl)
  qed
  fix x assume x: "(x, x) \<in> (r \<union> s)\<^sup>+"
  show False
  proof (cases "x = a")
    case True
    then show False using x assms(3,4) trancl_range [of "r \<union> s"] by blast
  next
    case False
    then show False using path [OF x] assms(1) by (simp add: acyclic_def)
  qed
qed

lemma add_node_ok:
  assumes "raise_first (add_node_checks g a) a = Inr x"
  shows "nd_id (node_at g a) \<notin> fst ` set (ng_nodes g)" "a \<notin> set (nd_parents (node_at g a))"
    "distinct (parent_ids g a)"
    "p \<in> set (nd_parents (node_at g a)) \<Longrightarrow> map_of (ng_nodes g) (nd_id (node_at g p)) = Some p"
    "referenced_node_ids (nd_provenance (node_at g a)) = parent_ids g a"
  using assms unfolding raise_first_Inr_iff add_node_checks_def Let_def by auto

lemma add_node_result:
  assumes "fst (add_node a g) = Inr x"
  shows "raise_first (add_node_checks g a) a = Inr x"
  using assms by (auto simp: add_node_def split: sum.splits)

lemma ng_inv_add_node:
  assumes "ng_inv g" "\<not> is_reference (nd_provenance (node_at g a))"
  shows "ng_inv (snd (add_node a g))"
proof (cases "raise_first (add_node_checks g a) a")
  case (Inl e)
  with assms(1) show ?thesis by (simp add: add_node_def)
next
  case (Inr x)
  note I = ng_invD [OF assms(1)] and ok = add_node_ok [OF Inr] and look = ng_lookup [OF assms(1)]
  let ?g = "snd (add_node a g)" and ?i = "nd_id (node_at g a)"
  have g: "ng_nodes ?g = ng_nodes g @ [(?i, a)]" "ng_self ?g = ng_self g"
    "node_at ?g b = (if b = a then (node_at g a)\<lparr>nd_workspace := Some (ng_self g)\<rparr> else node_at g b)"
    "ng_children ?g = fold (add_child a) (parent_ids g a) (AList.update ?i [] (ng_children g))" for b
    using Inr ok(1) by (simp_all add: add_node_def update_absent)
  have frame [simp]: "nd_id (node_at ?g b) = nd_id (node_at g b)"
    "nd_parents (node_at ?g b) = nd_parents (node_at g b)"
    "nd_provenance (node_at ?g b) = nd_provenance (node_at g b)" for b
    by (simp_all add: g)
  have fresh: "a \<notin> ng_values g"
    using look(1) ok(1) by (metis map_of_None_iff_keys option.distinct(1))
  have vals: "ng_values ?g = insert a (ng_values g)" by (auto simp: ng_values_def g)
  have parents: "set (nd_parents (node_at g a)) \<subseteq> ng_values g"
    using ok(4) look(3) by blast
  have lookup: "map_of (ng_nodes ?g) j = (if j = ?i then Some a else map_of (ng_nodes g) j)" for j
  proof -
    have "map_of (ng_nodes g) ?i = None" using ok(1) by (simp add: map_of_None_iff_keys)
    then show ?thesis by (cases "map_of (ng_nodes g) j") (auto simp: g(1) map_add_def)
  qed
  have nodes: "node_ok ?g j b" if "map_of (ng_nodes ?g) j = Some b" for j b
  proof (cases "j = ?i")
    case True
    then have "b = a" using that by (simp add: lookup)
    then show ?thesis
      using True parents ok(5) assms(2) by (simp add: node_ok_def g(2,3) vals subset_insertI2)
  next
    case False
    then have "map_of (ng_nodes g) j = Some b" using that by (simp add: lookup)
    with I(2) look(3) fresh show ?thesis by (auto simp: node_ok_def g(2,3) vals)
  qed
  have "ng_edges ?g = ng_edges g \<union> {(a, p) | p. p \<in> set (nd_parents (node_at g a))}"
    by (auto simp: ng_edges_def vals)
  moreover have "acyclic \<dots>"
  proof (rule acyclic_add_source [OF I(3)])
    have "set (nd_parents (node_at g c)) \<subseteq> ng_values g" if "c \<in> ng_values g" for c
      using I(2) that look(1) by (auto simp: node_ok_def)
    then show "a \<notin> Range (ng_edges g)" using fresh by (auto simp: ng_edges_def)
  qed (use ok(2) in auto)
  ultimately have acyc: "acyclic (ng_edges ?g)" by simp
  have idx: "ng_index_ok g" by (rule I(4))
  have m: "map_of (ng_children ?g) j = (if j \<in> set (parent_ids g a)
      then Some (dict_get (AList.update ?i [] (ng_children g)) j [] @ [a])
      else map_of (AList.update ?i [] (ng_children g)) j)" for j
    unfolding g(4) by (rule map_of_fold_add_child [OF ok(3)])
  have notself: "?i \<notin> set (parent_ids g a)"
    using ok(1,4) by (metis (no_types, lifting) imageE list.set_map map_of_None_iff_keys option.distinct(1))
  have kids: "{c \<in> ng_values ?g. j \<in> set (parent_ids ?g c)} =
      {c \<in> ng_values g. j \<in> set (parent_ids g c)} \<union> (if j \<in> set (parent_ids g a) then {a} else {})" for j
    by (auto simp: vals)
  have none: "{c \<in> ng_values g. ?i \<in> set (parent_ids g c)} = {}"
  proof -
    have "?i \<notin> set (parent_ids g c)" if "c \<in> ng_values g" for c
    proof -
      have "map_of (ng_nodes g) (nd_id (node_at g p)) = Some p" if p: "p \<in> set (nd_parents (node_at g c))" for p
        using I(2) \<open>c \<in> ng_values g\<close> p look(1) by (auto simp: node_ok_def)
      moreover have "map_of (ng_nodes g) ?i = None" using ok(1) by (simp add: map_of_None_iff_keys)
      ultimately show ?thesis by fastforce
    qed
    then show ?thesis by blast
  qed
  have "ng_index_ok ?g"
    unfolding ng_index_ok_def
  proof (intro conjI)
    show "wf_dict (ng_children ?g)"
      unfolding g(4) using idx by (intro wf_dict_fold_add_child) (simp add: ng_index_ok_def)
    have "set (parent_ids g a) \<subseteq> fst ` set (ng_nodes g)"
      using ok(4) by (auto simp: dict_keys_dom)
    then show "fst ` set (ng_children ?g) = fst ` set (ng_nodes ?g)"
      using idx unfolding g(4) keys_fold_add_child by (auto simp: ng_index_ok_def g(1))
    show "\<forall>j cs. map_of (ng_children ?g) j = Some cs \<longrightarrow> distinct cs \<and>
        set cs = {c \<in> ng_values ?g. j \<in> set (parent_ids ?g c)}"
    proof (intro allI impI)
      fix j cs assume j: "map_of (ng_children ?g) j = Some cs"
      show "distinct cs \<and> set cs = {c \<in> ng_values ?g. j \<in> set (parent_ids ?g c)}"
      proof (cases "j = ?i")
        case True
        then show ?thesis using j notself unfolding m kids True none by (simp add: update_conv')
      next
        case False
        have "j \<in> set (parent_ids g a) \<Longrightarrow> map_of (ng_children g) j \<noteq> None"
          using idx \<open>set (parent_ids g a) \<subseteq> fst ` set (ng_nodes g)\<close>
          by (auto simp: ng_index_ok_def map_of_None_iff_keys)
        then obtain xs where xs: "map_of (ng_children g) j = Some xs"
          "cs = (if j \<in> set (parent_ids g a) then xs @ [a] else xs)"
          using j False unfolding m by (auto simp: dict_get_def update_conv' split: if_splits)
        then have "distinct xs \<and> set xs = {c \<in> ng_values g. j \<in> set (parent_ids g c)}"
          using idx by (simp add: ng_index_ok_def)
        with xs(2) fresh show ?thesis unfolding kids by auto
      qed
    qed
  qed
  moreover have "wf_dict (ng_nodes ?g)" using I(1) ok(1) by (auto simp: g(1))
  ultimately show ?thesis using nodes acyc by (simp add: ng_inv_def)
qed

lemma map_of_reordered:
  assumes "wf_dict d" "set ordered = fst ` set d"
  shows "map_of (map (\<lambda>i. (i, the (map_of d i))) ordered) = map_of d"
proof
  fix i
  have "map_of (map (\<lambda>i. (i, the (map_of d i))) ordered) i =
      (if i \<in> set ordered then Some (the (map_of d i)) else None)"
    by (induction ordered) auto
  then show "map_of (map (\<lambda>i. (i, the (map_of d i))) ordered) i = map_of d i"
    using assms(2) map_of_None_iff_keys [of d i] by (cases "map_of d i") simp_all
qed

lemma ng_inv_cong:
  assumes "wf_dict (ng_nodes g')" "map_of (ng_nodes g') = map_of (ng_nodes g)"
    "ng_heap g' = ng_heap g" "ng_children g' = ng_children g" "ng_self g' = ng_self g" "ng_inv g"
  shows "ng_inv g'"
proof -
  note I = ng_invD [OF assms(6)]
  have v: "ng_values g' = ng_values g"
    using assms(1,2) I(1) by (auto simp: ng_values_iff)
  have k: "fst ` set (ng_nodes g') = fst ` set (ng_nodes g)" by (simp add: dict_keys_dom assms(2))
  show ?thesis
    using assms v k by (simp add: ng_inv_def node_ok_def ng_edges_def ng_index_ok_def)
qed

lemma reorder_nodes_ok:
  assumes "ng_inv g" "distinct ordered" "set ordered = set (dict_keys (ng_nodes g))"
  shows "fst (reorder_nodes ordered g) = Inr ordered"
    "dict_keys (ng_nodes (snd (reorder_nodes ordered g))) = ordered"
    "map_of (ng_nodes (snd (reorder_nodes ordered g))) = map_of (ng_nodes g)"
    "ng_inv (snd (reorder_nodes ordered g))"
proof -
  let ?g = "snd (reorder_nodes ordered g)"
  have g: "?g = g\<lparr>ng_nodes := map (\<lambda>i. (i, the (map_of (ng_nodes g) i))) ordered\<rparr>"
    using assms(2,3) by (simp add: reorder_nodes_def Let_def)
  show k: "dict_keys (ng_nodes ?g) = ordered" by (simp add: g comp_def)
  then show "fst (reorder_nodes ordered g) = Inr ordered"
    using assms(2,3) by (simp add: reorder_nodes_def Let_def)
  show m: "map_of (ng_nodes ?g) = map_of (ng_nodes g)"
    using map_of_reordered [OF ng_invD(1) [OF assms(1)]] assms(3) by (simp add: g)
  show "ng_inv ?g"
    by (rule ng_inv_cong [OF _ m _ _ _ assms(1)]) (simp_all add: k assms(2) del: set_map, simp_all add: g)
qed

lemma ng_inv_reorder: "ng_inv g \<Longrightarrow> ng_inv (snd (reorder_nodes ordered g))"
  using reorder_nodes_ok(4) [of g ordered]
  by (cases "has_duplicates ordered \<or> set ordered \<noteq> set (dict_keys (ng_nodes g))")
    (auto simp: reorder_nodes_def)

lemma list_index_found: "x \<in> set xs \<Longrightarrow> \<exists>i. list_index x xs = Inr i \<and> i < length xs \<and> xs ! i = x"
  by (induction xs) auto

lemma list_insert_facts:
  "set (list_insert i x xs) = insert x (set xs)"
  "distinct (list_insert i x xs) \<longleftrightarrow> distinct xs \<and> x \<notin> set xs"
proof -
  have "list_insert i x xs = take i xs @ [x] @ drop i xs" by (simp add: list_insert_def)
  then have m: "mset (list_insert i x xs) = mset (x # xs)"
    by (metis append_take_drop_id mset.simps(2) mset_append union_mset_add_mset_right add_mset_add_single
        union_commute append_Cons append_Nil)
  show "set (list_insert i x xs) = insert x (set xs)"
    using mset_eq_setD [OF m] by simp
  show "distinct (list_insert i x xs) \<longleftrightarrow> distinct xs \<and> x \<notin> set xs"
    using mset_eq_imp_distinct_iff [OF m] by auto
qed

lemma place_node_ok:
  assumes "ng_inv g" "a \<in> ng_values g" "nd_parents (node_at g a) = p # ps"
  obtains before after where
    "filter (\<lambda>i. i \<noteq> nd_id (node_at g a)) (dict_keys (ng_nodes g)) =
       before @ nd_id (node_at g p) # after"
    "fst (place_node_after_parent a g) = Inr ()"
    "dict_keys (ng_nodes (snd (place_node_after_parent a g))) =
       before @ nd_id (node_at g p) # nd_id (node_at g a) # after"
    "map_of (ng_nodes (snd (place_node_after_parent a g))) = map_of (ng_nodes g)"
    "ng_inv (snd (place_node_after_parent a g))"
proof -
  note I = ng_invD [OF assms(1)] and look = ng_lookup [OF assms(1)]
  let ?i = "nd_id (node_at g a)" and ?j = "nd_id (node_at g p)"
  let ?order = "filter (\<lambda>i. i \<noteq> ?i) (dict_keys (ng_nodes g))"
  have mine: "map_of (ng_nodes g) ?i = Some a" using look(1) assms(2) by blast
  then have p: "p \<in> ng_values g" using I(2) [OF mine] assms(3) by (simp add: node_ok_def)
  have "(a, p) \<in> ng_edges g" using assms(2,3) by (simp add: ng_edges_def)
  then have "p \<noteq> a" using I(3) by (auto simp: acyclic_def)
  then have "?j \<noteq> ?i" using look(2) [OF p assms(2)] by blast
  moreover have "?j \<in> fst ` set (ng_nodes g)"
    using p look(1) by (metis map_of_None_iff_keys option.distinct(1))
  ultimately have "?j \<in> set ?order" by simp
  then obtain k where k: "list_index ?j ?order = Inr k" "k < length ?order" "?order ! k = ?j"
    using list_index_found by metis
  let ?new = "list_insert (k + 1) ?i ?order"
  have new: "distinct ?new" "set ?new = set (dict_keys (ng_nodes g))"
    using I(1) mine by (auto simp: list_insert_facts dict_keys_dom)
  note r = reorder_nodes_ok [OF assms(1) new]
  have split: "?order = take k ?order @ ?j # drop (k + 1) ?order"
    using id_take_nth_drop [OF k(2)] k(3) by simp
  have "?new = take k ?order @ ?j # ?i # drop (k + 1) ?order"
    using k(2,3) by (simp add: list_insert_def take_Suc_conv_app_nth)
  moreover have "place_node_after_parent a g = (Inr (), snd (reorder_nodes ?new g))"
    using r(1) by (simp add: place_node_after_parent_def Let_def mine assms(3) k(1) split: prod.splits)
      (metis fst_conv map_sum.simps(2) snd_conv)
  ultimately have placed: "fst (place_node_after_parent a g) = Inr ()"
    "snd (place_node_after_parent a g) = snd (reorder_nodes ?new g)"
    "?new = take k ?order @ ?j # ?i # drop (k + 1) ?order" by simp_all
  show thesis
    by (rule that [OF split placed(1)]) (use r(2-4) placed(2,3) in \<open>simp_all only:\<close>)
qed

lemma ng_inv_place: "ng_inv g \<Longrightarrow> ng_inv (snd (place_node_after_parent a g))"
proof (cases "map_of (ng_nodes g) (nd_id (node_at g a)) = Some a \<and> nd_parents (node_at g a) \<noteq> []")
  case True
  assume inv: "ng_inv g"
  then have "a \<in> ng_values g" using True ng_lookup(1) by blast
  moreover obtain p ps where "nd_parents (node_at g a) = p # ps" using True by (cases "nd_parents (node_at g a)") auto
  ultimately show ?thesis using place_node_ok [OF inv] by blast
qed (auto simp: place_node_after_parent_def Let_def split: list.splits)

subsection \<open>Removing a node\<close>

definition replacement_of :: "uuid \<Rightarrow> addr \<Rightarrow> node_graph \<Rightarrow> addr \<Rightarrow> provenance \<times> addr list" where
  "replacement_of n a g c = projr (replacement_for n a g c)"

lemma ng_edgeD:
  assumes "ng_inv g" "c \<in> ng_values g"
  shows "node_ok g (nd_id (node_at g c)) c" "set (nd_parents (node_at g c)) \<subseteq> ng_values g"
    "c \<notin> set (nd_parents (node_at g c))"
    "a \<in> set (nd_parents (node_at g c)) \<Longrightarrow> c \<notin> set (nd_parents (node_at g a))"
proof -
  note I = ng_invD [OF assms(1)]
  show ok: "node_ok g (nd_id (node_at g c)) c" using I(2) ng_lookup(1) [OF assms(1)] assms(2) by blast
  then show sub: "set (nd_parents (node_at g c)) \<subseteq> ng_values g" by (simp add: node_ok_def)
  show "c \<notin> set (nd_parents (node_at g c))"
    using I(3) assms(2) unfolding acyclic_def ng_edges_def by blast
  show "c \<notin> set (nd_parents (node_at g a))" if "a \<in> set (nd_parents (node_at g c))"
  proof
    assume "c \<in> set (nd_parents (node_at g a))"
    then have "(a, c) \<in> ng_edges g" "(c, a) \<in> ng_edges g"
      using that sub assms(2) by (auto simp: ng_edges_def)
    then have "(a, a) \<in> (ng_edges g)\<^sup>+" by (meson trancl.intros)
    then show False using I(3) by (simp add: acyclic_def)
  qed
qed

lemma ids_to_addrs:
  assumes "ng_inv g" "set ps \<subseteq> ng_values g" "set ids = (\<lambda>p. nd_id (node_at g p)) ` set ps"
    "n \<notin> set ids"
  defines "qs \<equiv> map (\<lambda>i. the (map_of (filter (\<lambda>kv. fst kv \<noteq> n) (ng_nodes g)) i)) ids"
  shows "map (\<lambda>p. nd_id (node_at g p)) qs = ids" "set qs = set ps"
    "set ids \<subseteq> fst ` set (filter (\<lambda>kv. fst kv \<noteq> n) (ng_nodes g))"
proof -
  have m: "map_of (filter (\<lambda>kv. fst kv \<noteq> n) (ng_nodes g)) (nd_id (node_at g p)) = Some p"
    if "p \<in> set ps" for p
  proof -
    have "map_of (ng_nodes g) (nd_id (node_at g p)) = Some p"
      using that assms(2) ng_lookup(1) [OF assms(1)] by blast
    moreover have "nd_id (node_at g p) \<noteq> n" using that assms(3,4) by auto
    ultimately show ?thesis
      by (simp add: filter_keys_delete delete_conv')
  qed
  have "nd_id (node_at g (the (map_of (filter (\<lambda>kv. fst kv \<noteq> n) (ng_nodes g)) i))) = i"
    if "i \<in> set ids" for i
    using that assms(3) m by auto
  then show "map (\<lambda>p. nd_id (node_at g p)) qs = ids" by (simp add: qs_def comp_def map_idI)
  show "set qs = set ps" unfolding qs_def set_map assms(3) image_image using m by simp
  show "set ids \<subseteq> fst ` set (filter (\<lambda>kv. fst kv \<noteq> n) (ng_nodes g))"
    unfolding assms(3) dict_keys_dom using m by auto
qed

lemma replacement_ok:
  assumes "ng_inv g" "map_of (ng_nodes g) n = Some a" "c \<in> ng_values g"
    "a \<in> set (nd_parents (node_at g c))"
  shows "replacement_for n a g c = Inr (replacement_of n a g c)"
    "referenced_node_ids (fst (replacement_of n a g c)) =
       map (\<lambda>p. nd_id (node_at g p)) (snd (replacement_of n a g c))"
    "\<not> is_reference (fst (replacement_of n a g c))"
    "set (snd (replacement_of n a g c)) =
       (set (nd_parents (node_at g c)) - {a}) \<union> set (nd_parents (node_at g a))"
proof -
  note look = ng_lookup [OF assms(1)]
  have a: "nd_id (node_at g a) = n" "a \<in> ng_values g" using look(3) [OF assms(2)] by auto
  note C = ng_edgeD [OF assms(1,3)] and A = ng_edgeD [OF assms(1) a(2)]
  let ?q = "replace_value n (nd_provenance (node_at g a)) (nd_provenance (node_at g c))"
  have q: "compose_provenance (nd_provenance (node_at g c)) n (nd_provenance (node_at g a)) = Inr ?q"
    "\<not> is_reference ?q"
    using C(1) not_reference_replace by (auto simp: compose_provenance_def node_ok_def)
  let ?ps = "removeAll a (nd_parents (node_at g c)) @ nd_parents (node_at g a)"
  have ps: "set ?ps \<subseteq> ng_values g" using C(2) A(2) by auto
  have "set (references (nd_provenance (node_at g b))) = set (parent_ids g b)" if "b \<in> ng_values g" for b
    using ng_edgeD(1) [OF assms(1) that] unfolding node_ok_def by (metis referenced_node_ids_set)
  note refs = this [OF assms(3)] this [OF a(2)]
  have "n \<in> set (parent_ids g c)" using assms(4) a(1) by force
  then have "set (referenced_node_ids ?q) = (set (parent_ids g c) - {n}) \<union> set (parent_ids g a)"
    by (auto simp: referenced_dedupe references_replace refs)
  moreover have "set (parent_ids g c) - {n} = (\<lambda>p. nd_id (node_at g p)) ` (set (nd_parents (node_at g c)) - {a})"
    using a C(2) look(2) by auto
  ultimately have ids: "set (referenced_node_ids ?q) = (\<lambda>p. nd_id (node_at g p)) ` set ?ps" by auto
  have notn: "n \<notin> set (referenced_node_ids ?q)"
    unfolding ids using a look(2) [OF _ a(2)] ps A(3) by force
  have notc: "nd_id (node_at g c) \<notin> set (referenced_node_ids ?q)"
    unfolding ids using look(2) [OF _ assms(3)] ps C(3) C(4) [OF assms(4)] by force
  note k = ids_to_addrs [OF assms(1) ps ids notn]
  have r: "replacement_for n a g c = Inr (?q, map (\<lambda>i. the (map_of
      (filter (\<lambda>kv. fst kv \<noteq> n) (ng_nodes g)) i)) (referenced_node_ids ?q))"
    using notc k(3) by (auto simp: replacement_for_def q Let_def)
  then show "replacement_for n a g c = Inr (replacement_of n a g c)" by (simp add: replacement_of_def)
  show "referenced_node_ids (fst (replacement_of n a g c)) =
       map (\<lambda>p. nd_id (node_at g p)) (snd (replacement_of n a g c))"
    using k(1) by (simp add: replacement_of_def r)
  show "\<not> is_reference (fst (replacement_of n a g c))" using q(2) by (simp add: replacement_of_def r)
  show "set (snd (replacement_of n a g c)) =
       (set (nd_parents (node_at g c)) - {a}) \<union> set (nd_parents (node_at g a))"
    using k(2) by (simp add: replacement_of_def r)
qed

lemma fold_rewrite_child:
  assumes "distinct cs"
  shows "fold rewrite_child (zip cs (map f cs)) g = g\<lparr>ng_heap := (\<lambda>b. if b \<in> set cs
    then (node_at g b)\<lparr>nd_provenance := fst (f b), nd_parents := snd (f b)\<rparr> else node_at g b)\<rparr>"
  using assms
proof (induction cs arbitrary: g)
  case (Cons c cs)
  then show ?case
    by (auto simp: rewrite_child_def case_prod_unfold fun_eq_iff intro!: node_graph.equality)
qed simp

text \<open>The graph after the removal, in closed form: the children get their composed lineage, the node is
  detached, and the index is rebuilt.\<close>

definition removed_heap :: "uuid \<Rightarrow> addr \<Rightarrow> node_graph \<Rightarrow> addr \<Rightarrow> node" where
  "removed_heap n a g b =
     (if b = a then (node_at g a)\<lparr>nd_parents := [], nd_workspace := None\<rparr>
      else if b \<in> ng_values g \<and> a \<in> set (nd_parents (node_at g b)) then
        (node_at g b)\<lparr>nd_provenance := fst (replacement_of n a g b),
                      nd_parents := snd (replacement_of n a g b)\<rparr>
      else node_at g b)"

lemma remove_node_shape:
  assumes "ng_inv g" "map_of (ng_nodes g) n = Some a"
  shows "fst (remove_node n g) = Inr True"
    "ng_nodes (snd (remove_node n g)) = AList.delete n (ng_nodes g)"
    "node_at (snd (remove_node n g)) b = removed_heap n a g b"
    "ng_self (snd (remove_node n g)) = ng_self g"
    "ng_children (snd (remove_node n g)) = rebuild_children (snd (remove_node n g))"
proof -
  note I = ng_invD [OF assms(1)] and look = ng_lookup [OF assms(1)]
  have a: "nd_id (node_at g a) = n" "a \<in> ng_values g" using look(3) [OF assms(2)] by auto
  have "n \<in> fst ` set (ng_children g)"
    using I(4) assms(2) by (auto simp: ng_index_ok_def dict_keys_dom)
  then obtain cs where cs: "map_of (ng_children g) n = Some cs"
    by (auto simp: dict_keys_dom)
  then have "distinct cs" "set cs = {c \<in> ng_values g. n \<in> set (parent_ids g c)}"
    using I(4) by (auto simp: ng_index_ok_def)
  then have kids: "distinct cs" "set cs = {c \<in> ng_values g. a \<in> set (nd_parents (node_at g c))}"
    using ng_parent_mem [OF assms(1) _ a(2)] a(1) by auto
  have "map_result (replacement_for n a g) cs = Inr (map (replacement_of n a g) cs)"
    unfolding map_result_Inr_iff list_all2_conv_all_nth
    using replacement_ok(1) [OF assms] kids(2) nth_mem [of _ cs] by auto
  then have r: "bind_result (children_of n g) (\<lambda>cs. bind_result (map_result (replacement_for n a g) cs)
      (\<lambda>rs. Inr (zip cs rs))) = Inr (zip cs (map (replacement_of n a g) cs))"
    by (simp add: children_of_def cs)
  have notself: "a \<notin> set cs" using kids(2) ng_edgeD(3) [OF assms(1) a(2)] by auto
  note e = r fold_rewrite_child [OF kids(1)]
  show "fst (remove_node n g) = Inr True" "ng_nodes (snd (remove_node n g)) = AList.delete n (ng_nodes g)"
    "ng_self (snd (remove_node n g)) = ng_self g"
    by (simp_all add: remove_node_def assms(2) e Let_def)
  show "node_at (snd (remove_node n g)) b = removed_heap n a g b"
    using notself kids(2) by (auto simp: remove_node_def assms(2) e Let_def removed_heap_def)
  show "ng_children (snd (remove_node n g)) = rebuild_children (snd (remove_node n g))"
  proof -
    have "\<exists>g3. snd (remove_node n g) = g3\<lparr>ng_children := rebuild_children g3\<rparr>"
      unfolding remove_node_def by (simp add: assms(2) r Let_def) blast
    then show ?thesis by (auto simp: rebuild_children_def)
  qed
qed

lemma rebuild_index_ok:
  assumes "wf_dict (ng_nodes g)" "\<And>i a. map_of (ng_nodes g) i = Some a \<Longrightarrow> node_ok g i a"
    "ng_children g = rebuild_children g"
  shows "ng_index_ok g"
proof -
  let ?vs = "dict_values (ng_nodes g)"
    and ?start = "map (\<lambda>kv. (fst kv, [])) (ng_nodes g) :: (uuid, addr list) dict"
  have val: "\<exists>i. node_ok g i c" if "c \<in> set ?vs" for c
    using that assms(1,2) ng_values_iff [of g c] by (auto simp: ng_values_def)
  have "map (\<lambda>a. nd_id (node_at g a)) ?vs = dict_keys (ng_nodes g)"
    using assms(1,2) by (auto simp: node_ok_def map_of_eq_Some_iff)
  then have dv: "distinct ?vs" using assms(1) by (metis distinct_map)
  have df: "\<forall>c \<in> set ?vs. distinct (parent_ids g c)"
    using val referenced_node_ids_distinct unfolding node_ok_def by metis
  have start: "map_of (map (\<lambda>kv. (fst kv, [])) d) i = (if i \<in> fst ` set d then Some [] else None)"
    for i and d :: "(uuid, addr) dict" by (induction d) auto
  have ws: "wf_dict ?start" using assms(1) by (simp add: comp_def)
  have "\<forall>i xs. map_of ?start i = Some xs \<longrightarrow> distinct xs \<and> set xs \<inter> set ?vs = {}"
    by (simp add: start)
  note F = fold_children [OF dv df ws this, folded rebuild_children_def, folded assms(3)]
  have "(\<Union>c \<in> set ?vs. set (parent_ids g c)) \<subseteq> fst ` set (ng_nodes g)"
  proof (intro UN_least)
    fix c assume "c \<in> set ?vs"
    then have "set (nd_parents (node_at g c)) \<subseteq> ng_values g" using val by (auto simp: node_ok_def)
    moreover have "nd_id (node_at g p) \<in> dom (map_of (ng_nodes g))" if p: "p \<in> ng_values g" for p
    proof -
      obtain i where "map_of (ng_nodes g) i = Some p" using p by (auto simp: ng_values_iff [OF assms(1)])
      with assms(2) [OF this] show ?thesis by (auto simp: node_ok_def)
    qed
    ultimately show "set (parent_ids g c) \<subseteq> fst ` set (ng_nodes g)" unfolding dict_keys_dom by auto
  qed
  moreover have "dict_get ?start i [] = []" for i by (simp add: dict_get_def start)
  ultimately show ?thesis
    using F unfolding ng_index_ok_def by (auto simp: ng_values_def image_image)
qed

lemma ng_inv_remove:
  assumes "ng_inv g"
  shows "ng_inv (snd (remove_node n g))"
proof (cases "map_of (ng_nodes g) n")
  case None
  with assms show ?thesis by (simp add: remove_node_def)
next
  case (Some a)
  note I = ng_invD [OF assms] and look = ng_lookup [OF assms] and R = remove_node_shape [OF assms Some]
  let ?g = "snd (remove_node n g)"
  have a: "nd_id (node_at g a) = n" "a \<in> ng_values g" using look(3) [OF Some] by auto
  have wf: "wf_dict (ng_nodes ?g)" using I(1) by (simp add: R(2))
  have lookup: "map_of (ng_nodes ?g) i = (if i = n then None else map_of (ng_nodes g) i)" for i
    by (simp add: R(2) delete_conv')
  have vals: "ng_values ?g = ng_values g - {a}"
    unfolding set_eq_iff ng_values_iff [OF wf] Diff_iff ng_values_iff [OF I(1)] lookup
    using look(3) Some a(1) by (metis option.distinct(1) option.inject singleton_iff)
  have ids [simp]: "nd_id (node_at ?g b) = nd_id (node_at g b)" for b
    by (simp add: R(3) removed_heap_def)
  have node: "nd_workspace (node_at ?g b) = Some (ng_self g) \<and>
      \<not> is_reference (nd_provenance (node_at ?g b)) \<and>
      referenced_node_ids (nd_provenance (node_at ?g b)) = parent_ids ?g b \<and>
      set (nd_parents (node_at ?g b)) = (set (nd_parents (node_at g b)) - {a}) \<union>
        (if a \<in> set (nd_parents (node_at g b)) then set (nd_parents (node_at g a)) else {})"
    if "b \<in> ng_values g - {a}" for b
  proof (cases "a \<in> set (nd_parents (node_at g b))")
    case True
    then have "node_at ?g b = (node_at g b)\<lparr>nd_provenance := fst (replacement_of n a g b),
        nd_parents := snd (replacement_of n a g b)\<rparr>"
      using that by (simp add: R(3) removed_heap_def)
    moreover note replacement_ok(2-4) [OF assms Some _ True]
    ultimately show ?thesis using that True ng_edgeD(1) [OF assms, of b] by (simp add: node_ok_def)
  next
    case False
    then have "node_at ?g b = node_at g b" using that by (simp add: R(3) removed_heap_def)
    then show ?thesis using that False ng_edgeD(1) [OF assms, of b] by (simp add: node_ok_def)
  qed
  have sub: "set (nd_parents (node_at ?g b)) \<subseteq> ng_values ?g" if "b \<in> ng_values ?g" for b
    using node [of b] that ng_edgeD(2,3) [OF assms] a(2) by (auto simp: vals split: if_splits)
  have nodes: "node_ok ?g i b" if "map_of (ng_nodes ?g) i = Some b" for i b
  proof -
    have "b \<in> ng_values ?g" using that ng_values_iff [OF wf] by blast
    moreover have "nd_id (node_at g b) = i" using that look(3) by (auto simp: lookup split: if_splits)
    ultimately show ?thesis using node [of b] sub [of b] by (simp add: node_ok_def R(4) vals)
  qed
  have "ng_edges ?g \<subseteq> (ng_edges g)\<^sup>+"
  proof
    fix x assume "x \<in> ng_edges ?g"
    then obtain b p where x: "x = (b, p)" "b \<in> ng_values g - {a}" "p \<in> set (nd_parents (node_at ?g b))"
      by (auto simp: ng_edges_def vals)
    then consider "p \<in> set (nd_parents (node_at g b))"
      | "a \<in> set (nd_parents (node_at g b))" "p \<in> set (nd_parents (node_at g a))"
      using node [OF x(2)] by (auto split: if_splits)
    then show "x \<in> (ng_edges g)\<^sup>+"
    proof cases
      case 1
      then show ?thesis using x by (auto simp: ng_edges_def)
    next
      case 2
      then have "(b, a) \<in> ng_edges g" "(a, p) \<in> ng_edges g" using x(2) a(2) by (auto simp: ng_edges_def)
      then show ?thesis unfolding x(1) by (meson trancl.intros)
    qed
  qed
  then have acyc: "acyclic (ng_edges ?g)"
    using I(3) acyclic_subset [of "(ng_edges g)\<^sup>+" "ng_edges ?g"] by (simp add: acyclic_def)
  have idx: "ng_index_ok ?g" by (rule rebuild_index_ok [OF wf nodes R(5)])
  show ?thesis using wf nodes acyc idx by (simp add: ng_inv_def)
qed

section \<open>Reachable graphs\<close>

text \<open>A new object has an address no registered node has. A \<open>NodeProvenance\<close> is never a reference.\<close>

inductive ng_step :: "node_graph \<Rightarrow> node_graph \<Rightarrow> bool" where
  new_node: "a \<notin> ng_values g \<Longrightarrow> ng_step g (snd (node_init a i name parents provenance document color tokenizer_model g))"
| add_node: "\<not> is_reference (nd_provenance (node_at g a)) \<Longrightarrow> ng_step g (snd (add_node a g))"
| reorder_nodes: "ng_step g (snd (reorder_nodes ordered_ids g))"
| place_node: "ng_step g (snd (place_node_after_parent a g))"
| remove_node: "ng_step g (snd (remove_node node_id g))"

inductive ng_reachable :: "node_graph \<Rightarrow> bool" where
  init: "ng_reachable (ng_init self heap)"
| step: "ng_reachable g \<Longrightarrow> ng_step g g' \<Longrightarrow> ng_reachable g'"

lemma ng_inv_set_unregistered:
  assumes "ng_inv g" "a \<notin> ng_values g"
  shows "ng_inv (set_node a n g)"
proof -
  let ?g = "set_node a n g"
  have v: "ng_values ?g = ng_values g" by (simp add: ng_values_def)
  have same: "node_at ?g b = node_at g b" if "b \<in> ng_values g" for b using that assms(2) by auto
  have ids: "parent_ids ?g b = parent_ids g b" if "b \<in> ng_values g" for b
    using ng_edgeD(2) [OF assms(1) that] assms(2) that by auto
  have ok: "node_ok ?g i b" if m: "map_of (ng_nodes ?g) i = Some b" for i b
  proof -
    have b: "b \<in> ng_values g" "node_ok g i b"
      using m ng_lookup(3) [OF assms(1)] ng_invD(2) [OF assms(1)] by auto
    then show ?thesis using same [OF b(1)] ids [OF b(1)] by (simp add: node_ok_def v)
  qed
  have edges: "ng_edges ?g = ng_edges g" using same by (auto simp: ng_edges_def v)
  have kids: "(c \<in> ng_values g \<and> i \<in> set (parent_ids ?g c)) =
      (c \<in> ng_values g \<and> i \<in> set (parent_ids g c))" for c i
    using ids [of c] by (simp only: cong: conj_cong)
  have "ng_index_ok ?g"
    using ng_invD(4) [OF assms(1)] unfolding ng_index_ok_def v kids by simp
  with ok edges ng_invD(1,3) [OF assms(1)] show ?thesis by (simp add: ng_inv_def)
qed

lemma ng_reachable_inv: "ng_reachable g \<Longrightarrow> ng_inv g"
proof (induction rule: ng_reachable.induct)
  case (step g g')
  from step.hyps(2) step.IH show ?case
    by (cases rule: ng_step.cases)
      (simp_all add: node_init_def Let_def ng_inv_set_unregistered ng_inv_add_node ng_inv_reorder
        ng_inv_place ng_inv_remove)
qed (rule ng_inv_init)

text \<open>A source, a clone of it, and a join of the two.\<close>

definition source_node :: node where
  "source_node = \<lparr>nd_id = ''s'', nd_name = ''s'', nd_parents = [], nd_provenance = SourceProvenance,
     nd_document = None, nd_color = None, nd_tokenizer_model = None, nd_workspace = None\<rparr>"

definition clone_node :: node where
  "clone_node = \<lparr>nd_id = ''c'', nd_name = ''c'', nd_parents = [0],
     nd_provenance = DerivationProvenance CloneDerivation [(RoleSource, NodeReference ''s'')],
     nd_document = None, nd_color = None, nd_tokenizer_model = None, nd_workspace = None\<rparr>"

definition join_node :: node where
  "join_node = \<lparr>nd_id = ''j'', nd_name = ''j'', nd_parents = [1, 0],
     nd_provenance = DerivationProvenance (JoinDerivation (Some ''id'') (Some ''id'') Inner)
       [(RoleLeft, NodeReference ''c''), (RoleRight, NodeReference ''s'')], nd_document = None, nd_color = None,
     nd_tokenizer_model = None, nd_workspace = None\<rparr>"

definition example_heap :: "addr \<Rightarrow> node" where
  "example_heap = (\<lambda>a. source_node)(1 := clone_node, 2 := join_node)"

definition example_graph :: node_graph where
  "example_graph = snd (add_node 2 (snd (add_node 1 (snd (add_node 0 (ng_init 0 example_heap))))))"

lemma example_graph_reachable: "ng_reachable example_graph"
proof -
  let ?g1 = "snd (add_node 0 (ng_init 0 example_heap))"
  let ?g2 = "snd (add_node 1 ?g1)"
  have "\<not> is_reference (nd_provenance (node_at (ng_init 0 example_heap) 0))"
    "\<not> is_reference (nd_provenance (node_at ?g1 1))" "\<not> is_reference (nd_provenance (node_at ?g2 2))"
    by code_simp+
  then show ?thesis
    unfolding example_graph_def
    by (intro ng_reachable.step [OF _ ng_step.add_node] ng_reachable.init)
qed

section \<open>Properties\<close>

text \<open>C2: the Data Block graph stays well formed. Whatever the sequence of operations, the parents of a
  registered node are registered, are exactly the live references of its provenance in order, form no
  cycle, and the index of children is the inverse of the parent relation without repetitions.\<close>

theorem node_graph_well_formed:
  assumes "ng_reachable g"
  shows "acyclic (ng_edges g) \<and>
    (\<forall>i a. map_of (ng_nodes g) i = Some a \<longrightarrow>
       nd_id (node_at g a) = i \<and> set (nd_parents (node_at g a)) \<subseteq> ng_values g \<and>
       distinct (nd_parents (node_at g a)) \<and>
       referenced_node_ids (nd_provenance (node_at g a)) = parent_ids g a \<and>
       (\<exists>cs. children_of i g = Inr cs \<and> distinct cs \<and>
          set cs = {c \<in> ng_values g. a \<in> set (nd_parents (node_at g c))}))"
proof (intro conjI allI impI)
  note inv = ng_reachable_inv [OF assms]
  note I = ng_invD [OF inv]
  show "acyclic (ng_edges g)" by (rule I(3))
  fix i a assume m: "map_of (ng_nodes g) i = Some a"
  have a: "nd_id (node_at g a) = i" "a \<in> ng_values g" using ng_lookup(3) [OF inv m] by auto
  note ok = I(2) [OF m, unfolded node_ok_def]
  show "nd_id (node_at g a) = i" "set (nd_parents (node_at g a)) \<subseteq> ng_values g"
    "referenced_node_ids (nd_provenance (node_at g a)) = parent_ids g a"
    using ok by auto
  then show "distinct (nd_parents (node_at g a))" by (metis distinct_map referenced_node_ids_distinct)
  have "i \<in> fst ` set (ng_children g)" using I(4) m by (auto simp: ng_index_ok_def dict_keys_dom)
  then obtain cs where cs: "map_of (ng_children g) i = Some cs" by (auto simp: dict_keys_dom)
  then have "distinct cs \<and> set cs = {c \<in> ng_values g. i \<in> set (parent_ids g c)}"
    using I(4) by (simp add: ng_index_ok_def)
  then show "\<exists>cs. children_of i g = Inr cs \<and> distinct cs \<and>
      set cs = {c \<in> ng_values g. a \<in> set (nd_parents (node_at g c))}"
    using ng_parent_mem [OF inv _ a(2)] a(1) by (auto simp: children_of_def cs)
qed

theorem node_graph_well_formed_witness:
  "dict_keys (ng_nodes example_graph) = [''s'', ''c'', ''j''] \<and> acyclic (ng_edges example_graph) \<and>
   (\<exists>cs. children_of ''s'' example_graph = Inr cs \<and> distinct cs)"
proof -
  have "dict_keys (ng_nodes example_graph) = [''s'', ''c'', ''j'']"
    "map_of (ng_nodes example_graph) ''s'' = Some 0"
    by code_simp+
  with node_graph_well_formed [OF example_graph_reachable] show ?thesis by blast
qed

text \<open>C3: deleting a Data Block never fails half way. In every reachable graph \<open>remove_node\<close> answers
  whether the Data Block existed; then it is gone, detached, and each child has the composed provenance
  and the parents it refers to: its other parents and those of the removed Data Block. Every other Data
  Block is untouched, and the order of the remaining ones is kept.\<close>

theorem remove_node_total:
  assumes "ng_reachable g"
  shows "fst (remove_node n g) = Inr (n \<in> set (dict_keys (ng_nodes g))) \<and>
    dict_keys (ng_nodes (snd (remove_node n g))) = filter (\<lambda>i. i \<noteq> n) (dict_keys (ng_nodes g)) \<and>
    (\<forall>a b. map_of (ng_nodes g) n = Some a \<longrightarrow> b \<in> ng_values g \<longrightarrow> b \<noteq> a \<longrightarrow>
       (let b' = node_at (snd (remove_node n g)) b in
        if a \<in> set (nd_parents (node_at g b))
        then compose_provenance (nd_provenance (node_at g b)) n (nd_provenance (node_at g a)) =
            Inr (nd_provenance b') \<and>
          set (nd_parents b') = (set (nd_parents (node_at g b)) - {a}) \<union> set (nd_parents (node_at g a))
        else b' = node_at g b))"
proof (cases "map_of (ng_nodes g) n")
  case None
  then have "n \<notin> fst ` set (ng_nodes g)" by (simp add: map_of_None_iff_keys)
  with None show ?thesis by (auto simp: remove_node_def intro!: filter_True [symmetric])
next
  case (Some a)
  note inv = ng_reachable_inv [OF assms]
  note R = remove_node_shape [OF inv Some]
  have a: "a \<in> ng_values g" using ng_lookup(3) [OF inv Some] by blast
  have k: "dict_keys (AList.delete n (ng_nodes g)) = filter (\<lambda>i. i \<noteq> n) (dict_keys (ng_nodes g))"
    by (simp add: AList.delete_eq filter_map comp_def case_prod_unfold eq_commute)
  have "compose_provenance (nd_provenance (node_at g b)) n (nd_provenance (node_at g a)) =
      Inr (fst (replacement_of n a g b))"
    if "b \<in> ng_values g" "a \<in> set (nd_parents (node_at g b))" for b
    using replacement_ok(1) [OF inv Some that]
    by (auto simp: replacement_for_def bind_result_Inr_iff Let_def split: if_splits)
      (metis fst_conv)
  then show ?thesis
    using R(1-3) k replacement_ok(4) [OF inv Some] Some
    by (auto simp: removed_heap_def Let_def dict_keys_dom)
qed

theorem remove_node_total_witness:
  "fst (remove_node ''c'' example_graph) = Inr True \<and>
   dict_keys (ng_nodes (snd (remove_node ''c'' example_graph))) = [''s'', ''j'']"
proof -
  have "''c'' \<in> set (dict_keys (ng_nodes example_graph))"
    "filter (\<lambda>i. i \<noteq> ''c'') (dict_keys (ng_nodes example_graph)) = [''s'', ''j'']"
    by code_simp+
  with remove_node_total [OF example_graph_reachable, of "''c''"] show ?thesis by simp
qed

text \<open>A derived Data Block is placed right below its first parent, and the order of all the others
  does not change.\<close>

theorem place_node_after_parent_spec:
  assumes "ng_reachable g" "a \<in> ng_values g" "nd_parents (node_at g a) = p # ps"
  shows "\<exists>before after.
    filter (\<lambda>i. i \<noteq> nd_id (node_at g a)) (dict_keys (ng_nodes g)) =
      before @ nd_id (node_at g p) # after \<and>
    fst (place_node_after_parent a g) = Inr () \<and>
    dict_keys (ng_nodes (snd (place_node_after_parent a g))) =
      before @ nd_id (node_at g p) # nd_id (node_at g a) # after"
  by (rule place_node_ok [OF ng_reachable_inv [OF assms(1)] assms(2,3)]) blast

theorem place_node_after_parent_spec_witness:
  "fst (place_node_after_parent 2 (snd (reorder_nodes [''j'', ''c'', ''s''] example_graph))) = Inr () \<and>
   dict_keys (ng_nodes (snd (place_node_after_parent 2
     (snd (reorder_nodes [''j'', ''c'', ''s''] example_graph))))) = [''c'', ''j'', ''s'']"
proof -
  let ?g = "snd (reorder_nodes [''j'', ''c'', ''s''] example_graph)"
  have r: "ng_reachable ?g" by (rule ng_reachable.step [OF example_graph_reachable ng_step.reorder_nodes])
  have "map_of (ng_nodes ?g) ''j'' = Some 2" "nd_parents (node_at ?g 2) = [1, 0]" by code_simp+
  moreover from this(1) have "2 \<in> ng_values ?g" by (force simp: ng_values_def dest: map_of_SomeD)
  moreover have "dict_keys (ng_nodes (snd (place_node_after_parent 2 ?g))) = [''c'', ''j'', ''s'']"
    by code_simp
  ultimately show ?thesis using place_node_after_parent_spec [OF r, of 2 1 "[0]"] by blast
qed

end
