(* ===== verification/PlanHistory.thy ===== *)
theory PlanHistory
  imports Prelude
begin

text \<open>
  The plan of a Data Block and its Undo and Redo stacks (class \<open>Node\<close> in
  \<^verbatim>\<open>domain/workspace/node.py\<close>). A \<open>LazyFrame\<close> is an object compared by identity, so plans are values
  of a type parameter; that only lazy frames are assigned is the typing of the model. The top of a stack
  is the end of the list, as in the source.
\<close>

definition PLAN_HISTORY_LIMIT :: nat where
  "PLAN_HISTORY_LIMIT = 50"

record 'p plan_history =
  ph_data :: 'p
  ph_undo :: "'p list"
  ph_redo :: "'p list"

definition ph_init :: "'p \<Rightarrow> 'p plan_history" where
  "ph_init data = \<lparr>ph_data = data, ph_undo = [], ph_redo = []\<rparr>"

definition append_bounded :: "'p list \<Rightarrow> 'p \<Rightarrow> 'p list" where
  "append_bounded stack plan =
     (let stack' = stack @ [plan]
      in if length stack' > PLAN_HISTORY_LIMIT then drop 1 stack' else stack')"

text \<open>The setter of \<open>data\<close>.\<close>

definition ph_set_data :: "'p \<Rightarrow> 'p plan_history \<Rightarrow> 'p plan_history" where
  "ph_set_data value h =
     (if value = ph_data h then h
      else h\<lparr>ph_undo := append_bounded (ph_undo h) (ph_data h), ph_data := value, ph_redo := []\<rparr>)"

definition ph_can_undo :: "'p plan_history \<Rightarrow> bool" where
  "ph_can_undo h \<longleftrightarrow> ph_undo h \<noteq> []"

definition ph_can_redo :: "'p plan_history \<Rightarrow> bool" where
  "ph_can_redo h \<longleftrightarrow> ph_redo h \<noteq> []"

definition ph_undo_data :: "'p plan_history \<Rightarrow> bool \<times> 'p plan_history" where
  "ph_undo_data h =
     (if ph_undo h = [] then (False, h)
      else (True, h\<lparr>ph_redo := append_bounded (ph_redo h) (ph_data h),
                   ph_data := last (ph_undo h), ph_undo := butlast (ph_undo h)\<rparr>))"

definition ph_redo_data :: "'p plan_history \<Rightarrow> bool \<times> 'p plan_history" where
  "ph_redo_data h =
     (if ph_redo h = [] then (False, h)
      else (True, h\<lparr>ph_undo := append_bounded (ph_undo h) (ph_data h),
                   ph_data := last (ph_redo h), ph_redo := butlast (ph_redo h)\<rparr>))"

definition ph_snapshot :: "'p plan_history \<Rightarrow> 'p list \<times> 'p list" where
  "ph_snapshot h = (ph_undo h, ph_redo h)"

text \<open>\<open>xs[-limit:]\<close>.\<close>

definition last_limit :: "'p list \<Rightarrow> 'p list" where
  "last_limit xs = drop (length xs - PLAN_HISTORY_LIMIT) xs"

definition ph_restore :: "'p list \<times> 'p list \<Rightarrow> 'p plan_history \<Rightarrow> 'p plan_history" where
  "ph_restore snapshot h =
     h\<lparr>ph_undo := last_limit (fst snapshot), ph_redo := last_limit (snd snapshot)\<rparr>"

section \<open>Histories\<close>

text \<open>A command on a Data Block, or a transaction of such commands that is rolled back: the Data Block is
  loaded again with the committed plan, and its stacks are restored from the snapshot taken before
  (\<open>_restore_slot\<close> in \<^verbatim>\<open>services/workspace.py\<close>).\<close>

datatype 'p plan_command = SetData 'p | UndoData | RedoData | RollBack "'p plan_command list"

fun ph_exec :: "'p plan_command \<Rightarrow> 'p plan_history \<Rightarrow> 'p plan_history" where
  "ph_exec (SetData p) h = ph_set_data p h"
| "ph_exec UndoData h = snd (ph_undo_data h)"
| "ph_exec RedoData h = snd (ph_redo_data h)"
| "ph_exec (RollBack cs) h =
     ph_restore (ph_snapshot h) (ph_init (ph_data h))"

definition ph_ok :: "'p plan_history \<Rightarrow> bool" where
  "ph_ok h \<longleftrightarrow> length (ph_undo h) + length (ph_redo h) \<le> PLAN_HISTORY_LIMIT"

lemma length_append_bounded: "length (append_bounded s p) = min (Suc (length s)) (max 50 (length s))"
  by (auto simp: append_bounded_def PLAN_HISTORY_LIMIT_def Let_def min_def)

lemma append_bounded_fits: "length s < 50 \<Longrightarrow> append_bounded s p = s @ [p]"
  by (simp add: append_bounded_def PLAN_HISTORY_LIMIT_def)

lemma last_limit_fits: "length s \<le> 50 \<Longrightarrow> last_limit s = s"
  by (simp add: last_limit_def PLAN_HISTORY_LIMIT_def)

lemma ph_ok_set: "ph_ok h \<Longrightarrow> ph_ok (ph_set_data p h)"
  by (auto simp: ph_ok_def ph_set_data_def length_append_bounded PLAN_HISTORY_LIMIT_def)

lemma ph_undo_shift:
  assumes "ph_ok h" "ph_undo h \<noteq> []"
  shows "ph_undo_data h = (True, \<lparr>ph_data = last (ph_undo h), ph_undo = butlast (ph_undo h),
      ph_redo = ph_redo h @ [ph_data h]\<rparr>)"
proof -
  have "length (ph_redo h) < 50"
    using assms by (cases "ph_undo h") (auto simp: ph_ok_def PLAN_HISTORY_LIMIT_def)
  then show ?thesis using assms(2) by (simp add: ph_undo_data_def append_bounded_fits)
qed

lemma ph_redo_shift:
  assumes "ph_ok h" "ph_redo h \<noteq> []"
  shows "ph_redo_data h = (True, \<lparr>ph_data = last (ph_redo h), ph_undo = ph_undo h @ [ph_data h],
      ph_redo = butlast (ph_redo h)\<rparr>)"
proof -
  have "length (ph_undo h) < 50"
    using assms by (cases "ph_redo h") (auto simp: ph_ok_def PLAN_HISTORY_LIMIT_def)
  then show ?thesis using assms(2) by (simp add: ph_redo_data_def append_bounded_fits)
qed

lemma ph_ok_undo: "ph_ok h \<Longrightarrow> ph_ok (snd (ph_undo_data h))"
  by (cases "ph_undo h = []")
    (simp add: ph_undo_data_def, auto simp: ph_undo_shift ph_ok_def neq_Nil_conv)

lemma ph_ok_redo: "ph_ok h \<Longrightarrow> ph_ok (snd (ph_redo_data h))"
  by (cases "ph_redo h = []")
    (simp add: ph_redo_data_def, auto simp: ph_redo_shift ph_ok_def neq_Nil_conv)

lemma ph_restore_snapshot:
  "ph_ok h \<Longrightarrow> ph_restore (ph_snapshot h) k = \<lparr>ph_data = ph_data k, ph_undo = ph_undo h, ph_redo = ph_redo h\<rparr>"
  by (auto simp: ph_ok_def ph_restore_def ph_snapshot_def last_limit_fits PLAN_HISTORY_LIMIT_def)

lemma ph_roll_back: "ph_ok h \<Longrightarrow> ph_exec (RollBack cs) h = h"
  by (simp add: ph_restore_snapshot ph_init_def)

lemma ph_ok_exec: "ph_ok h \<Longrightarrow> ph_ok (ph_exec c h)"
proof (cases c)
  case (RollBack cs)
  assume "ph_ok h"
  with RollBack show ?thesis by (simp add: ph_roll_back del: ph_exec.simps)
qed (simp_all add: ph_ok_set ph_ok_undo ph_ok_redo)

lemma ph_ok_run: "ph_ok h \<Longrightarrow> ph_ok (fold ph_exec cs h)"
  by (induction cs arbitrary: h) (simp_all add: ph_ok_exec)

lemma ph_ok_init: "ph_ok (ph_init p)"
  by (simp add: ph_ok_def ph_init_def)

section \<open>Properties\<close>

text \<open>C26: Undo and Redo are inverse to each other on every history a Data Block can have. The two stacks
  together never hold more than 50 plans, so moving a plan between them never drops one; and rolling a
  transaction back restores data and both stacks exactly.\<close>

theorem plan_history_inverse:
  assumes "h = fold ph_exec cs (ph_init p)"
  shows "length (ph_undo h) + length (ph_redo h) \<le> 50 \<and>
    (ph_can_undo h \<longrightarrow> ph_redo_data (snd (ph_undo_data h)) = (True, h)) \<and>
    (ph_can_redo h \<longrightarrow> ph_undo_data (snd (ph_redo_data h)) = (True, h)) \<and>
    ph_exec (RollBack commands) h = h"
proof -
  have ok: "ph_ok h" unfolding assms by (rule ph_ok_run [OF ph_ok_init])
  have "ph_redo_data (snd (ph_undo_data h)) = (True, h)" if "ph_undo h \<noteq> []"
    using ph_ok_undo [OF ok] that by (simp add: ph_undo_shift [OF ok] ph_redo_shift)
  moreover have "ph_undo_data (snd (ph_redo_data h)) = (True, h)" if "ph_redo h \<noteq> []"
    using ph_ok_redo [OF ok] that by (simp add: ph_redo_shift [OF ok] ph_undo_shift)
  ultimately show ?thesis
    using ok ph_roll_back [OF ok] by (simp add: ph_ok_def PLAN_HISTORY_LIMIT_def ph_can_undo_def ph_can_redo_def)
qed

theorem plan_history_inverse_witness:
  "ph_redo_data (snd (ph_undo_data (fold ph_exec [SetData 2, SetData 3] (ph_init (1::nat))))) =
     (True, fold ph_exec [SetData 2, SetData 3] (ph_init 1))"
proof -
  have "ph_can_undo (fold ph_exec [SetData 2, SetData 3] (ph_init (1::nat)))" by code_simp
  with plan_history_inverse [OF refl, of "[SetData 2, SetData 3]" "1::nat"] show ?thesis by blast
qed

end
