(* ===== verification/WorkspaceAnalyses.thy ===== *)
theory WorkspaceAnalyses
  imports AnalysisRecords
begin

text \<open>
  The Tabs and Analyses of a Workspace: \<^verbatim>\<open>domain/workspace/tab.py\<close> and the second half of the class
  \<open>Workspace\<close> in \<^verbatim>\<open>domain/workspace/graph.py\<close>.

  \<open>analysis_board\<close> is the part of the aggregate these methods touch: the dictionaries \<open>tabs\<close>,
  \<open>analyses\<close> and \<open>_corrupt_analysis_records\<close>, keyed by the canonical string of a UUID. A method that
  raises after it has changed the aggregate returns the changed aggregate with the error.
\<close>

section \<open>Tabs\<close>

datatype analysis_kind = KAnnotation | KConcordance | KQuotation | KSequential | KTokenFrequency
  | KTopicModeling

record tab =
  tab_id :: uuid
  tab_kind :: analysis_kind
  tab_name :: string
  tab_analysis_ids :: "uuid list"
  tab_correction_columns :: "(uuid, string) dict"
  tab_stop_words :: "string list"
  tab_words_per_topic :: "int option"
  tab_created_at :: timestamp
  tab_modified_at :: timestamp
  tab_revision :: int

definition tab_name_ok :: "string \<Rightarrow> bool" where
  "tab_name_ok name \<longleftrightarrow> text_max 500 name \<and> \<not> (\<exists>c \<in> set name. py_control c)"

definition tab_coerce :: "tab \<Rightarrow> tab" where
  "tab_coerce t = t\<lparr>tab_name := py_strip (tab_name t),
     tab_correction_columns := strip_values (tab_correction_columns t)\<rparr>"

definition tab_checks :: "tab \<Rightarrow> (bool \<times> error) list" where
  "tab_checks t =
     [field_check (tab_name_ok (tab_name t) \<and>
        (\<forall>name \<in> set (dict_values (tab_correction_columns t)). tab_name_ok name) \<and>
        option_ok (\<lambda>n. 3 \<le> n \<and> n \<le> 100) (tab_words_per_topic t) \<and> 1 \<le> tab_revision t),
      (tab_stop_words t \<noteq> [] \<and> tab_kind t \<notin> {KTokenFrequency, KTopicModeling},
       ValueError ''Stop words belong only to Token Frequency and Topic Modelling Tabs''),
      (tab_kind t = KTopicModeling \<and> tab_words_per_topic t = None,
       ValueError ''Topic Modelling Tabs require a word display count''),
      (tab_kind t \<noteq> KTopicModeling \<and> tab_words_per_topic t \<noteq> None,
       ValueError ''Words per topic belongs only to Topic Modelling Tabs'')]"

definition tab_create :: "uuid \<Rightarrow> analysis_kind \<Rightarrow> string \<Rightarrow> timestamp \<Rightarrow> tab result" where
  "tab_create i kind name timestamp =
     validate tab_coerce tab_checks
       \<lparr>tab_id = i, tab_kind = kind, tab_name = name, tab_analysis_ids = [],
        tab_correction_columns = [], tab_stop_words = [],
        tab_words_per_topic = (if kind = KTopicModeling then Some 15 else None),
        tab_created_at = timestamp, tab_modified_at = timestamp, tab_revision = 1\<rparr>"

section \<open>State\<close>

record analysis_board =
  ab_tabs :: "(uuid, tab) dict"
  ab_analyses :: "(uuid, analysis_record) dict"
  ab_corrupt :: "(uuid, string) dict"

definition ab_init :: analysis_board where
  "ab_init = \<lparr>ab_tabs = [], ab_analyses = [], ab_corrupt = []\<rparr>"

section \<open>Operations on Tabs\<close>

definition claimed_ids :: "analysis_board \<Rightarrow> uuid list" where
  "claimed_ids b = concat (map tab_analysis_ids (dict_values (ab_tabs b)))"

definition add_tab :: "tab \<Rightarrow> analysis_board \<Rightarrow> tab result \<times> analysis_board" where
  "add_tab t b =
     (case raise_first
        [(tab_id t \<in> set (dict_keys (ab_tabs b)), ValueError ''Workspace already contains tab''),
         (has_duplicates (tab_analysis_ids t), ValueError ''A Tab cannot contain duplicate Analysis IDs''),
         (set (claimed_ids b) \<inter> set (tab_analysis_ids t) \<noteq> {},
          ValueError ''An Analysis may belong to only one Tab'')] t of
        Inl e \<Rightarrow> (Inl e, b)
      | Inr t \<Rightarrow> (Inr t, b\<lparr>ab_tabs := AList.update (tab_id t) t (ab_tabs b)\<rparr>))"

definition remove_tab :: "uuid \<Rightarrow> analysis_board \<Rightarrow> tab option \<times> analysis_board" where
  "remove_tab i b = (map_of (ab_tabs b) i, b\<lparr>ab_tabs := AList.delete i (ab_tabs b)\<rparr>)"

section \<open>Operations on Analyses\<close>

definition known_analysis :: "uuid \<Rightarrow> analysis_board \<Rightarrow> bool" where
  "known_analysis i b \<longleftrightarrow> i \<in> set (dict_keys (ab_analyses b)) \<or> i \<in> set (dict_keys (ab_corrupt b))"

definition link_analysis :: "uuid \<Rightarrow> uuid \<Rightarrow> analysis_board \<Rightarrow> analysis_board" where
  "link_analysis tid i b =
     (case map_of (ab_tabs b) tid of None \<Rightarrow> b
      | Some t \<Rightarrow> if i \<in> set (tab_analysis_ids t) then b
          else b\<lparr>ab_tabs := AList.update tid
            (t\<lparr>tab_analysis_ids := tab_analysis_ids t @ [i]\<rparr>) (ab_tabs b)\<rparr>)"

text \<open>The check of a Sub-Analysis' parent: it must be registered, and in the same Tab.\<close>

definition parent_invalid :: "analysis_record \<Rightarrow> analysis_board \<Rightarrow> bool" where
  "parent_invalid analysis b \<longleftrightarrow>
     (case rec_parent_analysis_id analysis of None \<Rightarrow> False
      | Some p \<Rightarrow> (case map_of (ab_analyses b) p of None \<Rightarrow> True
          | Some parent \<Rightarrow> rec_tab_id parent \<noteq> rec_tab_id analysis))"

definition add_analysis ::
    "analysis_record \<Rightarrow> bool \<Rightarrow> analysis_board \<Rightarrow> analysis_record result \<times> analysis_board" where
  "add_analysis analysis link_to_tab b =
     (let i = rec_id analysis;
          found_tab = map_of (ab_tabs b) (rec_tab_id analysis)
      in if known_analysis i b then (Inl (ValueError ''Workspace already contains analysis''), b)
         else if parent_invalid analysis b then
           (Inl (ValueError ''A Sub-Analysis requires a parent in the same Tab''), b)
         else
           (let b1 = b\<lparr>ab_analyses := AList.update i analysis (ab_analyses b)\<rparr>
            in if link_to_tab \<and> found_tab = None then
                 (Inl (ValueError ''A live Analysis requires an existing Tab''), b1)
               else (Inr analysis, if link_to_tab then link_analysis (rec_tab_id analysis) i b1 else b1)))"

text \<open>\<open>canonical\<close> is \<open>str(uuid.UUID(.))\<close>, of the library.\<close>

definition add_corrupt_analysis ::
    "(string \<Rightarrow> uuid result) \<Rightarrow> string \<Rightarrow> string \<Rightarrow> analysis_board \<Rightarrow> unit result \<times> analysis_board" where
  "add_corrupt_analysis canonical i content b =
     (case canonical i of Inl e \<Rightarrow> (Inl e, b)
      | Inr canonical_id \<Rightarrow>
          if canonical_id \<noteq> i then
            (Inl (ValueError ''Corrupt Analysis storage identity is invalid''), b)
          else if known_analysis i b then
            (Inl (ValueError ''Workspace already contains analysis''), b)
          else (Inr (), b\<lparr>ab_corrupt := AList.update i content (ab_corrupt b)\<rparr>))"

definition unlink_analysis_id :: "uuid \<Rightarrow> analysis_board \<Rightarrow> analysis_board" where
  "unlink_analysis_id i b =
     b\<lparr>ab_tabs := map (\<lambda>(k, t). (k, t\<lparr>tab_analysis_ids := remove1 i (tab_analysis_ids t)\<rparr>)) (ab_tabs b)\<rparr>"

definition analysis_children :: "uuid \<Rightarrow> analysis_board \<Rightarrow> analysis_record list" where
  "analysis_children i b =
     filter (\<lambda>a. rec_parent_analysis_id a = Some i) (dict_values (ab_analyses b))"

text \<open>The loop of \<open>analysis_descendants\<close> may run for ever if parents form a cycle: \<open>None\<close> is that.\<close>

partial_function (option) descend ::
    "analysis_board \<Rightarrow> analysis_record list \<Rightarrow> analysis_record list \<Rightarrow> analysis_record list option" where
  "descend b pending descendants =
     (case pending of [] \<Rightarrow> Some descendants
      | child # rest \<Rightarrow> descend b (analysis_children (rec_id child) b @ rest) (descendants @ [child]))"

definition analysis_descendants :: "uuid \<Rightarrow> analysis_board \<Rightarrow> analysis_record list option" where
  "analysis_descendants i b = descend b (analysis_children i b) []"

datatype removed = RemovedAnalysis analysis_record | RemovedCorrupt string | RemovedNothing

definition drop_analysis :: "uuid \<Rightarrow> analysis_board \<Rightarrow> analysis_board" where
  "drop_analysis i b = unlink_analysis_id i (b\<lparr>ab_analyses := AList.delete i (ab_analyses b)\<rparr>)"

definition remove_analysis :: "uuid \<Rightarrow> analysis_board \<Rightarrow> (removed \<times> analysis_board) option" where
  "remove_analysis i b =
     (case map_of (ab_analyses b) i of
        None \<Rightarrow>
          (case map_of (ab_corrupt b) i of None \<Rightarrow> Some (RemovedNothing, b)
           | Some content \<Rightarrow> Some (RemovedCorrupt content,
               unlink_analysis_id i (b\<lparr>ab_corrupt := AList.delete i (ab_corrupt b)\<rparr>)))
      | Some analysis \<Rightarrow>
          map_option (\<lambda>descendants. (RemovedAnalysis analysis,
            drop_analysis i (fold (\<lambda>a. drop_analysis (rec_id a)) (rev descendants) b)))
            (analysis_descendants i b))"

definition replace_analysis ::
    "analysis_record \<Rightarrow> analysis_board \<Rightarrow> analysis_record result \<times> analysis_board" where
  "replace_analysis analysis b =
     (case map_of (ab_analyses b) (rec_id analysis) of
        None \<Rightarrow> (Inl (ValueError ''Analysis does not exist''), b)
      | Some previous \<Rightarrow>
          if rec_parent_analysis_id previous \<noteq> rec_parent_analysis_id analysis then
            (Inl (ValueError ''Analysis ownership cannot change''), b)
          else if rec_request previous \<noteq> rec_request analysis then
            (Inl (ValueError ''Analysis request cannot change''), b)
          else (Inr analysis,
            b\<lparr>ab_analyses := AList.update (rec_id analysis) analysis (ab_analyses b)\<rparr>))"

definition live_analysis_ids :: "analysis_board \<Rightarrow> uuid list" where
  "live_analysis_ids b = claimed_ids b"

fun analysis_tab_id_in :: "(uuid, tab) dict \<Rightarrow> uuid \<Rightarrow> uuid option" where
  "analysis_tab_id_in [] i = None"
| "analysis_tab_id_in ((tid, t) # ts) i =
     (if i \<in> set (tab_analysis_ids t) then Some tid else analysis_tab_id_in ts i)"

definition reserved_node_ids :: "analysis_board \<Rightarrow> uuid list" where
  "reserved_node_ids b = concat (map (\<lambda>a. if lc_state a \<in> {QUEUED, RUNNING}
     then analysis_input_ids (rec_request a) else []) (dict_values (ab_analyses b)))"

section \<open>Invariant\<close>

text \<open>Every parent was registered before its Sub-Analyses: it stands before them in the dictionary.\<close>

definition parents_first :: "(uuid, analysis_record) dict \<Rightarrow> bool" where
  "parents_first d \<longleftrightarrow> (\<forall>xs k a ys p. d = xs @ (k, a) # ys \<longrightarrow> rec_parent_analysis_id a = Some p \<longrightarrow>
     p \<in> fst ` set xs)"

definition ab_inv :: "analysis_board \<Rightarrow> bool" where
  "ab_inv b \<longleftrightarrow> wf_dict (ab_tabs b) \<and> wf_dict (ab_analyses b) \<and> wf_dict (ab_corrupt b) \<and>
     (\<forall>(k, t) \<in> set (ab_tabs b). distinct (tab_analysis_ids t)) \<and>
     (\<forall>(k, a) \<in> set (ab_analyses b). rec_id a = k) \<and>
     fst ` set (ab_analyses b) \<inter> fst ` set (ab_corrupt b) = {} \<and> parents_first (ab_analyses b)"

lemma ab_invD:
  assumes "ab_inv b"
  shows "wf_dict (ab_tabs b)" "wf_dict (ab_analyses b)" "wf_dict (ab_corrupt b)"
    "(k, t) \<in> set (ab_tabs b) \<Longrightarrow> distinct (tab_analysis_ids t)"
    "(k, a) \<in> set (ab_analyses b) \<Longrightarrow> rec_id a = k"
    "fst ` set (ab_analyses b) \<inter> fst ` set (ab_corrupt b) = {}" "parents_first (ab_analyses b)"
  using assms by (auto simp: ab_inv_def)

lemma parents_first_append:
  assumes "parents_first d" "\<And>p. rec_parent_analysis_id a = Some p \<Longrightarrow> p \<in> fst ` set d"
  shows "parents_first (d @ [(k, a)])"
  unfolding parents_first_def
proof (intro allI impI)
  fix xs j x ys p
  assume e: "d @ [(k, a)] = xs @ (j, x) # ys" and p: "rec_parent_analysis_id x = Some p"
  show "p \<in> fst ` set xs"
  proof (cases ys rule: rev_cases)
    case Nil
    then show ?thesis using e p assms(2) by auto
  next
    case (snoc zs z)
    then have "d = xs @ (j, x) # zs" using e by auto
    then show ?thesis using assms(1) p unfolding parents_first_def by blast
  qed
qed

lemma parents_first_filter:
  assumes "parents_first d" "\<And>k a p. (k, a) \<in> set d \<Longrightarrow> k \<notin> S \<Longrightarrow>
      rec_parent_analysis_id a = Some p \<Longrightarrow> p \<notin> S"
  shows "parents_first (filter (\<lambda>kv. fst kv \<notin> S) d)"
  using assms
proof (induction d rule: rev_induct)
  case Nil
  then show ?case by (simp add: parents_first_def)
next
  case (snoc x d)
  obtain k a where x: "x = (k, a)" by (cases x)
  have pf: "parents_first d"
    using snoc.prems(1) unfolding parents_first_def by (metis append.assoc append_Cons)
  have last: "p \<in> fst ` set d" if "rec_parent_analysis_id a = Some p" for p
    using snoc.prems(1) that unfolding parents_first_def x by blast
  have ih: "parents_first (filter (\<lambda>kv. fst kv \<notin> S) d)"
    using snoc.prems(2) by (intro snoc.IH pf) auto
  show ?case
  proof (cases "k \<in> S")
    case False
    have "p \<in> fst ` set (filter (\<lambda>kv. fst kv \<notin> S) d)" if "rec_parent_analysis_id a = Some p" for p
    proof -
      have "p \<notin> S" using snoc.prems(2) [of k a p] False that by (simp add: x)
      with last [OF that] show ?thesis by force
    qed
    with parents_first_append [OF ih] False show ?thesis by (simp add: x)
  qed (simp add: x ih)
qed

lemma parents_first_update:
  assumes "parents_first d" "wf_dict d" "map_of d k = Some a"
    "rec_parent_analysis_id a' = rec_parent_analysis_id a"
  shows "parents_first (AList.update k a' d)"
  using assms
proof (induction d rule: rev_induct)
  case (snoc x d)
  obtain j y where x: "x = (j, y)" by (cases x)
  have pf: "parents_first d"
    using snoc.prems(1) unfolding parents_first_def by (metis append.assoc append_Cons)
  have last: "p \<in> fst ` set d" if "rec_parent_analysis_id y = Some p" for p
    using snoc.prems(1) that unfolding parents_first_def x by blast
  show ?case
  proof (cases "k \<in> fst ` set d")
    case True
    then have "j \<noteq> k" using snoc.prems(2) by (auto simp: x)
    then have u: "AList.update k a' (d @ [x]) = AList.update k a' d @ [x]"
      using True by (induction d) (auto simp: x)
    have "map_of d k = Some a"
      using snoc.prems(2,3) True by (auto simp: x map_add_def split: option.splits if_splits)
    then have "parents_first (AList.update k a' d)"
      using snoc.prems(2,4) pf by (intro snoc.IH) auto
    then show ?thesis unfolding u unfolding x using last by (intro parents_first_append) auto
  next
    case False
    then have "map_of d k = None" by (simp add: map_of_None_iff_keys)
    then have "j = k" "y = a" using snoc.prems(3) by (auto simp: x map_add_def split: option.splits if_splits)
    then have u: "AList.update k a' (d @ [x]) = d @ [(k, a')]"
      using False by (induction d) (auto simp: x)
    show ?thesis unfolding u using last snoc.prems(4) \<open>y = a\<close> by (intro parents_first_append pf) auto
  qed
qed simp

section \<open>Descendants\<close>

definition child_rel :: "analysis_board \<Rightarrow> (analysis_record \<times> analysis_record) set" where
  "child_rel b = {(r, a). a \<in> snd ` set (ab_analyses b) \<and> rec_parent_analysis_id a = Some (rec_id r)}"

definition position :: "analysis_board \<Rightarrow> analysis_record \<Rightarrow> nat" where
  "position b a = length (takeWhile (\<lambda>k. k \<noteq> rec_id a) (dict_keys (ab_analyses b)))"

lemma set_analysis_children:
  "set (analysis_children (rec_id r) b) = {a. (r, a) \<in> child_rel b}"
  by (auto simp: analysis_children_def child_rel_def)

lemma length_takeWhile_lt: "x \<in> set xs \<Longrightarrow> \<not> P x \<Longrightarrow> length (takeWhile P xs) < length xs"
  by (induction xs) auto

lemma child_later:
  assumes "ab_inv b" "(r, a) \<in> child_rel b"
  shows "position b r < position b a" "position b a < length (ab_analyses b)"
proof -
  obtain k where "(k, a) \<in> set (ab_analyses b)" using assms(2) by (auto simp: child_rel_def)
  then obtain xs ys where d: "ab_analyses b = xs @ (rec_id a, a) # ys"
    using ab_invD(5) [OF assms(1)] by (metis split_list)
  have p: "rec_id r \<in> fst ` set xs"
    using ab_invD(7) [OF assms(1)] assms(2) d unfolding parents_first_def child_rel_def by blast
  have "rec_id a \<notin> fst ` set xs" using ab_invD(2) [OF assms(1)] by (simp add: d)
  then have "takeWhile (\<lambda>k. k \<noteq> rec_id a) (map fst xs @ rec_id a # map fst ys) = map fst xs"
    by (subst takeWhile_append2) (force, simp)
  then have a: "position b a = length xs" by (simp add: position_def d)
  then show "position b a < length (ab_analyses b)" by (simp add: d)
  have "takeWhile (\<lambda>k. k \<noteq> rec_id r) (map fst xs @ rec_id a # map fst ys) =
      takeWhile (\<lambda>k. k \<noteq> rec_id r) (map fst xs)"
    using p by (intro takeWhile_append1 [of "rec_id r"]) auto
  moreover have "length (takeWhile (\<lambda>k. k \<noteq> rec_id r) (map fst xs)) < length (map fst xs)"
    using p by (intro length_takeWhile_lt [of "rec_id r"]) auto
  ultimately show "position b r < position b a" unfolding a by (simp add: position_def d)
qed

lemma descend_total:
  assumes "ab_inv b"
  shows "\<exists>R. (\<forall>ds. descend b pending ds = Some (ds @ R)) \<and>
    set R = {a. \<exists>r \<in> set pending. (r, a) \<in> (child_rel b)\<^sup>*}"
proof (induction pending rule: wf_induct [OF wf_inv_image [OF wf_mult [OF wf_less_than],
      where f = "\<lambda>xs. mset (map (\<lambda>a. length (ab_analyses b) - position b a) xs)"]])
  case (1 pending)
  let ?w = "\<lambda>a. length (ab_analyses b) - position b a"
  show ?case
  proof (cases pending)
    case Nil
    then show ?thesis by (intro exI [of _ "[]"]) (simp add: descend.simps)
  next
    case (Cons c rest)
    let ?ch = "analysis_children (rec_id c) b"
    have "(mset (map ?w (?ch @ rest)), mset (map ?w pending)) \<in> mult less_than"
    proof -
      have "\<forall>k \<in> set_mset (mset (map ?w ?ch)). \<exists>j \<in> set_mset {#?w c#}. (k, j) \<in> less_than"
        using child_later [OF assms] by (fastforce simp: set_analysis_children)
      from one_step_implies_mult [OF _ this, of "mset (map ?w rest)"] show ?thesis
        by (simp add: Cons union_commute)
    qed
    then have "(?ch @ rest, pending) \<in>
        inv_image (mult less_than) (\<lambda>xs. mset (map (\<lambda>a. length (ab_analyses b) - position b a) xs))"
      by (simp add: inv_image_def)
    from 1 [rule_format, OF this] obtain R where R: "\<And>ds. descend b (?ch @ rest) ds = Some (ds @ R)"
      "set R = {a. \<exists>r \<in> set (?ch @ rest). (r, a) \<in> (child_rel b)\<^sup>*}"
      by blast
    have "descend b pending ds = Some (ds @ c # R)" for ds
      unfolding Cons by (subst descend.simps) (simp add: R(1))
    moreover have "set (c # R) = {a. \<exists>r \<in> set pending. (r, a) \<in> (child_rel b)\<^sup>*}"
      unfolding Cons using R(2) set_analysis_children [of c b]
      by (auto intro: converse_rtrancl_into_rtrancl elim: converse_rtranclE)
    ultimately show ?thesis by blast
  qed
qed

lemma analysis_descendants_total:
  assumes "ab_inv b" "map_of (ab_analyses b) i = Some r"
  obtains ds where "analysis_descendants i b = Some ds" "set ds = {a. (r, a) \<in> (child_rel b)\<^sup>+}"
proof -
  have r: "rec_id r = i" using ab_invD(5) [OF assms(1)] map_of_SomeD [OF assms(2)] by blast
  obtain R where R: "\<And>ds. descend b (analysis_children i b) ds = Some (ds @ R)"
    "set R = {a. \<exists>c \<in> set (analysis_children i b). (c, a) \<in> (child_rel b)\<^sup>*}"
    using descend_total [OF assms(1)] by blast
  have "set R = {a. (r, a) \<in> (child_rel b)\<^sup>+}"
    unfolding R(2) set_analysis_children [of r b, unfolded r]
    by (auto simp: trancl_unfold_left)
  with R(1) show thesis by (intro that [of R]) (simp_all add: analysis_descendants_def)
qed

section \<open>Each operation keeps the invariant\<close>

lemma ab_inv_init: "ab_inv ab_init"
  by (simp add: ab_inv_def ab_init_def parents_first_def)

lemma set_update_dict: "set (AList.update k v d) \<subseteq> insert (k, v) (set d)"
  by (induction d) auto

lemma ab_inv_add_tab:
  assumes "ab_inv b"
  shows "ab_inv (snd (add_tab t b))"
proof (cases "fst (add_tab t b)")
  case (Inr t')
  then have "distinct (tab_analysis_ids t)"
    and e: "snd (add_tab t b) = b\<lparr>ab_tabs := AList.update (tab_id t) t (ab_tabs b)\<rparr>"
    by (auto simp: add_tab_def split: sum.splits if_splits)
  moreover have "distinct (tab_analysis_ids u)"
    if "(k, u) \<in> set (AList.update (tab_id t) t (ab_tabs b))" for k u
    using that set_update_dict [of "tab_id t" t "ab_tabs b"] ab_invD(4) [OF assms]
      \<open>distinct (tab_analysis_ids t)\<close> by auto
  ultimately show ?thesis using assms by (auto simp: ab_inv_def)
qed (use assms in \<open>auto simp: add_tab_def split: sum.splits if_splits\<close>)

lemma set_delete_dict: "set (AList.delete k d) \<subseteq> set d"
  by (auto simp: AList.delete_eq)

lemma ab_inv_remove_tab: "ab_inv b \<Longrightarrow> ab_inv (snd (remove_tab i b))"
  using set_delete_dict [of i "ab_tabs b"] by (auto simp: ab_inv_def remove_tab_def)

lemma ab_inv_link:
  assumes "ab_inv b"
  shows "ab_inv (link_analysis tid i b)"
proof -
  have "distinct (tab_analysis_ids t)" if "map_of (ab_tabs b) tid = Some t" for t
    using ab_invD(4) [OF assms] map_of_SomeD [OF that] by blast
  then have "\<forall>(k, u) \<in> set (AList.update tid (t\<lparr>tab_analysis_ids := tab_analysis_ids t @ [i]\<rparr>) (ab_tabs b)).
      distinct (tab_analysis_ids u)"
    if "map_of (ab_tabs b) tid = Some t" "i \<notin> set (tab_analysis_ids t)" for t
    using that set_update_dict [of tid "t\<lparr>tab_analysis_ids := tab_analysis_ids t @ [i]\<rparr>" "ab_tabs b"]
      ab_invD(4) [OF assms] by fastforce
  then show ?thesis using assms by (auto simp: link_analysis_def ab_inv_def split: option.splits)
qed

lemma ab_inv_insert_analysis:
  assumes "ab_inv b" "\<not> known_analysis (rec_id a) b"
    "\<And>p. rec_parent_analysis_id a = Some p \<Longrightarrow> p \<in> fst ` set (ab_analyses b)"
  shows "ab_inv (b\<lparr>ab_analyses := AList.update (rec_id a) a (ab_analyses b)\<rparr>)"
  using assms parents_first_append [OF ab_invD(7) [OF assms(1)] assms(3)]
  by (auto simp: ab_inv_def known_analysis_def update_absent)

lemma add_analysis_cases:
  obtains (rejected) e where "add_analysis a l b = (Inl e, b)"
    | (inserted) r b1 where "\<not> known_analysis (rec_id a) b"
      "\<And>p. rec_parent_analysis_id a = Some p \<Longrightarrow> p \<in> fst ` set (ab_analyses b)"
      "b1 = b\<lparr>ab_analyses := AList.update (rec_id a) a (ab_analyses b)\<rparr>"
      "add_analysis a l b = (r, b1) \<or> add_analysis a l b = (r, link_analysis (rec_tab_id a) (rec_id a) b1)"
proof (cases "known_analysis (rec_id a) b \<or> parent_invalid a b")
  case True
  then have "\<exists>e. add_analysis a l b = (Inl e, b)"
    by (cases "known_analysis (rec_id a) b") (simp_all add: add_analysis_def Let_def)
  then show thesis using that(1) by blast
next
  case False
  then have "p \<in> fst ` set (ab_analyses b)" if "rec_parent_analysis_id a = Some p" for p
    using that by (auto simp: parent_invalid_def dict_keys_dom split: option.splits)
  moreover have "\<exists>r. let b1 = b\<lparr>ab_analyses := AList.update (rec_id a) a (ab_analyses b)\<rparr> in
      add_analysis a l b = (r, b1) \<or> add_analysis a l b = (r, link_analysis (rec_tab_id a) (rec_id a) b1)"
    using False by (auto simp: add_analysis_def Let_def)
  ultimately show thesis using False that(2) unfolding Let_def by blast
qed

lemma ab_inv_add_analysis: "ab_inv b \<Longrightarrow> ab_inv (snd (add_analysis a l b))"
  by (cases rule: add_analysis_cases [of a l b]) (auto intro!: ab_inv_link ab_inv_insert_analysis)

lemma ab_inv_add_corrupt: "ab_inv b \<Longrightarrow> ab_inv (snd (add_corrupt_analysis canonical i content b))"
  by (auto simp: add_corrupt_analysis_def ab_inv_def known_analysis_def split: sum.splits)

lemma ab_inv_replace:
  assumes "ab_inv b"
  shows "ab_inv (snd (replace_analysis a b))"
proof (cases "fst (replace_analysis a b)")
  case (Inr a')
  then obtain previous where m: "map_of (ab_analyses b) (rec_id a) = Some previous"
    "rec_parent_analysis_id previous = rec_parent_analysis_id a"
    and e: "snd (replace_analysis a b) = b\<lparr>ab_analyses := AList.update (rec_id a) a (ab_analyses b)\<rparr>"
    by (auto simp: replace_analysis_def split: option.splits if_splits)
  have "parents_first (AList.update (rec_id a) a (ab_analyses b))"
    using parents_first_update [OF ab_invD(7,2) [OF assms] m(1)] m(2) by simp
  moreover have "fst ` set (AList.update (rec_id a) a (ab_analyses b)) = fst ` set (ab_analyses b)"
    using m(1) map_of_SomeD [OF m(1)] by force
  moreover have "\<forall>(k, x) \<in> set (AList.update (rec_id a) a (ab_analyses b)). rec_id x = k"
    using set_update_dict [of "rec_id a" a "ab_analyses b"] ab_invD(5) [OF assms] by auto
  ultimately show ?thesis using assms unfolding e by (simp add: ab_inv_def)
qed (use assms in \<open>auto simp: replace_analysis_def split: option.splits if_splits\<close>)

lemma fold_drop_analysis:
  "ab_analyses (fold drop_analysis ids b) = filter (\<lambda>kv. fst kv \<notin> set ids) (ab_analyses b) \<and>
   ab_corrupt (fold drop_analysis ids b) = ab_corrupt b \<and>
   ab_tabs (fold drop_analysis ids b) =
     map (\<lambda>(k, t). (k, t\<lparr>tab_analysis_ids := fold remove1 ids (tab_analysis_ids t)\<rparr>)) (ab_tabs b)"
proof (induction ids arbitrary: b)
  case (Cons i ids)
  then show ?case
    by (auto simp: drop_analysis_def unlink_analysis_id_def filter_keys_delete [symmetric] comp_def
        case_prod_unfold intro!: filter_cong)
qed (auto simp: case_prod_unfold)

lemma fold_remove1_distinct:
  "distinct xs \<Longrightarrow> fold remove1 ids xs = filter (\<lambda>x. x \<notin> set ids) xs"
proof (induction ids arbitrary: xs)
  case (Cons i ids)
  have "remove1 i xs = filter (\<lambda>x. x \<noteq> i) xs"
    using Cons.prems by (simp add: distinct_remove1_removeAll removeAll_filter_not_eq eq_commute)
  then show ?case using Cons by (auto intro: filter_cong)
qed simp

text \<open>\<open>remove_analysis\<close> in closed form.\<close>

definition without_analyses :: "uuid set \<Rightarrow> analysis_board \<Rightarrow> analysis_board" where
  "without_analyses S b = b\<lparr>ab_analyses := filter (\<lambda>kv. fst kv \<notin> S) (ab_analyses b),
     ab_tabs := map (\<lambda>(k, t). (k, t\<lparr>tab_analysis_ids :=
       filter (\<lambda>i. i \<notin> S) (tab_analysis_ids t)\<rparr>)) (ab_tabs b)\<rparr>"

definition analysis_family :: "analysis_record \<Rightarrow> analysis_board \<Rightarrow> uuid set" where
  "analysis_family r b = rec_id ` {a. (r, a) \<in> (child_rel b)\<^sup>*}"

lemma remove_analysis_eq:
  assumes "ab_inv b" "map_of (ab_analyses b) i = Some r"
  shows "remove_analysis i b = Some (RemovedAnalysis r, without_analyses (analysis_family r b) b)"
proof -
  have r: "rec_id r = i" using ab_invD(5) [OF assms(1)] map_of_SomeD [OF assms(2)] by blast
  obtain ds where ds: "analysis_descendants i b = Some ds" "set ds = {a. (r, a) \<in> (child_rel b)\<^sup>+}"
    by (rule analysis_descendants_total [OF assms])
  let ?ids = "map rec_id (rev ds) @ [i]"
  have S: "set ?ids = analysis_family r b"
    using r by (auto simp: analysis_family_def ds(2) rtrancl_eq_or_trancl)
  have "fold (\<lambda>a. drop_analysis (rec_id a)) (rev ds) b = fold drop_analysis (map rec_id (rev ds)) b"
    by (simp only: fold_map comp_def)
  then have "remove_analysis i b = Some (RemovedAnalysis r, fold drop_analysis ?ids b)"
    by (simp only: remove_analysis_def assms(2) ds(1) option.case option.map fold_append comp_apply
        fold.simps id_apply)
  moreover have "fold drop_analysis ?ids b = without_analyses (analysis_family r b) b"
  proof (rule analysis_board.equality)
    have "fold remove1 ?ids (tab_analysis_ids t) =
        filter (\<lambda>x. x \<notin> analysis_family r b) (tab_analysis_ids t)" if "(k, t) \<in> set (ab_tabs b)" for k t
      using fold_remove1_distinct [OF ab_invD(4) [OF assms(1) that], of ?ids] unfolding S .
    then show "ab_tabs (fold drop_analysis ?ids b) = ab_tabs (without_analyses (analysis_family r b) b)"
      using fold_drop_analysis [of ?ids b] unfolding without_analyses_def by auto
  qed (use fold_drop_analysis [of ?ids b, unfolded S] in \<open>simp_all add: without_analyses_def\<close>)
  ultimately show ?thesis by simp
qed

lemma analysis_family_closed:
  assumes "ab_inv b" "a \<in> snd ` set (ab_analyses b)" "rec_parent_analysis_id a = Some p"
    "p \<in> analysis_family r b"
  shows "rec_id a \<in> analysis_family r b"
proof -
  obtain q where q: "p = rec_id q" "(r, q) \<in> (child_rel b)\<^sup>*" using assms(4) by (auto simp: analysis_family_def)
  then have "(q, a) \<in> child_rel b" using assms(2,3) by (simp add: child_rel_def)
  with q(2) have "(r, a) \<in> (child_rel b)\<^sup>*" by (rule rtrancl_into_rtrancl)
  then show ?thesis by (auto simp: analysis_family_def)
qed

lemma ab_inv_without:
  assumes "ab_inv b"
  shows "ab_inv (without_analyses (analysis_family r b) b)"
proof -
  let ?S = "analysis_family r b"
  have "p \<notin> ?S" if "(k, a) \<in> set (ab_analyses b)" "k \<notin> ?S" "rec_parent_analysis_id a = Some p" for k a p
    using analysis_family_closed [OF assms _ that(3), of r] that(1,2) ab_invD(5) [OF assms that(1)] by force
  then have pf: "parents_first (filter (\<lambda>kv. fst kv \<notin> ?S) (ab_analyses b))"
    by (rule parents_first_filter [OF ab_invD(7) [OF assms]])
  have wf: "wf_dict (filter (\<lambda>kv. fst kv \<notin> ?S) (ab_analyses b))"
    using ab_invD(2) [OF assms] distinct_map_filter by blast
  have "\<forall>(k, t) \<in> set (ab_tabs (without_analyses ?S b)). distinct (tab_analysis_ids t)"
    using ab_invD(4) [OF assms] by (auto simp: without_analyses_def)
  moreover have "wf_dict (ab_tabs (without_analyses ?S b))"
    using ab_invD(1) [OF assms] by (simp add: without_analyses_def comp_def case_prod_unfold)
  ultimately show ?thesis
    using pf wf assms unfolding ab_inv_def by (auto simp: without_analyses_def)
qed

lemma ab_inv_unlink: "ab_inv b \<Longrightarrow> ab_inv (unlink_analysis_id i b)"
  by (auto simp: ab_inv_def unlink_analysis_id_def comp_def case_prod_unfold)

lemma ab_inv_remove_analysis:
  assumes "ab_inv b" "remove_analysis i b = Some (r, b')"
  shows "ab_inv b'"
proof (cases "map_of (ab_analyses b) i")
  case (Some a)
  from remove_analysis_eq [OF assms(1) this] assms(2) ab_inv_without [OF assms(1), of a] show ?thesis by simp
next
  case None
  have "ab_inv (b\<lparr>ab_corrupt := AList.delete i (ab_corrupt b)\<rparr>)"
    using assms(1) by (auto simp: ab_inv_def)
  with None assms show ?thesis
    by (auto simp: remove_analysis_def intro: ab_inv_unlink split: option.splits)
qed

inductive ab_step :: "analysis_board \<Rightarrow> analysis_board \<Rightarrow> bool" where
  add_tab: "ab_step b (snd (add_tab t b))"
| remove_tab: "ab_step b (snd (remove_tab i b))"
| add_analysis: "ab_step b (snd (add_analysis a l b))"
| add_corrupt: "ab_step b (snd (add_corrupt_analysis canonical i content b))"
| remove_analysis: "remove_analysis i b = Some (r, b') \<Longrightarrow> ab_step b b'"
| replace_analysis: "ab_step b (snd (replace_analysis a b))"

inductive ab_reachable :: "analysis_board \<Rightarrow> bool" where
  init: "ab_reachable ab_init"
| step: "ab_reachable b \<Longrightarrow> ab_step b b' \<Longrightarrow> ab_reachable b'"

lemma ab_reachable_inv: "ab_reachable b \<Longrightarrow> ab_inv b"
proof (induction rule: ab_reachable.induct)
  case (step b b')
  from step.hyps(2) step.IH show ?case
    by (cases rule: ab_step.cases)
      (auto intro: ab_inv_add_tab ab_inv_remove_tab ab_inv_add_analysis ab_inv_add_corrupt
        ab_inv_remove_analysis ab_inv_replace)
qed (rule ab_inv_init)

section \<open>Example\<close>

text \<open>A Tab with a concordance run over two sources: a parent Analysis and two Sub-Analyses.\<close>

definition example_tab :: tab where
  "example_tab = projr (tab_create ''t'' KConcordance ''Concordance'' 50)"

definition example_child :: "uuid \<Rightarrow> uuid \<Rightarrow> analysis_record" where
  "example_child i parent = example_record\<lparr>rec_id := i, rec_parent_analysis_id := Some parent\<rparr>"

definition example_board :: analysis_board where
  "example_board = snd (add_analysis (example_child ''k'' ''c'') True
     (snd (add_analysis (example_child ''c'' ''i'') True
       (snd (add_analysis example_record True (snd (add_tab example_tab ab_init)))))))"

lemma example_board_reachable: "ab_reachable example_board"
  unfolding example_board_def
  by (intro ab_reachable.step [OF _ ab_step.add_analysis] ab_reachable.step [OF _ ab_step.add_tab]
      ab_reachable.init)

section \<open>Properties\<close>

text \<open>The search for the descendants of an Analysis ends on every reachable Workspace, and finds
  exactly the Analyses below it at any depth: parents cannot form a cycle, because a parent must be
  registered before its Sub-Analyses and ownership never changes.\<close>

theorem analysis_descendants_spec:
  assumes "ab_reachable b" "map_of (ab_analyses b) i = Some r"
  shows "\<exists>ds. analysis_descendants i b = Some ds \<and> set ds = {a. (r, a) \<in> (child_rel b)\<^sup>+} \<and>
    r \<notin> set ds"
proof -
  note inv = ab_reachable_inv [OF assms(1)]
  obtain ds where ds: "analysis_descendants i b = Some ds" "set ds = {a. (r, a) \<in> (child_rel b)\<^sup>+}"
    by (rule analysis_descendants_total [OF inv assms(2)])
  have "(x, y) \<in> (child_rel b)\<^sup>+ \<Longrightarrow> position b x < position b y" for x y
    by (induction rule: trancl_induct) (auto dest: child_later(1) [OF inv] order_less_trans)
  then have "(r, r) \<notin> (child_rel b)\<^sup>+" by blast
  with ds show ?thesis by blast
qed

theorem analysis_descendants_spec_witness:
  "\<exists>ds. analysis_descendants ''i'' example_board = Some ds \<and> example_record \<notin> set ds"
proof -
  have "map_of (ab_analyses example_board) ''i'' = Some example_record" by code_simp
  from analysis_descendants_spec [OF example_board_reachable this] show ?thesis by blast
qed



text \<open>Adding an Analysis either succeeds or tells why, and a rejected one leaves the Workspace
  unchanged, with one exception: a live Analysis without a Tab is reported after it has been
  registered.\<close>

theorem add_analysis_error_state:
  assumes "add_analysis a link_to_tab b = (Inl e, b')"
  shows "b' = b \<or> e = ValueError ''A live Analysis requires an existing Tab'' \<and>
    map_of (ab_analyses b') (rec_id a) = Some a \<and> map_of (ab_tabs b) (rec_tab_id a) = None"
  using assms by (auto simp: add_analysis_def Let_def update_conv' split: if_splits)

theorem add_analysis_error_state_witness:
  "fst (add_analysis example_record True ab_init) =
     Inl (ValueError ''A live Analysis requires an existing Tab'') \<and>
   map_of (ab_analyses (snd (add_analysis example_record True ab_init))) ''i'' = Some example_record"
proof -
  have *: "fst (add_analysis example_record True ab_init) =
     Inl (ValueError ''A live Analysis requires an existing Tab'')" by code_simp
  have "ab_analyses (snd (add_analysis example_record True ab_init)) \<noteq> []" "rec_id example_record = ''i''"
    by code_simp+
  then have "snd (add_analysis example_record True ab_init) \<noteq> ab_init" by (auto simp: ab_init_def)
  with add_analysis_error_state [of example_record True ab_init
      "ValueError ''A live Analysis requires an existing Tab''"
      "snd (add_analysis example_record True ab_init)"] * \<open>rec_id example_record = ''i''\<close>
  show ?thesis by (metis prod.collapse)
qed

end
