(* ===== verification/Quota.thy ===== *)
theory Quota
  imports PyString
begin

text \<open>
  The storage quota of a user: \<^verbatim>\<open>services/quota.py\<close>.

  Usage is not stored anywhere: it is the size on disk of what a user owns, measured anew on each
  admission (\<open>scan_used\<close> over a snapshot of the file system), plus the growth that this process has
  promised to writers and that is not yet on disk (\<open>qs_reserved_by_user\<close>). A \<open>QuotaReservation\<close> is one
  such promise; it is made before a write, resized to the measured size before the write is published,
  and released afterwards.

  Each method runs under the lock of its user, so it is one step of the model. What it finds outside the
  process is its argument \<open>env\<close>: the limit in the repository, the directory trees, the owner that
  \<open>read_workspace_owner\<close> reads from a Workspace's sidecar, and what the file system reports about its
  allocation unit. Successive steps may see entirely different ones.

  The lemmas: a walk adds up exactly the directories and regular files below a root that are reached
  without following a link; reservations round up to whole allocation units; in every reachable state the
  ledger of a user is the sum of the user's outstanding reservations.
\<close>

section \<open>Ledgers\<close>

lemma elem_le_sum_int: "(\<And>x. x \<in> set xs \<Longrightarrow> 0 \<le> x) \<Longrightarrow> p \<in> set xs \<Longrightarrow> p \<le> sum_list (xs :: int list)"
proof (induction xs)
  case (Cons x xs)
  then have "0 \<le> sum_list xs" "0 \<le> x" "p = x \<or> p \<le> sum_list xs" by (auto intro: sum_list_nonneg)
  then show ?case by auto
qed simp

text \<open>The contract between a running total and the outstanding parts it stands for. The per-user quota
  and the shared disk headroom of \<^verbatim>\<open>services/storage_admission.py\<close> are both ledgers.\<close>

locale reservation_ledger =
  fixes ok :: "'s \<Rightarrow> bool" and total :: "'s \<Rightarrow> int" and parts :: "'s \<Rightarrow> int list"
  assumes total_parts: "ok s \<Longrightarrow> total s = sum_list (parts s)"
    and parts_nonneg: "ok s \<Longrightarrow> p \<in> set (parts s) \<Longrightarrow> 0 \<le> p"
begin

lemma total_nonneg: "ok s \<Longrightarrow> 0 \<le> total s"
  by (simp add: total_parts parts_nonneg sum_list_nonneg)

lemma part_le_total: "ok s \<Longrightarrow> p \<in> set (parts s) \<Longrightarrow> p \<le> total s"
  using elem_le_sum_int [of "parts s" p] by (simp add: total_parts parts_nonneg)

lemma total_zero_iff: "ok s \<Longrightarrow> total s = 0 \<longleftrightarrow> (\<forall>p \<in> set (parts s). p = 0)"
  using parts_nonneg [of s] by (simp add: total_parts sum_list_nonneg_eq_0_iff)

end

lemma sum_list_map_update:
  fixes f :: "'a \<Rightarrow> int"
  shows "i < length xs \<Longrightarrow> (\<Sum>x\<leftarrow>xs[i := y]. f x) = (\<Sum>x\<leftarrow>xs. f x) + f y - f (xs ! i)"
  by (induction xs arbitrary: i) (auto split: nat.split)

section \<open>The size of a tree on disk\<close>

datatype file_kind = RegularFile | DirectoryFile | SymbolicLink | OtherFile

record stat_result =
  st_kind :: file_kind
  st_blocks :: "int option"
  st_file_attributes :: int

text \<open>A directory entry as a walk finds it: \<open>Missing\<close> when it is gone by the time of its \<open>lstat\<close>, and the
  listing of a directory, which is empty for anything else and for a directory that cannot be read.\<close>

datatype fs_entry = Missing | Entry stat_result "(string \<times> fs_entry) list"

definition is_link_or_reparse :: "stat_result \<Rightarrow> bool" where
  "is_link_or_reparse st \<longleftrightarrow> st_kind st = SymbolicLink \<or> (st_file_attributes st div 0x400) mod 2 = 1"

definition entry_allocated_bytes :: "stat_result \<Rightarrow> int \<Rightarrow> int result" where
  "entry_allocated_bytes st unit = (case st_blocks st of
     None \<Rightarrow> Inl (RuntimeError ''Filesystem entry lacks allocated-block metrics'')
   | Some blocks \<Rightarrow> if blocks < 0 then Inl (RuntimeError ''Filesystem entry lacks allocated-block metrics'')
       else Inr (max (blocks * 512) unit))"

definition add_result :: "int result \<Rightarrow> int result \<Rightarrow> int result" where
  "add_result a b = bind_result a (\<lambda>x. bind_result b (\<lambda>y. Inr (x + y)))"

text \<open>\<open>os.walk(topdown=True, followlinks=False)\<close> with the pruning of \<open>directory_names\<close>: a directory is
  counted and entered unless its name is skipped or it is a link, a regular file is counted. A link to a
  directory appears among \<open>directory_names\<close>, any other entry among \<open>file_names\<close>; a link is left out of
  both. The source adds a level before it goes down; the sum is the same in any order, and so is the
  only error there is.\<close>

fun walk_entry :: "(string \<Rightarrow> bool) \<Rightarrow> (string \<Rightarrow> bool) \<Rightarrow> int \<Rightarrow> string \<times> fs_entry \<Rightarrow> int result"
  and walk_listing :: "(string \<Rightarrow> bool) \<Rightarrow> (string \<Rightarrow> bool) \<Rightarrow> int \<Rightarrow> (string \<times> fs_entry) list \<Rightarrow> int result"
where
  "walk_entry skip_dir skip_file unit (name, Missing) = Inr 0"
| "walk_entry skip_dir skip_file unit (name, Entry st cs) =
     (if is_link_or_reparse st then Inr 0
      else if st_kind st = DirectoryFile then
        (if skip_dir name then Inr 0
         else add_result (entry_allocated_bytes st unit) (walk_listing skip_dir skip_file unit cs))
      else if st_kind st = RegularFile \<and> \<not> skip_file name then entry_allocated_bytes st unit
      else Inr 0)"
| "walk_listing skip_dir skip_file unit [] = Inr 0"
| "walk_listing skip_dir skip_file unit (c # cs) =
     add_result (walk_entry skip_dir skip_file unit c) (walk_listing skip_dir skip_file unit cs)"

definition allocated_tree_bytes :: "fs_entry \<Rightarrow> int \<Rightarrow> int result" where
  "allocated_tree_bytes e unit = (case e of Missing \<Rightarrow> Inr 0 | Entry st cs \<Rightarrow>
     if is_link_or_reparse st then Inr 0
     else if st_kind st = RegularFile then entry_allocated_bytes st unit
     else if st_kind st \<noteq> DirectoryFile then Inr 0
     else add_result (entry_allocated_bytes st unit) (walk_listing (\<lambda>_. False) (\<lambda>_. False) unit cs))"

definition import_staging_directory :: string where
  "import_staging_directory = ''.wordflow-import-staging''"

definition unpublished_upload :: "string \<Rightarrow> bool" where
  "unpublished_upload name \<longleftrightarrow> py_startswith name ''.'' \<and> py_endswith name ''.upload''"

definition allocated_user_bytes :: "fs_entry \<Rightarrow> int \<Rightarrow> int result" where
  "allocated_user_bytes e unit = (case e of Missing \<Rightarrow> Inr 0 | Entry st cs \<Rightarrow>
     if st_kind st \<noteq> DirectoryFile \<or> is_link_or_reparse st then Inr 0
     else add_result (entry_allocated_bytes st unit)
       (walk_listing (\<lambda>n. n = import_staging_directory) unpublished_upload unit cs))"

text \<open>\<open>owner\<close> is \<open>read_workspace_owner\<close>, \<open>None\<close> where it raises \<open>WorkspaceAccessInvalidError\<close>.\<close>

fun owned_candidates ::
  "(fs_entry \<Rightarrow> string option) \<Rightarrow> string \<Rightarrow> int \<Rightarrow> (string \<times> fs_entry) list \<Rightarrow> int result" where
  "owned_candidates owner user unit [] = Inr 0"
| "owned_candidates owner user unit ((name, e) # cs) = add_result
     (case e of Missing \<Rightarrow> Inr 0 | Entry st _ \<Rightarrow>
        if py_startswith name ''.'' \<or> st_kind st \<noteq> DirectoryFile \<or> is_link_or_reparse st then Inr 0
        else if owner e = Some user then allocated_tree_bytes e unit else Inr 0)
     (owned_candidates owner user unit cs)"

definition owned_workspace_bytes ::
  "(fs_entry \<Rightarrow> string option) \<Rightarrow> fs_entry \<Rightarrow> string \<Rightarrow> int \<Rightarrow> int result" where
  "owned_workspace_bytes owner e user unit = (case e of Missing \<Rightarrow> Inr 0 | Entry st cs \<Rightarrow>
     if st_kind st \<noteq> DirectoryFile then Inr 0 else owned_candidates owner user unit cs)"

definition child_entry :: "fs_entry \<Rightarrow> string \<Rightarrow> fs_entry" where
  "child_entry e name = (case e of Missing \<Rightarrow> Missing | Entry _ cs \<Rightarrow>
     (case map_of cs name of None \<Rightarrow> Missing | Some c \<Rightarrow> c))"

definition owned_allocated_bytes ::
  "(fs_entry \<Rightarrow> string option) \<Rightarrow> fs_entry \<Rightarrow> fs_entry \<Rightarrow> string \<Rightarrow> int \<Rightarrow> int result" where
  "owned_allocated_bytes owner user_root workspaces_root user unit =
     add_result (add_result (allocated_user_bytes user_root unit)
       (owned_workspace_bytes owner workspaces_root user unit))
       (owned_workspace_bytes owner (child_entry workspaces_root ''.trash'') user unit)"

text \<open>What a walk adds up: the \<open>stat\<close> of every counted entry, in the order of the walk.\<close>

fun counted_entry :: "(string \<Rightarrow> bool) \<Rightarrow> (string \<Rightarrow> bool) \<Rightarrow> string \<times> fs_entry \<Rightarrow> stat_result list"
  and counted :: "(string \<Rightarrow> bool) \<Rightarrow> (string \<Rightarrow> bool) \<Rightarrow> (string \<times> fs_entry) list \<Rightarrow> stat_result list"
where
  "counted_entry skip_dir skip_file (name, Missing) = []"
| "counted_entry skip_dir skip_file (name, Entry st cs) =
     (if is_link_or_reparse st then []
      else if st_kind st = DirectoryFile \<and> \<not> skip_dir name then st # counted skip_dir skip_file cs
      else if st_kind st = RegularFile \<and> \<not> skip_file name then [st] else [])"
| "counted skip_dir skip_file [] = []"
| "counted skip_dir skip_file (c # cs) = counted_entry skip_dir skip_file c @ counted skip_dir skip_file cs"

lemma add_result_simps [simp]:
  "add_result (Inr x) (Inr y) = Inr (x + y)" "add_result (Inl e) b = Inl e"
  "add_result (Inr x) (Inl e) = Inl e"
  by (simp_all add: add_result_def)

lemma add_result_Inr_iff: "add_result a b = Inr z \<longleftrightarrow> (\<exists>x y. a = Inr x \<and> b = Inr y \<and> z = x + y)"
  by (cases a; cases b) auto

lemma entry_allocated_bytes_ge:
  "entry_allocated_bytes st unit = Inr n \<Longrightarrow> unit \<le> n \<and> 0 \<le> n"
  by (auto simp: entry_allocated_bytes_def split: option.splits if_splits)

definition stat_bytes :: "int \<Rightarrow> stat_result \<Rightarrow> int" where
  "stat_bytes unit st = max (the (st_blocks st) * 512) unit"

lemma entry_allocated_bytes_Inr:
  "entry_allocated_bytes st unit = Inr n \<Longrightarrow> n = stat_bytes unit st"
  by (auto simp: entry_allocated_bytes_def stat_bytes_def split: option.splits if_splits)

lemma walk_counted:
  "walk_entry sd sf unit p = Inr n \<Longrightarrow> n = (\<Sum>st\<leftarrow>counted_entry sd sf p. stat_bytes unit st)"
  "walk_listing sd sf unit cs = Inr n \<Longrightarrow> n = (\<Sum>st\<leftarrow>counted sd sf cs. stat_bytes unit st)"
  by (induction sd sf unit p and sd sf unit cs arbitrary: n and n rule: walk_entry_walk_listing.induct)
    (auto simp: add_result_Inr_iff dest: entry_allocated_bytes_Inr split: if_splits)

lemma walk_raises_iff:
  "(\<exists>e. walk_entry sd sf unit p = Inl e) \<longleftrightarrow>
     (\<exists>st \<in> set (counted_entry sd sf p). st_blocks st = None \<or> the (st_blocks st) < 0)"
  "(\<exists>e. walk_listing sd sf unit cs = Inl e) \<longleftrightarrow>
     (\<exists>st \<in> set (counted sd sf cs). st_blocks st = None \<or> the (st_blocks st) < 0)"
proof (induction sd sf unit p and sd sf unit cs rule: walk_entry_walk_listing.induct)
  case (2 sd sf unit name st cs)
  then show ?case
    by (cases "walk_listing sd sf unit cs")
      (auto simp: entry_allocated_bytes_def split: option.splits if_splits)
next
  case (4 sd sf unit c cs)
  then show ?case
    by (cases "walk_entry sd sf unit c"; cases "walk_listing sd sf unit cs") auto
qed auto

lemma walk_nonneg:
  assumes "walk_listing sd sf unit cs = Inr n"
  shows "0 \<le> n"
proof -
  have "\<forall>st \<in> set (counted sd sf cs). 0 \<le> the (st_blocks st)"
    using walk_raises_iff(2) [of sd sf unit cs] assms by force
  then show ?thesis
    unfolding walk_counted(2) [OF assms]
    by (intro sum_list_nonneg) (auto simp: stat_bytes_def le_max_iff_disj)
qed

section \<open>State and operations\<close>

record quota_reservation =
  qr_user_id :: string
  qr_reserved_bytes :: int
  qr_released :: bool

record quota_service =
  qs_reserved_by_user :: "(string, int) dict"
  qs_allocation_unit :: "int option"

datatype storage_status =
    UnlimitedStorageStatus
  | QuotaStorageStatus (limit_bytes: int) (used_bytes: int) (reserved_bytes: int) (available_bytes: int)

text \<open>What one operation finds outside the process. \<open>env_f_frsize\<close> is \<open>statvfs(data_root).f_frsize\<close>,
  \<open>None\<close> without \<open>statvfs\<close> or on \<open>OSError\<close>; \<open>env_probe_blocks\<close> is \<open>st_blocks\<close> of the probe file.\<close>

record storage_env =
  env_quota_limit :: "string \<Rightarrow> int option"
  env_user_root :: "string \<Rightarrow> fs_entry"
  env_workspaces_root :: fs_entry
  env_workspace_owner :: "fs_entry \<Rightarrow> string option"
  env_f_frsize :: "int option"
  env_probe_blocks :: "int option"

definition reservation_bytes :: "int \<Rightarrow> int \<Rightarrow> int \<Rightarrow> int" where
  "reservation_bytes requested entries unit =
     (if requested \<noteq> 0 then ((requested + unit - 1) div unit) * unit else 0) + entries * unit"

definition probe_allocation_unit :: "storage_env \<Rightarrow> int result" where
  "probe_allocation_unit env = (case env_f_frsize env of
     None \<Rightarrow> Inl (RuntimeError ''Data Root does not expose filesystem allocation metrics'')
   | Some unit \<Rightarrow> raise_first
       [(unit < 1, RuntimeError ''Data Root filesystem allocation unit is invalid''),
        (case env_probe_blocks env of None \<Rightarrow> True | Some b \<Rightarrow> b < 1,
           RuntimeError ''Data Root does not expose allocated filesystem blocks'')] unit)"

definition get_allocation_unit :: "storage_env \<Rightarrow> quota_service \<Rightarrow> int result \<times> quota_service" where
  "get_allocation_unit env s = (case qs_allocation_unit s of
     Some unit \<Rightarrow> (Inr unit, s)
   | None \<Rightarrow> (case probe_allocation_unit env of
       Inl e \<Rightarrow> (Inl e, s)
     | Inr unit \<Rightarrow> (Inr unit, s\<lparr>qs_allocation_unit := Some unit\<rparr>)))"

definition quota_initialize :: "storage_env \<Rightarrow> bool \<Rightarrow> quota_service \<Rightarrow> unit result \<times> quota_service" where
  "quota_initialize env require_finite s = (if require_finite then
     (case get_allocation_unit env s of (Inl e, s') \<Rightarrow> (Inl e, s') | (Inr _, s') \<Rightarrow> (Inr (), s'))
     else (Inr (), s))"

definition scan_used_with :: "storage_env \<Rightarrow> string \<Rightarrow> int \<Rightarrow> int result" where
  "scan_used_with env user unit = owned_allocated_bytes (env_workspace_owner env)
     (env_user_root env user) (env_workspaces_root env) user unit"

definition scan_used :: "storage_env \<Rightarrow> string \<Rightarrow> quota_service \<Rightarrow> int result \<times> quota_service" where
  "scan_used env user s = (case get_allocation_unit env s of
     (Inl e, s') \<Rightarrow> (Inl e, s')
   | (Inr unit, s') \<Rightarrow> (scan_used_with env user unit, s'))"

definition set_reserved :: "string \<Rightarrow> int \<Rightarrow> quota_service \<Rightarrow> quota_service" where
  "set_reserved user v s = s\<lparr>qs_reserved_by_user :=
     (if v \<noteq> 0 then AList.update user v (qs_reserved_by_user s)
      else AList.delete user (qs_reserved_by_user s))\<rparr>"

definition user_reserved :: "quota_service \<Rightarrow> string \<Rightarrow> int" where
  "user_reserved s user = dict_get (qs_reserved_by_user s) user 0"

definition quota_status :: "storage_env \<Rightarrow> string \<Rightarrow> quota_service \<Rightarrow> storage_status result \<times> quota_service" where
  "quota_status env user s = (case env_quota_limit env user of
     None \<Rightarrow> (Inr UnlimitedStorageStatus, s)
   | Some limit \<Rightarrow> (case scan_used env user s of
       (Inl e, s') \<Rightarrow> (Inl e, s')
     | (Inr used, s') \<Rightarrow> (let reserved = user_reserved s' user in
         (Inr (QuotaStorageStatus limit used reserved (max 0 (limit - used - reserved))), s'))))"

definition quota_reserve ::
  "storage_env \<Rightarrow> string \<Rightarrow> int \<Rightarrow> int \<Rightarrow> quota_service \<Rightarrow> quota_reservation result \<times> quota_service" where
  "quota_reserve env user bytes entries s =
    (if bytes < 0 \<or> entries < 0 then (Inl (ValueError ''Storage quota reservation cannot be negative''), s)
     else (case env_quota_limit env user of
       None \<Rightarrow> (Inr \<lparr>qr_user_id = user, qr_reserved_bytes = 0, qr_released = False\<rparr>, s)
     | Some limit \<Rightarrow>
         if bytes = 0 \<and> entries = 0
         then (Inr \<lparr>qr_user_id = user, qr_reserved_bytes = 0, qr_released = False\<rparr>, s)
         else (case get_allocation_unit env s of
           (Inl e, s') \<Rightarrow> (Inl e, s')
         | (Inr unit, s') \<Rightarrow> (case scan_used_with env user unit of
             Inl e \<Rightarrow> (Inl e, s')
           | Inr used \<Rightarrow>
              (let requested = reservation_bytes bytes entries unit; reserved = user_reserved s' user in
               if limit < used + reserved + requested
               then (Inl (StorageQuotaExceededError limit used reserved requested), s')
               else (Inr \<lparr>qr_user_id = user, qr_reserved_bytes = requested, qr_released = False\<rparr>,
                     s'\<lparr>qs_reserved_by_user :=
                       AList.update user (reserved + requested) (qs_reserved_by_user s')\<rparr>))))))"

text \<open>An operation on a reservation changes the reservation and the service.\<close>

type_synonym 'a quota_op =
  "quota_reservation \<Rightarrow> quota_service \<Rightarrow> 'a result \<times> quota_reservation \<times> quota_service"

definition drop_reserved :: "int \<Rightarrow> quota_reservation \<Rightarrow> quota_service \<Rightarrow> quota_reservation \<times> quota_service" where
  "drop_reserved other r s = (r\<lparr>qr_reserved_bytes := 0\<rparr>, set_reserved (qr_user_id r) other s)"

definition apply_finite_recheck ::
  "storage_env \<Rightarrow> int \<Rightarrow> int \<Rightarrow> int \<Rightarrow> int \<Rightarrow> unit quota_op" where
  "apply_finite_recheck env limit held other growth r s =
    (if growth = 0 then (Inr (), drop_reserved other r s)
     else (case scan_used env (qr_user_id r) s of
       (Inl e, s') \<Rightarrow> (Inl e, r, s')
     | (Inr used, s') \<Rightarrow>
         if limit < used + other + growth
         then (Inl (StorageQuotaExceededError limit used held (max 0 (growth - qr_reserved_bytes r))), r, s')
         else (Inr (), r\<lparr>qr_reserved_bytes := growth\<rparr>, set_reserved (qr_user_id r) (other + growth) s')))"

text \<open>The common part of the three rechecks: what the other reservations of the user hold, and the
  unlimited policy, under which the reservation gives its bytes back.\<close>

definition recheck_with :: "storage_env \<Rightarrow> 'a \<Rightarrow> (int \<Rightarrow> int \<Rightarrow> int \<Rightarrow> 'a quota_op) \<Rightarrow> 'a quota_op" where
  "recheck_with env unlimited limited r s =
    (let held = user_reserved s (qr_user_id r); other = max 0 (held - qr_reserved_bytes r) in
     case env_quota_limit env (qr_user_id r) of
       None \<Rightarrow> (Inr unlimited, drop_reserved other r s)
     | Some limit \<Rightarrow> limited limit held other r s)"

definition quota_recheck :: "storage_env \<Rightarrow> int \<Rightarrow> unit quota_op" where
  "quota_recheck env growth r s =
    (if qr_released r then (Inl (RuntimeError ''Storage quota reservation is already released''), r, s)
     else if growth < 0 then (Inl (ValueError ''Actual storage growth cannot be negative''), r, s)
     else recheck_with env () (\<lambda>limit held other. apply_finite_recheck env limit held other growth) r s)"

definition quota_recheck_estimate :: "storage_env \<Rightarrow> int \<Rightarrow> int \<Rightarrow> unit quota_op" where
  "quota_recheck_estimate env bytes entries r s =
    (if qr_released r then (Inl (RuntimeError ''Storage quota reservation is already released''), r, s)
     else if bytes < 0 \<or> entries < 0
     then (Inl (ValueError ''Storage quota reservation cannot be negative''), r, s)
     else recheck_with env () (\<lambda>limit held other r s.
       case get_allocation_unit env s of
         (Inl e, s') \<Rightarrow> (Inl e, r, s')
       | (Inr unit, s') \<Rightarrow>
           apply_finite_recheck env limit held other (reservation_bytes bytes entries unit) r s') r s)"

definition quota_recheck_path :: "storage_env \<Rightarrow> fs_entry \<Rightarrow> fs_entry option \<Rightarrow> int quota_op" where
  "quota_recheck_path env staged_path replacing_path r s =
    (if qr_released r then (Inl (RuntimeError ''Storage quota reservation is already released''), r, s)
     else recheck_with env 0 (\<lambda>limit held other r s.
       case get_allocation_unit env s of
         (Inl e, s') \<Rightarrow> (Inl e, r, s')
       | (Inr unit, s') \<Rightarrow>
           (case allocated_tree_bytes staged_path unit of
             Inl e \<Rightarrow> (Inl e, r, s')
           | Inr staged \<Rightarrow>
             (case (case replacing_path of None \<Rightarrow> Inr 0 | Some p \<Rightarrow> allocated_tree_bytes p unit) of
               Inl e \<Rightarrow> (Inl e, r, s')
             | Inr replaced \<Rightarrow>
                (let growth = max 0 (staged - replaced) in
                 case apply_finite_recheck env limit held other growth r s' of
                   (Inl e, st) \<Rightarrow> (Inl e, st)
                 | (Inr _, st) \<Rightarrow> (Inr growth, st))))) r s)"

definition quota_release :: "quota_reservation \<Rightarrow> quota_service \<Rightarrow> quota_reservation \<times> quota_service" where
  "quota_release r s =
    (if qr_released r then (r, s)
     else if qr_reserved_bytes r = 0 then (r\<lparr>qr_released := True\<rparr>, s)
     else (r\<lparr>qr_reserved_bytes := 0, qr_released := True\<rparr>,
           set_reserved (qr_user_id r) (max 0 (user_reserved s (qr_user_id r) - qr_reserved_bytes r)) s))"

definition measure_path :: "storage_env \<Rightarrow> fs_entry \<Rightarrow> quota_service \<Rightarrow> int result \<times> quota_service" where
  "measure_path env path s = (case get_allocation_unit env s of
     (Inl e, s') \<Rightarrow> (Inl e, s') | (Inr unit, s') \<Rightarrow> (allocated_tree_bytes path unit, s'))"

text \<open>The registry of per-user locks (\<open>_user_gate\<close>): a lock exists while somebody holds it or waits for it.\<close>

definition gate_enter :: "string \<Rightarrow> (string, nat) dict \<Rightarrow> (string, nat) dict" where
  "gate_enter user gates = AList.update user (dict_get gates user 0 + 1) gates"

definition gate_leave :: "string \<Rightarrow> (string, nat) dict \<Rightarrow> (string, nat) dict" where
  "gate_leave user gates = (let users = dict_get gates user 0 - 1 in
     if users = 0 then AList.delete user gates else AList.update user users gates)"

section \<open>Reachable states\<close>

text \<open>The process: the service and every reservation it has handed out. Each step finds an environment of
  its own.\<close>

type_synonym quota_world = "quota_service \<times> quota_reservation list"

inductive quota_step :: "quota_world \<Rightarrow> quota_world \<Rightarrow> bool" where
  initialize: "quota_step (s, rs) (snd (quota_initialize env req s), rs)"
| status: "quota_step (s, rs) (snd (quota_status env user s), rs)"
| measure: "quota_step (s, rs) (snd (measure_path env path s), rs)"
| reserve: "quota_reserve env user bytes entries s = (Inr r, s') \<Longrightarrow> quota_step (s, rs) (s', rs @ [r])"
| reserve_raises: "quota_reserve env user bytes entries s = (Inl e, s') \<Longrightarrow> quota_step (s, rs) (s', rs)"
| recheck: "i < length rs \<Longrightarrow> quota_recheck env growth (rs ! i) s = (res, r', s') \<Longrightarrow>
    quota_step (s, rs) (s', rs[i := r'])"
| recheck_estimate: "i < length rs \<Longrightarrow> quota_recheck_estimate env bytes entries (rs ! i) s = (res, r', s') \<Longrightarrow>
    quota_step (s, rs) (s', rs[i := r'])"
| recheck_path: "i < length rs \<Longrightarrow> quota_recheck_path env staged replacing (rs ! i) s = (res', r', s') \<Longrightarrow>
    quota_step (s, rs) (s', rs[i := r'])"
| release: "i < length rs \<Longrightarrow> quota_release (rs ! i) s = (r', s') \<Longrightarrow> quota_step (s, rs) (s', rs[i := r'])"

definition quota_init :: quota_service where
  "quota_init = \<lparr>qs_reserved_by_user = [], qs_allocation_unit = None\<rparr>"

inductive quota_reachable :: "quota_world \<Rightarrow> bool" where
  init: "quota_reachable (quota_init, [])"
| step: "quota_reachable w \<Longrightarrow> quota_step w w' \<Longrightarrow> quota_reachable w'"

definition user_parts :: "string \<Rightarrow> quota_reservation list \<Rightarrow> int list" where
  "user_parts user rs = map (\<lambda>r. if qr_user_id r = user then qr_reserved_bytes r else 0) rs"

definition quota_inv :: "quota_world \<Rightarrow> bool" where
  "quota_inv w \<longleftrightarrow> (let (s, rs) = w in
     wf_dict (qs_reserved_by_user s) \<and>
     (\<forall>user. user_reserved s user = sum_list (user_parts user rs)) \<and>
     (\<forall>r \<in> set rs. 0 \<le> qr_reserved_bytes r \<and> (qr_released r \<longrightarrow> qr_reserved_bytes r = 0)) \<and>
     (\<forall>user v. map_of (qs_reserved_by_user s) user = Some v \<longrightarrow> v \<noteq> 0) \<and>
     (\<forall>unit. qs_allocation_unit s = Some unit \<longrightarrow> 1 \<le> unit))"

lemma quota_invD:
  assumes "quota_inv (s, rs)"
  shows "wf_dict (qs_reserved_by_user s)" "user_reserved s user = sum_list (user_parts user rs)"
    "r \<in> set rs \<Longrightarrow> 0 \<le> qr_reserved_bytes r" "r \<in> set rs \<Longrightarrow> qr_released r \<Longrightarrow> qr_reserved_bytes r = 0"
    "map_of (qs_reserved_by_user s) user = Some v \<Longrightarrow> v \<noteq> 0"
    "qs_allocation_unit s = Some unit \<Longrightarrow> 1 \<le> unit"
  using assms by (auto simp: quota_inv_def)

interpretation user_ledger: reservation_ledger quota_inv "\<lambda>w. user_reserved (fst w) user"
  "\<lambda>w. user_parts user (snd w)" for user
proof
  show "user_reserved (fst w) user = sum_list (user_parts user (snd w))" if "quota_inv w" for w
    using that by (cases w) (auto simp: quota_inv_def)
  show "0 \<le> p" if "quota_inv w" "p \<in> set (user_parts user (snd w))" for w p
    using that by (cases w) (auto simp: quota_inv_def user_parts_def)
qed

lemma user_parts_append [simp]:
  "sum_list (user_parts user (rs @ [r])) =
     sum_list (user_parts user rs) + (if qr_user_id r = user then qr_reserved_bytes r else 0)"
  by (simp add: user_parts_def)

lemma user_parts_update:
  "i < length rs \<Longrightarrow> qr_user_id r' = qr_user_id (rs ! i) \<Longrightarrow>
   sum_list (user_parts user (rs[i := r'])) = sum_list (user_parts user rs) +
     (if qr_user_id r' = user then qr_reserved_bytes r' - qr_reserved_bytes (rs ! i) else 0)"
  unfolding user_parts_def map_update
  by (simp add: sum_list_map_update [where f = id and xs = "map f rs" for f, simplified])

lemma user_reserved_set_reserved [simp]:
  "user_reserved (set_reserved u v s) user = (if user = u then v else user_reserved s user)"
  by (simp add: user_reserved_def set_reserved_def)

lemma set_reserved_unit [simp]: "qs_allocation_unit (set_reserved u v s) = qs_allocation_unit s"
  by (simp add: set_reserved_def)

lemma set_reserved_dict:
  "wf_dict (qs_reserved_by_user s) \<Longrightarrow> wf_dict (qs_reserved_by_user (set_reserved u v s))"
  "\<forall>user v. map_of (qs_reserved_by_user s) user = Some v \<longrightarrow> v \<noteq> 0 \<Longrightarrow>
   map_of (qs_reserved_by_user (set_reserved u v s)) user = Some x \<Longrightarrow> x \<noteq> 0"
  by (auto simp: set_reserved_def update_conv' delete_conv' split: if_splits)

text \<open>Finding out the allocation unit touches nothing else.\<close>

lemma get_allocation_unit_cases:
  assumes "get_allocation_unit env s = (res, s')"
  obtains (cached) unit where "res = Inr unit" "s' = s" "qs_allocation_unit s = Some unit"
  | (probed) unit where "res = Inr unit" "s' = s\<lparr>qs_allocation_unit := Some unit\<rparr>" "1 \<le> unit"
  | (raised) e where "res = Inl e" "s' = s"
  using assms
  by (auto simp: get_allocation_unit_def probe_allocation_unit_def split: option.splits if_splits)

lemma quota_inv_unit: "quota_inv (s, rs) \<Longrightarrow> 1 \<le> unit \<Longrightarrow> quota_inv (s\<lparr>qs_allocation_unit := Some unit\<rparr>, rs)"
  by (auto simp: quota_inv_def user_reserved_def)

lemma get_allocation_unit_frame:
  assumes "get_allocation_unit env s = (res, s')"
  shows "user_reserved s' user = user_reserved s user"
    "quota_inv (s, rs) \<Longrightarrow> quota_inv (s', rs)"
    "quota_inv (s, rs) \<Longrightarrow> res = Inr unit \<Longrightarrow> 1 \<le> unit"
  by (cases rule: get_allocation_unit_cases [OF assms];
      auto simp: user_reserved_def dest: quota_inv_unit quota_invD(6))+

lemma scan_used_frame:
  assumes "scan_used env u s = (res, s')"
  shows "user_reserved s' user = user_reserved s user" "quota_inv (s, rs) \<Longrightarrow> quota_inv (s', rs)"
  using assms get_allocation_unit_frame(1,2) [of env s]
  unfolding scan_used_def by (auto split: prod.splits sum.splits)

lemma reservation_bytes_bounds:
  assumes "0 \<le> bytes" "0 \<le> entries" "1 \<le> unit"
  shows "bytes + entries * unit \<le> reservation_bytes bytes entries unit"
    "reservation_bytes bytes entries unit < bytes + (entries + 1) * unit"
    "unit dvd reservation_bytes bytes entries unit"
    "reservation_bytes bytes entries unit = 0 \<longleftrightarrow> bytes = 0 \<and> entries = 0"
proof -
  define q where "q = (bytes + unit - 1) div unit"
  have "unit * q = bytes + unit - 1 - (bytes + unit - 1) mod unit"
    unfolding q_def by (simp add: minus_mod_eq_mult_div)
  moreover have "0 \<le> (bytes + unit - 1) mod unit" "(bytes + unit - 1) mod unit < unit"
    using assms(3) by simp_all
  ultimately have q: "bytes \<le> unit * q" "unit * q < bytes + unit" by linarith+
  have r: "reservation_bytes bytes entries unit = (if bytes \<noteq> 0 then unit * q else 0) + entries * unit"
    "(entries + 1) * unit = entries * unit + unit"
    by (simp_all add: reservation_bytes_def q_def mult.commute distrib_left)
  show 1: "bytes + entries * unit \<le> reservation_bytes bytes entries unit"
    and "reservation_bytes bytes entries unit < bytes + (entries + 1) * unit"
    using q assms unfolding r by (auto split: if_splits)
  show "unit dvd reservation_bytes bytes entries unit" by (simp add: reservation_bytes_def)
  have "0 < bytes + entries * unit" if "\<not> (bytes = 0 \<and> entries = 0)"
    using assms that by (cases "entries = 0") (auto intro: add_nonneg_pos)
  with 1 show "reservation_bytes bytes entries unit = 0 \<longleftrightarrow> bytes = 0 \<and> entries = 0"
    by (cases "bytes = 0 \<and> entries = 0") (simp add: reservation_bytes_def, linarith)
qed

section \<open>The ledger is exact\<close>

text \<open>Resizing one reservation together with the ledger of its user.\<close>

lemma quota_inv_resize:
  assumes "quota_inv (s, rs)" "i < length rs" "qr_user_id r' = qr_user_id (rs ! i)"
    "0 \<le> qr_reserved_bytes r'" "qr_released r' \<Longrightarrow> qr_reserved_bytes r' = 0"
    "v = user_reserved s (qr_user_id r') - qr_reserved_bytes (rs ! i) + qr_reserved_bytes r'"
  shows "quota_inv (set_reserved (qr_user_id r') v s, rs[i := r'])"
proof -
  have "\<forall>r \<in> set (rs[i := r']). 0 \<le> qr_reserved_bytes r \<and> (qr_released r \<longrightarrow> qr_reserved_bytes r = 0)"
    using quota_invD(3,4) [OF assms(1)] assms(4,5) set_update_subset_insert [of rs i r'] by blast
  moreover have "user_reserved (set_reserved (qr_user_id r') v s) user = sum_list (user_parts user (rs[i := r']))"
    for user
    using assms(6) quota_invD(2) [OF assms(1)] by (simp add: user_parts_update [OF assms(2,3)])
  ultimately show ?thesis
    using set_reserved_dict [of s "qr_user_id r'" v] assms(1) unfolding quota_inv_def by simp
qed

lemma quota_inv_same:
  assumes "quota_inv (s, rs)" "i < length rs" "qr_user_id r' = qr_user_id (rs ! i)"
    "qr_reserved_bytes r' = qr_reserved_bytes (rs ! i)" "qr_released r' \<Longrightarrow> qr_reserved_bytes r' = 0"
  shows "quota_inv (s, rs[i := r'])"
proof -
  have "\<forall>r \<in> set (rs[i := r']). 0 \<le> qr_reserved_bytes r \<and> (qr_released r \<longrightarrow> qr_reserved_bytes r = 0)"
    using quota_invD(3,4) [OF assms(1)] assms(2,4,5) set_update_subset_insert [of rs i r']
    by (metis insert_iff nth_mem subsetD)
  then show ?thesis
    using assms(1,4) unfolding quota_inv_def by (simp add: user_parts_update [OF assms(2,3)])
qed

lemma reservation_le_ledger:
  assumes "quota_inv (s, rs)" "i < length rs"
  shows "qr_reserved_bytes (rs ! i) \<le> user_reserved s (qr_user_id (rs ! i))"
proof -
  have "qr_reserved_bytes (rs ! i) \<in> set (user_parts (qr_user_id (rs ! i)) rs)"
    using assms(2) by (force simp: user_parts_def)
  from user_ledger.part_le_total [OF assms(1), simplified, OF this] show ?thesis by simp
qed

text \<open>What every recheck does to a live reservation: it keeps its owner and never releases it.\<close>

lemma drop_reserved_inv:
  assumes "quota_inv (s, rs)" "i < length rs" "drop_reserved other (rs ! i) s = (r', s')"
    "other = user_reserved s (qr_user_id (rs ! i)) - qr_reserved_bytes (rs ! i)"
  shows "quota_inv (s', rs[i := r'])"
  using quota_inv_resize [OF assms(1,2), of r' other] assms(3,4) by (auto simp: drop_reserved_def)

lemma apply_finite_recheck_inv:
  assumes "quota_inv (s, rs)" "i < length rs" "\<not> qr_released (rs ! i)" "0 \<le> growth"
    "other = user_reserved s (qr_user_id (rs ! i)) - qr_reserved_bytes (rs ! i)"
    "apply_finite_recheck env limit held other growth (rs ! i) s = (res, r', s')"
  shows "quota_inv (s', rs[i := r'])"
proof (cases "growth = 0")
  case True
  with drop_reserved_inv [OF assms(1,2) _ assms(5)] assms(6) show ?thesis
    by (auto simp: apply_finite_recheck_def)
next
  case False
  obtain su s1 where u: "scan_used env (qr_user_id (rs ! i)) s = (su, s1)" by fastforce
  note s1 = scan_used_frame(2) [OF u assms(1)]
  have *: "other = user_reserved s1 (qr_user_id (rs ! i)) - qr_reserved_bytes (rs ! i)"
    using assms(5) scan_used_frame(1) [OF u] by simp
  show ?thesis
    using assms(6) False u quota_inv_same [OF s1 assms(2), of "rs ! i"] assms(3)
      quota_inv_resize [OF s1 assms(2), of "(rs ! i)\<lparr>qr_reserved_bytes := growth\<rparr>" "other + growth"]
      assms(4) *
    by (auto simp: apply_finite_recheck_def split: sum.splits if_splits)
qed

text \<open>The three rechecks differ in how they find the growth. \<open>finite_ok\<close> says of the part they run under a
  finite policy that it keeps the invariant.\<close>

lemma recheck_with_inv:
  assumes "quota_inv (s, rs)" "i < length rs" "recheck_with env x limited (rs ! i) s = (res, r', s')"
    "\<And>limit held. limited limit held
       (user_reserved s (qr_user_id (rs ! i)) - qr_reserved_bytes (rs ! i)) (rs ! i) s = (res, r', s') \<Longrightarrow>
       quota_inv (s', rs[i := r'])"
  shows "quota_inv (s', rs[i := r'])"
proof -
  let ?o = "user_reserved s (qr_user_id (rs ! i)) - qr_reserved_bytes (rs ! i)"
  have "max 0 ?o = ?o" using reservation_le_ledger [OF assms(1,2)] by simp
  then show ?thesis
    using assms(3,4) drop_reserved_inv [OF assms(1,2) _ refl]
    by (auto simp: recheck_with_def Let_def split: option.splits)
qed

lemma quota_recheck_inv:
  assumes "quota_inv (s, rs)" "i < length rs" "quota_recheck env growth (rs ! i) s = (res, r', s')"
  shows "quota_inv (s', rs[i := r'])"
proof (cases "qr_released (rs ! i) \<or> growth < 0")
  case True
  then show ?thesis using assms by (auto simp: quota_recheck_def split: if_splits)
next
  case False
  then have "recheck_with env () (\<lambda>limit held other. apply_finite_recheck env limit held other growth)
      (rs ! i) s = (res, r', s')"
    using assms(3) by (simp add: quota_recheck_def)
  from recheck_with_inv [OF assms(1,2) this] apply_finite_recheck_inv [OF assms(1,2) _ _ refl] False
  show ?thesis by (meson not_less)
qed

lemma quota_recheck_estimate_inv:
  assumes "quota_inv (s, rs)" "i < length rs"
    "quota_recheck_estimate env bytes entries (rs ! i) s = (res, r', s')"
  shows "quota_inv (s', rs[i := r'])"
proof (cases "qr_released (rs ! i) \<or> bytes < 0 \<or> entries < 0")
  case True
  then show ?thesis using assms by (auto simp: quota_recheck_estimate_def split: if_splits)
next
  case False
  obtain u s1 where u: "get_allocation_unit env s = (u, s1)" by fastforce
  note fr = get_allocation_unit_frame [OF u]
  let ?o = "user_reserved s (qr_user_id (rs ! i)) - qr_reserved_bytes (rs ! i)"
  have "quota_inv (s', rs[i := r'])"
    if "(case u of Inl e \<Rightarrow> (Inl e, rs ! i, s1) | Inr unit \<Rightarrow>
      apply_finite_recheck env limit held ?o (reservation_bytes bytes entries unit) (rs ! i) s1) =
      (res, r', s')" for limit held
  proof (cases u)
    case (Inr unit)
    have "0 \<le> entries * unit" using fr(3) [OF assms(1) Inr] False by simp
    then have "0 \<le> reservation_bytes bytes entries unit"
      using reservation_bytes_bounds(1) [of bytes entries unit] fr(3) [OF assms(1) Inr] False by linarith
    with apply_finite_recheck_inv [OF fr(2) [OF assms(1)] assms(2)] that Inr False fr(1)
    show ?thesis by auto
  qed (use that fr(2) [OF assms(1)] in auto)
  note estimate = this
  have R: "recheck_with env () (\<lambda>limit held other r s.
       case get_allocation_unit env s of
         (Inl e, s') \<Rightarrow> (Inl e, r, s')
       | (Inr unit, s') \<Rightarrow>
           apply_finite_recheck env limit held other (reservation_bytes bytes entries unit) r s')
      (rs ! i) s = (res, r', s')"
    using assms(3) False by (simp add: quota_recheck_estimate_def)
  show ?thesis
    by (rule recheck_with_inv [OF assms(1,2) R], rule estimate) (simp add: u)
qed

lemma quota_recheck_path_inv:
  assumes "quota_inv (s, rs)" "i < length rs"
    "quota_recheck_path env staged replacing (rs ! i) s = (res, r', s')"
  shows "quota_inv (s', rs[i := r'])"
proof (cases "qr_released (rs ! i)")
  case True
  then show ?thesis using assms by (auto simp: quota_recheck_path_def)
next
  case False
  obtain u s1 where u: "get_allocation_unit env s = (u, s1)" by fastforce
  note fr = get_allocation_unit_frame [OF u]
  have A: "apply_finite_recheck env limit held
      (user_reserved s (qr_user_id (rs ! i)) - qr_reserved_bytes (rs ! i)) growth (rs ! i) s1 = (x, r', s') \<Longrightarrow>
      0 \<le> growth \<Longrightarrow> quota_inv (s', rs[i := r'])" for limit held growth x
    using apply_finite_recheck_inv [OF fr(2) [OF assms(1)] assms(2) False] fr(1) by simp
  note R = assms(3) [unfolded quota_recheck_path_def, simplified False if_False]
  show ?thesis
  proof (rule recheck_with_inv [OF assms(1,2) R], goal_cases)
    case (1 limit held)
    then show ?case
      using fr(2) [OF assms(1)]
      by (auto simp: u Let_def split: sum.splits prod.splits option.splits dest: A)
  qed
qed

lemma quota_release_inv:
  assumes "quota_inv (s, rs)" "i < length rs" "quota_release (rs ! i) s = (r', s')"
  shows "quota_inv (s', rs[i := r'])"
proof -
  have le: "max 0 (user_reserved s (qr_user_id (rs ! i)) - qr_reserved_bytes (rs ! i)) =
    user_reserved s (qr_user_id (rs ! i)) - qr_reserved_bytes (rs ! i)"
    using reservation_le_ledger [OF assms(1,2)] by simp
  show ?thesis
    using assms(3) quota_inv_same [OF assms(1,2), of r'] quota_inv_resize [OF assms(1,2), of r']
      quota_invD(4) [OF assms(1) nth_mem [OF assms(2)]]
    by (auto simp: quota_release_def le split: if_splits)
qed

lemma quota_reserve_cases:
  assumes "quota_reserve env user bytes entries s = (Inr r, s')"
  obtains (free) "r = \<lparr>qr_user_id = user, qr_reserved_bytes = 0, qr_released = False\<rparr>" "s' = s"
      "env_quota_limit env user = None \<or> bytes = 0 \<and> entries = 0"
  | (held) limit unit used s1 where "env_quota_limit env user = Some limit" "0 \<le> bytes" "0 \<le> entries"
      "\<not> (bytes = 0 \<and> entries = 0)"
      "get_allocation_unit env s = (Inr unit, s1)" "scan_used_with env user unit = Inr used"
      "used + user_reserved s1 user + reservation_bytes bytes entries unit \<le> limit"
      "r = \<lparr>qr_user_id = user, qr_reserved_bytes = reservation_bytes bytes entries unit,
        qr_released = False\<rparr>"
      "s' = s1\<lparr>qs_reserved_by_user := AList.update user
        (user_reserved s1 user + reservation_bytes bytes entries unit) (qs_reserved_by_user s1)\<rparr>"
  using assms
  by (auto simp: quota_reserve_def Let_def split: if_splits option.splits prod.splits sum.splits)

lemma quota_inv_reserve:
  assumes "quota_inv (s, rs)" "quota_reserve env user bytes entries s = (Inr r, s')"
  shows "quota_inv (s', rs @ [r])"
  using assms(2)
proof (cases rule: quota_reserve_cases)
  case free
  then show ?thesis using assms(1) by (auto simp: quota_inv_def)
next
  case (held limit unit used s1)
  note fr = get_allocation_unit_frame [OF held(5)]
  note unit = fr(3) [OF assms(1) refl]
  have "0 \<le> entries * unit" using held unit by simp
  then have pos: "0 < reservation_bytes bytes entries unit"
    using reservation_bytes_bounds(1,4) [OF held(2,3) unit] held(2-4) by linarith
  have nn: "0 \<le> user_reserved s1 user" for user
    using user_ledger.total_nonneg [OF fr(2) [OF assms(1)]] by simp
  have "user_reserved s' u = user_reserved s1 u + (if u = user then qr_reserved_bytes r else 0)" for u
    using held by (simp add: user_reserved_def)
  with fr(2) [OF assms(1)] held(8,9) pos nn [of user] show ?thesis
    by (auto simp: quota_inv_def update_conv' split: if_splits)
qed

lemma quota_inv_raise:
  assumes "quota_inv (s, rs)" "quota_reserve env user bytes entries s = (Inl e, s')"
  shows "quota_inv (s', rs)"
  using assms get_allocation_unit_frame(2) [of env s]
  by (auto simp: quota_reserve_def Let_def split: if_splits option.splits prod.splits sum.splits)

lemma quota_inv_reads:
  assumes "quota_inv (s, rs)"
  shows "quota_inv (snd (quota_initialize env req s), rs)" "quota_inv (snd (quota_status env user s), rs)"
    "quota_inv (snd (measure_path env path s), rs)"
  using assms get_allocation_unit_frame(2) [of env s] scan_used_frame(2) [of env user s]
  by (auto simp: quota_initialize_def quota_status_def measure_path_def Let_def
      split: option.splits prod.splits sum.splits)

lemma quota_inv_step: "quota_step w w' \<Longrightarrow> quota_inv w \<Longrightarrow> quota_inv w'"
  by (induction rule: quota_step.induct)
    (auto intro: quota_inv_reads quota_inv_reserve quota_inv_raise quota_recheck_inv
      quota_recheck_estimate_inv quota_recheck_path_inv quota_release_inv)

lemma quota_reachable_inv: "quota_reachable w \<Longrightarrow> quota_inv w"
proof (induction rule: quota_reachable.induct)
  case init
  then show ?case by (simp add: quota_inv_def quota_init_def user_reserved_def dict_get_def user_parts_def)
qed (rule quota_inv_step)

section \<open>Example\<close>

text \<open>A user with a 900 byte file, a limit of eight units of 4096 bytes, and one reservation in flight.\<close>

definition example_file :: fs_entry where
  "example_file = Entry \<lparr>st_kind = RegularFile, st_blocks = Some 8, st_file_attributes = 0\<rparr> []"

definition example_home :: fs_entry where
  "example_home = Entry \<lparr>st_kind = DirectoryFile, st_blocks = Some 0, st_file_attributes = 0\<rparr>
     [(''a.txt'', example_file), (import_staging_directory, example_file)]"

definition example_env :: storage_env where
  "example_env = \<lparr>env_quota_limit = \<lambda>user. Some 32768, env_user_root = \<lambda>user. example_home,
     env_workspaces_root = Missing, env_workspace_owner = \<lambda>e. None,
     env_f_frsize = Some 4096, env_probe_blocks = Some 8\<rparr>"

definition example_reserved :: "quota_reservation result \<times> quota_service" where
  "example_reserved = quota_reserve example_env ''u'' 5000 1 quota_init"

definition example_world :: quota_world where
  "example_world = (snd example_reserved, [projr (fst example_reserved)])"

lemma example_reserved_eq: "example_reserved =
    (Inr \<lparr>qr_user_id = ''u'', qr_reserved_bytes = 12288, qr_released = False\<rparr>,
     \<lparr>qs_reserved_by_user = [(''u'', 12288)], qs_allocation_unit = Some 4096\<rparr>)"
  by code_simp

lemma example_world_reachable: "quota_reachable example_world"
proof -
  have "quota_step (quota_init, []) (snd example_reserved, [] @ [projr (fst example_reserved)])"
    by (rule quota_step.reserve [of example_env "''u''" 5000 1])
      (simp add: example_reserved_eq flip: example_reserved_def)
  from quota_reachable.step [OF quota_reachable.init this] show ?thesis by (simp add: example_world_def)
qed

section \<open>Properties\<close>

text \<open>C28: the ledger is exact. Whatever the order of reservations, rechecks, failures and releases, the
  bytes held for a user are the sum of what the user's reservations hold; none of them is negative,
  a released one holds nothing, and when all are released nothing is left behind.\<close>

theorem quota_ledger_exact:
  assumes "quota_reachable (s, rs)"
  shows "user_reserved s user = (\<Sum>r\<leftarrow>rs. if qr_user_id r = user then qr_reserved_bytes r else 0) \<and>
    (\<forall>r \<in> set rs. 0 \<le> qr_reserved_bytes r \<and> qr_reserved_bytes r \<le> user_reserved s (qr_user_id r) \<and>
       (qr_released r \<longrightarrow> qr_reserved_bytes r = 0)) \<and>
    ((\<forall>r \<in> set rs. qr_released r) \<longrightarrow> qs_reserved_by_user s = [])"
proof (intro conjI impI ballI)
  note inv = quota_reachable_inv [OF assms]
  show "user_reserved s user = (\<Sum>r\<leftarrow>rs. if qr_user_id r = user then qr_reserved_bytes r else 0)"
    using quota_invD(2) [OF inv] by (simp add: user_parts_def)
  show "0 \<le> qr_reserved_bytes r" "qr_released r \<Longrightarrow> qr_reserved_bytes r = 0" if "r \<in> set rs" for r
    using quota_invD(3,4) [OF inv that] by auto
  show "qr_reserved_bytes r \<le> user_reserved s (qr_user_id r)" if "r \<in> set rs" for r
    using that reservation_le_ledger [OF inv] by (metis in_set_conv_nth)
  assume rel: "\<forall>r \<in> set rs. qr_released r"
  show "qs_reserved_by_user s = []"
  proof (cases "qs_reserved_by_user s")
    case (Cons p ps)
    obtain u v where p: "p = (u, v)" by (cases p)
    have "user_reserved s u = 0"
      using user_ledger.total_zero_iff [OF inv, of u] rel quota_invD(4) [OF inv]
      by (auto simp: user_parts_def)
    then show ?thesis using quota_invD(5) [OF inv, of u v] Cons p by (simp add: user_reserved_def dict_get_def)
  qed simp
qed

theorem quota_ledger_exact_witness: "user_reserved (fst example_world) ''u'' = 12288"
  using quota_ledger_exact [OF example_world_reachable [unfolded example_world_def], of "''u''"]
  by (simp add: example_world_def example_reserved_eq)

text \<open>C29: a granted reservation fits. Under a finite limit, a reservation of some bytes or entries is
  granted only if the measured usage and everything now held for the user stay within the limit; it covers
  the bytes and a unit per entry, rounded up by less than one unit, and leaves other users alone.\<close>

theorem quota_reserve_fits:
  assumes "quota_reachable (s, rs)" "quota_reserve env user bytes entries s = (Inr r, s')"
    "env_quota_limit env user = Some limit" "bytes \<noteq> 0 \<or> entries \<noteq> 0"
  shows "\<exists>unit used. 1 \<le> unit \<and> scan_used_with env user unit = Inr used \<and>
    used + user_reserved s' user \<le> limit \<and>
    bytes + entries * unit \<le> qr_reserved_bytes r \<and> qr_reserved_bytes r < bytes + (entries + 1) * unit \<and>
    user_reserved s' user = user_reserved s user + qr_reserved_bytes r \<and>
    (\<forall>other. other \<noteq> user \<longrightarrow> user_reserved s' other = user_reserved s other)"
  using assms(2)
proof (cases rule: quota_reserve_cases)
  case free
  then show ?thesis using assms(3,4) by auto
next
  case (held lim unit used s1)
  note fr = get_allocation_unit_frame [OF held(5)]
  note unit = fr(3) [OF quota_reachable_inv [OF assms(1)] refl]
  have "user_reserved s' u = user_reserved s u + (if u = user then qr_reserved_bytes r else 0)" for u
    using held(8,9) fr(1) by (simp add: user_reserved_def)
  then show ?thesis
    using held unit reservation_bytes_bounds(1,2) [OF held(2,3) unit] fr(1) assms(3)
    by (intro exI [of _ unit] exI [of _ used]) simp
qed

theorem quota_reserve_fits_witness:
  "\<exists>unit used. 1 \<le> unit \<and> scan_used_with example_env ''u'' unit = Inr used \<and>
     used + user_reserved (snd (quota_reserve example_env ''u'' 1 0 (fst example_world))) ''u'' \<le> 32768"
proof -
  have "quota_reserve example_env ''u'' 1 0 (fst example_world) =
      (Inr \<lparr>qr_user_id = ''u'', qr_reserved_bytes = 4096, qr_released = False\<rparr>,
       snd (quota_reserve example_env ''u'' 1 0 (fst example_world)))" by code_simp
  from quota_reserve_fits [OF example_world_reachable [unfolded example_world_def]
      this [unfolded example_world_def fst_conv], of 32768]
  show ?thesis by (auto simp: example_env_def example_world_def)
qed

text \<open>C31: a recheck settles the reservation at the measured growth or changes nothing. Under a finite
  limit, when it succeeds the user's ledger fits beside the measured usage, as for a reservation; when it
  raises, the reservation and every ledger are as before.\<close>

theorem quota_recheck_fits:
  assumes "quota_reachable (s, rs)" "i < length rs" "env_quota_limit env (qr_user_id (rs ! i)) = Some limit"
    "quota_recheck env growth (rs ! i) s = (res, r', s')"
  shows "(\<forall>e. res = Inl e \<longrightarrow> r' = rs ! i \<and> (\<forall>user. user_reserved s' user = user_reserved s user)) \<and>
    (res = Inr () \<longrightarrow> r' = (rs ! i)\<lparr>qr_reserved_bytes := growth\<rparr> \<and>
      user_reserved s' (qr_user_id r') =
        user_reserved s (qr_user_id r') - qr_reserved_bytes (rs ! i) + growth \<and>
      (growth \<noteq> 0 \<longrightarrow> (\<exists>used. fst (scan_used env (qr_user_id r') s) = Inr used \<and>
         used + user_reserved s' (qr_user_id r') \<le> limit)))"
proof -
  note inv = quota_reachable_inv [OF assms(1)]
  have le: "max 0 (user_reserved s (qr_user_id (rs ! i)) - qr_reserved_bytes (rs ! i)) =
      user_reserved s (qr_user_id (rs ! i)) - qr_reserved_bytes (rs ! i)"
    using reservation_le_ledger [OF inv assms(2)] by simp
  obtain su s1 where u: "scan_used env (qr_user_id (rs ! i)) s = (su, s1)" by fastforce
  show ?thesis
    using assms(4) scan_used_frame(1) [OF u]
    by (auto simp: quota_recheck_def recheck_with_def apply_finite_recheck_def drop_reserved_def
        Let_def assms(3) le u split: if_splits sum.splits)
qed

theorem quota_recheck_fits_witness:
  "qr_reserved_bytes (fst (snd (quota_recheck example_env 8192 (snd example_world ! 0) (fst example_world)))) = 8192"
proof -
  let ?q = "quota_recheck example_env 8192 (snd example_world ! 0) (fst example_world)"
  obtain r' s' where q: "?q = (Inr (), r', s')"
  proof -
    have "fst ?q = Inr ()" by code_simp
    then show ?thesis using that [of "fst (snd ?q)" "snd (snd ?q)"] by (metis prod.collapse)
  qed
  have "0 < length (snd example_world)" by (simp add: example_world_def)
  moreover have "env_quota_limit example_env user = Some 32768" for user by (simp add: example_env_def)
  ultimately show ?thesis
    using quota_recheck_fits [OF _ _ _ q] example_world_reachable q by simp
qed

end
