(* ===== verification/StorageAdmission.thy ===== *)
theory StorageAdmission
  imports Quota
begin

text \<open>
  The admission of durable writes: \<^verbatim>\<open>services/storage_admission.py\<close>. A write needs room in the quota of
  its user (\<open>Quota\<close>) and headroom on the shared disk; \<open>acquire\<close> takes the first, then the second, and
  gives the first back when there is no second.

  The two halves of \<open>acquire\<close> and of \<open>release\<close> run under different locks, so other writers act between
  them. \<open>acquire_quota\<close>/\<open>acquire_physical\<close> and \<open>release_quota\<close>/\<open>release_physical\<close> are these sections,
  \<open>acquire\<close> and \<open>release\<close> their compositions without interference; \<open>adm_step\<close> interleaves the sections
  of any number of writers. A reservation has one owner, who releases it and does nothing with it
  meanwhile. Free bytes are what \<open>shutil.disk_usage\<close> reports at that moment.
\<close>

section \<open>State and operations\<close>

record storage_reservation =
  sr_quota :: "quota_reservation option"
  sr_physical_bytes :: int
  sr_released :: bool

record admission =
  ad_min_free_disk_bytes :: int
  ad_reserved_total :: int

definition admission_init :: "int \<Rightarrow> admission result" where
  "admission_init min_free = (if min_free < 0
     then Inl (ValueError ''Physical storage reserve cannot be negative'')
     else Inr \<lparr>ad_min_free_disk_bytes = min_free, ad_reserved_total = 0\<rparr>)"

definition reserve_physical :: "int \<Rightarrow> int \<Rightarrow> admission \<Rightarrow> unit result \<times> admission" where
  "reserve_physical free requested ad =
     (if free - ad_reserved_total ad - requested < ad_min_free_disk_bytes ad
      then (Inl StorageCapacityExceededError, ad)
      else (Inr (), ad\<lparr>ad_reserved_total := ad_reserved_total ad + requested\<rparr>))"

definition release_physical :: "int \<Rightarrow> admission \<Rightarrow> admission" where
  "release_physical requested ad = ad\<lparr>ad_reserved_total := max 0 (ad_reserved_total ad - requested)\<rparr>"

definition acquire_quota ::
  "storage_env \<Rightarrow> string \<Rightarrow> int \<Rightarrow> int \<Rightarrow> quota_service \<Rightarrow> quota_reservation result \<times> quota_service" where
  "acquire_quota env user bytes entries q =
     (if bytes < 0 \<or> entries < 0 then (Inl (ValueError ''Storage reservation cannot be negative''), q)
      else quota_reserve env user bytes entries q)"

definition acquire_physical ::
  "int \<Rightarrow> int \<Rightarrow> quota_reservation \<Rightarrow> quota_service \<times> admission \<Rightarrow>
     storage_reservation result \<times> quota_service \<times> admission" where
  "acquire_physical free bytes quota st = (case st of (q, ad) \<Rightarrow>
     let physical = max bytes (qr_reserved_bytes quota) in
     case reserve_physical free physical ad of
       (Inl e, ad') \<Rightarrow> (Inl e, snd (quota_release quota q), ad')
     | (Inr _, ad') \<Rightarrow>
         (Inr \<lparr>sr_quota = Some quota, sr_physical_bytes = physical, sr_released = False\<rparr>, q, ad'))"

definition acquire ::
  "storage_env \<Rightarrow> int \<Rightarrow> string \<Rightarrow> int \<Rightarrow> int \<Rightarrow> quota_service \<times> admission \<Rightarrow>
     storage_reservation result \<times> quota_service \<times> admission" where
  "acquire env free user bytes entries st = (case st of (q, ad) \<Rightarrow>
     case acquire_quota env user bytes entries q of
       (Inl e, q') \<Rightarrow> (Inl e, q', ad)
     | (Inr quota, q') \<Rightarrow> acquire_physical free bytes quota (q', ad))"

definition acquire_transient :: "int \<Rightarrow> int \<Rightarrow> admission \<Rightarrow> storage_reservation result \<times> admission" where
  "acquire_transient free bytes ad =
     (if bytes < 0 then (Inl (ValueError ''Storage reservation cannot be negative''), ad)
      else case reserve_physical free bytes ad of
        (Inl e, ad') \<Rightarrow> (Inl e, ad')
      | (Inr _, ad') \<Rightarrow>
          (Inr \<lparr>sr_quota = None, sr_physical_bytes = bytes, sr_released = False\<rparr>, ad'))"

text \<open>The three rechecks forward to the quota reservation, where there is one.\<close>

definition forward_recheck ::
  "'a \<Rightarrow> 'a quota_op \<Rightarrow> storage_reservation \<Rightarrow> quota_service \<Rightarrow>
     'a result \<times> storage_reservation \<times> quota_service" where
  "forward_recheck unaccounted op r q =
     (if sr_released r then (Inl (RuntimeError ''Storage reservation is already released''), r, q)
      else case sr_quota r of
        None \<Rightarrow> (Inr unaccounted, r, q)
      | Some quota \<Rightarrow> (case op quota q of (res, quota', q') \<Rightarrow> (res, r\<lparr>sr_quota := Some quota'\<rparr>, q')))"

definition storage_recheck where
  "storage_recheck env growth = forward_recheck () (quota_recheck env growth)"

definition storage_recheck_estimate where
  "storage_recheck_estimate env bytes entries = forward_recheck () (quota_recheck_estimate env bytes entries)"

definition storage_recheck_path where
  "storage_recheck_path env staged replacing = forward_recheck 0 (quota_recheck_path env staged replacing)"

definition release_quota :: "storage_reservation \<Rightarrow> quota_service \<Rightarrow> storage_reservation \<times> quota_service" where
  "release_quota r q = (case sr_quota r of
     None \<Rightarrow> (r, q)
   | Some quota \<Rightarrow> (case quota_release quota q of (quota', q') \<Rightarrow> (r\<lparr>sr_quota := Some quota'\<rparr>, q')))"

definition finish_release :: "storage_reservation \<Rightarrow> admission \<Rightarrow> storage_reservation \<times> admission" where
  "finish_release r ad =
     (r\<lparr>sr_physical_bytes := 0, sr_released := True\<rparr>, release_physical (sr_physical_bytes r) ad)"

definition release ::
  "storage_reservation \<Rightarrow> quota_service \<times> admission \<Rightarrow> storage_reservation \<times> quota_service \<times> admission" where
  "release r st = (case st of (q, ad) \<Rightarrow>
     if sr_released r then (r, q, ad)
     else case release_quota r q of (r', q') \<Rightarrow> (case finish_release r' ad of (r'', ad') \<Rightarrow> (r'', q', ad')))"

section \<open>Interleavings\<close>

text \<open>\<open>aw_admitted\<close>: the reservations handed out; \<open>aw_pending\<close>: the calls of \<open>acquire\<close> between their two
  sections, with the bytes they ask for. \<open>quota_done\<close> marks the gap in the middle of \<open>release\<close>.\<close>

record adm_world =
  aw_quota :: quota_service
  aw_admission :: admission
  aw_admitted :: "storage_reservation list"
  aw_pending :: "(int \<times> quota_reservation) list"

definition quota_done :: "storage_reservation \<Rightarrow> bool" where
  "quota_done r \<longleftrightarrow> (case sr_quota r of None \<Rightarrow> True | Some quota \<Rightarrow> qr_released quota)"

inductive adm_step :: "adm_world \<Rightarrow> adm_world \<Rightarrow> bool" where
  acquire_quota: "acquire_quota env user bytes entries (aw_quota w) = (Inr quota, q') \<Longrightarrow>
    adm_step w (w\<lparr>aw_quota := q', aw_pending := (bytes, quota) # aw_pending w\<rparr>)"
| acquire_raises: "acquire_quota env user bytes entries (aw_quota w) = (Inl e, q') \<Longrightarrow>
    adm_step w (w\<lparr>aw_quota := q'\<rparr>)"
| acquire_physical: "aw_pending w = xs @ (bytes, quota) # ys \<Longrightarrow>
    acquire_physical free bytes quota (aw_quota w, aw_admission w) = (Inr r, q', ad') \<Longrightarrow>
    adm_step w (w\<lparr>aw_quota := q', aw_admission := ad', aw_admitted := aw_admitted w @ [r],
      aw_pending := xs @ ys\<rparr>)"
| acquire_rolled_back: "aw_pending w = xs @ (bytes, quota) # ys \<Longrightarrow>
    acquire_physical free bytes quota (aw_quota w, aw_admission w) = (Inl e, q', ad') \<Longrightarrow>
    adm_step w (w\<lparr>aw_quota := q', aw_admission := ad', aw_pending := xs @ ys\<rparr>)"
| transient: "acquire_transient free bytes (aw_admission w) = (Inr r, ad') \<Longrightarrow>
    adm_step w (w\<lparr>aw_admission := ad', aw_admitted := aw_admitted w @ [r]\<rparr>)"
| recheck: "i < length (aw_admitted w) \<Longrightarrow>
    storage_recheck env growth (aw_admitted w ! i) (aw_quota w) = (res, r', q') \<Longrightarrow>
    adm_step w (w\<lparr>aw_quota := q', aw_admitted := (aw_admitted w)[i := r']\<rparr>)"
| recheck_estimate: "i < length (aw_admitted w) \<Longrightarrow>
    storage_recheck_estimate env bytes entries (aw_admitted w ! i) (aw_quota w) = (res, r', q') \<Longrightarrow>
    adm_step w (w\<lparr>aw_quota := q', aw_admitted := (aw_admitted w)[i := r']\<rparr>)"
| recheck_path: "i < length (aw_admitted w) \<Longrightarrow>
    storage_recheck_path env staged replacing (aw_admitted w ! i) (aw_quota w) = (res', r', q') \<Longrightarrow>
    adm_step w (w\<lparr>aw_quota := q', aw_admitted := (aw_admitted w)[i := r']\<rparr>)"
| release_quota: "i < length (aw_admitted w) \<Longrightarrow> \<not> sr_released (aw_admitted w ! i) \<Longrightarrow>
    release_quota (aw_admitted w ! i) (aw_quota w) = (r', q') \<Longrightarrow>
    adm_step w (w\<lparr>aw_quota := q', aw_admitted := (aw_admitted w)[i := r']\<rparr>)"
| finish_release: "i < length (aw_admitted w) \<Longrightarrow> \<not> sr_released (aw_admitted w ! i) \<Longrightarrow>
    quota_done (aw_admitted w ! i) \<Longrightarrow> finish_release (aw_admitted w ! i) (aw_admission w) = (r', ad') \<Longrightarrow>
    adm_step w (w\<lparr>aw_admission := ad', aw_admitted := (aw_admitted w)[i := r']\<rparr>)"

definition adm_start :: "admission \<Rightarrow> adm_world" where
  "adm_start ad = \<lparr>aw_quota = quota_init, aw_admission = ad, aw_admitted = [], aw_pending = []\<rparr>"

inductive adm_reachable :: "adm_world \<Rightarrow> bool" where
  init: "admission_init min_free = Inr ad \<Longrightarrow> adm_reachable (adm_start ad)"
| step: "adm_reachable w \<Longrightarrow> adm_step w w' \<Longrightarrow> adm_reachable w'"

section \<open>Both ledgers are exact\<close>

text \<open>The quota reservations behind the admitted and the pending ones; one without quota counts nothing.\<close>

definition quota_part :: "storage_reservation \<Rightarrow> quota_reservation" where
  "quota_part r = (case sr_quota r of Some quota \<Rightarrow> quota
     | None \<Rightarrow> \<lparr>qr_user_id = [], qr_reserved_bytes = 0, qr_released = True\<rparr>)"

definition quota_parts :: "adm_world \<Rightarrow> quota_reservation list" where
  "quota_parts w = map quota_part (aw_admitted w) @ map snd (aw_pending w)"

definition adm_inv :: "adm_world \<Rightarrow> bool" where
  "adm_inv w \<longleftrightarrow> quota_inv (aw_quota w, quota_parts w) \<and>
     ad_reserved_total (aw_admission w) = sum_list (map sr_physical_bytes (aw_admitted w)) \<and>
     (\<forall>r \<in> set (aw_admitted w). 0 \<le> sr_physical_bytes r \<and>
        (sr_released r \<longrightarrow> sr_physical_bytes r = 0 \<and> quota_done r)) \<and>
     (\<forall>(bytes, quota) \<in> set (aw_pending w). 0 \<le> bytes \<and> \<not> qr_released quota)"

interpretation disk_ledger: reservation_ledger adm_inv "\<lambda>w. ad_reserved_total (aw_admission w)"
  "\<lambda>w. map sr_physical_bytes (aw_admitted w)"
  by unfold_locales (auto simp: adm_inv_def)

text \<open>The quota invariant does not depend on the order of the reservations, nor on empty ones.\<close>

lemma quota_inv_mset:
  assumes "quota_inv (q, rs)" "mset rs = mset rs'"
  shows "quota_inv (q, rs')"
proof -
  have "sum_list (user_parts user rs) = sum_list (user_parts user rs')" for user
  proof -
    have "mset (user_parts user rs) = mset (user_parts user rs')" by (simp add: user_parts_def assms(2))
    then have "sum_mset (mset (user_parts user rs)) = sum_mset (mset (user_parts user rs'))" by simp
    then show ?thesis by (simp only: sum_mset_sum_list)
  qed
  moreover have "set rs = set rs'" by (rule mset_eq_setD [OF assms(2)])
  ultimately show ?thesis using assms(1) by (simp add: quota_inv_def)
qed

lemma quota_inv_Cons_empty:
  "qr_reserved_bytes r = 0 \<Longrightarrow> quota_inv (q, r # rs) \<longleftrightarrow> quota_inv (q, rs)"
  by (simp add: quota_inv_def user_parts_def)

lemma mset_move: "mset (xs @ x # ys) = mset (x # xs @ ys)"
  by simp

lemma adm_inv_op:
  assumes "adm_inv w" "i < length (aw_admitted w)"
    and inv: "quota_inv (q', (quota_parts w)[i := quota_part r'])"
    and r': "sr_physical_bytes r' = sr_physical_bytes (aw_admitted w ! i)"
      "sr_released r' = sr_released (aw_admitted w ! i)"
      "sr_released r' \<Longrightarrow> quota_done r'"
  shows "adm_inv (w\<lparr>aw_quota := q', aw_admitted := (aw_admitted w)[i := r']\<rparr>)"
proof -
  have "quota_parts (w\<lparr>aw_quota := q', aw_admitted := (aw_admitted w)[i := r']\<rparr>) =
      (quota_parts w)[i := quota_part r']"
    using assms(2) by (simp add: quota_parts_def map_update list_update_append)
  moreover have "(map sr_physical_bytes (aw_admitted w))[i := sr_physical_bytes r'] =
      map sr_physical_bytes (aw_admitted w)"
    unfolding r'(1) using assms(2) by (metis list_update_id nth_map)
  moreover have "aw_admitted w ! i \<in> set (aw_admitted w)" using assms(2) by simp
  ultimately show ?thesis
    using assms(1) inv r' set_update_subset_insert [of "aw_admitted w" i r']
    unfolding adm_inv_def by (auto simp: map_update)
qed

lemma quota_parts_nth: "i < length (aw_admitted w) \<Longrightarrow> quota_parts w ! i = quota_part (aw_admitted w ! i)"
  "i < length (aw_admitted w) \<Longrightarrow> i < length (quota_parts w)"
  by (simp_all add: quota_parts_def nth_append)

lemma adm_inv_forward:
  assumes "adm_inv w" "i < length (aw_admitted w)"
    "forward_recheck x op (aw_admitted w ! i) (aw_quota w) = (res, r', q')"
    and op: "\<And>quota' res. quota_parts w ! i = quota_part (aw_admitted w ! i) \<Longrightarrow>
      op (quota_parts w ! i) (aw_quota w) = (res, quota', q') \<Longrightarrow>
      quota_inv (q', (quota_parts w)[i := quota'])"
  shows "adm_inv (w\<lparr>aw_quota := q', aw_admitted := (aw_admitted w)[i := r']\<rparr>)"
proof (cases "sr_released (aw_admitted w ! i) \<or> sr_quota (aw_admitted w ! i) = None")
  case True
  then have "r' = aw_admitted w ! i" "q' = aw_quota w"
    using assms(3) by (auto simp: forward_recheck_def split: if_splits)
  then show ?thesis using assms(1) by simp
next
  case False
  then obtain quota where quota: "sr_quota (aw_admitted w ! i) = Some quota" by auto
  obtain x quota' where r': "op quota (aw_quota w) = (x, quota', q')"
    "r' = (aw_admitted w ! i)\<lparr>sr_quota := Some quota'\<rparr>"
    using assms(3) False quota by (auto simp: forward_recheck_def split: prod.splits)
  have "quota_part (aw_admitted w ! i) = quota" by (simp add: quota_part_def quota)
  with op [of x quota'] r'(1) quota_parts_nth [OF assms(2)]
  have "quota_inv (q', (quota_parts w)[i := quota_part r'])"
    by (simp add: r'(2) quota_part_def)
  then show ?thesis
    by (rule adm_inv_op [OF assms(1,2)]) (use False in \<open>simp_all add: r'(2)\<close>)
qed

lemma quota_release_result:
  "qr_user_id (fst (quota_release r q)) = qr_user_id r" "qr_released (fst (quota_release r q))"
  "\<not> qr_released r \<Longrightarrow> qr_reserved_bytes (fst (quota_release r q)) = 0"
  by (simp_all add: quota_release_def)

text \<open>Giving back a reservation and forgetting it.\<close>

lemma quota_inv_give_back:
  assumes "quota_inv (q, rs)" "mset rs = add_mset r (mset rs')" "\<not> qr_released r"
  shows "quota_inv (snd (quota_release r q), rs')"
proof -
  have "quota_inv (q, r # rs')" using quota_inv_mset [OF assms(1)] assms(2) by simp
  from quota_release_inv [OF this, of 0 "fst (quota_release r q)" "snd (quota_release r q)"]
  show ?thesis using quota_inv_Cons_empty [OF quota_release_result(3) [OF assms(3)]] by simp
qed

lemma adm_invD:
  assumes "adm_inv w"
  shows "quota_inv (aw_quota w, quota_parts w)"
    "ad_reserved_total (aw_admission w) = sum_list (map sr_physical_bytes (aw_admitted w))"
    "r \<in> set (aw_admitted w) \<Longrightarrow> 0 \<le> sr_physical_bytes r"
    "r \<in> set (aw_admitted w) \<Longrightarrow> sr_released r \<Longrightarrow> sr_physical_bytes r = 0 \<and> quota_done r"
    "p \<in> set (aw_pending w) \<Longrightarrow> 0 \<le> fst p \<and> \<not> qr_released (snd p)"
  using assms by (auto simp: adm_inv_def)

lemma adm_inv_acquire_quota:
  assumes "adm_inv w" "acquire_quota env user bytes entries (aw_quota w) = (Inr quota, q')"
  shows "adm_inv (w\<lparr>aw_quota := q', aw_pending := (bytes, quota) # aw_pending w\<rparr>)"
proof -
  have r: "quota_reserve env user bytes entries (aw_quota w) = (Inr quota, q')" "0 \<le> bytes"
    using assms(2) by (auto simp: acquire_quota_def split: if_splits)
  have "\<not> qr_released quota" using r(1) by (cases rule: quota_reserve_cases) auto
  moreover have "quota_inv (q', map quota_part (aw_admitted w) @ quota # map snd (aw_pending w))"
    by (rule quota_inv_mset [OF quota_inv_reserve [OF adm_invD(1) [OF assms(1)] r(1)]])
      (simp add: quota_parts_def)
  ultimately show ?thesis using assms(1) r(2) by (auto simp: adm_inv_def quota_parts_def)
qed

lemma adm_inv_quota: "adm_inv w \<Longrightarrow> quota_inv (q', quota_parts w) \<Longrightarrow> adm_inv (w\<lparr>aw_quota := q'\<rparr>)"
  by (simp add: adm_inv_def quota_parts_def)

lemma adm_inv_acquire_raises:
  assumes "adm_inv w" "acquire_quota env user bytes entries (aw_quota w) = (Inl e, q')"
  shows "adm_inv (w\<lparr>aw_quota := q'\<rparr>)"
  using assms quota_inv_raise [OF adm_invD(1) [OF assms(1)]]
  by (intro adm_inv_quota) (auto simp: acquire_quota_def adm_invD(1) split: if_splits)

lemma acquire_physical_cases:
  assumes "acquire_physical free bytes quota (q, ad) = (res, q', ad')"
  obtains (refused) "res = Inl StorageCapacityExceededError" "q' = snd (quota_release quota q)" "ad' = ad"
  | (granted) physical where "physical = max bytes (qr_reserved_bytes quota)" "q' = q"
      "res = Inr \<lparr>sr_quota = Some quota, sr_physical_bytes = physical, sr_released = False\<rparr>"
      "ad' = ad\<lparr>ad_reserved_total := ad_reserved_total ad + physical\<rparr>"
      "ad_min_free_disk_bytes ad \<le> free - ad_reserved_total ad - physical"
  using assms by (auto simp: acquire_physical_def reserve_physical_def Let_def split: if_splits)

lemma adm_inv_acquire_physical:
  assumes "adm_inv w" "aw_pending w = xs @ (bytes, quota) # ys"
    "acquire_physical free bytes quota (aw_quota w, aw_admission w) = (Inr r, q', ad')"
  shows "adm_inv (w\<lparr>aw_quota := q', aw_admission := ad', aw_admitted := aw_admitted w @ [r],
      aw_pending := xs @ ys\<rparr>)"
  using assms(3)
proof (cases rule: acquire_physical_cases)
  case (granted physical)
  have "quota_inv (aw_quota w, map quota_part (aw_admitted w) @ quota # map snd (xs @ ys))"
    by (rule quota_inv_mset [OF adm_invD(1) [OF assms(1)]]) (simp add: quota_parts_def assms(2))
  moreover have "0 \<le> bytes" using adm_invD(5) [OF assms(1), of "(bytes, quota)"] assms(2) by simp
  ultimately show ?thesis
    using assms(1,2) granted by (auto simp: adm_inv_def quota_parts_def quota_part_def)
qed simp

lemma adm_inv_rolled_back:
  assumes "adm_inv w" "aw_pending w = xs @ (bytes, quota) # ys"
    "acquire_physical free bytes quota (aw_quota w, aw_admission w) = (Inl e, q', ad')"
  shows "adm_inv (w\<lparr>aw_quota := q', aw_admission := ad', aw_pending := xs @ ys\<rparr>)"
  using assms(3)
proof (cases rule: acquire_physical_cases)
  case refused
  have "quota_inv (q', map quota_part (aw_admitted w) @ map snd (xs @ ys))"
    unfolding refused(2)
    by (rule quota_inv_give_back [OF adm_invD(1) [OF assms(1)]])
      (use adm_invD(5) [OF assms(1), of "(bytes, quota)"] in \<open>simp_all add: quota_parts_def assms(2)\<close>)
  then show ?thesis using assms(1,2) refused by (auto simp: adm_inv_def quota_parts_def)
qed simp

lemma adm_inv_transient:
  assumes "adm_inv w" "acquire_transient free bytes (aw_admission w) = (Inr r, ad')"
  shows "adm_inv (w\<lparr>aw_admission := ad', aw_admitted := aw_admitted w @ [r]\<rparr>)"
proof -
  have r: "r = \<lparr>sr_quota = None, sr_physical_bytes = bytes, sr_released = False\<rparr>" "0 \<le> bytes"
    "ad' = (aw_admission w)\<lparr>ad_reserved_total := ad_reserved_total (aw_admission w) + bytes\<rparr>"
    using assms(2) by (auto simp: acquire_transient_def reserve_physical_def split: if_splits)
  have "quota_inv (aw_quota w, quota_part r # quota_parts w)"
    using adm_invD(1) [OF assms(1)] by (subst quota_inv_Cons_empty) (simp_all add: quota_part_def r)
  then have "quota_inv (aw_quota w, map quota_part (aw_admitted w) @ quota_part r # map snd (aw_pending w))"
    by (rule quota_inv_mset) (simp add: quota_parts_def)
  with assms(1) r show ?thesis by (auto simp: adm_inv_def quota_parts_def)
qed

lemma adm_inv_release_quota:
  assumes "adm_inv w" "i < length (aw_admitted w)" "\<not> sr_released (aw_admitted w ! i)"
    "release_quota (aw_admitted w ! i) (aw_quota w) = (r', q')"
  shows "adm_inv (w\<lparr>aw_quota := q', aw_admitted := (aw_admitted w)[i := r']\<rparr>)"
proof (cases "sr_quota (aw_admitted w ! i)")
  case None
  then have "r' = aw_admitted w ! i" "q' = aw_quota w" using assms(4) by (simp_all add: release_quota_def)
  then show ?thesis using assms(1) by simp
next
  case (Some quota)
  have p: "quota_parts w ! i = quota" using quota_parts_nth(1) [OF assms(2)] Some by (simp add: quota_part_def)
  obtain quota' where r': "quota_release quota (aw_quota w) = (quota', q')"
    "r' = (aw_admitted w ! i)\<lparr>sr_quota := Some quota'\<rparr>"
    using assms(4) Some by (auto simp: release_quota_def split: prod.splits)
  from quota_release_inv [OF adm_invD(1) [OF assms(1)] quota_parts_nth(2) [OF assms(2)]] p r'(1)
  have "quota_inv (q', (quota_parts w)[i := quota_part r'])" by (simp add: r'(2) quota_part_def)
  then show ?thesis by (rule adm_inv_op [OF assms(1,2)]) (use assms(3) in \<open>simp_all add: r'(2)\<close>)
qed

lemma adm_inv_finish_release:
  assumes "adm_inv w" "i < length (aw_admitted w)" "quota_done (aw_admitted w ! i)"
    "finish_release (aw_admitted w ! i) (aw_admission w) = (r', ad')"
  shows "adm_inv (w\<lparr>aw_admission := ad', aw_admitted := (aw_admitted w)[i := r']\<rparr>)"
proof -
  let ?r = "aw_admitted w ! i"
  have r: "?r \<in> set (aw_admitted w)" using assms(2) by simp
  have le: "sr_physical_bytes ?r \<le> ad_reserved_total (aw_admission w)"
    by (rule disk_ledger.part_le_total [OF assms(1)]) (use r in simp)
  have r': "r' = ?r\<lparr>sr_physical_bytes := 0, sr_released := True\<rparr>"
    "ad' = release_physical (sr_physical_bytes ?r) (aw_admission w)"
    using assms(4) by (simp_all add: finish_release_def)
  have "(map quota_part (aw_admitted w))[i := quota_part r'] = map quota_part (aw_admitted w)"
    using assms(2) by (metis list_update_id nth_map quota_part_def r'(1) storage_reservation.select_convs(1)
        storage_reservation.surjective storage_reservation.update_convs(2,3))
  then have "quota_parts (w\<lparr>aw_admission := ad', aw_admitted := (aw_admitted w)[i := r']\<rparr>) = quota_parts w"
    by (simp add: quota_parts_def map_update)
  moreover have "ad_reserved_total ad' = (\<Sum>r\<leftarrow>(aw_admitted w)[i := r']. sr_physical_bytes r)"
    using le adm_invD(2) [OF assms(1)] assms(2)
    by (simp add: sum_list_map_update r' release_physical_def)
  moreover have "\<forall>r \<in> set ((aw_admitted w)[i := r']). 0 \<le> sr_physical_bytes r \<and>
      (sr_released r \<longrightarrow> sr_physical_bytes r = 0 \<and> quota_done r)"
    using set_update_subset_insert [of "aw_admitted w" i r'] adm_invD(3,4) [OF assms(1)] assms(3)
    by (auto simp: r'(1) quota_done_def)
  ultimately show ?thesis using assms(1) unfolding adm_inv_def by simp
qed

lemma adm_inv_step: "adm_step w w' \<Longrightarrow> adm_inv w \<Longrightarrow> adm_inv w'"
proof (induction rule: adm_step.induct)
  case (recheck i w env growth res r' q')
  then show ?case
    using quota_recheck_inv [OF adm_invD(1) [OF recheck.prems] quota_parts_nth(2)]
    by (intro adm_inv_forward [OF _ _ recheck.hyps(2) [unfolded storage_recheck_def]])
next
  case (recheck_estimate i w env bytes entries res r' q')
  then show ?case
    using quota_recheck_estimate_inv [OF adm_invD(1) [OF recheck_estimate.prems] quota_parts_nth(2)]
    by (intro adm_inv_forward [OF _ _ recheck_estimate.hyps(2) [unfolded storage_recheck_estimate_def]])
next
  case (recheck_path i w env staged replacing res' r' q')
  then show ?case
    using quota_recheck_path_inv [OF adm_invD(1) [OF recheck_path.prems] quota_parts_nth(2)]
    by (intro adm_inv_forward [OF _ _ recheck_path.hyps(2) [unfolded storage_recheck_path_def]])
qed (auto intro: adm_inv_acquire_quota adm_inv_acquire_raises adm_inv_acquire_physical adm_inv_rolled_back
      adm_inv_transient adm_inv_release_quota adm_inv_finish_release)

lemma adm_reachable_inv: "adm_reachable w \<Longrightarrow> adm_inv w"
proof (induction rule: adm_reachable.induct)
  case (init min_free ad)
  then show ?case
    using quota_reachable_inv [OF quota_reachable.init]
    by (auto simp: adm_inv_def adm_start_def quota_parts_def admission_init_def split: if_splits)
qed (rule adm_inv_step)

section \<open>Example\<close>

definition example_admission :: admission where
  "example_admission = \<lparr>ad_min_free_disk_bytes = 1000, ad_reserved_total = 0\<rparr>"

definition example_acquired :: "storage_reservation result \<times> quota_service \<times> admission" where
  "example_acquired = acquire example_env 100000 ''u'' 5000 1 (quota_init, example_admission)"

lemma example_start: "adm_reachable (adm_start example_admission)"
  by (rule adm_reachable.init [of 1000]) (simp add: admission_init_def example_admission_def)

definition example_transient :: adm_world where
  "example_transient = (adm_start example_admission)\<lparr>
     aw_admission := example_admission\<lparr>ad_reserved_total := 7000\<rparr>,
     aw_admitted := [\<lparr>sr_quota = None, sr_physical_bytes = 7000, sr_released = False\<rparr>]\<rparr>"

lemma example_transient_reachable: "adm_reachable example_transient"
proof -
  have "acquire_transient 100000 7000 (aw_admission (adm_start example_admission)) =
      (Inr \<lparr>sr_quota = None, sr_physical_bytes = 7000, sr_released = False\<rparr>,
       example_admission\<lparr>ad_reserved_total := 7000\<rparr>)" by code_simp
  from adm_reachable.step [OF example_start adm_step.transient [OF this]]
  show ?thesis by (simp add: example_transient_def adm_start_def)
qed

section \<open>Properties\<close>

text \<open>C32: whatever the interleaving of writers, both ledgers are exact. The disk headroom held is the sum of
  what the admitted reservations hold, what is held for each user is the sum of the quota reservations
  behind the admitted and the pending ones, and once no call is pending and everything is released, both
  ledgers are empty.\<close>

theorem storage_ledgers_exact:
  assumes "adm_reachable w"
  shows "ad_reserved_total (aw_admission w) = (\<Sum>r\<leftarrow>aw_admitted w. sr_physical_bytes r) \<and>
    user_reserved (aw_quota w) user =
      (\<Sum>r\<leftarrow>quota_parts w. if qr_user_id r = user then qr_reserved_bytes r else 0) \<and>
    (aw_pending w = [] \<and> (\<forall>r \<in> set (aw_admitted w). sr_released r) \<longrightarrow>
       ad_reserved_total (aw_admission w) = 0 \<and> user_reserved (aw_quota w) user = 0)"
proof (intro conjI impI)
  note inv = adm_reachable_inv [OF assms]
  note quota = adm_invD(1) [OF inv]
  show "ad_reserved_total (aw_admission w) = (\<Sum>r\<leftarrow>aw_admitted w. sr_physical_bytes r)"
    by (rule adm_invD(2) [OF inv])
  show "user_reserved (aw_quota w) user =
      (\<Sum>r\<leftarrow>quota_parts w. if qr_user_id r = user then qr_reserved_bytes r else 0)"
    using quota_invD(2) [OF quota] by (simp add: user_parts_def)
  assume settled: "aw_pending w = [] \<and> (\<forall>r \<in> set (aw_admitted w). sr_released r)"
  then show "ad_reserved_total (aw_admission w) = 0"
    using disk_ledger.total_zero_iff [OF inv] adm_invD(4) [OF inv] by simp
  have "qr_reserved_bytes r = 0" if m: "r \<in> set (quota_parts w)" for r
  proof -
    obtain a where a: "a \<in> set (aw_admitted w)" "r = quota_part a"
      using m settled by (auto simp: quota_parts_def)
    then have "qr_released r"
      using adm_invD(4) [OF inv a(1)] settled by (auto simp: quota_done_def quota_part_def split: option.splits)
    then show ?thesis using quota_invD(4) [OF quota m] by simp
  qed
  then have "\<forall>p \<in> set (user_parts user (quota_parts w)). p = 0" by (auto simp: user_parts_def)
  then show "user_reserved (aw_quota w) user = 0"
    using user_ledger.total_zero_iff [OF quota, of user] by simp
qed

theorem storage_ledgers_exact_witness: "ad_reserved_total (aw_admission example_transient) = 7000"
  using storage_ledgers_exact [OF example_transient_reachable] by (simp add: example_transient_def)

text \<open>C33: \<open>acquire\<close> takes both or none. When it raises, no ledger has changed, whichever of the two limits
  refused; when it returns, the headroom held covers the requested bytes and leaves the configured reserve
  free, and the user holds what the quota granted.\<close>

theorem acquire_all_or_nothing:
  assumes "adm_reachable w"
    "acquire env free user bytes entries (aw_quota w, aw_admission w) = (res, q', ad')"
  shows "(\<forall>e. res = Inl e \<longrightarrow> ad' = aw_admission w \<and>
       (\<forall>u. user_reserved q' u = user_reserved (aw_quota w) u)) \<and>
    (\<forall>r. res = Inr r \<longrightarrow> bytes \<le> sr_physical_bytes r \<and>
       ad_reserved_total ad' = ad_reserved_total (aw_admission w) + sr_physical_bytes r \<and>
       ad_min_free_disk_bytes (aw_admission w) \<le> free - ad_reserved_total ad' \<and>
       (\<exists>quota. sr_quota r = Some quota \<and> qr_user_id quota = user \<and>
          user_reserved q' user = user_reserved (aw_quota w) user + qr_reserved_bytes quota))"
proof -
  note inv = adm_invD(1) [OF adm_reachable_inv [OF assms(1)]]
  obtain qres q1 where q: "acquire_quota env user bytes entries (aw_quota w) = (qres, q1)" by fastforce
  show ?thesis
  proof (cases qres)
    case (Inl e)
    have "user_reserved q1 u = user_reserved (aw_quota w) u" for u
      using q Inl get_allocation_unit_frame(1) [of env "aw_quota w"]
      by (auto simp: acquire_quota_def quota_reserve_def Let_def
          split: if_splits option.splits prod.splits sum.splits)
    with assms(2) q Inl show ?thesis by (auto simp: acquire_def)
  next
    case (Inr quota)
    have r: "quota_reserve env user bytes entries (aw_quota w) = (Inr quota, q1)"
      using q Inr by (auto simp: acquire_quota_def split: if_splits)
    have p: "acquire_physical free bytes quota (q1, aw_admission w) = (res, q', ad')"
      using assms(2) q Inr by (simp add: acquire_def)
    have held: "qr_user_id quota = user" "\<not> qr_released quota" "0 \<le> user_reserved (aw_quota w) u"
      "user_reserved q1 u = user_reserved (aw_quota w) u + (if u = user then qr_reserved_bytes quota else 0)"
      for u
      using r user_ledger.total_nonneg [OF inv, of u] get_allocation_unit_frame(1) [of env "aw_quota w"]
      by (cases rule: quota_reserve_cases; simp add: user_reserved_def)+
    from p show ?thesis
    proof (cases rule: acquire_physical_cases)
      case refused
      have "user_reserved q' u = user_reserved (aw_quota w) u" for u
        using held(3,4) [of u] held(4) [of user]
        by (cases "u = user") (simp_all add: refused(2) quota_release_def held(1,2))
      with refused show ?thesis by simp
    qed (use held in auto)
  qed
qed

theorem acquire_all_or_nothing_witness:
  "\<exists>r. fst example_acquired = Inr r \<and> 5000 \<le> sr_physical_bytes r"
proof -
  have e: "acquire example_env 100000 ''u'' 5000 1
      (aw_quota (adm_start example_admission), aw_admission (adm_start example_admission)) =
      (fst example_acquired, fst (snd example_acquired), snd (snd example_acquired))"
    by (simp add: example_acquired_def adm_start_def)
  have "\<not> isl (fst example_acquired)" by code_simp
  then obtain r where "fst example_acquired = Inr r" by (cases "fst example_acquired") auto
  with acquire_all_or_nothing [OF example_start e] show ?thesis by blast
qed

end
