(* ===== verification/EventHub.thy ===== *)
theory EventHub
  imports Background
begin

text \<open>
  The hub that tells the sessions of a user which resources to read again: \<^verbatim>\<open>services/events.py\<close> and the
  events of \<^verbatim>\<open>domain/events.py\<close>.

  A subscription is shared between the hub and the client that reads it, so subscriptions live in a store
  (\<open>eh_streams\<close>) and are named by their index. Every public method of the hub runs under its lock and is
  one step; \<open>receive\<close> is a step of the client. \<open>uuid4\<close> and \<open>datetime.now\<close> are arguments.

  The invariant is about histories: \<open>hw_log\<close> records what was published to whom, \<open>hw_got\<close> what each client
  took from its queue. A registered client has taken or still finds exactly what was published to its user
  since it subscribed; any other one is closed and ends with a mark that tells it so.
\<close>

section \<open>Events\<close>

datatype event_resource_type = WorkspaceResource | TabResource | AnalysisResource | UserFileImportResource

datatype runtime_state = RuntimeClosed | RuntimeOpen | RuntimeClosing

datatype event_body =
    StreamReady
  | ResourceChanged event_resource_type uuid "uuid option" "background_state option" "progress option" int
  | ResourceProgress event_resource_type uuid "uuid option" progress
  | ResourceRemoved event_resource_type uuid "uuid option" "int option"
  | WorkspaceRuntimeChanged uuid runtime_state
  | ResyncRequired

record backend_event =
  ev_sequence :: int
  ev_occurred_at :: timestamp
  ev_body :: event_body

text \<open>The constraints of the event models on what the hub is given.\<close>

definition event_body_ok :: "event_body \<Rightarrow> bool" where
  "event_body_ok b = (case b of
     ResourceChanged _ _ _ _ _ revision \<Rightarrow> 1 \<le> revision
   | ResourceProgress kind _ _ _ \<Rightarrow> kind \<in> {AnalysisResource, UserFileImportResource}
   | ResourceRemoved _ _ _ revision \<Rightarrow> option_ok (\<lambda>n. 1 \<le> n) revision
   | _ \<Rightarrow> True)"

definition make_event :: "int \<Rightarrow> timestamp \<Rightarrow> event_body \<Rightarrow> backend_event result" where
  "make_event sequence now b = raise_first [field_check (1 \<le> sequence \<and> event_body_ok b)]
     \<lparr>ev_sequence = sequence, ev_occurred_at = now, ev_body = b\<rparr>"

section \<open>State\<close>

record event_subscription =
  es_queue :: "backend_event option list"
  es_closed :: bool

record subscriber =
  sb_user_id :: string
  sb_session_id :: string
  sb_stream :: nat

record event_hub =
  eh_subscriber_queue_size :: nat
  eh_subscribers :: "(uuid, subscriber) dict"
  eh_streams :: "event_subscription list"
  eh_sequence :: int
  eh_closed :: bool

definition event_hub_init :: "int \<Rightarrow> event_hub result" where
  "event_hub_init maxsize = (if maxsize < 1 then Inl (ValueError ''Event subscriber queue size must be positive'')
     else Inr \<lparr>eh_subscriber_queue_size = nat maxsize, eh_subscribers = [], eh_streams = [],
       eh_sequence = 0, eh_closed = False\<rparr>)"

abbreviation stream_at :: "event_hub \<Rightarrow> nat \<Rightarrow> event_subscription" where
  "stream_at h a \<equiv> eh_streams h ! a"

abbreviation set_stream :: "nat \<Rightarrow> event_subscription \<Rightarrow> event_hub \<Rightarrow> event_hub" where
  "set_stream a s h \<equiv> h\<lparr>eh_streams := (eh_streams h)[a := s]\<rparr>"

section \<open>Operations\<close>

definition next_sequence :: "event_hub \<Rightarrow> event_hub" where
  "next_sequence h = h\<lparr>eh_sequence := eh_sequence h + 1\<rparr>"

definition close_subscription :: "event_subscription \<Rightarrow> event_subscription" where
  "close_subscription s = (if es_closed s then s else \<lparr>es_queue = [None], es_closed = True\<rparr>)"

text \<open>The first event of a subscription: a valid one, as the new sequence number is positive.\<close>

definition subscribe ::
  "uuid \<Rightarrow> timestamp \<Rightarrow> string \<Rightarrow> string \<Rightarrow> event_hub \<Rightarrow> nat result \<times> event_hub" where
  "subscribe i now user session h =
     (if eh_closed h then (Inl (RuntimeError ''Event hub is closed''), h)
      else
        (let a = length (eh_streams h);
             h1 = h\<lparr>eh_subscribers := AList.update i
               \<lparr>sb_user_id = user, sb_session_id = session, sb_stream = a\<rparr> (eh_subscribers h)\<rparr>;
             h2 = next_sequence h1
         in case make_event (eh_sequence h2) now StreamReady of
              Inl e \<Rightarrow> (Inl e, h2\<lparr>eh_streams := eh_streams h2 @ [\<lparr>es_queue = [], es_closed = False\<rparr>]\<rparr>)
            | Inr ready \<Rightarrow>
                (Inr a, h2\<lparr>eh_streams := eh_streams h2 @ [\<lparr>es_queue = [Some ready], es_closed = False\<rparr>]\<rparr>)))"

definition remove_subscription :: "nat \<Rightarrow> event_hub \<Rightarrow> event_hub" where
  "remove_subscription a h = h\<lparr>eh_subscribers := filter (\<lambda>(i, s). sb_stream s \<noteq> a) (eh_subscribers h)\<rparr>"

definition close_stream :: "nat \<Rightarrow> event_hub \<Rightarrow> event_hub" where
  "close_stream a h = set_stream a (close_subscription (stream_at h a)) h"

definition unsubscribe :: "nat \<Rightarrow> event_hub \<Rightarrow> event_hub" where
  "unsubscribe a h = close_stream a (remove_subscription a h)"

definition close_session_streams :: "string \<Rightarrow> event_hub \<Rightarrow> event_hub" where
  "close_session_streams session h = fold
     (\<lambda>(i, s) h. close_stream (sb_stream s) (h\<lparr>eh_subscribers := AList.delete i (eh_subscribers h)\<rparr>))
     (filter (\<lambda>(i, s). sb_session_id s = session) (eh_subscribers h)) h"

text \<open>One round of the loop of \<open>_publish_locked\<close>. A full queue is emptied, the client is told to
  resynchronise, and its subscription ends.\<close>

definition deliver ::
  "string \<Rightarrow> timestamp \<Rightarrow> backend_event \<Rightarrow> uuid \<times> subscriber \<Rightarrow> event_hub \<Rightarrow> event_hub" where
  "deliver user now event p h = (case p of (i, s) \<Rightarrow>
     let a = sb_stream s; queue = es_queue (stream_at h a) in
     if sb_user_id s \<noteq> user then h
     else if length queue < eh_subscriber_queue_size h
     then set_stream a ((stream_at h a)\<lparr>es_queue := queue @ [Some event]\<rparr>) h
     else
       (let h1 = next_sequence h
        in set_stream a \<lparr>es_queue = [Some \<lparr>ev_sequence = eh_sequence h1, ev_occurred_at = now,
               ev_body = ResyncRequired\<rparr>], es_closed = True\<rparr>
             (h1\<lparr>eh_subscribers := AList.delete i (eh_subscribers h1)\<rparr>)))"

definition publish_locked :: "string \<Rightarrow> timestamp \<Rightarrow> backend_event \<Rightarrow> event_hub \<Rightarrow> event_hub" where
  "publish_locked user now event h = fold (deliver user now event) (eh_subscribers h) h"

text \<open>The four \<open>publish_*\<close> methods differ in the event they build. An invalid one has used up its sequence
  number by the time it is refused.\<close>

definition publish ::
  "string \<Rightarrow> timestamp \<Rightarrow> event_body \<Rightarrow> event_hub \<Rightarrow> unit result \<times> event_hub" where
  "publish user now b h =
     (let h1 = next_sequence h in
      case make_event (eh_sequence h1) now b of
        Inl e \<Rightarrow> (Inl e, h1)
      | Inr event \<Rightarrow> (Inr (), publish_locked user now event h1))"

definition publish_changed where
  "publish_changed user now kind i workspace state progress revision =
     publish user now (ResourceChanged kind i workspace state progress revision)"

definition publish_removed where
  "publish_removed user now kind i workspace revision =
     publish user now (ResourceRemoved kind i workspace revision)"

definition publish_progress where
  "publish_progress user now kind i workspace progress =
     publish user now (ResourceProgress kind i workspace progress)"

definition publish_workspace_runtime where
  "publish_workspace_runtime user now workspace state =
     publish user now (WorkspaceRuntimeChanged workspace state)"

definition close_hub :: "event_hub \<Rightarrow> event_hub" where
  "close_hub h = (if eh_closed h then h
     else fold (\<lambda>s. close_stream (sb_stream s)) (dict_values (eh_subscribers h))
       (h\<lparr>eh_closed := True, eh_subscribers := []\<rparr>))"

text \<open>\<open>receive\<close>: an event, the end of the stream, or a suspended client.\<close>

datatype received = Received backend_event | EndOfStream | Suspended

definition receive :: "nat \<Rightarrow> event_hub \<Rightarrow> received \<times> event_hub" where
  "receive a h = (case es_queue (stream_at h a) of
     [] \<Rightarrow> (if es_closed (stream_at h a) then EndOfStream else Suspended, h)
   | x # xs \<Rightarrow> (case x of None \<Rightarrow> EndOfStream | Some event \<Rightarrow> Received event,
       set_stream a ((stream_at h a)\<lparr>es_queue := xs\<rparr>) h))"

section \<open>Histories\<close>

record hub_world =
  hw_hub :: event_hub
  hw_log :: "(string \<times> backend_event) list"
  hw_start :: "(string \<times> backend_event \<times> nat) list"
  hw_got :: "backend_event option list list"

inductive hub_step :: "hub_world \<Rightarrow> hub_world \<Rightarrow> bool" where
  subscribe: "i \<notin> fst ` set (eh_subscribers (hw_hub w)) \<Longrightarrow>
    subscribe i now user session (hw_hub w) = (Inr a, h') \<Longrightarrow>
    hub_step w (w\<lparr>hw_hub := h', hw_got := hw_got w @ [[]],
      hw_start := hw_start w @ [(user, the (hd (es_queue (stream_at h' a))), length (hw_log w))]\<rparr>)"
| subscribe_raises: "subscribe i now user session (hw_hub w) = (Inl e, h') \<Longrightarrow>
    eh_closed (hw_hub w) \<Longrightarrow> hub_step w (w\<lparr>hw_hub := h'\<rparr>)"
| publish: "publish user now b (hw_hub w) = (Inr (), h') \<Longrightarrow>
    hub_step w (w\<lparr>hw_hub := h', hw_log := hw_log w @ [(user,
      \<lparr>ev_sequence = eh_sequence (hw_hub w) + 1, ev_occurred_at = now, ev_body = b\<rparr>)]\<rparr>)"
| publish_raises: "publish user now b (hw_hub w) = (Inl e, h') \<Longrightarrow> hub_step w (w\<lparr>hw_hub := h'\<rparr>)"
| unsubscribe: "a < length (eh_streams (hw_hub w)) \<Longrightarrow> hub_step w (w\<lparr>hw_hub := unsubscribe a (hw_hub w)\<rparr>)"
| close_session: "hub_step w (w\<lparr>hw_hub := close_session_streams session (hw_hub w)\<rparr>)"
| close_hub: "hub_step w (w\<lparr>hw_hub := close_hub (hw_hub w)\<rparr>)"
| receive: "a < length (eh_streams (hw_hub w)) \<Longrightarrow> receive a (hw_hub w) = (res, h') \<Longrightarrow>
    hub_step w (w\<lparr>hw_hub := h', hw_got := (hw_got w)[a := hw_got w ! a @
      take 1 (es_queue (stream_at (hw_hub w) a))]\<rparr>)"

definition hub_start :: "event_hub \<Rightarrow> hub_world" where
  "hub_start h = \<lparr>hw_hub = h, hw_log = [], hw_start = [], hw_got = []\<rparr>"

inductive hub_reachable :: "hub_world \<Rightarrow> bool" where
  init: "event_hub_init maxsize = Inr h \<Longrightarrow> hub_reachable (hub_start h)"
| step: "hub_reachable w \<Longrightarrow> hub_step w w' \<Longrightarrow> hub_reachable w'"

text \<open>What is due to the subscription \<open>a\<close>: the ready event, then what was published to its user.\<close>

definition due :: "hub_world \<Rightarrow> nat \<Rightarrow> backend_event list" where
  "due w a = (case hw_start w ! a of (user, ready, n) \<Rightarrow>
     ready # map snd (filter (\<lambda>p. fst p = user) (drop n (hw_log w))))"

definition stream_history :: "hub_world \<Rightarrow> nat \<Rightarrow> backend_event option list" where
  "stream_history w a = hw_got w ! a @ es_queue (stream_at (hw_hub w) a)"

definition registered :: "event_hub \<Rightarrow> nat \<Rightarrow> bool" where
  "registered h a \<longleftrightarrow> (\<exists>(i, s) \<in> set (eh_subscribers h). sb_stream s = a)"

definition end_mark :: "backend_event option \<Rightarrow> bool" where
  "end_mark x \<longleftrightarrow> (case x of None \<Rightarrow> True | Some event \<Rightarrow> ev_body event = ResyncRequired)"

definition events_of :: "backend_event option list \<Rightarrow> backend_event list" where
  "events_of xs = map the (filter (\<lambda>x. x \<noteq> None) xs)"

lemma events_of_simps [simp]:
  "events_of [] = []" "events_of (None # xs) = events_of xs" "events_of (Some e # xs) = e # events_of xs"
  "events_of (xs @ ys) = events_of xs @ events_of ys" "events_of (map Some es) = es"
  by (simp_all add: events_of_def filter_map comp_def)

section \<open>Invariant\<close>

definition hub_ok :: "event_hub \<Rightarrow> bool" where
  "hub_ok h \<longleftrightarrow> wf_dict (eh_subscribers h) \<and> distinct (map (\<lambda>p. sb_stream (snd p)) (eh_subscribers h)) \<and>
     (\<forall>p \<in> set (eh_subscribers h). sb_stream (snd p) < length (eh_streams h)) \<and>
     1 \<le> eh_subscriber_queue_size h \<and> 0 \<le> eh_sequence h"

text \<open>The history of one subscription, and its sequence numbers.\<close>

definition history_ok :: "hub_world \<Rightarrow> nat \<Rightarrow> bool" where
  "history_ok w a \<longleftrightarrow>
     length (es_queue (stream_at (hw_hub w) a)) \<le> eh_subscriber_queue_size (hw_hub w) \<and>
     (es_closed (stream_at (hw_hub w) a) \<longleftrightarrow> \<not> registered (hw_hub w) a) \<and>
     (if registered (hw_hub w) a then stream_history w a = map Some (due w a)
      else \<exists>k mark. k \<le> length (due w a) \<and> end_mark mark \<and>
        stream_history w a = map Some (take k (due w a)) @ [mark])"

definition sequences_ok :: "hub_world \<Rightarrow> nat \<Rightarrow> bool" where
  "sequences_ok w a \<longleftrightarrow> sorted_wrt (<) (map ev_sequence (events_of (stream_history w a))) \<and>
     (\<forall>e \<in> set (events_of (stream_history w a)). ev_sequence e \<le> eh_sequence (hw_hub w))"

definition hub_inv :: "hub_world \<Rightarrow> bool" where
  "hub_inv w \<longleftrightarrow> hub_ok (hw_hub w) \<and> (eh_closed (hw_hub w) \<longrightarrow> eh_subscribers (hw_hub w) = []) \<and>
     length (hw_start w) = length (eh_streams (hw_hub w)) \<and> length (hw_got w) = length (eh_streams (hw_hub w)) \<and>
     (\<forall>a < length (hw_start w). snd (snd (hw_start w ! a)) \<le> length (hw_log w)) \<and>
     (\<forall>p \<in> set (eh_subscribers (hw_hub w)). fst (hw_start w ! sb_stream (snd p)) = sb_user_id (snd p)) \<and>
     (\<forall>a < length (eh_streams (hw_hub w)). history_ok w a \<and> sequences_ok w a)"

section \<open>Delivery\<close>

text \<open>What happens to a subscription: nothing, the event is appended, or it ends with a resync event.\<close>

definition unchanged :: "event_hub \<Rightarrow> event_hub \<Rightarrow> nat \<Rightarrow> bool" where
  "unchanged h h' a \<longleftrightarrow> stream_at h' a = stream_at h a \<and> (registered h' a \<longleftrightarrow> registered h a)"

definition appended :: "backend_event \<Rightarrow> event_hub \<Rightarrow> event_hub \<Rightarrow> nat \<Rightarrow> bool" where
  "appended event h h' a \<longleftrightarrow> registered h a \<and> registered h' a \<and>
     length (es_queue (stream_at h a)) < eh_subscriber_queue_size h \<and>
     stream_at h' a = (stream_at h a)\<lparr>es_queue := es_queue (stream_at h a) @ [Some event]\<rparr>"

definition resynced :: "event_hub \<Rightarrow> event_hub \<Rightarrow> nat \<Rightarrow> bool" where
  "resynced h h' a \<longleftrightarrow> registered h a \<and> \<not> registered h' a \<and>
     (\<exists>event. ev_body event = ResyncRequired \<and> eh_sequence h < ev_sequence event \<and>
        ev_sequence event \<le> eh_sequence h' \<and>
        stream_at h' a = \<lparr>es_queue = [Some event], es_closed = True\<rparr>)"

definition hub_frame :: "event_hub \<Rightarrow> event_hub \<Rightarrow> bool" where
  "hub_frame h h' \<longleftrightarrow> hub_ok h' \<and> length (eh_streams h') = length (eh_streams h) \<and>
     eh_subscriber_queue_size h' = eh_subscriber_queue_size h \<and> eh_closed h' = eh_closed h \<and>
     eh_sequence h \<le> eh_sequence h' \<and> set (eh_subscribers h') \<subseteq> set (eh_subscribers h)"

lemma hub_ok_unique:
  assumes "hub_ok h" "p \<in> set (eh_subscribers h)" "p' \<in> set (eh_subscribers h)"
    "fst p = fst p' \<or> sb_stream (snd p) = sb_stream (snd p')"
  shows "p = p'"
  using assms unfolding hub_ok_def distinct_map by (auto dest: inj_onD)

lemma hub_ok_delete:
  assumes "hub_ok h" "subs = filter P (eh_subscribers h)"
  shows "hub_ok (h\<lparr>eh_subscribers := subs\<rparr>)"
  using assms by (auto simp: hub_ok_def distinct_map inj_on_def)

lemma registered_delete:
  assumes "hub_ok h" "(i, s) \<in> set (eh_subscribers h)" "eh_subscribers h' = AList.delete i (eh_subscribers h)"
  shows "registered h' a \<longleftrightarrow> registered h a \<and> a \<noteq> sb_stream s"
proof -
  have "fst p \<noteq> i \<longleftrightarrow> sb_stream (snd p) \<noteq> sb_stream s" if "p \<in> set (eh_subscribers h)" for p
    using hub_ok_unique [OF assms(1) that assms(2)] by (metis fst_conv snd_conv)
  moreover have "set (eh_subscribers h') = {p \<in> set (eh_subscribers h). fst p \<noteq> i}"
    by (auto simp: assms(3) AList.delete_eq)
  ultimately have "set (eh_subscribers h') =
      {p \<in> set (eh_subscribers h). sb_stream (snd p) \<noteq> sb_stream s}" by blast
  then show ?thesis unfolding registered_def case_prod_unfold by blast
qed

lemma hub_ok_set_stream [simp]: "hub_ok (set_stream a x h) \<longleftrightarrow> hub_ok h"
  by (simp add: hub_ok_def)

lemma hub_ok_next: "hub_ok h \<Longrightarrow> hub_ok (next_sequence h)"
  by (simp add: hub_ok_def next_sequence_def)

lemma deliver_spec:
  fixes user :: string and now :: timestamp and event :: backend_event
  assumes "hub_ok h" "(i, s) \<in> set (eh_subscribers h)"
  defines "h' \<equiv> deliver user now event (i, s) h"
  shows "hub_frame h h'"
    "a < length (eh_streams h) \<Longrightarrow> a \<noteq> sb_stream s \<or> sb_user_id s \<noteq> user \<Longrightarrow> unchanged h h' a"
    "sb_user_id s = user \<Longrightarrow> appended event h h' (sb_stream s) \<or> resynced h h' (sb_stream s)"
    "p \<in> set (eh_subscribers h) \<Longrightarrow> sb_stream (snd p) \<noteq> sb_stream s \<Longrightarrow> p \<in> set (eh_subscribers h')"
proof -
  let ?a = "sb_stream s"
  have a: "?a < length (eh_streams h)" using assms(1,2) by (auto simp: hub_ok_def)
  have reg: "registered h ?a" using assms(2) by (auto simp: registered_def)
  consider (other) "sb_user_id s \<noteq> user" "h' = h"
    | (room) "sb_user_id s = user" "length (es_queue (stream_at h ?a)) < eh_subscriber_queue_size h"
        "h' = set_stream ?a ((stream_at h ?a)\<lparr>es_queue := es_queue (stream_at h ?a) @ [Some event]\<rparr>) h"
    | (full) "sb_user_id s = user" "h' = set_stream ?a \<lparr>es_queue = [Some \<lparr>ev_sequence = eh_sequence h + 1,
          ev_occurred_at = now, ev_body = ResyncRequired\<rparr>], es_closed = True\<rparr>
        ((next_sequence h)\<lparr>eh_subscribers := AList.delete i (eh_subscribers h)\<rparr>)"
    by (cases "sb_user_id s = user"; cases "length (es_queue (stream_at h ?a)) < eh_subscriber_queue_size h";
        simp add: h'_def deliver_def Let_def next_sequence_def)
  then have all: "hub_frame h h' \<and> (\<forall>a < length (eh_streams h). a \<noteq> ?a \<or> sb_user_id s \<noteq> user \<longrightarrow> unchanged h h' a) \<and>
    (sb_user_id s = user \<longrightarrow> appended event h h' ?a \<or> resynced h h' ?a) \<and>
    (\<forall>p \<in> set (eh_subscribers h). sb_stream (snd p) \<noteq> ?a \<longrightarrow> p \<in> set (eh_subscribers h'))"
  proof cases
    case other
    then show ?thesis using assms(1) by (simp add: hub_frame_def unchanged_def)
  next
    case room
    then show ?thesis
      using assms(1) a reg by (auto simp: hub_frame_def unchanged_def appended_def registered_def)
  next
    case full
    have d: "registered h' b \<longleftrightarrow> registered h b \<and> b \<noteq> ?a" for b
      by (rule registered_delete [OF assms(1,2)]) (simp add: full)
    have "hub_ok h'"
      unfolding full(2) hub_ok_set_stream
      by (rule hub_ok_delete [OF hub_ok_next [OF assms(1)]]) (simp add: next_sequence_def AList.delete_eq)
    then have "hub_frame h h'" by (auto simp: hub_frame_def full(2) next_sequence_def AList.delete_eq)
    moreover have "stream_at h' b = stream_at h b" if "b \<noteq> ?a" for b
      using that by (simp add: full(2) next_sequence_def)
    moreover have "p \<in> set (eh_subscribers h')"
      if "p \<in> set (eh_subscribers h)" "sb_stream (snd p) \<noteq> ?a" for p
      using that hub_ok_unique [OF assms(1) that(1) assms(2)] by (auto simp: full AList.delete_eq)
    moreover have "resynced h h' ?a"
      using reg d a by (auto simp: resynced_def full next_sequence_def)
    ultimately show ?thesis
      using full(1) d by (auto simp: unchanged_def)
  qed
  then show "hub_frame h h'"
    "a < length (eh_streams h) \<Longrightarrow> a \<noteq> ?a \<or> sb_user_id s \<noteq> user \<Longrightarrow> unchanged h h' a"
    "sb_user_id s = user \<Longrightarrow> appended event h h' ?a \<or> resynced h h' ?a"
    "p \<in> set (eh_subscribers h) \<Longrightarrow> sb_stream (snd p) \<noteq> ?a \<Longrightarrow> p \<in> set (eh_subscribers h')"
    by blast+
qed

lemma hub_frame_trans: "hub_frame h h1 \<Longrightarrow> hub_frame h1 h' \<Longrightarrow> hub_frame h h'"
  by (auto simp: hub_frame_def)

lemma fold_deliver_spec:
  assumes "hub_ok h" "set ps \<subseteq> set (eh_subscribers h)" "distinct (map (\<lambda>p. sb_stream (snd p)) ps)"
  shows "hub_frame h (fold (deliver user now event) ps h) \<and>
    (\<forall>a < length (eh_streams h).
       if \<exists>p \<in> set ps. sb_stream (snd p) = a \<and> sb_user_id (snd p) = user
       then appended event h (fold (deliver user now event) ps h) a \<or>
         resynced h (fold (deliver user now event) ps h) a
       else unchanged h (fold (deliver user now event) ps h) a)"
  using assms
proof (induction ps arbitrary: h)
  case Nil
  then show ?case by (simp add: hub_frame_def unchanged_def)
next
  case (Cons p ps)
  obtain i s where p: "p = (i, s)" by (cases p)
  let ?h1 = "deliver user now event p h" and ?h' = "fold (deliver user now event) (p # ps) h"
  have m: "(i, s) \<in> set (eh_subscribers h)" using Cons.prems(2) p by simp
  note d = deliver_spec [OF Cons.prems(1) m, where user = user and now = now and event = event, folded p]
  have IH: "hub_frame ?h1 ?h' \<and> (\<forall>a < length (eh_streams ?h1).
       if \<exists>p \<in> set ps. sb_stream (snd p) = a \<and> sb_user_id (snd p) = user
       then appended event ?h1 ?h' a \<or> resynced ?h1 ?h' a else unchanged ?h1 ?h' a)"
    unfolding fold_simps
  proof (rule Cons.IH)
    show "hub_ok ?h1" using d(1) by (simp add: hub_frame_def)
    show "set ps \<subseteq> set (eh_subscribers ?h1)"
    proof
      fix q
      assume q: "q \<in> set ps"
      then show "q \<in> set (eh_subscribers ?h1)"
        using Cons.prems(2,3) by (intro d(4)) (auto simp: p image_iff)
    qed
    show "distinct (map (\<lambda>p. sb_stream (snd p)) ps)" using Cons.prems(3) by simp
  qed
  have len: "length (eh_streams ?h1) = length (eh_streams h)"
    "eh_subscriber_queue_size ?h1 = eh_subscriber_queue_size h" "eh_sequence h \<le> eh_sequence ?h1"
    "eh_sequence ?h1 \<le> eh_sequence ?h'"
    using d(1) IH by (auto simp: hub_frame_def)
  have fresh: "\<not> (\<exists>q \<in> set ps. sb_stream (snd q) = sb_stream s)"
    using Cons.prems(3) by (auto simp: p image_iff)
  have "if \<exists>q \<in> set (p # ps). sb_stream (snd q) = a \<and> sb_user_id (snd q) = user
       then appended event h ?h' a \<or> resynced h ?h' a else unchanged h ?h' a"
    if a: "a < length (eh_streams h)" for a
  proof (cases "a = sb_stream s \<and> sb_user_id s = user")
    case True
    then have "unchanged ?h1 ?h' a" using IH fresh a len(1) by (metis (full_types))
    with d(3) True len show ?thesis
      by (auto simp: p appended_def resynced_def unchanged_def)
  next
    case False
    then have "unchanged h ?h1 a" using d(2) a by auto
    with IH a len False show ?thesis
      by (auto simp: p appended_def resynced_def unchanged_def split: if_splits)
  qed
  with hub_frame_trans [OF d(1)] IH show ?case by blast
qed

section \<open>Effects on a history\<close>

lemma due_extend:
  assumes "snd (snd (hw_start w ! a)) \<le> length (hw_log w)"
  shows "due (w\<lparr>hw_hub := h', hw_log := hw_log w @ [(user, event)]\<rparr>) a =
    due w a @ (if fst (hw_start w ! a) = user then [event] else [])"
  using assms by (cases "hw_start w ! a") (auto simp: due_def)

text \<open>The worlds before and after a step that leaves what the client has taken alone.\<close>

definition same_client :: "hub_world \<Rightarrow> hub_world \<Rightarrow> nat \<Rightarrow> bool" where
  "same_client w w' a \<longleftrightarrow> hw_got w' ! a = hw_got w ! a \<and>
     eh_subscriber_queue_size (hw_hub w') = eh_subscriber_queue_size (hw_hub w) \<and>
     eh_sequence (hw_hub w) \<le> eh_sequence (hw_hub w')"

lemma effect_unchanged:
  assumes "history_ok w a" "sequences_ok w a" "same_client w w' a" "unchanged (hw_hub w) (hw_hub w') a"
    "due w' a = due w a @ xs" "registered (hw_hub w) a \<Longrightarrow> xs = []"
  shows "history_ok w' a" "sequences_ok w' a"
proof -
  have h: "stream_history w' a = stream_history w a"
    using assms(3,4) by (simp add: stream_history_def same_client_def unchanged_def)
  show "sequences_ok w' a" using assms(2,3) by (force simp: sequences_ok_def h same_client_def)
  have "\<exists>k mark. k \<le> length (due w' a) \<and> end_mark mark \<and>
      stream_history w a = map Some (take k (due w' a)) @ [mark]" if nr: "\<not> registered (hw_hub w) a"
  proof -
    obtain k mark where "k \<le> length (due w a)" "end_mark mark"
      "stream_history w a = map Some (take k (due w a)) @ [mark]"
      using assms(1) nr by (auto simp: history_ok_def)
    then show ?thesis by (intro exI [of _ k] exI [of _ mark]) (simp add: assms(5))
  qed
  then show "history_ok w' a"
    using assms(1,3,4,5,6) unfolding history_ok_def h
    by (auto simp: same_client_def unchanged_def)
qed

lemma effect_appended:
  assumes "history_ok w a" "sequences_ok w a" "same_client w w' a" "appended event (hw_hub w) (hw_hub w') a"
    "due w' a = due w a @ [event]" "eh_sequence (hw_hub w) < ev_sequence event"
    "ev_sequence event \<le> eh_sequence (hw_hub w')"
  shows "history_ok w' a" "sequences_ok w' a"
proof -
  have h: "stream_history w' a = stream_history w a @ [Some event]"
    using assms(3,4) by (simp add: stream_history_def same_client_def appended_def)
  show "history_ok w' a"
    using assms(1,3,4,5) unfolding history_ok_def h by (auto simp: same_client_def appended_def)
  show "sequences_ok w' a"
    using assms(2,6,7) unfolding sequences_ok_def h by (fastforce simp: sorted_wrt_append)
qed

text \<open>A registered subscription ends: its queue is dropped and a mark takes its place.\<close>

lemma effect_ended:
  assumes "history_ok w a" "sequences_ok w a" "same_client w w' a" "registered (hw_hub w) a"
    "\<not> registered (hw_hub w') a" "stream_at (hw_hub w') a = \<lparr>es_queue = [mark], es_closed = True\<rparr>"
    "end_mark mark" "due w' a = due w a @ xs" "1 \<le> eh_subscriber_queue_size (hw_hub w)"
    "\<forall>e. mark = Some e \<longrightarrow> eh_sequence (hw_hub w) < ev_sequence e \<and> ev_sequence e \<le> eh_sequence (hw_hub w')"
  shows "history_ok w' a" "sequences_ok w' a"
proof -
  let ?got = "hw_got w ! a"
  have h: "stream_history w' a = ?got @ [mark]"
    using assms(3,6) by (simp add: stream_history_def same_client_def)
  have d: "?got @ es_queue (stream_at (hw_hub w) a) = map Some (due w a)"
    using assms(1,4) by (simp add: history_ok_def stream_history_def)
  then have len: "length ?got \<le> length (due w a)" by (metis le_add1 length_append length_map)
  have "?got = take (length ?got) (map Some (due w a))" unfolding d [symmetric] by simp
  then have "?got = map Some (take (length ?got) (due w' a))" using len by (simp add: assms(8) take_map)
  then have "\<exists>k m. k \<le> length (due w' a) \<and> end_mark m \<and> ?got @ [mark] = map Some (take k (due w' a)) @ [m]"
    using len assms(7) by (intro exI [of _ "length ?got"] exI [of _ mark]) (simp add: assms(8))
  with assms(3,5,6,9) show "history_ok w' a"
    unfolding history_ok_def h by (simp add: same_client_def)
  have "set (events_of ?got) \<subseteq> set (events_of (stream_history w a))"
    "sorted_wrt (<) (map ev_sequence (events_of ?got))"
    using assms(2) by (auto simp: stream_history_def sequences_ok_def sorted_wrt_append)
  with assms(2,3,10) show "sequences_ok w' a"
    unfolding sequences_ok_def h
    by (cases mark) (fastforce simp: sorted_wrt_append same_client_def)+
qed

lemma hub_invD:
  assumes "hub_inv w"
  shows "hub_ok (hw_hub w)" "length (hw_got w) = length (eh_streams (hw_hub w))"
    "length (hw_start w) = length (eh_streams (hw_hub w))"
    "a < length (eh_streams (hw_hub w)) \<Longrightarrow> history_ok w a"
    "a < length (eh_streams (hw_hub w)) \<Longrightarrow> sequences_ok w a"
    "a < length (eh_streams (hw_hub w)) \<Longrightarrow> snd (snd (hw_start w ! a)) \<le> length (hw_log w)"
    "p \<in> set (eh_subscribers (hw_hub w)) \<Longrightarrow> fst (hw_start w ! sb_stream (snd p)) = sb_user_id (snd p)"
    "eh_closed (hw_hub w) \<Longrightarrow> eh_subscribers (hw_hub w) = []"
  using assms by (simp_all add: hub_inv_def)

section \<open>Steps\<close>

text \<open>The operations that end subscriptions: the entries that fail \<open>P\<close> leave, their streams are closed.\<close>

lemma hub_inv_ending:
  assumes "hub_inv w" "eh_subscribers h' = filter P (eh_subscribers (hw_hub w))"
    "length (eh_streams h') = length (eh_streams (hw_hub w))" "eh_sequence h' = eh_sequence (hw_hub w)"
    "eh_subscriber_queue_size h' = eh_subscriber_queue_size (hw_hub w)"
    "eh_closed h' \<Longrightarrow> eh_subscribers h' = []"
    and streams: "\<And>a. a < length (eh_streams (hw_hub w)) \<Longrightarrow> stream_at h' a =
      (if registered (hw_hub w) a \<and> \<not> registered h' a then close_subscription (stream_at (hw_hub w) a)
       else stream_at (hw_hub w) a)"
  shows "hub_inv (w\<lparr>hw_hub := h'\<rparr>)"
proof -
  let ?h = "hw_hub w" and ?w = "w\<lparr>hw_hub := h'\<rparr>"
  have sub: "set (eh_subscribers h') \<subseteq> set (eh_subscribers ?h)" by (auto simp: assms(2))
  have ok: "hub_ok h'"
    using hub_invD(1) [OF assms(1)] by (auto simp: hub_ok_def assms(2-5) distinct_map inj_on_def)
  have "history_ok ?w a \<and> sequences_ok ?w a" if a: "a < length (eh_streams ?h)" for a
  proof (cases "registered ?h a \<and> \<not> registered h' a")
    case True
    then have "\<not> es_closed (stream_at ?h a)"
      using hub_invD(4) [OF assms(1) a] by (simp add: history_ok_def)
    then have "stream_at (hw_hub ?w) a = \<lparr>es_queue = [None], es_closed = True\<rparr>"
      using streams [OF a] True by (simp add: close_subscription_def)
    moreover have "same_client w ?w a" by (simp add: same_client_def assms(4,5))
    moreover have "1 \<le> eh_subscriber_queue_size ?h" using hub_invD(1) [OF assms(1)] by (simp add: hub_ok_def)
    ultimately show ?thesis
      using effect_ended [OF hub_invD(4) [OF assms(1) a] hub_invD(5) [OF assms(1) a], of ?w None "[]"] True
      by (simp add: end_mark_def due_def)
  next
    case False
    then have "unchanged ?h h' a"
      using streams [OF a] sub by (auto simp: unchanged_def registered_def)
    then show ?thesis
      using effect_unchanged [OF hub_invD(4) [OF assms(1) a] hub_invD(5) [OF assms(1) a], of ?w "[]"]
      by (simp add: same_client_def assms(4,5) due_def)
  qed
  then show ?thesis
    using assms(1,3,6) ok sub unfolding hub_inv_def by (auto simp: subset_iff)
qed

lemma close_stream_simps [simp]:
  "eh_subscribers (close_stream b h) = eh_subscribers h"
  "length (eh_streams (close_stream b h)) = length (eh_streams h)"
  "eh_sequence (close_stream b h) = eh_sequence h"
  "eh_subscriber_queue_size (close_stream b h) = eh_subscriber_queue_size h"
  "eh_closed (close_stream b h) = eh_closed h"
  "a < length (eh_streams h) \<Longrightarrow> stream_at (close_stream b h) a =
     (if a = b then close_subscription (stream_at h a) else stream_at h a)"
  by (auto simp: close_stream_def)

lemma close_subscription_simps [simp]:
  "close_subscription (close_subscription s) = close_subscription s"
  "es_closed s \<Longrightarrow> close_subscription s = s"
  by (simp_all add: close_subscription_def)

lemma close_stream_subscribers:
  "(close_stream a h)\<lparr>eh_subscribers := x\<rparr> = close_stream a (h\<lparr>eh_subscribers := x\<rparr>)"
  by (simp add: close_stream_def)

lemma fold_close_stream:
  "eh_subscribers (fold (\<lambda>s. close_stream (sb_stream s)) ss h) = eh_subscribers h"
  "length (eh_streams (fold (\<lambda>s. close_stream (sb_stream s)) ss h)) = length (eh_streams h)"
  "eh_sequence (fold (\<lambda>s. close_stream (sb_stream s)) ss h) = eh_sequence h"
  "eh_subscriber_queue_size (fold (\<lambda>s. close_stream (sb_stream s)) ss h) = eh_subscriber_queue_size h"
  "eh_closed (fold (\<lambda>s. close_stream (sb_stream s)) ss h) = eh_closed h"
  "a < length (eh_streams h) \<Longrightarrow> stream_at (fold (\<lambda>s. close_stream (sb_stream s)) ss h) a =
     (if a \<in> sb_stream ` set ss then close_subscription (stream_at h a) else stream_at h a)"
  by (induction ss arbitrary: h) auto

lemma fold_close_session:
  "fold (\<lambda>(i, s) h. close_stream (sb_stream s) (h\<lparr>eh_subscribers := AList.delete i (eh_subscribers h)\<rparr>)) ps h =
   fold (\<lambda>s. close_stream (sb_stream s)) (map snd ps)
     (h\<lparr>eh_subscribers := filter (\<lambda>q. fst q \<notin> fst ` set ps) (eh_subscribers h)\<rparr>)"
proof (induction ps arbitrary: h)
  case (Cons p ps)
  have "filter (\<lambda>q. fst q \<notin> fst ` set ps) (AList.delete (fst p) d) =
      filter (\<lambda>q. fst q \<notin> fst ` set (p # ps)) d" for d :: "(uuid, subscriber) dict"
    by (induction d) (auto simp: AList.delete_eq)
  with Cons show ?case by (simp add: case_prod_unfold close_stream_subscribers)
qed simp

lemma registered_filter:
  "eh_subscribers h' = filter P (eh_subscribers h) \<Longrightarrow>
   registered h' a \<longleftrightarrow> (\<exists>p \<in> set (eh_subscribers h). P p \<and> sb_stream (snd p) = a)"
  by (force simp: registered_def)

lemma registered_iff: "registered h a \<longleftrightarrow> (\<exists>p \<in> set (eh_subscribers h). sb_stream (snd p) = a)"
  by (force simp: registered_def)

lemma hub_inv_close_session:
  assumes "hub_inv w"
  shows "hub_inv (w\<lparr>hw_hub := close_session_streams session (hw_hub w)\<rparr>)"
proof -
  let ?h = "hw_hub w" and ?h' = "close_session_streams session (hw_hub w)"
  define ps where "ps = filter (\<lambda>(i, s). sb_session_id s = session) (eh_subscribers ?h)"
  define S where "S = sb_stream ` snd ` set ps"
  let ?P = "\<lambda>q. fst q \<notin> fst ` set ps"
  have sub: "set ps \<subseteq> set (eh_subscribers ?h)" by (auto simp: ps_def)
  have eq: "?h' = fold (\<lambda>s. close_stream (sb_stream s)) (map snd ps)
      (?h\<lparr>eh_subscribers := filter ?P (eh_subscribers ?h)\<rparr>)"
    by (simp only: close_session_streams_def ps_def fold_close_session)
  have key: "?P q \<longleftrightarrow> sb_stream (snd q) \<notin> S" if q: "q \<in> set (eh_subscribers ?h)" for q
  proof -
    have U: "q = p" if "p \<in> set ps" "fst q = fst p \<or> sb_stream (snd q) = sb_stream (snd p)" for p
      using that sub hub_ok_unique [OF hub_invD(1) [OF assms] q, of p] by blast
    have "fst q \<in> fst ` set ps \<longleftrightarrow> q \<in> set ps" using U by blast
    moreover have "sb_stream (snd q) \<in> S \<longleftrightarrow> q \<in> set ps" unfolding S_def using U by blast
    ultimately show ?thesis by simp
  qed
  show ?thesis
  proof (rule hub_inv_ending [OF assms, where P = ?P])
    show subs: "eh_subscribers ?h' = filter ?P (eh_subscribers ?h)"
      by (simp add: eq fold_close_stream)
    fix a
    assume a: "a < length (eh_streams ?h)"
    have "registered ?h' a \<longleftrightarrow>
        (\<exists>p \<in> set (eh_subscribers ?h). sb_stream (snd p) \<notin> S \<and> sb_stream (snd p) = a)"
      unfolding registered_filter [OF subs] using key by blast
    moreover have "a \<in> S \<Longrightarrow> registered ?h a" unfolding S_def registered_iff using sub by blast
    ultimately have "registered ?h a \<and> \<not> registered ?h' a \<longleftrightarrow> a \<in> S"
      unfolding registered_iff [of ?h a] by blast
    then show "stream_at ?h' a = (if registered ?h a \<and> \<not> registered ?h' a
       then close_subscription (stream_at ?h a) else stream_at ?h a)"
      using a by (simp add: eq fold_close_stream S_def)
  qed (use hub_invD(8) [OF assms] in \<open>simp_all add: eq fold_close_stream\<close>)
qed

lemma hub_inv_unsubscribe:
  assumes "hub_inv w" "a < length (eh_streams (hw_hub w))"
  shows "hub_inv (w\<lparr>hw_hub := unsubscribe a (hw_hub w)\<rparr>)"
proof (rule hub_inv_ending [OF assms(1), where P = "\<lambda>p. sb_stream (snd p) \<noteq> a"])
  let ?h = "hw_hub w"
  show subs: "eh_subscribers (unsubscribe a ?h) = filter (\<lambda>p. sb_stream (snd p) \<noteq> a) (eh_subscribers ?h)"
    by (simp add: unsubscribe_def remove_subscription_def case_prod_unfold)
  fix b
  assume "b < length (eh_streams ?h)"
  moreover have "registered ?h b \<and> \<not> registered (unsubscribe a ?h) b \<longleftrightarrow> registered ?h b \<and> b = a"
    by (auto simp: registered_filter [OF subs, of b] registered_iff [of ?h b])
  moreover have "es_closed (stream_at ?h a) \<longleftrightarrow> \<not> registered ?h a"
    using hub_invD(4) [OF assms] by (simp add: history_ok_def)
  ultimately show "stream_at (unsubscribe a ?h) b =
      (if registered ?h b \<and> \<not> registered (unsubscribe a ?h) b
       then close_subscription (stream_at ?h b) else stream_at ?h b)"
    by (simp add: unsubscribe_def remove_subscription_def)
qed (use hub_invD(8) [OF assms(1)] in \<open>simp_all add: unsubscribe_def remove_subscription_def\<close>)

lemma hub_inv_close_hub:
  assumes "hub_inv w"
  shows "hub_inv (w\<lparr>hw_hub := close_hub (hw_hub w)\<rparr>)"
proof (cases "eh_closed (hw_hub w)")
  case False
  let ?h = "hw_hub w"
  have subs: "eh_subscribers (close_hub ?h) = filter (\<lambda>p. False) (eh_subscribers ?h)"
    using False by (simp add: close_hub_def fold_close_stream)
  show ?thesis
  proof (rule hub_inv_ending [OF assms subs])
    fix a
    assume "a < length (eh_streams ?h)"
    moreover have "registered ?h a \<and> \<not> registered (close_hub ?h) a \<longleftrightarrow>
        a \<in> sb_stream ` set (dict_values (eh_subscribers ?h))"
      by (auto simp: registered_filter [OF subs, of a] registered_iff [of ?h a])
    ultimately show "stream_at (close_hub ?h) a =
      (if registered ?h a \<and> \<not> registered (close_hub ?h) a
       then close_subscription (stream_at ?h a) else stream_at ?h a)"
      using False by (simp add: close_hub_def fold_close_stream)
  qed (use False in \<open>simp_all add: close_hub_def fold_close_stream\<close>)
qed (use assms in \<open>simp add: close_hub_def\<close>)

lemma next_sequence_simps [simp]:
  "eh_subscribers (next_sequence h) = eh_subscribers h" "eh_streams (next_sequence h) = eh_streams h"
  "eh_sequence (next_sequence h) = eh_sequence h + 1" "eh_closed (next_sequence h) = eh_closed h"
  "eh_subscriber_queue_size (next_sequence h) = eh_subscriber_queue_size h"
  "registered (next_sequence h) a = registered h a"
  by (simp_all add: next_sequence_def registered_def)

lemma make_event_cases:
  "make_event n now b = Inr e \<Longrightarrow> e = \<lparr>ev_sequence = n, ev_occurred_at = now, ev_body = b\<rparr>"
  by (auto simp: make_event_def split: if_splits)

lemma hub_inv_publish:
  assumes inv: "hub_inv w" and pub: "publish user now b (hw_hub w) = (Inr (), h')"
  defines "event \<equiv> \<lparr>ev_sequence = eh_sequence (hw_hub w) + 1, ev_occurred_at = now, ev_body = b\<rparr>"
  shows "hub_inv (w\<lparr>hw_hub := h', hw_log := hw_log w @ [(user, event)]\<rparr>)"
proof -
  let ?h = "hw_hub w" and ?h1 = "next_sequence (hw_hub w)"
  let ?w = "w\<lparr>hw_hub := h', hw_log := hw_log w @ [(user, event)]\<rparr>"
  note ok = hub_invD(1) [OF inv]
  have h': "h' = fold (deliver user now event) (eh_subscribers ?h1) ?h1"
    using pub make_event_cases [of "eh_sequence ?h + 1" now b]
    by (auto simp: publish_def publish_locked_def event_def Let_def split: sum.splits)
  have "distinct (map (\<lambda>p. sb_stream (snd p)) (eh_subscribers ?h1))" using ok by (simp add: hub_ok_def)
  note spec = fold_deliver_spec [OF hub_ok_next [OF ok] order_refl this, of user now event, folded h']
  have fr: "hub_ok h'" "length (eh_streams h') = length (eh_streams ?h)"
    "eh_subscriber_queue_size h' = eh_subscriber_queue_size ?h" "eh_closed h' = eh_closed ?h"
    "eh_sequence ?h + 1 \<le> eh_sequence h'" "set (eh_subscribers h') \<subseteq> set (eh_subscribers ?h)"
    using spec by (auto simp: hub_frame_def)
  have "history_ok ?w a \<and> sequences_ok ?w a" if a: "a < length (eh_streams ?h)" for a
  proof -
    note old = hub_invD(4) [OF inv a] hub_invD(5) [OF inv a]
    have due: "due ?w a = due w a @ (if fst (hw_start w ! a) = user then [event] else [])"
      by (rule due_extend [OF hub_invD(6) [OF inv a]])
    have client: "same_client w ?w a" using fr by (simp add: same_client_def)
    show ?thesis
    proof (cases "\<exists>p \<in> set (eh_subscribers ?h). sb_stream (snd p) = a \<and> sb_user_id (snd p) = user")
      case True
      then have "fst (hw_start w ! a) = user" using hub_invD(7) [OF inv] by auto
      with due have due: "due ?w a = due w a @ [event]" by simp
      have "appended event ?h1 h' a \<or> resynced ?h1 h' a" using spec True a by auto
      then show ?thesis
      proof
        assume "appended event ?h1 h' a"
        then have "appended event (hw_hub w) (hw_hub ?w) a" by (simp add: appended_def)
        from effect_appended [OF old client this due] show ?thesis using fr by (simp add: event_def)
      next
        assume r: "resynced ?h1 h' a"
        then obtain e where e: "ev_body e = ResyncRequired" "eh_sequence ?h + 1 < ev_sequence e"
          "ev_sequence e \<le> eh_sequence h'" "stream_at h' a = \<lparr>es_queue = [Some e], es_closed = True\<rparr>"
          by (auto simp: resynced_def)
        have q: "1 \<le> eh_subscriber_queue_size ?h" using ok by (simp add: hub_ok_def)
        show ?thesis
          using effect_ended [OF old client _ _ _ _ due q, of "Some e"] r e
          by (simp add: resynced_def end_mark_def)
      qed
    next
      case False
      then have "unchanged ?h1 h' a" using spec a by auto
      then have u: "unchanged (hw_hub w) (hw_hub ?w) a" by (simp add: unchanged_def)
      have "fst (hw_start w ! a) \<noteq> user" if "registered ?h a"
        using that False hub_invD(7) [OF inv] unfolding registered_iff by metis
      with effect_unchanged [OF old client u due] show ?thesis by simp
    qed
  qed
  moreover have "fst (hw_start w ! sb_stream (snd p)) = sb_user_id (snd p)" if "p \<in> set (eh_subscribers h')" for p
    using that fr(6) hub_invD(7) [OF inv] by blast
  moreover have "eh_closed h' \<Longrightarrow> eh_subscribers h' = []" using fr(4,6) hub_invD(8) [OF inv] by auto
  ultimately show ?thesis
    using fr(1,2) hub_invD(2,3,6) [OF inv] unfolding hub_inv_def by (simp add: le_SucI)
qed

lemma hub_inv_subscribe:
  assumes inv: "hub_inv w" and fresh: "i \<notin> fst ` set (eh_subscribers (hw_hub w))"
    and sub: "subscribe i now user session (hw_hub w) = (Inr a, h')"
  shows "hub_inv (w\<lparr>hw_hub := h', hw_got := hw_got w @ [[]],
      hw_start := hw_start w @ [(user, the (hd (es_queue (stream_at h' a))), length (hw_log w))]\<rparr>)"
    (is "hub_inv ?w")
proof -
  let ?h = "hw_hub w"
  define ready where "ready = \<lparr>ev_sequence = eh_sequence ?h + 1, ev_occurred_at = now, ev_body = StreamReady\<rparr>"
  have a: "a = length (eh_streams ?h)" "\<not> eh_closed ?h"
    using sub by (auto simp: subscribe_def Let_def split: if_splits sum.splits)
  have h': "eh_subscribers h' = eh_subscribers ?h @
        [(i, \<lparr>sb_user_id = user, sb_session_id = session, sb_stream = a\<rparr>)]"
    "eh_streams h' = eh_streams ?h @ [\<lparr>es_queue = [Some ready], es_closed = False\<rparr>]"
    "eh_sequence h' = eh_sequence ?h + 1" "eh_closed h' = eh_closed ?h"
    "eh_subscriber_queue_size h' = eh_subscriber_queue_size ?h"
    using sub make_event_cases [of "eh_sequence ?h + 1" now StreamReady]
    by (auto simp: subscribe_def Let_def ready_def update_absent [OF fresh] split: if_splits sum.splits)
  have ok: "hub_ok h'"
    using hub_invD(1) [OF inv] fresh by (auto simp: hub_ok_def h' a less_Suc_eq)
  have reg: "registered h' b \<longleftrightarrow> registered ?h b \<or> b = a" for b by (auto simp: registered_iff h')
  have nreg: "\<not> registered ?h a" using hub_invD(1) [OF inv] by (auto simp: registered_iff hub_ok_def a)
  have start: "hw_start ?w = hw_start w @ [(user, ready, length (hw_log w))]" by (simp add: h' a)
  have "history_ok ?w b \<and> sequences_ok ?w b" if b: "b < length (eh_streams h')" for b
  proof (cases "b = a")
    case True
    have "stream_history ?w b = [Some ready]" "due ?w b = [ready]"
      using hub_invD(2,3) [OF inv] True by (simp_all add: stream_history_def due_def h' a nth_append)
    then show ?thesis
      using True hub_invD(1) [OF inv]
      by (simp add: history_ok_def sequences_ok_def h' a reg ready_def hub_ok_def)
  next
    case False
    then have b': "b < length (eh_streams ?h)" using b by (simp add: h' a)
    have "due ?w b = due w b @ []" using b' hub_invD(3) [OF inv] by (simp add: due_def nth_append)
    moreover have "same_client w ?w b"
      using b' hub_invD(2) [OF inv] by (simp add: same_client_def h' nth_append)
    moreover have "unchanged (hw_hub w) (hw_hub ?w) b"
      using b' False by (simp add: unchanged_def h' nth_append reg)
    ultimately show ?thesis
      using effect_unchanged [OF hub_invD(4) [OF inv b'] hub_invD(5) [OF inv b']] by blast
  qed
  moreover have "\<forall>b < length (hw_start ?w). snd (snd (hw_start ?w ! b)) \<le> length (hw_log ?w)"
    using hub_invD(3,6) [OF inv] unfolding start by (auto simp: nth_append less_Suc_eq)
  moreover have "\<forall>p \<in> set (eh_subscribers h'). fst (hw_start ?w ! sb_stream (snd p)) = sb_user_id (snd p)"
    using hub_invD(1,3,7) [OF inv] unfolding start by (auto simp: h' a nth_append hub_ok_def)
  ultimately show ?thesis
    using ok a(2) hub_invD(2,3) [OF inv] unfolding hub_inv_def start by (simp add: h'(2,4))
qed

lemma hub_inv_receive:
  assumes inv: "hub_inv w" and a: "a < length (eh_streams (hw_hub w))"
    and rec: "receive a (hw_hub w) = (res, h')"
  shows "hub_inv (w\<lparr>hw_hub := h', hw_got := (hw_got w)[a := hw_got w ! a @
      take 1 (es_queue (stream_at (hw_hub w) a))]\<rparr>)" (is "hub_inv ?w")
proof -
  let ?h = "hw_hub w"
  have h': "h' = set_stream a ((stream_at ?h a)\<lparr>es_queue := drop 1 (es_queue (stream_at ?h a))\<rparr>) ?h"
  proof (cases "es_queue (stream_at ?h a)")
    case Nil
    then have "(stream_at ?h a)\<lparr>es_queue := drop 1 (es_queue (stream_at ?h a))\<rparr> = stream_at ?h a"
      by (cases "stream_at ?h a") simp
    then have "set_stream a ((stream_at ?h a)\<lparr>es_queue := drop 1 (es_queue (stream_at ?h a))\<rparr>) ?h = ?h"
      by (simp only: list_update_id) simp
    moreover have "h' = ?h" using rec Nil by (simp add: receive_def)
    ultimately show ?thesis by simp
  qed (use rec in \<open>simp add: receive_def\<close>)
  have reg: "registered h' b = registered ?h b" for b by (simp add: h' registered_def)
  have hist: "stream_history ?w b = stream_history w b" if "b < length (eh_streams ?h)" for b
    using a that hub_invD(2) [OF inv] by (auto simp: stream_history_def h' nth_list_update)
  have due: "due ?w b = due w b" for b by (simp add: due_def)
  have "history_ok ?w b \<and> sequences_ok ?w b" if b: "b < length (eh_streams ?h)" for b
  proof -
    have "length (es_queue (stream_at h' b)) \<le> length (es_queue (stream_at ?h b))"
      "es_closed (stream_at h' b) = es_closed (stream_at ?h b)"
      "eh_subscriber_queue_size h' = eh_subscriber_queue_size ?h" "eh_sequence h' = eh_sequence ?h"
      using b by (cases "a = b"; simp add: h')+
    then show ?thesis
      using hub_invD(4) [OF inv b] hub_invD(5) [OF inv b]
      unfolding history_ok_def sequences_ok_def hist [OF b] due by (auto simp: reg)
  qed
  then show ?thesis
    using inv unfolding hub_inv_def by (simp add: h')
qed

lemma hub_inv_raise:
  assumes "hub_inv w" "eh_sequence (hw_hub w) \<le> eh_sequence h'"
    "eh_subscribers h' = eh_subscribers (hw_hub w)" "eh_streams h' = eh_streams (hw_hub w)"
    "eh_subscriber_queue_size h' = eh_subscriber_queue_size (hw_hub w)" "eh_closed h' = eh_closed (hw_hub w)"
  shows "hub_inv (w\<lparr>hw_hub := h'\<rparr>)"
proof -
  have reg: "registered h' a = registered (hw_hub w) a" for a by (simp add: registered_def assms(3))
  have "history_ok (w\<lparr>hw_hub := h'\<rparr>) a \<and> sequences_ok (w\<lparr>hw_hub := h'\<rparr>) a"
    if a: "a < length (eh_streams (hw_hub w))" for a
    using effect_unchanged [OF hub_invD(4) [OF assms(1) a] hub_invD(5) [OF assms(1) a], of "w\<lparr>hw_hub := h'\<rparr>" "[]"]
    by (simp add: same_client_def unchanged_def assms(2,4,5) reg due_def)
  then show ?thesis
    using assms unfolding hub_inv_def by (simp add: hub_ok_def)
qed

lemma hub_inv_step: "hub_step w w' \<Longrightarrow> hub_inv w \<Longrightarrow> hub_inv w'"
proof (induction rule: hub_step.induct)
  case (publish_raises user now b w e h')
  then show ?case
    by (intro hub_inv_raise) (auto simp: publish_def Let_def split: sum.splits)
next
  case (subscribe_raises i now user session w e h')
  then show ?case by (intro hub_inv_raise) (auto simp: subscribe_def)
qed (simp_all only: hub_inv_subscribe hub_inv_publish hub_inv_unsubscribe hub_inv_close_session
    hub_inv_close_hub hub_inv_receive)

lemma hub_reachable_inv: "hub_reachable w \<Longrightarrow> hub_inv w"
proof (induction rule: hub_reachable.induct)
  case (init maxsize h)
  then show ?case
    by (auto simp: hub_inv_def hub_ok_def hub_start_def event_hub_init_def split: if_splits)
qed (rule hub_inv_step)

section \<open>Example\<close>

text \<open>A hub with room for two events: one client of \<open>u\<close> misses nothing, then falls behind.\<close>

definition example_hub :: event_hub where
  "example_hub = projr (event_hub_init 2)"

definition example_event :: event_body where
  "example_event = ResourceChanged WorkspaceResource ''w'' None None None 1"

definition example_hub_1 :: event_hub where
  "example_hub_1 = snd (subscribe ''c'' 10 ''u'' ''s'' example_hub)"

definition example_hub_2 :: event_hub where
  "example_hub_2 = snd (publish ''u'' 11 example_event example_hub_1)"

definition example_hub_3 :: event_hub where
  "example_hub_3 = snd (publish ''u'' 12 example_event example_hub_2)"

definition example_hub_event :: "int \<Rightarrow> timestamp \<Rightarrow> event_body \<Rightarrow> backend_event" where
  "example_hub_event n t b = \<lparr>ev_sequence = n, ev_occurred_at = t, ev_body = b\<rparr>"

definition example_hub_world :: hub_world where
  "example_hub_world = \<lparr>hw_hub = example_hub_3,
     hw_log = [(''u'', example_hub_event 2 11 example_event), (''u'', example_hub_event 3 12 example_event)],
     hw_start = [(''u'', example_hub_event 1 10 StreamReady, 0)], hw_got = [[]]\<rparr>"

lemma example_hub_reachable: "hub_reachable example_hub_world"
proof -
  have s: "subscribe ''c'' 10 ''u'' ''s'' example_hub = (Inr 0, example_hub_1)" by code_simp
  have p: "publish ''u'' 11 example_event example_hub_1 = (Inr (), example_hub_2)"
    "publish ''u'' 12 example_event example_hub_2 = (Inr (), example_hub_3)" by code_simp+
  have q: "eh_sequence example_hub_1 = 1" "eh_sequence example_hub_2 = 2" "eh_subscribers example_hub = []"
    by code_simp+
  have r: "the (hd (es_queue (stream_at example_hub_1 0))) = example_hub_event 1 10 StreamReady" by code_simp
  have "event_hub_init 2 = Inr example_hub" by (simp add: example_hub_def event_hub_init_def)
  from hub_reachable.init [OF this] have "hub_reachable (hub_start example_hub)" .
  from hub_reachable.step [OF this hub_step.subscribe [of "''c''" _ 10 "''u''" "''s''" 0 example_hub_1]]
  have "hub_reachable \<lparr>hw_hub = example_hub_1, hw_log = [],
      hw_start = [(''u'', example_hub_event 1 10 StreamReady, 0)], hw_got = [[]]\<rparr>"
    by (simp add: s q r hub_start_def)
  from hub_reachable.step [OF this hub_step.publish [of "''u''" 11 example_event _ example_hub_2]]
  have "hub_reachable \<lparr>hw_hub = example_hub_2, hw_log = [(''u'', example_hub_event 2 11 example_event)],
      hw_start = [(''u'', example_hub_event 1 10 StreamReady, 0)], hw_got = [[]]\<rparr>"
    by (simp add: p q flip: example_hub_event_def)
  from hub_reachable.step [OF this hub_step.publish [of "''u''" 12 example_event _ example_hub_3]]
  show ?thesis by (simp add: p q example_hub_world_def flip: example_hub_event_def)
qed

section \<open>Properties\<close>

text \<open>C34: no event is lost silently. A client whose subscription is registered has taken, or finds in its
  queue, the ready event and then exactly what was published to its user since, in that order. Any other
  client has seen a prefix of that and then one mark, the resync event or the end of the stream; it is never
  left waiting.\<close>

theorem no_silent_event_loss:
  assumes "hub_reachable w" "a < length (eh_streams (hw_hub w))"
  shows "if registered (hw_hub w) a then stream_history w a = map Some (due w a)
    else (\<exists>k mark. stream_history w a = map Some (take k (due w a)) @ [mark] \<and>
       (mark = None \<or> (\<exists>e. mark = Some e \<and> ev_body e = ResyncRequired))) \<and>
      fst (receive a (hw_hub w)) \<noteq> Suspended"
proof -
  note inv = hub_reachable_inv [OF assms(1)]
  show ?thesis
  proof (cases "registered (hw_hub w) a")
    case False
    then obtain k mark where "end_mark mark" "stream_history w a = map Some (take k (due w a)) @ [mark]"
      and "es_closed (stream_at (hw_hub w) a)"
      using hub_invD(4) [OF inv assms(2)] by (auto simp: history_ok_def)
    moreover from this(3) have "fst (receive a (hw_hub w)) \<noteq> Suspended"
      by (auto simp: receive_def split: list.splits option.splits)
    moreover have "mark = None \<or> (\<exists>e. mark = Some e \<and> ev_body e = ResyncRequired)"
      using calculation(1) by (cases mark) (simp_all add: end_mark_def)
    ultimately show ?thesis using False by auto
  qed (use hub_invD(4) [OF inv assms(2)] in \<open>simp add: history_ok_def\<close>)
qed

theorem no_silent_event_loss_witness: "length (stream_history example_hub_world 0) = 1"
proof -
  have l: "0 < length (eh_streams (hw_hub example_hub_world))"
    "es_queue (stream_at (hw_hub example_hub_world) 0) \<noteq> [Some (hd (due example_hub_world 0))]"
    "length (es_queue (stream_at (hw_hub example_hub_world) 0)) = 1" "hw_got example_hub_world ! 0 = []"
    by code_simp+
  have "\<not> registered (hw_hub example_hub_world) 0 \<or> length (stream_history example_hub_world 0) = 3"
    using no_silent_event_loss [OF example_hub_reachable l(1)]
    by (auto simp: due_def example_hub_world_def split: if_splits)
  with l show ?thesis by (simp add: stream_history_def)
qed

text \<open>C35: what a client sees is ordered and bounded. The sequence numbers of the events it takes and still
  finds increase strictly, none is beyond the counter of the hub, and its queue never exceeds the
  configured size.\<close>

theorem events_ordered_and_bounded:
  assumes "hub_reachable w" "a < length (eh_streams (hw_hub w))"
  shows "sorted_wrt (<) (map ev_sequence (events_of (stream_history w a))) \<and>
    (\<forall>e \<in> set (events_of (stream_history w a)). ev_sequence e \<le> eh_sequence (hw_hub w)) \<and>
    length (es_queue (stream_at (hw_hub w) a)) \<le> eh_subscriber_queue_size (hw_hub w)"
proof -
  note inv = hub_reachable_inv [OF assms(1)]
  show ?thesis
    using hub_invD(4,5) [OF inv] assms(2) by (auto simp: history_ok_def sequences_ok_def)
qed

theorem events_ordered_and_bounded_witness:
  "length (es_queue (stream_at (hw_hub example_hub_world) 0)) \<le> 2"
proof -
  have l: "0 < length (eh_streams (hw_hub example_hub_world))"
    "eh_subscriber_queue_size (hw_hub example_hub_world) = 2" by code_simp+
  from events_ordered_and_bounded [OF example_hub_reachable l(1)] l(2) show ?thesis by simp
qed

end
