(* ===== verification/WorkspaceAggregate.thy ===== *)
theory WorkspaceAggregate
  imports WorkspaceGraph WorkspaceAnalyses PlanHistory EventHub
begin

text \<open>
  A Workspace as the service sees it: the Data Blocks (\<open>WorkspaceGraph\<close>) with their plans
  (\<open>PlanHistory\<close>), the Tabs and Analyses (\<open>WorkspaceAnalyses\<close>) and the descriptive fields, together with
  the commands of \<^verbatim>\<open>services/workspace.py\<close> that run inside a mutation: metadata, block order, creating
  and updating Tabs; the records that are returned; and the events a committed mutation publishes.

  A command is a function \<open>'p workspace \<Rightarrow> 'a command_result\<close>: what it returns or raises, whether it asks
  for a commit, and the Workspace as it has left it, which after a raise may be half changed. The locale
  \<open>mutation_command\<close> is its contract with the service: without a commit nothing durable has changed.

  \<open>durable\<close> is what a snapshot on disk holds: everything but the undo stacks, which live in memory. The
  files and the Polars plans behind it are the store's (\<^verbatim>\<open>infrastructure/storage/workspace_store.py\<close>).
\<close>

section \<open>State\<close>

record 'p workspace =
  wk_id :: uuid
  wk_name :: string
  wk_description :: string
  wk_created_at :: timestamp
  wk_modified_at :: timestamp
  wk_graph :: node_graph
  wk_plans :: "(uuid, 'p plan_history) dict"
  wk_board :: analysis_board

definition workspace_init :: "nat \<Rightarrow> (addr \<Rightarrow> node) \<Rightarrow> uuid \<Rightarrow> string \<Rightarrow> timestamp \<Rightarrow> 'p workspace" where
  "workspace_init self heap i name now =
     \<lparr>wk_id = i, wk_name = (if name = [] then ''workspace_'' @ take 8 i else name), wk_description = [],
      wk_created_at = now, wk_modified_at = now, wk_graph = ng_init self heap, wk_plans = [],
      wk_board = ab_init\<rparr>"

definition forget_histories :: "(uuid, 'p plan_history) dict \<Rightarrow> (uuid, 'p plan_history) dict" where
  "forget_histories plans = map (\<lambda>(i, h). (i, ph_init (ph_data h))) plans"

definition durable :: "'p workspace \<Rightarrow> 'p workspace" where
  "durable w = w\<lparr>wk_plans := forget_histories (wk_plans w)\<rparr>"

text \<open>\<open>snapshot_plan_history\<close> of every node, and \<open>restore_plan_history\<close> where the node still exists.\<close>

definition plan_histories :: "'p workspace \<Rightarrow> (uuid, 'p list \<times> 'p list) dict" where
  "plan_histories w = map (\<lambda>(i, h). (i, ph_snapshot h)) (wk_plans w)"

definition restore_histories :: "(uuid, 'p list \<times> 'p list) dict \<Rightarrow> 'p workspace \<Rightarrow> 'p workspace" where
  "restore_histories histories w = w\<lparr>wk_plans := map (\<lambda>(i, h). (i, case map_of histories i of
     None \<Rightarrow> h | Some history \<Rightarrow> ph_restore history h)) (wk_plans w)\<rparr>"

lemma durable_idem [simp]: "durable (durable w) = durable w"
  by (simp add: durable_def forget_histories_def case_prod_unfold comp_def ph_init_def)

lemma durable_restore [simp]: "durable (restore_histories histories w) = durable w"
proof -
  have "forget_histories (map (\<lambda>(i, h). (i, case map_of histories i of
      None \<Rightarrow> h | Some history \<Rightarrow> ph_restore history h)) plans) = forget_histories plans" for plans
    by (induction plans) (auto simp: forget_histories_def ph_restore_def split: option.splits)
  then show ?thesis by (simp add: durable_def restore_histories_def)
qed

section \<open>Counts and records\<close>

definition node_count :: "'p workspace \<Rightarrow> nat" where
  "node_count w = length (ng_nodes (wk_graph w))"

definition tab_count :: "'p workspace \<Rightarrow> nat" where
  "tab_count w = length (ab_tabs (wk_board w))"

definition analysis_count :: "'p workspace \<Rightarrow> nat" where
  "analysis_count w = length (ab_analyses (wk_board w)) + length (ab_corrupt (wk_board w))"

definition snapshot_entry_count :: "nat \<Rightarrow> nat \<Rightarrow> nat \<Rightarrow> int" where
  "snapshot_entry_count nodes tabs analyses = int (1 + nodes + of_bool (nodes > 0) + 2 * tabs +
     of_bool (tabs > 0) + 2 * analyses + of_bool (analyses > 0))"

definition entry_count :: "'p workspace \<Rightarrow> int" where
  "entry_count w = snapshot_entry_count (node_count w) (tab_count w) (analysis_count w)"

record workspace_record =
  wr_id :: uuid
  wr_name :: string
  wr_description :: string
  wr_created_at :: timestamp
  wr_modified_at :: timestamp
  wr_total_nodes :: nat
  wr_root_nodes :: nat
  wr_leaf_nodes :: nat
  wr_revision :: int
  wr_runtime_state :: runtime_state

definition materialize_record :: "'p workspace \<Rightarrow> int \<Rightarrow> runtime_state \<Rightarrow> workspace_record" where
  "materialize_record w revision st = (let g = wk_graph w; nodes = dict_values (ng_nodes g) in
     \<lparr>wr_id = wk_id w, wr_name = wk_name w, wr_description = wk_description w,
      wr_created_at = wk_created_at w, wr_modified_at = wk_modified_at w,
      wr_total_nodes = length nodes,
      wr_root_nodes = length (filter (\<lambda>a. nd_parents (node_at g a) = []) nodes),
      wr_leaf_nodes = length (filter (\<lambda>a. children_of (nd_id (node_at g a)) g = Inr []) nodes),
      wr_revision = revision, wr_runtime_state = st\<rparr>)"

lemma durable_counts [simp]:
  "entry_count (durable w) = entry_count w" "wk_id (durable w) = wk_id w"
  "materialize_record (durable w) n st = materialize_record w n st"
  by (simp_all add: durable_def entry_count_def node_count_def tab_count_def analysis_count_def
      materialize_record_def)

section \<open>Commands\<close>

type_synonym ('p, 'a) command = "'p workspace \<Rightarrow> 'a result \<times> bool \<times> 'p workspace"

locale mutation_command =
  fixes run :: "('p, 'a) command"
  assumes clean: "run w = (Inr x, False, w') \<Longrightarrow> durable w' = durable w"

text \<open>\<open>validate_display_name\<close>: \<open>None\<close> for a valid name, otherwise the reason.\<close>

definition validate_display_name :: "string \<Rightarrow> string option" where
  "validate_display_name name = (let trimmed = py_strip name in
     if trimmed = [] then Some ''name cannot be empty''
     else if py_contains trimmed ''..'' then Some (''name cannot contain '' @ [CHR 39] @ ''..'' @ [CHR 39])
     else if CHR ''/'' \<in> set trimmed \<or> CHR 92 \<in> set trimmed then Some ''name cannot contain path separators''
     else if \<exists>c \<in> set trimmed. (of_char c :: nat) < 32 \<or> (of_char c :: nat) = 127
     then Some ''name cannot contain control characters''
     else None)"

text \<open>A partial update: the fields that are set, with the name never null.\<close>

record workspace_update =
  wu_name :: "string option"
  wu_description :: "string option option"

definition update_metadata :: "workspace_update \<Rightarrow> ('p, unit) command" where
  "update_metadata request w =
     (case (case wu_name request of
         None \<Rightarrow> Inr (False, w)
       | Some name \<Rightarrow> (let normalized = py_strip name in
           case validate_display_name normalized of
             Some reason \<Rightarrow> Inl (InvalidInputError (''Invalid workspace name: '' @ reason))
           | None \<Rightarrow> if wk_name w \<noteq> normalized then Inr (True, w\<lparr>wk_name := normalized\<rparr>)
               else Inr (False, w))) of
       Inl e \<Rightarrow> (Inl e, True, w)
     | Inr (changed, w1) \<Rightarrow> (case wu_description request of
         None \<Rightarrow> (Inr (), changed, w1)
       | Some given \<Rightarrow> (let description = py_strip (case given of None \<Rightarrow> [] | Some d \<Rightarrow> d) in
           if wk_description w1 \<noteq> description
           then (Inr (), True, w1\<lparr>wk_description := description\<rparr>) else (Inr (), changed, w1))))"

definition reorder_command :: "uuid list \<Rightarrow> ('p, unit) command" where
  "reorder_command ordered_ids w =
     (let current_ids = dict_keys (ng_nodes (wk_graph w)) in
      if has_duplicates ordered_ids \<or> length ordered_ids \<noteq> length current_ids \<or>
         set ordered_ids \<noteq> set current_ids
      then (Inl (InvalidInputError
        ''ordered_ids must be an exact duplicate-free permutation of workspace nodes''), True, w)
      else if ordered_ids \<noteq> current_ids then
        (case reorder_nodes ordered_ids (wk_graph w) of
           (Inl e, g) \<Rightarrow> (Inl e, True, w\<lparr>wk_graph := g\<rparr>)
         | (Inr _, g) \<Rightarrow> (Inr (), True, w\<lparr>wk_graph := g\<rparr>))
      else (Inr (), False, w))"

definition create_tab :: "uuid \<Rightarrow> timestamp \<Rightarrow> analysis_kind \<Rightarrow> string \<Rightarrow> ('p, tab) command" where
  "create_tab i now kind name w = (case tab_create i kind name now of
     Inl e \<Rightarrow> (Inl e, True, w)
   | Inr t \<Rightarrow> (case add_tab t (wk_board w) of (res, b) \<Rightarrow> (res, True, w\<lparr>wk_board := b\<rparr>)))"

record tab_update =
  tu_name :: "string option"
  tu_correction_columns :: "(uuid, string) dict option"
  tu_stop_words :: "string list option"
  tu_words_per_topic :: "int option option"

text \<open>One section of \<open>update_tab\<close>: it may raise, change the Tab, and mark it as changed. Assignments to a
  Tab are validated.\<close>

type_synonym tab_section = "tab \<times> bool \<Rightarrow> (tab \<times> bool) result"

definition assign_tab :: "(tab \<Rightarrow> tab) \<Rightarrow> tab \<times> bool \<Rightarrow> (tab \<times> bool) result" where
  "assign_tab change s = bind_result (validate tab_coerce tab_checks (change (fst s))) (\<lambda>t. Inr (t, True))"

definition update_name_section :: "tab_update \<Rightarrow> tab_section" where
  "update_name_section request s = (case tu_name request of
     Some name \<Rightarrow> if tab_name (fst s) \<noteq> name then assign_tab (\<lambda>t. t\<lparr>tab_name := name\<rparr>) s else Inr s
   | None \<Rightarrow> Inr s)"

text \<open>\<open>columns\<close> is \<open>node.data.collect_schema\<close>, \<open>None\<close> for a Data Block that does not exist.\<close>

definition update_columns_section :: "(uuid \<Rightarrow> string list option) \<Rightarrow> tab_update \<Rightarrow> tab_section" where
  "update_columns_section columns request s = (case tu_correction_columns request of
     None \<Rightarrow> Inr s
   | Some wanted \<Rightarrow>
       if map_of (tab_correction_columns (fst s)) = map_of wanted then Inr s
       else if tab_kind (fst s) \<noteq> KAnnotation
       then Inl (InvalidInputError ''Correction columns belong only to Annotation Tabs'')
       else if \<exists>(i, column) \<in> set wanted. (case columns i of None \<Rightarrow> True | Some cs \<Rightarrow> column \<notin> set cs)
       then Inl (InvalidInputError ''Annotation correction column is unavailable'')
       else assign_tab (\<lambda>t. t\<lparr>tab_correction_columns := wanted\<rparr>) s)"

definition update_stop_words_section :: "tab_update \<Rightarrow> tab_section" where
  "update_stop_words_section request s = (case tu_stop_words request of
     None \<Rightarrow> Inr s
   | Some words \<Rightarrow>
       if tab_kind (fst s) \<notin> {KTokenFrequency, KTopicModeling}
       then Inl (InvalidInputError ''Stop words belong only to Token Frequency and Topic Modelling Tabs'')
       else if tab_stop_words (fst s) \<noteq> words then assign_tab (\<lambda>t. t\<lparr>tab_stop_words := words\<rparr>) s
       else Inr s)"

definition update_words_section :: "tab_update \<Rightarrow> tab_section" where
  "update_words_section request s = (case tu_words_per_topic request of
     None \<Rightarrow> Inr s
   | Some given \<Rightarrow>
       if tab_kind (fst s) \<noteq> KTopicModeling
       then Inl (InvalidInputError ''Words per topic belongs only to Topic Modelling Tabs'')
       else if given = None then Inl (InvalidInputError ''Topic Modelling Tabs require a word display count'')
       else if tab_words_per_topic (fst s) \<noteq> given
       then assign_tab (\<lambda>t. t\<lparr>tab_words_per_topic := given\<rparr>) s else Inr s)"

text \<open>The sections in order; the Tab is changed in place, so what the ones before a raise did stays.\<close>

fun run_sections :: "tab_section list \<Rightarrow> tab \<times> bool \<Rightarrow> unit result \<times> tab \<times> bool" where
  "run_sections [] s = (Inr (), s)"
| "run_sections (f # fs) s = (case f s of Inl e \<Rightarrow> (Inl e, s) | Inr s' \<Rightarrow> run_sections fs s')"

definition put_tab :: "uuid \<Rightarrow> tab \<Rightarrow> 'p workspace \<Rightarrow> 'p workspace" where
  "put_tab i t w = w\<lparr>wk_board := (wk_board w)\<lparr>ab_tabs := AList.update i t (ab_tabs (wk_board w))\<rparr>\<rparr>"

definition update_tab ::
  "timestamp \<Rightarrow> (uuid \<Rightarrow> string list option) \<Rightarrow> uuid \<Rightarrow> tab_update \<Rightarrow> ('p, tab) command" where
  "update_tab now columns i request w = (case map_of (ab_tabs (wk_board w)) i of
     None \<Rightarrow> (Inl TabNotFoundError, True, w)
   | Some t \<Rightarrow> (case run_sections [update_name_section request, update_columns_section columns request,
         update_stop_words_section request, update_words_section request] (t, False) of
       (Inl e, t', changed) \<Rightarrow> (Inl e, True, put_tab i t' w)
     | (Inr _, t', changed) \<Rightarrow>
         (let t'' = (if changed then t'\<lparr>tab_modified_at := now, tab_revision := tab_revision t' + 1\<rparr> else t')
          in (Inr t'', changed, put_tab i t'' w))))"

definition list_tabs :: "'p workspace \<Rightarrow> tab list" where
  "list_tabs w = sort_key (\<lambda>t. (tab_created_at t, tab_id t)) (dict_values (ab_tabs (wk_board w)))"

definition get_tab :: "uuid \<Rightarrow> 'p workspace \<Rightarrow> tab result" where
  "get_tab i w = (case map_of (ab_tabs (wk_board w)) i of None \<Rightarrow> Inl TabNotFoundError | Some t \<Rightarrow> Inr t)"

section \<open>The commands keep the contract\<close>

interpretation metadata_command: mutation_command "update_metadata request :: ('p, unit) command" for request
  by unfold_locales (auto simp: update_metadata_def Let_def split: option.splits if_splits)

interpretation reorder_command: mutation_command "reorder_command ids :: ('p, unit) command" for ids
  by unfold_locales (auto simp: reorder_command_def Let_def split: if_splits prod.splits sum.splits)

interpretation create_tab_command: mutation_command "create_tab i now kind name :: ('p, tab) command"
  for i now kind name
  by unfold_locales (auto simp: create_tab_def split: sum.splits prod.splits)

text \<open>A section that does not mark the Tab as changed has not changed it.\<close>

definition honest :: "tab_section \<Rightarrow> bool" where
  "honest f \<longleftrightarrow> (\<forall>t c t' c'. f (t, c) = Inr (t', c') \<longrightarrow> (c \<longrightarrow> c') \<and> (\<not> c' \<longrightarrow> t' = t))"

lemma honest_sections:
  "honest (update_name_section request)" "honest (update_columns_section columns request)"
  "honest (update_stop_words_section request)" "honest (update_words_section request)"
  by (auto simp: honest_def update_name_section_def update_columns_section_def
      update_stop_words_section_def update_words_section_def assign_tab_def bind_result_Inr_iff
      split: option.splits if_splits)

lemma honest_run:
  assumes "\<forall>f \<in> set fs. honest f" "run_sections fs (t, c) = (Inr u, t', c')"
  shows "(c \<longrightarrow> c') \<and> (\<not> c' \<longrightarrow> t' = t)"
  using assms
proof (induction fs arbitrary: t c)
  case (Cons f fs)
  then obtain t1 c1 where f: "f (t, c) = Inr (t1, c1)" "run_sections fs (t1, c1) = (Inr u, t', c')"
    by (auto split: sum.splits)
  have "(c \<longrightarrow> c1) \<and> (\<not> c1 \<longrightarrow> t1 = t)" using Cons(2) f(1) by (auto simp: honest_def)
  moreover have "(c1 \<longrightarrow> c') \<and> (\<not> c' \<longrightarrow> t' = t1)" using Cons(1) [OF _ f(2)] Cons(2) by auto
  ultimately show ?case by auto
qed auto

lemma update_same: "map_of d i = Some t \<Longrightarrow> AList.update i t d = d"
  by (induction d) (auto split: if_splits)

lemma put_tab_same: "map_of (ab_tabs (wk_board w)) i = Some t \<Longrightarrow> put_tab i t w = w"
  by (simp add: put_tab_def update_same)

interpretation update_tab_command: mutation_command "update_tab now columns i request :: ('p, tab) command"
  for now columns i request
proof
  fix w w' :: "'p workspace" and x
  assume run: "update_tab now columns i request w = (Inr x, False, w')"
  then obtain t t' where t: "map_of (ab_tabs (wk_board w)) i = Some t"
    "run_sections [update_name_section request, update_columns_section columns request,
         update_stop_words_section request, update_words_section request] (t, False) = (Inr (), t', False)"
    "w' = put_tab i t' w"
    by (auto simp: update_tab_def Let_def split: option.splits sum.splits prod.splits)
  have "t' = t" using honest_run [OF _ t(2)] honest_sections by auto
  then show "durable w' = durable w" using t put_tab_same [OF t(1)] by simp
qed

section \<open>Events of a committed mutation\<close>

record before_image =
  mb_tabs :: "(uuid, int) dict"
  mb_analyses :: "(uuid, int) dict"
  mb_corrupt :: "uuid list"

definition live_analyses :: "'p workspace \<Rightarrow> (uuid, analysis_record) dict" where
  "live_analyses w = filter (\<lambda>p. fst p \<in> set (live_analysis_ids (wk_board w))) (ab_analyses (wk_board w))"

definition mutation_before :: "'p workspace \<Rightarrow> before_image" where
  "mutation_before w =
     \<lparr>mb_tabs = map (\<lambda>(i, t). (i, tab_revision t)) (ab_tabs (wk_board w)),
      mb_analyses = map (\<lambda>(i, a). (i, lc_revision a)) (live_analyses w),
      mb_corrupt = filter (\<lambda>i. i \<in> set (live_analysis_ids (wk_board w))) (dict_keys (ab_corrupt (wk_board w)))\<rparr>"

definition mutation_events :: "int \<Rightarrow> before_image \<Rightarrow> 'p workspace \<Rightarrow> event_body list" where
  "mutation_events revision before w =
    (let ws = Some (wk_id w);
         after_tabs = map (\<lambda>(i, t). (i, tab_revision t)) (ab_tabs (wk_board w));
         live = live_analysis_ids (wk_board w);
         after = live_analyses w
     in [ResourceChanged WorkspaceResource (wk_id w) ws None None revision] @
        map (\<lambda>i. ResourceChanged TabResource i ws None None (the (map_of after_tabs i)))
          (filter (\<lambda>i. map_of (mb_tabs before) i \<noteq> map_of after_tabs i) (sort (dict_keys after_tabs))) @
        map (\<lambda>i. ResourceRemoved TabResource i ws (map_of (mb_tabs before) i))
          (sort (filter (\<lambda>i. i \<notin> set (dict_keys after_tabs)) (dict_keys (mb_tabs before)))) @
        map (\<lambda>i. let a = the (map_of after i) in
            ResourceChanged AnalysisResource i ws (Some (lc_state a)) (Some (lc_progress a)) (lc_revision a))
          (filter (\<lambda>i. map_of (mb_analyses before) i \<noteq> map_option lc_revision (map_of after i))
             (sort (dict_keys after))) @
        map (\<lambda>i. ResourceRemoved AnalysisResource i ws (map_of (mb_analyses before) i))
          (sort (filter (\<lambda>i. i \<notin> set live)
             (remdups (dict_keys (mb_analyses before) @ mb_corrupt before)))))"

text \<open>The resource an event is about.\<close>

fun about :: "event_body \<Rightarrow> (event_resource_type \<times> uuid) option" where
  "about (ResourceChanged k i _ _ _ _) = Some (k, i)"
| "about (ResourceRemoved k i _ _) = Some (k, i)"
| "about _ = None"

lemma map_of_mapped: "map_of (map (\<lambda>(i, x). (i, f x)) d) i = map_option f (map_of d i)"
  by (simp add: map_of_map)

lemma keys_mapped: "dict_keys (map (\<lambda>(i, x). (i, f x)) d) = dict_keys d"
  by auto

lemma keys_image: "(\<lambda>x. fst (case x of (i, t) \<Rightarrow> (i, f t))) ` A = fst ` A"
  by (rule image_cong) (auto split: prod.splits)

lemma in_tagged: "Some (k, i) \<in> (\<lambda>x. Some (k', x)) ` A \<longleftrightarrow> k = k' \<and> i \<in> A"
  by auto

lemmas mutation_event_defs = mutation_events_def mutation_before_def Let_def image_Un image_image keys_mapped

lemma announced_tabs:
  "Some (TabResource, i) \<in> about ` set (mutation_events n (mutation_before w) w') \<longleftrightarrow>
     map_option tab_revision (map_of (ab_tabs (wk_board w)) i) \<noteq>
     map_option tab_revision (map_of (ab_tabs (wk_board w')) i)"
proof -
  have "Some (TabResource, i) \<in> about ` set (mutation_events n (mutation_before w) w') \<longleftrightarrow>
      map_of (ab_tabs (wk_board w')) i \<noteq> None \<and>
        map_option tab_revision (map_of (ab_tabs (wk_board w)) i) \<noteq>
        map_option tab_revision (map_of (ab_tabs (wk_board w')) i) \<or>
      map_of (ab_tabs (wk_board w)) i \<noteq> None \<and> map_of (ab_tabs (wk_board w')) i = None"
    by (simp add: mutation_event_defs del: map_map)
      (simp add: in_tagged map_of_mapped keys_image dict_keys_dom domIff)
  then show ?thesis by auto
qed

lemma announced_analyses:
  "Some (AnalysisResource, i) \<in> about ` set (mutation_events n (mutation_before w) w') \<longleftrightarrow>
     map_of (live_analyses w') i \<noteq> None \<and>
       map_option lc_revision (map_of (live_analyses w) i) \<noteq>
       map_option lc_revision (map_of (live_analyses w') i) \<or>
     (map_of (live_analyses w) i \<noteq> None \<or> i \<in> set (mb_corrupt (mutation_before w))) \<and>
       i \<notin> set (live_analysis_ids (wk_board w'))"
  by (simp add: mutation_event_defs del: map_map)
    (auto simp: in_tagged map_of_mapped dict_keys_dom dom_def)


end
