(* ===== verification/WorkspaceService.thy ===== *)
theory WorkspaceService
  imports WorkspaceAggregate StorageAdmission
begin

text \<open>
  Open Workspaces, mutation and persistence: \<^verbatim>\<open>services/workspace.py\<close>.

  A Workspace lives on disk and, once it has been opened, in a slot. \<open>wv_disk\<close> is what the store would
  load for each Workspace directory: the owner, the committed aggregate, its revision and its size.
  A method that enters the gate of a Workspace runs on its slot alone, so it is a function on the slot and
  the service; \<open>with_slot\<close> is the gate, which makes the slot and discards it again when it is closed and
  nobody waits for it.

  The methods are atomic here. While one is inside a gate, others run in other gates; what they share is
  the counter of open bytes and the storage ledgers (whose interleavings are in \<open>StorageAdmission\<close>).

  \<open>op_env\<close> is what a call finds: the clock, the state of the disk, the free bytes reported at the two
  moments they are read, and how the store answers. \<open>oe_stage\<close> serializes an aggregate into a staging
  directory and measures it, or raises; \<open>oe_inspect\<close> and \<open>oe_load\<close> read the committed snapshot, and
  \<open>store_ok\<close> says that what they read is what is there; \<open>oe_publish\<close> is the outcome of the rename that
  commits, which can also fail after the fact (the \<open>fsync\<close> behind \<open>os.replace\<close>). Files that a command
  publishes next to the snapshot, and their removal after a failed commit, are not modelled.
\<close>

section \<open>State\<close>

record 'p disk_entry =
  dk_owner :: string
  dk_workspace :: "'p workspace"
  dk_revision :: int
  dk_bytes :: int

record 'p workspace_slot =
  sl_workspace :: "'p workspace option"
  sl_path :: "uuid option"
  sl_revision :: int
  sl_bytes :: int
  sl_entries :: int
  sl_closing :: bool

record 'p workspace_service =
  wv_max_snapshot_bytes :: int
  wv_capacity_limit :: "int option"
  wv_capacity_bytes :: int
  wv_accepting :: bool
  wv_slots :: "(uuid, 'p workspace_slot) dict"
  wv_disk :: "(uuid, 'p disk_entry) dict"
  wv_quota :: quota_service
  wv_admission :: admission
  wv_published :: "(string \<times> event_body) list"

definition workspace_service_init ::
  "bool \<Rightarrow> int \<Rightarrow> int \<Rightarrow> (uuid, 'p disk_entry) dict \<Rightarrow> admission \<Rightarrow> 'p workspace_service" where
  "workspace_service_init multi_user max_open max_snapshot disk ad =
     \<lparr>wv_max_snapshot_bytes = max_snapshot, wv_capacity_limit = (if multi_user then Some max_open else None),
      wv_capacity_bytes = 0, wv_accepting = True, wv_slots = [], wv_disk = disk,
      wv_quota = quota_init, wv_admission = ad, wv_published = []\<rparr>"

datatype publish_outcome = Published | NotPublished error | PublishedThenFailed error

record 'p op_env =
  oe_now :: timestamp
  oe_storage :: storage_env
  oe_free_staging :: int
  oe_free_durable :: int
  oe_access :: bool
  oe_stage :: "'p workspace \<Rightarrow> int result"
  oe_inspect :: "'p disk_entry option \<Rightarrow> ('p disk_entry \<times> int) result"
  oe_load :: "'p disk_entry option \<Rightarrow> 'p disk_entry result"
  oe_publish :: publish_outcome

text \<open>\<open>inspect\<close> reads everything but the size of Tabs and Analyses, so it may report fewer bytes.\<close>

definition store_ok :: "'p op_env \<Rightarrow> bool" where
  "store_ok env \<longleftrightarrow>
     (\<forall>e d n. oe_inspect env e = Inr (d, n) \<longrightarrow> e = Some d \<and> 0 \<le> n) \<and>
     (\<forall>e d. oe_load env e = Inr d \<longrightarrow> e = Some d) \<and>
     (\<forall>w n. oe_stage env w = Inr n \<longrightarrow> 0 \<le> n)"

section \<open>Slots\<close>

type_synonym 'p gated = "'p workspace_slot \<times> 'p workspace_service"

definition closed_slot :: "'p workspace_slot" where
  "closed_slot = \<lparr>sl_workspace = None, sl_path = None, sl_revision = 0, sl_bytes = 0, sl_entries = 0,
     sl_closing = False\<rparr>"

definition slot_of :: "uuid \<Rightarrow> 'p workspace_service \<Rightarrow> 'p workspace_slot" where
  "slot_of i s = dict_get (wv_slots s) i closed_slot"

definition keep_slot :: "uuid \<Rightarrow> 'p gated \<Rightarrow> 'p workspace_service" where
  "keep_slot i g = (case g of (slot, s) \<Rightarrow>
     if sl_workspace slot = None \<and> \<not> sl_closing slot then s\<lparr>wv_slots := AList.delete i (wv_slots s)\<rparr>
     else s\<lparr>wv_slots := AList.update i slot (wv_slots s)\<rparr>)"

definition with_slot ::
  "uuid \<Rightarrow> ('p gated \<Rightarrow> 'a result \<times> 'p gated) \<Rightarrow> 'p workspace_service \<Rightarrow> 'a result \<times> 'p workspace_service" where
  "with_slot i body s = (case body (slot_of i s, s) of (res, g) \<Rightarrow> (res, keep_slot i g))"

definition slot_state :: "'p workspace_slot \<Rightarrow> runtime_state" where
  "slot_state slot = (if sl_closing slot then RuntimeClosing
     else if sl_workspace slot \<noteq> None then RuntimeOpen else RuntimeClosed)"

definition runtime_states :: "'p workspace_service \<Rightarrow> (uuid, runtime_state) dict" where
  "runtime_states s = map (\<lambda>(i, slot). (i, if sl_closing slot then RuntimeClosing else RuntimeOpen))
     (filter (\<lambda>(i, slot). sl_workspace slot \<noteq> None) (wv_slots s))"

section \<open>Open capacity\<close>

definition reserve_open_capacity :: "int \<Rightarrow> 'p workspace_service \<Rightarrow> unit result \<times> 'p workspace_service" where
  "reserve_open_capacity requested s = (case wv_capacity_limit s of
     None \<Rightarrow> (Inr (), s)
   | Some limit \<Rightarrow>
       if requested \<le> 0 then (Inr (), s)
       else if wv_capacity_bytes s + requested > limit then (Inl BackendCapacityExceededError, s)
       else (Inr (), s\<lparr>wv_capacity_bytes := wv_capacity_bytes s + requested\<rparr>))"

definition release_open_capacity :: "int \<Rightarrow> 'p workspace_service \<Rightarrow> 'p workspace_service" where
  "release_open_capacity released s =
     (if released \<le> 0 \<or> wv_capacity_limit s = None then s
      else s\<lparr>wv_capacity_bytes := max 0 (wv_capacity_bytes s - released)\<rparr>)"

definition clear_slot :: "'p gated \<Rightarrow> 'p gated" where
  "clear_slot g = (case g of (slot, s) \<Rightarrow> (closed_slot, release_open_capacity (sl_bytes slot) s))"

section \<open>Lookup and leases\<close>

definition path_of :: "'p op_env \<Rightarrow> string \<Rightarrow> uuid \<Rightarrow> 'p workspace_service \<Rightarrow> uuid option" where
  "path_of env user i s = (case map_of (wv_disk s) i of
     None \<Rightarrow> None
   | Some d \<Rightarrow> if oe_access env \<and> dk_owner d = user then Some i else None)"

definition require_open ::
  "'p op_env \<Rightarrow> string \<Rightarrow> uuid \<Rightarrow> bool \<Rightarrow> 'p gated \<Rightarrow> 'p workspace result \<times> 'p gated" where
  "require_open env user i allow_closing g = (case g of (slot, s) \<Rightarrow>
     case path_of env user i s of
       None \<Rightarrow> (Inl WorkspaceNotFoundError, if sl_workspace slot \<noteq> None then clear_slot g else g)
     | Some path \<Rightarrow> (case (sl_workspace slot, sl_path slot) of
         (Some w, Some opened) \<Rightarrow>
           if sl_closing slot \<and> \<not> allow_closing then (Inl WorkspaceClosingError, g)
           else if opened \<noteq> path then (Inl WorkspaceNotFoundError, clear_slot g)
           else (Inr w, g)
       | _ \<Rightarrow> (Inl WorkspaceNotOpenError, g)))"

definition with_lease ::
  "'p op_env \<Rightarrow> string \<Rightarrow> uuid \<Rightarrow> bool \<Rightarrow> ('p workspace \<Rightarrow> 'a result) \<Rightarrow> 'p gated \<Rightarrow> 'a result \<times> 'p gated" where
  "with_lease env user i allow_closing read g = (case require_open env user i allow_closing g of
     (Inl e, g') \<Rightarrow> (Inl e, g') | (Inr w, g') \<Rightarrow> (read w, g'))"

definition read_context ::
  "'p op_env \<Rightarrow> string \<Rightarrow> uuid \<Rightarrow> ('p workspace \<Rightarrow> 'a result) \<Rightarrow> 'p workspace_service \<Rightarrow>
     'a result \<times> 'p workspace_service" where
  "read_context env user i read = with_slot i (with_lease env user i True read)"

definition submission_context ::
  "'p op_env \<Rightarrow> string \<Rightarrow> uuid \<Rightarrow> ('p workspace \<Rightarrow> 'a result) \<Rightarrow> 'p workspace_service \<Rightarrow>
     'a result \<times> 'p workspace_service" where
  "submission_context env user i read s =
     (if \<not> wv_accepting s then (Inl (WorkspaceConflictError ''Workspace service is shutting down''), s)
      else with_slot i (with_lease env user i False read) s)"

definition fill_slot :: "uuid \<Rightarrow> 'p workspace \<Rightarrow> int \<Rightarrow> int \<Rightarrow> bool \<Rightarrow> 'p workspace_slot" where
  "fill_slot i w revision bytes closing = \<lparr>sl_workspace = Some w, sl_path = Some i, sl_revision = revision,
     sl_bytes = bytes, sl_entries = entry_count w, sl_closing = closing\<rparr>"

section \<open>Persistence\<close>

text \<open>\<open>WorkspaceStore.commit_staged\<close>, with the errors that \<open>_persist\<close> makes of its errors.\<close>

definition commit_staged ::
  "publish_outcome \<Rightarrow> uuid \<Rightarrow> int \<Rightarrow> 'p workspace \<Rightarrow> int \<Rightarrow> (uuid, 'p disk_entry) dict \<Rightarrow>
     int result \<times> (uuid, 'p disk_entry) dict" where
  "commit_staged outcome i expected w bytes disk = (case map_of disk i of
     None \<Rightarrow> (Inl (ValueError ''Workspace snapshot is invalid''), disk)
   | Some d \<Rightarrow>
       (if dk_revision d \<noteq> expected
        then (Inl (WorkspaceConflictError ''Workspace persistence changed outside its mutation boundary''), disk)
        else (let next = d\<lparr>dk_workspace := durable w, dk_revision := expected + 1, dk_bytes := bytes\<rparr>;
                  disk' = AList.update i next disk
              in case outcome of
                NotPublished e \<Rightarrow> (Inl e, disk)
              | PublishedThenFailed e \<Rightarrow> (Inl e, disk')
              | Published \<Rightarrow> (Inr (expected + 1), disk'))))"

text \<open>What holds while \<open>_persist\<close> runs its \<open>finally\<close>: the reservation given back.\<close>

definition settle :: "storage_reservation \<Rightarrow> 'p workspace_service \<Rightarrow> 'p workspace_service" where
  "settle r s = (case release r (wv_quota s, wv_admission s) of
     (_, q, ad) \<Rightarrow> s\<lparr>wv_quota := q, wv_admission := ad\<rparr>)"

text \<open>The part after the durable reservation. \<open>w\<close> is the aggregate of the lease with its new modification
  time; on an error the open capacity for the growth is given back, also when there was none to give.\<close>

definition publish_staged ::
  "'p op_env \<Rightarrow> uuid \<Rightarrow> 'p workspace \<Rightarrow> int \<Rightarrow> storage_reservation \<Rightarrow> 'p gated \<Rightarrow> int result \<times> 'p gated" where
  "publish_staged env i w bytes reservation g = (case g of (slot, s) \<Rightarrow>
     let growth = max 0 (bytes - sl_bytes slot);
         entry_growth = max 0 (entry_count w - sl_entries slot);
         failed = \<lambda>e r s'. (Inl e, slot, settle r (release_open_capacity growth s'))
     in case reserve_open_capacity growth s of
       (Inl e, s1) \<Rightarrow> failed e reservation s1
     | (Inr _, s1) \<Rightarrow>
         (case storage_recheck_estimate (oe_storage env) growth entry_growth reservation (wv_quota s1) of
           (Inl e, r, q) \<Rightarrow> failed e r (s1\<lparr>wv_quota := q\<rparr>)
         | (Inr _, r, q) \<Rightarrow>
             (case commit_staged (oe_publish env) i (sl_revision slot) w bytes (wv_disk s1) of
               (Inl e, disk) \<Rightarrow> failed e r (s1\<lparr>wv_quota := q, wv_disk := disk\<rparr>)
             | (Inr revision, disk) \<Rightarrow>
                 (Inr revision, fill_slot i w revision bytes (sl_closing slot),
                  settle r (release_open_capacity (sl_bytes slot - bytes)
                    (s1\<lparr>wv_quota := q, wv_disk := disk\<rparr>))))))"

definition persist :: "'p op_env \<Rightarrow> string \<Rightarrow> uuid \<Rightarrow> 'p workspace \<Rightarrow> 'p gated \<Rightarrow> int result \<times> 'p gated" where
  "persist env user i w g = (case g of (slot, s) \<Rightarrow>
     let w' = w\<lparr>wk_modified_at := oe_now env\<rparr> in
     case acquire_transient (oe_free_staging env) (wv_max_snapshot_bytes s) (wv_admission s) of
       (Inl e, ad) \<Rightarrow> (Inl e, slot, s\<lparr>wv_admission := ad\<rparr>)
     | (Inr transient, ad) \<Rightarrow>
         (let s1 = settle transient (s\<lparr>wv_admission := ad\<rparr>) in
          case oe_stage env w' of
            Inl e \<Rightarrow> (Inl e, slot, s1)
          | Inr bytes \<Rightarrow>
              (case acquire (oe_storage env) (oe_free_durable env) user (max 0 (bytes - sl_bytes slot))
                  (max 0 (entry_count w' - sl_entries slot)) (wv_quota s1, wv_admission s1) of
                (Inl e, q, ad2) \<Rightarrow> (Inl e, slot, s1\<lparr>wv_quota := q, wv_admission := ad2\<rparr>)
              | (Inr reservation, q, ad2) \<Rightarrow>
                  publish_staged env i w' bytes reservation
                    (slot, s1\<lparr>wv_quota := q, wv_admission := ad2\<rparr>))))"

definition restore_slot ::
  "'p op_env \<Rightarrow> uuid \<Rightarrow> (uuid, 'p list \<times> 'p list) dict \<Rightarrow> 'p gated \<Rightarrow> 'p gated" where
  "restore_slot env i histories g = (case g of (slot, s) \<Rightarrow>
     case oe_load env (map_of (wv_disk s) i) of
       Inl e \<Rightarrow> clear_slot g
     | Inr d \<Rightarrow>
         (case (if dk_bytes d > sl_bytes slot then reserve_open_capacity (dk_bytes d - sl_bytes slot) s
                else (Inr (), release_open_capacity (sl_bytes slot - dk_bytes d) s)) of
           (Inl e, s1) \<Rightarrow> clear_slot (slot, s1)
         | (Inr _, s1) \<Rightarrow>
             (fill_slot i (restore_histories histories (dk_workspace d)) (dk_revision d) (dk_bytes d)
                (sl_closing slot), s1)))"

section \<open>Mutations\<close>

definition publish_events :: "string \<Rightarrow> event_body list \<Rightarrow> 'p workspace_service \<Rightarrow> 'p workspace_service" where
  "publish_events user bodies s = s\<lparr>wv_published := wv_published s @ map (Pair user) bodies\<rparr>"

text \<open>The body of \<open>mutation_context\<close>. The command works on the aggregate of the slot; when it or the commit
  raises, the slot is loaded again from disk. The value comes with the aggregate and the revision that the
  lease ends with.\<close>

definition run_mutation ::
  "'p op_env \<Rightarrow> string \<Rightarrow> uuid \<Rightarrow> ('p, 'a) command \<Rightarrow> 'p workspace \<Rightarrow> 'p gated \<Rightarrow>
     ('a \<times> 'p workspace \<times> int) result \<times> 'p gated" where
  "run_mutation env user i command w g = (case g of (slot, s) \<Rightarrow>
     let histories = plan_histories w in
     case command w of
       (Inl e, _, w1) \<Rightarrow> (Inl e, restore_slot env i histories (slot\<lparr>sl_workspace := Some w1\<rparr>, s))
     | (Inr x, commit, w1) \<Rightarrow>
         (let slot1 = slot\<lparr>sl_workspace := Some w1\<rparr> in
          if \<not> commit then (Inr (x, w1, sl_revision slot), slot1, s)
          else case persist env user i w1 (slot1, s) of
            (Inl e, g1) \<Rightarrow> (Inl e, restore_slot env i histories g1)
          | (Inr revision, slot2, s2) \<Rightarrow>
              (let w2 = w1\<lparr>wk_modified_at := oe_now env\<rparr> in
               (Inr (x, w2, revision), slot2,
                publish_events user (mutation_events revision (mutation_before w) w2) s2))))"

definition mutation_gated ::
  "'p op_env \<Rightarrow> string \<Rightarrow> uuid \<Rightarrow> bool \<Rightarrow> ('p, 'a) command \<Rightarrow> 'p gated \<Rightarrow>
     ('a \<times> 'p workspace \<times> int) result \<times> 'p gated" where
  "mutation_gated env user i internal command g = (case require_open env user i internal g of
     (Inl e, g') \<Rightarrow> (Inl e, g')
   | (Inr w, g') \<Rightarrow> run_mutation env user i command w g')"

definition mutation_context ::
  "'p op_env \<Rightarrow> string \<Rightarrow> uuid \<Rightarrow> bool \<Rightarrow> ('p, 'a) command \<Rightarrow> 'p workspace_service \<Rightarrow>
     ('a \<times> 'p workspace \<times> int) result \<times> 'p workspace_service" where
  "mutation_context env user i internal command s =
     (if \<not> wv_accepting s then (Inl (WorkspaceConflictError ''Workspace service is shutting down''), s)
      else with_slot i (mutation_gated env user i internal command) s)"

text \<open>\<open>mutate_workspace\<close>: a callback on the aggregate, always committed.\<close>

definition mutate_workspace ::
  "'p op_env \<Rightarrow> string \<Rightarrow> uuid \<Rightarrow> bool \<Rightarrow> ('p workspace \<Rightarrow> 'a result \<times> 'p workspace) \<Rightarrow>
     'p workspace_service \<Rightarrow> ('a \<times> int) result \<times> 'p workspace_service" where
  "mutate_workspace env user i internal callback s =
     (case mutation_context env user i internal (\<lambda>w. case callback w of (res, w') \<Rightarrow> (res, True, w')) s of
       (Inl e, s') \<Rightarrow> (Inl e, s')
     | (Inr (x, _, revision), s') \<Rightarrow> (Inr (x, revision), s'))"

text \<open>The commands that return the record of the Workspace they changed.\<close>

definition mutation_record ::
  "'p op_env \<Rightarrow> string \<Rightarrow> uuid \<Rightarrow> ('p, unit) command \<Rightarrow> 'p workspace_service \<Rightarrow>
     workspace_record result \<times> 'p workspace_service" where
  "mutation_record env user i command s = (case mutation_context env user i False command s of
     (Inl e, s') \<Rightarrow> (Inl e, s')
   | (Inr (_, w, revision), s') \<Rightarrow> (Inr (materialize_record w revision (slot_state (slot_of i s'))), s'))"

definition service_update_metadata where
  "service_update_metadata env user i request = mutation_record env user i (update_metadata request)"

definition service_reorder_nodes where
  "service_reorder_nodes env user i ordered_ids = mutation_record env user i (reorder_command ordered_ids)"

section \<open>Opening and closing\<close>

text \<open>The two branches of \<open>open_workspace\<close>; the flag tells whether the runtime state has changed.\<close>

definition reopen_slot :: "uuid \<Rightarrow> 'p workspace \<Rightarrow> 'p gated \<Rightarrow> (workspace_record \<times> bool) result \<times> 'p gated" where
  "reopen_slot path w g = (case g of (slot, s) \<Rightarrow>
     if sl_path slot \<noteq> Some path then (Inl WorkspaceNotFoundError, clear_slot g)
     else (Inr (materialize_record w (sl_revision slot) RuntimeOpen, sl_closing slot),
           slot\<lparr>sl_closing := False\<rparr>, s))"

definition load_slot :: "'p op_env \<Rightarrow> uuid \<Rightarrow> 'p gated \<Rightarrow> (workspace_record \<times> bool) result \<times> 'p gated" where
  "load_slot env i g = (case g of (slot, s) \<Rightarrow>
     case oe_inspect env (map_of (wv_disk s) i) of
       Inl e \<Rightarrow> (Inl e, g)
     | Inr (seen, inspected) \<Rightarrow>
         (case reserve_open_capacity inspected s of
           (Inl e, s1) \<Rightarrow> (Inl e, slot, s1)
         | (Inr _, s1) \<Rightarrow>
             (case oe_load env (map_of (wv_disk s) i) of
               Inl e \<Rightarrow> (Inl e, slot, release_open_capacity inspected s1)
             | Inr d \<Rightarrow>
                 (case (if dk_bytes d > inspected then reserve_open_capacity (dk_bytes d - inspected) s1
                        else (Inr (), release_open_capacity (inspected - dk_bytes d) s1)) of
                   (Inl e, s2) \<Rightarrow> (Inl e, slot, release_open_capacity inspected s2)
                 | (Inr _, s2) \<Rightarrow>
                     if dk_revision d \<noteq> dk_revision seen
                     then (Inl (WorkspaceCorruptError ''Workspace changed while it was opening''), slot,
                           release_open_capacity (dk_bytes d) s2)
                     else (Inr (materialize_record (dk_workspace d) (dk_revision d) RuntimeOpen, True),
                           fill_slot i (dk_workspace d) (dk_revision d) (dk_bytes d) False, s2)))))"

definition open_gated ::
  "'p op_env \<Rightarrow> string \<Rightarrow> uuid \<Rightarrow> 'p gated \<Rightarrow> (workspace_record \<times> bool) result \<times> 'p gated" where
  "open_gated env user i g = (case path_of env user i (snd g) of
     None \<Rightarrow> (Inl WorkspaceNotFoundError, g)
   | Some path \<Rightarrow> (case sl_workspace (fst g) of
       Some w \<Rightarrow> reopen_slot path w g
     | None \<Rightarrow> load_slot env i g))"

definition open_workspace ::
  "'p op_env \<Rightarrow> string \<Rightarrow> uuid \<Rightarrow> 'p workspace_service \<Rightarrow> workspace_record result \<times> 'p workspace_service" where
  "open_workspace env user i s =
     (if \<not> wv_accepting s then (Inl (WorkspaceConflictError ''Workspace service is shutting down''), s)
      else case with_slot i (open_gated env user i) s of
        (Inl e, s') \<Rightarrow> (Inl e, s')
      | (Inr (record, changed), s') \<Rightarrow>
          (Inr record, if changed then publish_events user [WorkspaceRuntimeChanged i RuntimeOpen] s' else s'))"

definition close_gated ::
  "'p op_env \<Rightarrow> string \<Rightarrow> uuid \<Rightarrow> bool \<Rightarrow> 'p gated \<Rightarrow> workspace_record option result \<times> 'p gated" where
  "close_gated env user i active g = (case g of (slot, s) \<Rightarrow>
     case path_of env user i s of
       None \<Rightarrow> (Inl WorkspaceNotFoundError, g)
     | Some path \<Rightarrow> (case sl_workspace slot of
         None \<Rightarrow> (Inr None, g)
       | Some w \<Rightarrow>
           if sl_path slot \<noteq> Some path then (Inl WorkspaceNotFoundError, clear_slot g)
           else if sl_closing slot then (Inr (Some (materialize_record w (sl_revision slot) RuntimeClosing)), g)
           else if active
           then (Inr (Some (materialize_record w (sl_revision slot) RuntimeClosing)), slot\<lparr>sl_closing := True\<rparr>,
                 publish_events user [WorkspaceRuntimeChanged i RuntimeClosing] s)
           else (case clear_slot g of (slot', s') \<Rightarrow>
             (Inr None, slot', publish_events user [WorkspaceRuntimeChanged i RuntimeClosed] s'))))"

definition request_close ::
  "'p op_env \<Rightarrow> string \<Rightarrow> uuid \<Rightarrow> bool \<Rightarrow> 'p workspace_service \<Rightarrow>
     workspace_record option result \<times> 'p workspace_service" where
  "request_close env user i active = with_slot i (close_gated env user i active)"

definition finalize_gated :: "string \<Rightarrow> uuid \<Rightarrow> bool \<Rightarrow> 'p gated \<Rightarrow> unit result \<times> 'p gated" where
  "finalize_gated user i active g = (case g of (slot, s) \<Rightarrow>
     if \<not> sl_closing slot \<or> sl_workspace slot = None \<or> active then (Inr (), g)
     else (case clear_slot g of (slot', s') \<Rightarrow>
       (Inr (), slot', publish_events user [WorkspaceRuntimeChanged i RuntimeClosed] s')))"

definition finalize_close_if_idle ::
  "string \<Rightarrow> uuid \<Rightarrow> bool \<Rightarrow> 'p workspace_service \<Rightarrow> unit result \<times> 'p workspace_service" where
  "finalize_close_if_idle user i active = with_slot i (finalize_gated user i active)"

text \<open>\<open>deletion_context\<close> with the effect of its body: \<open>cancelled\<close> is the error of the cancellation, if any,
  and \<open>deleted\<close> that of the rename into the trash.\<close>

definition deletion_gated ::
  "'p op_env \<Rightarrow> string \<Rightarrow> uuid \<Rightarrow> error option \<Rightarrow> publish_outcome \<Rightarrow> 'p gated \<Rightarrow> unit result \<times> 'p gated" where
  "deletion_gated env user i cancelled deleted g = (case g of (slot, s) \<Rightarrow>
     if path_of env user i s = None then (Inl WorkspaceNotFoundError, g)
     else case cancelled of
       Some e \<Rightarrow> (Inl e, g)
     | None \<Rightarrow> (let s1 = s\<lparr>wv_disk := AList.delete i (wv_disk s)\<rparr> in
         case deleted of
           NotPublished e \<Rightarrow> (Inl e, g)
         | PublishedThenFailed e \<Rightarrow> (Inl e, slot, s1)
         | Published \<Rightarrow> (case clear_slot (slot, s1) of (slot', s2) \<Rightarrow>
             (Inr (), slot', publish_events user [ResourceRemoved WorkspaceResource i (Some i)
                (if sl_revision slot = 0 then None else Some (sl_revision slot))] s2))))"

definition deletion_context ::
  "'p op_env \<Rightarrow> string \<Rightarrow> uuid \<Rightarrow> error option \<Rightarrow> publish_outcome \<Rightarrow> 'p workspace_service \<Rightarrow>
     unit result \<times> 'p workspace_service" where
  "deletion_context env user i cancelled deleted s =
     (if \<not> wv_accepting s then (Inl (WorkspaceConflictError ''Workspace service is shutting down''), s)
      else with_slot i (deletion_gated env user i cancelled deleted) s)"

definition shutdown :: "'p workspace_service \<Rightarrow> 'p workspace_service" where
  "shutdown s = (fold (\<lambda>p s'. snd (clear_slot (snd p, s'))) (wv_slots s)
     (s\<lparr>wv_accepting := False\<rparr>))\<lparr>wv_slots := []\<rparr>"

section \<open>Creation and startup\<close>

text \<open>\<open>i\<close> is the identifier that \<open>uuid4\<close> has drawn, \<open>self\<close> and \<open>heap\<close> where the new object lives, \<open>staged\<close>
  the staging directory as the quota finds it before the rename.\<close>

definition new_workspace :: "addr \<Rightarrow> (addr \<Rightarrow> node) \<Rightarrow> uuid \<Rightarrow> string \<Rightarrow> string \<Rightarrow> timestamp \<Rightarrow> 'p workspace" where
  "new_workspace self heap i name description now =
     (workspace_init self heap i (py_strip name) now)\<lparr>wk_description := description\<rparr>"

definition publish_new ::
  "'p op_env \<Rightarrow> string \<Rightarrow> fs_entry \<Rightarrow> 'p workspace \<Rightarrow> storage_reservation \<Rightarrow> 'p gated \<Rightarrow>
     workspace_record result \<times> 'p gated" where
  "publish_new env user staged w r g = (case g of (slot, s) \<Rightarrow>
     case oe_stage env w of
       Inl e \<Rightarrow> (Inl e, slot, settle r s)
     | Inr bytes \<Rightarrow>
         (case storage_recheck_path (oe_storage env) staged None r (wv_quota s) of
           (Inl e, r', q) \<Rightarrow> (Inl e, slot, settle r' (s\<lparr>wv_quota := q\<rparr>))
         | (Inr _, r', q) \<Rightarrow>
             (let new = \<lparr>dk_owner = user, dk_workspace = durable w, dk_revision = 1, dk_bytes = bytes\<rparr>;
                  disk = AList.update (wk_id w) new (wv_disk s)
              in case oe_publish env of
                NotPublished e \<Rightarrow> (Inl e, slot, settle r' (s\<lparr>wv_quota := q\<rparr>))
              | PublishedThenFailed e \<Rightarrow> (Inl e, slot, settle r' (s\<lparr>wv_quota := q, wv_disk := disk\<rparr>))
              | Published \<Rightarrow> (Inr (materialize_record w 1 RuntimeClosed), slot,
                  settle r' (s\<lparr>wv_quota := q, wv_disk := disk\<rparr>)))))"

definition create_gated ::
  "'p op_env \<Rightarrow> string \<Rightarrow> fs_entry \<Rightarrow> 'p workspace \<Rightarrow> 'p gated \<Rightarrow> workspace_record result \<times> 'p gated" where
  "create_gated env user staged w g = (case g of (slot, s) \<Rightarrow>
     case acquire (oe_storage env) (oe_free_durable env) user (wv_max_snapshot_bytes s) 2
         (wv_quota s, wv_admission s) of
       (Inl e, q, ad) \<Rightarrow> (Inl e, slot, s\<lparr>wv_quota := q, wv_admission := ad\<rparr>)
     | (Inr r, q, ad) \<Rightarrow> publish_new env user staged w r (slot, s\<lparr>wv_quota := q, wv_admission := ad\<rparr>))"

definition create_workspace ::
  "'p op_env \<Rightarrow> string \<Rightarrow> string \<Rightarrow> string \<Rightarrow> uuid \<Rightarrow> addr \<Rightarrow> (addr \<Rightarrow> node) \<Rightarrow> fs_entry \<Rightarrow>
     'p workspace_service \<Rightarrow> workspace_record result \<times> 'p workspace_service" where
  "create_workspace env user name description i self heap staged s = (case validate_display_name name of
     Some reason \<Rightarrow> (Inl (InvalidInputError (''Invalid workspace name: '' @ reason)), s)
   | None \<Rightarrow>
       if \<not> wv_accepting s then (Inl (WorkspaceConflictError ''Workspace service is shutting down''), s)
       else (case with_slot i (create_gated env user staged
           (new_workspace self heap i name description (oe_now env))) s of
         (Inl e, s') \<Rightarrow> (Inl e, s')
       | (Inr record, s') \<Rightarrow> (Inr record, publish_events user
           [ResourceChanged WorkspaceResource i (Some i) None None (wr_revision record)] s')))"

text \<open>The startup reconciliation: errors of one Workspace that say something about its files are logged and
  passed over. \<open>reconcile\<close> is the caller's reconciler, which tells whether it has changed the aggregate.\<close>

definition reconciliation_skips :: "error \<Rightarrow> bool" where
  "reconciliation_skips e = (case e of
     OSError _ \<Rightarrow> True | ResourceTooLargeError _ \<Rightarrow> True | TabCorruptError \<Rightarrow> True
   | WorkspaceConflictError _ \<Rightarrow> True | WorkspaceCorruptError _ \<Rightarrow> True | _ \<Rightarrow> False)"

definition reconcile_gated ::
  "'p op_env \<Rightarrow> ('p workspace \<Rightarrow> bool \<times> 'p workspace) \<Rightarrow> uuid \<Rightarrow> 'p gated \<Rightarrow> unit result \<times> 'p gated" where
  "reconcile_gated env reconcile i g = (case g of (slot, s) \<Rightarrow>
     let skip = \<lambda>e s'. (if reconciliation_skips e then Inr () else Inl e, slot, s') in
     if sl_workspace slot \<noteq> None
     then (Inl (RuntimeError ''Durable Workspace reconciliation must run before serving''), g)
     else case oe_load env (map_of (wv_disk s) i) of
       Inl e \<Rightarrow> skip e s
     | Inr d \<Rightarrow> (case reconcile (dk_workspace d) of (changed, w) \<Rightarrow>
         let w' = w\<lparr>wk_modified_at := oe_now env\<rparr> in
         if \<not> changed then (Inr (), g)
         else case oe_stage env w' of
           Inl e \<Rightarrow> skip e s
         | Inr bytes \<Rightarrow>
             (case commit_staged (oe_publish env) i (dk_revision d) w' bytes (wv_disk s) of
               (Inl e, disk) \<Rightarrow> skip e (s\<lparr>wv_disk := disk\<rparr>)
             | (Inr _, disk) \<Rightarrow> (Inr (), slot, s\<lparr>wv_disk := disk\<rparr>))))"

definition reconcile_one where
  "reconcile_one env reconcile i = with_slot i (reconcile_gated env reconcile i)"

fun reconcile_durable_workspaces ::
  "(uuid \<Rightarrow> 'p op_env) \<Rightarrow> ('p workspace \<Rightarrow> bool \<times> 'p workspace) \<Rightarrow> uuid list \<Rightarrow> 'p workspace_service \<Rightarrow>
     unit result \<times> 'p workspace_service" where
  "reconcile_durable_workspaces envs reconcile [] s = (Inr (), s)"
| "reconcile_durable_workspaces envs reconcile (i # paths) s = (case reconcile_one (envs i) reconcile i s of
     (Inl e, s') \<Rightarrow> (Inl e, s')
   | (Inr _, s') \<Rightarrow> reconcile_durable_workspaces envs reconcile paths s')"

end
