(* ===== verification/WorkspaceCommit.thy ===== *)
theory WorkspaceCommit
  imports WorkspaceService
begin

text \<open>
  One commit of \<open>WorkspaceService\<close> in isolation: what it does to the storage ledgers, to the counter of open
  bytes, to the slot and to the disk, when it goes through (\<open>commit_done\<close>) and when it raises
  (\<open>commit_raised\<close>). \<open>persist_cases\<close> says that there is nothing else.
\<close>

section \<open>The storage ledgers around a call\<close>

text \<open>What others hold: the quota reservations \<open>rs\<close> and \<open>n\<close> bytes of headroom. \<open>holding\<close> is the same with
  one more reservation, that of the call itself.\<close>

definition ledgers :: "quota_reservation list \<Rightarrow> int \<Rightarrow> 'p workspace_service \<Rightarrow> bool" where
  "ledgers rs n s \<longleftrightarrow> quota_inv (wv_quota s, rs) \<and> ad_reserved_total (wv_admission s) = n \<and> 0 \<le> n"

definition holding :: "storage_reservation \<Rightarrow> quota_reservation list \<Rightarrow> int \<Rightarrow> 'p workspace_service \<Rightarrow> bool" where
  "holding r rs n s \<longleftrightarrow> (\<exists>quota. sr_quota r = Some quota \<and> \<not> qr_released quota \<and> \<not> sr_released r \<and>
     quota_inv (wv_quota s, quota # rs) \<and> ad_reserved_total (wv_admission s) = n + sr_physical_bytes r \<and>
     0 \<le> sr_physical_bytes r \<and> 0 \<le> n)"

lemma acquire_holding:
  assumes "ledgers rs n s" "acquire env free user bytes entries (wv_quota s, wv_admission s) = (Inr r, q, ad)"
  shows "holding r rs n (s\<lparr>wv_quota := q, wv_admission := ad\<rparr>)"
proof -
  obtain quota q1 where q1: "acquire_quota env user bytes entries (wv_quota s) = (Inr quota, q1)"
    "acquire_physical free bytes quota (q1, wv_admission s) = (Inr r, q, ad)"
    using assms(2) by (auto simp: acquire_def split: prod.splits sum.splits)
  have reserve: "quota_reserve env user bytes entries (wv_quota s) = (Inr quota, q1)" "0 \<le> bytes"
    using q1(1) by (auto simp: acquire_quota_def split: if_splits)
  have "quota_inv (q1, quota # rs)"
    by (rule quota_inv_mset [OF quota_inv_reserve [OF _ reserve(1), of rs]]) (use assms(1) in \<open>simp_all add: ledgers_def\<close>)
  moreover have "\<not> qr_released quota" using reserve(1) by (cases rule: quota_reserve_cases) auto
  moreover obtain physical where "physical = max bytes (qr_reserved_bytes quota)" "q = q1"
    "r = \<lparr>sr_quota = Some quota, sr_physical_bytes = physical, sr_released = False\<rparr>"
    "ad = (wv_admission s)\<lparr>ad_reserved_total := ad_reserved_total (wv_admission s) + physical\<rparr>"
    using q1(2) by (cases rule: acquire_physical_cases) auto
  ultimately show ?thesis using assms(1) reserve(2) by (simp add: holding_def ledgers_def)
qed

lemma acquire_refused_ledgers:
  assumes "ledgers rs n s" "acquire env free user bytes entries (wv_quota s, wv_admission s) = (Inl e, q, ad)"
  shows "ledgers rs n (s\<lparr>wv_quota := q, wv_admission := ad\<rparr>)"
proof -
  have inv: "quota_inv (wv_quota s, rs)" using assms(1) by (simp add: ledgers_def)
  show ?thesis
  proof (cases "acquire_quota env user bytes entries (wv_quota s)")
    case (Pair res q1)
    show ?thesis
    proof (cases res)
      case (Inl e')
      then have "quota_inv (q1, rs)"
        using Pair quota_inv_raise [OF inv] inv by (auto simp: acquire_quota_def split: if_splits)
      then show ?thesis using assms Pair Inl by (auto simp: acquire_def ledgers_def)
    next
      case (Inr quota)
      then have reserve: "quota_reserve env user bytes entries (wv_quota s) = (Inr quota, q1)"
        using Pair by (auto simp: acquire_quota_def split: if_splits)
      have "\<not> qr_released quota" using reserve by (cases rule: quota_reserve_cases) auto
      then have "quota_inv (snd (quota_release quota q1), rs)"
        by (intro quota_inv_give_back [OF quota_inv_reserve [OF inv reserve]]) simp_all
      moreover have "acquire_physical free bytes quota (q1, wv_admission s) = (Inl e, q, ad)"
        using assms(2) Pair Inr by (simp add: acquire_def)
      ultimately show ?thesis
        using assms(1) by (elim acquire_physical_cases) (auto simp: ledgers_def)
    qed
  qed
qed

lemma recheck_holding:
  assumes "holding r rs n s" "storage_recheck_estimate env bytes entries r (wv_quota s) = (res, r', q)"
  shows "holding r' rs n (s\<lparr>wv_quota := q\<rparr>)"
proof -
  obtain quota where quota: "sr_quota r = Some quota" "quota_inv (wv_quota s, quota # rs)" "\<not> sr_released r"
    "\<not> qr_released quota"
    using assms(1) by (auto simp: holding_def)
  obtain x quota' where q: "quota_recheck_estimate env bytes entries quota (wv_quota s) = (x, quota', q)"
    "r' = r\<lparr>sr_quota := Some quota'\<rparr>"
    using assms(2) quota by (auto simp: storage_recheck_estimate_def forward_recheck_def split: prod.splits)
  have "quota_inv (q, quota' # rs)"
    using quota_recheck_estimate_inv [OF quota(2), of 0] q(1) by simp
  moreover have "qr_released quota' = qr_released quota"
    using q(1) by (auto simp: quota_recheck_estimate_def recheck_with_def apply_finite_recheck_def
        drop_reserved_def Let_def split: if_splits option.splits prod.splits sum.splits)
  ultimately show ?thesis using assms(1) quota q(2) by (auto simp: holding_def)
qed

lemma settle_holding: "holding r rs n s \<Longrightarrow> ledgers rs n (settle r s)"
proof -
  assume h: "holding r rs n s"
  then obtain quota where quota: "sr_quota r = Some quota" "quota_inv (wv_quota s, quota # rs)"
    "\<not> sr_released r" "\<not> qr_released quota"
    by (auto simp: holding_def)
  have "quota_inv (snd (quota_release quota (wv_quota s)), rs)"
    by (rule quota_inv_give_back [OF quota(2)]) (simp_all add: quota(4))
  then show ?thesis
    using h quota by (auto simp: settle_def release_def release_quota_def finish_release_def
        release_physical_def holding_def ledgers_def split: prod.splits)
qed

lemma transient_ledgers:
  assumes "ledgers rs n s" "acquire_transient free bytes (wv_admission s) = (Inr r, ad)"
  shows "ledgers rs n (settle r (s\<lparr>wv_admission := ad\<rparr>))"
  using assms by (auto simp: acquire_transient_def reserve_physical_def settle_def release_def
      release_quota_def finish_release_def release_physical_def ledgers_def split: if_splits)

lemma transient_refused: "acquire_transient free bytes ad = (Inl e, ad') \<Longrightarrow> ad' = ad"
  by (auto simp: acquire_transient_def reserve_physical_def split: if_splits)

section \<open>The counter of open bytes\<close>

text \<open>\<open>capacity_ok held s\<close>: with a limit, the counter lies between 0 and the limit and is at most \<open>held\<close>,
  the bytes that are accounted for. It need not be equal: see \<open>open_capacity_can_be_exceeded\<close>.\<close>

definition capacity_ok :: "int \<Rightarrow> 'p workspace_service \<Rightarrow> bool" where
  "capacity_ok held s \<longleftrightarrow> (wv_capacity_limit s = None \<longrightarrow> wv_capacity_bytes s = 0) \<and>
     (wv_capacity_limit s \<noteq> None \<longrightarrow> 0 \<le> wv_capacity_bytes s \<and>
        wv_capacity_bytes s \<le> max 0 (the (wv_capacity_limit s)) \<and> wv_capacity_bytes s \<le> held)"

definition capacity_exact :: "int \<Rightarrow> 'p workspace_service \<Rightarrow> bool" where
  "capacity_exact held s \<longleftrightarrow> (wv_capacity_limit s \<noteq> None \<longrightarrow> wv_capacity_bytes s = held)"

text \<open>What an operation on one Workspace leaves alone.\<close>

definition same_frame :: "'p workspace_service \<Rightarrow> 'p workspace_service \<Rightarrow> bool" where
  "same_frame s s' \<longleftrightarrow> wv_max_snapshot_bytes s' = wv_max_snapshot_bytes s \<and>
     wv_capacity_limit s' = wv_capacity_limit s \<and> wv_accepting s' = wv_accepting s \<and> wv_slots s' = wv_slots s"

lemma same_frame_refl [simp]: "same_frame s s"
  by (simp add: same_frame_def)

lemma reserve_open_capacity_cases:
  assumes "reserve_open_capacity requested s = (res, s')"
  obtains (refused) "res = Inl BackendCapacityExceededError" "s' = s" "0 < requested"
  | (granted) "res = Inr ()" "\<And>held. capacity_ok held s \<Longrightarrow> capacity_ok (held + max 0 requested) s'"
      "\<And>held. capacity_exact held s \<Longrightarrow> capacity_exact (held + max 0 requested) s'"
      "same_frame s s'" "wv_disk s' = wv_disk s" "wv_quota s' = wv_quota s"
      "wv_admission s' = wv_admission s" "wv_published s' = wv_published s"
proof (cases "res = Inr ()")
  case True
  have "capacity_ok (held + max 0 requested) s'" if "capacity_ok held s" for held
    using assms that True by (auto simp: reserve_open_capacity_def capacity_ok_def split: if_splits option.splits)
  moreover have "capacity_exact (held + max 0 requested) s'" if "capacity_exact held s" for held
    using assms that True by (auto simp: reserve_open_capacity_def capacity_exact_def split: if_splits option.splits)
  ultimately show ?thesis
    using assms True by (intro granted) (auto simp: reserve_open_capacity_def same_frame_def split: if_splits option.splits)
next
  case False
  with assms show ?thesis
    by (intro refused) (auto simp: reserve_open_capacity_def split: if_splits option.splits)
qed

lemma release_open_capacity_frame [simp]:
  "same_frame s (release_open_capacity n s)"
  "wv_disk (release_open_capacity n s) = wv_disk s" "wv_slots (release_open_capacity n s) = wv_slots s"
  "wv_quota (release_open_capacity n s) = wv_quota s"
  "wv_admission (release_open_capacity n s) = wv_admission s"
  "wv_published (release_open_capacity n s) = wv_published s"
  by (simp_all add: release_open_capacity_def same_frame_def)

lemma release_open_capacity_ok:
  "capacity_ok held s \<Longrightarrow> max 0 n \<le> held \<Longrightarrow> capacity_ok (held - max 0 n) (release_open_capacity n s)"
  "capacity_exact held s \<Longrightarrow> max 0 n \<le> held \<Longrightarrow> capacity_exact (held - max 0 n) (release_open_capacity n s)"
  "capacity_ok held s \<Longrightarrow> capacity_ok held (release_open_capacity n s)"
  by (auto simp: release_open_capacity_def capacity_ok_def capacity_exact_def split: option.splits)

lemma capacity_cong:
  "wv_capacity_limit s' = wv_capacity_limit s \<Longrightarrow> wv_capacity_bytes s' = wv_capacity_bytes s \<Longrightarrow>
     capacity_ok held s' = capacity_ok held s"
  "wv_capacity_limit s' = wv_capacity_limit s \<Longrightarrow> wv_capacity_bytes s' = wv_capacity_bytes s \<Longrightarrow>
     capacity_exact held s' = capacity_exact held s"
  by (simp_all add: capacity_ok_def capacity_exact_def)

lemma settle_frame [simp]:
  "same_frame s (settle r s)" "wv_disk (settle r s) = wv_disk s" "wv_published (settle r s) = wv_published s"
  "wv_slots (settle r s) = wv_slots s" "wv_capacity_limit (settle r s) = wv_capacity_limit s"
  "wv_capacity_bytes (settle r s) = wv_capacity_bytes s"
  by (simp_all add: settle_def same_frame_def split: prod.splits)

lemma settle_capacity [simp]: "capacity_ok held (settle r s) = capacity_ok held s"
  "capacity_exact held (settle r s) = capacity_exact held s"
  by (rule capacity_cong; simp)+

lemma update_capacity [simp]:
  "capacity_ok held (s\<lparr>wv_disk := d\<rparr>) = capacity_ok held s"
  "capacity_ok held (s\<lparr>wv_quota := q\<rparr>) = capacity_ok held s"
  "capacity_ok held (s\<lparr>wv_admission := a\<rparr>) = capacity_ok held s"
  "capacity_ok held (s\<lparr>wv_slots := sl\<rparr>) = capacity_ok held s"
  "capacity_ok held (s\<lparr>wv_published := p\<rparr>) = capacity_ok held s"
  "capacity_ok held (s\<lparr>wv_accepting := b\<rparr>) = capacity_ok held s"
  "capacity_exact held (s\<lparr>wv_disk := d\<rparr>) = capacity_exact held s"
  "capacity_exact held (s\<lparr>wv_quota := q\<rparr>) = capacity_exact held s"
  "capacity_exact held (s\<lparr>wv_admission := a\<rparr>) = capacity_exact held s"
  "capacity_exact held (s\<lparr>wv_slots := sl\<rparr>) = capacity_exact held s"
  "capacity_exact held (s\<lparr>wv_published := p\<rparr>) = capacity_exact held s"
  "capacity_exact held (s\<lparr>wv_accepting := b\<rparr>) = capacity_exact held s"
  by (simp_all add: capacity_ok_def capacity_exact_def)

lemma release_open_capacity_ledgers [simp]:
  "ledgers rs n (release_open_capacity m s) = ledgers rs n s"
  "holding r rs n (release_open_capacity m s) = holding r rs n s"
  by (simp_all add: ledgers_def holding_def)

lemma update_ledgers [simp]:
  "ledgers rs n (s\<lparr>wv_disk := d\<rparr>) = ledgers rs n s" "ledgers rs n (s\<lparr>wv_slots := sl\<rparr>) = ledgers rs n s"
  "ledgers rs n (s\<lparr>wv_published := p\<rparr>) = ledgers rs n s" "ledgers rs n (s\<lparr>wv_accepting := b\<rparr>) = ledgers rs n s"
  "holding r rs n (s\<lparr>wv_disk := d\<rparr>) = holding r rs n s"
  by (simp_all add: ledgers_def holding_def)

section \<open>What a commit does\<close>

text \<open>The disk after \<open>commit_staged\<close> went through: the next generation of one Workspace.\<close>

definition next_generation ::
  "uuid \<Rightarrow> 'p disk_entry \<Rightarrow> 'p workspace \<Rightarrow> int \<Rightarrow> (uuid, 'p disk_entry) dict \<Rightarrow> (uuid, 'p disk_entry) dict" where
  "next_generation i d w bytes disk = AList.update i (d\<lparr>dk_workspace := durable w,
     dk_revision := dk_revision d + 1, dk_bytes := bytes\<rparr>) disk"

lemma commit_staged_cases:
  assumes "commit_staged outcome i expected w bytes disk = (res, disk')"
  obtains (refused) e where "res = Inl e" "disk' = disk"
  | (late) e d where "res = Inl e" "outcome = PublishedThenFailed e" "map_of disk i = Some d"
      "dk_revision d = expected" "disk' = next_generation i d w bytes disk"
  | (committed) d where "res = Inr (expected + 1)" "outcome = Published" "map_of disk i = Some d"
      "dk_revision d = expected" "disk' = next_generation i d w bytes disk"
  using assms
  by (auto simp: commit_staged_def next_generation_def Let_def split: option.splits if_splits publish_outcome.splits)

lemma same_frame_trans: "same_frame s s' \<Longrightarrow> same_frame s' s'' \<Longrightarrow> same_frame s s''"
  by (simp add: same_frame_def)

lemma same_frame_update [simp]:
  "same_frame s (s'\<lparr>wv_disk := d\<rparr>) = same_frame s s'" "same_frame s (s'\<lparr>wv_quota := q\<rparr>) = same_frame s s'"
  "same_frame s (s'\<lparr>wv_admission := a\<rparr>) = same_frame s s'"
  "same_frame s (s'\<lparr>wv_published := p\<rparr>) = same_frame s s'"
  by (simp_all add: same_frame_def)

lemma same_frame_through [simp]:
  "same_frame s (settle r s') = same_frame s s'" "same_frame s (release_open_capacity n s') = same_frame s s'"
  using settle_frame(1) [of s' r] release_open_capacity_frame(1) [of s' n] by (auto simp: same_frame_def)

definition bytes_growth :: "int \<Rightarrow> 'p workspace_slot \<Rightarrow> int" where
  "bytes_growth bytes slot = max 0 (bytes - sl_bytes slot)"

text \<open>A commit that raises leaves the slot, the ledgers and all Workspaces but this one; the disk has changed
  only when the failure came after the rename. The counter of open bytes keeps its value, except when it
  was the counter that refused.\<close>

definition commit_raised ::
  "'p op_env \<Rightarrow> uuid \<Rightarrow> 'p workspace \<Rightarrow> error \<Rightarrow> 'p gated \<Rightarrow> 'p gated \<Rightarrow> bool" where
  "commit_raised env i w e g g' \<longleftrightarrow> fst g' = fst g \<and> same_frame (snd g) (snd g') \<and>
     wv_published (snd g') = wv_published (snd g) \<and>
     (\<forall>n. capacity_ok n (snd g) \<longrightarrow> 0 \<le> sl_bytes (fst g) \<longrightarrow> sl_bytes (fst g) \<le> n \<longrightarrow>
        capacity_ok n (snd g')) \<and>
     (\<forall>n. capacity_exact n (snd g) \<longrightarrow> 0 \<le> sl_bytes (fst g) \<longrightarrow> sl_bytes (fst g) \<le> n \<longrightarrow>
        e \<noteq> BackendCapacityExceededError \<longrightarrow> capacity_exact n (snd g')) \<and>
     (\<forall>rs n. ledgers rs n (snd g) \<longrightarrow> ledgers rs n (snd g')) \<and>
     (wv_disk (snd g') = wv_disk (snd g) \<or>
      (\<exists>d bytes. oe_publish env = PublishedThenFailed e \<and> map_of (wv_disk (snd g)) i = Some d \<and>
         oe_stage env w = Inr bytes \<and> wv_disk (snd g') = next_generation i d w bytes (wv_disk (snd g))))"

definition commit_done ::
  "'p op_env \<Rightarrow> uuid \<Rightarrow> 'p workspace \<Rightarrow> int \<Rightarrow> 'p gated \<Rightarrow> 'p gated \<Rightarrow> bool" where
  "commit_done env i w revision g g' \<longleftrightarrow> (\<exists>d bytes. map_of (wv_disk (snd g)) i = Some d \<and>
     oe_stage env w = Inr bytes \<and> dk_revision d = sl_revision (fst g) \<and> revision = sl_revision (fst g) + 1 \<and>
     fst g' = fill_slot i w revision bytes (sl_closing (fst g)) \<and>
     wv_disk (snd g') = next_generation i d w bytes (wv_disk (snd g)) \<and>
     same_frame (snd g) (snd g') \<and> wv_published (snd g') = wv_published (snd g) \<and>
     (0 \<le> bytes \<longrightarrow> (\<forall>n. sl_bytes (fst g) \<le> n \<longrightarrow>
        (capacity_ok n (snd g) \<longrightarrow> capacity_ok (n - sl_bytes (fst g) + bytes) (snd g')) \<and>
        (capacity_exact n (snd g) \<longrightarrow> capacity_exact (n - sl_bytes (fst g) + bytes) (snd g')))) \<and>
     (\<forall>rs n. ledgers rs n (snd g) \<longrightarrow> ledgers rs n (snd g')))"

lemma capacity_after_growth:
  assumes "0 \<le> b" "a \<le> (n :: int)"
  shows "capacity_ok (n + max 0 (b - a)) s \<Longrightarrow> capacity_ok (n - a + b) (release_open_capacity (a - b) s)"
    "capacity_exact (n + max 0 (b - a)) s \<Longrightarrow> capacity_exact (n - a + b) (release_open_capacity (a - b) s)"
  using assms by (auto simp: release_open_capacity_def capacity_ok_def capacity_exact_def max_def)

lemma growth_given_back:
  "capacity_ok (n + max 0 m) s \<Longrightarrow> 0 \<le> n \<Longrightarrow> capacity_ok n (release_open_capacity m s)"
  "capacity_exact (n + max 0 m) s \<Longrightarrow> 0 \<le> n \<Longrightarrow> capacity_exact n (release_open_capacity m s)"
  by (auto simp: release_open_capacity_def capacity_ok_def capacity_exact_def max_def split: if_splits)

text \<open>The common end of every failure behind the durable reservation.\<close>

lemma commit_raised_settled:
  assumes "same_frame s0 s'" "wv_published s' = wv_published s0"
    and ok: "\<And>n. capacity_ok n s0 \<Longrightarrow> 0 \<le> n \<Longrightarrow> capacity_ok n (release_open_capacity m s')"
    and exact: "\<And>n. capacity_exact n s0 \<Longrightarrow> 0 \<le> n \<Longrightarrow> e \<noteq> BackendCapacityExceededError \<Longrightarrow>
       capacity_exact n (release_open_capacity m s')"
    and hold: "\<And>rs n. ledgers rs n s0 \<Longrightarrow> holding r rs n s'"
    and disk: "wv_disk s' = wv_disk s0 \<or> (\<exists>d bytes. oe_publish env = PublishedThenFailed e \<and>
       map_of (wv_disk s0) i = Some d \<and> oe_stage env w = Inr bytes \<and>
       wv_disk s' = next_generation i d w bytes (wv_disk s0))"
  shows "commit_raised env i w e (slot, s0) (slot, settle r (release_open_capacity m s'))"
proof -
  have "ledgers rs n (settle r (release_open_capacity m s'))" if "ledgers rs n s0" for rs n
    by (rule settle_holding) (simp add: hold [OF that])
  then show ?thesis
    using assms(1,2) disk ok exact by (simp add: commit_raised_def)
qed

lemma same_disk: "wv_disk s = disk \<Longrightarrow> s\<lparr>wv_quota := q, wv_disk := disk\<rparr> = s\<lparr>wv_quota := q\<rparr>"
  by (cases s) simp

lemma publish_staged_cases:
  assumes run: "publish_staged env i w bytes r (slot, s) = (res, g')"
    and stage: "oe_stage env w = Inr bytes"
    and start: "\<And>rs n. ledgers rs n s0 \<Longrightarrow> holding r rs n s"
      "\<And>n. capacity_ok n s0 \<Longrightarrow> capacity_ok n s" "\<And>n. capacity_exact n s0 \<Longrightarrow> capacity_exact n s"
      "same_frame s0 s" "wv_published s = wv_published s0" "wv_disk s = wv_disk s0"
  obtains (raised) e where "res = Inl e" "commit_raised env i w e (slot, s0) g'"
  | (committed) revision where "res = Inr revision" "commit_done env i w revision (slot, s0) g'"
proof -
  let ?growth = "max 0 (bytes - sl_bytes slot)"
  obtain res1 s1 where r1: "reserve_open_capacity ?growth s = (res1, s1)" by fastforce
  show ?thesis
  proof (cases rule: reserve_open_capacity_cases [OF r1])
    case 1
    then have "res = Inl BackendCapacityExceededError"
      "g' = (slot, settle r (release_open_capacity ?growth s))"
      using run r1 by (simp_all add: publish_staged_def Let_def)
    then show ?thesis
      using start by (auto intro!: raised commit_raised_settled release_open_capacity_ok(3))
  next
    case 2
    note granted = 2
    obtain res2 r' q where r2: "storage_recheck_estimate (oe_storage env) ?growth
        (max 0 (entry_count w - sl_entries slot)) r (wv_quota s1) = (res2, r', q)"
      by (metis prod_cases3)
    have hold: "holding r' rs n (s1\<lparr>wv_quota := q\<rparr>)" if "ledgers rs n s0" for rs n
    proof -
      have "holding r rs n s1" using start(1) [OF that] granted by (simp add: holding_def)
      then show ?thesis by (rule recheck_holding [OF _ r2])
    qed
    have cap: "capacity_ok n s0 \<Longrightarrow> capacity_ok (n + ?growth) s1"
      "capacity_exact n s0 \<Longrightarrow> capacity_exact (n + ?growth) s1" for n
      using granted(2,3) [of n] start(2,3) by simp_all
    have frame: "same_frame s0 s1" "wv_published s1 = wv_published s0" "wv_disk s1 = wv_disk s0"
      using granted start by (auto intro: same_frame_trans)
    have settled: "commit_raised env i w e (slot, s0)
        (slot, settle r' (release_open_capacity ?growth (s1\<lparr>wv_quota := q, wv_disk := disk\<rparr>)))"
      if "disk = wv_disk s0 \<or> (\<exists>d bytes. oe_publish env = PublishedThenFailed e \<and>
        map_of (wv_disk s0) i = Some d \<and> oe_stage env w = Inr bytes \<and>
        disk = next_generation i d w bytes (wv_disk s0))" for e disk
      by (rule commit_raised_settled)
        (use that frame hold in \<open>simp_all add: growth_given_back cap\<close>)
    show ?thesis
    proof (cases res2)
      case (Inl e)
      then have "res = Inl e" "g' = (slot, settle r' (release_open_capacity ?growth
          (s1\<lparr>wv_quota := q, wv_disk := wv_disk s0\<rparr>)))"
        using run r1 granted r2 same_disk [OF frame(3), of q] by (simp_all add: publish_staged_def Let_def)
      then show ?thesis using settled by (intro raised) auto
    next
      case (Inr u)
      obtain res3 disk where r3: "commit_staged (oe_publish env) i (sl_revision slot) w bytes (wv_disk s1) =
          (res3, disk)" by fastforce
      from r3 show ?thesis
      proof (cases rule: commit_staged_cases)
        case (refused e)
        then have "res = Inl e" "g' = (slot, settle r' (release_open_capacity ?growth
            (s1\<lparr>wv_quota := q, wv_disk := disk\<rparr>)))"
          using run r1 granted r2 Inr r3 by (auto simp: publish_staged_def Let_def)
        then show ?thesis using settled [of disk e] refused frame by (intro raised) auto
      next
        case (late e d)
        then have "res = Inl e" "g' = (slot, settle r' (release_open_capacity ?growth
            (s1\<lparr>wv_quota := q, wv_disk := disk\<rparr>)))"
          using run r1 granted r2 Inr r3 by (auto simp: publish_staged_def Let_def)
        then show ?thesis using settled [of disk e] late stage frame by (intro raised) auto
      next
        case (committed d)
        let ?s2 = "release_open_capacity (sl_bytes slot - bytes) (s1\<lparr>wv_quota := q, wv_disk := disk\<rparr>)"
        have res: "res = Inr (sl_revision slot + 1)"
          "g' = (fill_slot i w (sl_revision slot + 1) bytes (sl_closing slot), settle r' ?s2)"
          using run r1 granted r2 Inr r3 committed by (auto simp: publish_staged_def Let_def)
        have "ledgers rs n (settle r' ?s2)" if "ledgers rs n s0" for rs n
          by (rule settle_holding) (simp add: hold [OF that])
        moreover have "capacity_ok (n - sl_bytes slot + bytes) (settle r' ?s2)"
          if "capacity_ok n s0" "0 \<le> bytes" "sl_bytes slot \<le> n" for n
          using capacity_after_growth(1) [OF that(2,3), of "s1\<lparr>wv_quota := q, wv_disk := disk\<rparr>"] cap(1) [OF that(1)]
          by simp
        moreover have "capacity_exact (n - sl_bytes slot + bytes) (settle r' ?s2)"
          if "capacity_exact n s0" "0 \<le> bytes" "sl_bytes slot \<le> n" for n
          using capacity_after_growth(2) [OF that(2,3), of "s1\<lparr>wv_quota := q, wv_disk := disk\<rparr>"] cap(2) [OF that(1)]
          by simp
        ultimately have "commit_done env i w (sl_revision slot + 1) (slot, s0) g'"
          using committed stage frame by (auto simp: commit_done_def res(2))
        then show ?thesis by (rule that(2) [OF res(1)])
      qed
    qed
  qed
qed


text \<open>\<open>_persist\<close> as a whole.\<close>

lemma commit_raised_early:
  assumes "same_frame s s'" "wv_published s' = wv_published s" "wv_disk s' = wv_disk s"
    "\<And>n. capacity_ok n s' = capacity_ok n s" "\<And>n. capacity_exact n s' = capacity_exact n s"
    "\<And>rs n. ledgers rs n s \<Longrightarrow> ledgers rs n s'"
  shows "commit_raised env i w e (slot, s) (slot, s')"
  using assms by (simp add: commit_raised_def)

lemma persist_cases:
  assumes run: "persist env user i w (slot, s) = (res, g')"
  obtains (raised) e where "res = Inl e"
      "commit_raised env i (w\<lparr>wk_modified_at := oe_now env\<rparr>) e (slot, s) g'"
  | (committed) revision where "res = Inr revision"
      "commit_done env i (w\<lparr>wk_modified_at := oe_now env\<rparr>) revision (slot, s) g'"
proof -
  let ?w = "w\<lparr>wk_modified_at := oe_now env\<rparr>"
  obtain res1 ad where r1: "acquire_transient (oe_free_staging env) (wv_max_snapshot_bytes s)
      (wv_admission s) = (res1, ad)" by fastforce
  show ?thesis
  proof (cases res1)
    case (Inl e)
    then have "res = Inl e" "g' = (slot, s\<lparr>wv_admission := wv_admission s\<rparr>)"
      using run r1 transient_refused [of _ _ _ e ad] by (auto simp: persist_def Let_def)
    then show ?thesis by (intro raised) (auto intro!: commit_raised_early)
  next
    case (Inr transient)
    define s1 where "s1 = settle transient (s\<lparr>wv_admission := ad\<rparr>)"
    have s1: "ledgers rs n s \<Longrightarrow> ledgers rs n s1" for rs n
      using transient_ledgers r1 Inr by (simp add: s1_def)
    have frame: "same_frame s s1" "wv_published s1 = wv_published s" "wv_disk s1 = wv_disk s"
      "capacity_ok n s1 = capacity_ok n s" "capacity_exact n s1 = capacity_exact n s" for n
      by (simp_all add: s1_def)
    show ?thesis
    proof (cases "oe_stage env ?w")
      case (Inl e)
      then have "res = Inl e" "g' = (slot, s1)" using run r1 Inr by (auto simp: persist_def Let_def s1_def)
      then show ?thesis using s1 frame by (intro raised) (auto intro!: commit_raised_early)
    next
      case (Inr bytes)
      note stage = Inr
      obtain res2 q ad2 where r2: "acquire (oe_storage env) (oe_free_durable env) user
          (max 0 (bytes - sl_bytes slot)) (max 0 (entry_count ?w - sl_entries slot))
          (wv_quota s1, wv_admission s1) = (res2, q, ad2)" by (metis prod_cases3)
      let ?s2 = "s1\<lparr>wv_quota := q, wv_admission := ad2\<rparr>"
      show ?thesis
      proof (cases res2)
        case (Inl e)
        then have "res = Inl e" "g' = (slot, ?s2)"
          using run r1 r2 stage \<open>res1 = Inr transient\<close> by (auto simp: persist_def Let_def s1_def)
        moreover have "ledgers rs n ?s2" if "ledgers rs n s" for rs n
          using acquire_refused_ledgers [OF s1 [OF that]] r2 Inl by simp
        ultimately show ?thesis using frame by (intro raised) (auto intro!: commit_raised_early)
      next
        case (Inr r)
        then have run': "publish_staged env i ?w bytes r (slot, ?s2) = (res, g')"
          using run r1 r2 stage \<open>res1 = Inr transient\<close> by (auto simp: persist_def Let_def s1_def)
        have hold: "holding r rs n ?s2" if "ledgers rs n s" for rs n
          using acquire_holding [OF s1 [OF that]] r2 Inr by simp
        show ?thesis
          by (rule publish_staged_cases [OF run' stage hold]) (use frame raised committed in simp_all)
      qed
    qed
  qed
qed

end
