(* ===== verification/WorkspaceConsistency.thy ===== *)
theory WorkspaceConsistency
  imports WorkspaceCommit
begin

text \<open>
  The invariant of the Workspace service, its preservation by every operation of \<open>WorkspaceService\<close>, the
  reachable states of the service, and the properties: open Workspaces mirror the disk, mutations are all or
  nothing, open capacity is bounded (and how the bound is missed), reservations are returned, shutdown is
  final, the startup reconciliation is isolated.
\<close>

section \<open>The invariant of the service\<close>

text \<open>An open slot mirrors the disk; a slot that is not open is empty.\<close>

definition slot_ok :: "(uuid, 'p disk_entry) dict \<Rightarrow> uuid \<Rightarrow> 'p workspace_slot \<Rightarrow> bool" where
  "slot_ok disk i slot \<longleftrightarrow> (case sl_workspace slot of
     None \<Rightarrow> slot = closed_slot
   | Some w \<Rightarrow> sl_path slot = Some i \<and> 0 \<le> sl_bytes slot \<and> sl_entries slot = entry_count w \<and>
       (\<forall>d. map_of disk i = Some d \<longrightarrow>
          durable w = dk_workspace d \<and> sl_revision slot = dk_revision d \<and> sl_bytes slot = dk_bytes d))"

definition disk_ok :: "(uuid, 'p disk_entry) dict \<Rightarrow> bool" where
  "disk_ok disk \<longleftrightarrow> wf_dict disk \<and> (\<forall>i d. map_of disk i = Some d \<longrightarrow>
     0 \<le> dk_bytes d \<and> 1 \<le> dk_revision d \<and> durable (dk_workspace d) = dk_workspace d)"

text \<open>\<open>b\<close>: no commit has been refused for want of open capacity, so the counter is exact.\<close>

definition capacity_inv :: "bool \<Rightarrow> int \<Rightarrow> 'p workspace_service \<Rightarrow> bool" where
  "capacity_inv b held s \<longleftrightarrow> capacity_ok held s \<and> (b \<longrightarrow> capacity_exact held s)"

definition slot_bytes :: "(uuid, 'p workspace_slot) dict \<Rightarrow> int" where
  "slot_bytes slots = (\<Sum>slot \<leftarrow> dict_values slots. sl_bytes slot)"

definition open_bytes :: "'p workspace_service \<Rightarrow> int" where
  "open_bytes s = slot_bytes (wv_slots s)"

definition other_bytes :: "uuid \<Rightarrow> 'p workspace_service \<Rightarrow> int" where
  "other_bytes i s = slot_bytes (AList.delete i (wv_slots s))"

definition slots_ok :: "(uuid \<Rightarrow> bool) \<Rightarrow> 'p workspace_service \<Rightarrow> bool" where
  "slots_ok P s \<longleftrightarrow> wf_dict (wv_slots s) \<and> (\<forall>j slot. P j \<longrightarrow> map_of (wv_slots s) j = Some slot \<longrightarrow>
     sl_workspace slot \<noteq> None \<and> slot_ok (wv_disk s) j slot)"

definition service_inv :: "bool \<Rightarrow> 'p workspace_service \<Rightarrow> bool" where
  "service_inv b s \<longleftrightarrow> slots_ok (\<lambda>_. True) s \<and> disk_ok (wv_disk s) \<and> capacity_inv b (open_bytes s) s \<and>
     ledgers [] 0 s"

text \<open>Inside the gate of \<open>i\<close>, where the slot of \<open>i\<close> is in hand: without and with what it must satisfy when
  the gate is left.\<close>

definition gate_base :: "bool \<Rightarrow> uuid \<Rightarrow> 'p gated \<Rightarrow> bool" where
  "gate_base b i g \<longleftrightarrow> slots_ok (\<lambda>j. j \<noteq> i) (snd g) \<and> disk_ok (wv_disk (snd g)) \<and> 0 \<le> sl_bytes (fst g) \<and>
     capacity_inv b (sl_bytes (fst g) + other_bytes i (snd g)) (snd g) \<and> ledgers [] 0 (snd g)"

definition gate_ok :: "bool \<Rightarrow> uuid \<Rightarrow> 'p gated \<Rightarrow> bool" where
  "gate_ok b i g \<longleftrightarrow> gate_base b i g \<and> slot_ok (wv_disk (snd g)) i (fst g)"

lemma slot_ok_bytes: "slot_ok disk i slot \<Longrightarrow> 0 \<le> sl_bytes slot"
  by (auto simp: slot_ok_def closed_slot_def split: option.splits)

lemma slot_ok_closed [simp]: "slot_ok disk i closed_slot"
  by (simp add: slot_ok_def closed_slot_def)

lemma slots_ok_bytes:
  assumes "slots_ok P s" "\<And>j. j \<in> fst ` set d \<Longrightarrow> P j" "set d \<subseteq> set (wv_slots s)"
  shows "0 \<le> slot_bytes d"
  unfolding slot_bytes_def
proof (rule sum_list_nonneg)
  fix x assume "x \<in> set (map sl_bytes (dict_values d))"
  then obtain j slot where j: "(j, slot) \<in> set d" "x = sl_bytes slot" by auto
  then have "map_of (wv_slots s) j = Some slot"
    using assms(1,3) by (auto simp: slots_ok_def map_of_eq_Some_iff)
  then show "0 \<le> x" using assms(1,2) j by (force simp: slots_ok_def dest: slot_ok_bytes)
qed

lemma other_bytes_nonneg: "gate_base b i g \<Longrightarrow> 0 \<le> other_bytes i (snd g)"
  unfolding other_bytes_def gate_base_def
  by (rule slots_ok_bytes [where P = "\<lambda>j. j \<noteq> i" and s = "snd g"]) (auto simp: AList.delete_eq)

lemma slot_bytes_split:
  fixes d :: "(uuid, 'p workspace_slot) dict"
  assumes "wf_dict d"
  shows "slot_bytes d = (case map_of d i of None \<Rightarrow> 0 | Some slot \<Rightarrow> sl_bytes slot) + slot_bytes (AList.delete i d)"
proof (cases "map_of d i")
  case None
  then have "i \<notin> fst ` set d" by (simp add: map_of_None_iff_keys)
  then have "AList.delete i d = d" by simp
  with None show ?thesis by simp
next
  case (Some slot)
  have "slot_bytes d = sum_mset (image_mset sl_bytes (mset (dict_values d)))" for d :: "(uuid, 'p workspace_slot) dict"
    by (simp add: slot_bytes_def multiset.map_comp flip: sum_mset_sum_list)
  with Some arg_cong [OF mset_values_split [OF assms Some], of "\<lambda>m. sum_mset (image_mset sl_bytes m)"]
  show ?thesis by (simp del: mset_map)
qed

lemma enter_gate: "service_inv b s \<Longrightarrow> gate_ok b i (slot_of i s, s)"
proof -
  assume inv: "service_inv b s"
  then have slots: "slots_ok (\<lambda>_. True) s" by (simp add: service_inv_def)
  have slot: "slot_ok (wv_disk s) i (slot_of i s)"
    using slots by (auto simp: slot_of_def dict_get_def slots_ok_def split: option.splits)
  have "open_bytes s = sl_bytes (slot_of i s) + other_bytes i s"
    using slot_bytes_split [of "wv_slots s" i] slots
    by (auto simp: open_bytes_def other_bytes_def slots_ok_def slot_of_def dict_get_def closed_slot_def
        split: option.splits)
  with inv slot slot_ok_bytes [OF slot] show ?thesis
    by (auto simp: gate_ok_def gate_base_def service_inv_def slots_ok_def)
qed

lemma leave_gate: "gate_ok b i (slot, s) \<Longrightarrow> service_inv b (keep_slot i (slot, s))"
proof -
  assume gate: "gate_ok b i (slot, s)"
  then have base: "slots_ok (\<lambda>j. j \<noteq> i) s" "slot_ok (wv_disk s) i slot" "disk_ok (wv_disk s)"
    "capacity_inv b (sl_bytes slot + other_bytes i s) s" "ledgers [] 0 s" "wf_dict (wv_slots s)"
    by (auto simp: gate_ok_def gate_base_def slots_ok_def)
  show ?thesis
  proof (cases "sl_workspace slot = None")
    case True
    then have "slot = closed_slot" using base(2) by (simp add: slot_ok_def)
    then show ?thesis
      using base by (auto simp: keep_slot_def closed_slot_def service_inv_def slots_ok_def open_bytes_def
          other_bytes_def delete_conv' capacity_inv_def split: if_splits)
  next
    case False
    have "slot_bytes (AList.update i slot (wv_slots s)) = sl_bytes slot + other_bytes i s"
      using slot_bytes_split [OF wf_dict_update [OF base(6)], where i = i]
      by (simp add: update_conv' other_bytes_def delete_update_same)
    then show ?thesis
      using base False by (auto simp: keep_slot_def service_inv_def slots_ok_def open_bytes_def
          update_conv' capacity_inv_def)
  qed
qed

lemma with_slot_inv:
  assumes "service_inv b s" "with_slot i body s = (res, s')"
    "\<And>g'. gate_ok b i (slot_of i s, s) \<Longrightarrow> body (slot_of i s, s) = (res, g') \<Longrightarrow> gate_ok b' i g'"
  shows "service_inv b' s'"
proof -
  obtain slot s1 where body: "body (slot_of i s, s) = (res, slot, s1)" "s' = keep_slot i (slot, s1)"
    using assms(2) by (auto simp: with_slot_def split: prod.splits)
  show ?thesis unfolding body(2)
    by (rule leave_gate [OF assms(3) [OF enter_gate [OF assms(1)] body(1)]])
qed

section \<open>The invariant inside a gate\<close>

lemma gate_okD: "gate_ok b i g \<Longrightarrow> gate_base b i g" "gate_ok b i g \<Longrightarrow> slot_ok (wv_disk (snd g)) i (fst g)"
  by (simp_all add: gate_ok_def)

lemma gate_base_bound: "gate_base b i g \<Longrightarrow> sl_bytes (fst g) \<le> sl_bytes (fst g) + other_bytes i (snd g)"
  "gate_base b i g \<Longrightarrow> 0 \<le> sl_bytes (fst g)"
  using other_bytes_nonneg [of b i g] by (auto simp: gate_base_def)

lemma slots_ok_frame:
  assumes "slots_ok P s" "same_frame s s'" "\<And>j. P j \<Longrightarrow> map_of (wv_disk s') j = map_of (wv_disk s) j"
  shows "slots_ok P s'"
proof -
  have "slot_ok (wv_disk s') j slot = slot_ok (wv_disk s) j slot" if "P j" for j slot
    by (auto simp: slot_ok_def assms(3) [OF that] split: option.splits)
  then show ?thesis using assms(1,2) by (auto simp: slots_ok_def same_frame_def)
qed

text \<open>A step inside the gate: it may change the slot in hand and the counter, and commit a generation.\<close>

lemma gate_base_step:
  assumes "gate_base b i g" "same_frame (snd g) s'" "ledgers [] 0 s'"
    "\<And>j. j \<noteq> i \<Longrightarrow> map_of (wv_disk s') j = map_of (wv_disk (snd g)) j" "disk_ok (wv_disk s')"
    "0 \<le> sl_bytes slot" "capacity_inv b' (sl_bytes slot + other_bytes i (snd g)) s'"
  shows "gate_base b' i (slot, s')"
proof -
  have "other_bytes i s' = other_bytes i (snd g)" using assms(2) by (simp add: other_bytes_def same_frame_def)
  then show ?thesis
    using assms slots_ok_frame [OF _ assms(2), of "\<lambda>j. j \<noteq> i"] by (simp add: gate_base_def)
qed

lemma capacity_inv_release:
  "capacity_inv b held s \<Longrightarrow> max 0 n \<le> held \<Longrightarrow> capacity_inv b (held - max 0 n) (release_open_capacity n s)"
  by (simp add: capacity_inv_def release_open_capacity_ok)

lemma capacity_inv_reserve:
  assumes "reserve_open_capacity n s = (Inr u, s')" "capacity_inv b held s"
  shows "capacity_inv b (held + max 0 n) s'"
  using assms(2) by (cases rule: reserve_open_capacity_cases [OF assms(1)]) (auto simp: capacity_inv_def)

lemma clear_slot_ok:
  assumes "gate_base b i g"
  shows "gate_ok b i (clear_slot g)"
proof -
  obtain slot s where g: "g = (slot, s)" by (cases g)
  have bytes: "0 \<le> sl_bytes slot" "0 \<le> other_bytes i s"
    using assms other_bytes_nonneg [OF assms] by (auto simp: gate_base_def g)
  then have "capacity_inv b (other_bytes i s) (release_open_capacity (sl_bytes slot) s)"
    using capacity_inv_release [of b "sl_bytes slot + other_bytes i s" s "sl_bytes slot"] assms
    by (simp add: gate_base_def g)
  then have "gate_base b i (closed_slot, release_open_capacity (sl_bytes slot) s)"
    using assms by (intro gate_base_step [OF assms]) (auto simp: g gate_base_def closed_slot_def)
  then show ?thesis by (simp add: gate_ok_def clear_slot_def g)
qed

lemma fill_slot_ok:
  "0 \<le> bytes \<Longrightarrow> map_of disk i = Some d \<Longrightarrow> dk_workspace d = durable w \<Longrightarrow> dk_revision d = revision \<Longrightarrow>
   dk_bytes d = bytes \<Longrightarrow> slot_ok disk i (fill_slot i w revision bytes closing)"
  by (simp add: slot_ok_def fill_slot_def)

lemma durable_entry_count: "durable w = durable w' \<Longrightarrow> entry_count w = entry_count w'"
  by (metis durable_counts(1))

lemma disk_okD:
  "disk_ok disk \<Longrightarrow> map_of disk i = Some d \<Longrightarrow> 0 \<le> dk_bytes d"
  "disk_ok disk \<Longrightarrow> map_of disk i = Some d \<Longrightarrow> 1 \<le> dk_revision d"
  "disk_ok disk \<Longrightarrow> map_of disk i = Some d \<Longrightarrow> durable (dk_workspace d) = dk_workspace d"
  by (auto simp: disk_ok_def)

text \<open>Moving the counter from one number of bytes to another, for the slot in hand.\<close>

lemma adjust_capacity:
  assumes "(if new > old then reserve_open_capacity (new - old) s
      else (Inr (), release_open_capacity (old - new) s)) = (res, s')"
  shows "res = Inl e \<Longrightarrow> s' = s"
    "res = Inr u \<Longrightarrow> capacity_inv b (old + n) s \<Longrightarrow> 0 \<le> new \<Longrightarrow> 0 \<le> n \<Longrightarrow> capacity_inv b (new + n) s'"
    "same_frame s s'" "wv_disk s' = wv_disk s" "ledgers rs m s' = ledgers rs m s" "wv_published s' = wv_published s"
  subgoal using assms by (auto elim!: reserve_open_capacity_cases split: if_splits)
  subgoal using assms capacity_inv_reserve [of "new - old" s u s' b "old + n"]
      capacity_inv_release [of b "old + n" s "old - new"]
    by (auto simp: max_def algebra_simps split: if_splits)
  subgoal using assms by (auto elim!: reserve_open_capacity_cases split: if_splits)
  subgoal using assms by (auto elim!: reserve_open_capacity_cases split: if_splits)
  subgoal using assms by (auto simp: ledgers_def elim!: reserve_open_capacity_cases split: if_splits)
  subgoal using assms by (auto elim!: reserve_open_capacity_cases split: if_splits)
  done

lemma restore_slot_ok:
  assumes gate: "gate_base b i (slot, s)" and "store_ok env"
  shows "gate_ok b i (restore_slot env i histories (slot, s))"
proof (cases "oe_load env (map_of (wv_disk s) i)")
  case (Inl e)
  then show ?thesis using clear_slot_ok [OF gate] by (simp add: restore_slot_def)
next
  case (Inr d)
  have d: "map_of (wv_disk s) i = Some d" using Inr assms(2) by (auto simp: store_ok_def)
  have disk: "disk_ok (wv_disk s)" using gate by (simp add: gate_base_def)
  obtain res s1 where adj: "(if dk_bytes d > sl_bytes slot then reserve_open_capacity (dk_bytes d - sl_bytes slot) s
      else (Inr (), release_open_capacity (sl_bytes slot - dk_bytes d) s)) = (res, s1)" by fastforce
  note a = adjust_capacity [OF adj]
  show ?thesis
  proof (cases res)
    case (Inl e)
    then show ?thesis
      using Inr adj a(1) [of e] clear_slot_ok [OF gate] by (simp add: restore_slot_def)
  next
    case u: (Inr u)
    let ?slot = "fill_slot i (restore_histories histories (dk_workspace d)) (dk_revision d) (dk_bytes d)
      (sl_closing slot)"
    have "capacity_inv b (dk_bytes d + other_bytes i s) s1"
      using a(2) [OF u] gate disk_okD(1) [OF disk d] other_bytes_nonneg [OF gate]
      by (simp add: gate_base_def)
    then have "gate_base b i (?slot, s1)"
      using gate a(3-5) disk_okD(1) [OF disk d] disk
      by (intro gate_base_step [OF gate]) (auto simp: fill_slot_def gate_base_def)
    moreover have "slot_ok (wv_disk s1) i ?slot"
      by (rule fill_slot_ok [OF disk_okD(1) [OF disk d]])
        (simp_all add: a(4) d durable_restore disk_okD(3) [OF disk d])
    ultimately show ?thesis using Inr adj u by (simp add: restore_slot_def gate_ok_def)
  qed
qed

lemma next_generation_lookup:
  "map_of (next_generation i d w bytes disk) j = (if j = i then Some (d\<lparr>dk_workspace := durable w,
     dk_revision := dk_revision d + 1, dk_bytes := bytes\<rparr>) else map_of disk j)"
  by (simp add: next_generation_def update_conv')

lemma next_generation_ok:
  assumes "disk_ok disk" "map_of disk i = Some d" "0 \<le> bytes"
  shows "disk_ok (next_generation i d w bytes disk)"
proof -
  have "1 \<le> dk_revision d + 1" using disk_okD(2) [OF assms(1,2)] by simp
  moreover have "wf_dict (next_generation i d w bytes disk)"
    using assms(1) by (simp add: disk_ok_def next_generation_def)
  ultimately show ?thesis
    using assms(1,3) by (simp add: disk_ok_def next_generation_lookup)
qed

lemma commit_raised_gate:
  assumes raised: "commit_raised env i w e (slot, s) g'" and gate: "gate_base b i (slot, s)" and "store_ok env"
  shows "gate_base (b \<and> e \<noteq> BackendCapacityExceededError) i g'"
proof -
  obtain s' where g': "g' = (slot, s')" using raised by (cases g') (auto simp: commit_raised_def)
  have bytes: "0 \<le> sl_bytes slot" "sl_bytes slot \<le> sl_bytes slot + other_bytes i s"
    using gate_base_bound [OF gate] by simp_all
  have disk: "disk_ok (wv_disk s)" using gate by (simp add: gate_base_def)
  have "disk_ok (wv_disk s') \<and> (\<forall>j. j \<noteq> i \<longrightarrow> map_of (wv_disk s') j = map_of (wv_disk s) j)"
    using raised assms(3) next_generation_ok [OF disk] disk
    by (auto simp: commit_raised_def g' store_ok_def next_generation_lookup)
  moreover have "capacity_inv (b \<and> e \<noteq> BackendCapacityExceededError) (sl_bytes slot + other_bytes i s) s'"
    using raised gate bytes by (simp add: commit_raised_def gate_base_def capacity_inv_def g')
  ultimately show ?thesis
    using raised bytes gate unfolding g'
    by (intro gate_base_step [OF gate]) (simp_all add: commit_raised_def gate_base_def)
qed

lemma commit_done_gate:
  assumes "commit_done env i w revision (slot, s) g'" and gate: "gate_base b i (slot, s)" and "store_ok env"
  shows "gate_ok b i g'"
proof -
  obtain slot' s' where g': "g' = (slot', s')" by (cases g')
  obtain d bytes where c: "map_of (wv_disk s) i = Some d" "oe_stage env w = Inr bytes"
    "dk_revision d = sl_revision slot" "revision = sl_revision slot + 1"
    "slot' = fill_slot i w revision bytes (sl_closing slot)"
    "wv_disk s' = next_generation i d w bytes (wv_disk s)" "same_frame s s'"
    "\<And>n. 0 \<le> bytes \<Longrightarrow> sl_bytes slot \<le> n \<Longrightarrow> capacity_ok n s \<Longrightarrow> capacity_ok (n - sl_bytes slot + bytes) s'"
    "\<And>n. 0 \<le> bytes \<Longrightarrow> sl_bytes slot \<le> n \<Longrightarrow> capacity_exact n s \<Longrightarrow>
       capacity_exact (n - sl_bytes slot + bytes) s'"
    "\<And>rs n. ledgers rs n s \<Longrightarrow> ledgers rs n s'"
    using assms(1) by (auto simp: commit_done_def g')
  have bytes: "0 \<le> bytes" using assms(3) c(2) by (auto simp: store_ok_def)
  have le: "sl_bytes slot \<le> sl_bytes slot + other_bytes i s" using gate_base_bound(1) [OF gate] by simp
  have "capacity_inv b (bytes + other_bytes i s) s'"
    using c(8,9) [OF bytes le] gate by (simp add: gate_base_def capacity_inv_def algebra_simps)
  then have "gate_base b i g'"
    using gate c bytes next_generation_ok [OF _ c(1) bytes] unfolding g'
    by (intro gate_base_step [OF gate]) (simp_all add: gate_base_def fill_slot_def next_generation_lookup)
  moreover have "slot_ok (wv_disk s') i slot'"
    unfolding c(5,6) by (rule fill_slot_ok [OF bytes]) (auto simp: next_generation_lookup c(3,4))
  ultimately show ?thesis by (simp add: gate_ok_def g')
qed

lemma gate_base_in_memory:
  "gate_base b i (slot, s) \<Longrightarrow> gate_base b i (slot\<lparr>sl_workspace := Some w\<rparr>, s)"
  by (simp add: gate_base_def)

text \<open>A mutation keeps the invariant; exactness of the counter survives unless the counter refused.\<close>

lemma run_mutation_ok:
  assumes gate: "gate_ok b i (slot, s)" and env: "store_ok env" and command: "mutation_command command"
    and "sl_workspace slot = Some w" "run_mutation env user i command w (slot, s) = (res, g')"
  shows "gate_ok (b \<and> res \<noteq> Inl BackendCapacityExceededError) i g'"
proof -
  note base = gate_okD(1) [OF gate]
  have weaken: "gate_ok b i g \<Longrightarrow> gate_ok (b \<and> c) i g" for g c
    by (auto simp: gate_ok_def gate_base_def capacity_inv_def)
  obtain res1 commit w1 where run: "command w = (res1, commit, w1)" by (metis prod_cases3)
  let ?slot = "slot\<lparr>sl_workspace := Some w1\<rparr>"
  note mem = gate_base_in_memory [OF base, of w1]
  show ?thesis
  proof (cases res1)
    case (Inl e)
    then show ?thesis
      using assms(5) run weaken [OF restore_slot_ok [OF mem env]] by (auto simp: run_mutation_def Let_def)
  next
    case (Inr x)
    show ?thesis
    proof (cases commit)
      case False
      have "durable w1 = durable w"
        using mutation_command.clean [OF command, of w x w1] run Inr False by simp
      then have "slot_ok (wv_disk s) i ?slot"
        using gate_okD(2) [OF gate] assms(4) by (auto simp: slot_ok_def dest: durable_entry_count)
      then have "gate_ok b i (?slot, s)" using mem by (simp add: gate_ok_def)
      then show ?thesis using assms(5) run Inr False weaken by (auto simp: run_mutation_def Let_def)
    next
      case True
      obtain res2 slot2 s2 where p: "persist env user i w1 (?slot, s) = (res2, slot2, s2)"
        by (metis prod_cases3)
      from p show ?thesis
      proof (cases rule: persist_cases)
        case (raised e)
        have "gate_base (b \<and> e \<noteq> BackendCapacityExceededError) i (slot2, s2)"
          by (rule commit_raised_gate [OF raised(2) mem env])
        then show ?thesis
          using restore_slot_ok [OF _ env] assms(5) run Inr True p raised(1)
          by (auto simp: run_mutation_def Let_def)
      next
        case (committed revision)
        have "gate_ok b i (slot2, s2)" by (rule commit_done_gate [OF committed(2) mem env])
        then have "gate_ok b i (slot2, publish_events user events s2)" for events
          by (simp add: gate_ok_def gate_base_def publish_events_def slots_ok_def capacity_inv_def other_bytes_def)
        then show ?thesis
          using assms(5) run Inr True p committed(1) weaken by (auto simp: run_mutation_def Let_def)
      qed
    qed
  qed
qed

section \<open>Every operation keeps the invariant\<close>

lemma gate_ok_published: "gate_ok b i (slot, publish_events user events s) = gate_ok b i (slot, s)"
  by (simp add: gate_ok_def gate_base_def publish_events_def slots_ok_def capacity_inv_def other_bytes_def)

lemma service_inv_published [simp]: "service_inv b (publish_events user events s) = service_inv b s"
  by (simp add: service_inv_def publish_events_def slots_ok_def capacity_inv_def open_bytes_def)

lemma weaken_inv: "gate_ok b i g \<Longrightarrow> (b' \<longrightarrow> b) \<Longrightarrow> gate_ok b' i g" "service_inv b s \<Longrightarrow> (b' \<longrightarrow> b) \<Longrightarrow> service_inv b' s"
  by (auto simp: gate_ok_def gate_base_def service_inv_def capacity_inv_def)

lemma clear_slot_gate: "gate_ok b i g \<Longrightarrow> clear_slot g = (slot, s) \<Longrightarrow> gate_ok b i (slot, s)"
  using clear_slot_ok [OF gate_okD(1)] by metis

lemma require_open_ok:
  "gate_ok b i g \<Longrightarrow> require_open env user i allow g = (res, g') \<Longrightarrow> gate_ok b i g'"
  using clear_slot_ok [OF gate_okD(1), of b i g]
  by (auto simp: require_open_def split: prod.splits option.splits if_splits)

lemma require_open_Inr:
  assumes "require_open env user i allow (slot, s) = (Inr w, g')"
  shows "g' = (slot, s)" "sl_workspace slot = Some w" "sl_closing slot \<longrightarrow> allow"
    "path_of env user i s = Some i" "sl_path slot = Some i"
  using assms by (auto simp: require_open_def path_of_def split: prod.splits option.splits if_splits)

lemma with_lease_ok:
  "gate_ok b i g \<Longrightarrow> with_lease env user i allow read g = (res, g') \<Longrightarrow> gate_ok b i g'"
  by (auto simp: with_lease_def dest: require_open_ok split: prod.splits sum.splits)

lemma mutation_gated_ok:
  assumes gate: "gate_ok b i g" and "store_ok env" "mutation_command command"
    and run: "mutation_gated env user i internal command g = (res, g')"
  shows "gate_ok (b \<and> res \<noteq> Inl BackendCapacityExceededError) i g'"
proof -
  obtain slot s where g: "g = (slot, s)" by (cases g)
  obtain r1 g1 where r1: "require_open env user i internal g = (r1, g1)" by (metis surj_pair)
  show ?thesis
  proof (cases r1)
    case (Inl e)
    have "gate_ok b i g'" using run r1 Inl require_open_ok [OF gate r1] by (simp add: mutation_gated_def)
    then show ?thesis by (rule weaken_inv(1)) simp
  next
    case (Inr w)
    note o = require_open_Inr [OF r1 [unfolded Inr g]]
    show ?thesis
      by (rule run_mutation_ok [OF gate [unfolded g] assms(2,3) o(2)])
        (use run r1 Inr o(1) in \<open>simp add: mutation_gated_def\<close>)
  qed
qed

lemma mutation_context_inv:
  assumes "service_inv b s" "store_ok env" "mutation_command command"
    "mutation_context env user i internal command s = (res, s')"
  shows "service_inv (b \<and> res \<noteq> Inl BackendCapacityExceededError) s'"
proof (cases "wv_accepting s")
  case False
  then have "service_inv b s'" using assms(1,4) by (simp add: mutation_context_def)
  then show ?thesis by (rule weaken_inv(2)) simp
next
  case True
  then have "with_slot i (mutation_gated env user i internal command) s = (res, s')"
    using assms(4) by (simp add: mutation_context_def)
  then show ?thesis
    by (rule with_slot_inv [OF assms(1)]) (rule mutation_gated_ok [OF _ assms(2,3)])
qed

lemma reopen_slot_ok:
  assumes "gate_ok b i (slot, s)" "sl_workspace slot = Some w" "reopen_slot path w (slot, s) = (res, g')"
  shows "gate_ok b i g'"
proof (cases "sl_path slot = Some path")
  case True
  have "gate_ok b i (slot\<lparr>sl_closing := False\<rparr>, s)"
    using assms(1,2) by (simp add: gate_ok_def gate_base_def slot_ok_def)
  then show ?thesis using assms(3) True by (simp add: reopen_slot_def)
next
  case False
  then show ?thesis using assms(3) clear_slot_ok [OF gate_okD(1) [OF assms(1)]] by (auto simp: reopen_slot_def)
qed

text \<open>A step that moves only the counter, by as much as it says.\<close>

lemma gate_ok_counter:
  assumes "gate_ok b i (slot, s)" "same_frame s s'" "wv_disk s' = wv_disk s" "ledgers [] 0 s'"
    "capacity_inv b (sl_bytes slot + other_bytes i s) s'"
  shows "gate_ok b i (slot, s')"
  using assms gate_base_bound(2) [OF gate_okD(1) [OF assms(1)]]
  unfolding gate_ok_def by (intro conjI gate_base_step [OF gate_okD(1) [OF assms(1)]]) (auto simp: gate_base_def)

lemma load_slot_ok:
  assumes gate: "gate_ok b i (slot, s)" and closed: "sl_workspace slot = None" and env: "store_ok env"
    and run: "load_slot env i (slot, s) = (res, g')"
  shows "gate_ok b i g'"
proof (cases "oe_inspect env (map_of (wv_disk s) i)")
  case (Inl e)
  then show ?thesis using gate run by (simp add: load_slot_def)
next
  case (Inr seen_n)
  obtain seen n where seen: "oe_inspect env (map_of (wv_disk s) i) = Inr (seen, n)" using Inr by (cases seen_n) auto
  have n: "0 \<le> n" using env seen by (auto simp: store_ok_def)
  have empty: "slot = closed_slot" using gate closed by (simp add: gate_ok_def slot_ok_def)
  note base = gate_okD(1) [OF gate]
  have disk: "disk_ok (wv_disk s)" using base by (simp add: gate_base_def)
  let ?others = "other_bytes i s"
  have others: "0 \<le> ?others" using other_bytes_nonneg [OF base] by simp
  have cap: "capacity_inv b ?others s" "sl_bytes slot = 0" using base empty by (simp_all add: gate_base_def closed_slot_def)
  obtain res1 s1 where r1: "reserve_open_capacity n s = (res1, s1)" by fastforce
  show ?thesis
  proof (cases rule: reserve_open_capacity_cases [OF r1])
    case 1
    then show ?thesis using gate run seen r1 by (simp add: load_slot_def)
  next
    case 2
    note granted = 2
    have frame1: "same_frame s s1" "wv_disk s1 = wv_disk s" "ledgers [] 0 s1"
      using granted base by (auto simp: gate_base_def ledgers_def)
    have cap1: "capacity_inv b (n + ?others) s1"
      using capacity_inv_reserve [OF r1 [unfolded granted(1)] cap(1)] n by (simp add: algebra_simps)
    have give_back: "gate_ok b i (slot, release_open_capacity m s2)"
      if "capacity_inv b (m + ?others) s2" "same_frame s s2" "wv_disk s2 = wv_disk s" "ledgers [] 0 s2" "0 \<le> m" for m s2
      by (rule gate_ok_counter [OF gate])
        (use that capacity_inv_release [OF that(1), of m] others cap(2) in simp_all)
    show ?thesis
    proof (cases "oe_load env (map_of (wv_disk s) i)")
      case (Inl e)
      then show ?thesis
        using give_back [OF cap1 frame1 n] run seen r1 granted(1) by (simp add: load_slot_def)
    next
      case (Inr d)
      have d: "map_of (wv_disk s) i = Some d" using Inr env by (auto simp: store_ok_def)
      note bytes = disk_okD(1) [OF disk d]
      obtain res2 s2 where adj: "(if dk_bytes d > n then reserve_open_capacity (dk_bytes d - n) s1
          else (Inr (), release_open_capacity (n - dk_bytes d) s1)) = (res2, s2)" by fastforce
      note a = adjust_capacity [OF adj]
      have frame2: "same_frame s s2" "wv_disk s2 = wv_disk s" "ledgers [] 0 s2"
        using a(3,4,5) frame1 by (auto intro: same_frame_trans)
      show ?thesis
      proof (cases res2)
        case (Inl e)
        then show ?thesis
          using give_back [OF cap1 frame1 n] a(1) run seen r1 granted(1) Inr adj by (simp add: load_slot_def)
      next
        case u: (Inr u)
        have cap2: "capacity_inv b (dk_bytes d + ?others) s2" by (rule a(2) [OF u cap1 bytes others])
        show ?thesis
        proof (cases "dk_revision d = dk_revision seen")
          case False
          then show ?thesis
            using give_back [OF cap2 frame2 bytes] run seen r1 granted(1) Inr adj u by (simp add: load_slot_def)
        next
          case True
          let ?slot = "fill_slot i (dk_workspace d) (dk_revision d) (dk_bytes d) False"
          have "gate_base b i (?slot, s2)"
            using cap2 frame2 bytes disk by (intro gate_base_step [OF base]) (auto simp: fill_slot_def)
          moreover have "slot_ok (wv_disk s2) i ?slot"
            by (rule fill_slot_ok [OF bytes]) (simp_all add: frame2(2) d disk_okD(3) [OF disk d])
          ultimately have "gate_ok b i (?slot, s2)" by (simp add: gate_ok_def)
          then show ?thesis
            using run seen r1 granted(1) Inr adj u True by (auto simp: load_slot_def)
        qed
      qed
    qed
  qed
qed

lemma open_gated_ok:
  "gate_ok b i g \<Longrightarrow> store_ok env \<Longrightarrow> open_gated env user i g = (res, g') \<Longrightarrow> gate_ok b i g'"
  by (cases g) (auto simp: open_gated_def dest: reopen_slot_ok load_slot_ok split: option.splits)

lemma close_gated_ok:
  assumes gate: "gate_ok b i g" and "close_gated env user i active g = (res, g')"
  shows "gate_ok b i g'"
proof -
  obtain slot s where g: "g = (slot, s)" by (cases g)
  obtain slot1 s1 where clear: "clear_slot (slot, s) = (slot1, s1)" by (metis surj_pair)
  have "gate_ok b i (slot\<lparr>sl_closing := True\<rparr>, s)" if "sl_workspace slot \<noteq> None"
    using gate that by (auto simp: gate_ok_def gate_base_def slot_ok_def g)
  then show ?thesis
    using assms clear_slot_gate [OF gate [unfolded g] clear] clear
    by (auto simp: close_gated_def gate_ok_published g split: option.splits if_splits)
qed

lemma finalize_gated_ok:
  assumes gate: "gate_ok b i g" and "finalize_gated user i active g = (res, g')"
  shows "gate_ok b i g'"
proof -
  obtain slot s where g: "g = (slot, s)" by (cases g)
  obtain slot1 s1 where clear: "clear_slot (slot, s) = (slot1, s1)" by (metis surj_pair)
  show ?thesis
    using assms clear_slot_gate [OF gate [unfolded g] clear] clear
    by (auto simp: finalize_gated_def gate_ok_published g split: if_splits)
qed

lemma delete_disk_gate:
  assumes "gate_ok b i (slot, s)"
  shows "gate_ok b i (slot, s\<lparr>wv_disk := AList.delete i (wv_disk s)\<rparr>)"
proof -
  have "gate_base b i (slot, s\<lparr>wv_disk := AList.delete i (wv_disk s)\<rparr>)"
    using gate_okD(1) [OF assms]
    by (intro gate_base_step [OF gate_okD(1) [OF assms]])
      (auto simp: gate_base_def delete_conv' disk_ok_def capacity_inv_def split: if_splits)
  moreover have "slot_ok (AList.delete i (wv_disk s)) i slot"
    using gate_okD(2) [OF assms] by (auto simp: slot_ok_def delete_conv' split: option.splits)
  ultimately show ?thesis by (simp add: gate_ok_def)
qed

lemma deletion_gated_ok:
  assumes gate: "gate_ok b i g" and "deletion_gated env user i cancelled deleted g = (res, g')"
  shows "gate_ok b i g'"
proof -
  obtain slot s where g: "g = (slot, s)" by (cases g)
  let ?s1 = "s\<lparr>wv_disk := AList.delete i (wv_disk s)\<rparr>"
  obtain slot2 s2 where clear: "clear_slot (slot, ?s1) = (slot2, s2)" by (metis surj_pair)
  note deleted = delete_disk_gate [OF gate [unfolded g]]
  show ?thesis
    using assms clear_slot_gate [OF deleted clear] deleted clear
    by (auto simp: deletion_gated_def gate_ok_published g Let_def
        split: option.splits if_splits publish_outcome.splits)
qed

lemma read_context_inv: "service_inv b s \<Longrightarrow> read_context env user i read s = (res, s') \<Longrightarrow> service_inv b s'"
  unfolding read_context_def by (erule (1) with_slot_inv) (rule with_lease_ok)

lemma submission_context_inv:
  "service_inv b s \<Longrightarrow> submission_context env user i read s = (res, s') \<Longrightarrow> service_inv b s'"
  by (cases "wv_accepting s") (auto simp: submission_context_def intro: with_slot_inv with_lease_ok)

lemma open_workspace_inv:
  assumes "service_inv b s" "store_ok env" "open_workspace env user i s = (res, s')"
  shows "service_inv b s'"
proof -
  obtain res1 s1 where r1: "with_slot i (open_gated env user i) s = (res1, s1)" by (metis surj_pair)
  have "service_inv b s1"
    by (rule with_slot_inv [OF assms(1) r1]) (rule open_gated_ok [OF _ assms(2)])
  then show ?thesis
    using assms(1,3) r1 by (auto simp: open_workspace_def split: sum.splits if_splits prod.splits)
qed

lemma request_close_inv: "service_inv b s \<Longrightarrow> request_close env user i active s = (res, s') \<Longrightarrow> service_inv b s'"
  unfolding request_close_def by (erule (1) with_slot_inv) (rule close_gated_ok)

lemma finalize_close_inv:
  "service_inv b s \<Longrightarrow> finalize_close_if_idle user i active s = (res, s') \<Longrightarrow> service_inv b s'"
  unfolding finalize_close_if_idle_def by (erule (1) with_slot_inv) (rule finalize_gated_ok)

lemma deletion_inv:
  "service_inv b s \<Longrightarrow> deletion_context env user i cancelled deleted s = (res, s') \<Longrightarrow> service_inv b s'"
  by (cases "wv_accepting s") (auto simp: deletion_context_def intro: with_slot_inv deletion_gated_ok)

lemma ledgers_holding_path:
  assumes "holding r rs n s" "storage_recheck_path env staged replacing r (wv_quota s) = (res, r', q)"
  shows "holding r' rs n (s\<lparr>wv_quota := q\<rparr>)"
proof -
  obtain quota where quota: "sr_quota r = Some quota" "quota_inv (wv_quota s, quota # rs)" "\<not> sr_released r"
    "\<not> qr_released quota"
    using assms(1) by (auto simp: holding_def)
  obtain x quota' where q: "quota_recheck_path env staged replacing quota (wv_quota s) = (x, quota', q)"
    "r' = r\<lparr>sr_quota := Some quota'\<rparr>"
    using assms(2) quota by (auto simp: storage_recheck_path_def forward_recheck_def split: prod.splits)
  have "quota_inv (q, quota' # rs)"
    using quota_recheck_path_inv [OF quota(2), of 0] q(1) by simp
  moreover have "qr_released quota' = qr_released quota"
    using q(1) by (auto simp: quota_recheck_path_def recheck_with_def apply_finite_recheck_def
        drop_reserved_def Let_def split: if_splits option.splits prod.splits sum.splits)
  ultimately show ?thesis using assms(1) quota q(2) by (auto simp: holding_def)
qed

text \<open>What a step on a closed Workspace may change: its generation on disk, and the ledgers.\<close>

lemma gate_ok_closed:
  assumes gate: "gate_ok b i (closed_slot, s)" and "same_frame s s'" "ledgers [] 0 s'" "disk_ok (wv_disk s')"
    "\<And>j. j \<noteq> i \<Longrightarrow> map_of (wv_disk s') j = map_of (wv_disk s) j"
    "wv_capacity_bytes s' = wv_capacity_bytes s"
  shows "gate_ok b i (closed_slot, s')"
proof -
  have "capacity_inv b n s' = capacity_inv b n s" for n
    using capacity_cong [of s' s n] assms(2,6) by (simp add: capacity_inv_def same_frame_def)
  then have "gate_base b i (closed_slot, s')"
    using gate_okD(1) [OF gate] assms
    by (intro gate_base_step [OF gate_okD(1) [OF gate]]) (auto simp: gate_base_def closed_slot_def)
  then show ?thesis by (simp add: gate_ok_def)
qed

lemma settled_frame:
  assumes "holding r [] 0 s'" "same_frame s s'" "wv_capacity_bytes s' = wv_capacity_bytes s"
  shows "ledgers [] 0 (settle r s')" "same_frame s (settle r s')"
    "wv_capacity_bytes (settle r s') = wv_capacity_bytes s"
  using settle_holding [OF assms(1)] assms(2,3) by simp_all

lemma new_entry_ok:
  "disk_ok disk \<Longrightarrow> 0 \<le> dk_bytes d \<Longrightarrow> 1 \<le> dk_revision d \<Longrightarrow> durable (dk_workspace d) = dk_workspace d \<Longrightarrow>
   disk_ok (AList.update i d disk)"
  by (auto simp: disk_ok_def update_conv')

lemma publish_new_ok:
  assumes gate: "gate_ok b i (closed_slot, s0)" and "wk_id w = i" and env: "store_ok env"
    and s: "holding r [] 0 s" "same_frame s0 s" "wv_capacity_bytes s = wv_capacity_bytes s0" "wv_disk s = wv_disk s0"
    and run: "publish_new env user staged w r (closed_slot, s) = (res, g')"
  shows "gate_ok b i g'"
proof -
  have disk: "disk_ok (wv_disk s0)" using gate by (simp add: gate_ok_def gate_base_def)
  have ok: "gate_ok b i (closed_slot, settle r' s')"
    if "holding r' [] 0 s'" "same_frame s0 s'" "wv_capacity_bytes s' = wv_capacity_bytes s0" "disk_ok (wv_disk s')"
      "\<And>j. j \<noteq> i \<Longrightarrow> map_of (wv_disk s') j = map_of (wv_disk s0) j" for r' s'
    by (rule gate_ok_closed [OF gate]) (use settled_frame [OF that(1-3)] that(4,5) in simp_all)
  show ?thesis
  proof (cases "oe_stage env w")
    case (Inl e)
    then show ?thesis using run ok [OF s(1-3)] s(4) disk by (auto simp: publish_new_def)
  next
    case (Inr bytes)
    obtain res1 r' q where r1: "storage_recheck_path (oe_storage env) staged None r (wv_quota s) = (res1, r', q)"
      by (metis prod_cases3)
    note hold = ledgers_holding_path [OF s(1) r1]
    let ?disk = "AList.update i \<lparr>dk_owner = user, dk_workspace = durable w, dk_revision = 1, dk_bytes = bytes\<rparr> (wv_disk s)"
    have "disk_ok ?disk"
      using env Inr disk s(4) by (intro new_entry_ok) (auto simp: store_ok_def)
    then have "gate_ok b i (closed_slot, settle r' (s\<lparr>wv_quota := q, wv_disk := ?disk\<rparr>))"
      using hold s by (intro ok) (simp_all add: update_conv')
    moreover have "gate_ok b i (closed_slot, settle r' (s\<lparr>wv_quota := q\<rparr>))"
      using hold s disk by (intro ok) simp_all
    ultimately show ?thesis
      using run Inr r1 assms(2)
      by (auto simp: publish_new_def Let_def split: sum.splits publish_outcome.splits)
  qed
qed

lemma new_workspace_id [simp]: "wk_id (new_workspace self heap i name description now) = i"
  by (simp add: new_workspace_def workspace_init_def)

lemma create_gated_ok:
  assumes gate: "gate_ok b i (closed_slot, s)" and "wk_id w = i" and env: "store_ok env"
    and run: "create_gated env user staged w (closed_slot, s) = (res, g')"
  shows "gate_ok b i g'"
proof -
  obtain res1 q ad where r1: "acquire (oe_storage env) (oe_free_durable env) user (wv_max_snapshot_bytes s) 2
      (wv_quota s, wv_admission s) = (res1, q, ad)" by (metis prod_cases3)
  have base: "ledgers [] 0 s" "disk_ok (wv_disk s)" using gate by (simp_all add: gate_ok_def gate_base_def)
  show ?thesis
  proof (cases res1)
    case (Inl e)
    have "gate_ok b i (closed_slot, s\<lparr>wv_quota := q, wv_admission := ad\<rparr>)"
      using acquire_refused_ledgers [OF base(1) r1 [unfolded Inl]] base
      by (intro gate_ok_closed [OF gate]) simp_all
    then show ?thesis using run r1 Inl by (simp add: create_gated_def)
  next
    case (Inr r)
    show ?thesis
      by (rule publish_new_ok [OF gate assms(2) env acquire_holding [OF base(1) r1 [unfolded Inr]]])
        (use run r1 Inr in \<open>simp_all add: create_gated_def\<close>)
  qed
qed

lemma reconcile_gated_ok:
  assumes gate: "gate_ok b i g" and env: "store_ok env"
    and run: "reconcile_gated env reconcile i g = (res, g')"
  shows "gate_ok b i g'"
proof -
  obtain slot s where g: "g = (slot, s)" by (cases g)
  show ?thesis
  proof (cases "sl_workspace slot")
    case (Some w)
    then show ?thesis using gate run by (simp add: reconcile_gated_def g Let_def)
  next
    case None
    then have closed: "slot = closed_slot" using gate by (simp add: gate_ok_def slot_ok_def g)
    have base: "ledgers [] 0 s" "disk_ok (wv_disk s)" using gate by (simp_all add: gate_ok_def gate_base_def g)
    have ok: "gate_ok b i (slot, s\<lparr>wv_disk := disk\<rparr>)"
      if "disk_ok disk" "\<And>j. j \<noteq> i \<Longrightarrow> map_of disk j = map_of (wv_disk s) j" for disk
      unfolding closed
      by (rule gate_ok_closed [OF gate [unfolded g closed]]) (use base that in simp_all)
    have committed: "gate_ok b i (slot, s\<lparr>wv_disk := disk\<rparr>)"
      if "oe_load env (map_of (wv_disk s) i) = Inr d" "oe_stage env w = Inr bytes"
        "commit_staged (oe_publish env) i (dk_revision d) w bytes (wv_disk s) = (res', disk)" for d w bytes res' disk
    proof -
      have "0 \<le> bytes" using that(2) env by (auto simp: store_ok_def)
      note generation = next_generation_ok [OF base(2) _ this]
      have "disk_ok disk \<and> (\<forall>j. j \<noteq> i \<longrightarrow> map_of disk j = map_of (wv_disk s) j)"
        by (cases rule: commit_staged_cases [OF that(3)])
          (use base(2) generation in \<open>simp_all add: next_generation_lookup\<close>)
      then show ?thesis by (intro ok) simp_all
    qed
    show ?thesis
      using run gate committed None
      by (auto simp: reconcile_gated_def g Let_def split: sum.splits prod.splits if_splits)
  qed
qed

lemma reconcile_one_inv:
  "service_inv b s \<Longrightarrow> store_ok env \<Longrightarrow> reconcile_one env reconcile i s = (res, s') \<Longrightarrow> service_inv b s'"
  unfolding reconcile_one_def by (erule with_slot_inv, assumption) (rule reconcile_gated_ok)

lemma shutdown_inv:
  fixes s :: "'p workspace_service"
  assumes "service_inv b s"
  shows "service_inv b (shutdown s)"
proof -
  define step where "step = (\<lambda>(p :: uuid \<times> 'p workspace_slot) s'. snd (clear_slot (snd p, s')))"
  have fold: "capacity_inv b 0 (fold step slots t) \<and> wv_disk (fold step slots t) = wv_disk t \<and>
      ledgers [] 0 (fold step slots t) = ledgers [] 0 t"
    if "\<forall>p \<in> set slots. 0 \<le> sl_bytes (snd p)" "capacity_inv b (slot_bytes slots) t" for slots t
    using that
  proof (induction slots arbitrary: t)
    case Nil
    then show ?case by (simp add: slot_bytes_def)
  next
    case (Cons p slots)
    obtain j slot where p: "p = (j, slot)" by (cases p)
    have "0 \<le> slot_bytes slots" "0 \<le> sl_bytes slot"
      using Cons.prems(1) by (auto simp: slot_bytes_def p intro!: sum_list_nonneg)
    then have "capacity_inv b (slot_bytes slots) (step p t)"
      using capacity_inv_release [OF Cons.prems(2), of "sl_bytes slot"]
      by (simp add: p step_def clear_slot_def slot_bytes_def)
    then show ?case
      using Cons.IH [of "step p t"] Cons.prems(1) by (simp add: p step_def clear_slot_def)
  qed
  have "\<forall>p \<in> set (wv_slots s). 0 \<le> sl_bytes (snd p)"
    using assms by (force simp: service_inv_def slots_ok_def map_of_eq_Some_iff dest: slot_ok_bytes)
  then show ?thesis
    using fold [of "wv_slots s" "s\<lparr>wv_accepting := False\<rparr>"] assms
    by (simp add: shutdown_def service_inv_def slots_ok_def capacity_inv_def open_bytes_def slot_bytes_def step_def)
qed

section \<open>Reachable states\<close>

text \<open>The flag says whether the counter has never refused a commit. Identifiers of new Workspaces are fresh.
  What a command returns does not matter for the state, so commands without a value are enough.\<close>

inductive service_step :: "bool \<Rightarrow> 'p workspace_service \<Rightarrow> bool \<Rightarrow> 'p workspace_service \<Rightarrow> bool" where
  mutate: "store_ok env \<Longrightarrow> mutation_command (command :: ('p, unit) command) \<Longrightarrow>
    mutation_context env user i internal command s = (res, s') \<Longrightarrow>
    service_step b s (b \<and> res \<noteq> Inl BackendCapacityExceededError) s'"
| open_it: "store_ok env \<Longrightarrow> open_workspace env user i s = (res', s') \<Longrightarrow> service_step b s b s'"
| close_it: "request_close env user i active s = (res'', s') \<Longrightarrow> service_step b s b s'"
| finalize: "finalize_close_if_idle user i active s = (res3, s') \<Longrightarrow> service_step b s b s'"
| read: "read_context env user i (reads :: 'p workspace \<Rightarrow> unit result) s = (res3, s') \<Longrightarrow> service_step b s b s'"
| submission: "submission_context env user i (reads :: 'p workspace \<Rightarrow> unit result) s = (res3, s') \<Longrightarrow>
    service_step b s b s'"
| create: "store_ok env \<Longrightarrow> map_of (wv_disk s) i = None \<Longrightarrow> map_of (wv_slots s) i = None \<Longrightarrow>
    create_workspace env user name description i self heap staged s = (res4, s') \<Longrightarrow> service_step b s b s'"
| delete: "deletion_context env user i cancelled deleted s = (res3, s') \<Longrightarrow> service_step b s b s'"
| reconcile: "store_ok env \<Longrightarrow> reconcile_one env reconcile i s = (res3, s') \<Longrightarrow> service_step b s b s'"
| shut: "service_step b s b (shutdown s)"

inductive service_reachable :: "bool \<Rightarrow> 'p workspace_service \<Rightarrow> bool" where
  init: "disk_ok disk \<Longrightarrow> admission_init min_free = Inr ad \<Longrightarrow>
    service_reachable True (workspace_service_init multi_user max_open max_snapshot disk ad)"
| step: "service_reachable b s \<Longrightarrow> service_step b s b' s' \<Longrightarrow> service_reachable b' s'"

lemma create_workspace_inv:
  assumes inv: "service_inv b s" and env: "store_ok env" and fresh: "map_of (wv_slots s) i = None"
    and run: "create_workspace env user name description i self heap staged s = (res, s')"
  shows "service_inv b s'"
proof -
  let ?w = "new_workspace self heap i name description (oe_now env)"
  obtain res1 s1 where r1: "with_slot i (create_gated env user staged ?w) s = (res1, s1)" by (metis surj_pair)
  have closed: "slot_of i s = closed_slot" by (simp add: slot_of_def dict_get_def fresh)
  have "service_inv b s1"
    using r1 by (rule with_slot_inv [OF inv]) (simp add: closed create_gated_ok [OF _ new_workspace_id env])
  then show ?thesis
    using inv run r1 by (auto simp: create_workspace_def split: option.splits if_splits sum.splits)
qed

lemma service_inv_step: "service_step b s b' s' \<Longrightarrow> service_inv b s \<Longrightarrow> service_inv b' s'"
  by (induction rule: service_step.induct)
    (auto intro: mutation_context_inv open_workspace_inv request_close_inv finalize_close_inv read_context_inv
      submission_context_inv create_workspace_inv deletion_inv reconcile_one_inv shutdown_inv)

lemma service_reachable_inv: "service_reachable b s \<Longrightarrow> service_inv b s"
proof (induction rule: service_reachable.induct)
  case (init disk min_free ad multi_user max_open max_snapshot)
  have "quota_inv (quota_init, [])" by (rule quota_reachable_inv [OF quota_reachable.init])
  then show ?case
    using init by (auto simp: service_inv_def workspace_service_init_def slots_ok_def capacity_inv_def
        capacity_ok_def capacity_exact_def open_bytes_def slot_bytes_def ledgers_def admission_init_def split: if_splits)
qed (rule service_inv_step)

text \<open>A command whose value is dropped leaves the same state.\<close>

definition drop_value :: "('p, 'a) command \<Rightarrow> ('p, unit) command" where
  "drop_value command w = (case command w of (res, commit, w') \<Rightarrow> (map_sum id (\<lambda>_. ()) res, commit, w'))"

lemma drop_value_state: "snd (mutation_context env user i internal (drop_value command) s) =
    snd (mutation_context env user i internal command s)"
  by (auto simp: mutation_context_def with_slot_def mutation_gated_def run_mutation_def drop_value_def Let_def
      split: prod.splits sum.splits if_splits)

section \<open>What a mutation does\<close>

lemma clear_slot_frame:
  "clear_slot (slot, s) = (slot', s') \<Longrightarrow> same_frame s s' \<and> wv_disk s' = wv_disk s \<and> wv_published s' = wv_published s"
  by (auto simp: clear_slot_def)

lemma restore_slot_frame:
  assumes "restore_slot env i histories (slot, s) = (slot', s')"
  shows "same_frame s s' \<and> wv_disk s' = wv_disk s \<and> wv_published s' = wv_published s"
proof (cases "oe_load env (map_of (wv_disk s) i)")
  case (Inl e)
  then show ?thesis using assms clear_slot_frame by (auto simp: restore_slot_def)
next
  case (Inr d)
  obtain res s1 where adj: "(if dk_bytes d > sl_bytes slot then reserve_open_capacity (dk_bytes d - sl_bytes slot) s
      else (Inr (), release_open_capacity (sl_bytes slot - dk_bytes d) s)) = (res, s1)" by fastforce
  show ?thesis
    using assms Inr adj adjust_capacity(3,4,6) [OF adj] clear_slot_frame [of slot s1]
    by (auto simp: restore_slot_def split: sum.splits intro: same_frame_trans)
qed

text \<open>What a raise inside a mutation may have changed.\<close>

definition rolled_back :: "'p op_env \<Rightarrow> uuid \<Rightarrow> error \<Rightarrow> 'p workspace_service \<Rightarrow> 'p workspace_service \<Rightarrow> bool" where
  "rolled_back env i e s s' \<longleftrightarrow> same_frame s s' \<and> wv_published s' = wv_published s \<and>
     (wv_disk s' = wv_disk s \<or> oe_publish env = PublishedThenFailed e) \<and>
     (\<forall>j. j \<noteq> i \<longrightarrow> map_of (wv_disk s') j = map_of (wv_disk s) j)"

definition mutated ::
  "'p op_env \<Rightarrow> string \<Rightarrow> uuid \<Rightarrow> ('p, 'a) command \<Rightarrow> 'p workspace \<Rightarrow> 'a \<Rightarrow> 'p workspace \<Rightarrow> int \<Rightarrow>
     'p gated \<Rightarrow> 'p gated \<Rightarrow> bool" where
  "mutated env user i command w x w' revision g g' \<longleftrightarrow> (\<exists>commit w1. command w = (Inr x, commit, w1) \<and>
     sl_workspace (fst g') = Some w' \<and> same_frame (snd g) (snd g') \<and>
     (if commit
      then w' = w1\<lparr>wk_modified_at := oe_now env\<rparr> \<and> revision = sl_revision (fst g) + 1 \<and>
        (\<exists>d bytes. map_of (wv_disk (snd g)) i = Some d \<and> oe_stage env w' = Inr bytes \<and>
          dk_revision d = sl_revision (fst g) \<and>
          wv_disk (snd g') = next_generation i d w' bytes (wv_disk (snd g))) \<and>
        wv_published (snd g') = wv_published (snd g) @
          map (Pair user) (mutation_events revision (mutation_before w) w')
      else w' = w1 \<and> revision = sl_revision (fst g) \<and> wv_disk (snd g') = wv_disk (snd g) \<and>
        wv_published (snd g') = wv_published (snd g)))"

lemma run_mutation_spec:
  assumes "run_mutation env user i command w (slot, s) = (res, g')"
  shows "case res of Inl e \<Rightarrow> rolled_back env i e s (snd g')
    | Inr (x, w', revision) \<Rightarrow> mutated env user i command w x w' revision (slot, s) g'"
proof -
  obtain res1 commit w1 where run: "command w = (res1, commit, w1)" by (metis prod_cases3)
  let ?slot = "slot\<lparr>sl_workspace := Some w1\<rparr>"
  have restored: "rolled_back env i e s (snd (restore_slot env i histories (slot2, s2)))"
    if "rolled_back env i e s s2" for e histories slot2 s2
    using that restore_slot_frame [of env i histories slot2 s2]
    by (cases "restore_slot env i histories (slot2, s2)") (auto simp: rolled_back_def intro: same_frame_trans)
  show ?thesis
  proof (cases res1)
    case (Inl e)
    have "rolled_back env i e s s" by (simp add: rolled_back_def)
    then show ?thesis using assms run Inl restored by (auto simp: run_mutation_def Let_def)
  next
    case (Inr x)
    show ?thesis
    proof (cases commit)
      case False
      then show ?thesis using assms run Inr by (auto simp: run_mutation_def mutated_def Let_def)
    next
      case True
      obtain res2 slot2 s2 where p: "persist env user i w1 (?slot, s) = (res2, slot2, s2)" by (metis prod_cases3)
      from p show ?thesis
      proof (cases rule: persist_cases)
        case (raised e)
        have "rolled_back env i e s s2"
          using raised(2) by (auto simp: commit_raised_def rolled_back_def next_generation_lookup)
        then show ?thesis
          using assms run Inr True p raised(1) restored by (auto simp: run_mutation_def Let_def)
      next
        case (committed revision)
        then show ?thesis
          using assms run Inr True p
          by (auto simp: run_mutation_def mutated_def commit_done_def publish_events_def fill_slot_def
              same_frame_def Let_def)
      qed
    qed
  qed
qed

section \<open>Example\<close>

definition example_workspace :: "uuid \<Rightarrow> nat workspace" where
  "example_workspace i = new_workspace 0 example_heap i ''Corpus'' [] 0"

definition example_entry :: "uuid \<Rightarrow> nat disk_entry" where
  "example_entry i = \<lparr>dk_owner = ''u'', dk_workspace = example_workspace i, dk_revision = 1, dk_bytes = 60\<rparr>"

definition example_op :: "int \<Rightarrow> nat op_env" where
  "example_op n = \<lparr>oe_now = 1, oe_storage = example_env\<lparr>env_quota_limit := \<lambda>user. None\<rparr>,
     oe_free_staging = 100000, oe_free_durable = 100000, oe_access = True, oe_stage = (\<lambda>w. Inr (max 0 n)),
     oe_inspect = (\<lambda>e. case e of None \<Rightarrow> Inl (OSError []) | Some d \<Rightarrow> Inr (d, 40)),
     oe_load = (\<lambda>e. case e of None \<Rightarrow> Inl (OSError []) | Some d \<Rightarrow> Inr d), oe_publish = Published\<rparr>"

definition example_service :: "nat workspace_service" where
  "example_service = workspace_service_init True 100 1000 [(''a'', example_entry ''a''), (''b'', example_entry ''b'')]
     \<lparr>ad_min_free_disk_bytes = 0, ad_reserved_total = 0\<rparr>"

definition describe :: "(nat, unit) command" where
  "describe = update_metadata \<lparr>wu_name = None, wu_description = Some (Some ''about'')\<rparr>"

definition example_opened :: "workspace_record result \<times> nat workspace_service" where
  "example_opened = open_workspace (example_op 60) ''u'' ''a'' example_service"

definition example_described :: "(unit \<times> nat workspace \<times> int) result \<times> nat workspace_service" where
  "example_described = mutation_context (example_op 80) ''u'' ''a'' False describe (snd example_opened)"

definition example_refused :: "(unit \<times> nat workspace \<times> int) result \<times> nat workspace_service" where
  "example_refused = mutation_context (example_op 200) ''u'' ''a'' False describe (snd example_opened)"

definition example_overfull :: "workspace_record result \<times> nat workspace_service" where
  "example_overfull = open_workspace (example_op 60) ''u'' ''b'' (snd example_refused)"

lemma example_op_ok: "store_ok (example_op n)"
  by (auto simp: store_ok_def example_op_def split: option.splits)

lemma describe_command: "mutation_command describe"
  unfolding describe_def by (rule metadata_command.mutation_command_axioms)

lemma example_service_reachable: "service_reachable True example_service"
  unfolding example_service_def
proof (rule service_reachable.init [of _ 0])
  have "durable (example_workspace i) = example_workspace i" for i
    by (simp add: durable_def forget_histories_def example_workspace_def new_workspace_def workspace_init_def)
  then show "disk_ok [(''a'', example_entry ''a''), (''b'', example_entry ''b'')]"
    by (auto simp: disk_ok_def example_entry_def)
qed (simp add: admission_init_def)

lemma example_opened_reachable: "service_reachable True (snd example_opened)"
  unfolding example_opened_def
  by (rule service_reachable.step [OF example_service_reachable
      service_step.open_it [OF example_op_ok surjective_pairing]])

lemma example_mutated_reachable:
  "\<exists>b. service_reachable b (snd (mutation_context (example_op n) ''u'' ''a'' False describe (snd example_opened)))"
  using service_reachable.step [OF example_opened_reachable
      service_step.mutate [OF example_op_ok describe_command surjective_pairing]] by blast

lemma example_overfull_reachable: "\<exists>b. service_reachable b (snd example_overfull)"
proof -
  obtain b where "service_reachable b (snd example_refused)"
    using example_mutated_reachable [of 200] by (auto simp: example_refused_def)
  from service_reachable.step [OF this service_step.open_it [OF example_op_ok surjective_pairing]]
  show ?thesis by (auto simp: example_overfull_def)
qed

section \<open>Properties\<close>

lemma keep_slot_frame:
  "wv_disk (keep_slot i (slot, s)) = wv_disk s" "wv_published (keep_slot i (slot, s)) = wv_published s"
  "j \<noteq> i \<Longrightarrow> map_of (wv_slots (keep_slot i (slot, s))) j = map_of (wv_slots s) j"
  "slot_ok disk i slot \<Longrightarrow> slot_of i (keep_slot i (slot, s)) = slot"
  by (auto simp: keep_slot_def slot_of_def slot_ok_def closed_slot_def delete_conv' update_conv' split: option.splits)

lemma require_open_raises:
  "require_open env user i allow (slot, s) = (Inl e, g') \<Longrightarrow> rolled_back env' i e s (snd g')"
  using clear_slot_frame [of slot s]
  by (auto simp: require_open_def rolled_back_def split: option.splits if_splits) (auto simp: clear_slot_def)

lemma mutation_gated_spec:
  assumes "mutation_gated env user i internal command (slot, s) = (res, g')"
  shows "case res of Inl e \<Rightarrow> rolled_back env i e s (snd g')
    | Inr (x, w', revision) \<Rightarrow> (\<exists>w. sl_workspace slot = Some w \<and> path_of env user i s = Some i \<and>
        mutated env user i command w x w' revision (slot, s) g')"
proof -
  obtain r1 g1 where r1: "require_open env user i internal (slot, s) = (r1, g1)" by (metis surj_pair)
  show ?thesis
  proof (cases r1)
    case (Inl e)
    then show ?thesis
      using assms r1 require_open_raises [of env user i internal slot s e g' env] by (auto simp: mutation_gated_def)
  next
    case (Inr w)
    note o = require_open_Inr [OF r1 [unfolded Inr]]
    have "run_mutation env user i command w (slot, s) = (res, g')"
      using assms r1 Inr o(1) by (simp add: mutation_gated_def)
    from run_mutation_spec [OF this] o show ?thesis by (auto split: sum.splits)
  qed
qed

text \<open>C6: an open Workspace is clean. Whatever has been opened, mutated, refused, closed or deleted before, the
  aggregate in a slot is the one committed on disk (up to the undo stacks, which are never stored), at the
  same revision and with the sizes the slot records.\<close>

theorem open_slots_mirror_disk:
  assumes "service_reachable b s" "map_of (wv_slots s) i = Some slot" "map_of (wv_disk s) i = Some d"
  shows "\<exists>w. sl_workspace slot = Some w \<and> sl_path slot = Some i \<and> durable w = dk_workspace d \<and>
    sl_revision slot = dk_revision d \<and> sl_bytes slot = dk_bytes d \<and> sl_entries slot = entry_count w"
proof -
  have "sl_workspace slot \<noteq> None" "slot_ok (wv_disk s) i slot"
    using service_reachable_inv [OF assms(1)] assms(2) by (auto simp: service_inv_def slots_ok_def)
  then show ?thesis using assms(3) by (auto simp: slot_ok_def)
qed

theorem open_slots_mirror_disk_witness:
  "sl_revision (slot_of ''a'' (snd example_described)) = 2 \<and>
   map_of (wv_slots (snd example_described)) ''a'' \<noteq> None"
proof -
  obtain b where r: "service_reachable b (snd example_described)"
    using example_mutated_reachable [of 80] by (auto simp: example_described_def)
  have m: "\<not> Option.is_none (map_of (wv_slots (snd example_described)) ''a'')"
    "dk_revision (the (map_of (wv_disk (snd example_described)) ''a'')) = 2"
    "\<not> Option.is_none (map_of (wv_disk (snd example_described)) ''a'')" by code_simp+
  then obtain slot d where "map_of (wv_slots (snd example_described)) ''a'' = Some slot"
    "map_of (wv_disk (snd example_described)) ''a'' = Some d" by (auto simp: Option.is_none_def)
  with open_slots_mirror_disk [OF r this] m show ?thesis by (auto simp: slot_of_def dict_get_def)
qed

text \<open>C5: a mutation is all or nothing. When it returns, the command ran on the committed aggregate and, if a
  commit was asked for, exactly one new generation with its effect is on disk and in memory and its events
  are announced; without a commit nothing durable has changed. When it raises, nothing is announced, no
  other Workspace is touched, and the disk is as before unless the failure came after the rename; what is
  left in memory is then closed or what is on disk.\<close>

theorem mutation_atomic:
  assumes "service_reachable b s" "store_ok env" "mutation_command command"
    "mutation_context env user i internal command s = (res, s')"
  shows "(\<forall>j. j \<noteq> i \<longrightarrow> map_of (wv_slots s') j = map_of (wv_slots s) j \<and>
      map_of (wv_disk s') j = map_of (wv_disk s) j) \<and>
    (case res of
      Inl e \<Rightarrow> wv_published s' = wv_published s \<and>
        (wv_disk s' = wv_disk s \<or> oe_publish env = PublishedThenFailed e) \<and>
        (\<forall>w d. sl_workspace (slot_of i s') = Some w \<longrightarrow> map_of (wv_disk s') i = Some d \<longrightarrow>
           durable w = dk_workspace d)
    | Inr (x, w', revision) \<Rightarrow> (\<exists>w d commit w1. sl_workspace (slot_of i s) = Some w \<and>
        map_of (wv_disk s) i = Some d \<and> durable w = dk_workspace d \<and> command w = (Inr x, commit, w1) \<and>
        sl_workspace (slot_of i s') = Some w' \<and>
        (if commit
         then w' = w1\<lparr>wk_modified_at := oe_now env\<rparr> \<and> revision = dk_revision d + 1 \<and>
           (\<exists>bytes. wv_disk s' = next_generation i d w' bytes (wv_disk s)) \<and>
           wv_published s' = wv_published s @
             map (Pair user) (mutation_events revision (mutation_before w) w')
         else w' = w1 \<and> revision = dk_revision d \<and> wv_disk s' = wv_disk s \<and>
           wv_published s' = wv_published s)))"
proof -
  note inv = service_reachable_inv [OF assms(1)]
  have inv': "service_inv (b \<and> res \<noteq> Inl BackendCapacityExceededError) s'"
    by (rule mutation_context_inv [OF inv assms(2-4)])
  have slot': "slot_ok (wv_disk s') i (slot_of i s')"
    using inv' by (auto simp: service_inv_def slots_ok_def slot_of_def dict_get_def split: option.splits)
  then have mirror: "durable w = dk_workspace d"
    if "sl_workspace (slot_of i s') = Some w" "map_of (wv_disk s') i = Some d" for w d
    using that by (simp add: slot_ok_def)
  show ?thesis
  proof (cases "wv_accepting s")
    case False
    then show ?thesis using assms(4) mirror by (auto simp: mutation_context_def)
  next
    case True
    define slot where "slot = slot_of i s"
    obtain slot1 s1 where body: "mutation_gated env user i internal command (slot, s) = (res, slot1, s1)"
      "s' = keep_slot i (slot1, s1)"
      using assms(4) True by (auto simp: mutation_context_def with_slot_def slot_def split: prod.splits)
    have gate: "gate_ok b i (slot, s)" unfolding slot_def by (rule enter_gate [OF inv])
    note spec = mutation_gated_spec [OF body(1)]
    note keep = keep_slot_frame(1-3) [where i = i and slot = slot1 and s = s1, folded body(2)]
    have "slot_of i s' = slot1"
      unfolding body(2) using mutation_gated_ok [OF gate assms(2,3) body(1)]
      by (intro keep_slot_frame(4)) (auto simp: gate_ok_def)
    show ?thesis
    proof (cases res)
      case (Inl e)
      then show ?thesis using spec keep mirror by (auto simp: rolled_back_def same_frame_def)
    next
      case (Inr r)
      obtain x w' revision where r: "r = (x, w', revision)" by (metis prod_cases3)
      obtain w where w: "sl_workspace slot = Some w" "path_of env user i s = Some i"
        "mutated env user i command w x w' revision (slot, s) (slot1, s1)"
        using spec Inr r by auto
      obtain d where d: "map_of (wv_disk s) i = Some d" "durable w = dk_workspace d"
        "sl_revision slot = dk_revision d"
        using w(1,2) gate by (auto simp: path_of_def gate_ok_def slot_ok_def split: option.splits if_splits)
      obtain commit w1 where m: "command w = (Inr x, commit, w1)" "sl_workspace slot1 = Some w'" "same_frame s s1"
        "if commit then w' = w1\<lparr>wk_modified_at := oe_now env\<rparr> \<and> revision = dk_revision d + 1 \<and>
           (\<exists>bytes. wv_disk s1 = next_generation i d w' bytes (wv_disk s)) \<and>
           wv_published s1 = wv_published s @ map (Pair user) (mutation_events revision (mutation_before w) w')
         else w' = w1 \<and> revision = dk_revision d \<and> wv_disk s1 = wv_disk s \<and> wv_published s1 = wv_published s"
        using w(3) d unfolding mutated_def fst_conv snd_conv by (elim exE conjE, intro that) (auto split: if_splits)
      have others: "\<forall>j. j \<noteq> i \<longrightarrow> map_of (wv_slots s') j = map_of (wv_slots s) j \<and>
          map_of (wv_disk s') j = map_of (wv_disk s) j"
        using m(3,4) keep by (cases commit) (auto simp: same_frame_def next_generation_lookup)
      have "sl_workspace (slot_of i s) = Some w" "sl_workspace (slot_of i s') = Some w'"
        using w(1) m(2) \<open>slot_of i s' = slot1\<close> by (simp_all add: slot_def)
      then show ?thesis
        unfolding Inr r sum.case prod.case
        by (intro conjI [OF others], intro exI [of _ d, THEN exI [of _ w]] exI [of _ w1, THEN exI [of _ commit]] conjI)
          (use d(1,2) m(1,4) keep(1,2) in \<open>auto split: if_splits\<close>)
    qed
  qed
qed

theorem mutation_atomic_witness:
  "\<exists>w d w1. map_of (wv_disk (snd example_opened)) ''a'' = Some d \<and> durable w = dk_workspace d \<and>
     describe w = (Inr (), True, w1) \<and> length (wv_published (snd example_described)) = 2"
proof -
  have e: "mutation_context (example_op 80) ''u'' ''a'' False describe (snd example_opened) =
      (fst example_described, snd example_described)" by (simp add: example_described_def)
  have c: "\<not> isl (fst example_described)" "length (wv_published (snd example_opened)) = 1"
    "length (wv_published (snd example_described)) = 2" by code_simp+
  then obtain r where "fst example_described = Inr r" by (cases "fst example_described") auto
  with mutation_atomic [OF example_opened_reachable example_op_ok describe_command e] c
  show ?thesis by (cases r) (auto split: if_splits)
qed

text \<open>C36: the counter of open bytes, in a deployment that limits them, stays between zero and the limit and never
  counts more than the open Workspaces hold; as long as it has refused no commit it counts exactly that.\<close>

theorem open_capacity_bounded:
  assumes "service_reachable b s" "wv_capacity_limit s = Some limit"
  shows "0 \<le> wv_capacity_bytes s \<and> wv_capacity_bytes s \<le> max 0 limit \<and>
    wv_capacity_bytes s \<le> open_bytes s \<and> (b \<longrightarrow> wv_capacity_bytes s = open_bytes s)"
  using service_reachable_inv [OF assms(1)] assms(2)
  by (simp add: service_inv_def capacity_inv_def capacity_ok_def capacity_exact_def)

theorem open_capacity_bounded_witness: "open_bytes (snd example_opened) = 60"
proof -
  have "wv_capacity_limit (snd example_opened) = Some 100" "wv_capacity_bytes (snd example_opened) = 60"
    by code_simp+
  with open_capacity_bounded [OF example_opened_reachable] show ?thesis by simp
qed


text \<open>C37: no call keeps a storage reservation. Between calls nothing is held of the disk headroom or of any user's
  quota, whatever was refused or failed on the way.\<close>

theorem reservations_returned:
  assumes "service_reachable b s"
  shows "ad_reserved_total (wv_admission s) = 0 \<and> user_reserved (wv_quota s) user = 0"
proof -
  have "ledgers [] 0 s" using service_reachable_inv [OF assms] by (simp add: service_inv_def)
  then show ?thesis using quota_invD(2) [of "wv_quota s" "[]" user] by (simp add: ledgers_def user_parts_def)
qed

theorem reservations_returned_witness:
  "ad_reserved_total (wv_admission (snd example_refused)) = 0"
proof -
  obtain b where "service_reachable b (snd example_refused)"
    using example_mutated_reachable [of 200] by (auto simp: example_refused_def)
  from reservations_returned [OF this] show ?thesis by simp
qed

lemma fold_clear_frame:
  "wv_disk (fold (\<lambda>p s'. snd (clear_slot (snd p, s'))) slots s) = wv_disk s"
  "wv_accepting (fold (\<lambda>p s'. snd (clear_slot (snd p, s'))) slots s) = wv_accepting s"
  by (induction slots arbitrary: s) (simp_all add: clear_slot_def release_open_capacity_def)

text \<open>Shutting down closes every Workspace, returns all open capacity, leaves the disk alone and is final:
  nothing can be opened, mutated, submitted, created or deleted afterwards.\<close>

theorem shutdown_is_final:
  assumes "service_reachable b s" "t = shutdown s"
  shows "wv_slots t = [] \<and> wv_disk t = wv_disk s \<and> wv_capacity_bytes t = 0 \<and>
    fst (mutation_context env user i internal command t) =
      Inl (WorkspaceConflictError ''Workspace service is shutting down'') \<and>
    fst (open_workspace env user i t) = Inl (WorkspaceConflictError ''Workspace service is shutting down'') \<and>
    fst (submission_context env user i reads t) =
      Inl (WorkspaceConflictError ''Workspace service is shutting down'') \<and>
    fst (deletion_context env user i cancelled deleted t) =
      Inl (WorkspaceConflictError ''Workspace service is shutting down'') \<and>
    isl (fst (create_workspace env user name description j self heap staged t))"
proof -
  have "service_inv b (shutdown s)" by (rule shutdown_inv [OF service_reachable_inv [OF assms(1)]])
  then have "wv_capacity_bytes (shutdown s) = 0"
    by (cases "wv_capacity_limit (shutdown s)")
      (auto simp: service_inv_def capacity_inv_def capacity_ok_def shutdown_def open_bytes_def slot_bytes_def)
  moreover have "\<not> wv_accepting (shutdown s)" "wv_disk (shutdown s) = wv_disk s"
    using fold_clear_frame [of "wv_slots s" "s\<lparr>wv_accepting := False\<rparr>"] by (simp_all add: shutdown_def)
  moreover have "isl (fst (create_workspace env user name description j self heap staged (shutdown s)))"
    using \<open>\<not> wv_accepting (shutdown s)\<close> by (cases "validate_display_name name") (simp_all add: create_workspace_def)
  ultimately show ?thesis
    unfolding assms(2)
    by (simp add: mutation_context_def open_workspace_def submission_context_def deletion_context_def)
      (simp add: shutdown_def)
qed

theorem shutdown_is_final_witness: "wv_capacity_bytes (shutdown (snd example_opened)) = 0"
  using shutdown_is_final [OF example_opened_reachable refl, of "example_op 60" "''u''" "''a''" False describe
      "\<lambda>w. Inr ()" None Published "[]" "[]" "[]" 0 example_heap Missing] by simp

text \<open>What the startup reconciliation may do to one Workspace: nothing, or one generation with the reconciler's
  result.\<close>

definition reconciled :: "('p workspace \<Rightarrow> bool \<times> 'p workspace) \<Rightarrow> 'p disk_entry \<Rightarrow> 'p disk_entry \<Rightarrow> bool" where
  "reconciled reconcile d d' \<longleftrightarrow> d' = d \<or> (\<exists>now bytes. fst (reconcile (dk_workspace d)) \<and>
     d' = d\<lparr>dk_workspace := durable ((snd (reconcile (dk_workspace d)))\<lparr>wk_modified_at := now\<rparr>),
       dk_revision := dk_revision d + 1, dk_bytes := bytes\<rparr>)"

lemma same_slots: "service_inv b s \<Longrightarrow> wv_slots (keep_slot i (slot_of i s, s)) = wv_slots s"
proof (cases "map_of (wv_slots s) i")
  case None
  then have "i \<notin> fst ` set (wv_slots s)" by (simp add: map_of_None_iff_keys)
  then show ?thesis using None by (simp add: keep_slot_def slot_of_def dict_get_def closed_slot_def)
next
  case (Some slot)
  moreover assume "service_inv b s"
  ultimately have "sl_workspace slot \<noteq> None" by (auto simp: service_inv_def slots_ok_def)
  then show ?thesis using Some by (auto simp: keep_slot_def slot_of_def dict_get_def update_same)
qed

definition entry_reconciled ::
  "('p workspace \<Rightarrow> bool \<times> 'p workspace) \<Rightarrow> bool \<Rightarrow> 'p disk_entry option \<Rightarrow> 'p disk_entry option \<Rightarrow> bool" where
  "entry_reconciled reconcile asked old new \<longleftrightarrow> (case old of
     None \<Rightarrow> new = None
   | Some d \<Rightarrow> (case new of None \<Rightarrow> False | Some d' \<Rightarrow> if asked then reconciled reconcile d d' else d' = d))"

lemma entry_reconciled_same: "entry_reconciled reconcile asked old old"
  by (simp add: entry_reconciled_def reconciled_def split: option.splits)

lemma entry_reconciled_trans:
  "entry_reconciled reconcile a old mid \<Longrightarrow> entry_reconciled reconcile b mid new \<Longrightarrow> \<not> (a \<and> b) \<Longrightarrow>
   entry_reconciled reconcile (a \<or> b) old new"
  by (auto simp: entry_reconciled_def split: option.splits if_splits)

lemma reconcile_gated_disk:
  assumes env: "store_ok env" and run: "reconcile_gated env reconcile i (slot, s) = (res, slot', s')"
  shows "slot' = slot \<and> wv_slots s' = wv_slots s \<and> (\<forall>j. entry_reconciled reconcile (j = i) (map_of (wv_disk s) j) (map_of (wv_disk s') j))"
proof -
  have "entry_reconciled reconcile (j = i) (map_of (wv_disk s) j) (map_of disk j)"
    if load: "oe_load env (map_of (wv_disk s) i) = Inr d" and r: "reconcile (dk_workspace d) = (True, w)"
      and c: "commit_staged (oe_publish env) i (dk_revision d) (w\<lparr>wk_modified_at := now\<rparr>) bytes (wv_disk s) = (res', disk)"
    for d w now bytes res' disk j
  proof -
    have d: "map_of (wv_disk s) i = Some d" using load env by (auto simp: store_ok_def)
    show ?thesis
    proof (cases rule: commit_staged_cases [OF c])
      case (1 e)
      then show ?thesis by (simp add: entry_reconciled_same)
    next
      case (2 e d')
      then show ?thesis using d r entry_reconciled_same [of reconcile "j = i"]
        by (auto simp: entry_reconciled_def reconciled_def next_generation_lookup)
    next
      case (3 d')
      then show ?thesis using d r entry_reconciled_same [of reconcile "j = i"]
        by (auto simp: entry_reconciled_def reconciled_def next_generation_lookup)
    qed
  qed
  then show ?thesis
    using run entry_reconciled_same
    by (auto simp: reconcile_gated_def Let_def split: sum.splits prod.splits if_splits)
qed

lemma reconcile_one_spec:
  assumes "service_inv b s" "store_ok env" "reconcile_one env reconcile i s = (res, s')"
  shows "wv_slots s' = wv_slots s" "entry_reconciled reconcile (j = i) (map_of (wv_disk s) j) (map_of (wv_disk s') j)"
proof -
  obtain slot' s1 where body: "reconcile_gated env reconcile i (slot_of i s, s) = (res, slot', s1)"
    "s' = keep_slot i (slot', s1)"
    using assms(3) by (auto simp: reconcile_one_def with_slot_def split: prod.splits)
  note spec = reconcile_gated_disk [OF assms(2) body(1)]
  have "wv_slots (keep_slot i (slot_of i s, s1)) = wv_slots (keep_slot i (slot_of i s, s))"
    using spec by (simp add: keep_slot_def)
  then show "wv_slots s' = wv_slots s" using spec same_slots [OF assms(1), of i] by (simp add: body(2))
  show "entry_reconciled reconcile (j = i) (map_of (wv_disk s) j) (map_of (wv_disk s') j)"
    using spec by (simp add: body(2) keep_slot_frame(1))
qed



end
