(* ===== verification/WorkspaceLifecycle.thy ===== *)
theory WorkspaceLifecycle
  imports WorkspaceConsistency
begin

text \<open>
  The catalogue of a user's Workspaces (\<open>list_workspaces\<close> and \<open>get_workspace\<close> of
  \<^verbatim>\<open>services/workspace.py\<close>) and the lifecycle above it (\<^verbatim>\<open>services/workspace_lifecycle.py\<close>): opening one
  Workspace closes the others of its user, closing is deferred while Analyses are active.

  \<open>access\<close> says whose \<^verbatim>\<open>access.json\<close> can be read, \<open>scan\<close> how the snapshot of an entry fails inspection, if it
  does. \<open>active\<close> is \<open>AnalysisExecutionRuntime.has_workspace_work\<close>. The gate of a user makes the calls of one
  user one after another.
\<close>

section \<open>The catalogue\<close>

datatype scan_failure = IncompatibleFormat int int | ConfiguredLimit | CorruptSnapshot

record unavailable_record =
  ua_id :: uuid
  ua_reason :: string
  ua_message :: string
  ua_stored :: "int option"
  ua_supported :: "int option"

datatype workspace_list_record = Available workspace_record | Unavailable unavailable_record

text \<open>\<open>str\<close> of an integer.\<close>

fun digits :: "nat \<Rightarrow> string" where
  "digits n = (if n < 10 then [char_of (48 + n)] else digits (n div 10) @ [char_of (48 + n mod 10)])"

declare digits.simps [simp del]

definition py_str :: "int \<Rightarrow> string" where
  "py_str n = (if n < 0 then ''-'' @ digits (nat (- n)) else digits (nat n))"

definition unavailable_of :: "uuid \<Rightarrow> scan_failure \<Rightarrow> unavailable_record" where
  "unavailable_of i failure = (case failure of
     IncompatibleFormat stored supported \<Rightarrow> \<lparr>ua_id = i, ua_reason = ''incompatible_format'',
       ua_message = ''Workspace format '' @ py_str stored @ '' is incompatible with supported format '' @
         py_str supported @ ''.'', ua_stored = Some stored, ua_supported = Some supported\<rparr>
   | ConfiguredLimit \<Rightarrow> \<lparr>ua_id = i, ua_reason = ''configured_limit'',
       ua_message = ''Workspace exceeds the configured limits.'', ua_stored = None, ua_supported = None\<rparr>
   | CorruptSnapshot \<Rightarrow> \<lparr>ua_id = i, ua_reason = ''corrupt_snapshot'',
       ua_message = ''Workspace data is corrupt.'', ua_stored = None, ua_supported = None\<rparr>)"

definition record_from_snapshot :: "'p disk_entry \<Rightarrow> runtime_state \<Rightarrow> workspace_record" where
  "record_from_snapshot d st = materialize_record (dk_workspace d) (dk_revision d) st"

definition inspection_failure :: "('p disk_entry \<Rightarrow> scan_failure option) \<Rightarrow> uuid \<Rightarrow> 'p disk_entry \<Rightarrow> scan_failure option" where
  "inspection_failure scan i d = (case scan d of
     Some failure \<Rightarrow> Some failure
   | None \<Rightarrow> if wk_id (dk_workspace d) \<noteq> i then Some CorruptSnapshot else None)"

definition scan_records ::
  "('p disk_entry \<Rightarrow> scan_failure option) \<Rightarrow> (uuid \<Rightarrow> bool) \<Rightarrow> string \<Rightarrow> (uuid, 'p disk_entry) dict \<Rightarrow>
     workspace_list_record list" where
  "scan_records scan access user disk =
     (let owned = filter (\<lambda>(i, d). access i \<and> dk_owner d = user) disk;
          records = map (\<lambda>(i, d). (record_from_snapshot d RuntimeClosed)\<lparr>wr_id := i\<rparr>)
            (filter (\<lambda>(i, d). inspection_failure scan i d = None) owned);
          unavailable = map (\<lambda>(i, d). unavailable_of i (the (inspection_failure scan i d)))
            (filter (\<lambda>(i, d). inspection_failure scan i d \<noteq> None) owned)
      in map Available (sort_key (\<lambda>r. - wr_modified_at r) (sort_key wr_id records)) @
         map Unavailable (sort_key ua_id unavailable))"

definition list_workspaces ::
  "('p disk_entry \<Rightarrow> scan_failure option) \<Rightarrow> (uuid \<Rightarrow> bool) \<Rightarrow> string \<Rightarrow> 'p workspace_service \<Rightarrow>
     workspace_list_record list" where
  "list_workspaces scan access user s =
     map (\<lambda>r. case r of
         Available w \<Rightarrow> Available (w\<lparr>wr_runtime_state := dict_get (runtime_states s) (wr_id w) RuntimeClosed\<rparr>)
       | Unavailable u \<Rightarrow> Unavailable u)
       (scan_records scan access user (wv_disk s))"

definition get_gated :: "'p op_env \<Rightarrow> string \<Rightarrow> uuid \<Rightarrow> 'p gated \<Rightarrow> workspace_record result \<times> 'p gated" where
  "get_gated env user i g = (case g of (slot, s) \<Rightarrow>
     if path_of env user i s = None then (Inl WorkspaceNotFoundError, g)
     else case oe_inspect env (map_of (wv_disk s) i) of
       Inl e \<Rightarrow> (Inl e, g)
     | Inr (d, _) \<Rightarrow> (Inr (record_from_snapshot d (slot_state slot)), g))"

definition get_workspace where
  "get_workspace env user i = with_slot i (get_gated env user i)"

section \<open>The lifecycle\<close>

fun close_siblings ::
  "(uuid \<Rightarrow> 'p op_env) \<Rightarrow> (string \<Rightarrow> uuid \<Rightarrow> bool) \<Rightarrow> string \<Rightarrow> uuid \<Rightarrow> workspace_list_record list \<Rightarrow>
     'p workspace_service \<Rightarrow> unit result \<times> 'p workspace_service" where
  "close_siblings closing active user i [] s = (Inr (), s)"
| "close_siblings closing active user i (Unavailable u # siblings) s = close_siblings closing active user i siblings s"
| "close_siblings closing active user i (Available w # siblings) s =
     (if wr_id w = i \<or> wr_runtime_state w \<noteq> RuntimeOpen then close_siblings closing active user i siblings s
      else case request_close (closing (wr_id w)) user (wr_id w) (active user (wr_id w)) s of
        (Inl e, s') \<Rightarrow> (Inl e, s')
      | (Inr _, s') \<Rightarrow> close_siblings closing active user i siblings s')"

definition lifecycle_open ::
  "'p op_env \<Rightarrow> ('p disk_entry \<Rightarrow> scan_failure option) \<Rightarrow> (uuid \<Rightarrow> bool) \<Rightarrow> (uuid \<Rightarrow> 'p op_env) \<Rightarrow>
     (string \<Rightarrow> uuid \<Rightarrow> bool) \<Rightarrow> 'p op_env \<Rightarrow> string \<Rightarrow> uuid \<Rightarrow> 'p workspace_service \<Rightarrow>
     workspace_record result \<times> 'p workspace_service" where
  "lifecycle_open looking scan access closing active opening user i s =
     (case get_workspace looking user i s of
        (Inl e, s1) \<Rightarrow> (Inl e, s1)
      | (Inr _, s1) \<Rightarrow>
          (case close_siblings closing active user i (list_workspaces scan access user s1) s1 of
             (Inl e, s2) \<Rightarrow> (Inl e, s2)
           | (Inr _, s2) \<Rightarrow> open_workspace opening user i s2))"

definition lifecycle_request_close where
  "lifecycle_request_close env active user i = request_close env user i (active user i)"

definition lifecycle_delete where
  "lifecycle_delete env cancelled deleted user i = deletion_context env user i cancelled deleted"

section \<open>What each step leaves alone\<close>

definition untouched :: "uuid set \<Rightarrow> 'p workspace_service \<Rightarrow> 'p workspace_service \<Rightarrow> bool" where
  "untouched js s s' \<longleftrightarrow> wv_disk s' = wv_disk s \<and> (\<forall>k. k \<notin> js \<longrightarrow> slot_of k s' = slot_of k s)"

lemma untouched_trans: "untouched js s s' \<Longrightarrow> untouched js' s' s'' \<Longrightarrow> untouched (js \<union> js') s s''"
  by (auto simp: untouched_def)

lemma untouched_mono: "untouched js s s' \<Longrightarrow> js \<subseteq> js' \<Longrightarrow> untouched js' s s'"
  by (auto simp: untouched_def)

lemma keep_slot_untouched:
  "same_frame s s' \<Longrightarrow> wv_disk s' = wv_disk s \<Longrightarrow> untouched {i} s (keep_slot i (slot, s'))"
  using keep_slot_frame [where i = i and slot = slot and s = s']
  by (auto simp: untouched_def slot_of_def dict_get_def same_frame_def)

lemma with_slot_untouched:
  assumes inv: "service_inv b s" and run: "with_slot i body s = (res, s')"
    and body: "\<And>slot' s1. body (slot_of i s, s) = (res, slot', s1) \<Longrightarrow>
      same_frame s s1 \<and> wv_disk s1 = wv_disk s \<and> slot_ok (wv_disk s1) i slot' \<and> P slot'"
  shows "untouched {i} s s' \<and> P (slot_of i s')"
proof -
  obtain slot' s1 where b: "body (slot_of i s, s) = (res, slot', s1)" "s' = keep_slot i (slot', s1)"
    using run by (auto simp: with_slot_def split: prod.splits)
  show ?thesis
    using body [OF b(1)] keep_slot_untouched [of s s1] keep_slot_frame(4) [of "wv_disk s1" i slot' s1]
    by (auto simp: b(2))
qed

lemma service_inv_slot: "service_inv b s \<Longrightarrow> slot_ok (wv_disk s) i (slot_of i s)"
  using enter_gate [of b s i] by (simp add: gate_ok_def)

lemma runtime_state_of:
  assumes "service_inv b s"
  shows "dict_get (runtime_states s) i RuntimeClosed = slot_state (slot_of i s)"
proof -
  have "filter (\<lambda>(i, slot). sl_workspace slot \<noteq> None) (wv_slots s) = wv_slots s"
    using assms by (auto simp: service_inv_def slots_ok_def map_of_eq_Some_iff intro!: filter_True)
  then have "map_of (runtime_states s) i =
      map_option (\<lambda>slot. if sl_closing slot then RuntimeClosing else RuntimeOpen) (map_of (wv_slots s) i)"
    by (simp add: runtime_states_def map_of_mapped)
  moreover have "map_of (wv_slots s) i = Some slot \<Longrightarrow> sl_workspace slot \<noteq> None" for slot
    using assms by (auto simp: service_inv_def slots_ok_def)
  ultimately show ?thesis
    by (auto simp: dict_get_def slot_of_def slot_state_def closed_slot_def split: option.splits)
qed

lemma get_workspace_untouched:
  assumes "service_inv b s" "get_workspace env user i s = (res, s')"
  shows "untouched {} s s' \<and> service_inv b s'"
proof -
  have "with_slot i (get_gated env user i) s = (res, s')" using assms(2) by (simp add: get_workspace_def)
  moreover have same: "get_gated env user i (slot_of i s, s) = (res, slot', s1) \<Longrightarrow> slot' = slot_of i s \<and> s1 = s" for slot' s1
    by (auto simp: get_gated_def split: if_splits sum.splits prod.splits)
  ultimately have s': "s' = keep_slot i (slot_of i s, s)" by (auto simp: with_slot_def split: prod.splits)
  then have "wv_slots s' = wv_slots s" "wv_disk s' = wv_disk s"
    using same_slots [OF assms(1), of i] by (simp_all add: keep_slot_frame(1))
  moreover have "service_inv b s'" unfolding s' by (rule leave_gate [OF enter_gate [OF assms(1)]])
  ultimately show ?thesis by (simp add: untouched_def slot_of_def)
qed

lemma request_close_closes:
  assumes "service_inv b s" "request_close env user i active s = (res, s')"
  shows "untouched {i} s s' \<and> ((\<exists>x. res = Inr x) \<or> slot_state (slot_of i s) \<noteq> RuntimeOpen \<longrightarrow>
    slot_state (slot_of i s') \<noteq> RuntimeOpen)"
  using assms(2) unfolding request_close_def
proof (rule with_slot_untouched [OF assms(1)])
  fix slot' s1
  assume run: "close_gated env user i active (slot_of i s, s) = (res, slot', s1)"
  obtain slot2 s2 where clear: "clear_slot (slot_of i s, s) = (slot2, s2)" by (metis surj_pair)
  have closed: "slot2 = closed_slot" "same_frame s s2" "wv_disk s2 = wv_disk s"
    using clear clear_slot_frame [OF clear] by (auto simp: clear_slot_def)
  have "gate_ok b i (slot', s1)" by (rule close_gated_ok [OF enter_gate [OF assms(1)] run])
  then have "slot_ok (wv_disk s1) i slot'" by (simp add: gate_ok_def)
  then show "same_frame s s1 \<and> wv_disk s1 = wv_disk s \<and> slot_ok (wv_disk s1) i slot' \<and>
      ((\<exists>x. res = Inr x) \<or> slot_state (slot_of i s) \<noteq> RuntimeOpen \<longrightarrow> slot_state slot' \<noteq> RuntimeOpen)"
    using run clear closed
    by (auto simp: close_gated_def publish_events_def slot_state_def closed_slot_def same_frame_def
        split: option.splits if_splits)
qed

lemma load_slot_opens:
  assumes "load_slot env i (slot, s) = (res, slot', s')"
  shows "same_frame s s' \<and> wv_disk s' = wv_disk s \<and> ((\<exists>x. res = Inr x) \<longrightarrow> slot_state slot' = RuntimeOpen)"
proof (cases "oe_inspect env (map_of (wv_disk s) i)")
  case (Inl e)
  then show ?thesis using assms by (auto simp: load_slot_def)
next
  case (Inr p)
  obtain seen n where p: "p = (seen, n)" by (cases p)
  obtain res1 s1 where r1: "reserve_open_capacity n s = (res1, s1)" by (metis surj_pair)
  have f1: "same_frame s s1" "wv_disk s1 = wv_disk s"
    by (cases rule: reserve_open_capacity_cases [OF r1]; simp)+
  show ?thesis
  proof (cases "res1 = Inr () \<and> (\<exists>d. oe_load env (map_of (wv_disk s) i) = Inr d)")
    case False
    then show ?thesis using assms Inr p r1 f1
      by (cases "oe_load env (map_of (wv_disk s) i)") (auto simp: load_slot_def split: sum.splits)
  next
    case True
    then obtain d where d: "oe_load env (map_of (wv_disk s) i) = Inr d" "res1 = Inr ()" by blast
    obtain res2 s2 where adj: "(if dk_bytes d > n then reserve_open_capacity (dk_bytes d - n) s1
        else (Inr (), release_open_capacity (n - dk_bytes d) s1)) = (res2, s2)" by (metis surj_pair)
    have "same_frame s s2" "wv_disk s2 = wv_disk s"
      using adjust_capacity(3,4) [OF adj] f1 by (auto intro: same_frame_trans)
    then show ?thesis
      using assms Inr p r1 d adj
      by (cases res2) (auto simp: load_slot_def slot_state_def fill_slot_def split: if_splits)
  qed
qed

lemma open_workspace_opens:
  assumes inv: "service_inv b s" and env: "store_ok env" and run: "open_workspace env user i s = (res, s')"
  shows "untouched {i} s s' \<and> ((\<exists>x. res = Inr x) \<longrightarrow> slot_state (slot_of i s') = RuntimeOpen)"
proof (cases "wv_accepting s")
  case False
  then show ?thesis using run by (auto simp: open_workspace_def untouched_def)
next
  case True
  obtain res1 s1 where r1: "with_slot i (open_gated env user i) s = (res1, s1)" by (metis surj_pair)
  have "untouched {i} s s1 \<and> ((\<exists>x. res1 = Inr x) \<longrightarrow> slot_state (slot_of i s1) = RuntimeOpen)"
    using r1
  proof (rule with_slot_untouched [OF inv])
    fix slot' t
    assume o: "open_gated env user i (slot_of i s, s) = (res1, slot', t)"
    obtain slot2 s2 where clear: "clear_slot (slot_of i s, s) = (slot2, s2)" by (metis surj_pair)
    have ok: "slot_ok (wv_disk t) i slot'"
      using open_gated_ok [OF enter_gate [OF inv] env o] by (simp add: gate_ok_def)
    show "same_frame s t \<and> wv_disk t = wv_disk s \<and> slot_ok (wv_disk t) i slot' \<and>
        ((\<exists>x. res1 = Inr x) \<longrightarrow> slot_state slot' = RuntimeOpen)"
      using o ok load_slot_opens [of env i "slot_of i s" s res1 slot' t] clear clear_slot_frame [OF clear]
      by (auto simp: open_gated_def reopen_slot_def slot_state_def split: option.splits if_splits)
  qed
  moreover have "res = Inr x \<Longrightarrow> \<exists>y. res1 = Inr y" for x
    using run True r1 by (cases res1) (auto simp: open_workspace_def)
  moreover have "untouched {i} s1 s' \<and> slot_of i s' = slot_of i s1"
    using run True r1
    by (cases res1) (auto simp: open_workspace_def untouched_def publish_events_def slot_of_def split: if_splits)
  ultimately show ?thesis using untouched_trans [of "{i}" s s1 "{i}" s'] by auto
qed

text \<open>The siblings named in the list are not open any more, and the rest is as before.\<close>

definition sibling_ids :: "uuid \<Rightarrow> workspace_list_record list \<Rightarrow> uuid set" where
  "sibling_ids i siblings = {j. j \<noteq> i \<and> (\<exists>w. Available w \<in> set siblings \<and> wr_id w = j)}"

lemma sibling_ids_simps [simp]:
  "sibling_ids i [] = {}" "sibling_ids i (Unavailable u # siblings) = sibling_ids i siblings"
  "sibling_ids i (Available w # siblings) = ({wr_id w} - {i}) \<union> sibling_ids i siblings"
  by (auto simp: sibling_ids_def)

lemma close_siblings_spec:
  assumes "service_inv b s" "close_siblings closing active user i siblings s = (res, s')"
  shows "service_inv b s' \<and> untouched (sibling_ids i siblings) s s' \<and>
    (\<forall>j. slot_state (slot_of j s) \<noteq> RuntimeOpen \<longrightarrow> slot_state (slot_of j s') \<noteq> RuntimeOpen) \<and>
    (\<forall>w. res = Inr () \<and> Available w \<in> set siblings \<and> wr_id w \<noteq> i \<and> wr_runtime_state w = RuntimeOpen \<longrightarrow>
       slot_state (slot_of (wr_id w) s') \<noteq> RuntimeOpen)"
  using assms
proof (induction siblings arbitrary: s)
  case Nil
  then show ?case by (simp add: untouched_def)
next
  case (Cons r siblings)
  show ?case
  proof (cases r)
    case (Unavailable u)
    then show ?thesis using Cons by simp
  next
    case (Available w)
    let ?j = "wr_id w"
    show ?thesis
    proof (cases "?j = i \<or> wr_runtime_state w \<noteq> RuntimeOpen")
      case True
      then have "close_siblings closing active user i siblings s = (res, s')" using Cons.prems(2) Available by simp
      from Cons.IH [OF Cons.prems(1) this] show ?thesis using True Available by (auto simp: untouched_def)
    next
      case False
      obtain res1 s1 where r1: "request_close (closing ?j) user ?j (active user ?j) s = (res1, s1)"
        by (metis surj_pair)
      have inv1: "service_inv b s1" by (rule request_close_inv [OF Cons.prems(1) r1])
      have one: "untouched {?j} s s1" "(\<exists>x. res1 = Inr x) \<or> slot_state (slot_of ?j s) \<noteq> RuntimeOpen \<longrightarrow>
          slot_state (slot_of ?j s1) \<noteq> RuntimeOpen"
        using request_close_closes [OF Cons.prems(1) r1] by auto
      have kept: "slot_state (slot_of j s) \<noteq> RuntimeOpen \<longrightarrow> slot_state (slot_of j s1) \<noteq> RuntimeOpen" for j
        using one by (cases "j = ?j") (auto simp: untouched_def)
      show ?thesis
      proof (cases res1)
        case (Inl e)
        then show ?thesis
          using Cons.prems(2) Available False r1 inv1 kept untouched_mono [OF one(1)] by auto
      next
        case (Inr x)
        then have "close_siblings closing active user i siblings s1 = (res, s')"
          using Cons.prems(2) Available False r1 by simp
        note rest = Cons.IH [OF inv1 this]
        have "untouched (sibling_ids i (r # siblings)) s s'"
          using untouched_trans [OF one(1), of "sibling_ids i siblings" s'] rest Available False
          by (auto intro: untouched_mono)
        then show ?thesis using rest one(2) kept Available False Inr by auto
      qed
    qed
  qed
qed

lemma listed_sibling:
  assumes "map_of disk j = Some d" "wf_dict disk" "access j" "dk_owner d = user" "inspection_failure scan j d = None"
  shows "\<exists>w. Available w \<in> set (scan_records scan access user disk) \<and> wr_id w = j"
proof -
  have "(j, d) \<in> set (filter (\<lambda>(i, d). inspection_failure scan i d = None)
      (filter (\<lambda>(i, d). access i \<and> dk_owner d = user) disk))"
    using assms by (simp add: map_of_eq_Some_iff)
  then show ?thesis
    unfolding scan_records_def Let_def
    by (intro exI [of _ "(record_from_snapshot d RuntimeClosed)\<lparr>wr_id := j\<rparr>"]) (force simp: image_iff)
qed

lemma sibling_owned:
  assumes "Available w \<in> set (list_workspaces scan access user s)"
  shows "\<exists>d. map_of (wv_disk s) (wr_id w) \<noteq> None \<and> (wr_id w, d) \<in> set (wv_disk s) \<and> dk_owner d = user"
  using assms
  by (auto simp: list_workspaces_def scan_records_def Let_def map_of_eq_None_iff image_iff
      split: workspace_list_record.splits) force

lemma listed_runtime:
  assumes "Available w \<in> set (scan_records scan access user (wv_disk s))"
  shows "Available (w\<lparr>wr_runtime_state := dict_get (runtime_states s) (wr_id w) RuntimeClosed\<rparr>) \<in>
    set (list_workspaces scan access user s)"
  using assms unfolding list_workspaces_def by force

section \<open>Example\<close>

definition example_lifecycle :: "workspace_record result \<times> nat workspace_service" where
  "example_lifecycle = lifecycle_open (example_op 60) (\<lambda>d. None) (\<lambda>i. True) (\<lambda>i. example_op 60)
     (\<lambda>user i. False) (example_op 60) ''u'' ''b'' (snd example_opened)"

section \<open>Properties\<close>

text \<open>The siblings of the Workspace that is opened: all of the same user, and after the closing none of them is open.\<close>

lemma siblings_owned:
  assumes "untouched {} s s1" "wf_dict (wv_disk s)" "map_of (wv_disk s) j = Some d" "dk_owner d \<noteq> user"
  shows "j \<notin> sibling_ids i (list_workspaces scan access user s1)"
proof
  assume "j \<in> sibling_ids i (list_workspaces scan access user s1)"
  then obtain w where w: "Available w \<in> set (list_workspaces scan access user s1)" "wr_id w = j"
    by (auto simp: sibling_ids_def)
  from sibling_owned [OF w(1)] obtain d' where "(j, d') \<in> set (wv_disk s)" "dk_owner d' = user"
    using assms(1) w(2) by (auto simp: untouched_def)
  with assms(2-4) show False by (metis map_of_eq_Some_iff option.inject)
qed

lemma siblings_closed:
  assumes one: "untouched {} s s1" "service_inv b s1" and wf: "wf_dict (wv_disk s)"
    and run: "close_siblings closing active user i (list_workspaces scan access user s1) s1 = (Inr (), s2)"
    and j: "map_of (wv_disk s) j = Some d" "dk_owner d = user" "j \<noteq> i"
    and seen: "slot_state (slot_of j s) = RuntimeOpen \<Longrightarrow> access j \<and> inspection_failure scan j d = None"
  shows "slot_state (slot_of j s2) \<noteq> RuntimeOpen"
proof (cases "slot_state (slot_of j s1) = RuntimeOpen")
  case True
  then have "access j" "inspection_failure scan j d = None"
    using seen one(1) by (auto simp: untouched_def)
  then obtain w where w: "Available w \<in> set (scan_records scan access user (wv_disk s1))" "wr_id w = j"
    using listed_sibling [OF j(1) wf _ j(2)] one(1) by (auto simp: untouched_def)
  let ?w = "w\<lparr>wr_runtime_state := dict_get (runtime_states s1) (wr_id w) RuntimeClosed\<rparr>"
  have "Available ?w \<in> set (list_workspaces scan access user s1)" "wr_id ?w = j" "wr_runtime_state ?w = RuntimeOpen"
    using listed_runtime [OF w(1)] w(2) True runtime_state_of [OF one(2), of j] by simp_all
  with close_siblings_spec [OF one(2) run] j(3) show ?thesis by blast
next
  case False
  with close_siblings_spec [OF one(2) run] show ?thesis by blast
qed



end
