(* ===== verification/LineageOrder.thy ===== *)
theory LineageOrder
  imports Prelude
begin

text \<open>
  The search for cycles in the lineage of a snapshot's Data Blocks. \<open>_snapshot_info\<close> and \<open>_read_workspace\<close> of
  \<^verbatim>\<open>infrastructure/storage/workspace_store.py\<close> contain the same loop: every block whose parents have all
  been visited is ready, visiting a block takes one from the indegree of its children, and the lineage has a
  cycle if and only if some block is never visited.

  \<open>ordered_ids\<close> are the identifiers in the order of the loop that fills the queue, and \<open>parents\<close> is the dictionary
  \<open>parents_by_node\<close>.
\<close>

section \<open>The code\<close>

definition append_child :: "uuid \<Rightarrow> uuid \<Rightarrow> (uuid, uuid list) dict \<Rightarrow> (uuid, uuid list) dict" where
  "append_child child p children = AList.update p (dict_get children p [] @ [child]) children"

definition index_children :: "uuid list \<Rightarrow> (uuid, uuid list) dict \<Rightarrow> (uuid, uuid list) dict" where
  "index_children ordered_ids parents =
     fold (\<lambda>(child, ps). fold (append_child child) ps) parents (map (\<lambda>i. (i, [])) ordered_ids)"

text \<open>\<open>indegree[child] -= 1\<close>, and the child becomes ready when that gives 0.\<close>

definition release_child ::
    "uuid \<Rightarrow> uuid list \<times> (uuid, int) dict \<Rightarrow> uuid list \<times> (uuid, int) dict" where
  "release_child child s =
     (let n = dict_get (snd s) child 0 - 1
      in (if n = 0 then fst s @ [child] else fst s, AList.update child n (snd s)))"

definition positive_count :: "(uuid, int) dict \<Rightarrow> nat" where
  "positive_count d = length (filter (\<lambda>(k, n). 0 < n) d)"

lemma positive_count_update:
  "positive_count (AList.update k n d) + (if 0 < dict_get d k 0 then 1 else 0) =
     positive_count d + (if 0 < n then 1 else 0)"
  by (induction d) (auto simp: positive_count_def dict_get_def)

lemma release_child_count:
  "length (fst (release_child c s)) + positive_count (snd (release_child c s)) \<le>
     length (fst s) + positive_count (snd s)"
  using positive_count_update [of c "dict_get (snd s) c 0 - 1" "snd s"]
  by (cases "dict_get (snd s) c 0 = 1") (auto simp: release_child_def Let_def split: if_splits)

lemma release_children_count:
  "length (fst (fold release_child cs s)) + positive_count (snd (fold release_child cs s)) \<le>
     length (fst s) + positive_count (snd s)"
  by (induction cs arbitrary: s) (use release_child_count order_trans in \<open>fastforce+\<close>)

text \<open>The loop. Only a block whose indegree falls from 1 to 0 is appended, so the queue and the blocks with
  positive indegree become fewer with every visit.\<close>

function visit_ready ::
    "(uuid, uuid list) dict \<Rightarrow> uuid list \<Rightarrow> (uuid, int) dict \<Rightarrow> uuid list \<Rightarrow> uuid list" where
  "visit_ready children [] indegree visited = visited"
| "visit_ready children (p # ready) indegree visited =
     (let s = fold release_child (dict_get children p []) (ready, indegree)
      in visit_ready children (fst s) (snd s) (visited @ [p]))"
  by pat_completeness auto

termination
proof (relation "measure (\<lambda>(children, ready, indegree, visited). length ready + positive_count indegree)")
  fix children ready indegree visited and p :: uuid and s
  assume "s = fold release_child (dict_get children p []) (ready, indegree)"
  with release_children_count [of "dict_get children p []" "(ready, indegree)"]
  show "((children, fst s, snd s, visited @ [p]), (children, p # ready, indegree, visited)) \<in>
      measure (\<lambda>(children, ready, indegree, visited). length ready + positive_count indegree)"
    by simp
qed simp

definition topological_ids :: "uuid list \<Rightarrow> (uuid, uuid list) dict \<Rightarrow> uuid list" where
  "topological_ids ordered_ids parents =
     (let indegree = map (\<lambda>i. (i, int (length (dict_get parents i [])))) ordered_ids
      in visit_ready (index_children ordered_ids parents)
           (filter (\<lambda>i. dict_get indegree i 0 = 0) ordered_ids) indegree [])"

text \<open>\<open>visited != len(ordered_ids)\<close>.\<close>

definition lineage_has_cycle :: "uuid list \<Rightarrow> (uuid, uuid list) dict \<Rightarrow> bool" where
  "lineage_has_cycle ordered_ids parents \<longleftrightarrow>
     length (topological_ids ordered_ids parents) \<noteq> length ordered_ids"

section \<open>The dictionaries\<close>

definition lineage_ok :: "uuid list \<Rightarrow> (uuid, uuid list) dict \<Rightarrow> bool" where
  "lineage_ok ordered_ids parents \<longleftrightarrow> distinct ordered_ids \<and> dict_keys parents = ordered_ids \<and>
     (\<forall>(i, ps) \<in> set parents. distinct ps \<and> set ps \<subseteq> set ordered_ids)"

lemma lineage_okD:
  assumes "lineage_ok ordered_ids parents"
  shows "distinct ordered_ids" "wf_dict parents" "dict_keys parents = ordered_ids"
    "(i, ps) \<in> set parents \<Longrightarrow> distinct ps \<and> set ps \<subseteq> set ordered_ids"
    "p \<in> set (dict_get parents c []) \<Longrightarrow> c \<in> set ordered_ids \<and> p \<in> set ordered_ids"
  using assms by (force simp: lineage_ok_def dict_get_list_mem dest!: map_of_SomeD)+

lemma index_children_lookup:
  assumes ok: "lineage_ok ordered_ids parents"
  shows "set (dict_get (index_children ordered_ids parents) p []) = {c. p \<in> set (dict_get parents c [])} \<and>
    distinct (dict_get (index_children ordered_ids parents) p [])"
proof -
  have one: "dict_get (fold (append_child child) ps d) p [] =
      dict_get d p [] @ (if p \<in> set ps then [child] else [])" if "distinct ps" for child ps d
    using that by (induction ps arbitrary: d) (auto simp: append_child_def)
  have "dict_get (fold (\<lambda>(child, ps). fold (append_child child) ps) parents d) p [] =
      dict_get d p [] @ map fst (filter (\<lambda>(c, ps). p \<in> set ps) parents)" for d
    using lineage_okD(4) [OF ok]
  proof (induction parents arbitrary: d)
    case (Cons e parents)
    obtain c ps where e: "e = (c, ps)" by (cases e)
    have "distinct ps" using Cons.prems [of c ps] by (simp add: e)
    moreover have "dict_get (fold (\<lambda>(child, ps). fold (append_child child) ps) parents
        (fold (append_child c) ps d)) p [] = dict_get (fold (append_child c) ps d) p [] @
        map fst (filter (\<lambda>(c, ps). p \<in> set ps) parents)"
      by (rule Cons.IH) (use Cons.prems in auto)
    ultimately show ?case by (simp add: e one)
  qed simp
  moreover have "dict_get (map (\<lambda>i. (i, [])) ordered_ids) p [] = ([] :: uuid list)"
    by (induction ordered_ids) (auto simp: dict_get_def)
  ultimately have eq: "dict_get (index_children ordered_ids parents) p [] =
      map fst (filter (\<lambda>(c, ps). p \<in> set ps) parents)"
    by (simp add: index_children_def)
  have "p \<in> set (dict_get parents c []) \<longleftrightarrow> (\<exists>ps. (c, ps) \<in> set parents \<and> p \<in> set ps)" for c
    using lineage_okD(2) [OF ok] by (auto simp: dict_get_list_mem map_of_eq_Some_iff)
  then show ?thesis
    unfolding eq using lineage_okD(2) [OF ok] by (force simp: distinct_map_filter)
qed

lemma release_children:
  assumes "distinct cs"
  shows "fst (fold release_child cs (ready, d)) = ready @ filter (\<lambda>c. dict_get d c 0 = 1) cs \<and>
    (\<forall>c. dict_get (snd (fold release_child cs (ready, d))) c 0 = dict_get d c 0 - (if c \<in> set cs then 1 else 0))"
  using assms
proof (induction cs arbitrary: ready d)
  case (Cons c cs)
  have "filter (\<lambda>x. dict_get (AList.update c (dict_get d c 0 - 1) d) x 0 = 1) cs =
      filter (\<lambda>x. dict_get d x 0 = 1) cs"
    using Cons.prems by (intro filter_cong) auto
  with Cons show ?case by (auto simp: release_child_def Let_def)
qed simp

section \<open>What the loop visits\<close>

definition lineage :: "uuid list \<Rightarrow> (uuid, uuid list) dict \<Rightarrow> (uuid \<times> uuid) set" where
  "lineage ordered_ids parents = {(c, p). c \<in> set ordered_ids \<and> p \<in> set (dict_get parents c [])}"

text \<open>Parents come before their children.\<close>

definition parents_before :: "(uuid, uuid list) dict \<Rightarrow> uuid list \<Rightarrow> bool" where
  "parents_before parents visited \<longleftrightarrow> (\<forall>xs c ys. visited = xs @ c # ys \<longrightarrow>
     set (dict_get parents c []) \<subseteq> set xs)"

definition visiting ::
    "uuid list \<Rightarrow> (uuid, uuid list) dict \<Rightarrow> uuid list \<Rightarrow> (uuid, int) dict \<Rightarrow> uuid list \<Rightarrow> bool" where
  "visiting ordered_ids parents ready indegree visited \<longleftrightarrow> distinct (visited @ ready) \<and>
     set (visited @ ready) = {c \<in> set ordered_ids. set (dict_get parents c []) \<subseteq> set visited} \<and>
     (\<forall>c \<in> set ordered_ids. dict_get indegree c 0 = int (card (set (dict_get parents c []) - set visited))) \<and>
     parents_before parents visited"

lemma parents_before_snoc:
  "parents_before parents (visited @ [p]) \<longleftrightarrow>
     parents_before parents visited \<and> set (dict_get parents p []) \<subseteq> set visited"
  unfolding parents_before_def
proof (intro iffI conjI allI impI)
  fix xs c ys assume a: "\<forall>xs c ys. visited @ [p] = xs @ c # ys \<longrightarrow> set (dict_get parents c []) \<subseteq> set xs"
    and "visited = xs @ c # ys"
  then have "visited @ [p] = xs @ c # (ys @ [p])" by simp
  with a show "set (dict_get parents c []) \<subseteq> set xs" by blast
next
  fix xs c ys
  assume a: "(\<forall>xs c ys. visited = xs @ c # ys \<longrightarrow> set (dict_get parents c []) \<subseteq> set xs) \<and>
      set (dict_get parents p []) \<subseteq> set visited" and e: "visited @ [p] = xs @ c # ys"
  show "set (dict_get parents c []) \<subseteq> set xs"
    using a e by (cases ys rule: rev_cases) auto
qed blast

lemma visiting_step:
  assumes ok: "lineage_ok ordered_ids parents"
    and v: "visiting ordered_ids parents (p # ready) indegree visited"
    and s: "s = fold release_child (dict_get (index_children ordered_ids parents) p []) (ready, indegree)"
  shows "visiting ordered_ids parents (fst s) (snd s) (visited @ [p])"
proof -
  let ?P = "\<lambda>c. set (dict_get parents c [])" and ?cs = "dict_get (index_children ordered_ids parents) p []"
  note cs = index_children_lookup [OF ok, of p]
  have V: "set (visited @ p # ready) = {c \<in> set ordered_ids. ?P c \<subseteq> set visited}"
    and dist: "distinct (visited @ p # ready)" and before: "parents_before parents visited"
    and ind: "\<And>c. c \<in> set ordered_ids \<Longrightarrow> dict_get indegree c 0 = int (card (?P c - set visited))"
    using v by (simp_all add: visiting_def)
  have csN: "set ?cs \<subseteq> set ordered_ids"
    using cs lineage_okD(5) [OF ok, of p] by blast
  have pV: "p \<notin> set visited" using dist by simp
  have new: "c \<notin> set (visited @ p # ready)" if "c \<in> set ?cs" for c
    using that cs pV unfolding V by auto
  note r = release_children [OF conjunct2 [OF cs], of ready indegree, folded s]
  have card: "card (?P c - set (visited @ [p])) = card (?P c - set visited) - (if c \<in> set ?cs then 1 else 0)"
    "c \<in> set ?cs \<Longrightarrow> 0 < card (?P c - set visited)" for c
  proof -
    have "?P c - set (visited @ [p]) = (?P c - set visited) - {p}" by auto
    then show "card (?P c - set (visited @ [p])) = card (?P c - set visited) - (if c \<in> set ?cs then 1 else 0)"
      using cs pV by simp
    show "0 < card (?P c - set visited)" if "c \<in> set ?cs"
      using that cs pV by (auto simp: card_gt_0_iff)
  qed
  have ind': "dict_get (snd s) c 0 = int (card (?P c - set (visited @ [p])))" if "c \<in> set ordered_ids" for c
    using r ind [OF that] card [of c] by auto
  have zero: "dict_get indegree c 0 = 1 \<longleftrightarrow> ?P c \<subseteq> set (visited @ [p])" if "c \<in> set ?cs" for c
  proof -
    have "dict_get indegree c 0 = 1 \<longleftrightarrow> card (?P c - set (visited @ [p])) = 0"
      using ind [of c] card [of c] that csN by auto
    also have "\<dots> \<longleftrightarrow> ?P c - set (visited @ [p]) = {}" by (simp del: set_append)
    finally show ?thesis by blast
  qed
  have cover: "c \<in> set ?cs" if "\<not> ?P c \<subseteq> set visited" "?P c \<subseteq> set (visited @ [p])" for c
    using that cs by auto
  have "set ((visited @ [p]) @ fst s) = set (visited @ p # ready) \<union> {c \<in> set ?cs. dict_get indegree c 0 = 1}"
    using r by auto
  also have "\<dots> = {c \<in> set ordered_ids. ?P c \<subseteq> set (visited @ [p])}"
    unfolding V using zero cover csN by auto
  finally have "set ((visited @ [p]) @ fst s) = {c \<in> set ordered_ids. ?P c \<subseteq> set (visited @ [p])}" .
  moreover have "distinct ((visited @ [p]) @ fst s)"
    using dist new r conjunct2 [OF cs] by auto
  moreover have "parents_before parents (visited @ [p])"
    using before V by (auto simp: parents_before_snoc)
  ultimately show ?thesis using ind' by (simp add: visiting_def)
qed


lemma visiting_init:
  assumes ok: "lineage_ok ordered_ids parents"
    and i: "indegree = map (\<lambda>i. (i, int (length (dict_get parents i [])))) ordered_ids"
  shows "visiting ordered_ids parents (filter (\<lambda>i. dict_get indegree i 0 = 0) ordered_ids) indegree []"
proof -
  have d: "dict_get indegree c 0 = int (length (dict_get parents c []))" if "c \<in> set ordered_ids" for c
    using that unfolding i by (induction ordered_ids) (auto simp: dict_get_def)
  have "distinct (dict_get parents c [])" for c
    using lineage_okD(4) [OF ok, of c] by (auto simp: dict_get_def split: option.splits dest: map_of_SomeD)
  with d lineage_okD(1) [OF ok] show ?thesis
    by (auto simp: visiting_def parents_before_def distinct_card)
qed

lemma visit_ready_spec:
  assumes "lineage_ok ordered_ids parents" "children = index_children ordered_ids parents"
    "visiting ordered_ids parents ready indegree visited"
  shows "\<exists>indegree'. visiting ordered_ids parents [] indegree' (visit_ready children ready indegree visited)"
  using assms
  by (induction children ready indegree visited rule: visit_ready.induct)
    (auto simp: Let_def intro: visiting_step [OF _ _ refl])

text \<open>The loop visits blocks of the snapshot, each once, parents first, and stops only when every block that
  is left has a parent that is left.\<close>

lemma topological_ids_visited:
  assumes ok: "lineage_ok ordered_ids parents"
  shows "distinct (topological_ids ordered_ids parents)"
    "set (topological_ids ordered_ids parents) =
       {c \<in> set ordered_ids. set (dict_get parents c []) \<subseteq> set (topological_ids ordered_ids parents)}"
    "parents_before parents (topological_ids ordered_ids parents)"
  using visit_ready_spec [OF ok refl visiting_init [OF ok refl]]
  unfolding topological_ids_def Let_def visiting_def append_Nil2 by blast+

lemma finite_lineage: "finite (lineage ordered_ids parents)"
proof (rule finite_subset)
  show "lineage ordered_ids parents \<subseteq> (SIGMA c:set ordered_ids. set (dict_get parents c []))"
    by (auto simp: lineage_def)
qed simp

text \<open>An order with parents first is a rank, so there is no cycle.\<close>

lemma ranked_acyclic:
  assumes "parents_before parents visited" "set ordered_ids \<subseteq> set visited" "distinct visited"
  shows "acyclic (lineage ordered_ids parents)"
proof -
  let ?rank = "\<lambda>c. length (takeWhile (\<lambda>x. x \<noteq> c) visited)"
  have less: "?rank p < ?rank c" if e: "(c, p) \<in> lineage ordered_ids parents" for c p
  proof -
    have c: "c \<in> set visited" "p \<in> set (dict_get parents c [])" using e assms(2) by (auto simp: lineage_def)
    obtain xs ys where v: "visited = xs @ c # ys" using split_list [OF c(1)] by blast
    then have "set (dict_get parents c []) \<subseteq> set xs" using assms(1) unfolding parents_before_def by blast
    then have p: "p \<in> set xs" using c(2) by blast
    have "c \<notin> set xs" using assms(3) by (simp add: v)
    then have "?rank c = length xs"
      unfolding v by (subst takeWhile_append2) auto
    moreover have "takeWhile (\<lambda>x. x \<noteq> p) visited = takeWhile (\<lambda>x. x \<noteq> p) xs"
      unfolding v using p by (intro takeWhile_append1) auto
    moreover have "length (takeWhile (\<lambda>x. x \<noteq> p) xs) < length xs"
      using p by (induction xs) auto
    ultimately show ?thesis by simp
  qed
  have "?rank y < ?rank x" if "(x, y) \<in> (lineage ordered_ids parents)\<^sup>+" for x y
    using that by (induction rule: trancl_induct) (auto dest: less)
  then show ?thesis by (auto simp: acyclic_def)
qed

text \<open>The test finds a cycle if and only if there is one, and without a cycle the visited blocks are all
  blocks, parents first.\<close>

lemma lineage_has_cycle_iff:
  assumes ok: "lineage_ok ordered_ids parents"
  shows "lineage_has_cycle ordered_ids parents \<longleftrightarrow> \<not> acyclic (lineage ordered_ids parents)"
    "acyclic (lineage ordered_ids parents) \<Longrightarrow> mset (topological_ids ordered_ids parents) = mset ordered_ids"
proof -
  let ?E = "lineage ordered_ids parents" and ?v = "topological_ids ordered_ids parents"
  note v = topological_ids_visited [OF ok]
  have all: "set ?v = set ordered_ids" if ac: "acyclic ?E"
  proof -
    have "c \<in> set ordered_ids \<longrightarrow> c \<in> set ?v" for c
    proof (induction c rule: wf_induct [OF finite_acyclic_wf_converse [OF finite_lineage ac]])
      case (1 c)
      then have "set (dict_get parents c []) \<subseteq> set ?v" if "c \<in> set ordered_ids"
        using that lineage_okD(5) [OF ok] by (auto simp: lineage_def)
      then show ?case using v(2) by blast
    qed
    then show ?thesis using v(2) by blast
  qed
  then show m: "acyclic ?E \<Longrightarrow> mset ?v = mset ordered_ids"
    using v(1) lineage_okD(1) [OF ok] by (simp add: set_eq_iff_mset_eq_distinct)
  show "lineage_has_cycle ordered_ids parents \<longleftrightarrow> \<not> acyclic ?E"
  proof
    assume "lineage_has_cycle ordered_ids parents"
    then show "\<not> acyclic ?E" using m by (auto simp: lineage_has_cycle_def dest: mset_eq_length)
  next
    assume ac: "\<not> acyclic ?E"
    have "set ?v \<subseteq> set ordered_ids" using v(2) by blast
    moreover have "set ?v \<noteq> set ordered_ids" using ranked_acyclic [OF v(3) _ v(1)] ac by blast
    ultimately have "card (set ?v) < card (set ordered_ids)" by (intro psubset_card_mono) auto
    then show "lineage_has_cycle ordered_ids parents"
      using v(1) lineage_okD(1) [OF ok] by (simp add: lineage_has_cycle_def distinct_card)
  qed
qed

end
