(* ===== verification/FileTree.thy ===== *)
theory FileTree
  imports Prelude "HOL-Library.Sublist"
begin

text \<open>
  The directory of one Workspace as the code sees it through \<^verbatim>\<open>pathlib\<close>, \<^verbatim>\<open>shutil\<close> and \<^verbatim>\<open>os\<close>: what
  \<^verbatim>\<open>infrastructure/storage/workspace_store.py\<close> uses of the standard library.

  A path is the list of its parts below the Workspace; the tree is a dictionary from paths to entries. The
  contents of directories behind symbolic links are outside the tree. Deletions are values, \<open>fs_action\<close>, so
  that a deletion that stops half way is a prefix of a list.
\<close>

section \<open>The tree\<close>

type_synonym path = "string list"

datatype link_target = ToDir | ToFile path | Broken

datatype entry = File string | Dir | Link link_target

type_synonym file_tree = "(path, entry) dict"

definition entry_at :: "file_tree \<Rightarrow> path \<Rightarrow> entry option" where
  "entry_at t p = (if p = [] then Some Dir else map_of t p)"

text \<open>Every entry lies in a directory.\<close>

definition tree_ok :: "file_tree \<Rightarrow> bool" where
  "tree_ok t \<longleftrightarrow> wf_dict t \<and> (\<forall>p e. map_of t p = Some e \<longrightarrow> p \<noteq> [] \<and> entry_at t (butlast p) = Some Dir)"

lemma tree_okI:
  "wf_dict t \<Longrightarrow> (\<And>p e. map_of t p = Some e \<Longrightarrow> p \<noteq> [] \<and> entry_at t (butlast p) = Some Dir) \<Longrightarrow> tree_ok t"
  by (simp add: tree_ok_def)

lemma tree_okD:
  assumes "tree_ok t"
  shows "wf_dict t" "map_of t p = Some e \<Longrightarrow> p \<noteq> []" "map_of t p = Some e \<Longrightarrow> entry_at t (butlast p) = Some Dir"
  using assms by (simp_all add: tree_ok_def)

text \<open>The same, computed.\<close>

definition tree_check :: "file_tree \<Rightarrow> bool" where
  "tree_check t \<longleftrightarrow> wf_dict t \<and> list_all (\<lambda>(p, e). p \<noteq> [] \<and> entry_at t (butlast p) = Some Dir) t"

lemma tree_ok_check: "tree_check t \<Longrightarrow> tree_ok t"
  by (auto simp: tree_check_def tree_ok_def list_all_iff dest!: map_of_SomeD)

text \<open>\<open>path.iterdir()\<close>: the names in a directory.\<close>

definition names_in :: "file_tree \<Rightarrow> path \<Rightarrow> string list" where
  "names_in t p = map last (filter (\<lambda>q. q \<noteq> [] \<and> butlast q = p) (dict_keys t))"

text \<open>\<open>path.exists()\<close> follows links, \<open>path.is_dir() and not path.is_symlink()\<close> does not.\<close>

definition path_exists :: "file_tree \<Rightarrow> path \<Rightarrow> bool" where
  "path_exists t p \<longleftrightarrow> entry_at t p \<notin> {None, Some (Link Broken)}"

definition plain_dir :: "file_tree \<Rightarrow> path \<Rightarrow> bool" where
  "plain_dir t p \<longleftrightarrow> entry_at t p = Some Dir"

lemma names_in_iff: "n \<in> set (names_in t p) \<longleftrightarrow> map_of t (p @ [n]) \<noteq> None"
proof -
  have "q \<noteq> [] \<and> butlast q = p \<and> last q = n \<longleftrightarrow> q = p @ [n]" for q :: path
    by (metis append_butlast_last_id butlast_snoc last_snoc snoc_eq_iff_butlast)
  then have "n \<in> set (names_in t p) \<longleftrightarrow> p @ [n] \<in> fst ` set t"
    unfolding names_in_def by (fastforce simp: image_iff)
  then show ?thesis using map_of_None_iff_keys [of t "p @ [n]"] by simp
qed

lemma tree_prefix_dir:
  assumes "tree_ok t" "map_of t q = Some e" "strict_prefix p q"
  shows "entry_at t p = Some Dir"
  using assms(2,3)
proof (induction q arbitrary: e rule: rev_induct)
  case (snoc x q)
  then have d: "entry_at t q = Some Dir" using assms(1) by (fastforce simp: tree_ok_def)
  from snoc.prems(2) have "p = q \<or> strict_prefix p q" by (auto simp: strict_prefix_def)
  then show ?case
  proof
    assume s: "strict_prefix p q"
    then have "q \<noteq> []" by auto
    with d have "map_of t q = Some Dir" by (simp add: entry_at_def)
    from snoc.IH [OF this s] show ?thesis .
  qed (use d in simp)
qed simp

section \<open>Deletions\<close>

text \<open>\<open>path.unlink(missing_ok=True)\<close>, \<open>shutil.rmtree(path, ignore_errors=True)\<close> and a \<open>path.rmdir()\<close> whose
  \<open>OSError\<close> is ignored.\<close>

datatype fs_action = Unlink path | Rmtree path | Rmdir path

definition has_entries :: "file_tree \<Rightarrow> path \<Rightarrow> bool" where
  "has_entries t p \<longleftrightarrow> (\<exists>q \<in> set (dict_keys t). strict_prefix p q)"

fun perform :: "fs_action \<Rightarrow> file_tree \<Rightarrow> file_tree" where
  "perform (Unlink p) t = AList.delete p t"
| "perform (Rmtree p) t = filter (\<lambda>(q, e). \<not> prefix p q) t"
| "perform (Rmdir p) t = (if plain_dir t p \<and> \<not> has_entries t p then AList.delete p t else t)"

lemma map_of_filter_keys:
  "map_of (filter (\<lambda>(q, e). P q) t) q = (if P q then map_of t q else None)"
  by (induction t) auto

lemma map_of_perform_Rmtree:
  "map_of (perform (Rmtree p) t) q = (if prefix p q then None else map_of t q)"
  by (simp add: map_of_filter_keys [of "\<lambda>q. \<not> prefix p q" t q, simplified case_prod_unfold] case_prod_unfold)

text \<open>A deletion touches a path only if the path is at or below its own.\<close>

fun action_path :: "fs_action \<Rightarrow> path" where
  "action_path (Unlink p) = p" | "action_path (Rmtree p) = p" | "action_path (Rmdir p) = p"

fun spares :: "path \<Rightarrow> fs_action \<Rightarrow> bool" where
  "spares q (Unlink p) \<longleftrightarrow> \<not> prefix p q"
| "spares q (Rmtree p) \<longleftrightarrow> \<not> prefix p q"
| "spares q (Rmdir p) \<longleftrightarrow> p \<noteq> q"

lemma perform_spares:
  assumes "spares q a" "map_of t q \<noteq> None" "prefix r q"
  shows "map_of (perform a t) r = map_of t r"
proof (cases a)
  case (Unlink p)
  then have "r \<noteq> p" using assms(1,3) by auto
  then show ?thesis by (simp add: Unlink delete_conv')
next
  case (Rmtree p)
  then have "\<not> prefix p r" using assms(1,3) prefix_order.trans by auto
  then show ?thesis by (simp only: Rmtree map_of_perform_Rmtree if_False)
next
  case (Rmdir p)
  have "has_entries t p" if "r = p"
    using that assms Rmdir map_of_None_iff_keys [of t q]
    by (auto simp: has_entries_def strict_prefix_def)
  then show ?thesis by (auto simp: Rmdir delete_conv')
qed

lemma fold_perform_spares:
  assumes "\<And>a. a \<in> set acts \<Longrightarrow> spares q a" "map_of t q \<noteq> None" "prefix r q"
  shows "map_of (fold perform acts t) r = map_of t r"
  using assms
proof (induction acts arbitrary: t)
  case (Cons a acts)
  have "map_of (perform a t) q = map_of t q" "map_of (perform a t) r = map_of t r"
    using perform_spares [of q a t] Cons.prems by auto
  with Cons.IH [of "perform a t"] Cons.prems show ?case by simp
qed simp

text \<open>Deletions add nothing.\<close>

lemma perform_decreases: "map_of (perform a t) r = Some e \<Longrightarrow> map_of t r = Some e"
  by (cases a) (auto simp: delete_conv' map_of_perform_Rmtree simp del: perform.simps(2) split: if_splits)

lemma fold_perform_decreases: "map_of (fold perform acts t) r = Some e \<Longrightarrow> map_of t r = Some e"
  by (induction acts arbitrary: t) (auto dest: perform_decreases)

lemma perform_removes:
  "map_of (perform (Unlink p) t) p = None"
  "prefix p q \<Longrightarrow> map_of (perform (Rmtree p) t) q = None"
  by (simp add: delete_conv', simp only: map_of_perform_Rmtree if_True)

lemma fold_perform_removes:
  assumes "a \<in> set acts" "a = Unlink q \<or> (\<exists>p. a = Rmtree p \<and> prefix p q)"
  shows "map_of (fold perform acts t) q = None"
proof -
  obtain xs ys where acts: "acts = xs @ a # ys" using split_list [OF assms(1)] by blast
  have "map_of (perform a (fold perform xs t)) q = None"
    using assms(2) perform_removes by metis
  then show ?thesis
    using fold_perform_decreases [of ys "perform a (fold perform xs t)" q]
    by (cases "map_of (fold perform acts t) q") (auto simp: acts)
qed

lemma perform_elsewhere:
  "\<not> prefix (action_path a) r \<Longrightarrow> map_of (perform a t) r = map_of t r"
  by (cases a) (auto simp: delete_conv' map_of_perform_Rmtree simp del: perform.simps(2))

lemma fold_perform_elsewhere:
  "(\<And>a. a \<in> set acts \<Longrightarrow> \<not> prefix (action_path a) r) \<Longrightarrow> map_of (fold perform acts t) r = map_of t r"
  by (induction acts arbitrary: t) (simp_all add: perform_elsewhere)

end
