(* ===== verification/SnapshotMetadata.thy ===== *)
theory SnapshotMetadata
  imports LineageOrder FileTree PortableNames Provenance
begin

text \<open>
  The metadata file of a Workspace snapshot: \<open>_read_workspace_metadata\<close>, \<open>_tab_references\<close>,
  \<open>_analysis_references\<close> and \<open>WorkspaceStore._snapshot_info\<close> of
  \<^verbatim>\<open>infrastructure/storage/workspace_store.py\<close>.

  A payload is the value that \<open>json.load\<close> returns. What the code asks of libraries is a field of
  \<open>decoders\<close>: \<open>str(uuid.UUID(.))\<close>, \<open>datetime.fromisoformat\<close> (the instant and the UTC offset) and the
  parser of provenance values. All errors of a wrong payload are caught together, so their messages are
  short here.
\<close>

section \<open>JSON values\<close>

datatype jval = JNull | JBool bool | JInt int | JFloat py_float | JStr string | JList "jval list"
  | JObj "(string \<times> jval) list"

text \<open>\<open>value.get(key)\<close> and \<open>value[key]\<close>.\<close>

fun jget :: "jval \<Rightarrow> string \<Rightarrow> jval" where
  "jget (JObj d) key = dict_get d key JNull"
| "jget _ key = JNull"

fun jitem :: "jval \<Rightarrow> string \<Rightarrow> jval result" where
  "jitem (JObj d) key = (case map_of d key of None \<Rightarrow> Inl (KeyError key) | Some v \<Rightarrow> Inr v)"
| "jitem _ key = Inl (TypeError ''indices'')"

fun jkeys :: "jval \<Rightarrow> string set" where
  "jkeys (JObj d) = fst ` set d"
| "jkeys _ = {}"

text \<open>\<open>value == n\<close>: a boolean and a float equal the integer of the same value.\<close>

fun jequals :: "jval \<Rightarrow> int \<Rightarrow> bool" where
  "jequals (JInt k) n \<longleftrightarrow> k = n"
| "jequals (JFloat f) n \<longleftrightarrow> f = Fin (of_int n)"
| "jequals (JBool b) n \<longleftrightarrow> (if b then 1 else 0) = n"
| "jequals _ n \<longleftrightarrow> False"

record decoders =
  cd_uuid :: "string \<Rightarrow> uuid result"
  cd_time :: "string \<Rightarrow> (timestamp \<times> int option) result"
  cd_provenance :: "jval \<Rightarrow> provenance result"

fun invalid_value :: "error \<Rightarrow> bool" where
  "invalid_value (ValueError _) \<longleftrightarrow> True"
| "invalid_value (KeyError _) \<longleftrightarrow> True"
| "invalid_value (TypeError _) \<longleftrightarrow> True"
| "invalid_value _ \<longleftrightarrow> False"

section \<open>The envelope\<close>

definition WORKSPACE_SCHEMA_VERSION :: int where
  "WORKSPACE_SCHEMA_VERSION = 17"

definition ENVELOPE_FIELDS :: "string set" where
  "ENVELOPE_FIELDS = {''workspace_metadata'', ''nodes'', ''tabs'', ''analyses''}"

definition METADATA_FIELDS :: "string set" where
  "METADATA_FIELDS = {''id'', ''name'', ''version'', ''description'', ''created_at'', ''modified_at'', ''revision''}"

section \<open>References to records\<close>

text \<open>\<open>Path(name).suffix\<close>: leading dots do not count.\<close>

definition path_suffix :: "string \<Rightarrow> string" where
  "path_suffix name = (let stem = dropWhile (\<lambda>c. c = CHR ''.'') name
     in if CHR ''.'' \<in> set stem then CHR ''.'' # last (py_split (CHR ''.'') stem) else [])"

text \<open>One turn of the loop: \<open>field\<close> is both the field of the payload and the directory of the records.\<close>

definition scan_reference ::
    "'x decoders_scheme \<Rightarrow> string \<Rightarrow> jval \<Rightarrow> (uuid \<times> path) list \<Rightarrow> (uuid \<times> path) list result" where
  "scan_reference d field raw refs =
     (case (raw, jget raw ''id'', jget raw ''record_path'') of
        (JObj obj, JStr raw_id, JStr raw_path) \<Rightarrow>
          if jkeys raw \<noteq> {''id'', ''record_path''} then Inl (ValueError ''reference is invalid'')
          else bind_result (cd_uuid d raw_id) (\<lambda>i.
            let relative = posix_parts raw_path in
            if i \<noteq> raw_id \<or> i \<in> fst ` set refs \<or> relative \<in> snd ` set refs \<or>
               py_startswith raw_path ''/'' \<or> length relative \<noteq> 3 \<or> take 2 relative \<noteq> [field, i] \<or>
               path_suffix (last relative) \<noteq> ''.json'' \<or>
               (\<exists>part \<in> set relative. part \<in> {'''', ''.'', ''..''})
            then Inl (ValueError ''reference is invalid'')
            else Inr (refs @ [(i, relative)]))
      | _ \<Rightarrow> Inl (ValueError ''reference is invalid''))"

fun scan_references ::
    "'x decoders_scheme \<Rightarrow> string \<Rightarrow> jval list \<Rightarrow> (uuid \<times> path) list \<Rightarrow> (uuid \<times> path) list result" where
  "scan_references d field [] refs = Inr refs"
| "scan_references d field (raw # rest) refs =
     bind_result (scan_reference d field raw refs) (scan_references d field rest)"

definition tab_references :: "'x decoders_scheme \<Rightarrow> jval \<Rightarrow> (uuid \<times> path) list result" where
  "tab_references d payload =
     (case jget payload ''tabs'' of JList raws \<Rightarrow> scan_references d ''tabs'' raws []
      | _ \<Rightarrow> Inl (ValueError ''Workspace tabs must be a list''))"

definition analysis_references :: "'x decoders_scheme \<Rightarrow> jval \<Rightarrow> (uuid \<times> path) list result" where
  "analysis_references d payload =
     (case jget payload ''analyses'' of JList raws \<Rightarrow> scan_references d ''analyses'' raws []
      | _ \<Rightarrow> Inl (ValueError ''Workspace analyses must be a list''))"

text \<open>\<open>loaded\<close> is what opening and parsing the file gives.\<close>

fun is_jlist :: "jval \<Rightarrow> bool" where
  "is_jlist (JList _) \<longleftrightarrow> True" | "is_jlist _ \<longleftrightarrow> False"

fun is_jobj :: "jval \<Rightarrow> bool" where
  "is_jobj (JObj _) \<longleftrightarrow> True" | "is_jobj _ \<longleftrightarrow> False"

fun is_jstr :: "jval \<Rightarrow> bool" where
  "is_jstr (JStr _) \<longleftrightarrow> True" | "is_jstr _ \<longleftrightarrow> False"

fun unsupported_version :: "jval \<Rightarrow> int option" where
  "unsupported_version (JInt v) = (if v \<noteq> WORKSPACE_SCHEMA_VERSION then Some v else None)"
| "unsupported_version _ = None"

definition envelope_checks :: "jval \<Rightarrow> (bool \<times> error) list" where
  "envelope_checks payload =
     (let metadata = jget payload ''workspace_metadata''; stored = jget metadata ''version'' in
      [(\<not> is_jobj payload, ValueError ''Workspace metadata must be an object''),
       (\<not> is_jobj metadata, ValueError ''Workspace metadata envelope is invalid''),
       (unsupported_version stored \<noteq> None, WorkspaceSchemaVersionError (the (unsupported_version stored))),
       (jkeys payload \<noteq> ENVELOPE_FIELDS, ValueError ''Workspace metadata envelope fields are invalid''),
       (\<not> is_jlist (jget payload ''nodes'') \<or> \<not> is_jlist (jget payload ''tabs'') \<or>
          \<not> is_jlist (jget payload ''analyses''), ValueError ''Workspace metadata envelope is invalid''),
       (jkeys metadata \<noteq> METADATA_FIELDS, ValueError ''Workspace metadata fields are invalid''),
       (\<not> jequals stored WORKSPACE_SCHEMA_VERSION, ValueError ''Workspace schema version is invalid''),
       (\<not> is_jstr (jget metadata ''id'') \<or> \<not> is_jstr (jget metadata ''name''),
        ValueError ''Workspace identity metadata is invalid'')])"

definition read_workspace_metadata :: "'x decoders_scheme \<Rightarrow> jval result \<Rightarrow> jval result" where
  "read_workspace_metadata d loaded =
     bind_result loaded (\<lambda>payload. bind_result (raise_first (envelope_checks payload) payload) (\<lambda>payload.
       bind_result (tab_references d payload) (\<lambda>_.
         bind_result (analysis_references d payload) (\<lambda>_. Inr payload))))"

section \<open>Identity and lineage\<close>

record snapshot_info =
  si_workspace_id :: uuid
  si_name :: string
  si_description :: string
  si_created_at :: string
  si_modified_at :: string
  si_revision :: int
  si_node_count :: nat
  si_tab_count :: nat
  si_analysis_count :: nat
  si_root_node_count :: nat
  si_leaf_node_count :: nat
  si_serialized_bytes :: nat

definition canonical_id :: "'x decoders_scheme \<Rightarrow> jval \<Rightarrow> uuid result" where
  "canonical_id d raw = (case raw of
      JStr s \<Rightarrow> bind_result (cd_uuid d s) (\<lambda>i.
        if i \<noteq> s then Inl (ValueError ''ID is not canonical'') else Inr i)
    | _ \<Rightarrow> Inl (ValueError ''ID must be a string''))"

text \<open>\<open>created.utcoffset() is None or modified.utcoffset() is None or modified < created\<close>.\<close>

definition check_times :: "'x decoders_scheme \<Rightarrow> string \<Rightarrow> string \<Rightarrow> unit result" where
  "check_times d created_at modified_at =
     bind_result (cd_time d created_at) (\<lambda>created. bind_result (cd_time d modified_at) (\<lambda>modified.
       if snd created = None \<or> snd modified = None \<or> fst modified < fst created
       then Inl (ValueError ''Workspace timestamps are invalid'') else Inr ()))"

definition described :: "'x decoders_scheme \<Rightarrow> uuid \<Rightarrow> jval \<Rightarrow> jval \<Rightarrow> jval \<Rightarrow> jval \<Rightarrow> jval \<Rightarrow> snapshot_info result" where
  "described d i name description created_at modified_at revision =
     (case name of JStr n \<Rightarrow> if n = [] then Inl (ValueError ''Workspace name is invalid'') else
        (case (description, created_at, modified_at) of
           (JStr str, JStr created, JStr modified) \<Rightarrow> bind_result (check_times d created modified) (\<lambda>_.
             (case revision of
                JInt r \<Rightarrow> if r < 1 then Inl (ValueError ''Workspace revision must be positive'')
                  else Inr \<lparr>si_workspace_id = i, si_name = n, si_description = str,
                    si_created_at = created, si_modified_at = modified, si_revision = r, si_node_count = 0,
                    si_tab_count = 0, si_analysis_count = 0, si_root_node_count = 0,
                    si_leaf_node_count = 0, si_serialized_bytes = 0\<rparr>
              | _ \<Rightarrow> Inl (ValueError ''Workspace revision must be positive'')))
         | _ \<Rightarrow> Inl (ValueError ''Workspace descriptive metadata is invalid''))
      | _ \<Rightarrow> Inl (ValueError ''Workspace name is invalid''))"

definition snapshot_identity :: "'x decoders_scheme \<Rightarrow> jval \<Rightarrow> snapshot_info result" where
  "snapshot_identity d payload =
     bind_result (jitem payload ''workspace_metadata'') (\<lambda>m. bind_result (jitem payload ''nodes'') (\<lambda>_.
       bind_result (jitem m ''id'') (\<lambda>raw. bind_result (canonical_id d raw) (\<lambda>i.
         bind_result (jitem m ''name'') (\<lambda>name. bind_result (jitem m ''description'') (\<lambda>description.
           bind_result (jitem m ''created_at'') (\<lambda>created. bind_result (jitem m ''modified_at'') (\<lambda>modified.
             bind_result (jitem m ''revision'')
               (described d i name description created modified)))))))))"

text \<open>One Data Block of the snapshot; \<open>parents\<close> is the dictionary \<open>parents_by_node\<close> so far, whose keys are
  \<open>node_ids\<close>.\<close>

definition scan_node ::
    "'x decoders_scheme \<Rightarrow> jval \<Rightarrow> (uuid, uuid list) dict \<Rightarrow> (uuid, uuid list) dict result" where
  "scan_node d entry parents =
     (let metadata = jget entry ''node_metadata'' in
      if \<not> is_jobj entry \<or> \<not> is_jobj metadata then Inl (ValueError ''Workspace node entry is invalid'')
      else bind_result (jitem metadata ''id'') (\<lambda>raw. bind_result (canonical_id d raw) (\<lambda>i.
        if i \<in> fst ` set parents then Inl (ValueError ''Workspace node ID is invalid'')
        else bind_result (cd_provenance d (jget metadata ''provenance'')) (\<lambda>raw.
          bind_result (validate_node_provenance raw) (\<lambda>p.
            if i \<in> set (referenced_node_ids p) then Inl (ValueError ''Workspace node provenance is invalid'')
            else Inr (parents @ [(i, referenced_node_ids p)]))))))"

fun scan_nodes ::
    "'x decoders_scheme \<Rightarrow> jval list \<Rightarrow> (uuid, uuid list) dict \<Rightarrow> (uuid, uuid list) dict result" where
  "scan_nodes d [] parents = Inr parents"
| "scan_nodes d (entry # entries) parents = bind_result (scan_node d entry parents) (scan_nodes d entries)"

text \<open>The checks of the whole graph, and the numbers of roots and leaves.\<close>

definition all_parent_ids :: "(uuid, uuid list) dict \<Rightarrow> uuid list" where
  "all_parent_ids parents = concat (dict_values parents)"

definition lineage_counts :: "(uuid, uuid list) dict \<Rightarrow> (nat \<times> nat) result" where
  "lineage_counts parents = raise_first
     [(\<not> set (all_parent_ids parents) \<subseteq> set (dict_keys parents), ValueError ''Workspace node parent is missing''),
      (lineage_has_cycle (dict_keys parents) parents, ValueError ''Workspace node graph contains a cycle'')]
     (length (filter (\<lambda>(i, ps). ps = []) parents),
      length (filter (\<lambda>i. i \<notin> set (all_parent_ids parents)) (dict_keys parents)))"

fun node_entries :: "jval \<Rightarrow> jval list result" where
  "node_entries (JList entries) = Inr entries"
| "node_entries _ = Inl (ValueError ''Workspace nodes must be a list'')"

definition snapshot_info_of :: "'x decoders_scheme \<Rightarrow> jval \<Rightarrow> snapshot_info result" where
  "snapshot_info_of d payload =
     except_as invalid_value (WorkspaceSnapshotInvalidError ''Workspace snapshot identity or revision is invalid'')
      (bind_result (snapshot_identity d payload) (\<lambda>info.
        bind_result (node_entries (jget payload ''nodes'')) (\<lambda>entries.
          bind_result (tab_references d payload) (\<lambda>tabs.
            bind_result (analysis_references d payload) (\<lambda>analyses.
              bind_result (scan_nodes d entries []) (\<lambda>parents.
                bind_result (lineage_counts parents) (\<lambda>(roots, leaves).
                  Inr (info\<lparr>si_node_count := length entries, si_tab_count := length tabs,
                    si_analysis_count := length analyses, si_root_node_count := roots,
                    si_leaf_node_count := leaves\<rparr>))))))))"

section \<open>Accepted references\<close>

definition refs_ok :: "'x decoders_scheme \<Rightarrow> string \<Rightarrow> (uuid \<times> path) list \<Rightarrow> bool" where
  "refs_ok d field refs \<longleftrightarrow> distinct (map fst refs) \<and> distinct (map snd refs) \<and>
     (\<forall>(i, p) \<in> set refs. cd_uuid d i = Inr i \<and> (\<exists>name. p = [field, i, name] \<and>
        name \<notin> {'''', ''.'', ''..''} \<and> CHR ''/'' \<notin> set name \<and> path_suffix name = ''.json''))"

lemma three_parts:
  assumes "length p = 3" "take 2 p = [a, b]"
  shows "p = [a, b, last p]"
  using assms by (auto simp: length_Suc_conv numeral_3_eq_3 numeral_2_eq_2)

lemma scan_reference_ok:
  assumes "scan_reference d field raw refs = Inr refs'" "refs_ok d field refs"
  shows "refs_ok d field refs' \<and> length refs' = Suc (length refs)"
proof -
  obtain i str where r: "cd_uuid d i = Inr i" "refs' = refs @ [(i, posix_parts str)]"
    "i \<notin> fst ` set refs" "posix_parts str \<notin> snd ` set refs" "length (posix_parts str) = 3"
    "take 2 (posix_parts str) = [field, i]" "path_suffix (last (posix_parts str)) = ''.json''"
    "\<forall>part \<in> set (posix_parts str). part \<notin> {'''', ''.'', ''..''}"
    using assms(1) unfolding scan_reference_def
    by (auto simp: bind_result_Inr_iff Let_def split: jval.splits if_splits)
  have l: "last (posix_parts str) \<in> set (posix_parts str)" using r(5) by (intro last_in_set) auto
  moreover have "CHR ''/'' \<notin> set (last (posix_parts str))"
    using l py_split_pieces [of "last (posix_parts str)" "CHR ''/''" str] by (simp add: posix_parts_def)
  ultimately show ?thesis
    using assms(2) r three_parts [OF r(5,6)] unfolding refs_ok_def by auto
qed

lemma scan_references_ok:
  "scan_references d field raws refs = Inr refs' \<Longrightarrow> refs_ok d field refs \<Longrightarrow>
   refs_ok d field refs' \<and> length refs' = length refs + length raws"
proof (induction raws arbitrary: refs)
  case (Cons raw raws)
  then show ?case using scan_reference_ok [of d field raw refs] by (force simp: bind_result_Inr_iff)
qed simp

lemma references_ok:
  "tab_references d payload = Inr refs \<Longrightarrow> refs_ok d ''tabs'' refs"
  "analysis_references d payload = Inr refs \<Longrightarrow> refs_ok d ''analyses'' refs"
proof -
  have "refs_ok d field []" for field by (simp add: refs_ok_def)
  then show "tab_references d payload = Inr refs \<Longrightarrow> refs_ok d ''tabs'' refs"
    "analysis_references d payload = Inr refs \<Longrightarrow> refs_ok d ''analyses'' refs"
    using scan_references_ok unfolding tab_references_def analysis_references_def
    by (force split: jval.splits)+
qed

text \<open>C19: The references of an accepted payload name distinct records by canonical identifiers, and each
  path is a JSON file directly in the directory of its own record below the Workspace's \<open>tabs\<close> or
  \<open>analyses\<close>: no reference leaves the Workspace or reaches another record.\<close>

theorem references_confined:
  assumes "read_workspace_metadata d loaded = Inr payload"
  shows "\<exists>tabs analyses. tab_references d payload = Inr tabs \<and> analysis_references d payload = Inr analyses \<and>
    refs_ok d ''tabs'' tabs \<and> refs_ok d ''analyses'' analyses \<and>
    snd ` set tabs \<inter> snd ` set analyses = {}"
proof -
  obtain tabs analyses where r: "tab_references d payload = Inr tabs" "analysis_references d payload = Inr analyses"
    using assms unfolding read_workspace_metadata_def
    by (auto simp: bind_result_Inr_iff raise_first_Inr_iff simp del: raise_first.simps)
  note ok = references_ok(1) [OF r(1)] references_ok(2) [OF r(2)]
  have "snd ` set tabs \<inter> snd ` set analyses = {}"
    using ok unfolding refs_ok_def by fastforce
  with r ok show ?thesis by blast
qed

section \<open>Accepted lineage\<close>

lemma scan_node_ok:
  assumes "scan_node d entry parents = Inr parents'"
  obtains i p where "parents' = parents @ [(i, referenced_node_ids p)]" "cd_uuid d i = Inr i"
    "i \<notin> fst ` set parents" "i \<notin> set (referenced_node_ids p)"
  using assms unfolding scan_node_def Let_def canonical_id_def
  by (auto simp: bind_result_Inr_iff split: if_splits jval.splits)

definition scanned :: "'x decoders_scheme \<Rightarrow> (uuid, uuid list) dict \<Rightarrow> bool" where
  "scanned d parents \<longleftrightarrow> wf_dict parents \<and>
     (\<forall>(i, ps) \<in> set parents. cd_uuid d i = Inr i \<and> distinct ps \<and> i \<notin> set ps)"

lemma scan_nodes_ok:
  "scan_nodes d entries parents = Inr parents' \<Longrightarrow> scanned d parents \<Longrightarrow>
   scanned d parents' \<and> length parents' = length parents + length entries"
proof (induction entries arbitrary: parents)
  case (Cons entry entries)
  then obtain p1 where p1: "scan_node d entry parents = Inr p1" "scan_nodes d entries p1 = Inr parents'"
    by (auto simp: bind_result_Inr_iff)
  obtain i p where "p1 = parents @ [(i, referenced_node_ids p)]" "cd_uuid d i = Inr i"
    "i \<notin> fst ` set parents" "i \<notin> set (referenced_node_ids p)"
    by (rule scan_node_ok [OF p1(1)])
  then have "scanned d p1" "length p1 = Suc (length parents)"
    using Cons.prems(2) referenced_node_ids_distinct by (auto simp: scanned_def)
  with Cons.IH [OF p1(2)] show ?case by simp
qed simp

lemma scanned_lineage_ok:
  assumes "scanned d parents" "set (all_parent_ids parents) \<subseteq> set (dict_keys parents)"
  shows "lineage_ok (dict_keys parents) parents"
  using assms by (force simp: scanned_def lineage_ok_def all_parent_ids_def)

definition snapshot_parents :: "'x decoders_scheme \<Rightarrow> jval \<Rightarrow> (uuid, uuid list) dict result" where
  "snapshot_parents d payload =
     bind_result (node_entries (jget payload ''nodes'')) (\<lambda>entries. scan_nodes d entries [])"

definition lineage_accepted :: "(uuid, uuid list) dict \<Rightarrow> bool" where
  "lineage_accepted parents \<longleftrightarrow> (\<forall>(i, ps) \<in> set parents. set ps \<subseteq> fst ` set parents) \<and>
     acyclic {(c, p). \<exists>ps. (c, ps) \<in> set parents \<and> p \<in> set ps}"

lemma lineage_counts_iff:
  assumes "scanned d parents"
  shows "lineage_counts parents = Inr n \<longleftrightarrow> lineage_accepted parents \<and>
    n = (length (filter (\<lambda>(i, ps). ps = []) parents),
      length (filter (\<lambda>i. i \<notin> set (all_parent_ids parents)) (dict_keys parents)))"
proof -
  let ?E = "{(c, p). \<exists>ps. (c, ps) \<in> set parents \<and> p \<in> set ps}"
  have wf: "wf_dict parents" using assms by (simp add: scanned_def)
  have known: "set (all_parent_ids parents) \<subseteq> set (dict_keys parents) \<longleftrightarrow>
      (\<forall>(i, ps) \<in> set parents. set ps \<subseteq> fst ` set parents)"
    by (simp add: all_parent_ids_def UN_subset_iff case_prod_unfold)
  have "lineage (dict_keys parents) parents = ?E"
    unfolding lineage_def dict_get_list_mem using wf by (force simp: map_of_eq_Some_iff)
  then have "lineage_has_cycle (dict_keys parents) parents \<longleftrightarrow> \<not> acyclic ?E"
    if "set (all_parent_ids parents) \<subseteq> set (dict_keys parents)"
    using lineage_has_cycle_iff(1) [OF scanned_lineage_ok [OF assms that]] by simp
  then show ?thesis
    unfolding lineage_counts_def raise_first_Inr_iff lineage_accepted_def known [symmetric] by auto
qed

lemma snapshot_info_Inr_iff:
  "snapshot_info_of d payload = Inr info \<longleftrightarrow> (\<exists>base parents tabs analyses.
     snapshot_identity d payload = Inr base \<and> tab_references d payload = Inr tabs \<and>
     analysis_references d payload = Inr analyses \<and> snapshot_parents d payload = Inr parents \<and>
     lineage_accepted parents \<and>
     info = base\<lparr>si_node_count := length parents, si_tab_count := length tabs,
       si_analysis_count := length analyses,
       si_root_node_count := length (filter (\<lambda>(i, ps). ps = []) parents),
       si_leaf_node_count := length (filter (\<lambda>i. i \<notin> set (all_parent_ids parents)) (dict_keys parents))\<rparr>)"
  (is "?lhs \<longleftrightarrow> ?rhs")
proof -
  have scanned: "scanned d parents \<and> length parents = length entries"
    if "scan_nodes d entries [] = Inr parents" for entries parents
    using scan_nodes_ok [OF that] by (simp add: scanned_def)
  have "?lhs \<longleftrightarrow> (\<exists>base entries tabs analyses parents n. snapshot_identity d payload = Inr base \<and>
      node_entries (jget payload ''nodes'') = Inr entries \<and> tab_references d payload = Inr tabs \<and>
      analysis_references d payload = Inr analyses \<and> scan_nodes d entries [] = Inr parents \<and>
      lineage_counts parents = Inr n \<and> info = base\<lparr>si_node_count := length entries,
        si_tab_count := length tabs, si_analysis_count := length analyses, si_root_node_count := fst n,
        si_leaf_node_count := snd n\<rparr>)"
    unfolding snapshot_info_of_def except_as_Inr_iff bind_result_Inr_iff by (auto split: prod.splits)
  also have "\<dots> \<longleftrightarrow> ?rhs"
    using scanned lineage_counts_iff unfolding snapshot_parents_def bind_result_Inr_iff by fastforce
  finally show ?thesis .
qed

text \<open>C18: A snapshot is accepted if and only if its identity, its references and its Data Blocks are valid
  and the lineage has no unknown parent and no cycle; the counts are the numbers of blocks, of blocks without
  parents and of blocks without children.\<close>

theorem snapshot_accepted_iff:
  "snapshot_info_of d payload = Inr info \<longleftrightarrow> (\<exists>base parents tabs analyses.
     snapshot_identity d payload = Inr base \<and> tab_references d payload = Inr tabs \<and>
     analysis_references d payload = Inr analyses \<and> snapshot_parents d payload = Inr parents \<and>
     (\<Union>(i, ps) \<in> set parents. set ps) \<subseteq> fst ` set parents \<and>
     acyclic {(c, p). \<exists>ps. (c, ps) \<in> set parents \<and> p \<in> set ps} \<and>
     info = base\<lparr>si_node_count := card (fst ` set parents), si_tab_count := card (fst ` set tabs),
       si_analysis_count := card (fst ` set analyses),
       si_root_node_count := card {i. (i, []) \<in> set parents},
       si_leaf_node_count := card {i \<in> fst ` set parents. \<nexists>c ps. (c, ps) \<in> set parents \<and> i \<in> set ps}\<rparr>)"
proof -
  have refs: "length tabs = card (fst ` set tabs)" if "tab_references d payload = Inr tabs" for tabs
    using that scan_references_ok [of d "''tabs''" _ "[]" tabs] distinct_card [of "map fst tabs"]
    by (auto simp: tab_references_def refs_ok_def split: jval.splits)
  have arefs: "length rs = card (fst ` set rs)" if "analysis_references d payload = Inr rs" for rs
    using that scan_references_ok [of d "''analyses''" _ "[]" rs] distinct_card [of "map fst rs"]
    by (auto simp: analysis_references_def refs_ok_def split: jval.splits)
  have wf: "wf_dict parents" if "snapshot_parents d payload = Inr parents" for parents
    using that scan_nodes_ok [of d _ "[]" parents] by (auto simp: snapshot_parents_def bind_result_Inr_iff scanned_def)
  have roots: "length (filter (\<lambda>(i, ps). ps = []) parents) = card {i. (i, []) \<in> set parents}"
    if "wf_dict parents" for parents :: "(uuid, uuid list) dict"
  proof -
    have "distinct (map fst (filter (\<lambda>(i, ps). ps = []) parents))" using that by (rule distinct_map_filter)
    from distinct_card [OF this] show ?thesis by (simp add: image_def case_prod_unfold)
  qed
  have leaves: "length (filter (\<lambda>i. i \<notin> set (all_parent_ids parents)) (dict_keys parents)) =
      card {i \<in> fst ` set parents. \<nexists>c ps. (c, ps) \<in> set parents \<and> i \<in> set ps}"
    if "wf_dict parents" for parents :: "(uuid, uuid list) dict"
  proof -
    have "set (filter (\<lambda>i. i \<notin> set (all_parent_ids parents)) (dict_keys parents)) =
        {i \<in> fst ` set parents. \<nexists>c ps. (c, ps) \<in> set parents \<and> i \<in> set ps}"
      by (simp add: all_parent_ids_def set_eq_iff case_prod_unfold) (metis fst_conv prod.collapse snd_conv)
    with distinct_card [OF distinct_filter [OF that]] show ?thesis by metis
  qed
  have nodes: "length parents = card (fst ` set parents)" if "wf_dict parents"
    for parents :: "(uuid, uuid list) dict"
    using distinct_card [OF that] by simp
  have acc: "lineage_accepted parents \<longleftrightarrow> (\<Union>(i, ps) \<in> set parents. set ps) \<subseteq> fst ` set parents \<and>
      acyclic {(c, p). \<exists>ps. (c, ps) \<in> set parents \<and> p \<in> set ps}" for parents
    by (simp add: lineage_accepted_def UN_subset_iff case_prod_unfold)
  show ?thesis
    unfolding snapshot_info_Inr_iff acc conj_assoc
    by (intro iff_exI conj_cong refl) (simp only: refs arefs roots [OF wf] leaves [OF wf] nodes [OF wf])
qed

section \<open>Example\<close>

text \<open>Identifiers are their own canonical form, a time is its length in UTC, and every provenance is a source.\<close>

definition example_decoders :: decoders where
  "example_decoders = \<lparr>cd_uuid = Inr, cd_time = (\<lambda>s. Inr (int (length s), Some 0)),
     cd_provenance = (\<lambda>_. Inr SourceProvenance)\<rparr>"

definition example_reference :: "string \<Rightarrow> string \<Rightarrow> jval" where
  "example_reference field i = JObj [(''id'', JStr i), (''record_path'', JStr (field @ ''/'' @ i @ ''/r1.json''))]"

definition example_payload :: jval where
  "example_payload = JObj
     [(''workspace_metadata'', JObj [(''id'', JStr ''w''), (''name'', JStr ''Corpus''), (''version'', JInt 17),
        (''description'', JStr ''''), (''created_at'', JStr ''1''), (''modified_at'', JStr ''12''),
        (''revision'', JInt 3)]),
      (''nodes'', JList [JObj [(''node_metadata'', JObj [(''id'', JStr ''n''), (''provenance'', JNull)])]]),
      (''tabs'', JList [example_reference ''tabs'' ''t'']),
      (''analyses'', JList [example_reference ''analyses'' ''i'', example_reference ''analyses'' ''c''])]"

theorem references_confined_witness:
  "refs_ok example_decoders ''analyses'' (projr (analysis_references example_decoders example_payload)) \<and>
   length (projr (analysis_references example_decoders example_payload)) = 2"
proof -
  have "read_workspace_metadata example_decoders (Inr example_payload) = Inr example_payload" by code_simp
  from references_confined [OF this]
  have "refs_ok example_decoders ''analyses'' (projr (analysis_references example_decoders example_payload))"
    by auto
  moreover have "length (projr (analysis_references example_decoders example_payload)) = 2" by code_simp
  ultimately show ?thesis by simp
qed

end
