(* ===== verification/SnapshotHydration.thy ===== *)
theory SnapshotHydration
  imports WorkspaceAnalyses
begin

text \<open>
  Reading the Analyses of a Workspace back from disk: \<open>_add_workspace_analyses\<close> of
  \<^verbatim>\<open>infrastructure/storage/workspace_store.py\<close>.

  The records of a snapshot come in the order of the metadata file, each with the bytes of its file. The
  loop registers every record whose parent is already registered, puts the others off to the next round,
  and stops when a round makes no progress. What cannot be restored and is listed by a Tab stays in the
  Workspace as a corrupt Analysis with its bytes. \<open>restorable\<close> says, without the loop, which records are
  restored.
\<close>

section \<open>The code\<close>

record hydration =
  hy_board :: analysis_board
  hy_corrupt :: "(uuid, string) dict"
  hy_next :: "(analysis_record \<times> string) list"
  hy_progressed :: bool

definition tab_omits :: "analysis_board \<Rightarrow> analysis_record \<Rightarrow> bool" where
  "tab_omits b r \<longleftrightarrow> (case map_of (ab_tabs b) (rec_tab_id r) of None \<Rightarrow> True
     | Some t \<Rightarrow> rec_id r \<notin> set (tab_analysis_ids t))"

definition parent_pending :: "analysis_board \<Rightarrow> analysis_record \<Rightarrow> bool" where
  "parent_pending b r \<longleftrightarrow> (case rec_parent_analysis_id r of None \<Rightarrow> False
     | Some p \<Rightarrow> p \<notin> set (dict_keys (ab_analyses b)))"

text \<open>One turn of the inner loop.\<close>

definition hydrate_record ::
    "uuid list \<Rightarrow> analysis_record \<times> string \<Rightarrow> hydration \<Rightarrow> hydration" where
  "hydrate_record tab_ids rc s =
     (let r = fst rc; content = snd rc; b = hy_board s; linked = rec_id r \<in> set tab_ids in
      if parent_pending b r then s\<lparr>hy_next := hy_next s @ [rc]\<rparr>
      else if linked \<and> tab_omits b r then
        s\<lparr>hy_corrupt := AList.update (rec_id r) content (hy_corrupt s), hy_progressed := True\<rparr>
      else
        (case add_analysis r linked b of
           (Inl e, b') \<Rightarrow> s\<lparr>hy_board := b', hy_progressed := True,
             hy_corrupt := AList.update (rec_id r) content (hy_corrupt s)\<rparr>
         | (Inr _, b') \<Rightarrow> s\<lparr>hy_board := b', hy_progressed := True\<rparr>))"

definition hydrate_round ::
    "uuid list \<Rightarrow> (analysis_record \<times> string) list \<Rightarrow> analysis_board \<Rightarrow> (uuid, string) dict \<Rightarrow> hydration" where
  "hydrate_round tab_ids pending b corrupt = fold (hydrate_record tab_ids) pending
     \<lparr>hy_board = b, hy_corrupt = corrupt, hy_next = [], hy_progressed = False\<rparr>"

text \<open>A record is put off or counts as progress, so that a round with progress leaves fewer records.\<close>

lemma hydrate_record_counts:
  "length (hy_next (hydrate_record tab_ids rc s)) =
     length (hy_next s) + (if parent_pending (hy_board s) (fst rc) then 1 else 0)"
  "hy_progressed (hydrate_record tab_ids rc s) \<longleftrightarrow>
     hy_progressed s \<or> \<not> parent_pending (hy_board s) (fst rc)"
  by (auto simp: hydrate_record_def Let_def split: prod.splits sum.splits)

lemma hydrate_fold_counts:
  "length (hy_next (fold (hydrate_record tab_ids) pending s)) \<le> length (hy_next s) + length pending \<and>
   (hy_progressed (fold (hydrate_record tab_ids) pending s) \<longrightarrow> hy_progressed s \<or>
     length (hy_next (fold (hydrate_record tab_ids) pending s)) < length (hy_next s) + length pending)"
proof (induction pending arbitrary: s)
  case (Cons rc pending)
  from Cons [of "hydrate_record tab_ids rc s"] hydrate_record_counts [of tab_ids rc s] show ?case
    by (auto split: if_splits)
qed simp

function hydrate_loop ::
    "uuid list \<Rightarrow> (analysis_record \<times> string) list \<Rightarrow> analysis_board \<Rightarrow> (uuid, string) dict \<Rightarrow>
     analysis_board \<times> (uuid, string) dict" where
  "hydrate_loop tab_ids pending b corrupt =
     (if pending = [] then (b, corrupt)
      else
        (let s = hydrate_round tab_ids pending b corrupt in
         if \<not> hy_progressed s then
           (hy_board s, fold (\<lambda>rc. AList.update (rec_id (fst rc)) (snd rc)) (hy_next s) (hy_corrupt s))
         else hydrate_loop tab_ids (hy_next s) (hy_board s) (hy_corrupt s)))"
  by auto

termination
proof (relation "measure (\<lambda>(tab_ids, pending, b, corrupt). length pending)")
  fix tab_ids b corrupt and pending :: "(analysis_record \<times> string) list" and s
  assume "s = hydrate_round tab_ids pending b corrupt" "\<not> \<not> hy_progressed s"
  with hydrate_fold_counts [of tab_ids pending "\<lparr>hy_board = b, hy_corrupt = corrupt, hy_next = [],
    hy_progressed = False\<rparr>"]
  show "((tab_ids, hy_next s, hy_board s, hy_corrupt s), (tab_ids, pending, b, corrupt)) \<in>
      measure (\<lambda>(tab_ids, pending, b, corrupt). length pending)"
    by (simp add: hydrate_round_def)
qed simp

declare hydrate_loop.simps [simp del]

text \<open>The last loop: what the Tabs list and was not restored. \<open>original\<close> is the content of the record
  under that identifier, or no bytes.\<close>

fun add_missing ::
    "(string \<Rightarrow> uuid result) \<Rightarrow> (uuid, string) dict \<Rightarrow> (uuid, analysis_record \<times> string) dict \<Rightarrow> uuid list \<Rightarrow>
     analysis_board \<Rightarrow> unit result \<times> analysis_board" where
  "add_missing canonical corrupt by_id [] b = (Inr (), b)"
| "add_missing canonical corrupt by_id (i # ids) b =
     (if i \<in> set (dict_keys (ab_analyses b)) then add_missing canonical corrupt by_id ids b
      else
        (let original = (case map_of by_id i of None \<Rightarrow> [] | Some rc \<Rightarrow> snd rc);
             content = dict_get corrupt i original
         in (case add_corrupt_analysis canonical i content b of
               (Inl e, b') \<Rightarrow> (Inl e, b')
             | (Inr _, b') \<Rightarrow> add_missing canonical corrupt by_id ids b')))"

definition add_workspace_analyses ::
    "(string \<Rightarrow> uuid result) \<Rightarrow> (analysis_record \<times> string) list \<Rightarrow> (uuid, string) dict \<Rightarrow> analysis_board \<Rightarrow>
     unit result \<times> analysis_board" where
  "add_workspace_analyses canonical records corrupt b =
     (let tab_ids = claimed_ids b;
          by_id = fold (\<lambda>rc. AList.update (rec_id (fst rc)) rc) records [];
          (b', corrupt') = hydrate_loop tab_ids records b corrupt
      in add_missing canonical corrupt' by_id (sort (remdups tab_ids)) b')"


section \<open>Which records are restored\<close>

text \<open>The Tab of a record that some Tab lists must list it itself.\<close>

definition placed :: "analysis_board \<Rightarrow> analysis_record \<Rightarrow> bool" where
  "placed b r \<longleftrightarrow> rec_id r \<notin> set (claimed_ids b) \<or> \<not> tab_omits b r"

inductive restorable :: "analysis_board \<Rightarrow> analysis_record set \<Rightarrow> analysis_record \<Rightarrow> bool"
  for b :: analysis_board and R :: "analysis_record set" where
  root: "r \<in> R \<Longrightarrow> placed b r \<Longrightarrow> rec_parent_analysis_id r = None \<Longrightarrow> restorable b R r"
| child: "r \<in> R \<Longrightarrow> placed b r \<Longrightarrow> rec_parent_analysis_id r = Some (rec_id q) \<Longrightarrow> restorable b R q \<Longrightarrow>
    rec_tab_id q = rec_tab_id r \<Longrightarrow> restorable b R r"

inductive_cases restorableE: "restorable b R r"

abbreviation live_ids :: "analysis_board \<Rightarrow> uuid set" where
  "live_ids b \<equiv> fst ` set (ab_analyses b)"

lemma claimed_ids_cong: "ab_tabs b = ab_tabs b' \<Longrightarrow> claimed_ids b = claimed_ids b'"
  by (simp add: claimed_ids_def)

lemma placed_cong: "ab_tabs b = ab_tabs b' \<Longrightarrow> placed b r = placed b' r"
  by (simp add: placed_def claimed_ids_def tab_omits_def)

definition insert_analysis :: "analysis_record \<Rightarrow> analysis_board \<Rightarrow> analysis_board" where
  "insert_analysis r b = b\<lparr>ab_analyses := AList.update (rec_id r) r (ab_analyses b)\<rparr>"

lemma insert_analysis_fields [simp]:
  "ab_tabs (insert_analysis r b) = ab_tabs b" "ab_corrupt (insert_analysis r b) = ab_corrupt b"
  "ab_analyses (insert_analysis r b) = AList.update (rec_id r) r (ab_analyses b)"
  by (simp_all add: insert_analysis_def)

text \<open>A turn of the inner loop on a record that is not registered, in three cases.\<close>

lemma hydrate_record_eq:
  assumes "rec_id r \<notin> live_ids (hy_board s)" "ab_corrupt (hy_board s) = []"
    "set tab_ids = set (claimed_ids (hy_board s))"
  shows "hydrate_record tab_ids (r, content) s =
    (if parent_pending (hy_board s) r then s\<lparr>hy_next := hy_next s @ [(r, content)]\<rparr>
     else if placed (hy_board s) r \<and> \<not> parent_invalid r (hy_board s) then
       s\<lparr>hy_board := insert_analysis r (hy_board s), hy_progressed := True\<rparr>
     else s\<lparr>hy_corrupt := AList.update (rec_id r) content (hy_corrupt s), hy_progressed := True\<rparr>)"
proof -
  let ?b = "hy_board s"
  have k: "\<not> known_analysis (rec_id r) ?b" using assms(1,2) by (simp add: known_analysis_def)
  have "add_analysis r (rec_id r \<in> set tab_ids) ?b =
      (if parent_invalid r ?b then (Inl (ValueError ''A Sub-Analysis requires a parent in the same Tab''), ?b)
       else (Inr r, insert_analysis r ?b))"
    if "rec_id r \<in> set tab_ids \<longrightarrow> \<not> tab_omits ?b r"
    using that k by (auto simp: add_analysis_def Let_def insert_analysis_def tab_omits_def link_analysis_def
      split: option.splits)
  then show ?thesis
    using assms(3) by (auto simp: hydrate_record_def Let_def placed_def)
qed

section \<open>The invariant of the loop\<close>

text \<open>\<open>todo\<close> are the records put off in this round and those still to be looked at.\<close>

definition hydrating ::
    "analysis_board \<Rightarrow> analysis_record set \<Rightarrow> analysis_board \<Rightarrow> (analysis_record \<times> string) list \<Rightarrow> bool" where
  "hydrating b0 R b todo \<longleftrightarrow> ab_inv b \<and> ab_tabs b = ab_tabs b0 \<and> ab_corrupt b = [] \<and>
     (\<forall>(k, a) \<in> set (ab_analyses b). restorable b0 R a) \<and>
     distinct (map (rec_id \<circ> fst) todo) \<and> fst ` set todo \<subseteq> R \<and>
     live_ids b \<inter> (rec_id \<circ> fst) ` set todo = {} \<and>
     (\<forall>r. restorable b0 R r \<longrightarrow> rec_id r \<in> live_ids b \<or> r \<in> fst ` set todo)"

lemma restorable_mem: "restorable b R r \<Longrightarrow> r \<in> R \<and> placed b r"
  by (auto elim: restorableE)

lemma hydratingD:
  assumes "hydrating b0 R b todo"
  shows "ab_inv b" "ab_tabs b = ab_tabs b0" "ab_corrupt b = []"
    "(k, a) \<in> set (ab_analyses b) \<Longrightarrow> restorable b0 R a" "distinct (map (rec_id \<circ> fst) todo)"
    "fst ` set todo \<subseteq> R" "live_ids b \<inter> (rec_id \<circ> fst) ` set todo = {}"
    "restorable b0 R r \<Longrightarrow> rec_id r \<in> live_ids b \<or> r \<in> fst ` set todo"
  using assms by (auto simp: hydrating_def)

lemma hydratingI:
  assumes "ab_inv b" "ab_tabs b = ab_tabs b0" "ab_corrupt b = []"
    "\<And>k a. (k, a) \<in> set (ab_analyses b) \<Longrightarrow> restorable b0 R a" "distinct (map (rec_id \<circ> fst) todo)"
    "fst ` set todo \<subseteq> R" "live_ids b \<inter> (rec_id \<circ> fst) ` set todo = {}"
    "\<And>r. restorable b0 R r \<Longrightarrow> rec_id r \<in> live_ids b \<or> r \<in> fst ` set todo"
  shows "hydrating b0 R b todo"
  unfolding hydrating_def using assms by (intro conjI) (blast intro: assms)+

text \<open>A record that is not put off is restorable if and only if it is placed and its parent fits.\<close>

lemma restorable_now:
  assumes h: "hydrating b0 R b todo" and inj: "inj_on rec_id R" and r: "r \<in> R"
    and now: "\<not> parent_pending b r"
  shows "restorable b0 R r \<longleftrightarrow> placed b r \<and> \<not> parent_invalid r b"
proof (cases "rec_parent_analysis_id r")
  case None
  then show ?thesis
    using r placed_cong [OF hydratingD(2) [OF h], of r]
    by (auto simp: parent_invalid_def elim: restorableE intro: restorable.root)
next
  case (Some p)
  with now have "p \<in> live_ids b" by (simp add: parent_pending_def)
  then obtain q where q: "map_of (ab_analyses b) p = Some q"
    using map_of_None_iff_keys [of "ab_analyses b" p] by (cases "map_of (ab_analyses b) p") auto
  note e = map_of_SomeD [OF q]
  have id: "rec_id q = p" using ab_invD(5) [OF hydratingD(1) [OF h] e] .
  have rq: "restorable b0 R q" using hydratingD(4) [OF h e] .
  have "q' = q" if "restorable b0 R q'" "rec_id q' = p" for q'
    using inj_onD [OF inj, of q' q] restorable_mem [OF that(1)] restorable_mem [OF rq] that(2) id by simp
  moreover have "placed b r = placed b0 r" using placed_cong [OF hydratingD(2) [OF h]] .
  moreover have "\<not> parent_invalid r b \<longleftrightarrow> rec_tab_id q = rec_tab_id r"
    by (simp add: parent_invalid_def Some q)
  ultimately show ?thesis
    using r Some id rq restorable.child [of r R b0 q]
    by (metis option.distinct(1) option.inject restorableE)
qed

lemma hydrating_insert:
  assumes h: "hydrating b0 R b (xs @ (r, content) # ys)" and inj: "inj_on rec_id R"
    and now: "\<not> parent_pending b r" and ok: "placed b r" "\<not> parent_invalid r b"
  shows "hydrating b0 R (insert_analysis r b) (xs @ ys)"
proof -
  note H = hydratingD [OF h]
  have r: "r \<in> R" and new: "rec_id r \<notin> live_ids b" using H(6,7) by auto
  have res: "restorable b0 R r" using restorable_now [OF h inj r now] ok by simp
  show ?thesis
  proof (rule hydratingI)
    show "ab_inv (insert_analysis r b)"
      unfolding insert_analysis_def
      using now new H(1,3) by (intro ab_inv_insert_analysis)
        (auto simp: known_analysis_def parent_pending_def split: option.splits)
    show "restorable b0 R a" if "(k, a) \<in> set (ab_analyses (insert_analysis r b))" for k a
      using subsetD [OF set_update_dict that [simplified]] res H(4) by auto
    show "live_ids (insert_analysis r b) \<inter> (rec_id \<circ> fst) ` set (xs @ ys) = {}"
      using H(5,7) by auto
    show "rec_id r' \<in> live_ids (insert_analysis r b) \<or> r' \<in> fst ` set (xs @ ys)"
      if "restorable b0 R r'" for r'
      using H(8) [OF that] by auto
  qed (use H(2,3,5,6) in simp_all)
qed

lemma hydrating_reject:
  assumes h: "hydrating b0 R b (xs @ (r, content) # ys)" and inj: "inj_on rec_id R"
    and now: "\<not> parent_pending b r" and bad: "\<not> (placed b r \<and> \<not> parent_invalid r b)"
  shows "hydrating b0 R b (xs @ ys)"
proof -
  note H = hydratingD [OF h]
  have "\<not> restorable b0 R r" using restorable_now [OF h inj _ now] bad H(6) by auto
  then have "rec_id r' \<in> live_ids b \<or> r' \<in> fst ` set (xs @ ys)" if "restorable b0 R r'" for r'
    using H(8) [OF that] that by auto
  with H(5,6,7) show ?thesis
    by (intro hydratingI [OF H(1,2,3,4)]) auto
qed


text \<open>The bytes kept for a corrupt record are those read for it.\<close>

definition bytes_from ::
    "(analysis_record \<times> string) list \<Rightarrow> (uuid, string) dict \<Rightarrow> (uuid, string) dict \<Rightarrow> bool" where
  "bytes_from records c0 c \<longleftrightarrow> (\<forall>i. map_of c i = map_of c0 i \<or>
     (\<exists>rc \<in> set records. rec_id (fst rc) = i \<and> map_of c i = Some (snd rc)))"

lemma bytes_from_update:
  assumes "bytes_from records c0 c" "rc \<in> set records"
  shows "bytes_from records c0 (AList.update (rec_id (fst rc)) (snd rc) c)"
  using assms unfolding bytes_from_def by (auto simp: update_conv')

lemma bytes_from_fold:
  "bytes_from records c0 c \<Longrightarrow> set rcs \<subseteq> set records \<Longrightarrow>
   bytes_from records c0 (fold (\<lambda>rc. AList.update (rec_id (fst rc)) (snd rc)) rcs c)"
  by (induction rcs arbitrary: c) (simp_all add: bytes_from_update)

lemma hydrating_fold:
  assumes "hydrating b0 R (hy_board s) (hy_next s @ pending)" "inj_on rec_id R"
    "set tab_ids = set (claimed_ids b0)" "bytes_from records c0 (hy_corrupt s)"
    "set (hy_next s @ pending) \<subseteq> set records" "s' = fold (hydrate_record tab_ids) pending s"
  shows "hydrating b0 R (hy_board s') (hy_next s') \<and> bytes_from records c0 (hy_corrupt s') \<and>
    set (hy_next s') \<subseteq> set records \<and>
    (\<not> hy_progressed s' \<longrightarrow> hy_board s' = hy_board s \<and> hy_next s' = hy_next s @ pending \<and>
      (\<forall>rc \<in> set pending. parent_pending (hy_board s) (fst rc)))"
  using assms
proof (induction pending arbitrary: s)
  case (Cons rc pending)
  obtain r content where rc: "rc = (r, content)" by (cases rc)
  let ?b = "hy_board s" and ?t = "hydrate_record tab_ids rc s"
  note h = Cons.prems(1) [unfolded rc]
  have t: "set tab_ids = set (claimed_ids ?b)"
    using Cons.prems(3) claimed_ids_cong [OF hydratingD(2) [OF h]] by simp
  have "rec_id r \<notin> live_ids ?b" using hydratingD(7) [OF h] by auto
  note eq = hydrate_record_eq [OF this hydratingD(3) [OF h] t, of content, folded rc]
  have s': "s' = fold (hydrate_record tab_ids) pending ?t" using Cons.prems(6) by simp
  have rcm: "rc \<in> set records" using Cons.prems(5) by simp
  have sticky: "hy_progressed ?t \<longrightarrow> hy_progressed s'"
    unfolding s' using hydrate_record_counts(2)
    by (induction pending rule: rev_induct) (auto simp del: hydrate_record_counts)
  consider (later) "parent_pending ?b r"
    | (add) "\<not> parent_pending ?b r" "placed ?b r" "\<not> parent_invalid r ?b"
    | (reject) "\<not> parent_pending ?b r" "\<not> (placed ?b r \<and> \<not> parent_invalid r ?b)"
    by blast
  then show ?case
  proof cases
    case later
    then have "?t = s\<lparr>hy_next := hy_next s @ [rc]\<rparr>" using eq by (simp add: rc)
    with Cons.IH [OF _ Cons.prems(2,3) _ _ s'] Cons.prems(1,4,5) later show ?thesis by (auto simp: rc)
  next
    case add
    then have "?t = s\<lparr>hy_board := insert_analysis r ?b, hy_progressed := True\<rparr>" by (simp add: eq)
    with Cons.IH [OF _ Cons.prems(2,3) _ _ s'] hydrating_insert [OF h Cons.prems(2) add] Cons.prems(4,5)
      sticky
    show ?thesis by auto
  next
    case reject
    then have "?t = s\<lparr>hy_corrupt := AList.update (rec_id r) content (hy_corrupt s), hy_progressed := True\<rparr>"
      using eq by auto
    with Cons.IH [OF _ Cons.prems(2,3) _ _ s'] hydrating_reject [OF h Cons.prems(2) reject] Cons.prems(5)
      bytes_from_update [OF Cons.prems(4) rcm, unfolded rc] sticky
    show ?thesis by auto
  qed
qed auto

text \<open>When the loop ends, the restorable records are the live ones.\<close>

lemma restorable_live:
  assumes h: "hydrating b0 R b todo" and "\<forall>rc \<in> set todo. parent_pending b (fst rc)"
    and "restorable b0 R r"
  shows "rec_id r \<in> live_ids b"
  using assms(3)
proof (induction rule: restorable.induct)
  case (root r)
  then show ?case
    using hydratingD(8) [OF h restorable.root [OF root.hyps]] assms(2) by (force simp: parent_pending_def)
next
  case (child r q)
  then show ?case
    using hydratingD(8) [OF h restorable.child [OF child.hyps]] assms(2) by (force simp: parent_pending_def)
qed

lemma hydrate_loop_spec:
  assumes "hydrating b0 R b pending" "inj_on rec_id R" "set tab_ids = set (claimed_ids b0)"
    "bytes_from records c0 c" "set pending \<subseteq> set records" "hydrate_loop tab_ids pending b c = (b', c')"
  shows "(\<exists>todo. hydrating b0 R b' todo) \<and> (\<forall>r. restorable b0 R r \<longrightarrow> rec_id r \<in> live_ids b') \<and>
    bytes_from records c0 c'"
  using assms
proof (induction tab_ids pending b c rule: hydrate_loop.induct)
  case (1 tab_ids pending b c)
  show ?case
  proof (cases "pending = []")
    case True
    then have "b' = b" "c' = c" using 1(7) by (simp_all add: hydrate_loop.simps)
    with restorable_live [OF 1(2)] True 1(2,5) show ?thesis by auto
  next
    case False
    let ?s = "hydrate_round tab_ids pending b c"
    have R: "hydrating b0 R (hy_board ?s) (hy_next ?s) \<and> bytes_from records c0 (hy_corrupt ?s) \<and>
      set (hy_next ?s) \<subseteq> set records \<and>
      (\<not> hy_progressed ?s \<longrightarrow> hy_board ?s = b \<and> hy_next ?s = pending \<and>
        (\<forall>rc \<in> set pending. parent_pending b (fst rc)))"
      using hydrating_fold [OF _ 1(3,4) _ _ hydrate_round_def [of tab_ids pending b c], of records c0]
        1(2,5,6) by simp
    show ?thesis
    proof (cases "hy_progressed ?s")
      case True
      then have "hydrate_loop tab_ids (hy_next ?s) (hy_board ?s) (hy_corrupt ?s) = (b', c')"
        using 1(7) False by (simp add: hydrate_loop.simps [of tab_ids pending] Let_def)
      with 1(1) [OF False refl _ _ 1(3,4)] True R show ?thesis by blast
    next
      case np: False
      then have "b' = b" "c' = fold (\<lambda>rc. AList.update (rec_id (fst rc)) (snd rc)) pending (hy_corrupt ?s)"
        using 1(7) False R by (auto simp: hydrate_loop.simps [of tab_ids pending] Let_def)
      with np R restorable_live [OF 1(2)] 1(2,6) bytes_from_fold [of records c0 "hy_corrupt ?s" pending]
      show ?thesis by auto
    qed
  qed
qed


section \<open>The result\<close>

text \<open>The bytes the snapshot has under an identifier.\<close>

definition saved_bytes ::
    "(analysis_record \<times> string) list \<Rightarrow> (uuid, string) dict \<Rightarrow> uuid \<Rightarrow> string" where
  "saved_bytes records corrupt i =
     dict_get (map (\<lambda>(r, content). (rec_id r, content)) records @ corrupt) i []"

definition missing_ids :: "analysis_board \<Rightarrow> uuid list \<Rightarrow> uuid list" where
  "missing_ids b ids = filter (\<lambda>i. i \<notin> live_ids b) ids"

lemma add_missing_eq:
  assumes "distinct ids" "\<And>i. i \<in> set ids \<Longrightarrow> canonical i = Inr i"
    "set ids \<inter> fst ` set (ab_corrupt b) = {}"
    "\<And>i. i \<in> set ids \<Longrightarrow> i \<notin> live_ids b \<Longrightarrow>
      dict_get c i (case map_of by_id i of None \<Rightarrow> [] | Some rc \<Rightarrow> snd rc) = bytes i"
  shows "add_missing canonical c by_id ids b = (Inr (), b\<lparr>ab_corrupt := ab_corrupt b @
    map (\<lambda>i. (i, bytes i)) (missing_ids b ids)\<rparr>)"
  using assms
proof (induction ids arbitrary: b)
  case (Cons i ids)
  show ?case
  proof (cases "i \<in> live_ids b")
    case True
    have "add_missing canonical c by_id ids b = (Inr (), b\<lparr>ab_corrupt := ab_corrupt b @
        map (\<lambda>i. (i, bytes i)) (missing_ids b ids)\<rparr>)"
      using Cons.prems by (intro Cons.IH) auto
    then show ?thesis using True by (simp add: missing_ids_def)
  next
    case False
    let ?b = "b\<lparr>ab_corrupt := ab_corrupt b @ [(i, bytes i)]\<rparr>"
    have "add_missing canonical c by_id ids ?b = (Inr (), ?b\<lparr>ab_corrupt := ab_corrupt ?b @
        map (\<lambda>i. (i, bytes i)) (missing_ids ?b ids)\<rparr>)"
      using Cons.prems by (intro Cons.IH) auto
    moreover have "add_corrupt_analysis canonical i (bytes i) b = (Inr (), ?b)"
      using Cons.prems(2) [of i] Cons.prems(3) False
      by (simp add: add_corrupt_analysis_def known_analysis_def update_absent)
    ultimately show ?thesis
      using False Cons.prems(4) [of i] by (simp add: missing_ids_def Let_def)
  qed
qed (simp add: missing_ids_def)

lemma by_id_lookup:
  assumes "distinct (map (rec_id \<circ> fst) records)"
  shows "map_of (fold (\<lambda>rc. AList.update (rec_id (fst rc)) rc) records []) i =
    map_of (map (\<lambda>rc. (rec_id (fst rc), rc)) records) i"
proof -
  have "map_of (fold (\<lambda>rc. AList.update (rec_id (fst rc)) rc) records d) i =
      (case map_of (map (\<lambda>rc. (rec_id (fst rc), rc)) records) i of None \<Rightarrow> map_of d i | Some rc \<Rightarrow> Some rc)"
    for d
    using assms
  proof (induction records arbitrary: d)
    case (Cons rc records)
    have "i = rec_id (fst rc) \<Longrightarrow> map_of (map (\<lambda>rc. (rec_id (fst rc), rc)) records) i = None"
      using Cons.prems by (auto simp: map_of_None_iff_keys image_iff)
    then show ?case using Cons by (auto simp: update_conv' split: option.splits)
  qed simp
  from this [of "[]"] show ?thesis by (auto split: option.splits)
qed

lemma kept_bytes:
  assumes "distinct (map (rec_id \<circ> fst) records)" "bytes_from records corrupt c"
    "fst ` set corrupt \<inter> (rec_id \<circ> fst) ` set records = {}"
  shows "dict_get c i (case map_of (fold (\<lambda>rc. AList.update (rec_id (fst rc)) rc) records []) i of
      None \<Rightarrow> [] | Some rc \<Rightarrow> snd rc) = saved_bytes records corrupt i"
proof (cases "\<exists>rc \<in> set records. rec_id (fst rc) = i")
  case True
  then obtain rc where rc: "rc \<in> set records" "rec_id (fst rc) = i" by blast
  have uniq: "rc' = rc" if "rc' \<in> set records" "rec_id (fst rc') = i" for rc'
    using assms(1) rc that inj_onD [of "rec_id \<circ> fst" "set records" rc' rc] by (simp add: distinct_map)
  have "i \<notin> fst ` set corrupt" using assms(3) rc by auto
  then have "map_of corrupt i = None" by (simp add: map_of_None_iff_keys)
  then have c: "map_of c i = None \<or> map_of c i = Some (snd rc)"
    using assms(2) uniq unfolding bytes_from_def by metis
  have "map_of (map (\<lambda>rc. (rec_id (fst rc), rc)) records) i = Some rc"
    using rc assms(1) by (intro map_of_is_SomeI) (auto simp: comp_def)
  moreover have "map_of (map (\<lambda>(r, content). (rec_id r, content)) records) i = Some (snd rc)"
    using rc assms(1) by (intro map_of_is_SomeI) (force simp: comp_def case_prod_unfold)+
  ultimately show ?thesis
    using c by (auto simp: by_id_lookup [OF assms(1)] saved_bytes_def dict_get_def)
next
  case False
  then have "map_of (map (\<lambda>rc. (rec_id (fst rc), rc)) records) i = None"
    "map_of (map (\<lambda>(r, content). (rec_id r, content)) records) i = None"
    by (auto simp: map_of_None_iff_keys)
  moreover have "map_of c i = map_of corrupt i"
    using assms(2) False unfolding bytes_from_def by blast
  ultimately show ?thesis
    by (simp add: by_id_lookup [OF assms(1)] saved_bytes_def dict_get_def map_add_def)
qed

text \<open>C17: Restoring the Analyses of a snapshot always succeeds. Exactly the restorable records become live,
  each under its identifier, and exactly the identifiers that a Tab lists and that are not live are kept as
  corrupt Analyses, with the bytes the snapshot has for them; the Tabs stay as they are and the Workspace is
  well formed.\<close>

theorem hydration_exact:
  assumes "ab_inv b0" "ab_analyses b0 = []" "ab_corrupt b0 = []"
    "distinct (map (rec_id \<circ> fst) records)"
    "fst ` set corrupt \<inter> (rec_id \<circ> fst) ` set records = {}"
    "\<And>i. i \<in> set (claimed_ids b0) \<Longrightarrow> canonical i = Inr i"
  shows "\<exists>b. add_workspace_analyses canonical records corrupt b0 = (Inr (), b) \<and> ab_inv b \<and>
    ab_tabs b = ab_tabs b0 \<and>
    (\<forall>i r. map_of (ab_analyses b) i = Some r \<longleftrightarrow> rec_id r = i \<and> restorable b0 (fst ` set records) r) \<and>
    (\<forall>i. map_of (ab_corrupt b) i =
      (if i \<in> set (claimed_ids b0) \<and> map_of (ab_analyses b) i = None
       then Some (saved_bytes records corrupt i) else None))"
proof -
  let ?R = "fst ` set records" and ?ids = "sort (remdups (claimed_ids b0))"
  have inj: "inj_on rec_id ?R"
    using assms(4) unfolding distinct_map by (auto simp: inj_on_def)
  have h0: "hydrating b0 ?R b0 records"
    by (rule hydratingI) (use assms(1-4) in \<open>auto dest: restorable_mem\<close>)
  obtain b1 c1 where loop: "hydrate_loop (claimed_ids b0) records b0 corrupt = (b1, c1)" by fastforce
  have "bytes_from records corrupt corrupt" by (simp add: bytes_from_def)
  note L = hydrate_loop_spec [OF h0 inj refl this order_refl loop]
  then obtain todo where h: "hydrating b0 ?R b1 todo" and complete: "\<And>r. restorable b0 ?R r \<Longrightarrow> rec_id r \<in> live_ids b1"
    and by1: "bytes_from records corrupt c1" by blast
  note H = hydratingD [OF h]
  let ?b = "b1\<lparr>ab_corrupt := map (\<lambda>i. (i, saved_bytes records corrupt i)) (missing_ids b1 ?ids)\<rparr>"
  have eq: "add_workspace_analyses canonical records corrupt b0 = (Inr (), ?b)"
    using add_missing_eq [of ?ids canonical b1 c1 "fold (\<lambda>rc. AList.update (rec_id (fst rc)) rc) records []"
      "saved_bytes records corrupt"] kept_bytes [OF assms(4) by1 assms(5)] assms(6) H(3)
    by (simp add: add_workspace_analyses_def Let_def loop)
  have live: "map_of (ab_analyses b1) i = Some r \<longleftrightarrow> rec_id r = i \<and> restorable b0 ?R r" for i r
  proof
    assume "map_of (ab_analyses b1) i = Some r"
    then show "rec_id r = i \<and> restorable b0 ?R r"
      using H(4) ab_invD(5) [OF H(1)] map_of_SomeD by metis
  next
    assume r: "rec_id r = i \<and> restorable b0 ?R r"
    then obtain q where q: "map_of (ab_analyses b1) i = Some q"
      using complete [of r] map_of_None_iff_keys [of "ab_analyses b1" i] by (cases "map_of (ab_analyses b1) i") auto
    then have "rec_id q = i" "restorable b0 ?R q"
      using H(4) ab_invD(5) [OF H(1)] map_of_SomeD by metis+
    with r have "q = r" using inj_onD [OF inj, of q r] restorable_mem by metis
    with q show "map_of (ab_analyses b1) i = Some r" by simp
  qed
  have "wf_dict (ab_corrupt ?b)" by (simp add: comp_def missing_ids_def)
  moreover have "live_ids ?b \<inter> fst ` set (ab_corrupt ?b) = {}" by (force simp: missing_ids_def)
  ultimately have inv: "ab_inv ?b" using H(1) by (simp add: ab_inv_def)
  have "map_of (ab_corrupt ?b) i =
      (if i \<in> set (claimed_ids b0) \<and> map_of (ab_analyses ?b) i = None
       then Some (saved_bytes records corrupt i) else None)" for i
    by (simp add: map_of_map_restrict [of "\<lambda>i. saved_bytes records corrupt i"] restrict_map_def missing_ids_def
        map_of_None_iff_keys)
  with inv H(2) live show ?thesis unfolding eq by (intro exI [of _ ?b]) auto
qed


section \<open>Saving and restoring\<close>

text \<open>A saved Workspace whose Tabs and Analyses agree: every Analysis that is listed is listed by its own
  Tab, Sub-Analyses are in the Tab of their parent, and the Tabs list nothing unknown and everything
  corrupt.\<close>

definition board_agrees :: "analysis_board \<Rightarrow> bool" where
  "board_agrees b \<longleftrightarrow> ab_inv b \<and> (\<forall>(k, a) \<in> set (ab_analyses b). placed b a) \<and>
     (\<forall>(k, a) \<in> set (ab_analyses b). \<forall>(j, q) \<in> set (ab_analyses b).
        rec_parent_analysis_id a = Some j \<longrightarrow> rec_tab_id q = rec_tab_id a) \<and>
     fst ` set (ab_corrupt b) = set (claimed_ids b) - live_ids b"

definition saved_records :: "(analysis_record \<Rightarrow> string) \<Rightarrow> analysis_board \<Rightarrow> (analysis_record \<times> string) list" where
  "saved_records encode b = map (\<lambda>(k, a). (a, encode a)) (ab_analyses b)"

lemma round_in_order:
  assumes "ab_analyses b = xs @ ys" "board_agrees b" "set tab_ids = set (claimed_ids b)"
    "hy_board s = b\<lparr>ab_analyses := xs, ab_corrupt := []\<rparr>"
  shows "\<exists>s'. fold (hydrate_record tab_ids) (map (\<lambda>(k, a). (a, encode a)) ys) s = s' \<and>
    hy_board s' = b\<lparr>ab_corrupt := []\<rparr> \<and> hy_corrupt s' = hy_corrupt s \<and> hy_next s' = hy_next s \<and>
    (ys \<noteq> [] \<longrightarrow> hy_progressed s')"
  using assms(1,4)
proof (induction ys arbitrary: xs s)
  case (Cons y ys)
  obtain k a where y: "y = (k, a)" by (cases y)
  have inv: "ab_inv b" using assms(2) by (simp add: board_agrees_def)
  have ka: "rec_id a = k" using ab_invD(5) [OF inv, of k a] Cons.prems(1) by (simp add: y)
  have new: "k \<notin> fst ` set xs" using ab_invD(2) [OF inv] Cons.prems(1) by (auto simp: y)
  have parent: "\<exists>q. map_of xs p = Some q \<and> rec_tab_id q = rec_tab_id a"
    if p: "rec_parent_analysis_id a = Some p" for p
  proof -
    have "p \<in> fst ` set xs"
      using ab_invD(7) [OF inv] Cons.prems(1) p y unfolding parents_first_def by blast
    then obtain q where q: "map_of xs p = Some q"
      using map_of_None_iff_keys [of xs p] by (cases "map_of xs p") auto
    then have "rec_tab_id q = rec_tab_id a"
      using assms(2) p map_of_SomeD [OF q] Cons.prems(1) unfolding board_agrees_def by (auto simp: y)
    with q show ?thesis by blast
  qed
  let ?b = "hy_board s"
  have "placed ?b a" using assms(2) Cons.prems placed_cong [of ?b b a]
    unfolding board_agrees_def by (auto simp: y)
  moreover have "\<not> parent_pending ?b a" "\<not> parent_invalid a ?b"
    using parent by (cases "rec_parent_analysis_id a";
      auto simp: parent_pending_def parent_invalid_def Cons.prems(2) dict_keys_dom)+
  ultimately have step: "hydrate_record tab_ids (a, encode a) s =
      s\<lparr>hy_board := insert_analysis a ?b, hy_progressed := True\<rparr>"
    using hydrate_record_eq [of a s tab_ids "encode a"] new ka assms(3) Cons.prems(2)
      claimed_ids_cong [of ?b b] by simp
  have b': "insert_analysis a ?b = b\<lparr>ab_analyses := xs @ [y], ab_corrupt := []\<rparr>"
    using new by (simp add: insert_analysis_def Cons.prems(2) ka update_absent y)
  let ?t = "s\<lparr>hy_board := b\<lparr>ab_analyses := xs @ [y], ab_corrupt := []\<rparr>, hy_progressed := True\<rparr>"
  have sticky: "hy_progressed u \<Longrightarrow> hy_progressed (fold (hydrate_record tab_ids) rcs u)" for rcs u
    by (induction rcs arbitrary: u) (simp_all add: hydrate_record_counts)
  from Cons.IH [of "xs @ [y]" ?t] sticky [of ?t] show ?case
    using Cons.prems(1) step b' by (simp add: y)
qed simp

text \<open>Saving the Analyses of a Workspace whose Tabs agree with them and restoring them into its Tabs
  gives the same Workspace back, with the Analyses in their order.\<close>

theorem hydration_roundtrip:
  assumes "board_agrees b" "\<And>i. i \<in> set (claimed_ids b) \<Longrightarrow> canonical i = Inr i"
  shows "\<exists>b'. add_workspace_analyses canonical (saved_records encode b) (ab_corrupt b)
      (b\<lparr>ab_analyses := [], ab_corrupt := []\<rparr>) = (Inr (), b') \<and>
    ab_tabs b' = ab_tabs b \<and> ab_analyses b' = ab_analyses b \<and>
    map_of (ab_corrupt b') = map_of (ab_corrupt b)"
proof -
  let ?b0 = "b\<lparr>ab_analyses := [], ab_corrupt := []\<rparr>" and ?rs = "saved_records encode b"
  let ?ids = "sort (remdups (claimed_ids b))" and ?s = "hydrate_round (claimed_ids b) ?rs ?b0 (ab_corrupt b)"
  let ?b1 = "b\<lparr>ab_corrupt := []\<rparr>"
  have cl: "claimed_ids ?b0 = claimed_ids b" by (rule claimed_ids_cong) simp
  have keys: "fst ` set (ab_corrupt b) = set (claimed_ids b) - live_ids b"
    and inv: "ab_inv b" using assms(1) by (simp_all add: board_agrees_def)
  have round: "hy_board ?s = ?b1" "hy_corrupt ?s = ab_corrupt b" "hy_next ?s = []"
    "?rs \<noteq> [] \<longrightarrow> hy_progressed ?s"
    using round_in_order [of b "[]" "ab_analyses b" "claimed_ids b" "\<lparr>hy_board = ?b0,
      hy_corrupt = ab_corrupt b, hy_next = [], hy_progressed = False\<rparr>" encode] assms(1)
    unfolding hydrate_round_def saved_records_def by auto
  have loop: "hydrate_loop (claimed_ids b) ?rs ?b0 (ab_corrupt b) = (?b1, ab_corrupt b)"
  proof (cases "?rs = []")
    case True
    then show ?thesis by (simp add: hydrate_loop.simps saved_records_def)
  next
    case False
    then show ?thesis
      using round by (simp add: hydrate_loop.simps [of _ ?rs] hydrate_loop.simps [of _ "[]"] Let_def)
  qed
  let ?b2 = "b\<lparr>ab_corrupt := map (\<lambda>i. (i, dict_get (ab_corrupt b) i [])) (missing_ids b ?ids)\<rparr>"
  have dflt: "dict_get (ab_corrupt b) i d = dict_get (ab_corrupt b) i []" if "i \<in> set ?ids" "i \<notin> live_ids b" for i d
    using that keys map_of_None_iff_keys [of "ab_corrupt b" i] by (auto simp: dict_get_def split: option.splits)
  have "add_missing canonical (ab_corrupt b) by_id ?ids ?b1 = (Inr (), ?b1\<lparr>ab_corrupt := ab_corrupt ?b1 @
      map (\<lambda>i. (i, dict_get (ab_corrupt b) i [])) (missing_ids ?b1 ?ids)\<rparr>)" for by_id
    by (rule add_missing_eq) (simp_all add: assms(2), rule dflt, simp_all)
  then have "add_workspace_analyses canonical ?rs (ab_corrupt b) ?b0 = (Inr (), ?b2)"
    by (simp add: add_workspace_analyses_def cl loop missing_ids_def)
  moreover have "map_of (ab_corrupt ?b2) = map_of (ab_corrupt b)"
  proof
    fix i
    have "i \<in> set (missing_ids b ?ids) \<longleftrightarrow> map_of (ab_corrupt b) i \<noteq> None"
      using keys map_of_None_iff_keys [of "ab_corrupt b" i] by (auto simp: missing_ids_def)
    moreover have "map_of (ab_corrupt ?b2) = (\<lambda>i. Some (dict_get (ab_corrupt b) i [])) |` set (missing_ids b ?ids)"
      using map_of_map_restrict [of "\<lambda>i. dict_get (ab_corrupt b) i []"] by (simp add: comp_def)
    ultimately show "map_of (ab_corrupt ?b2) i = map_of (ab_corrupt b) i"
      by (cases "map_of (ab_corrupt b) i") (simp_all add: dict_get_def restrict_map_def)
  qed
  ultimately show ?thesis by (intro exI [of _ ?b2]) simp
qed


section \<open>Examples\<close>

text \<open>A snapshot that lists a Sub-Analysis before its parent, a record whose parent is lost, and an
  unreadable record.\<close>

definition example_tabs :: analysis_board where
  "example_tabs = snd (add_tab (example_tab\<lparr>tab_analysis_ids := [''x'', ''i'', ''c'', ''k'']\<rparr>) ab_init)"

definition example_snapshot :: "(analysis_record \<times> string) list" where
  "example_snapshot = [(example_child ''c'' ''i'', ''C''), (example_child ''k'' ''gone'', ''K''),
     (example_record, ''I'')]"

lemma example_snapshot_facts:
  "ab_inv example_tabs" "ab_analyses example_tabs = []" "ab_corrupt example_tabs = []"
  "distinct (map (rec_id \<circ> fst) example_snapshot)"
  "fst ` set [(''x'', ''X'')] \<inter> (rec_id \<circ> fst) ` set example_snapshot = {}"
proof -
  show "ab_inv example_tabs" unfolding example_tabs_def by (intro ab_inv_add_tab ab_inv_init)
  show "ab_analyses example_tabs = []" "ab_corrupt example_tabs = []"
    "distinct (map (rec_id \<circ> fst) example_snapshot)"
    "fst ` set [(''x'', ''X'')] \<inter> (rec_id \<circ> fst) ` set example_snapshot = {}"
    by code_simp+
qed

theorem hydration_exact_witness:
  "\<exists>b. add_workspace_analyses Inr example_snapshot [(''x'', ''X'')] example_tabs = (Inr (), b) \<and>
     map_of (ab_analyses b) ''k'' = None \<and> map_of (ab_corrupt b) ''k'' = Some ''K'' \<and>
     map_of (ab_corrupt b) ''x'' = Some ''X'' \<and> (\<exists>r. map_of (ab_analyses b) ''c'' = Some r)"
proof -
  let ?R = "fst ` set example_snapshot"
  obtain b where b: "add_workspace_analyses Inr example_snapshot [(''x'', ''X'')] example_tabs = (Inr (), b)"
    "\<And>i r. map_of (ab_analyses b) i = Some r \<longleftrightarrow> rec_id r = i \<and> restorable example_tabs ?R r"
    "\<And>i. map_of (ab_corrupt b) i = (if i \<in> set (claimed_ids example_tabs) \<and> map_of (ab_analyses b) i = None
       then Some (saved_bytes example_snapshot [(''x'', ''X'')] i) else None)"
    using hydration_exact [OF example_snapshot_facts, of Inr] by auto
  have R: "?R = {example_child ''c'' ''i'', example_child ''k'' ''gone'', example_record}"
    by (auto simp: example_snapshot_def)
  have ids: "rec_id example_record = ''i''" "rec_id (example_child i p) = i"
    "rec_parent_analysis_id (example_child i p) = Some p" "rec_parent_analysis_id example_record = None"
    "rec_tab_id (example_child i p) = rec_tab_id example_record" for i p
    by (simp_all add: example_child_def) code_simp+
  have placed: "placed example_tabs example_record" "placed example_tabs (example_child ''c'' ''i'')"
    by code_simp+
  have i: "restorable example_tabs ?R example_record" by (rule restorable.root) (simp_all add: R placed ids)
  have "restorable example_tabs ?R (example_child ''c'' ''i'')"
    by (rule restorable.child [OF _ _ _ i]) (simp_all add: R placed ids)
  then have c: "map_of (ab_analyses b) ''c'' = Some (example_child ''c'' ''i'')" by (simp add: b(2) ids)
  have gone: "rec_id q \<noteq> ''gone''" if "q \<in> ?R" for q using that by (auto simp: R ids)
  have "\<not> restorable example_tabs ?R (example_child ''k'' ''gone'')"
  proof
    assume "restorable example_tabs ?R (example_child ''k'' ''gone'')"
    then obtain q where "Some (rec_id q) = Some ''gone''" "restorable example_tabs ?R q"
      by (rule restorableE) (simp_all only: ids option.distinct)
    then show False using gone [of q] restorable_mem [of example_tabs ?R q] by simp
  qed
  then have "\<not> (rec_id r = ''k'' \<and> restorable example_tabs ?R r)" for r
    using restorable_mem [of example_tabs ?R r] by (auto simp: R ids)
  then have k: "map_of (ab_analyses b) ''k'' = None"
    using b(2) by (cases "map_of (ab_analyses b) ''k''") auto
  have "\<not> (rec_id r = ''x'' \<and> restorable example_tabs ?R r)" for r
    using restorable_mem [of example_tabs ?R r] by (auto simp: R ids)
  then have x: "map_of (ab_analyses b) ''x'' = None"
    using b(2) by (cases "map_of (ab_analyses b) ''x''") auto
  have cl: "''k'' \<in> set (claimed_ids example_tabs)" "''x'' \<in> set (claimed_ids example_tabs)"
    "saved_bytes example_snapshot [(''x'', ''X'')] ''k'' = ''K''"
    "saved_bytes example_snapshot [(''x'', ''X'')] ''x'' = ''X''"
    by code_simp+
  show ?thesis using b(1) c k x b(3) [of "''k''"] b(3) [of "''x''"] cl by auto
qed

end
