(* ===== verification/SnapshotFiles.thy ===== *)
theory SnapshotFiles
  imports SnapshotMetadata SnapshotHydration
begin

text \<open>
  Reading the records of a snapshot and removing what no snapshot refers to: \<open>_resolve_regular_under\<close>,
  \<open>_read_tabs\<close>, \<open>_read_analysis_records\<close>, \<open>_analysis_private_owner_ids\<close> and the garbage collection of
  \<^verbatim>\<open>infrastructure/storage/workspace_store.py\<close>.

  A file's content is its bytes. The garbage collection is given as the list of its deletions; the reads of
  a directory come before the deletions in it.
\<close>

section \<open>Files\<close>

text \<open>\<open>json.load\<close> of a UTF-8 file, the models of Tabs and of Analysis records, \<open>list_source_paths\<close> and
  \<open>Path(.).resolve()\<close>.\<close>

record codec = decoders +
  cd_json :: "string \<Rightarrow> jval result"
  cd_tab :: "jval \<Rightarrow> tab result"
  cd_record :: "string \<Rightarrow> analysis_record result"
  cd_sources :: "string \<Rightarrow> string list result"
  cd_resolve :: "string \<Rightarrow> path"

text \<open>\<open>WorkspaceStoreError\<close> and \<open>UnicodeError\<close> are kinds of \<open>ValueError\<close>.\<close>

fun value_error :: "error \<Rightarrow> bool" where
  "value_error (ValueError _) \<longleftrightarrow> True"
| "value_error (WorkspaceSnapshotInvalidError _) \<longleftrightarrow> True"
| "value_error (WorkspaceSchemaVersionError _) \<longleftrightarrow> True"
| "value_error (TabSnapshotInvalidError _) \<longleftrightarrow> True"
| "value_error (WorkspaceRevisionConflictError _ _) \<longleftrightarrow> True"
| "value_error (WorkspaceCapacityError _) \<longleftrightarrow> True"
| "value_error (WorkspaceSerializationError _) \<longleftrightarrow> True"
| "value_error AtomicWriteCapacityError \<longleftrightarrow> True"
| "value_error NodePlanCapacityError \<longleftrightarrow> True"
| "value_error _ \<longleftrightarrow> False"

fun file_error :: "error \<Rightarrow> bool" where
  "file_error (OSError _) \<longleftrightarrow> True"
| "file_error e \<longleftrightarrow> value_error e"

fun resolve_from :: "file_tree \<Rightarrow> path \<Rightarrow> path \<Rightarrow> path result" where
  "resolve_from t current [] =
     (case entry_at t current of Some (File content) \<Rightarrow> Inr current
      | _ \<Rightarrow> Inl (ValueError ''Workspace file is not regular''))"
| "resolve_from t current (part # parts) =
     (if part \<in> {'''', ''.'', ''..''} then Inl (ValueError ''Workspace file path is invalid'')
      else (case entry_at t (current @ [part]) of
          None \<Rightarrow> Inl (OSError ''lstat'')
        | Some (Link target) \<Rightarrow> Inl (ValueError ''Workspace file path contains a link or reparse point'')
        | Some _ \<Rightarrow> resolve_from t (current @ [part]) parts))"

definition resolve_regular_under :: "file_tree \<Rightarrow> path \<Rightarrow> path result" where
  "resolve_regular_under t relative =
     (if relative = [] then Inl (ValueError ''Workspace file path must be relative'')
      else resolve_from t [] relative)"

definition read_bytes :: "file_tree \<Rightarrow> path \<Rightarrow> string result" where
  "read_bytes t p = (case entry_at t p of Some (File content) \<Rightarrow> Inr content | _ \<Rightarrow> Inl (OSError ''open''))"

section \<open>Tab records\<close>

definition read_tab :: "'x codec_scheme \<Rightarrow> file_tree \<Rightarrow> int \<Rightarrow> uuid \<times> path \<Rightarrow> int \<Rightarrow> uuid list \<Rightarrow> (tab \<times> int) result" where
  "read_tab c t max_bytes ref used ids =
     except_as file_error (TabSnapshotInvalidError (fst ref))
      (bind_result (resolve_regular_under t (snd ref)) (\<lambda>p. bind_result (read_bytes t p) (\<lambda>content.
        let size = int (length content) in
        if size < 1 \<or> used + size > max_bytes then
          Inl (ValueError ''Workspace Tab records exceed their byte budget'')
        else bind_result (cd_json c content) (\<lambda>payload. bind_result (cd_tab c payload) (\<lambda>tab.
          raise_first
            [(tab_id tab \<noteq> fst ref, ValueError ''Workspace Tab identity does not match its reference''),
             (has_duplicates (tab_analysis_ids tab), ValueError ''A Tab cannot contain duplicate Analysis IDs''),
             (set ids \<inter> set (tab_analysis_ids tab) \<noteq> {},
              ValueError ''An Analysis cannot belong to multiple Tabs'')] (tab, size))))))"

fun read_tabs_from ::
    "'x codec_scheme \<Rightarrow> file_tree \<Rightarrow> int \<Rightarrow> (uuid \<times> path) list \<Rightarrow> tab list \<Rightarrow> int \<Rightarrow> (tab list \<times> int) result" where
  "read_tabs_from c t max_bytes [] tabs used = Inr (tabs, used)"
| "read_tabs_from c t max_bytes (ref # refs) tabs used =
     bind_result (read_tab c t max_bytes ref used (concat (map tab_analysis_ids tabs))) (\<lambda>(tab, size).
       read_tabs_from c t max_bytes refs (tabs @ [tab]) (used + size))"

definition read_tabs ::
    "'x codec_scheme \<Rightarrow> file_tree \<Rightarrow> (uuid \<times> path) list \<Rightarrow> int \<Rightarrow> (tab list \<times> int) result" where
  "read_tabs c t refs max_bytes = read_tabs_from c t max_bytes refs [] 0"

section \<open>Analysis records\<close>

record loaded_records =
  lr_records :: "(analysis_record \<times> string) list"
  lr_corrupt :: "(uuid, string) dict"
  lr_bytes :: int

definition record_content :: "file_tree \<Rightarrow> path \<Rightarrow> string" where
  "record_content t relative =
     (case bind_result (resolve_regular_under t relative) (read_bytes t) of Inl e \<Rightarrow> [] | Inr content \<Rightarrow> content)"

definition matching_record :: "'x codec_scheme \<Rightarrow> uuid \<Rightarrow> string \<Rightarrow> analysis_record result" where
  "matching_record c i content = bind_result (cd_record c content) (\<lambda>r.
     if rec_id r \<noteq> i then Inl (ValueError ''Analysis identity does not match its reference'') else Inr r)"

fun read_records_from ::
    "'x codec_scheme \<Rightarrow> file_tree \<Rightarrow> int \<Rightarrow> (uuid \<times> path) list \<Rightarrow> loaded_records \<Rightarrow> loaded_records result" where
  "read_records_from c t max_bytes [] l = Inr l"
| "read_records_from c t max_bytes ((i, relative) # refs) l =
     (let content = record_content t relative; size = int (length content) in
      if lr_bytes l + size > max_bytes then
        Inl (WorkspaceCapacityError ''Workspace Analysis records exceed their byte budget'')
      else (case matching_record c i content of
          Inr r \<Rightarrow> read_records_from c t max_bytes refs
            (l\<lparr>lr_records := lr_records l @ [(r, content)], lr_bytes := lr_bytes l + size\<rparr>)
        | Inl e \<Rightarrow> if value_error e then read_records_from c t max_bytes refs
            (l\<lparr>lr_corrupt := AList.update i content (lr_corrupt l), lr_bytes := lr_bytes l + size\<rparr>)
            else Inl e))"

definition read_analysis_records ::
    "'x codec_scheme \<Rightarrow> file_tree \<Rightarrow> (uuid \<times> path) list \<Rightarrow> int \<Rightarrow> loaded_records result" where
  "read_analysis_records c t refs max_bytes =
     read_records_from c t max_bytes refs \<lparr>lr_records = [], lr_corrupt = [], lr_bytes = 0\<rparr>"

section \<open>Owners of private storage\<close>

record owners =
  ow_execution :: "uuid list"
  ow_artifacts :: "uuid list"
  ow_query_snapshot :: "uuid list"

definition unfinished :: "analysis_record \<Rightarrow> bool" where
  "unfinished r \<longleftrightarrow> lc_state r \<in> {QUEUED, RUNNING}"

text \<open>A succeeded supporting Analysis keeps its storage while its parent may still read it.\<close>

definition retains_execution :: "(uuid \<Rightarrow> analysis_record option) \<Rightarrow> analysis_record \<Rightarrow> bool" where
  "retains_execution lookup r \<longleftrightarrow> unfinished r \<or>
     rec_execution_scope r = Supporting \<and> lc_state r = SUCCEEDED \<and>
       (case rec_parent_analysis_id r of None \<Rightarrow> False
        | Some p \<Rightarrow> (case lookup p of None \<Rightarrow> False | Some parent \<Rightarrow> unfinished parent))"

definition owners_among ::
    "(uuid \<Rightarrow> analysis_record option) \<Rightarrow> analysis_record list \<Rightarrow> uuid list \<Rightarrow> owners" where
  "owners_among lookup records corrupt_ids =
     \<lparr>ow_execution = map rec_id (filter (retains_execution lookup) records) @ corrupt_ids,
      ow_artifacts = map rec_id (filter (\<lambda>r. lc_state r = SUCCEEDED) records) @ corrupt_ids,
      ow_query_snapshot = map rec_id (filter (\<lambda>r. lc_state r = SUCCEEDED \<and> rec_query_snapshot r \<noteq> None)
        records) @ corrupt_ids\<rparr>"

definition analysis_private_owner_ids ::
    "'x codec_scheme \<Rightarrow> file_tree \<Rightarrow> (uuid \<times> path) list \<Rightarrow> int \<Rightarrow> owners result" where
  "analysis_private_owner_ids c t refs max_bytes =
     bind_result (read_analysis_records c t refs max_bytes) (\<lambda>l.
       let records = map fst (lr_records l)
       in Inr (owners_among (\<lambda>p. find (\<lambda>r. rec_id r = p) records) records (dict_keys (lr_corrupt l))))"

section \<open>Garbage collection\<close>

definition delete_entry :: "file_tree \<Rightarrow> path \<Rightarrow> fs_action" where
  "delete_entry t p = (if plain_dir t p then Rmtree p else Unlink p)"

definition collect_tab_directory :: "file_tree \<Rightarrow> path set \<Rightarrow> path \<Rightarrow> fs_action list" where
  "collect_tab_directory t expected d =
     (if \<not> plain_dir t d then (if d \<notin> expected then [Unlink d] else [])
      else map (\<lambda>n. delete_entry t (d @ [n])) (filter (\<lambda>n. d @ [n] \<notin> expected) (names_in t d)) @ [Rmdir d])"

definition garbage_collect_tabs :: "file_tree \<Rightarrow> (uuid \<times> path) list \<Rightarrow> fs_action list result" where
  "garbage_collect_tabs t refs =
     (if \<not> path_exists t [''tabs''] then Inr []
      else if \<not> plain_dir t [''tabs''] then Inl (ValueError ''Workspace tabs path is invalid'')
      else Inr (concat (map (\<lambda>n. collect_tab_directory t (snd ` set refs) [''tabs'', n]) (names_in t [''tabs'']))
        @ [Rmdir [''tabs'']]))"

definition private_kept :: "owners \<Rightarrow> uuid \<Rightarrow> string \<Rightarrow> bool" where
  "private_kept ow i name \<longleftrightarrow>
     (if name = ''.execution'' \<or> name = ''staged-output'' then i \<in> set (ow_execution ow)
      else if name = ''artifacts'' then i \<in> set (ow_artifacts ow)
      else if name = ''query-input'' then i \<in> set (ow_query_snapshot ow) else False)"

definition collect_analysis_directory :: "file_tree \<Rightarrow> path set \<Rightarrow> owners \<Rightarrow> string \<Rightarrow> fs_action list" where
  "collect_analysis_directory t expected ow i =
     (let d = [''analyses'', i] in
      if \<not> plain_dir t d then (if d \<notin> expected then [Unlink d] else [])
      else if d \<notin> butlast ` expected then [Rmtree d]
      else map (\<lambda>n. delete_entry t (d @ [n]))
          (filter (\<lambda>n. d @ [n] \<notin> expected \<and> \<not> (private_kept ow i n \<and> plain_dir t (d @ [n]))) (names_in t d))
        @ [Rmdir d])"

definition garbage_collect_analyses ::
    "file_tree \<Rightarrow> (uuid \<times> path) list \<Rightarrow> owners \<Rightarrow> fs_action list result" where
  "garbage_collect_analyses t refs ow =
     (if \<not> path_exists t [''analyses''] then Inr []
      else if \<not> plain_dir t [''analyses''] then Inl (ValueError ''Workspace analyses path is invalid'')
      else Inr (concat (map (collect_analysis_directory t (snd ` set refs) ow) (names_in t [''analyses'']))
        @ [Rmdir [''analyses'']]))"

text \<open>\<open>base\<close> is the resolved path of the Workspace, \<open>data_paths\<close> the paths of the registered plans. A plan
  behind a link, which no accepted snapshot has, cannot be read.\<close>

definition lower_ascii :: "string \<Rightarrow> string" where
  "lower_ascii = map (\<lambda>ch. if ascii_upper ch then char_of (of_char ch + 32 :: nat) else ch)"

definition file_name :: "path \<Rightarrow> string" where
  "file_name p = (if p = [] then [] else last p)"

fun collect_sources :: "'x codec_scheme \<Rightarrow> file_tree \<Rightarrow> path list \<Rightarrow> path list result" where
  "collect_sources c t [] = Inr []"
| "collect_sources c t (plan # plans) =
     bind_result (read_bytes t plan) (\<lambda>content. bind_result (cd_sources c content) (\<lambda>raws.
       bind_result (collect_sources c t plans) (\<lambda>rest. Inr (map (cd_resolve c) raws @ rest))))"

fun resolved_file :: "path \<Rightarrow> path \<Rightarrow> entry option \<Rightarrow> path option" where
  "resolved_file base p (Some (File content)) = Some (base @ p)"
| "resolved_file base p (Some (Link (ToFile target))) = Some target"
| "resolved_file base p _ = None"

definition collect_data_file ::
    "path \<Rightarrow> file_tree \<Rightarrow> string list \<Rightarrow> path list \<Rightarrow> string \<Rightarrow> fs_action list" where
  "collect_data_file base t expected sources n =
     (case resolved_file base [''data'', n] (entry_at t [''data'', n]) of None \<Rightarrow> []
      | Some resolved \<Rightarrow>
          let suffix = lower_ascii (path_suffix n) in
          if suffix = ''.plbin'' then (if n \<notin> set expected then [Unlink [''data'', n]] else [])
          else if suffix = ''.parquet'' then (if resolved \<notin> set sources then [Unlink [''data'', n]] else [])
          else [])"

definition garbage_collect_data ::
    "'x codec_scheme \<Rightarrow> path \<Rightarrow> file_tree \<Rightarrow> path list \<Rightarrow> fs_action list result" where
  "garbage_collect_data c base t data_paths =
     (if entry_at t [''data''] \<notin> {Some Dir, Some (Link ToDir)} then Inr []
      else
        (let expected = remdups (map file_name data_paths);
             registered = filter (path_exists t) (map (\<lambda>n. [''data'', n]) expected)
         in bind_result (collect_sources c t registered) (\<lambda>sources.
           Inr (concat (map (collect_data_file base t expected sources) (names_in t [''data'']))))))"

text \<open>The three collections in turn; an exception ends them.\<close>

definition garbage_collection ::
    "'x codec_scheme \<Rightarrow> path \<Rightarrow> file_tree \<Rightarrow> path list \<Rightarrow> (uuid \<times> path) list \<Rightarrow> (uuid \<times> path) list \<Rightarrow> owners \<Rightarrow>
     fs_action list \<times> error option" where
  "garbage_collection c base t data_paths tabs analyses ow =
     (case garbage_collect_data c base t data_paths of
        Inl e \<Rightarrow> ([], Some e)
      | Inr first \<Rightarrow>
          let t1 = fold perform first t in
          (case garbage_collect_tabs t1 tabs of
             Inl e \<Rightarrow> (first, Some e)
           | Inr second \<Rightarrow>
               let t2 = fold perform second t1 in
               (case garbage_collect_analyses t2 analyses ow of
                  Inl e \<Rightarrow> (first @ second, Some e)
                | Inr third \<Rightarrow> (first @ second @ third, None))))"

end
