(* ===== verification/SnapshotCollection.thy ===== *)
theory SnapshotCollection
  imports SnapshotFiles
begin

text \<open>
  What the garbage collection of \<open>SnapshotFiles\<close> may delete. It runs after a commit point, and a crash or an
  error may stop it anywhere, so the statements are about every prefix of its deletions.
\<close>

section \<open>The deletions of each collection\<close>

lemma tab_deletions:
  assumes "garbage_collect_tabs t refs = Inr acts" "a \<in> set acts"
  obtains (stray) n where "a = Unlink [''tabs'', n]" "\<not> plain_dir t [''tabs'', n]"
    | (old) n m where "a = delete_entry t [''tabs'', n, m]" "[''tabs'', n, m] \<notin> snd ` set refs"
    | (empty) n where "a = Rmdir [''tabs'', n]"
    | (all_empty) "a = Rmdir [''tabs'']"
  using assms unfolding garbage_collect_tabs_def collect_tab_directory_def
  by (auto split: if_splits)

lemma analysis_deletions:
  assumes "garbage_collect_analyses t refs ow = Inr acts" "a \<in> set acts"
  obtains (stray) n where "a = Unlink [''analyses'', n]" "\<not> plain_dir t [''analyses'', n]"
    | (gone) n where "a = Rmtree [''analyses'', n]" "[''analyses'', n] \<notin> butlast ` snd ` set refs"
    | (old) n m where "a = delete_entry t [''analyses'', n, m]" "[''analyses'', n, m] \<notin> snd ` set refs"
      "\<not> (private_kept ow n m \<and> plain_dir t [''analyses'', n, m])"
    | (empty) n where "a = Rmdir [''analyses'', n]"
    | (all_empty) "a = Rmdir [''analyses'']"
proof -
  have "(\<exists>n. a \<in> set (collect_analysis_directory t (snd ` set refs) ow n)) \<or> a = Rmdir [''analyses'']"
    using assms unfolding garbage_collect_analyses_def by (auto split: if_splits)
  then show thesis
  proof (elim disjE exE)
    fix n
    assume "a \<in> set (collect_analysis_directory t (snd ` set refs) ow n)"
    then consider "a = Unlink [''analyses'', n]" "\<not> plain_dir t [''analyses'', n]"
      | "a = Rmtree [''analyses'', n]" "[''analyses'', n] \<notin> butlast ` snd ` set refs"
      | m where "a = delete_entry t [''analyses'', n, m]" "[''analyses'', n, m] \<notin> snd ` set refs"
        "\<not> (private_kept ow n m \<and> plain_dir t [''analyses'', n, m])"
      | "a = Rmdir [''analyses'', n]"
      unfolding collect_analysis_directory_def Let_def
      by (cases "plain_dir t [''analyses'', n]"; cases "[''analyses'', n] \<in> butlast ` snd ` set refs")
        (auto split: if_splits)
    then show thesis by cases (fact that)+
  qed (fact all_empty)
qed

lemma data_deletions:
  assumes "garbage_collect_data c base t data_paths = Inr acts" "a \<in> set acts"
  obtains (plan) n where "a = Unlink [''data'', n]" "lower_ascii (path_suffix n) = ''.plbin''"
      "n \<notin> file_name ` set data_paths" "\<not> plain_dir t [''data'', n]"
    | (source) n sources resolved where "a = Unlink [''data'', n]" "lower_ascii (path_suffix n) = ''.parquet''"
      "collect_sources c t (filter (path_exists t) (map (\<lambda>n. [''data'', n]) (remdups (map file_name data_paths)))) =
        Inr sources"
      "resolved_file base [''data'', n] (entry_at t [''data'', n]) = Some resolved" "resolved \<notin> set sources"
proof -
  have dir: "entry_at t p \<noteq> Some Dir" if "resolved_file base p (entry_at t p) = Some r" for p r
    using that by (cases "(base, p, entry_at t p)" rule: resolved_file.cases) auto
  obtain sources n where s: "collect_sources c t (filter (path_exists t)
      (map (\<lambda>n. [''data'', n]) (remdups (map file_name data_paths)))) = Inr sources"
    "a \<in> set (collect_data_file base t (remdups (map file_name data_paths)) sources n)"
    using assms unfolding garbage_collect_data_def Let_def
    by (auto simp: bind_result_Inr_iff split: if_splits)
  then obtain resolved where r: "resolved_file base [''data'', n] (entry_at t [''data'', n]) = Some resolved"
    by (cases "resolved_file base [''data'', n] (entry_at t [''data'', n])") (simp_all add: collect_data_file_def)
  show thesis
  proof (cases "lower_ascii (path_suffix n) = ''.plbin''")
    case True
    then show thesis using s(2) r dir [OF r] by (intro plan [of n])
      (simp_all add: collect_data_file_def plain_dir_def split: if_splits)
  next
    case False
    then show thesis using s r by (intro source [of n sources resolved])
      (simp_all add: collect_data_file_def Let_def split: if_splits)
  qed
qed

section \<open>What is retained\<close>

text \<open>The records and plans the snapshot refers to, the sources of its plans, the private storage of owners, and
  whatever is outside the three directories.\<close>

definition plan_sources :: "'x codec_scheme \<Rightarrow> file_tree \<Rightarrow> path list \<Rightarrow> path set" where
  "plan_sources c t data_paths = {s. \<exists>p \<in> set data_paths. \<exists>content raws. path_exists t [''data'', file_name p] \<and>
     read_bytes t [''data'', file_name p] = Inr content \<and> cd_sources c content = Inr raws \<and>
     s \<in> cd_resolve c ` set raws}"

definition retained ::
    "'x codec_scheme \<Rightarrow> path \<Rightarrow> file_tree \<Rightarrow> path list \<Rightarrow> (uuid \<times> path) list \<Rightarrow> (uuid \<times> path) list \<Rightarrow> owners \<Rightarrow>
     path \<Rightarrow> bool" where
  "retained c base t data_paths tabs analyses ow q \<longleftrightarrow>
     (\<exists>p \<in> snd ` set tabs \<union> snd ` set analyses. prefix p q) \<or>
     (\<exists>i n rest. q = [''analyses'', i, n] @ rest \<and> i \<in> fst ` set analyses \<and> private_kept ow i n \<and>
        plain_dir t [''analyses'', i, n]) \<or>
     (\<exists>n. q = [''data'', n] \<and> (n \<in> file_name ` set data_paths \<and> lower_ascii (path_suffix n) = ''.plbin'' \<or>
        lower_ascii (path_suffix n) = ''.parquet'' \<and>
          resolved_file base q (entry_at t q) \<in> Some ` plan_sources c t data_paths)) \<or>
     (\<exists>n rest. q = n # rest \<and> n \<notin> {''tabs'', ''analyses'', ''data''})"

lemma retained_reference:
  "p \<in> snd ` set tabs \<union> snd ` set analyses \<Longrightarrow> retained c base t data_paths tabs analyses ow (p @ rest)"
  unfolding retained_def by (intro disjI1 bexI [of _ p]) simp_all

lemma retained_private:
  "i \<in> fst ` set analyses \<Longrightarrow> private_kept ow i n \<Longrightarrow> plain_dir t [''analyses'', i, n] \<Longrightarrow>
   retained c base t data_paths tabs analyses ow ([''analyses'', i, n] @ rest)"
  unfolding retained_def
  by (rule disjI2, rule disjI1, rule exI [of _ i], rule exI [of _ n], rule exI [of _ rest]) simp

lemma collect_sources_set:
  "collect_sources c t plans = Inr sources \<Longrightarrow>
   set sources = {s. \<exists>p \<in> set plans. \<exists>content raws. read_bytes t p = Inr content \<and>
     cd_sources c content = Inr raws \<and> s \<in> cd_resolve c ` set raws}"
proof (induction plans arbitrary: sources)
  case (Cons plan plans)
  then obtain content raws rest where "read_bytes t plan = Inr content" "cd_sources c content = Inr raws"
    "collect_sources c t plans = Inr rest" "sources = map (cd_resolve c) raws @ rest"
    by (auto simp: bind_result_Inr_iff)
  with Cons.IH show ?case by (simp add: Un_def)
qed simp

lemma collected_sources:
  assumes "collect_sources c t (filter (path_exists t) (map (\<lambda>n. [''data'', n]) (remdups (map file_name data_paths)))) =
      Inr sources"
  shows "set sources = plan_sources c t data_paths"
  unfolding collect_sources_set [OF assms] plan_sources_def by auto

lemma refs_ok_path:
  assumes "refs_ok d field refs" "p \<in> snd ` set refs"
  obtains i n where "p = [field, i, n]" "i \<in> fst ` set refs"
proof -
  obtain i where i: "(i, p) \<in> set refs" using assms(2) by auto
  with assms(1) obtain n where "p = [field, i, n]" unfolding refs_ok_def by blast
  then show thesis using that i by force
qed

lemma retained_cases:
  assumes "retained c base t data_paths tabs analyses ow q" "refs_ok d ''tabs'' tabs"
    "refs_ok d ''analyses'' analyses"
  obtains (tab) i n rest where "q = [''tabs'', i, n] @ rest" "[''tabs'', i, n] \<in> snd ` set tabs"
    | (analysis) i n rest where "q = [''analyses'', i, n] @ rest" "[''analyses'', i, n] \<in> snd ` set analyses"
    | (kept) i n rest m where "q = [''analyses'', i, n] @ rest" "[''analyses'', i, m] \<in> snd ` set analyses"
      "private_kept ow i n" "plain_dir t [''analyses'', i, n]"
    | (plan) n where "q = [''data'', n]" "n \<in> file_name ` set data_paths" "lower_ascii (path_suffix n) = ''.plbin''"
    | (source) n resolved where "q = [''data'', n]" "lower_ascii (path_suffix n) = ''.parquet''"
      "resolved_file base q (entry_at t q) = Some resolved" "resolved \<in> plan_sources c t data_paths"
    | (other) n rest where "q = n # rest" "n \<notin> {''tabs'', ''analyses'', ''data''}"
  using assms(1) unfolding retained_def
proof (elim disjE bexE exE conjE)
  fix p
  assume p: "p \<in> snd ` set tabs \<union> snd ` set analyses" "prefix p q"
  from p(2) obtain rest where q: "q = p @ rest" by (auto simp: prefix_def)
  from p(1) show thesis
  proof
    assume "p \<in> snd ` set tabs"
    with q tab show thesis by (metis refs_ok_path [OF assms(2)])
  next
    assume "p \<in> snd ` set analyses"
    with q analysis show thesis by (metis refs_ok_path [OF assms(3)])
  qed
next
  fix i n rest
  assume q: "q = [''analyses'', i, n] @ rest" "i \<in> fst ` set analyses" "private_kept ow i n"
    "plain_dir t [''analyses'', i, n]"
  then obtain p where "(i, p) \<in> set analyses" by auto
  with assms(3) obtain m where "p = [''analyses'', i, m]" unfolding refs_ok_def by blast
  with \<open>(i, p) \<in> set analyses\<close> have "[''analyses'', i, m] \<in> snd ` set analyses" by force
  with q show thesis by (intro kept)
next
  fix n
  assume "q = [''data'', n]" "n \<in> file_name ` set data_paths" "lower_ascii (path_suffix n) = ''.plbin''"
  then show thesis by (rule plan)
next
  fix n
  assume q: "q = [''data'', n]" "lower_ascii (path_suffix n) = ''.parquet''"
    "resolved_file base q (entry_at t q) \<in> Some ` plan_sources c t data_paths"
  from q(3) show thesis by (elim imageE, intro source [OF q(1,2)])
next
  fix n rest
  assume "q = n # rest" "n \<notin> {''tabs'', ''analyses'', ''data''}"
  then show thesis by (rule other)
qed

lemma spares_data:
  assumes "garbage_collect_data c base t data_paths = Inr acts" "a \<in> set acts"
    "retained c base t data_paths tabs analyses ow q" "refs_ok d ''tabs'' tabs" "refs_ok d ''analyses'' analyses"
  shows "spares q a"
  using assms(1,2)
proof (cases rule: data_deletions)
  case (plan n)
  from assms(3-5) plan show ?thesis by (cases rule: retained_cases) auto
next
  case (source n sources resolved)
  note sources = collected_sources [OF source(3)]
  from assms(3-5) show ?thesis
    by (cases rule: retained_cases) (use source sources in auto)
qed

lemma spares_tabs:
  assumes "garbage_collect_tabs t1 tabs = Inr acts" "a \<in> set acts"
    "retained c base t data_paths tabs analyses ow q" "refs_ok d ''tabs'' tabs" "refs_ok d ''analyses'' analyses"
    "\<And>i n rest. q = [''tabs'', i, n] @ rest \<Longrightarrow> plain_dir t1 [''tabs'', i]"
  shows "spares q a"
  using assms(1,2)
proof (cases rule: tab_deletions)
  case (stray n)
  from assms(3-5) assms(6) stray show ?thesis by (cases rule: retained_cases) auto
next
  case (old n m)
  from assms(3-5) old show ?thesis by (cases rule: retained_cases) (auto simp: delete_entry_def)
next
  case (empty n)
  from assms(3-5) empty show ?thesis by (cases rule: retained_cases) auto
next
  case all_empty
  from assms(3-5) all_empty show ?thesis by (cases rule: retained_cases) auto
qed

lemma spares_analyses:
  assumes "garbage_collect_analyses t2 analyses ow = Inr acts" "a \<in> set acts"
    "retained c base t data_paths tabs analyses ow q" "refs_ok d ''tabs'' tabs" "refs_ok d ''analyses'' analyses"
    "\<And>i n rest. q = [''analyses'', i, n] @ rest \<Longrightarrow> plain_dir t2 [''analyses'', i] \<and>
      (plain_dir t [''analyses'', i, n] \<longrightarrow> plain_dir t2 [''analyses'', i, n])"
  shows "spares q a"
  using assms(1,2)
proof (cases rule: analysis_deletions)
  case (stray n)
  from assms(3-5) assms(6) stray show ?thesis by (cases rule: retained_cases) auto
next
  case (gone n)
  have "[''analyses'', i] \<in> butlast ` snd ` set analyses" if "[''analyses'', i, m] \<in> snd ` set analyses" for i m
    using imageI [OF that, of butlast] by simp
  with assms(3-5) gone show ?thesis by (cases rule: retained_cases) auto
next
  case (old n m)
  from assms(3-5) assms(6) old show ?thesis by (cases rule: retained_cases) (auto simp: delete_entry_def)
next
  case (empty n)
  from assms(3-5) empty show ?thesis by (cases rule: retained_cases) auto
next
  case all_empty
  from assms(3-5) all_empty show ?thesis by (cases rule: retained_cases) auto
qed


section \<open>What is kept and what is removed\<close>

lemma garbage_collection_parts:
  assumes "garbage_collection c base t data_paths tabs analyses ow = (acts, e)"
  obtains first second third where "acts = first @ second @ third"
    "garbage_collect_data c base t data_paths = Inr first \<or> first = []"
    "garbage_collect_tabs (fold perform first t) tabs = Inr second \<or> second = []"
    "garbage_collect_analyses (fold perform (first @ second) t) analyses ow = Inr third \<or> third = []"
    "e = None \<Longrightarrow> garbage_collect_data c base t data_paths = Inr first \<and>
      garbage_collect_tabs (fold perform first t) tabs = Inr second \<and>
      garbage_collect_analyses (fold perform (first @ second) t) analyses ow = Inr third"
proof (cases "garbage_collect_data c base t data_paths")
  case (Inl x)
  with assms show thesis by (intro that [of "[]" "[]" "[]"]) (auto simp: garbage_collection_def)
next
  case 1: (Inr first)
  show thesis
  proof (cases "garbage_collect_tabs (fold perform first t) tabs")
    case (Inl x)
    with 1 assms show thesis
      by (intro that [of first "[]" "[]"]) (auto simp: garbage_collection_def Let_def)
  next
    case 2: (Inr second)
    show thesis
    proof (cases "garbage_collect_analyses (fold perform (first @ second) t) analyses ow")
      case (Inl x)
      with 1 2 assms show thesis
        by (intro that [of first second "[]"]) (auto simp: garbage_collection_def Let_def)
    next
      case (Inr third)
      with 1 2 assms show thesis
        by (intro that [of first second third]) (auto simp: garbage_collection_def Let_def)
    qed
  qed
qed

lemma kept_dir:
  assumes "tree_ok t" "map_of t q = Some e" "strict_prefix p q" "p \<noteq> []"
    "\<And>a. a \<in> set acts \<Longrightarrow> spares q a"
  shows "plain_dir (fold perform acts t) p"
proof -
  have "map_of t p = Some Dir" using tree_prefix_dir [OF assms(1-3)] assms(4) by (simp add: entry_at_def)
  moreover have "map_of (fold perform acts t) p = map_of t p"
    using assms(2,3) by (intro fold_perform_spares [OF assms(5)]) auto
  ultimately show ?thesis using assms(4) by (simp add: plain_dir_def entry_at_def)
qed

lemma garbage_collection_spares:
  assumes ok: "tree_ok t" and refs: "refs_ok d ''tabs'' tabs" "refs_ok d ''analyses'' analyses"
    and gc: "garbage_collection c base t data_paths tabs analyses ow = (acts, e)"
    and q: "retained c base t data_paths tabs analyses ow q" "map_of t q \<noteq> None"
    and a: "a \<in> set acts"
  shows "spares q a"
proof -
  obtain x where x: "map_of t q = Some x" using q(2) by auto
  from gc obtain first second third where acts: "acts = first @ second @ third"
    and 1: "garbage_collect_data c base t data_paths = Inr first \<or> first = []"
    and 2: "garbage_collect_tabs (fold perform first t) tabs = Inr second \<or> second = []"
    and 3: "garbage_collect_analyses (fold perform (first @ second) t) analyses ow = Inr third \<or> third = []"
    by (rule garbage_collection_parts)
  have s1: "spares q b" if "b \<in> set first" for b
    using 1 spares_data [OF _ that q(1) refs] that by auto
  have s2: "spares q b" if b: "b \<in> set second" for b
  proof -
    have "plain_dir (fold perform first t) [''tabs'', i]" if "q = [''tabs'', i, n] @ rest" for i n rest
      using that by (intro kept_dir [OF ok x _ _ s1]) (auto simp: strict_prefix_def)
    with 2 spares_tabs [OF _ b q(1) refs] b show ?thesis by auto
  qed
  have s12: "spares q b" if "b \<in> set (first @ second)" for b using that s1 s2 by auto
  have s3: "spares q b" if b: "b \<in> set third" for b
  proof -
    have "plain_dir (fold perform (first @ second) t) [''analyses'', i] \<and>
        (plain_dir t [''analyses'', i, n] \<longrightarrow> plain_dir (fold perform (first @ second) t) [''analyses'', i, n])"
      if qe: "q = [''analyses'', i, n] @ rest" for i n rest
    proof
      show "plain_dir (fold perform (first @ second) t) [''analyses'', i]"
        using qe by (intro kept_dir [OF ok x _ _ s12]) (auto simp: strict_prefix_def)
      have "map_of (fold perform (first @ second) t) [''analyses'', i, n] = map_of t [''analyses'', i, n]"
        using qe by (intro fold_perform_spares [OF s12 q(2)]) auto
      then show "plain_dir t [''analyses'', i, n] \<longrightarrow> plain_dir (fold perform (first @ second) t) [''analyses'', i, n]"
        by (simp add: plain_dir_def entry_at_def)
    qed
    with 3 spares_analyses [OF _ b q(1) refs] b show ?thesis by auto
  qed
  from a acts s1 s2 s3 show ?thesis by auto
qed

lemma garbage_collection_keeps:
  assumes "tree_ok t" "refs_ok d ''tabs'' tabs" "refs_ok d ''analyses'' analyses"
    "garbage_collection c base t data_paths tabs analyses ow = (acts, e)"
    "retained c base t data_paths tabs analyses ow q" "map_of t q \<noteq> None" "prefix r q"
  shows "map_of (fold perform (take n acts) t) r = map_of t r"
  by (rule fold_perform_spares [OF garbage_collection_spares [OF assms(1-6)] assms(6,7)])
    (rule in_set_takeD)

lemma deleted_entry:
  assumes "delete_entry t1 d \<in> set acts" "prefix d q" "tree_ok t" "map_of t q \<noteq> None"
    "map_of t1 d = map_of t d" "d \<noteq> []"
  shows "map_of (fold perform acts t') q = None"
proof (cases "plain_dir t1 d")
  case True
  then show ?thesis using fold_perform_removes [OF assms(1)] assms(2) by (auto simp: delete_entry_def)
next
  case False
  have "d = q"
  proof (rule ccontr)
    assume "d \<noteq> q"
    then have "strict_prefix d q" using assms(2) by simp
    moreover obtain x where "map_of t q = Some x" using assms(4) by auto
    ultimately have "entry_at t d = Some Dir" by (intro tree_prefix_dir [OF assms(3)])
    then show False using False assms(5,6) by (simp add: plain_dir_def entry_at_def)
  qed
  then show ?thesis using fold_perform_removes [OF assms(1)] False by (auto simp: delete_entry_def)
qed

lemma data_deletions_path:
  "garbage_collect_data c base t data_paths = Inr acts \<Longrightarrow> a \<in> set acts \<Longrightarrow> \<exists>n. action_path a = [''data'', n]"
  by (erule data_deletions, assumption) auto

lemma tab_deletions_path:
  "garbage_collect_tabs t refs = Inr acts \<Longrightarrow> a \<in> set acts \<Longrightarrow> prefix [''tabs''] (action_path a)"
  by (erule tab_deletions, assumption) (auto simp: delete_entry_def)

lemma old_tab_removed:
  assumes ok: "tree_ok t" and gc: "garbage_collect_tabs t1 refs = Inr acts"
    and same: "\<And>r. prefix [''tabs''] r \<Longrightarrow> map_of t1 r = map_of t r"
    and q: "q = [''tabs'', i, n] @ rest" "map_of t q \<noteq> None" "[''tabs'', i, n] \<notin> snd ` set refs"
  shows "map_of (fold perform acts t') q = None"
proof -
  obtain x where x: "map_of t q = Some x" using q(2) by auto
  have dirs: "plain_dir t1 [''tabs'']" "plain_dir t1 [''tabs'', i]"
    using tree_prefix_dir [OF ok x, of "[''tabs'']"] tree_prefix_dir [OF ok x, of "[''tabs'', i]"] same q(1)
    by (auto simp: plain_dir_def entry_at_def strict_prefix_def)
  have key: "map_of t r \<noteq> None" if "prefix r q" "r \<noteq> []" for r
    using tree_prefix_dir [OF ok x, of r] that x by (cases "r = q") (auto simp: entry_at_def)
  have n: "i \<in> set (names_in t1 [''tabs''])" "n \<in> set (names_in t1 [''tabs'', i])"
    using key [of "[''tabs'', i]"] key [of "[''tabs'', i, n]"] same q(1) by (simp_all add: names_in_iff)
  have "delete_entry t1 [''tabs'', i, n] \<in> set (collect_tab_directory t1 (snd ` set refs) [''tabs'', i])"
    using dirs(2) n(2) q(3) by (auto simp: collect_tab_directory_def)
  moreover have "path_exists t1 [''tabs'']" using dirs(1) by (simp add: path_exists_def plain_dir_def)
  ultimately have "delete_entry t1 [''tabs'', i, n] \<in> set acts"
    using gc dirs(1) n(1) by (auto simp: garbage_collect_tabs_def)
  then show ?thesis
    by (rule deleted_entry [OF _ _ ok q(2) same]) (simp_all add: q(1))
qed

lemma old_analysis_removed:
  assumes ok: "tree_ok t" and gc: "garbage_collect_analyses t2 refs ow = Inr acts"
    and same: "\<And>r. prefix [''analyses''] r \<Longrightarrow> map_of t2 r = map_of t r"
    and q: "q = [''analyses'', i, n] @ rest" "map_of t q \<noteq> None" "[''analyses'', i, n] \<notin> snd ` set refs"
      "\<not> ([''analyses'', i] \<in> butlast ` snd ` set refs \<and> private_kept ow i n \<and> plain_dir t [''analyses'', i, n])"
  shows "map_of (fold perform acts t') q = None"
proof -
  obtain x where x: "map_of t q = Some x" using q(2) by auto
  have dirs: "plain_dir t2 [''analyses'']" "plain_dir t2 [''analyses'', i]"
    using tree_prefix_dir [OF ok x, of "[''analyses'']"] tree_prefix_dir [OF ok x, of "[''analyses'', i]"] same q(1)
    by (auto simp: plain_dir_def entry_at_def strict_prefix_def)
  have key: "map_of t r \<noteq> None" if "prefix r q" "r \<noteq> []" for r
    using tree_prefix_dir [OF ok x, of r] that x by (cases "r = q") (auto simp: entry_at_def)
  have n: "i \<in> set (names_in t2 [''analyses''])" "n \<in> set (names_in t2 [''analyses'', i])"
    using key [of "[''analyses'', i]"] key [of "[''analyses'', i, n]"] same q(1) by (simp_all add: names_in_iff)
  have "path_exists t2 [''analyses'']" using dirs(1) by (simp add: path_exists_def plain_dir_def)
  then have acts: "set (collect_analysis_directory t2 (snd ` set refs) ow i) \<subseteq> set acts"
    using gc dirs(1) n(1) by (auto simp: garbage_collect_analyses_def)
  show ?thesis
  proof (cases "[''analyses'', i] \<in> butlast ` snd ` set refs")
    case True
    have "plain_dir t2 [''analyses'', i, n] = plain_dir t [''analyses'', i, n]"
      using same by (simp add: plain_dir_def entry_at_def)
    then have "delete_entry t2 [''analyses'', i, n] \<in> set (collect_analysis_directory t2 (snd ` set refs) ow i)"
    proof -
      have "collect_analysis_directory t2 (snd ` set refs) ow i = map (\<lambda>n. delete_entry t2 [''analyses'', i, n])
          (filter (\<lambda>n. [''analyses'', i, n] \<notin> snd ` set refs \<and> \<not> (private_kept ow i n \<and>
            plain_dir t2 [''analyses'', i, n])) (names_in t2 [''analyses'', i])) @ [Rmdir [''analyses'', i]]"
        using dirs(2) True by (simp add: collect_analysis_directory_def Let_def)
      moreover assume "plain_dir t2 [''analyses'', i, n] = plain_dir t [''analyses'', i, n]"
      ultimately show ?thesis using n(2) q(3,4) True by simp
    qed
    then have "delete_entry t2 [''analyses'', i, n] \<in> set acts" using acts by blast
    then show ?thesis by (rule deleted_entry [OF _ _ ok q(2) same]) (simp_all add: q(1))
  next
    case False
    then have "Rmtree [''analyses'', i] \<in> set acts"
      using dirs(2) acts by (simp add: collect_analysis_directory_def)
    then show ?thesis by (rule fold_perform_removes) (simp add: q(1))
  qed
qed

lemma old_data_removed:
  assumes gc: "garbage_collect_data c base t data_paths = Inr acts"
    and q: "q = [''data'', n]" "map_of t [''data''] = Some Dir" "map_of t q \<noteq> None"
      "resolved_file base q (entry_at t q) = Some resolved"
      "lower_ascii (path_suffix n) = ''.plbin'' \<and> n \<notin> file_name ` set data_paths \<or>
       lower_ascii (path_suffix n) = ''.parquet'' \<and> resolved \<notin> plan_sources c t data_paths"
  shows "map_of (fold perform acts t') q = None"
proof -
  obtain sources where s: "collect_sources c t (filter (path_exists t)
      (map (\<lambda>n. [''data'', n]) (remdups (map file_name data_paths)))) = Inr sources"
    "acts = concat (map (collect_data_file base t (remdups (map file_name data_paths)) sources)
      (names_in t [''data'']))"
    using gc q(2) by (auto simp: garbage_collect_data_def bind_result_Inr_iff Let_def entry_at_def split: if_splits)
  have "Unlink q \<in> set (collect_data_file base t (remdups (map file_name data_paths)) sources n)"
    using q collected_sources [OF s(1)] by (auto simp: collect_data_file_def Let_def)
  moreover have "n \<in> set (names_in t [''data''])" using q(1,3) by (simp add: names_in_iff)
  ultimately have "Unlink q \<in> set acts" by (auto simp: s(2))
  then show ?thesis by (rule fold_perform_removes) simp
qed

text \<open>A file that only some generation of the snapshot can need.\<close>

definition generation_file :: "path \<Rightarrow> file_tree \<Rightarrow> path \<Rightarrow> bool" where
  "generation_file base t q \<longleftrightarrow>
     (\<exists>i n rest. q = [''tabs'', i, n] @ rest \<or> q = [''analyses'', i, n] @ rest) \<or>
     (\<exists>n. q = [''data'', n] \<and> lower_ascii (path_suffix n) \<in> {''.plbin'', ''.parquet''} \<and>
        resolved_file base q (entry_at t q) \<noteq> None)"

text \<open>A file of an old generation that is left is one of those retained.\<close>

lemma garbage_collection_leaves:
  assumes "tree_ok t" "refs_ok d ''tabs'' tabs" "refs_ok d ''analyses'' analyses"
    "garbage_collection c base t data_paths tabs analyses ow = (acts, None)"
    and gen: "generation_file base t q" and left: "map_of (fold perform acts t) q \<noteq> None"
  shows "retained c base t data_paths tabs analyses ow q"
proof -
  obtain first second third where acts: "acts = first @ second @ third"
    and gc: "garbage_collect_data c base t data_paths = Inr first"
      "garbage_collect_tabs (fold perform first t) tabs = Inr second"
      "garbage_collect_analyses (fold perform (first @ second) t) analyses ow = Inr third"
    using garbage_collection_parts [OF assms(4)] by metis
  have q: "map_of t q \<noteq> None" using left fold_perform_decreases [of acts t q] by auto
  have same1: "map_of (fold perform first t) r = map_of t r" if "prefix [h] r" "h \<noteq> ''data''" for r h
    using that by (intro fold_perform_elsewhere) (auto dest!: data_deletions_path [OF gc(1)] simp: prefix_def)
  have same2: "map_of (fold perform (first @ second) t) r = map_of t r" if "prefix [''analyses''] r" for r
    using that tab_deletions_path [OF gc(2)] same1 [OF that]
    by (subst fold_append, unfold comp_apply, subst fold_perform_elsewhere) (fastforce simp: prefix_def)+
  show "retained c base t data_paths tabs analyses ow q"
    using gen unfolding generation_file_def
  proof (elim disjE exE conjE)
    fix i n rest assume qe: "q = [''tabs'', i, n] @ rest"
    have "[''tabs'', i, n] \<in> snd ` set tabs"
    proof (rule ccontr)
      assume "[''tabs'', i, n] \<notin> snd ` set tabs"
      from old_tab_removed [OF assms(1) gc(2) same1 qe q this, where t' = "fold perform first t"]
      have "map_of (fold perform third (fold perform second (fold perform first t))) q = None"
        using fold_perform_decreases [of third "fold perform second (fold perform first t)" q] by fastforce
      with left show False by (simp add: acts)
    qed
    then show ?thesis unfolding qe by (intro retained_reference) simp
  next
    fix i n rest assume qe: "q = [''analyses'', i, n] @ rest"
    show ?thesis
    proof (rule ccontr)
      assume "\<not> ?thesis"
      then have no: "[''analyses'', i, n] \<notin> snd ` set analyses"
        and no2: "\<not> (i \<in> fst ` set analyses \<and> private_kept ow i n \<and> plain_dir t [''analyses'', i, n])"
        using retained_reference [of "[''analyses'', i, n]" tabs analyses c base t data_paths ow rest]
          retained_private [of i analyses ow n t c base data_paths tabs rest] unfolding qe by blast+
      have "i \<in> fst ` set analyses" if dir: "[''analyses'', i] \<in> butlast ` snd ` set analyses"
      proof -
        from dir obtain p where p: "p \<in> snd ` set analyses" "butlast p = [''analyses'', i]"
          by (elim imageE [of _ butlast]) simp
        from assms(3) p(1) obtain j m where "p = [''analyses'', j, m]" "j \<in> fst ` set analyses"
          by (rule refs_ok_path)
        with p(2) show ?thesis by simp
      qed
      with no2 have "\<not> ([''analyses'', i] \<in> butlast ` snd ` set analyses \<and> private_kept ow i n \<and>
          plain_dir t [''analyses'', i, n])" by blast
      from old_analysis_removed [OF assms(1) gc(3) same2 qe q no this, where t' = "fold perform (first @ second) t"] left
      show False by (simp add: acts)
    qed
  next
    fix n assume n: "q = [''data'', n]" "lower_ascii (path_suffix n) \<in> {''.plbin'', ''.parquet''}"
      "resolved_file base q (entry_at t q) \<noteq> None"
    then obtain resolved where r: "resolved_file base q (entry_at t q) = Some resolved" by auto
    have dir: "map_of t [''data''] = Some Dir"
      using tree_prefix_dir [OF assms(1), of q _ "[''data'']"] q n(1) by (auto simp: entry_at_def strict_prefix_def)
    show ?thesis
    proof (rule ccontr)
      assume "\<not> ?thesis"
      then have "lower_ascii (path_suffix n) = ''.plbin'' \<and> n \<notin> file_name ` set data_paths \<or>
          lower_ascii (path_suffix n) = ''.parquet'' \<and> resolved \<notin> plan_sources c t data_paths"
        using n r unfolding retained_def by auto
      from old_data_removed [OF gc(1) n(1) dir q r this, where t' = t]
      have "map_of (fold perform (second @ third) (fold perform first t)) q = None"
        using fold_perform_decreases [of "second @ third" "fold perform first t" q] by fastforce
      with left show False by (simp add: acts)
    qed
  qed
qed

text \<open>C16: Wherever the garbage collection is interrupted, it has removed nothing that the snapshot refers to:
  its Tab and Analysis records, its plans and their sources, the private storage of the Analyses that still
  own it, and whatever else is in the Workspace. If it is not interrupted, no other generation file is left.\<close>

theorem garbage_collection_exact:
  assumes "tree_ok t" "refs_ok d ''tabs'' tabs" "refs_ok d ''analyses'' analyses"
    "garbage_collection c base t data_paths tabs analyses ow = (acts, e)"
  shows "(\<forall>n q r. retained c base t data_paths tabs analyses ow q \<longrightarrow> map_of t q \<noteq> None \<longrightarrow> prefix r q \<longrightarrow>
      map_of (fold perform (take n acts) t) r = map_of t r) \<and>
    (e = None \<longrightarrow> (\<forall>q. generation_file base t q \<longrightarrow> map_of (fold perform acts t) q \<noteq> None \<longrightarrow>
      retained c base t data_paths tabs analyses ow q))"
proof (intro conjI allI impI)
  show "map_of (fold perform (take n acts) t) r = map_of t r"
    if "retained c base t data_paths tabs analyses ow q" "map_of t q \<noteq> None" "prefix r q" for n q r
    by (rule garbage_collection_keeps [OF assms that])
next
  show "retained c base t data_paths tabs analyses ow q"
    if "e = None" "generation_file base t q" "map_of (fold perform acts t) q \<noteq> None" for q
    by (rule garbage_collection_leaves [OF assms(1-3) assms(4) [unfolded that(1)] that(2,3)])
qed

section \<open>Example\<close>

text \<open>A Workspace with a plan, a Tab and an Analysis at revision 1, and an orphan of an earlier crash.\<close>

definition example_snapshot_payload :: "int \<Rightarrow> string \<Rightarrow> jval" where
  "example_snapshot_payload revision file = JObj
     [(''workspace_metadata'', JObj [(''id'', JStr ''w''), (''name'', JStr ''Corpus''), (''version'', JInt 17),
        (''description'', JStr ''''), (''created_at'', JStr ''1''), (''modified_at'', JStr ''12''),
        (''revision'', JInt revision)]),
      (''nodes'', JList [JObj [(''node_metadata'', JObj [(''id'', JStr ''n''), (''provenance'', JNull)]),
         (''data_path'', JStr (''data/n.'' @ file @ ''.plbin''))]]),
      (''tabs'', JList [JObj [(''id'', JStr ''t''), (''record_path'', JStr (''tabs/t/'' @ file @ ''.json''))]]),
      (''analyses'', JList [JObj [(''id'', JStr ''i''),
         (''record_path'', JStr (''analyses/i/'' @ file @ ''.json''))]])]"

definition example_codec :: codec where
  "example_codec = decoders.extend example_decoders
     \<lparr>cd_json = (\<lambda>content. if content = ''one'' then Inr (example_snapshot_payload 1 ''r1'')
        else if content = ''two'' then Inr (example_snapshot_payload 2 ''r2'') else Inr JNull),
      cd_tab = (\<lambda>_. Inr (example_tab\<lparr>tab_analysis_ids := [''i'']\<rparr>)),
      cd_record = (\<lambda>_. Inr example_record),
      cd_sources = (\<lambda>_. Inr []),
      cd_resolve = (\<lambda>raw. [raw])\<rparr>"

definition example_tree :: "string \<Rightarrow> string \<Rightarrow> file_tree" where
  "example_tree metadata file =
     [([''workspace.json''], File metadata), ([''data''], Dir), ([''data'', ''n.'' @ file @ ''.plbin''], File ''plan''),
      ([''tabs''], Dir), ([''tabs'', ''t''], Dir), ([''tabs'', ''t'', file @ ''.json''], File ''tab''),
      ([''analyses''], Dir), ([''analyses'', ''i''], Dir),
      ([''analyses'', ''i'', file @ ''.json''], File ''record'')]"

definition example_disk :: file_tree where
  "example_disk = example_tree ''one'' ''r1'' @ [([''analyses'', ''i'', ''r0.json''], File ''orphan''),
     ([''analyses'', ''i'', ''.execution''], Dir), ([''analyses'', ''i'', ''.execution'', ''part''], File ''x'')]"

definition example_collection :: "fs_action list \<times> error option" where
  "example_collection = garbage_collection example_codec [''w''] example_disk [[''data'', ''n.r1.plbin'']]
     [(''t'', [''tabs'', ''t'', ''r1.json''])] [(''i'', [''analyses'', ''i'', ''r1.json''])]
     \<lparr>ow_execution = [''i''], ow_artifacts = [], ow_query_snapshot = []\<rparr>"

theorem garbage_collection_exact_witness:
  "map_of (fold perform (fst example_collection) example_disk) [''analyses'', ''i'', ''r1.json''] = Some (File ''record'') \<and>
   map_of (fold perform (fst example_collection) example_disk) [''analyses'', ''i'', ''.execution'', ''part''] =
     Some (File ''x'') \<and>
   map_of (fold perform (fst example_collection) example_disk) [''analyses'', ''i'', ''r0.json''] = None"
proof -
  let ?tabs = "[(''t'', [''tabs'', ''t'', ''r1.json''])]" and ?analyses = "[(''i'', [''analyses'', ''i'', ''r1.json''])]"
  let ?ow = "\<lparr>ow_execution = [''i''], ow_artifacts = [], ow_query_snapshot = []\<rparr>"
  have ok: "tree_ok example_disk" by (rule tree_ok_check, code_simp)
  have refs: "refs_ok example_decoders ''tabs'' ?tabs" "refs_ok example_decoders ''analyses'' ?analyses"
    by (auto simp: refs_ok_def example_decoders_def path_suffix_def)
  have run: "garbage_collection example_codec [''w''] example_disk [[''data'', ''n.r1.plbin'']] ?tabs ?analyses ?ow =
      (fst example_collection, snd example_collection)"
    by (simp add: example_collection_def)
  have finished: "snd example_collection = None" by code_simp
  note kept = garbage_collection_exact [OF ok refs run, THEN conjunct1, rule_format,
      where n = "length (fst example_collection)", unfolded take_all [OF order_refl]]
  have disk: "map_of example_disk [''analyses'', ''i'', ''r1.json''] = Some (File ''record'')"
    "map_of example_disk [''analyses'', ''i'', ''.execution'', ''part''] = Some (File ''x'')" by code_simp+
  have priv: "private_kept ?ow ''i'' ''.execution''" "plain_dir example_disk [''analyses'', ''i'', ''.execution'']"
    by code_simp+
  have orphan: "\<not> retained example_codec [''w''] example_disk [[''data'', ''n.r1.plbin'']] ?tabs ?analyses ?ow
      [''analyses'', ''i'', ''r0.json'']"
    by (simp add: retained_def private_kept_def)
  have left: "generation_file [''w''] example_disk [''analyses'', ''i'', ''r0.json'']"
    by (simp add: generation_file_def)
  have keep1: "retained example_codec [''w''] example_disk [[''data'', ''n.r1.plbin'']] ?tabs ?analyses ?ow
      [''analyses'', ''i'', ''r1.json'']"
    using retained_reference [of "[''analyses'', ''i'', ''r1.json'']" ?tabs ?analyses example_codec _ _ _ _ "[]"] by simp
  have keep2: "retained example_codec [''w''] example_disk [[''data'', ''n.r1.plbin'']] ?tabs ?analyses ?ow
      [''analyses'', ''i'', ''.execution'', ''part'']"
    using retained_private [OF _ priv, of ?analyses example_codec _ _ _ "[''part'']"] by simp
  show ?thesis
    using kept [OF keep1 _ prefix_order.refl] kept [OF keep2 _ prefix_order.refl] disk finished left orphan
      garbage_collection_exact [OF ok refs run]
    by (simp only: option.distinct not_False_eq_True) blast
qed

end
