(* ===== verification/SnapshotStore.thy ===== *)
theory SnapshotStore
  imports SnapshotCollection
begin

text \<open>
  The class \<open>WorkspaceStore\<close> of \<^verbatim>\<open>infrastructure/storage/workspace_store.py\<close>: inspecting a snapshot, publishing a
  staged generation and reconciling after a crash.

  The directory of a Workspace is a \<open>file_tree\<close>, the staging directory another one. Publication is a list of
  steps, so that a process that dies in the middle leaves the tree after a prefix of them. \<open>fsync\<close> changes no
  tree. A file that is moved through a link to a directory leaves the tree.
\<close>

section \<open>Inspection\<close>

record workspace_store =
  st_max_nodes :: int
  st_max_snapshot_bytes :: int

definition store_init :: "int \<Rightarrow> int \<Rightarrow> workspace_store result" where
  "store_init max_nodes max_snapshot_bytes =
     raise_first [(max_nodes < 1 \<or> max_snapshot_bytes < 1, ValueError ''Workspace store limits must be positive'')]
       \<lparr>st_max_nodes = max_nodes, st_max_snapshot_bytes = max_snapshot_bytes\<rparr>"

definition METADATA_PATH :: path where
  "METADATA_PATH = [''workspace.json'']"

text \<open>\<open>except WorkspaceStoreError: raise\<close> before \<open>except (OSError, ValueError)\<close>.\<close>

fun store_error :: "error \<Rightarrow> bool" where
  "store_error (ValueError _) \<longleftrightarrow> False"
| "store_error AtomicWriteCapacityError \<longleftrightarrow> False"
| "store_error NodePlanCapacityError \<longleftrightarrow> False"
| "store_error e \<longleftrightarrow> value_error e"

fun foreign_error :: "error \<Rightarrow> bool" where
  "foreign_error (KeyError _) \<longleftrightarrow> True"
| "foreign_error (TypeError _) \<longleftrightarrow> True"
| "foreign_error e \<longleftrightarrow> file_error e"

fun path_error :: "error \<Rightarrow> bool" where
  "path_error (TypeError _) \<longleftrightarrow> True"
| "path_error e \<longleftrightarrow> file_error e"

definition load_metadata :: "'x codec_scheme \<Rightarrow> file_tree \<Rightarrow> jval result" where
  "load_metadata c t = read_workspace_metadata c (bind_result (read_bytes t METADATA_PATH) (cd_json c))"

definition plan_path :: "jval \<Rightarrow> path result" where
  "plan_path entry = bind_result (jitem entry ''data_path'') (\<lambda>raw. case raw of
      JStr s \<Rightarrow> if py_startswith s ''/'' \<or> ''..'' \<in> set (posix_parts s)
        then Inl (ValueError ''Workspace plan path is invalid'') else Inr (posix_parts s)
    | _ \<Rightarrow> Inl (TypeError ''path''))"

fun scan_plans :: "file_tree \<Rightarrow> jval list \<Rightarrow> path list \<Rightarrow> int \<Rightarrow> int result" where
  "scan_plans t [] seen used = Inr used"
| "scan_plans t (entry # entries) seen used =
     bind_result (plan_path entry) (\<lambda>relative. bind_result (resolve_regular_under t relative) (\<lambda>plan.
       if plan \<in> set seen then Inl (ValueError ''Workspace nodes cannot share a plan'')
       else bind_result (read_bytes t plan) (\<lambda>content.
         scan_plans t entries (plan # seen) (used + int (length content)))))"

definition within_bytes :: "workspace_store \<Rightarrow> snapshot_info \<Rightarrow> int \<Rightarrow> snapshot_info result" where
  "within_bytes st info used =
     (if used > st_max_snapshot_bytes st then Inl (WorkspaceCapacityError ''Workspace snapshot exceeds its byte limit'')
      else Inr (info\<lparr>si_serialized_bytes := nat used\<rparr>))"

text \<open>The bytes of the Tab and Analysis records, within what the plans and the metadata leave.\<close>

definition record_bytes :: "'x codec_scheme \<Rightarrow> workspace_store \<Rightarrow> file_tree \<Rightarrow> jval \<Rightarrow> int \<Rightarrow> int result" where
  "record_bytes c st t payload used =
     (if used > st_max_snapshot_bytes st then Inl (WorkspaceCapacityError ''Workspace snapshot exceeds its byte limit'')
      else bind_result (tab_references c payload) (\<lambda>tabs.
        bind_result (read_tabs c t tabs (st_max_snapshot_bytes st - used)) (\<lambda>(_, tab_bytes).
          bind_result (analysis_references c payload) (\<lambda>analyses.
            bind_result (read_analysis_records c t analyses (st_max_snapshot_bytes st - (used + tab_bytes)))
              (\<lambda>l. Inr (used + tab_bytes + lr_bytes l))))))"

definition inspect_metadata :: "'x codec_scheme \<Rightarrow> file_tree \<Rightarrow> (jval \<times> snapshot_info) result" where
  "inspect_metadata c t =
     except_as (\<lambda>e. file_error e \<and> \<not> store_error e) (WorkspaceSnapshotInvalidError ''Workspace snapshot is invalid'')
       (bind_result (load_metadata c t) (\<lambda>payload. bind_result (snapshot_info_of c payload) (\<lambda>info.
         Inr (payload, info))))"

definition entries_of :: "jval \<Rightarrow> jval list" where
  "entries_of payload = (case jget payload ''nodes'' of JList entries \<Rightarrow> entries | _ \<Rightarrow> [])"

definition inspect_snapshot :: "'x codec_scheme \<Rightarrow> workspace_store \<Rightarrow> file_tree \<Rightarrow> bool \<Rightarrow> snapshot_info result" where
  "inspect_snapshot c st t validate_tabs =
     bind_result (inspect_metadata c t) (\<lambda>(payload, info).
       if int (si_node_count info) > st_max_nodes st then
         Inl (WorkspaceCapacityError ''Workspace node count exceeds its limit'')
       else bind_result (read_bytes t METADATA_PATH) (\<lambda>content.
         bind_result (except_as foreign_error
             (WorkspaceSnapshotInvalidError ''Workspace snapshot plan references are invalid'')
             (scan_plans t (entries_of payload) [] (int (length content)))) (\<lambda>used.
           if validate_tabs then bind_result (record_bytes c st t payload used) (within_bytes st info)
           else within_bytes st info used)))"

definition inspect_complete :: "'x codec_scheme \<Rightarrow> workspace_store \<Rightarrow> file_tree \<Rightarrow> snapshot_info result" where
  "inspect_complete c st t = inspect_snapshot c st t True"

section \<open>Publishing\<close>

text \<open>\<open>directory.mkdir(parents=True, exist_ok=True)\<close>: an error leaves the directories already made.\<close>

fun make_dirs :: "path \<Rightarrow> path \<Rightarrow> file_tree \<Rightarrow> unit result \<times> file_tree" where
  "make_dirs current [] t = (Inr (), t)"
| "make_dirs current (part # parts) t =
     (let d = current @ [part] in
      case entry_at t d of
        None \<Rightarrow> make_dirs d parts (AList.update d Dir t)
      | Some Dir \<Rightarrow> make_dirs d parts t
      | Some (Link ToDir) \<Rightarrow> (Inr (), t)
      | Some _ \<Rightarrow> (Inl (OSError ''mkdir''), t))"

definition behind_link :: "file_tree \<Rightarrow> path \<Rightarrow> bool" where
  "behind_link t p \<longleftrightarrow> (\<exists>q \<in> set (prefixes p). q \<noteq> p \<and> entry_at t q = Some (Link ToDir))"

text \<open>\<open>os.replace\<close> of a file with this content.\<close>

definition replace_file :: "path \<Rightarrow> string \<Rightarrow> file_tree \<Rightarrow> unit result \<times> file_tree" where
  "replace_file p content t =
     (if behind_link t p then (Inr (), t)
      else if entry_at t (butlast p) \<noteq> Some Dir \<or> entry_at t p = Some Dir then (Inl (OSError ''replace''), t)
      else (Inr (), AList.update p (File content) t))"

datatype publish_step = MakeDirs path | MoveFile path | MoveMetadata

text \<open>The first tree is the Workspace, the second the staging directory. A move resolves its source before the
  target's directory is made.\<close>

definition replace_from :: "path \<Rightarrow> string result \<Rightarrow> file_tree \<times> file_tree \<Rightarrow> unit result \<times> file_tree \<times> file_tree" where
  "replace_from p source s =
     (case source of Inl e \<Rightarrow> (Inl e, s)
      | Inr content \<Rightarrow> (case replace_file p content (fst s) of
          (Inl e, t) \<Rightarrow> (Inl e, t, snd s)
        | (Inr _, t) \<Rightarrow> (Inr (), t, AList.delete p (snd s))))"

fun publish :: "publish_step \<Rightarrow> file_tree \<times> file_tree \<Rightarrow> unit result \<times> file_tree \<times> file_tree" where
  "publish (MakeDirs p) s =
     (case resolve_regular_under (snd s) p of Inl e \<Rightarrow> (Inl e, s)
      | Inr _ \<Rightarrow> (let (r, t) = make_dirs [] (butlast p) (fst s) in (r, t, snd s)))"
| "publish (MoveFile p) s =
     replace_from p (bind_result (resolve_regular_under (snd s) p) (read_bytes (snd s))) s"
| "publish MoveMetadata s = replace_from METADATA_PATH (read_bytes (snd s) METADATA_PATH) s"

fun publish_all :: "publish_step list \<Rightarrow> file_tree \<times> file_tree \<Rightarrow> unit result \<times> file_tree \<times> file_tree" where
  "publish_all [] s = (Inr (), s)"
| "publish_all (step # steps) s =
     (case publish step s of (Inl e, s') \<Rightarrow> (Inl e, s') | (Inr _, s') \<Rightarrow> publish_all steps s')"

definition move_steps :: "path list \<Rightarrow> publish_step list" where
  "move_steps paths = concat (map (\<lambda>p. [MakeDirs p, MoveFile p]) paths)"

record generation =
  gn_plans :: "path list"
  gn_tabs :: "(uuid \<times> path) list"
  gn_analyses :: "(uuid \<times> path) list"
  gn_owners :: owners

definition generation_paths :: "generation \<Rightarrow> path list" where
  "generation_paths g = gn_plans g @ map snd (gn_tabs g) @ map snd (gn_analyses g)"

text \<open>What is read of the staged generation before anything is moved.\<close>

definition staged_generation :: "'x codec_scheme \<Rightarrow> workspace_store \<Rightarrow> file_tree \<Rightarrow> generation result" where
  "staged_generation c st staging =
     bind_result (load_metadata c staging) (\<lambda>payload.
       bind_result (analysis_references c payload) (\<lambda>analyses.
         bind_result (analysis_private_owner_ids c staging analyses (st_max_snapshot_bytes st)) (\<lambda>ow.
           bind_result (map_result plan_path (entries_of payload)) (\<lambda>plans.
             bind_result (tab_references c payload) (\<lambda>tabs.
               Inr \<lparr>gn_plans = plans, gn_tabs = tabs, gn_analyses = analyses, gn_owners = ow\<rparr>)))))"

definition staged_checks :: "int \<Rightarrow> snapshot_info \<Rightarrow> snapshot_info \<Rightarrow> (bool \<times> error) list" where
  "staged_checks expected_revision actual staged =
     [(si_revision actual \<noteq> expected_revision,
       WorkspaceRevisionConflictError (Some expected_revision) (Some (si_revision actual))),
      (si_workspace_id staged \<noteq> si_workspace_id actual \<or> si_revision staged \<noteq> expected_revision + 1,
       WorkspaceSnapshotInvalidError ''Staged Workspace identity or revision is invalid'')]"

text \<open>Everything before the first file is moved.\<close>

definition prepare_commit ::
    "'x codec_scheme \<Rightarrow> workspace_store \<Rightarrow> int \<Rightarrow> file_tree \<times> file_tree \<Rightarrow> (snapshot_info \<times> generation) result" where
  "prepare_commit c st expected_revision s =
     bind_result (inspect_complete c st (fst s)) (\<lambda>actual. bind_result (inspect_complete c st (snd s)) (\<lambda>staged.
       bind_result (raise_first (staged_checks expected_revision actual staged) ()) (\<lambda>_.
         bind_result (staged_generation c st (snd s)) (\<lambda>g. Inr (staged, g)))))"

definition collect_after :: "'x codec_scheme \<Rightarrow> path \<Rightarrow> generation \<Rightarrow> file_tree \<Rightarrow> fs_action list" where
  "collect_after c base g t = fst (garbage_collection c base t (gn_plans g) (gn_tabs g) (gn_analyses g) (gn_owners g))"

definition store_commit_staged ::
    "'x codec_scheme \<Rightarrow> workspace_store \<Rightarrow> path \<Rightarrow> int \<Rightarrow> file_tree \<times> file_tree \<Rightarrow>
     snapshot_info result \<times> file_tree \<times> file_tree" where
  "store_commit_staged c st base expected_revision s =
     (case prepare_commit c st expected_revision s of Inl e \<Rightarrow> (Inl e, s)
      | Inr (staged, g) \<Rightarrow>
          (case publish_all (move_steps (generation_paths g) @ [MoveMetadata]) s of
             (Inl e, s') \<Rightarrow> (Inl (if foreign_error e \<and> \<not> store_error e
               then WorkspaceSerializationError ''Staged Workspace snapshot could not be published'' else e), s')
           | (Inr _, t, staging) \<Rightarrow> (Inr staged, fold perform (collect_after c base g t) t, staging)))"

section \<open>Reconciliation\<close>

definition reconcile_snapshot ::
    "'x codec_scheme \<Rightarrow> workspace_store \<Rightarrow> path \<Rightarrow> file_tree \<Rightarrow> snapshot_info result \<times> file_tree" where
  "reconcile_snapshot c st base t =
     (case inspect_complete c st t of Inl e \<Rightarrow> (Inl e, t)
      | Inr info \<Rightarrow>
          (case staged_generation c st t of
             Inl e \<Rightarrow> (Inl (if path_error e
               then WorkspaceSnapshotInvalidError ''Workspace orphan generations could not be reconciled'' else e), t)
           | Inr g \<Rightarrow>
               let (acts, e) = garbage_collection c base t (gn_plans g) (gn_tabs g) (gn_analyses g) (gn_owners g);
                   t' = fold perform acts t
               in (case e of None \<Rightarrow> (Inr info, t')
                   | Some e \<Rightarrow> (Inl (if path_error e then
                       WorkspaceSnapshotInvalidError ''Workspace orphan generations could not be reconciled''
                       else e), t'))))"

end
