(* ===== verification/SnapshotLoad.thy ===== *)
theory SnapshotLoad
  imports SnapshotStore WorkspaceAggregate
begin

text \<open>
  Loading a Workspace from its snapshot: \<open>_read_workspace\<close> and \<open>WorkspaceStore.load\<close> of
  \<^verbatim>\<open>infrastructure/storage/workspace_store.py\<close>.

  The Data Blocks become new objects, each at the next free address of a heap, in the order of their lineage.
  What a Workspace holds apart from addresses and undo stacks is its \<open>content\<close>.
\<close>

section \<open>Values and their texts\<close>

text \<open>\<open>LazyFrame.deserialize\<close> and \<open>serialize\<close>, \<open>json.dumps\<close>, \<open>model_dump\<close> of the three models and the text of
  an instant.\<close>

record 'p store_codec = codec +
  cd_plan :: "string \<Rightarrow> 'p result"
  cd_dump_plan :: "'p \<Rightarrow> string"
  cd_dump_json :: "jval \<Rightarrow> string"
  cd_dump_provenance :: "provenance \<Rightarrow> jval"
  cd_dump_tab :: "tab \<Rightarrow> jval"
  cd_dump_record :: "analysis_record \<Rightarrow> jval"
  cd_dump_time :: "timestamp \<Rightarrow> string"

section \<open>Data Blocks\<close>

record 'p node_spec =
  ns_data :: 'p
  ns_name :: string
  ns_provenance :: provenance
  ns_document :: "string option"
  ns_color :: "string option"
  ns_tokenizer_model :: "string option"

definition NODE_FIELDS :: "string set" where
  "NODE_FIELDS = {''id'', ''name'', ''provenance'', ''document'', ''color'', ''tokenizer_model''}"

fun optional_text :: "string \<Rightarrow> jval \<Rightarrow> string option result" where
  "optional_text key JNull = Inr None"
| "optional_text key (JStr s) = Inr (Some s)"
| "optional_text key _ = Inl (ValueError (''Workspace node '' @ key @ '' is invalid''))"

definition stored_tokenizer :: "string option \<Rightarrow> string option result" where
  "stored_tokenizer raw =
     (case raw of None \<Rightarrow> Inr None
      | Some s \<Rightarrow> let trimmed = py_strip s in
          if trimmed = [] \<or> length trimmed > 500 then Inl (ValueError ''Workspace node tokenizer model is invalid'')
          else Inr (Some trimmed))"

text \<open>The name, the document column, the colour and the tokenizer model.\<close>

definition node_texts :: "jval \<Rightarrow> (string \<times> string option \<times> string option \<times> string option) result" where
  "node_texts metadata =
     (case jget metadata ''name'' of
        JStr name \<Rightarrow> if name = [] then Inl (ValueError ''Workspace node name is invalid'') else
          bind_result (optional_text ''document'' (jget metadata ''document'')) (\<lambda>document.
            bind_result (optional_text ''color'' (jget metadata ''color'')) (\<lambda>color.
              bind_result (optional_text ''tokenizer_model'' (jget metadata ''tokenizer_model'')) (\<lambda>raw.
                bind_result (stored_tokenizer raw) (\<lambda>tokenizer. Inr (name, document, color, tokenizer)))))
      | _ \<Rightarrow> Inl (ValueError ''Workspace node name is invalid''))"

text \<open>The plan file of a Data Block: directly in the data directory, a regular file, and its own.\<close>

definition data_file :: "file_tree \<Rightarrow> jval \<Rightarrow> path list \<Rightarrow> path result" where
  "data_file t raw seen =
     (case raw of
        JStr s \<Rightarrow>
          let relative = posix_parts s in
          if py_startswith s ''/'' \<or> ''..'' \<in> set relative \<or> take 1 relative \<noteq> [''data''] \<or>
             path_suffix (last relative) \<noteq> ''.plbin''
          then Inl (ValueError ''Workspace node data path is invalid'')
          else bind_result (resolve_regular_under t relative) (\<lambda>plan.
            raise_first
              [(butlast plan \<noteq> [''data''], ValueError ''Workspace node data path escapes the data directory''),
               (plan \<in> set seen, ValueError ''Workspace nodes cannot share a data path'')] plan)
      | _ \<Rightarrow> Inl (ValueError ''Workspace node data path must be a string''))"

text \<open>The sources of a plan are regular files of the same Workspace; \<open>base\<close> is its absolute path.\<close>

definition check_source :: "path \<Rightarrow> file_tree \<Rightarrow> string \<Rightarrow> unit result" where
  "check_source base t raw =
     (let source = posix_parts raw in
      if \<not> py_startswith raw ''/'' then Inl (ValueError ''Workspace plan source must be absolute'')
      else if \<not> prefix base source then Inl (ValueError ''Workspace plan source escapes its workspace'')
      else bind_result (resolve_regular_under t (drop (length base) source)) (\<lambda>_. Inr ()))"

fun check_sources :: "path \<Rightarrow> file_tree \<Rightarrow> string list \<Rightarrow> unit result" where
  "check_sources base t [] = Inr ()"
| "check_sources base t (raw # raws) = bind_result (check_source base t raw) (\<lambda>_. check_sources base t raws)"

text \<open>One turn of the first loop; the state is \<open>node_specs_by_id\<close> and \<open>data_paths\<close>.\<close>

definition read_node ::
    "('p, 'x) store_codec_scheme \<Rightarrow> path \<Rightarrow> file_tree \<Rightarrow> jval \<Rightarrow> (uuid, 'p node_spec) dict \<times> path list \<Rightarrow>
     ((uuid, 'p node_spec) dict \<times> path list) result" where
  "read_node c base t entry s =
     (let metadata = jget entry ''node_metadata'' in
      if \<not> is_jobj entry then Inl (ValueError ''Workspace node entry must be an object'')
      else if \<not> is_jobj metadata then Inl (ValueError ''Workspace node metadata must be an object'')
      else if jkeys metadata \<noteq> NODE_FIELDS then Inl (ValueError ''Workspace node metadata fields are invalid'')
      else bind_result (canonical_id c (jget metadata ''id'')) (\<lambda>i.
        if i \<in> fst ` set (fst s) then Inl (ValueError ''Workspace contains duplicate node IDs'')
        else bind_result (cd_provenance c (jget metadata ''provenance'')) (\<lambda>raw.
          bind_result (validate_node_provenance raw) (\<lambda>p.
            if i \<in> set (referenced_node_ids p) \<or> has_duplicates (referenced_node_ids p)
            then Inl (ValueError ''Workspace node provenance references are invalid'')
            else bind_result (data_file t (jget entry ''data_path'') (snd s)) (\<lambda>plan.
              bind_result (read_bytes t plan) (\<lambda>content.
                bind_result (cd_sources c content) (\<lambda>raws. bind_result (check_sources base t raws) (\<lambda>_.
                  bind_result (node_texts metadata) (\<lambda>(name, document, color, tokenizer).
                    bind_result (cd_plan c content) (\<lambda>data.
                      Inr (fst s @ [(i, \<lparr>ns_data = data, ns_name = name, ns_provenance = p,
                        ns_document = document, ns_color = color, ns_tokenizer_model = tokenizer\<rparr>)],
                        snd s @ [plan])))))))))))"

fun read_nodes ::
    "('p, 'x) store_codec_scheme \<Rightarrow> path \<Rightarrow> file_tree \<Rightarrow> jval list \<Rightarrow> (uuid, 'p node_spec) dict \<times> path list \<Rightarrow>
     ((uuid, 'p node_spec) dict \<times> path list) result" where
  "read_nodes c base t [] s = Inr s"
| "read_nodes c base t (entry # entries) s =
     bind_result (read_node c base t entry s) (read_nodes c base t entries)"

definition parents_of_specs :: "(uuid, 'p node_spec) dict \<Rightarrow> (uuid, uuid list) dict" where
  "parents_of_specs specs = map (\<lambda>(i, spec). (i, referenced_node_ids (ns_provenance spec))) specs"

text \<open>The checks of the whole lineage, and the order in which the objects are made.\<close>

definition restoration_order :: "(uuid, 'p node_spec) dict \<Rightarrow> uuid list result" where
  "restoration_order specs =
     (let parents = parents_of_specs specs; ordered_ids = dict_keys specs in
      raise_first
        [(\<not> set (all_parent_ids parents) \<subseteq> set ordered_ids, ValueError ''Workspace node parent is missing''),
         (lineage_has_cycle ordered_ids parents, ValueError ''Workspace node graph contains a cycle'')]
        (topological_ids ordered_ids parents))"

section \<open>The objects\<close>

definition dict_item :: "(string, 'v) dict \<Rightarrow> string \<Rightarrow> 'v result" where
  "dict_item d k = (case map_of d k of None \<Rightarrow> Inl (KeyError k) | Some v \<Rightarrow> Inr v)"

text \<open>The next object has an address no object of this Workspace has, as they are numbered.\<close>

definition restore_node :: "(uuid, 'p node_spec) dict \<Rightarrow> uuid \<Rightarrow> node_graph \<Rightarrow> node_graph result" where
  "restore_node specs i g =
     bind_result (dict_item specs i) (\<lambda>spec.
       bind_result (map_result (dict_item (ng_nodes g)) (referenced_node_ids (ns_provenance spec))) (\<lambda>parents.
         case node_init (length (ng_nodes g)) i (ns_name spec) parents (ns_provenance spec) (ns_document spec)
             (ns_color spec) (ns_tokenizer_model spec) g of
           (Inl e, g') \<Rightarrow> Inl e
         | (Inr a, g') \<Rightarrow> (case add_node a g' of (Inl e, _) \<Rightarrow> Inl e | (Inr _, g'') \<Rightarrow> Inr g'')))"

fun restore_nodes :: "(uuid, 'p node_spec) dict \<Rightarrow> uuid list \<Rightarrow> node_graph \<Rightarrow> node_graph result" where
  "restore_nodes specs [] g = Inr g"
| "restore_nodes specs (i # ids) g = bind_result (restore_node specs i g) (restore_nodes specs ids)"

fun add_tabs :: "tab list \<Rightarrow> analysis_board \<Rightarrow> analysis_board result" where
  "add_tabs [] b = Inr b"
| "add_tabs (t # ts) b = (case add_tab t b of (Inl e, _) \<Rightarrow> Inl e | (Inr _, b') \<Rightarrow> add_tabs ts b')"

text \<open>The graph of the restored objects, in their persisted order.\<close>

definition restore_graph :: "nat \<Rightarrow> (addr \<Rightarrow> node) \<Rightarrow> (uuid, 'p node_spec) dict \<Rightarrow> node_graph result" where
  "restore_graph self heap specs =
     bind_result (restoration_order specs) (\<lambda>topological.
       bind_result (restore_nodes specs topological (ng_init self heap)) (\<lambda>g.
         case reorder_nodes (dict_keys specs) g of (Inl e, _) \<Rightarrow> Inl e | (Inr _, g') \<Rightarrow> Inr g'))"

definition restore_board ::
    "('p, 'x) store_codec_scheme \<Rightarrow> tab list \<Rightarrow> loaded_records \<Rightarrow> analysis_board result" where
  "restore_board c tabs l =
     bind_result (add_tabs tabs ab_init) (\<lambda>b.
       case add_workspace_analyses (cd_uuid c) (lr_records l) (lr_corrupt l) b of
         (Inl e, _) \<Rightarrow> Inl e | (Inr _, b') \<Rightarrow> Inr b')"

text \<open>\<open>name or "workspace_..."\<close>: the name of an inspected snapshot is not empty.\<close>

definition restored_workspace ::
    "snapshot_info \<Rightarrow> timestamp \<Rightarrow> timestamp \<Rightarrow> (uuid, 'p node_spec) dict \<Rightarrow> node_graph \<Rightarrow> analysis_board \<Rightarrow>
     'p workspace" where
  "restored_workspace info created modified specs g b =
     \<lparr>wk_id = si_workspace_id info, wk_name = si_name info, wk_description = si_description info,
      wk_created_at = created, wk_modified_at = modified, wk_graph = g,
      wk_plans = map (\<lambda>(i, spec). (i, ph_init (ns_data spec))) specs, wk_board = b\<rparr>"

definition read_workspace ::
    "('p, 'x) store_codec_scheme \<Rightarrow> path \<Rightarrow> nat \<Rightarrow> (addr \<Rightarrow> node) \<Rightarrow> file_tree \<Rightarrow> tab list \<Rightarrow> loaded_records \<Rightarrow>
     'p workspace result" where
  "read_workspace c base self heap t tabs l =
     bind_result (load_metadata c t) (\<lambda>payload. bind_result (snapshot_identity c payload) (\<lambda>info.
       bind_result (cd_time c (si_created_at info)) (\<lambda>created.
         bind_result (cd_time c (si_modified_at info)) (\<lambda>modified.
           bind_result (read_nodes c base t (entries_of payload) ([], [])) (\<lambda>(specs, _).
             bind_result (restore_graph self heap specs) (\<lambda>g.
               bind_result (restore_board c tabs l) (\<lambda>b.
                 Inr (restored_workspace info (fst created) (fst modified) specs g b))))))))"

record 'p loaded_workspace =
  ld_workspace :: "'p workspace"
  ld_snapshot :: snapshot_info

definition load_parts ::
    "('p, 'x) store_codec_scheme \<Rightarrow> workspace_store \<Rightarrow> path \<Rightarrow> nat \<Rightarrow> (addr \<Rightarrow> node) \<Rightarrow> file_tree \<Rightarrow> 'p workspace result" where
  "load_parts c st base self heap t =
     bind_result (load_metadata c t) (\<lambda>payload. bind_result (tab_references c payload) (\<lambda>tab_refs.
       bind_result (read_tabs c t tab_refs (st_max_snapshot_bytes st)) (\<lambda>(tabs, _).
         bind_result (analysis_references c payload) (\<lambda>refs.
           bind_result (read_analysis_records c t refs (st_max_snapshot_bytes st)) (\<lambda>l.
             read_workspace c base self heap t tabs l)))))"

definition load_workspace ::
    "('p, 'x) store_codec_scheme \<Rightarrow> workspace_store \<Rightarrow> path \<Rightarrow> nat \<Rightarrow> (addr \<Rightarrow> node) \<Rightarrow> file_tree \<Rightarrow>
     'p loaded_workspace result" where
  "load_workspace c st base self heap t =
     bind_result (inspect_complete c st t) (\<lambda>info.
       bind_result (except_as (\<lambda>e. file_error e \<and> \<not> store_error e)
           (WorkspaceSnapshotInvalidError ''Workspace graph cannot be loaded'')
           (load_parts c st base self heap t)) (\<lambda>w. Inr \<lparr>ld_workspace = w, ld_snapshot = info\<rparr>))"

end
