(* ===== verification/SnapshotWrite.thy ===== *)
theory SnapshotWrite
  imports SnapshotLoad
begin

text \<open>
  Writing a Workspace to its directory: \<open>_write_workspace\<close>, \<open>WorkspaceStore.stage_snapshot\<close>, \<open>commit\<close> of
  \<^verbatim>\<open>infrastructure/storage/workspace_store.py\<close>, \<open>to_dict\<close> of \<^verbatim>\<open>node_store.py\<close> and \<open>atomic_write_json\<close> of \<^verbatim>\<open>durable_fs.py\<close>.

  \<open>gen\<close> is the name of the generation, \<open>r{revision}-{uuid4}\<close>. A temporary file that is replaced or removed at
  once is not in the model.
\<close>

section \<open>Files\<close>

text \<open>\<open>atomic_output_path\<close> with the content written to it.\<close>

definition write_output :: "path \<Rightarrow> string \<Rightarrow> file_tree \<Rightarrow> unit result \<times> file_tree" where
  "write_output p content t =
     (case make_dirs [] (butlast p) t of
        (Inl e, t1) \<Rightarrow> (Inl e, t1)
      | (Inr _, t1) \<Rightarrow> replace_file p content t1)"

definition atomic_write_json ::
    "('p, 'x) store_codec_scheme \<Rightarrow> path \<Rightarrow> jval \<Rightarrow> int option \<Rightarrow> file_tree \<Rightarrow> nat result \<times> file_tree" where
  "atomic_write_json c p payload max_bytes t =
     (let content = cd_dump_json c payload in
      if (case max_bytes of None \<Rightarrow> False | Some n \<Rightarrow> int (length content) > n) then (Inl AtomicWriteCapacityError, t)
      else (case write_output p content t of
          (Inl e, t1) \<Rightarrow> (Inl e, t1) | (Inr _, t1) \<Rightarrow> (Inr (length content), t1)))"

section \<open>The loops of a snapshot\<close>

record writing =
  wg_tree :: file_tree
  wg_created :: "path list"
  wg_remaining :: int

fun write_each :: "('a \<Rightarrow> writing \<Rightarrow> jval result \<times> writing) \<Rightarrow> 'a list \<Rightarrow> writing \<Rightarrow> jval list result \<times> writing" where
  "write_each write [] s = (Inr [], s)"
| "write_each write (x # xs) s =
     (case write x s of
        (Inl e, s1) \<Rightarrow> (Inl e, s1)
      | (Inr v, s1) \<Rightarrow> (case write_each write xs s1 of
          (Inl e, s2) \<Rightarrow> (Inl e, s2) | (Inr vs, s2) \<Rightarrow> (Inr (v # vs), s2)))"

text \<open>\<open>write_output\<close> and what the loops remember of it.\<close>

definition write_tracked :: "path \<Rightarrow> string \<Rightarrow> jval \<Rightarrow> writing \<Rightarrow> jval result \<times> writing" where
  "write_tracked p content entry s =
     (case write_output p content (wg_tree s) of
        (Inl e, t) \<Rightarrow> (Inl e, s\<lparr>wg_tree := t\<rparr>)
      | (Inr _, t) \<Rightarrow> (Inr entry, \<lparr>wg_tree = t, wg_created = wg_created s @ [p],
          wg_remaining = wg_remaining s - int (length content)\<rparr>))"

definition jopt :: "string option \<Rightarrow> jval" where
  "jopt value = (case value of None \<Rightarrow> JNull | Some s \<Rightarrow> JStr s)"

definition node_entry :: "('p, 'x) store_codec_scheme \<Rightarrow> node \<Rightarrow> string \<Rightarrow> jval" where
  "node_entry c n data_path = JObj
     [(''node_metadata'', JObj
        [(''id'', JStr (nd_id n)), (''name'', JStr (nd_name n)),
         (''provenance'', cd_dump_provenance c (nd_provenance n)), (''document'', jopt (nd_document n)),
         (''color'', jopt (nd_color n)), (''tokenizer_model'', jopt (nd_tokenizer_model n))]),
      (''data_path'', JStr data_path)]"

definition plan_file :: "string \<Rightarrow> uuid \<Rightarrow> string" where
  "plan_file gen i = ''data/'' @ i @ ''.'' @ gen @ ''.plbin''"

definition record_file :: "string \<Rightarrow> string \<Rightarrow> uuid \<Rightarrow> string" where
  "record_file gen field i = field @ ''/'' @ i @ ''/'' @ gen @ ''.json''"

text \<open>\<open>to_dict\<close> of one Data Block within the remaining bytes.\<close>

definition write_node ::
    "('p, 'x) store_codec_scheme \<Rightarrow> string \<Rightarrow> (uuid, 'p plan_history) dict \<Rightarrow> node \<Rightarrow> writing \<Rightarrow> jval result \<times> writing" where
  "write_node c gen plans n s =
     (let raw = plan_file gen (nd_id n); p = posix_parts raw in
      if wg_remaining s < 1 then (Inl (WorkspaceCapacityError ''Workspace snapshot exceeds its byte limit''), s)
      else (case dict_item plans (nd_id n) of
          Inl e \<Rightarrow> (Inl e, s)
        | Inr h \<Rightarrow>
            (let content = cd_dump_plan c (ph_data h) in
             if ''..'' \<in> set p then (Inl (ValueError ''Node data path must be workspace-relative''), s)
             else if int (length content) > wg_remaining s then (Inl NodePlanCapacityError, s)
             else write_tracked p content (node_entry c n raw) s)))"

text \<open>One record of a Tab or of an Analysis, and the reference to it.\<close>

definition write_record :: "string \<Rightarrow> string \<Rightarrow> uuid \<Rightarrow> string \<Rightarrow> writing \<Rightarrow> jval result \<times> writing" where
  "write_record gen field i content s =
     (let raw = record_file gen field i in
      if int (length content) > wg_remaining s then (Inl AtomicWriteCapacityError, s)
      else write_tracked (posix_parts raw) content (JObj [(''id'', JStr i), (''record_path'', JStr raw)]) s)"

definition write_tab :: "('p, 'x) store_codec_scheme \<Rightarrow> string \<Rightarrow> uuid \<times> tab \<Rightarrow> writing \<Rightarrow> jval result \<times> writing" where
  "write_tab c gen kt s =
     (if fst kt \<noteq> tab_id (snd kt) then (Inl (ValueError ''Workspace Tab key does not match its identity''), s)
      else write_record gen ''tabs'' (fst kt) (cd_dump_json c (cd_dump_tab c (snd kt))) s)"

definition write_analysis ::
    "('p, 'x) store_codec_scheme \<Rightarrow> string \<Rightarrow> uuid \<times> analysis_record \<Rightarrow> writing \<Rightarrow> jval result \<times> writing" where
  "write_analysis c gen ka s =
     (if fst ka \<noteq> rec_id (snd ka) then (Inl (ValueError ''Workspace Analysis key does not match its identity''), s)
      else write_record gen ''analyses'' (fst ka) (cd_dump_json c (cd_dump_record c (snd ka))) s)"

text \<open>\<open>sorted(workspace.corrupt_analysis_ids)\<close> with their bytes.\<close>

definition corrupt_items :: "analysis_board \<Rightarrow> (uuid \<times> string) list" where
  "corrupt_items b = map (\<lambda>i. (i, dict_get (ab_corrupt b) i [])) (sort (remdups (dict_keys (ab_corrupt b))))"

definition write_corrupt :: "string \<Rightarrow> uuid \<times> string \<Rightarrow> writing \<Rightarrow> jval result \<times> writing" where
  "write_corrupt gen kc s = write_record gen ''analyses'' (fst kc) (snd kc) s"

definition metadata_of :: "('p, 'x) store_codec_scheme \<Rightarrow> int \<Rightarrow> 'p workspace \<Rightarrow> jval" where
  "metadata_of c revision w = JObj
     [(''id'', JStr (wk_id w)), (''name'', JStr (wk_name w)), (''version'', JInt WORKSPACE_SCHEMA_VERSION),
      (''description'', JStr (wk_description w)), (''created_at'', JStr (cd_dump_time c (wk_created_at w))),
      (''modified_at'', JStr (cd_dump_time c (wk_modified_at w))), (''revision'', JInt revision)]"

definition snapshot_payload :: "jval \<Rightarrow> jval list \<Rightarrow> jval list \<Rightarrow> jval list \<Rightarrow> jval" where
  "snapshot_payload metadata nodes tabs analyses = JObj
     [(''workspace_metadata'', metadata), (''nodes'', JList nodes), (''tabs'', JList tabs),
      (''analyses'', JList analyses)]"

text \<open>The body of the \<open>try\<close>: the plans, the Tabs, the Analyses, the corrupt ones, then the metadata.\<close>

definition workspace_nodes :: "'p workspace \<Rightarrow> node list" where
  "workspace_nodes w = map (node_at (wk_graph w)) (dict_values (ng_nodes (wk_graph w)))"

definition write_parts ::
    "('p, 'x) store_codec_scheme \<Rightarrow> string \<Rightarrow> 'p workspace \<Rightarrow> writing \<Rightarrow> (jval list \<times> jval list \<times> jval list) result \<times> writing" where
  "write_parts c gen w s =
     (case write_each (write_node c gen (wk_plans w)) (workspace_nodes w) s of
        (Inl e, s1) \<Rightarrow> (Inl e, s1)
      | (Inr nodes, s1) \<Rightarrow> (case write_each (write_tab c gen) (ab_tabs (wk_board w)) s1 of
          (Inl e, s2) \<Rightarrow> (Inl e, s2)
        | (Inr tabs, s2) \<Rightarrow> (case write_each (write_analysis c gen) (ab_analyses (wk_board w)) s2 of
            (Inl e, s3) \<Rightarrow> (Inl e, s3)
          | (Inr analyses, s3) \<Rightarrow> (case write_each (write_corrupt gen) (corrupt_items (wk_board w)) s3 of
              (Inl e, s4) \<Rightarrow> (Inl e, s4)
            | (Inr corrupt, s4) \<Rightarrow> (Inr (nodes, tabs, analyses @ corrupt), s4)))))"

section \<open>Discarding\<close>

text \<open>The loop that removes emptied directories, up to the Workspace.\<close>

function remove_empty :: "path \<Rightarrow> file_tree \<Rightarrow> file_tree" where
  "remove_empty p t =
     (if p = [] \<or> \<not> plain_dir t p \<or> has_entries t p then t else remove_empty (butlast p) (perform (Rmdir p) t))"
  by auto

termination
  by (relation "measure (\<lambda>(p, t). length p)") auto

declare remove_empty.simps [simp del]

text \<open>Deeper directories first; equally deep ones in one of the orders that the code's set may give.\<close>

definition discard_uncommitted_files :: "path list \<Rightarrow> file_tree \<Rightarrow> file_tree" where
  "discard_uncommitted_files paths t =
     fold remove_empty (rev (sort_key length (remdups (map butlast paths))))
       (fold perform (map Unlink paths) t)"

section \<open>Writing a Workspace\<close>

definition saved_owners :: "analysis_board \<Rightarrow> owners" where
  "saved_owners b = owners_among (map_of (ab_analyses b)) (dict_values (ab_analyses b)) (dict_keys (ab_corrupt b))"

text \<open>\<open>NodePlanCapacityError\<close> and \<open>AtomicWriteCapacityError\<close> become errors of the Workspace.\<close>

fun write_error :: "error \<Rightarrow> error" where
  "write_error NodePlanCapacityError = WorkspaceCapacityError ''Workspace snapshot exceeds its byte limit''"
| "write_error AtomicWriteCapacityError = WorkspaceCapacityError ''Workspace snapshot exceeds its byte limit''"
| "write_error e = e"

definition reference_of :: "jval \<Rightarrow> uuid \<times> path" where
  "reference_of entry = (case (jget entry ''id'', jget entry ''record_path'') of
     (JStr i, JStr raw) \<Rightarrow> (i, posix_parts raw) | _ \<Rightarrow> ([], []))"

definition data_path_of :: "jval \<Rightarrow> path" where
  "data_path_of entry = (case jget entry ''data_path'' of JStr raw \<Rightarrow> posix_parts raw | _ \<Rightarrow> [])"

definition write_workspace ::
    "('p, 'x) store_codec_scheme \<Rightarrow> workspace_store \<Rightarrow> path \<Rightarrow> string \<Rightarrow> int \<Rightarrow> 'p workspace \<Rightarrow> file_tree \<Rightarrow>
     unit result \<times> file_tree" where
  "write_workspace c st base gen revision w t =
     (if int (length (ng_nodes (wk_graph w))) > st_max_nodes st then
        (Inl (WorkspaceCapacityError ''Workspace exceeds its node-count limit''), t)
      else
        (case write_parts c gen w \<lparr>wg_tree = t, wg_created = [], wg_remaining = st_max_snapshot_bytes st\<rparr> of
           (Inl e, s) \<Rightarrow> (Inl (write_error e), discard_uncommitted_files (wg_created s) (wg_tree s))
         | (Inr (nodes, tabs, analyses), s) \<Rightarrow>
             (case atomic_write_json c METADATA_PATH (snapshot_payload (metadata_of c revision w) nodes tabs analyses)
                 (Some (wg_remaining s)) (wg_tree s) of
                (Inl e, t1) \<Rightarrow> (Inl (write_error e), discard_uncommitted_files (wg_created s) t1)
              | (Inr _, t1) \<Rightarrow> (Inr (), fold perform (fst (garbage_collection c base t1 (map data_path_of nodes)
                  (map reference_of tabs) (map reference_of analyses) (saved_owners (wk_board w)))) t1))))"

section \<open>Operations of the store\<close>

fun capacity_error :: "error \<Rightarrow> bool" where
  "capacity_error (WorkspaceCapacityError _) \<longleftrightarrow> True"
| "capacity_error _ \<longleftrightarrow> False"

definition serialized ::
    "('p, 'x) store_codec_scheme \<Rightarrow> workspace_store \<Rightarrow> path \<Rightarrow> string \<Rightarrow> int \<Rightarrow> 'p workspace \<Rightarrow> string \<Rightarrow> file_tree \<Rightarrow>
     snapshot_info result \<times> file_tree" where
  "serialized c st base gen revision w message t =
     (case write_workspace c st base gen revision w t of
        (Inl e, t1) \<Rightarrow> (Inl (if path_error e \<and> \<not> capacity_error e then WorkspaceSerializationError message else e), t1)
      | (Inr _, t1) \<Rightarrow> (inspect_complete c st t1, t1))"

definition stage_snapshot ::
    "('p, 'x) store_codec_scheme \<Rightarrow> workspace_store \<Rightarrow> path \<Rightarrow> string \<Rightarrow> int \<Rightarrow> 'p workspace \<Rightarrow> file_tree \<Rightarrow>
     snapshot_info result \<times> file_tree" where
  "stage_snapshot c st base gen revision w t =
     (if revision < 1 then (Inl (ValueError ''Workspace revision must be positive''), t)
      else if path_exists t METADATA_PATH then
        (bind_result (inspect_snapshot c st t False) (\<lambda>info.
          Inl (WorkspaceRevisionConflictError None (Some (si_revision info)))), t)
      else serialized c st base gen revision w ''Workspace snapshot could not be staged'' t)"

text \<open>The revision to write, from the one on disk and the expected one.\<close>

definition next_revision ::
    "'x codec_scheme \<Rightarrow> workspace_store \<Rightarrow> int option \<Rightarrow> file_tree \<Rightarrow> int result" where
  "next_revision c st expected t =
     bind_result (if path_exists t METADATA_PATH
         then map_sum id (\<lambda>info. Some (si_revision info)) (inspect_snapshot c st t False) else Inr None) (\<lambda>actual.
       case expected of
         None \<Rightarrow> raise_first [(actual \<noteq> None, WorkspaceRevisionConflictError None actual)] 1
       | Some n \<Rightarrow> raise_first [(n < 1, ValueError ''Expected revision must be positive''),
           (actual \<noteq> Some n, WorkspaceRevisionConflictError (Some n) actual)] (n + 1))"

definition store_commit ::
    "('p, 'x) store_codec_scheme \<Rightarrow> workspace_store \<Rightarrow> path \<Rightarrow> string \<Rightarrow> int option \<Rightarrow> 'p workspace \<Rightarrow> file_tree \<Rightarrow>
     snapshot_info result \<times> file_tree" where
  "store_commit c st base gen expected w t =
     (case next_revision c st expected t of
        Inl e \<Rightarrow> (Inl e, t)
      | Inr revision \<Rightarrow> serialized c st base gen revision w ''Workspace snapshot could not be serialized'' t)"

end
