(* ===== verification/SnapshotCommit.thy ===== *)
theory SnapshotCommit
  imports SnapshotStore
begin

text \<open>
  Publication is crash safe: after every prefix of the steps of \<open>store_commit_staged\<close> the Workspace on disk reads as
  the old or as the new generation.

  What a reader sees of a path is its \<open>file_view\<close>; \<open>inspect_snapshot\<close> depends on a tree only through the views
  of the metadata and of the paths it refers to.
\<close>

section \<open>Views\<close>

definition file_view :: "file_tree \<Rightarrow> path \<Rightarrow> string option" where
  "file_view t p = (case bind_result (resolve_regular_under t p) (read_bytes t) of Inl e \<Rightarrow> None | Inr x \<Rightarrow> Some x)"

lemma resolve_from_Inr:
  "resolve_from t current parts = Inr q \<Longrightarrow> q = current @ parts \<and> (\<exists>content. entry_at t q = Some (File content))"
  by (induction t current parts rule: resolve_from.induct)
    (auto split: option.splits entry.splits if_splits)

lemma file_view_Some:
  assumes "file_view t p = Some content"
  shows "resolve_regular_under t p = Inr p" "read_bytes t p = Inr content" "map_of t p = Some (File content)"
proof -
  obtain q where q: "resolve_regular_under t p = Inr q" "read_bytes t q = Inr content"
    using assms unfolding file_view_def by (auto split: sum.splits simp: bind_result_Inr_iff)
  then have "q = p" using resolve_from_Inr [of t "[]" p q] by (auto simp: resolve_regular_under_def split: if_splits)
  with q show "resolve_regular_under t p = Inr p" "read_bytes t p = Inr content" by simp_all
  moreover have "p \<noteq> []" using q(1) by (auto simp: resolve_regular_under_def split: if_splits)
  ultimately show "map_of t p = Some (File content)"
    by (auto simp: read_bytes_def entry_at_def split: option.splits entry.splits)
qed

lemma file_view_None:
  assumes "file_view t p = None"
  obtains e where "resolve_regular_under t p = Inl e"
proof (cases "resolve_regular_under t p")
  case (Inr q)
  then have "q = p \<and> (\<exists>content. entry_at t q = Some (File content))"
    using resolve_from_Inr [of t "[]" p q] by (auto simp: resolve_regular_under_def split: if_splits)
  then have "file_view t p \<noteq> None" using Inr by (auto simp: file_view_def read_bytes_def)
  with assms show thesis by simp
qed (rule that)

lemma resolve_error:
  assumes "resolve_regular_under t p = Inl e"
  shows "file_error e"
proof -
  have "resolve_from t current parts = Inl e \<Longrightarrow> file_error e" for current parts
    by (induction t current parts rule: resolve_from.induct)
      (auto split: option.splits entry.splits if_splits)
  with assms show ?thesis by (auto simp: resolve_regular_under_def split: if_splits)
qed

text \<open>Reading a Tab, a record or the plans depends only on the views.\<close>

lemma read_tab_cong:
  assumes "file_view t (snd ref) = file_view t' (snd ref)"
  shows "read_tab c t max_bytes ref used ids = read_tab c t' max_bytes ref used ids"
proof (cases "file_view t (snd ref)")
  case None
  with assms have this': "file_view t' (snd ref) = None" by simp
  obtain e e' where "resolve_regular_under t (snd ref) = Inl e" "resolve_regular_under t' (snd ref) = Inl e'"
    using file_view_None [OF None] file_view_None [OF this'] by metis
  then show ?thesis using resolve_error [of t "snd ref" e] resolve_error [of t' "snd ref" e'] by (simp add: read_tab_def)
next
  case (Some content)
  with assms show ?thesis
    using file_view_Some [of t "snd ref" content] file_view_Some [of t' "snd ref" content] by (simp add: read_tab_def)
qed

lemma read_tabs_cong:
  assumes "\<And>p. p \<in> snd ` set refs \<Longrightarrow> file_view t p = file_view t' p"
  shows "read_tabs c t refs max_bytes = read_tabs c t' refs max_bytes"
proof -
  have "read_tabs_from c t max_bytes refs tabs used = read_tabs_from c t' max_bytes refs tabs used" for tabs used
    using assms
  proof (induction refs arbitrary: tabs used)
    case (Cons ref refs)
    have "read_tab c t max_bytes ref used ids = read_tab c t' max_bytes ref used ids" for ids
      by (rule read_tab_cong) (use Cons.prems in simp)
    then show ?case using Cons by (simp add: bind_result_def split: sum.splits)
  qed simp
  then show ?thesis by (simp add: read_tabs_def)
qed

lemma record_content_view: "record_content t p = (case file_view t p of None \<Rightarrow> [] | Some x \<Rightarrow> x)"
  by (simp add: record_content_def file_view_def split: sum.splits)

lemma read_analysis_records_cong:
  assumes "\<And>p. p \<in> snd ` set refs \<Longrightarrow> file_view t p = file_view t' p"
  shows "read_analysis_records c t refs max_bytes = read_analysis_records c t' refs max_bytes"
proof -
  have "read_records_from c t max_bytes refs l = read_records_from c t' max_bytes refs l" for l
    using assms
  proof (induction refs arbitrary: l)
    case (Cons ref refs)
    obtain i p where ref: "ref = (i, p)" by (cases ref)
    have "record_content t p = record_content t' p" using Cons.prems [of p] by (simp add: ref record_content_view)
    moreover have "read_records_from c t max_bytes refs l = read_records_from c t' max_bytes refs l" for l
      by (rule Cons.IH) (use Cons.prems in simp)
    ultimately show ?case by (simp add: ref Let_def split: sum.split)
  qed simp
  then show ?thesis by (simp add: read_analysis_records_def)
qed

text \<open>The errors of the plans are all wrapped, so the scans agree up to their errors.\<close>

definition plan_paths :: "jval list \<Rightarrow> path set" where
  "plan_paths entries = {p. \<exists>entry \<in> set entries. plan_path entry = Inr p}"

lemma plan_path_error: "plan_path entry = Inl e \<Longrightarrow> foreign_error e"
  by (cases entry) (auto simp: plan_path_def bind_result_def split: sum.splits jval.splits if_splits option.splits)

lemma file_foreign: "file_error e \<Longrightarrow> foreign_error e"
  by (cases e) auto

lemma scan_plans_error: "scan_plans t entries seen used = Inl e \<Longrightarrow> foreign_error e"
proof (induction entries arbitrary: seen used)
  case (Cons entry entries)
  have read: "read_bytes t p = Inl x \<Longrightarrow> file_error x" for p x
    by (auto simp: read_bytes_def split: option.splits entry.splits)
  from Cons show ?case
    by (auto simp: bind_result_def split: sum.splits if_splits dest!: plan_path_error resolve_error read intro: file_foreign)
qed simp

lemma scan_plans_cong:
  assumes "\<And>p. p \<in> plan_paths entries \<Longrightarrow> file_view t p = file_view t' p"
  shows "except_as foreign_error e (scan_plans t entries seen used) =
    except_as foreign_error e (scan_plans t' entries seen used)"
  using assms
proof (induction entries arbitrary: seen used)
  case (Cons entry entries)
  note IH = Cons.IH [OF Cons.prems]
  show ?case
  proof (cases "plan_path entry")
    case (Inr p)
    then have v: "file_view t p = file_view t' p" by (intro Cons.prems) (auto simp: plan_paths_def)
    show ?thesis
    proof (cases "file_view t p")
      case None
      with v have n: "file_view t' p = None" by simp
      obtain e1 e2 where "resolve_regular_under t p = Inl e1" "resolve_regular_under t' p = Inl e2"
        using file_view_None [OF None] file_view_None [OF n] by metis
      moreover have "foreign_error e1" "foreign_error e2"
        using calculation by (blast intro: file_foreign resolve_error)+
      ultimately show ?thesis by (simp add: Inr)
    next
      case (Some x)
      with v have x: "file_view t' p = Some x" by simp
      show ?thesis
        using file_view_Some [OF Some] file_view_Some [OF x] IH
        by (simp add: Inr plan_paths_def)
    qed
  qed simp
qed simp

text \<open>The paths a payload refers to.\<close>

definition snapshot_paths :: "'x codec_scheme \<Rightarrow> jval \<Rightarrow> path set" where
  "snapshot_paths c payload = plan_paths (entries_of payload) \<union>
     {p. \<exists>refs. (tab_references c payload = Inr refs \<or> analysis_references c payload = Inr refs) \<and>
       p \<in> snd ` set refs}"

definition same_view :: "'x codec_scheme \<Rightarrow> file_tree \<Rightarrow> file_tree \<Rightarrow> bool" where
  "same_view c t t' \<longleftrightarrow> read_bytes t METADATA_PATH = read_bytes t' METADATA_PATH \<and>
     (\<forall>payload. load_metadata c t = Inr payload \<longrightarrow>
       (\<forall>p \<in> snapshot_paths c payload. file_view t p = file_view t' p))"

lemma load_metadata_cong:
  "read_bytes t METADATA_PATH = read_bytes t' METADATA_PATH \<Longrightarrow> load_metadata c t = load_metadata c t'"
  by (simp add: load_metadata_def)

lemma inspect_metadata_payload:
  "inspect_metadata c t = Inr (payload, info) \<Longrightarrow> load_metadata c t = Inr payload"
  by (auto simp: inspect_metadata_def bind_result_Inr_iff)

lemma inspect_cong:
  assumes "same_view c t t'"
  shows "inspect_complete c st t = inspect_complete c st t'"
proof -
  have m: "read_bytes t METADATA_PATH = read_bytes t' METADATA_PATH" using assms by (simp add: same_view_def)
  note i = load_metadata_cong [OF m, of c]
  show ?thesis
  proof (cases "inspect_metadata c t")
    case (Inl e)
    then show ?thesis
      using i by (simp add: inspect_complete_def inspect_snapshot_def inspect_metadata_def)
  next
    case (Inr r)
    obtain payload info where r: "r = (payload, info)" by (cases r)
    have v: "file_view t p = file_view t' p" if "p \<in> snapshot_paths c payload" for p
      using assms inspect_metadata_payload [OF Inr [unfolded r]] that by (auto simp: same_view_def)
    have "inspect_metadata c t' = Inr (payload, info)" using Inr i by (simp add: inspect_metadata_def r)
    moreover have "except_as foreign_error e (scan_plans t (entries_of payload) [] used) =
        except_as foreign_error e (scan_plans t' (entries_of payload) [] used)" for e used
      by (rule scan_plans_cong) (use v in \<open>auto simp: snapshot_paths_def\<close>)
    moreover have "record_bytes c st t payload used = record_bytes c st t' payload used" for used
    proof -
      have "read_tabs c t tabs n = read_tabs c t' tabs n" if "tab_references c payload = Inr tabs" for tabs n
        by (rule read_tabs_cong) (use v that in \<open>auto simp: snapshot_paths_def\<close>)
      moreover have "read_analysis_records c t refs n = read_analysis_records c t' refs n"
        if "analysis_references c payload = Inr refs" for refs n
        by (rule read_analysis_records_cong) (use v that in \<open>auto simp: snapshot_paths_def\<close>)
      ultimately show ?thesis by (auto simp: record_bytes_def bind_result_def split: sum.splits)
    qed
    ultimately show ?thesis
      using Inr m by (simp add: inspect_complete_def inspect_snapshot_def r)
  qed
qed

section \<open>Files of a well-formed tree\<close>

definition parts_ok :: "path \<Rightarrow> bool" where
  "parts_ok p \<longleftrightarrow> p \<noteq> [] \<and> set p \<inter> {'''', ''.'', ''..''} = {}"

definition file_of :: "file_tree \<Rightarrow> path \<Rightarrow> string option" where
  "file_of t p = (case map_of t p of Some (File x) \<Rightarrow> Some x | _ \<Rightarrow> None)"

lemma file_of_Some: "file_of t p = Some x \<longleftrightarrow> map_of t p = Some (File x)"
  by (auto simp: file_of_def split: option.splits entry.splits)

lemma resolve_from_ok:
  assumes "tree_ok t" "map_of t (current @ parts) = Some (File x)" "set parts \<inter> {'''', ''.'', ''..''} = {}"
  shows "resolve_from t current parts = Inr (current @ parts)"
  using assms(2,3)
proof (induction parts arbitrary: current)
  case Nil
  then have "current \<noteq> []" using assms(1) by (auto simp: tree_ok_def)
  with Nil show ?case by (simp add: entry_at_def)
next
  case (Cons part parts)
  show ?case
  proof (cases parts)
    case Nil
    with Cons show ?thesis by (auto simp: entry_at_def)
  next
    case c: (Cons a as)
    then have "entry_at t (current @ [part]) = Some Dir"
      using Cons.prems(1) by (intro tree_prefix_dir [OF assms(1) Cons.prems(1)]) (simp add: strict_prefix_def)
    with Cons.IH [of "current @ [part]"] Cons.prems show ?thesis by auto
  qed
qed

lemma file_view_eq:
  assumes "tree_ok t"
  shows "file_view t p = (if parts_ok p then file_of t p else None)"
proof (cases "file_view t p")
  case (Some x)
  have "set parts \<inter> {'''', ''.'', ''..''} = {}" if "resolve_from t current parts = Inr q" for current parts q
    using that by (induction t current parts rule: resolve_from.induct)
      (auto split: option.splits entry.splits if_splits)
  with file_view_Some [OF Some] Some show ?thesis
    by (auto simp: parts_ok_def file_of_def resolve_regular_under_def split: if_splits)
next
  case None
  have "file_view t p = Some x" if "parts_ok p" "file_of t p = Some x" for x
    using resolve_from_ok [OF assms, of "[]" p x] that
    by (simp add: file_view_def parts_ok_def file_of_Some resolve_regular_under_def read_bytes_def entry_at_def)
  with None show ?thesis by (cases "file_of t p") auto
qed

lemma read_bytes_eq: "p \<noteq> [] \<Longrightarrow> read_bytes t p = (case file_of t p of None \<Rightarrow> Inl (OSError ''open'') | Some x \<Rightarrow> Inr x)"
  by (auto simp: read_bytes_def entry_at_def file_of_def split: option.splits entry.splits)

text \<open>Two trees with the same files below a snapshot's paths read the same.\<close>

lemma same_viewI:
  assumes "tree_ok t" "tree_ok t'" "file_of t METADATA_PATH = file_of t' METADATA_PATH"
    "\<And>payload p. load_metadata c t = Inr payload \<Longrightarrow> p \<in> snapshot_paths c payload \<Longrightarrow> file_of t p = file_of t' p"
  shows "same_view c t t'"
  using assms by (auto simp: same_view_def file_view_eq read_bytes_eq METADATA_PATH_def)

section \<open>The steps\<close>

text \<open>Adding an entry below a directory keeps the tree well formed, unless it hides one.\<close>

lemma tree_ok_update:
  assumes "tree_ok t" "p \<noteq> []" "entry_at t (butlast p) = Some Dir" "map_of t p \<noteq> Some Dir"
  shows "tree_ok (AList.update p e t)"
proof (rule tree_okI)
  show "wf_dict (AList.update p e t)" using tree_okD(1) [OF assms(1)] by simp
  have b: "butlast p \<noteq> p" using append_butlast_last_id [OF assms(2)] by (metis append_self_conv not_Cons_self2)
  show "q \<noteq> [] \<and> entry_at (AList.update p e t) (butlast q) = Some Dir"
    if q: "map_of (AList.update p e t) q = Some x" for q x
  proof (cases "q = p")
    case True
    with assms(2,3) b show ?thesis by (cases "butlast p = []") (simp_all add: entry_at_def update_conv')
  next
    case False
    then have "map_of t q = Some x" using q by (simp add: update_conv')
    note d = tree_okD(2,3) [OF assms(1) this]
    then have "butlast q \<noteq> p" using assms(2,4) by (auto simp: entry_at_def)
    with d show ?thesis by (cases "butlast q = []") (simp_all add: entry_at_def update_conv')
  qed
qed

lemma tree_ok_delete_file:
  assumes "tree_ok t" "map_of t p \<noteq> Some Dir"
  shows "tree_ok (AList.delete p t)"
proof (rule tree_okI)
  show "wf_dict (AList.delete p t)" using tree_okD(1) [OF assms(1)] by simp
  show "q \<noteq> [] \<and> entry_at (AList.delete p t) (butlast q) = Some Dir"
    if q: "map_of (AList.delete p t) q = Some x" for q x
  proof -
    have "map_of t q = Some x" using q by (simp add: delete_conv' split: if_splits)
    note d = tree_okD(2,3) [OF assms(1) this]
    then have "butlast q \<noteq> p \<or> butlast q = []" using assms(2) by (cases "butlast q = []") (auto simp: entry_at_def)
    with d show ?thesis by (auto simp: entry_at_def delete_conv')
  qed
qed

lemma file_of_update: "file_of (AList.update p e t) q = (if q = p then (case e of File x \<Rightarrow> Some x | _ \<Rightarrow> None) else file_of t q)"
  by (simp add: file_of_def update_conv')

lemma file_of_delete: "file_of (AList.delete p t) q = (if q = p then None else file_of t q)"
  by (simp add: file_of_def delete_conv')

text \<open>Links of a tree; publishing adds none.\<close>

definition link_at :: "file_tree \<Rightarrow> path \<Rightarrow> bool" where
  "link_at t p \<longleftrightarrow> (\<exists>l. map_of t p = Some (Link l))"

lemma make_dirs_ok:
  assumes "tree_ok t" "entry_at t current = Some Dir"
  shows "tree_ok (snd (make_dirs current parts t)) \<and> file_of (snd (make_dirs current parts t)) = file_of t \<and>
    (\<forall>p. link_at (snd (make_dirs current parts t)) p \<longrightarrow> link_at t p) \<and>
    (\<forall>p e. map_of t p = Some e \<longrightarrow> map_of (snd (make_dirs current parts t)) p = Some e)"
  using assms
proof (induction current parts t rule: make_dirs.induct)
  case (2 current part parts t)
  let ?d = "current @ [part]"
  show ?case
  proof (cases "entry_at t ?d")
    case None
    let ?t = "AList.update ?d Dir t"
    have m: "map_of t ?d = None" using None by (simp add: entry_at_def)
    have "tree_ok ?t" using 2(3,4) m by (intro tree_ok_update) auto
    moreover have "entry_at ?t ?d = Some Dir" by (simp add: entry_at_def update_conv')
    moreover have "file_of ?t = file_of t" using m by (intro ext) (simp add: file_of_update, simp add: file_of_def)
    moreover have "link_at ?t p \<Longrightarrow> link_at t p" for p by (auto simp: link_at_def update_conv' split: if_splits)
    moreover have "map_of t p = Some e \<Longrightarrow> map_of ?t p = Some e" for p e using m by (auto simp: update_conv')
    ultimately show ?thesis using 2(1) [OF refl None] None by (auto simp: Let_def)
  next
    case (Some e)
    with 2(2) [OF refl] Some 2(3) show ?thesis
      by (cases e) (auto simp: Let_def split: link_target.split)
  qed
qed simp

definition step_target :: "publish_step \<Rightarrow> path option" where
  "step_target step = (case step of MakeDirs p \<Rightarrow> None | MoveFile p \<Rightarrow> Some p | MoveMetadata \<Rightarrow> Some METADATA_PATH)"

lemma replace_from_ok:
  assumes "tree_ok t" "tree_ok g" "replace_from p source (t, g) = (r, t', g')" "p \<noteq> []"
    "\<And>x. source = Inr x \<Longrightarrow> map_of g p \<noteq> Some Dir"
  shows "tree_ok t'" "tree_ok g'" "q \<noteq> p \<Longrightarrow> file_of t' q = file_of t q \<and> file_of g' q = file_of g q"
    "link_at t' q \<Longrightarrow> link_at t q" "r = Inl e \<Longrightarrow> t' = t \<and> g' = g"
    "r = Inr () \<Longrightarrow> \<exists>x. source = Inr x \<and> (\<not> behind_link t p \<longrightarrow> file_of t' p = Some x)"
proof -
  consider (error) e where "r = Inl e" "t' = t" "g' = g"
    | (link) y where "source = Inr y" "behind_link t p" "r = Inr ()" "t' = t" "g' = AList.delete p g"
    | (moved) y where "source = Inr y" "\<not> behind_link t p" "r = Inr ()" "entry_at t (butlast p) = Some Dir"
      "map_of t p \<noteq> Some Dir" "t' = AList.update p (File y) t" "g' = AList.delete p g"
    using assms(3,4) unfolding replace_from_def replace_file_def
    by (auto simp: entry_at_def split: sum.splits if_splits)
  then have "tree_ok t' \<and> tree_ok g' \<and> (q \<noteq> p \<longrightarrow> file_of t' q = file_of t q \<and> file_of g' q = file_of g q) \<and>
    (link_at t' q \<longrightarrow> link_at t q) \<and> (r = Inl e \<longrightarrow> t' = t \<and> g' = g) \<and>
    (r = Inr () \<longrightarrow> (\<exists>x. source = Inr x \<and> (\<not> behind_link t p \<longrightarrow> file_of t' p = Some x)))"
  proof cases
    case (link y)
    then show ?thesis using assms(1,2,5) by (auto simp: file_of_delete intro: tree_ok_delete_file)
  next
    case (moved y)
    then show ?thesis using assms(1,2,4,5)
      by (auto simp: file_of_delete file_of_update link_at_def update_conv' intro: tree_ok_delete_file tree_ok_update
        split: if_splits)
  qed (use assms(1,2) in auto)
  then show "tree_ok t'" "tree_ok g'" "q \<noteq> p \<Longrightarrow> file_of t' q = file_of t q \<and> file_of g' q = file_of g q"
    "link_at t' q \<Longrightarrow> link_at t q" "r = Inl e \<Longrightarrow> t' = t \<and> g' = g"
    "r = Inr () \<Longrightarrow> \<exists>x. source = Inr x \<and> (\<not> behind_link t p \<longrightarrow> file_of t' p = Some x)"
    by blast+
qed

lemma file_view_read:
  "bind_result (resolve_regular_under t p) (read_bytes t) = Inr x \<longleftrightarrow> file_view t p = Some x"
  by (simp add: file_view_def split: sum.splits)

definition step_ok :: "publish_step \<Rightarrow> unit result \<Rightarrow> file_tree \<times> file_tree \<Rightarrow> file_tree \<times> file_tree \<Rightarrow> bool" where
  "step_ok step r s s' \<longleftrightarrow> tree_ok (fst s') \<and> tree_ok (snd s') \<and>
     (\<forall>q. Some q \<noteq> step_target step \<longrightarrow> file_of (fst s') q = file_of (fst s) q \<and> file_of (snd s') q = file_of (snd s) q) \<and>
     (\<forall>q. link_at (fst s') q \<longrightarrow> link_at (fst s) q) \<and>
     (\<forall>e. r = Inl e \<longrightarrow> file_of (fst s') = file_of (fst s)) \<and>
     (\<forall>p. r = Inr () \<longrightarrow> step_target step = Some p \<longrightarrow> \<not> behind_link (fst s) p \<longrightarrow>
        (\<exists>x. file_of (snd s) p = Some x \<and> file_of (fst s') p = Some x))"

lemma step_okI:
  assumes "tree_ok t'" "tree_ok g'"
    "\<And>q. Some q \<noteq> step_target step \<Longrightarrow> file_of t' q = file_of t q \<and> file_of g' q = file_of g q"
    "\<And>q. link_at t' q \<Longrightarrow> link_at t q" "\<And>e. r = Inl e \<Longrightarrow> t' = t"
    "\<And>p. r = Inr () \<Longrightarrow> step_target step = Some p \<Longrightarrow> \<not> behind_link t p \<Longrightarrow>
      \<exists>x. file_of g p = Some x \<and> file_of t' p = Some x"
  shows "step_ok step r (t, g) (t', g')"
  using assms by (auto simp: step_ok_def)

lemma publish_ok:
  assumes t: "tree_ok (fst s)" and g: "tree_ok (snd s)" and p: "publish step s = (r, s')"
  shows "step_ok step r s s'"
proof -
  obtain t g where s: "s = (t, g)" by (cases s)
  obtain t' g' where s': "s' = (t', g')" by (cases s')
  have T: "tree_ok t" "tree_ok g" using assms(1,2) by (simp_all add: s)
  show ?thesis
  proof (cases step)
    case (MakeDirs q)
    have "t' = t \<or> t' = snd (make_dirs [] (butlast q) t)" "g' = g"
      using p by (auto simp: MakeDirs s s' split: sum.splits prod.splits)
    moreover have "entry_at t [] = Some Dir" by (simp add: entry_at_def)
    ultimately show ?thesis
      using make_dirs_ok [OF T(1), of "[]" "butlast q"] T by (auto simp: step_ok_def step_target_def MakeDirs s s')
  next
    case (MoveFile q)
    let ?source = "bind_result (resolve_regular_under g q) (read_bytes g)"
    have m: "replace_from q ?source (t, g) = (r, t', g')" using p by (simp add: MoveFile s s')
    have src: "file_of g q = Some x \<and> q \<noteq> []" if "?source = Inr x" for x
    proof -
      have "file_view g q = Some x" using that by (simp only: file_view_read)
      then show ?thesis unfolding file_view_eq [OF T(2)] by (simp add: parts_ok_def split: if_splits)
    qed
    show ?thesis
    proof (cases "q = []")
      case True
      have "s' = s \<and> (\<exists>e. r = Inl e)"
        using m unfolding True by (auto simp: replace_from_def s s' resolve_regular_under_def)
      then show ?thesis using T by (auto simp: step_ok_def s)
    next
      case False
      have nd: "map_of g q \<noteq> Some Dir" if "?source = Inr x" for x
        using src [OF that] by (simp add: file_of_Some)
      note R = replace_from_ok [OF T m False nd]
      show ?thesis
        unfolding s s' MoveFile
      proof (rule step_okI)
        show "\<exists>x. file_of g p = Some x \<and> file_of t' p = Some x"
          if "r = Inr ()" "step_target (MoveFile q) = Some p" "\<not> behind_link t p" for p
          using R(6) [OF _ that(1)] src that(2,3) by (auto simp: step_target_def)
      qed (use R in \<open>auto simp: step_target_def\<close>)
    qed
  next
    case MoveMetadata
    let ?source = "read_bytes g METADATA_PATH"
    have m: "replace_from METADATA_PATH ?source (t, g) = (r, t', g')" using p by (simp add: MoveMetadata s s')
    have src: "file_of g METADATA_PATH = Some x" if "?source = Inr x" for x
      using that by (simp add: read_bytes_eq METADATA_PATH_def split: option.splits)
    have nd: "map_of g METADATA_PATH \<noteq> Some Dir" if "?source = Inr x" for x
      using src [OF that] by (simp add: file_of_Some)
    note R = replace_from_ok [OF T m _ nd]
    show ?thesis
      unfolding s s' MoveMetadata
    proof (rule step_okI)
      show "\<exists>x. file_of g p = Some x \<and> file_of t' p = Some x"
        if "r = Inr ()" "step_target MoveMetadata = Some p" "\<not> behind_link t p" for p
        using R(6) [OF _ _ that(1)] src that(2,3) by (auto simp: step_target_def METADATA_PATH_def)
    qed (use R in \<open>auto simp: step_target_def METADATA_PATH_def\<close>)
  qed
qed

definition targets :: "publish_step list \<Rightarrow> path list" where
  "targets steps = concat (map (\<lambda>s. case step_target s of None \<Rightarrow> [] | Some p \<Rightarrow> [p]) steps)"

lemma targets_simps [simp]:
  "targets [] = []" "targets (MakeDirs p # steps) = targets steps" "targets (MoveFile p # steps) = p # targets steps"
  "targets (MoveMetadata # steps) = METADATA_PATH # targets steps" "targets (xs @ ys) = targets xs @ targets ys"
  by (simp_all add: targets_def step_target_def)

lemma targets_move_steps: "targets (move_steps ps) = ps"
  by (induction ps) (simp_all add: move_steps_def)

lemma behind_link_mono:
  assumes "\<And>q. link_at t' q \<Longrightarrow> link_at t q" "\<not> (\<exists>q. prefix q p \<and> link_at t q)"
  shows "\<not> behind_link t' p"
proof
  assume "behind_link t' p"
  then obtain q where "prefix q p" "entry_at t' q = Some (Link ToDir)"
    by (auto simp: behind_link_def in_set_prefixes)
  moreover from this(2) have "link_at t' q" by (auto simp: link_at_def entry_at_def split: if_splits)
  ultimately show False using assms by blast
qed

text \<open>A whole run of steps, finished or not.\<close>

lemma publish_all_ok:
  assumes "tree_ok (fst s)" "tree_ok (snd s)" "publish_all steps s = (r, s')"
  shows "tree_ok (fst s') \<and> tree_ok (snd s') \<and> (\<forall>q. link_at (fst s') q \<longrightarrow> link_at (fst s) q) \<and>
    (\<forall>q. q \<notin> set (targets steps) \<longrightarrow> file_of (fst s') q = file_of (fst s) q \<and> file_of (snd s') q = file_of (snd s) q)"
  using assms
proof (induction steps arbitrary: s)
  case (Cons step steps)
  obtain r1 s1 where p: "publish step s = (r1, s1)" by (cases "publish step s")
  note ok = publish_ok [OF Cons.prems(1,2) p, unfolded step_ok_def]
  have tg: "q \<in> set (targets (step # steps)) \<longleftrightarrow> Some q = step_target step \<or> q \<in> set (targets steps)" for q
    by (auto simp: targets_def split: option.splits)
  show ?case
  proof (cases r1)
    case (Inl e)
    then have "s' = s1" using Cons.prems(3) p by simp
    with ok tg show ?thesis by auto
  next
    case (Inr u)
    then have "publish_all steps s1 = (r, s')" using Cons.prems(3) p by simp
    from Cons.IH [OF _ _ this] ok tg show ?thesis by auto
  qed
qed simp

lemma publish_all_moved:
  assumes "tree_ok (fst s)" "tree_ok (snd s)" "publish_all steps s = (Inr (), s')" "distinct (targets steps)"
    "\<And>p q. p \<in> set (targets steps) \<Longrightarrow> prefix q p \<Longrightarrow> \<not> link_at (fst s) q" "p \<in> set (targets steps)"
  shows "file_of (fst s') p \<noteq> None \<and> file_of (fst s') p = file_of (snd s) p"
  using assms
proof (induction steps arbitrary: s)
  case (Cons step steps)
  obtain r1 s1 where pb: "publish step s = (r1, s1)" by (cases "publish step s")
  note ok = publish_ok [OF Cons.prems(1,2) pb, unfolded step_ok_def]
  have r1: "r1 = Inr ()" and run: "publish_all steps s1 = (Inr (), s')"
    using Cons.prems(3) pb by (auto split: sum.splits)
  have tg: "targets (step # steps) = (case step_target step of None \<Rightarrow> [] | Some p \<Rightarrow> [p]) @ targets steps"
    by (simp add: targets_def)
  show ?case
  proof (cases "p \<in> set (targets steps)")
    case True
    have "file_of (fst s') p \<noteq> None \<and> file_of (fst s') p = file_of (snd s1) p"
    proof (rule Cons.IH [OF _ _ run _ _ True])
      show "\<not> link_at (fst s1) q" if "p \<in> set (targets steps)" "prefix q p" for p q
        using Cons.prems(5) [of p q] that ok tg by auto
    qed (use ok Cons.prems(4) tg in auto)
    moreover have "Some p \<noteq> step_target step" using Cons.prems(4) True tg by (auto split: option.splits)
    then have "file_of (snd s1) p = file_of (snd s) p" using ok by blast
    ultimately show ?thesis by metis
  next
    case False
    then have target: "step_target step = Some p" using Cons.prems(6) tg by (auto split: option.splits)
    have "\<not> behind_link (fst s) p"
      by (rule behind_link_mono [of _ "fst s"]) (use Cons.prems(5,6) in auto)
    then obtain x where "file_of (snd s) p = Some x" "file_of (fst s1) p = Some x"
      using ok r1 target by blast
    moreover have "file_of (fst s') p = file_of (fst s1) p"
      using publish_all_ok [OF _ _ run] ok False by auto
    ultimately show ?thesis by simp
  qed
qed simp

section \<open>A commit, interrupted anywhere\<close>

text \<open>The trees the Workspace goes through: one after every publication step, then one after every deletion.\<close>

definition commit_steps :: "generation \<Rightarrow> publish_step list" where
  "commit_steps g = move_steps (generation_paths g) @ [MoveMetadata]"

definition commit_trace ::
    "'x codec_scheme \<Rightarrow> workspace_store \<Rightarrow> path \<Rightarrow> int \<Rightarrow> file_tree \<times> file_tree \<Rightarrow> file_tree list" where
  "commit_trace c st base expected_revision s =
     (case prepare_commit c st expected_revision s of Inl e \<Rightarrow> [fst s]
      | Inr (staged, g) \<Rightarrow>
          map (\<lambda>k. fst (snd (publish_all (take k (commit_steps g)) s))) [0..<Suc (length (commit_steps g))] @
          (case publish_all (commit_steps g) s of (Inl e, s') \<Rightarrow> []
           | (Inr _, t, staging) \<Rightarrow> (let acts = collect_after c base g t in
               map (\<lambda>n. fold perform (take n acts) t) [0..<Suc (length acts)])))"

text \<open>What the service guarantees of a staged generation: its files are new, and are none of them behind a
  link of the Workspace; its plans are named as plans.\<close>

definition fresh_generation :: "'x codec_scheme \<Rightarrow> file_tree \<Rightarrow> generation \<Rightarrow> bool" where
  "fresh_generation c t g \<longleftrightarrow> distinct (METADATA_PATH # generation_paths g) \<and>
     (\<forall>payload. load_metadata c t = Inr payload \<longrightarrow> set (generation_paths g) \<inter> snapshot_paths c payload = {}) \<and>
     (\<forall>p \<in> set (METADATA_PATH # generation_paths g). \<forall>q. prefix q p \<longrightarrow> \<not> link_at t q) \<and>
     (\<forall>p \<in> set (gn_plans g). \<exists>n. p = [''data'', n] \<and> lower_ascii (path_suffix n) = ''.plbin'')"

lemma plan_paths_map: "map_result plan_path entries = Inr paths \<Longrightarrow> plan_paths entries = set paths"
proof (induction entries arbitrary: paths)
  case (Cons entry entries)
  then obtain p ps where "plan_path entry = Inr p" "map_result plan_path entries = Inr ps" "paths = p # ps"
    by (auto simp: bind_result_Inr_iff)
  with Cons.IH [of ps] show ?case by (auto simp: plan_paths_def)
qed (simp add: plan_paths_def)

lemma staged_generationD:
  assumes "staged_generation c st staging = Inr g"
  obtains payload where "load_metadata c staging = Inr payload" "snapshot_paths c payload = set (generation_paths g)"
    "refs_ok c ''tabs'' (gn_tabs g)" "refs_ok c ''analyses'' (gn_analyses g)"
proof -
  obtain payload where p: "load_metadata c staging = Inr payload" "tab_references c payload = Inr (gn_tabs g)"
    "analysis_references c payload = Inr (gn_analyses g)"
    "map_result plan_path (entries_of payload) = Inr (gn_plans g)"
    using assms unfolding staged_generation_def by (auto simp: bind_result_Inr_iff)
  have "plan_paths (entries_of payload) = set (gn_plans g)"
    using p(4) by (rule plan_paths_map)
  then have s: "snapshot_paths c payload = set (generation_paths g)"
    using p(2,3) by (auto simp: snapshot_paths_def generation_paths_def)
  from p(1) s references_ok(1) [OF p(2)] references_ok(2) [OF p(3)] show thesis by (rule that)
qed

text \<open>A path whose prefixes are the same has the same view.\<close>

lemma file_view_prefixes:
  assumes "\<And>r. prefix r p \<Longrightarrow> map_of t r = map_of t' r"
  shows "file_view t p = file_view t' p"
proof -
  have e: "entry_at t r = entry_at t' r" if "prefix r p" for r using assms [OF that] by (simp add: entry_at_def)
  have "resolve_from t current parts = resolve_from t' current parts" if "current @ parts = p" for current parts
    using that
  proof (induction parts arbitrary: current)
    case (Cons part parts)
    have "entry_at t (current @ [part]) = entry_at t' (current @ [part])"
      using Cons.prems by (intro e) (auto simp: prefix_def)
    with Cons show ?case by (auto split: option.split entry.split)
  qed (use e in simp)
  then have res: "resolve_regular_under t p = resolve_regular_under t' p"
    by (simp add: resolve_regular_under_def)
  have "read_bytes t p = read_bytes t' p" using e [of p] by (simp add: read_bytes_def)
  moreover have "resolve_regular_under t p = Inr q \<Longrightarrow> q = p" for q
    using resolve_from_Inr [of t "[]" p q] by (auto simp: resolve_regular_under_def split: if_splits)
  ultimately show ?thesis
    unfolding file_view_def res [symmetric] by (cases "resolve_regular_under t p") simp_all
qed

text \<open>Before the metadata is replaced, the old snapshot reads as before.\<close>

lemma old_view:
  assumes "tree_ok t" "tree_ok g" "fresh_generation c t gen" "publish_all steps (t, g) = (r, t', g')"
    "set (targets steps) \<subseteq> set (generation_paths gen)"
  shows "same_view c t t'"
proof (rule same_viewI)
  note ok = publish_all_ok [of "(t, g)", simplified, OF assms(1,2,4)]
  show "tree_ok t'" using ok by simp
  show "file_of t METADATA_PATH = file_of t' METADATA_PATH"
    using ok assms(3,5) by (auto simp: fresh_generation_def)
  show "file_of t p = file_of t' p" if "load_metadata c t = Inr payload" "p \<in> snapshot_paths c payload" for payload p
  proof -
    have "set (generation_paths gen) \<inter> snapshot_paths c payload = {}"
      using assms(3) that(1) by (simp add: fresh_generation_def)
    with assms(5) that(2) have "p \<notin> set (targets steps)" by blast
    with ok show ?thesis by simp
  qed
qed (rule assms(1))

text \<open>Afterwards the new one reads as it did in the staging directory.\<close>

lemma new_view:
  assumes "tree_ok t" "tree_ok g" "staged_generation c st g = Inr gen" "fresh_generation c t gen"
    "publish_all (commit_steps gen) (t, g) = (Inr (), t', g')" "acts = collect_after c base gen t'"
  shows "same_view c g (fold perform (take n acts) t')"
proof -
  obtain payload where P: "load_metadata c g = Inr payload" "snapshot_paths c payload = set (generation_paths gen)"
    "refs_ok c ''tabs'' (gn_tabs gen)" "refs_ok c ''analyses'' (gn_analyses gen)"
    by (rule staged_generationD [OF assms(3)])
  have tg: "targets (commit_steps gen) = generation_paths gen @ [METADATA_PATH]"
    by (simp add: commit_steps_def targets_move_steps)
  have t': "tree_ok t'" using publish_all_ok [of "(t, g)", simplified, OF assms(1,2,5)] by simp
  have moved: "file_of t' p \<noteq> None \<and> file_of t' p = file_of g p" if "p \<in> set (METADATA_PATH # generation_paths gen)" for p
  proof -
    have m: "distinct (targets (commit_steps gen))" "p \<in> set (targets (commit_steps gen))"
      using assms(4) that by (auto simp: tg fresh_generation_def)
    have l: "\<not> link_at t q" if "p \<in> set (targets (commit_steps gen))" "prefix q p" for p q
      using assms(4) that by (auto simp: tg fresh_generation_def)
    from publish_all_moved [of "(t, g)" "commit_steps gen" "(t', g')" p, unfolded fst_conv snd_conv,
        OF assms(1,2,5) m(1) l m(2)]
    show ?thesis .
  qed
  have keys: "map_of t' p \<noteq> None" if "p \<in> set (METADATA_PATH # generation_paths gen)" for p
    using moved [OF that] by (auto simp: file_of_def split: option.splits)
  obtain e where gc: "garbage_collection c base t' (gn_plans gen) (gn_tabs gen) (gn_analyses gen) (gn_owners gen) = (acts, e)"
    using assms(6) unfolding collect_after_def by (metis prod.collapse)
  have ret: "retained c base t' (gn_plans gen) (gn_tabs gen) (gn_analyses gen) (gn_owners gen) p"
    if "p \<in> set (METADATA_PATH # generation_paths gen)" for p
  proof -
    from that consider "p = METADATA_PATH" | "p \<in> set (gn_plans gen)"
      | "p \<in> snd ` set (gn_tabs gen) \<union> snd ` set (gn_analyses gen)"
      by (auto simp: generation_paths_def)
    then show ?thesis
    proof cases
      case 1
      then show ?thesis by (simp add: retained_def METADATA_PATH_def)
    next
      case 2
      with assms(4) obtain m where m: "p = [''data'', m]" "lower_ascii (path_suffix m) = ''.plbin''"
        unfolding fresh_generation_def by blast
      have "m \<in> file_name ` set (gn_plans gen)" using 2 m(1) by (force simp: file_name_def)
      with m show ?thesis unfolding retained_def by blast
    next
      case 3
      from retained_reference [OF this, of _ _ _ _ _ "[]"] show ?thesis by simp
    qed
  qed
  let ?t = "fold perform (take n acts) t'"
  have keep: "map_of ?t r = map_of t' r" if "p \<in> set (METADATA_PATH # generation_paths gen)" "prefix r p" for p r
    by (rule garbage_collection_keeps [OF t' P(3,4) gc ret [OF that(1)] keys [OF that(1)] that(2)])
  have view: "file_view ?t p = file_view g p" if "p \<in> set (METADATA_PATH # generation_paths gen)" for p
    using file_view_prefixes [of p ?t t', OF keep [OF that]] moved [OF that]
    by (simp add: file_view_eq [OF t'] file_view_eq [OF assms(2)])
  have "read_bytes ?t METADATA_PATH = read_bytes g METADATA_PATH"
    using keep [of METADATA_PATH METADATA_PATH] moved [of METADATA_PATH]
    by (simp add: read_bytes_eq METADATA_PATH_def file_of_def)
  with view P(1,2) show ?thesis by (auto simp: same_view_def)
qed

lemma publish_all_append:
  "publish_all (xs @ ys) s = (case publish_all xs s of (Inl e, s') \<Rightarrow> (Inl e, s') | (Inr _, s') \<Rightarrow> publish_all ys s')"
  by (induction xs arbitrary: s) (auto split: prod.split sum.split)

text \<open>While only private files of the generation have moved, the Workspace is inspected as before; and a commit that
  fails has moved nothing else.\<close>

lemma moving_keeps_old:
  assumes "tree_ok t" "tree_ok g" "fresh_generation c t gen"
    and "publish_all (take k (move_steps (generation_paths gen))) (t, g) = (r', t', g')"
  shows "inspect_complete c st t' = inspect_complete c st t"
proof -
  have "set (targets (take k (move_steps (generation_paths gen)))) \<subseteq> set (generation_paths gen)"
    using targets_simps(5) [of "take k (move_steps (generation_paths gen))" "drop k (move_steps (generation_paths gen))"]
    by (simp add: targets_move_steps) (metis Un_upper1 set_append)
  from inspect_cong [OF old_view [OF assms(1,2,3,4) this]] show ?thesis by simp
qed

lemma failed_keeps_old:
  assumes "tree_ok t" "tree_ok g" "fresh_generation c t gen" "publish_all (commit_steps gen) (t, g) = (Inl e, t1, g1)"
  shows "inspect_complete c st t1 = inspect_complete c st t"
proof -
  obtain r2 t2 g2 where m: "publish_all (move_steps (generation_paths gen)) (t, g) = (r2, t2, g2)"
    by (metis prod.collapse)
  have o2: "inspect_complete c st t2 = inspect_complete c st t"
    using moving_keeps_old [OF assms(1-3), of "length (move_steps (generation_paths gen))"] m by simp
  show ?thesis
  proof (cases r2)
    case (Inl x)
    then show ?thesis using assms(4) m o2 by (simp add: commit_steps_def publish_all_append)
  next
    case (Inr u)
    then have "replace_from METADATA_PATH (read_bytes g2 METADATA_PATH) (t2, g2) = (Inl e, t1, g1)"
      using assms(4) m by (simp add: commit_steps_def publish_all_append split: sum.splits prod.splits)
    then have "t1 = t2" unfolding replace_from_def replace_file_def
      by (auto split: sum.splits if_splits)
    with o2 show ?thesis by simp
  qed
qed


section \<open>Example\<close>

text \<open>The generation of revision 2, staged for the Workspace of \<open>example_disk\<close>.\<close>

definition example_store :: workspace_store where
  "example_store = \<lparr>st_max_nodes = 10, st_max_snapshot_bytes = 100\<rparr>"

definition example_staging :: file_tree where
  "example_staging = example_tree ''two'' ''r2''"

definition example_generation :: generation where
  "example_generation = projr (staged_generation example_codec example_store example_staging)"

lemma example_commit:
  "tree_ok example_disk" "tree_ok example_staging"
  "prepare_commit example_codec example_store 1 (example_disk, example_staging) =
     Inr (projr (inspect_complete example_codec example_store example_staging), example_generation)"
proof -
  show "tree_ok example_disk" "tree_ok example_staging" by (rule tree_ok_check, code_simp)+
  have "isl (prepare_commit example_codec example_store 1 (example_disk, example_staging)) = False" by code_simp
  then show "prepare_commit example_codec example_store 1 (example_disk, example_staging) =
     Inr (projr (inspect_complete example_codec example_store example_staging), example_generation)"
    unfolding prepare_commit_def example_generation_def fst_conv snd_conv
    by (auto simp: bind_result_def split: sum.splits)
qed

lemma no_links: "list_all (\<lambda>(p, e). case e of Link l \<Rightarrow> False | _ \<Rightarrow> True) t \<Longrightarrow> \<not> link_at t q"
  by (auto simp: link_at_def list_all_iff dest!: map_of_SomeD)

lemma example_fresh: "fresh_generation example_codec example_disk example_generation"
  unfolding fresh_generation_def
proof (intro conjI)
  show "distinct (METADATA_PATH # generation_paths example_generation)" by code_simp
  have "gn_plans example_generation = [[''data'', ''n.r2.plbin'']] \<and>
      lower_ascii (path_suffix ''n.r2.plbin'') = ''.plbin''" by code_simp
  then show "\<forall>p \<in> set (gn_plans example_generation). \<exists>n. p = [''data'', n] \<and> lower_ascii (path_suffix n) = ''.plbin''"
    by simp
  have "list_all (\<lambda>(p, e). case e of Link l \<Rightarrow> False | _ \<Rightarrow> True) example_disk" by code_simp
  then show "\<forall>p \<in> set (METADATA_PATH # generation_paths example_generation). \<forall>q. prefix q p \<longrightarrow>
      \<not> link_at example_disk q"
    using no_links by blast
  let ?old = "projr (staged_generation example_codec example_store example_disk)"
  have "isl (staged_generation example_codec example_store example_disk) = False" by code_simp
  then have old: "staged_generation example_codec example_store example_disk = Inr ?old"
    by (cases "staged_generation example_codec example_store example_disk") simp_all
  have "set (generation_paths example_generation) \<inter> set (generation_paths ?old) = {}" by code_simp
  with staged_generationD [OF old]
  show "\<forall>payload. load_metadata example_codec example_disk = Inr payload \<longrightarrow>
      set (generation_paths example_generation) \<inter> snapshot_paths example_codec payload = {}"
    by (metis sum.inject(2))
qed


end
