(* ===== verification/SnapshotWriting.thy ===== *)
theory SnapshotWriting
  imports SnapshotWrite SnapshotCommit
begin

text \<open>
  What \<open>SnapshotWrite\<close> leaves on disk: the files of the new generation with their contents, next to the files that
  were there.
\<close>

section \<open>Paths\<close>

text \<open>The text of a UUID, and the name of a generation.\<close>

definition plain :: "string \<Rightarrow> bool" where
  "plain s \<longleftrightarrow> s \<noteq> [] \<and> CHR ''/'' \<notin> set s \<and> CHR ''.'' \<notin> set s"

lemma py_split_last:
  assumes "c \<notin> set s"
  shows "last (py_split c (p @ c # s)) = s"
proof -
  have "\<exists>ps. ps \<noteq> [] \<and> py_split c (p @ c # s) = ps @ [s]"
  proof (induction p)
    case Nil
    then show ?case using assms by (intro exI [of _ "[[]]"]) (simp add: py_split_single)
  next
    case (Cons a p)
    then obtain q qs where q: "py_split c (p @ c # s) = (q # qs) @ [s]" by (auto simp: neq_Nil_conv)
    show ?case
    proof (cases "a = c")
      case True
      then show ?thesis using q by (intro exI [of _ "[] # q # qs"]) simp
    next
      case False
      then show ?thesis using q by (intro exI [of _ "(a # q) # qs"]) simp
    qed
  qed
  then show ?thesis by auto
qed

lemma plan_file_parts:
  assumes "plain i" "plain gen"
  shows "posix_parts (plan_file gen i) = [''data'', i @ ''.'' @ gen @ ''.plbin'']"
    "path_suffix (i @ ''.'' @ gen @ ''.plbin'') = ''.plbin''"
proof -
  have "py_split (CHR ''/'') (plan_file gen i) = [''data'', i @ ''.'' @ gen @ ''.plbin'']"
    using assms py_split_cons [of "CHR ''/''" "''data''" "i @ ''.'' @ gen @ ''.plbin''"]
    by (simp add: plan_file_def plain_def py_split_single)
  then show "posix_parts (plan_file gen i) = [''data'', i @ ''.'' @ gen @ ''.plbin'']"
    using assms(1) by (cases i) (auto simp: posix_parts_def plain_def)
  have "dropWhile (\<lambda>c. c = CHR ''.'') (i @ ''.'' @ gen @ ''.plbin'') = i @ ''.'' @ gen @ ''.plbin''"
    using assms(1) by (cases i) (auto simp: plain_def)
  then show "path_suffix (i @ ''.'' @ gen @ ''.plbin'') = ''.plbin''"
    using py_split_last [of "CHR ''.''" "''plbin''" "i @ ''.'' @ gen"]
    by (simp add: path_suffix_def)
qed

lemma record_file_parts:
  assumes "plain i" "plain gen" "plain field"
  shows "posix_parts (record_file gen field i) = [field, i, gen @ ''.json'']"
    "path_suffix (gen @ ''.json'') = ''.json''"
proof -
  have "py_split (CHR ''/'') (record_file gen field i) = [field, i, gen @ ''.json'']"
    using assms py_split_cons [of "CHR ''/''" field "i @ ''/'' @ gen @ ''.json''"]
      py_split_cons [of "CHR ''/''" i "gen @ ''.json''"]
    by (simp add: record_file_def plain_def py_split_single)
  then show "posix_parts (record_file gen field i) = [field, i, gen @ ''.json'']"
    using assms by (cases gen) (auto simp: posix_parts_def plain_def)
  have "dropWhile (\<lambda>c. c = CHR ''.'') (gen @ ''.json'') = gen @ ''.json''"
    using assms(2) by (cases gen) (auto simp: plain_def)
  then show "path_suffix (gen @ ''.json'') = ''.json''"
    using py_split_last [of "CHR ''.''" "''json''" gen] by (simp add: path_suffix_def)
qed

section \<open>Written files\<close>

definition writes :: "file_tree \<Rightarrow> (path \<times> string) list \<Rightarrow> file_tree \<Rightarrow> bool" where
  "writes t files t' \<longleftrightarrow> tree_ok t' \<and> (\<forall>q. q \<notin> fst ` set files \<longrightarrow> file_of t' q = file_of t q) \<and>
     (\<forall>q. link_at t' q \<longrightarrow> link_at t q) \<and>
     (distinct (map fst files) \<longrightarrow> (\<forall>p \<in> fst ` set files. \<forall>q. prefix q p \<longrightarrow> \<not> link_at t q) \<longrightarrow>
       (\<forall>(p, x) \<in> set files. file_of t' p = Some x))"

lemma writes_refl: "tree_ok t \<Longrightarrow> writes t [] t"
  by (simp add: writes_def)

lemma writes_trans:
  assumes "writes t xs t1" "writes t1 ys t2"
  shows "writes t (xs @ ys) t2"
  unfolding writes_def
proof (intro conjI allI impI ballI)
  assume d: "distinct (map fst (xs @ ys))"
    and links: "\<forall>p \<in> fst ` set (xs @ ys). \<forall>q. prefix q p \<longrightarrow> \<not> link_at t q"
  fix e assume e: "e \<in> set (xs @ ys)"
  obtain p x where px: "e = (p, x)" by (cases e)
  have l1: "\<forall>p \<in> fst ` set ys. \<forall>q. prefix q p \<longrightarrow> \<not> link_at t1 q" using links assms(1) by (auto simp: writes_def)
  show "case e of (p, x) \<Rightarrow> file_of t2 p = Some x"
  proof (cases "e \<in> set ys")
    case True
    then show ?thesis using assms(2) d l1 by (simp add: writes_def)
  next
    case False
    then have x: "e \<in> set xs" using e by simp
    then have "p \<notin> fst ` set ys" using d px by force
    then have "file_of t2 p = file_of t1 p" using assms(2) by (simp add: writes_def)
    moreover have "file_of t1 p = Some x" using assms(1) d links x px by (auto simp: writes_def)
    ultimately show ?thesis using px by simp
  qed
qed (use assms in \<open>auto simp: writes_def image_Un\<close>)

lemma behind_link_prefix: "behind_link t p \<Longrightarrow> \<exists>q. prefix q p \<and> link_at t q"
  by (auto simp: behind_link_def link_at_def entry_at_def split: if_splits)

lemma write_output_writes:
  assumes "tree_ok t" "p \<noteq> []" "write_output p x t = (r, t')"
  shows "r = Inr () \<Longrightarrow> writes t [(p, x)] t'" "r = Inl e \<Longrightarrow> writes t [] t'"
proof -
  obtain r1 t1 where m: "make_dirs [] (butlast p) t = (r1, t1)" by (metis prod.collapse)
  have root: "entry_at t [] = Some Dir" by (simp add: entry_at_def)
  have ok: "tree_ok t1" "file_of t1 = file_of t" "\<And>q. link_at t1 q \<Longrightarrow> link_at t q"
    using make_dirs_ok [OF assms(1) root, of "butlast p"] m by simp_all
  consider (stop) e where "r = Inl e" "t' = t1"
    | (link) "r = Inr ()" "behind_link t1 p" "t' = t1"
    | (updated) "r = Inr ()" "\<not> behind_link t1 p" "entry_at t1 (butlast p) = Some Dir" "map_of t1 p \<noteq> Some Dir"
        "t' = AList.update p (File x) t1"
  proof (cases r1)
    case (Inl e)
    then show ?thesis using assms(3) m by (intro stop [of e]) (simp_all add: write_output_def)
  next
    case (Inr u)
    then have rep: "replace_file p x t1 = (r, t')" using assms(3) m by (simp add: write_output_def)
    show ?thesis
    proof (cases "behind_link t1 p")
      case True
      then show ?thesis using rep by (intro link) (simp_all add: replace_file_def)
    next
      case no: False
      show ?thesis
      proof (cases "entry_at t1 (butlast p) \<noteq> Some Dir \<or> entry_at t1 p = Some Dir")
        case True
        then show ?thesis using rep no by (intro stop [of "OSError ''replace''"]) (simp_all add: replace_file_def)
      next
        case False
        then have "map_of t1 p \<noteq> Some Dir" using assms(2) by (simp add: entry_at_def)
        then show ?thesis using rep no False by (intro updated) (simp_all add: replace_file_def)
      qed
    qed
  qed
  then have "(r = Inr () \<longrightarrow> writes t [(p, x)] t') \<and> (\<forall>e. r = Inl e \<longrightarrow> writes t [] t')"
  proof cases
    case stop
    then show ?thesis using ok by (simp add: writes_def)
  next
    case link
    then show ?thesis using ok behind_link_prefix [of t1 p] by (auto simp: writes_def)
  next
    case updated
    have "tree_ok t'" unfolding updated(5) by (rule tree_ok_update [OF ok(1) assms(2) updated(3,4)])
    then show ?thesis
      using updated ok by (auto simp: writes_def file_of_update link_at_def update_conv' split: if_splits)
  qed
  then show "r = Inr () \<Longrightarrow> writes t [(p, x)] t'" "r = Inl e \<Longrightarrow> writes t [] t'" by blast+
qed

text \<open>A loop whose every turn writes one file.\<close>

lemma write_each_writes:
  assumes "\<And>x s v s'. x \<in> set xs \<Longrightarrow> tree_ok (wg_tree s) \<Longrightarrow> write x s = (Inr v, s') \<Longrightarrow>
      v = entry x \<and> writes (wg_tree s) [content x] (wg_tree s')"
    "tree_ok (wg_tree s)" "write_each write xs s = (Inr vs, s')"
  shows "vs = map entry xs \<and> writes (wg_tree s) (map content xs) (wg_tree s')"
  using assms
proof (induction xs arbitrary: s vs)
  case Nil
  then show ?case by (simp add: writes_refl)
next
  case (Cons x xs)
  from Cons.prems(3) obtain v s1 vs' where w: "write x s = (Inr v, s1)" "write_each write xs s1 = (Inr vs', s')"
    "vs = v # vs'"
    by (auto split: prod.splits sum.splits)
  have one: "v = entry x \<and> writes (wg_tree s) [content x] (wg_tree s1)"
    by (rule Cons.prems(1) [OF _ Cons.prems(2) w(1)]) simp
  have "vs' = map entry xs \<and> writes (wg_tree s1) (map content xs) (wg_tree s')"
    by (rule Cons.IH [OF Cons.prems(1) _ w(2)]) (use one in \<open>auto simp: writes_def\<close>)
  with one w(3) show ?case using writes_trans [of "wg_tree s" "[content x]"] by auto
qed

section \<open>The files of a Workspace\<close>

definition node_written :: "('p, 'x) store_codec_scheme \<Rightarrow> string \<Rightarrow> (uuid, 'p plan_history) dict \<Rightarrow> node \<Rightarrow> path \<times> string" where
  "node_written c gen plans n = ([''data'', nd_id n @ ''.'' @ gen @ ''.plbin''],
     cd_dump_plan c (ph_data (the (map_of plans (nd_id n)))))"

definition record_written :: "string \<Rightarrow> string \<Rightarrow> uuid \<times> string \<Rightarrow> path \<times> string" where
  "record_written gen field kc = ([field, fst kc, gen @ ''.json''], snd kc)"

definition record_entry :: "string \<Rightarrow> string \<Rightarrow> uuid \<Rightarrow> jval" where
  "record_entry gen field i = JObj [(''id'', JStr i), (''record_path'', JStr (record_file gen field i))]"

definition tab_items :: "('p, 'x) store_codec_scheme \<Rightarrow> analysis_board \<Rightarrow> (uuid \<times> string) list" where
  "tab_items c b = map (\<lambda>kt. (fst kt, cd_dump_json c (cd_dump_tab c (snd kt)))) (ab_tabs b)"

definition analysis_items :: "('p, 'x) store_codec_scheme \<Rightarrow> analysis_board \<Rightarrow> (uuid \<times> string) list" where
  "analysis_items c b = map (\<lambda>ka. (fst ka, cd_dump_json c (cd_dump_record c (snd ka)))) (ab_analyses b)"

definition saved_files :: "('p, 'x) store_codec_scheme \<Rightarrow> string \<Rightarrow> 'p workspace \<Rightarrow> (path \<times> string) list" where
  "saved_files c gen w = map (node_written c gen (wk_plans w)) (workspace_nodes w) @
     map (record_written gen ''tabs'') (tab_items c (wk_board w)) @
     map (record_written gen ''analyses'') (analysis_items c (wk_board w) @ corrupt_items (wk_board w))"

definition node_entries_of :: "('p, 'x) store_codec_scheme \<Rightarrow> string \<Rightarrow> 'p workspace \<Rightarrow> jval list" where
  "node_entries_of c gen w = map (\<lambda>n. node_entry c n (plan_file gen (nd_id n))) (workspace_nodes w)"

definition tab_entries_of :: "string \<Rightarrow> 'p workspace \<Rightarrow> jval list" where
  "tab_entries_of gen w = map (record_entry gen ''tabs'') (dict_keys (ab_tabs (wk_board w)))"

definition analysis_entries_of :: "string \<Rightarrow> 'p workspace \<Rightarrow> jval list" where
  "analysis_entries_of gen w = map (record_entry gen ''analyses'')
     (dict_keys (ab_analyses (wk_board w)) @ map fst (corrupt_items (wk_board w)))"

definition saved_payload :: "('p, 'x) store_codec_scheme \<Rightarrow> string \<Rightarrow> int \<Rightarrow> 'p workspace \<Rightarrow> jval" where
  "saved_payload c gen revision w = snapshot_payload (metadata_of c revision w) (node_entries_of c gen w)
     (tab_entries_of gen w) (analysis_entries_of gen w)"

definition plain_ids :: "'p workspace \<Rightarrow> bool" where
  "plain_ids w \<longleftrightarrow> (\<forall>n \<in> set (workspace_nodes w). plain (nd_id n)) \<and>
     (\<forall>k \<in> fst ` set (ab_tabs (wk_board w)) \<union> fst ` set (ab_analyses (wk_board w)) \<union> fst ` set (ab_corrupt (wk_board w)).
        plain k)"

lemma write_tracked_writes:
  assumes "tree_ok (wg_tree s)" "p \<noteq> []" "write_tracked p content entry s = (r, s')"
  shows "r = Inr v \<Longrightarrow> v = entry \<and> writes (wg_tree s) [(p, content)] (wg_tree s')"
    "r = Inl e \<Longrightarrow> writes (wg_tree s) [] (wg_tree s')"
proof -
  obtain r1 t1 where w: "write_output p content (wg_tree s) = (r1, t1)" by (metis prod.collapse)
  note ok = write_output_writes [OF assms(1,2) w]
  show "r = Inr v \<Longrightarrow> v = entry \<and> writes (wg_tree s) [(p, content)] (wg_tree s')"
    using assms(3) w ok(1) by (cases r1) (auto simp: write_tracked_def)
  show "r = Inl e \<Longrightarrow> writes (wg_tree s) [] (wg_tree s')"
    using assms(3) w ok(2) by (cases r1) (auto simp: write_tracked_def)
qed

lemma write_node_writes:
  assumes "plain (nd_id n)" "plain gen" "tree_ok (wg_tree s)" "write_node c gen plans n s = (Inr v, s')"
  shows "v = node_entry c n (plan_file gen (nd_id n)) \<and> writes (wg_tree s) [node_written c gen plans n] (wg_tree s')"
proof -
  obtain h where h: "map_of plans (nd_id n) = Some h"
    and w: "write_tracked (posix_parts (plan_file gen (nd_id n))) (cd_dump_plan c (ph_data h))
      (node_entry c n (plan_file gen (nd_id n))) s = (Inr v, s')"
    using assms(4) by (auto simp: write_node_def Let_def dict_item_def split: if_splits option.splits sum.splits)
  show ?thesis
    using write_tracked_writes(1) [OF assms(3) _ w refl] plan_file_parts(1) [OF assms(1,2)] h
    by (simp add: node_written_def)
qed

lemma write_record_writes:
  assumes "plain i" "plain gen" "plain field" "tree_ok (wg_tree s)" "write_record gen field i content s = (Inr v, s')"
  shows "v = record_entry gen field i \<and> writes (wg_tree s) [record_written gen field (i, content)] (wg_tree s')"
proof -
  have "write_tracked (posix_parts (record_file gen field i)) content (record_entry gen field i) s = (Inr v, s')"
    using assms(5) by (auto simp: write_record_def Let_def record_entry_def split: if_splits)
  from write_tracked_writes(1) [OF assms(4) _ this refl] show ?thesis
    using record_file_parts(1) [OF assms(1-3)] by (simp add: record_written_def)
qed

lemma plain_fields: "plain ''tabs''" "plain ''analyses''"
  by (simp_all add: plain_def)

lemma write_parts_writes:
  assumes gen: "plain gen" and ids: "plain_ids w" and t: "tree_ok (wg_tree s)"
    and w: "write_parts c gen w s = (Inr (nodes, tabs, analyses), s')"
  shows "nodes = node_entries_of c gen w \<and> tabs = tab_entries_of gen w \<and> analyses = analysis_entries_of gen w \<and>
    writes (wg_tree s) (saved_files c gen w) (wg_tree s')"
proof -
  let ?b = "wk_board w"
  obtain s1 s2 s3 an co where n: "write_each (write_node c gen (wk_plans w)) (workspace_nodes w) s = (Inr nodes, s1)"
    and tb: "write_each (write_tab c gen) (ab_tabs ?b) s1 = (Inr tabs, s2)"
    and a: "write_each (write_analysis c gen) (ab_analyses ?b) s2 = (Inr an, s3)"
    and co: "write_each (write_corrupt gen) (corrupt_items ?b) s3 = (Inr co, s')" "analyses = an @ co"
    using w by (auto simp: write_parts_def split: prod.splits sum.splits)
  have 1: "nodes = node_entries_of c gen w \<and>
      writes (wg_tree s) (map (node_written c gen (wk_plans w)) (workspace_nodes w)) (wg_tree s1)"
    unfolding node_entries_of_def
    by (rule write_each_writes [OF _ t n]) (use ids gen in \<open>auto simp: plain_ids_def dest!: write_node_writes [rotated 3]\<close>)
  have 2: "tabs = map (\<lambda>kt. record_entry gen ''tabs'' (fst kt)) (ab_tabs ?b) \<and> writes (wg_tree s1)
      (map (\<lambda>kt. record_written gen ''tabs'' (fst kt, cd_dump_json c (cd_dump_tab c (snd kt)))) (ab_tabs ?b)) (wg_tree s2)"
  proof (rule write_each_writes [OF _ _ tb])
    fix x s v s' assume x: "x \<in> set (ab_tabs ?b)" and t: "tree_ok (wg_tree s)" "write_tab c gen x s = (Inr v, s')"
    then have "plain (fst x)" using ids by (auto simp: plain_ids_def)
    from write_record_writes [OF this gen plain_fields(1) t(1), of "cd_dump_json c (cd_dump_tab c (snd x))" v s'] t(2)
    show "v = record_entry gen ''tabs'' (fst x) \<and> writes (wg_tree s)
        [record_written gen ''tabs'' (fst x, cd_dump_json c (cd_dump_tab c (snd x)))] (wg_tree s')"
      by (simp add: write_tab_def split: if_splits)
  qed (use 1 in \<open>simp add: writes_def\<close>)
  have 3: "an = map (\<lambda>ka. record_entry gen ''analyses'' (fst ka)) (ab_analyses ?b) \<and> writes (wg_tree s2)
      (map (\<lambda>ka. record_written gen ''analyses'' (fst ka, cd_dump_json c (cd_dump_record c (snd ka)))) (ab_analyses ?b))
      (wg_tree s3)"
  proof (rule write_each_writes [OF _ _ a])
    fix x s v s' assume x: "x \<in> set (ab_analyses ?b)" and t: "tree_ok (wg_tree s)" "write_analysis c gen x s = (Inr v, s')"
    then have "plain (fst x)" using ids by (auto simp: plain_ids_def)
    from write_record_writes [OF this gen plain_fields(2) t(1), of "cd_dump_json c (cd_dump_record c (snd x))" v s'] t(2)
    show "v = record_entry gen ''analyses'' (fst x) \<and> writes (wg_tree s)
        [record_written gen ''analyses'' (fst x, cd_dump_json c (cd_dump_record c (snd x)))] (wg_tree s')"
      by (simp add: write_analysis_def split: if_splits)
  qed (use 2 in \<open>simp add: writes_def\<close>)
  have 4: "co = map (\<lambda>kc. record_entry gen ''analyses'' (fst kc)) (corrupt_items ?b) \<and>
      writes (wg_tree s3) (map (record_written gen ''analyses'') (corrupt_items ?b)) (wg_tree s')"
  proof (rule write_each_writes [OF _ _ co(1)])
    fix x s v s' assume x: "x \<in> set (corrupt_items ?b)" and t: "tree_ok (wg_tree s)" "write_corrupt gen x s = (Inr v, s')"
    have "fst x \<in> fst ` set (ab_corrupt ?b)" using x by (force simp: corrupt_items_def)
    then have "plain (fst x)" using ids unfolding plain_ids_def by blast
    from write_record_writes [OF this gen plain_fields(2) t(1), of "snd x" v s'] t(2)
    show "v = record_entry gen ''analyses'' (fst x) \<and> writes (wg_tree s) [record_written gen ''analyses'' x] (wg_tree s')"
      by (simp add: write_corrupt_def)
  qed (use 3 in \<open>simp add: writes_def\<close>)
  from 1 2 3 4 writes_trans [OF conjunct2 [OF 1] writes_trans [OF conjunct2 [OF 2] writes_trans [OF conjunct2 [OF 3]
      conjunct2 [OF 4]]]] co(2)
  show ?thesis
    by (simp add: saved_files_def tab_items_def analysis_items_def tab_entries_of_def analysis_entries_of_def comp_def)
qed

lemma write_workspace_writes:
  assumes "plain gen" "plain_ids w" "tree_ok t" "write_workspace c st base gen revision w t = (Inr (), t')"
  shows "\<exists>t1. writes t (saved_files c gen w @ [(METADATA_PATH, cd_dump_json c (saved_payload c gen revision w))]) t1 \<and>
    t' = fold perform (fst (garbage_collection c base t1 (map data_path_of (node_entries_of c gen w))
      (map reference_of (tab_entries_of gen w)) (map reference_of (analysis_entries_of gen w))
      (saved_owners (wk_board w)))) t1"
proof -
  let ?s = "\<lparr>wg_tree = t, wg_created = [], wg_remaining = st_max_snapshot_bytes st\<rparr>"
  obtain nodes tabs analyses s n t1 where p: "write_parts c gen w ?s = (Inr (nodes, tabs, analyses), s)"
    and m: "atomic_write_json c METADATA_PATH (snapshot_payload (metadata_of c revision w) nodes tabs analyses)
      (Some (wg_remaining s)) (wg_tree s) = (Inr n, t1)"
    and t': "t' = fold perform (fst (garbage_collection c base t1 (map data_path_of nodes)
                  (map reference_of tabs) (map reference_of analyses) (saved_owners (wk_board w)))) t1"
    using assms(4) by (auto simp: write_workspace_def split: if_splits prod.splits sum.splits)
  note P = write_parts_writes [OF assms(1,2) _ p, simplified, OF assms(3)]
  have "tree_ok (wg_tree s)" using P by (simp add: writes_def)
  moreover have "write_output METADATA_PATH (cd_dump_json c (saved_payload c gen revision w)) (wg_tree s) = (Inr (), t1)"
    using m P by (auto simp: atomic_write_json_def Let_def saved_payload_def split: if_splits prod.splits sum.splits)
  ultimately have "writes (wg_tree s) [(METADATA_PATH, cd_dump_json c (saved_payload c gen revision w))] t1"
    using write_output_writes(1) [of "wg_tree s" METADATA_PATH] by (simp add: METADATA_PATH_def)
  with P t' writes_trans show ?thesis by blast
qed

end
