(* ===== verification/SnapshotRestore.thy ===== *)
theory SnapshotRestore
  imports SnapshotLoad
begin

text \<open>
  What \<open>SnapshotLoad\<close> makes of the Data Blocks of a snapshot: a well-formed graph with the persisted order whose
  objects are as their specifications say.
\<close>

section \<open>One object\<close>

definition spec_ok :: "uuid \<Rightarrow> 'p node_spec \<Rightarrow> bool" where
  "spec_ok i spec \<longleftrightarrow> ns_name spec \<noteq> [] \<and> \<not> is_reference (ns_provenance spec) \<and>
     i \<notin> set (referenced_node_ids (ns_provenance spec)) \<and>
     (case ns_tokenizer_model spec of None \<Rightarrow> True | Some s \<Rightarrow> py_strip s = s \<and> s \<noteq> [] \<and> length s \<le> 500)"

definition node_as :: "'p node_spec \<Rightarrow> node \<Rightarrow> bool" where
  "node_as spec n \<longleftrightarrow> nd_name n = ns_name spec \<and> nd_provenance n = ns_provenance spec \<and>
     nd_document n = ns_document spec \<and> nd_color n = ns_color spec \<and>
     nd_tokenizer_model n = ns_tokenizer_model spec"

text \<open>The graph in the middle of the loop.\<close>

definition restored_so_far :: "(uuid, 'p node_spec) dict \<Rightarrow> uuid list \<Rightarrow> node_graph \<Rightarrow> bool" where
  "restored_so_far specs ids g \<longleftrightarrow> ng_inv g \<and> dict_keys (ng_nodes g) = ids \<and>
     dict_values (ng_nodes g) = [0..<length ids] \<and>
     (\<forall>i a spec. map_of (ng_nodes g) i = Some a \<longrightarrow> map_of specs i = Some spec \<longrightarrow> node_as spec (node_at g a))"

lemma tokenizer_kept:
  assumes "spec_ok i spec"
  shows "length (normalized_tokenizer (ns_tokenizer_model spec)) \<le> 500"
    "(if normalized_tokenizer (ns_tokenizer_model spec) = [] then None
      else Some (normalized_tokenizer (ns_tokenizer_model spec))) = ns_tokenizer_model spec"
  using assms by (auto simp: spec_ok_def normalized_tokenizer_def split: option.splits)

lemma add_node_new:
  assumes "raise_first (add_node_checks g a) a = Inr x" "nd_id (node_at g a) \<notin> fst ` set (ng_nodes g)"
  shows "fst (add_node a g) = Inr a" "ng_nodes (snd (add_node a g)) = ng_nodes g @ [(nd_id (node_at g a), a)]"
    "node_at (snd (add_node a g)) b =
       (if b = a then (node_at g a)\<lparr>nd_workspace := Some (ng_self g)\<rparr> else node_at g b)"
    "ng_self (snd (add_node a g)) = ng_self g"
proof -
  have "raise_first (add_node_checks g a) a = Inr a"
    using assms(1) by (auto simp: raise_first_Inr_iff)
  then show "fst (add_node a g) = Inr a" "ng_nodes (snd (add_node a g)) = ng_nodes g @ [(nd_id (node_at g a), a)]"
    "node_at (snd (add_node a g)) b =
       (if b = a then (node_at g a)\<lparr>nd_workspace := Some (ng_self g)\<rparr> else node_at g b)"
    "ng_self (snd (add_node a g)) = ng_self g"
    using assms(2) by (simp_all add: add_node_def update_absent)
qed

lemma restore_node_next:
  assumes R: "restored_so_far specs ids g" and spec: "map_of specs i = Some spec" "spec_ok i spec"
    and new: "i \<notin> set ids" and parents: "set (referenced_node_ids (ns_provenance spec)) \<subseteq> set ids"
  shows "\<exists>g'. restore_node specs i g = Inr g' \<and> restored_so_far specs (ids @ [i]) g' \<and> ng_self g' = ng_self g"
proof -
  let ?refs = "referenced_node_ids (ns_provenance spec)" and ?a = "length (ng_nodes g)"
  have inv: "ng_inv g" and keys: "dict_keys (ng_nodes g) = ids" and vals: "dict_values (ng_nodes g) = [0..<length ids]"
    using R by (simp_all add: restored_so_far_def)
  have dom: "fst ` set (ng_nodes g) = set ids" using keys by (metis list.set_map)
  have len: "length ids = ?a" using arg_cong [OF keys, of length] by simp
  have fresh: "?a \<notin> ng_values g" by (simp add: ng_values_def vals len)
  have lookup: "\<exists>b. map_of (ng_nodes g) p = Some b" if "p \<in> set ?refs" for p
    using that parents keys map_of_None_iff_keys [of "ng_nodes g" p] by (auto simp: dict_keys_dom)
  define ps where "ps = map (\<lambda>p. the (map_of (ng_nodes g) p)) ?refs"
  have ps: "map_result (dict_item (ng_nodes g)) ?refs = Inr ps"
    unfolding map_result_Inr_iff ps_def list_all2_map2
    by (auto simp: dict_item_def list_all2_same dest!: lookup)
  have psm: "set ps \<subseteq> ng_values g" "map (\<lambda>b. nd_id (node_at g b)) ps = ?refs"
    using lookup ng_lookup(3) [OF inv] by (fastforce simp: ps_def comp_def intro: map_idI)+
  obtain n where n: "nd_id n = i" "nd_name n = ns_name spec" "nd_parents n = ps" "nd_provenance n = ns_provenance spec"
    "nd_document n = ns_document spec" "nd_color n = ns_color spec" "nd_tokenizer_model n = ns_tokenizer_model spec"
    "nd_workspace n = None" and N: "n = \<lparr>nd_id = i, nd_name = ns_name spec, nd_parents = ps,
      nd_provenance = ns_provenance spec, nd_document = ns_document spec, nd_color = ns_color spec,
      nd_tokenizer_model = ns_tokenizer_model spec, nd_workspace = None\<rparr>" by simp
  define G where "G = set_node ?a n g"
  have nodes: "ng_nodes G = ng_nodes g" and self: "ng_self G = ng_self g" and at: "node_at G ?a = n"
    by (simp_all add: G_def)
  have same: "node_at G b = node_at g b" if "b \<in> ng_values g" for b
    unfolding G_def using that fresh by (cases "b = ?a") simp_all
  have "map (\<lambda>b. nd_id (node_at G b)) ps = map (\<lambda>b. nd_id (node_at g b)) ps"
    by (rule map_cong) (use psm(1) same in auto)
  then have ids: "map (\<lambda>b. nd_id (node_at G b)) ps = ?refs" by (simp only: psm(2))
  have "raise_first (node_init_check (normalized_tokenizer (ns_tokenizer_model spec)) G ?a) ?a = Inr ?a"
    using tokenizer_kept(1) [OF spec(2)] by (simp add: node_init_check_def at n ids raise_first_Inr_iff)
  then have init: "node_init ?a i (ns_name spec) ps (ns_provenance spec) (ns_document spec) (ns_color spec)
      (ns_tokenizer_model spec) g = (Inr ?a, G)"
    unfolding node_init_def Let_def tokenizer_kept(2) [OF spec(2)]
    using spec(2) by (simp add: spec_ok_def N [symmetric] G_def [symmetric])
  have inv': "ng_inv G" unfolding G_def by (rule ng_inv_set_unregistered [OF inv fresh])
  have own: "?a \<notin> set ps" using psm(1) fresh by auto
  have reg: "nd_workspace (node_at G b) = Some (ng_self g) \<and> map_of (ng_nodes g) (nd_id (node_at G b)) = Some b"
    if "b \<in> set ps" for b
  proof -
    have b: "b \<in> ng_values g" using that psm(1) by blast
    then have m: "map_of (ng_nodes g) (nd_id (node_at g b)) = Some b" using ng_lookup(1) [OF inv] by blast
    from ng_invD(2) [OF inv m] m show ?thesis unfolding same [OF b] node_ok_def by blast
  qed
  have no: "nd_id (node_at G ?a) \<notin> fst ` set (ng_nodes G)" using new by (simp add: n at nodes dom)
  have checks: "raise_first (add_node_checks G ?a) ?a = Inr ?a"
  proof -
    have "i \<notin> set (dict_keys (ng_nodes g))" using new dom by simp
    moreover have "\<not> (\<exists>b \<in> set ps. nd_workspace (node_at G b) \<noteq> Some (ng_self g) \<or>
        map_of (ng_nodes g) (nd_id (node_at G b)) \<noteq> Some b)" using reg by blast
    ultimately show ?thesis
      unfolding raise_first_Inr_iff add_node_checks_def Let_def at n nodes self ids has_duplicates_iff
      using own referenced_node_ids_distinct [of "ns_provenance spec"] by simp
  qed
  let ?h = "snd (add_node ?a G)"
  note added = add_node_new [OF checks no]
  have "restore_node specs i g = Inr ?h"
    unfolding restore_node_def using spec(1) ps init added(1)
    by (cases "add_node ?a G") (simp add: dict_item_def)
  moreover have "restored_so_far specs (ids @ [i]) ?h"
    unfolding restored_so_far_def
  proof (intro conjI allI impI)
    show "ng_inv ?h" using spec(2) by (intro ng_inv_add_node [OF inv']) (simp add: at n spec_ok_def)
    show "dict_keys (ng_nodes ?h) = ids @ [i]" by (simp add: added keys at n nodes)
    show "dict_values (ng_nodes ?h) = [0..<length (ids @ [i])]" by (simp add: added vals len nodes)
    fix j b sp assume "map_of (ng_nodes ?h) j = Some b" "map_of specs j = Some sp"
    moreover have "map_of (ng_nodes g) i = None" using new dom by (simp add: map_of_None_iff_keys)
    ultimately show "node_as sp (node_at ?h b)"
      using R spec(1) ng_lookup(3) [OF inv, of j b] fresh
      unfolding restored_so_far_def added nodes at n
      by (auto simp: at n same node_as_def map_add_Some_iff split: if_splits)
  qed
  ultimately show ?thesis using added(4) self by auto
qed

lemma restore_nodes_all:
  assumes "restored_so_far specs ids g" "\<And>i. i \<in> set rest \<Longrightarrow> \<exists>spec. map_of specs i = Some spec \<and> spec_ok i spec"
    "distinct (ids @ rest)" "parents_before (parents_of_specs specs) (ids @ rest)"
  shows "\<exists>g'. restore_nodes specs rest g = Inr g' \<and> restored_so_far specs (ids @ rest) g' \<and> ng_self g' = ng_self g"
  using assms
proof (induction rest arbitrary: ids g)
  case (Cons i rest)
  obtain spec where spec: "map_of specs i = Some spec" "spec_ok i spec" using Cons.prems(2) by auto
  have "dict_get (parents_of_specs specs) i [] = referenced_node_ids (ns_provenance spec)"
    using spec(1) unfolding parents_of_specs_def dict_get_def by (induction specs) auto
  then have "set (referenced_node_ids (ns_provenance spec)) \<subseteq> set ids"
    using Cons.prems(4) unfolding parents_before_def by metis
  then obtain g1 where g1: "restore_node specs i g = Inr g1" "restored_so_far specs (ids @ [i]) g1" "ng_self g1 = ng_self g"
    using restore_node_next [OF Cons.prems(1) spec] Cons.prems(3) by auto
  show ?case using Cons.IH [OF g1(2)] Cons.prems g1 by auto
qed auto

section \<open>The whole graph\<close>

definition graph_as :: "(uuid, 'p node_spec) dict \<Rightarrow> node_graph \<Rightarrow> bool" where
  "graph_as specs g \<longleftrightarrow> ng_inv g \<and> dict_keys (ng_nodes g) = dict_keys specs \<and>
     (\<forall>i spec. map_of specs i = Some spec \<longrightarrow> (\<exists>a. map_of (ng_nodes g) i = Some a \<and> nd_id (node_at g a) = i \<and>
        node_as spec (node_at g a) \<and> parent_ids g a = referenced_node_ids (ns_provenance spec)))"

definition specs_ok :: "(uuid, 'p node_spec) dict \<Rightarrow> bool" where
  "specs_ok specs \<longleftrightarrow> wf_dict specs \<and> (\<forall>(i, spec) \<in> set specs. spec_ok i spec)"

lemma parents_of_specs_ok:
  assumes "specs_ok specs" "set (all_parent_ids (parents_of_specs specs)) \<subseteq> set (dict_keys specs)"
  shows "lineage_ok (dict_keys specs) (parents_of_specs specs)"
  using assms referenced_node_ids_distinct
  by (fastforce simp: lineage_ok_def parents_of_specs_def specs_ok_def all_parent_ids_def comp_def case_prod_unfold)

lemma restore_graph_ok:
  assumes ok: "specs_ok specs" and ord: "restoration_order specs = Inr order"
  shows "\<exists>g. restore_graph self heap specs = Inr g \<and> ng_self g = self \<and> graph_as specs g"
proof -
  let ?ids = "dict_keys specs" and ?P = "parents_of_specs specs"
  have l: "lineage_ok ?ids ?P" and nc: "\<not> lineage_has_cycle ?ids ?P" and o: "order = topological_ids ?ids ?P"
    using ord parents_of_specs_ok [OF ok] unfolding restoration_order_def Let_def raise_first_Inr_iff by auto
  have perm: "mset order = mset ?ids" using lineage_has_cycle_iff [OF l] nc o by simp
  then have mem: "set order = set ?ids" by (metis set_mset_mset)
  have dist: "distinct order" using topological_ids_visited(1) [OF l] o by simp
  have spec: "\<exists>spec. map_of specs i = Some spec \<and> spec_ok i spec" if "i \<in> set ?ids" for i
    using that ok map_of_eq_Some_iff unfolding specs_ok_def by fastforce
  have init: "restored_so_far specs [] (ng_init self heap)"
    by (simp add: restored_so_far_def ng_inv_init) (simp add: ng_init_def)
  obtain g where g: "restore_nodes specs order (ng_init self heap) = Inr g" "restored_so_far specs order g"
    "ng_self g = self"
    using restore_nodes_all [OF init, of order] spec mem dist topological_ids_visited(3) [OF l] o
    by (auto simp: ng_init_def)
  have inv: "ng_inv g" and keys: "dict_keys (ng_nodes g) = order"
    using g(2) by (simp_all add: restored_so_far_def)
  note r = reorder_nodes_ok [OF inv, of ?ids]
  have d: "distinct ?ids" "set ?ids = set (dict_keys (ng_nodes g))"
    using ok keys mem by (simp_all add: specs_ok_def)
  obtain g' where g': "reorder_nodes ?ids g = (Inr ?ids, g')" using r(1) [OF d] by (metis prod.collapse)
  have heap: "ng_heap g' = ng_heap g" "ng_self g' = ng_self g"
    using g' by (auto simp: reorder_nodes_def Let_def split: if_splits)
  have m: "map_of (ng_nodes g') = map_of (ng_nodes g)" "ng_inv g'" "dict_keys (ng_nodes g') = ?ids"
    using r(2,3,4) [OF d] g' by simp_all
  have "graph_as specs g'"
    unfolding graph_as_def
  proof (intro conjI allI impI m)
    fix i sp assume sp: "map_of specs i = Some sp"
    then have "i \<in> fst ` set (ng_nodes g)" using keys mem by (metis list.set_map map_of_None_iff_keys option.distinct(1))
    then obtain a where a: "map_of (ng_nodes g) i = Some a" by (metis map_of_None_iff_keys option.exhaust)
    have n: "node_as sp (node_at g a)" using g(2) a sp unfolding restored_so_far_def by blast
    have "node_ok g i a" using ng_invD(2) [OF inv a] .
    then have i: "nd_id (node_at g a) = i"
      and refs: "referenced_node_ids (nd_provenance (node_at g a)) = parent_ids g a"
      by (simp_all add: node_ok_def)
    have "nd_provenance (node_at g a) = ns_provenance sp" using n by (simp add: node_as_def)
    then have ids: "parent_ids g a = referenced_node_ids (ns_provenance sp)" using refs by simp
    show "\<exists>a. map_of (ng_nodes g') i = Some a \<and> nd_id (node_at g' a) = i \<and> node_as sp (node_at g' a) \<and>
        parent_ids g' a = referenced_node_ids (ns_provenance sp)"
      unfolding m(1) heap by (intro exI [of _ a] conjI a i n ids)
  qed
  then show ?thesis using g g' ord heap unfolding restore_graph_def by simp
qed

section \<open>Reading the specifications\<close>

lemma node_texts_ok:
  "node_texts metadata = Inr (name, document, color, tokenizer) \<Longrightarrow>
   name \<noteq> [] \<and> (case tokenizer of None \<Rightarrow> True | Some s \<Rightarrow> py_strip s = s \<and> s \<noteq> [] \<and> length s \<le> 500)"
  by (auto simp: node_texts_def stored_tokenizer_def Let_def bind_result_Inr_iff split: jval.splits if_splits option.splits)

lemma read_node_ok:
  assumes "read_node c base t entry s = Inr s'" "specs_ok (fst s)"
  shows "specs_ok (fst s')"
proof -
  obtain i raw p plan content raws name document color tokenizer data where
    "i \<notin> fst ` set (fst s)" "validate_node_provenance raw = Inr p" "i \<notin> set (referenced_node_ids p)"
    "node_texts (jget entry ''node_metadata'') = Inr (name, document, color, tokenizer)"
    and s': "fst s' = fst s @ [(i, \<lparr>ns_data = data, ns_name = name, ns_provenance = p,
      ns_document = document, ns_color = color, ns_tokenizer_model = tokenizer\<rparr>)]"
    using assms(1) unfolding read_node_def Let_def
    by (auto simp: bind_result_Inr_iff split: if_splits)
  moreover have "\<not> is_reference p" using \<open>validate_node_provenance raw = Inr p\<close>
    by (auto simp: validate_node_provenance_def raise_first_Inr_iff split: if_splits)
  ultimately have "spec_ok i \<lparr>ns_data = data, ns_name = name, ns_provenance = p,
      ns_document = document, ns_color = color, ns_tokenizer_model = tokenizer\<rparr>"
    using node_texts_ok by (auto simp: spec_ok_def)
  with assms(2) \<open>i \<notin> fst ` set (fst s)\<close> show ?thesis by (auto simp: s' specs_ok_def)
qed

lemma read_nodes_ok:
  "read_nodes c base t entries s = Inr s' \<Longrightarrow> specs_ok (fst s) \<Longrightarrow> specs_ok (fst s')"
  by (induction entries arbitrary: s) (auto simp: bind_result_Inr_iff dest: read_node_ok)

end
