(* ===== verification/SnapshotRoundtrip.thy ===== *)
theory SnapshotRoundtrip
  imports SnapshotWriting SnapshotRestore
begin

text \<open>
  A committed Workspace loads as it was: the directory is a representation of the Workspace, and \<open>store_commit\<close>
  and \<open>load_workspace\<close> are its two sides.
\<close>

section \<open>What can be saved\<close>

text \<open>The codec reads back what it has written of this Workspace, and keeps unreadable records unreadable.\<close>

definition codec_faithful :: "('p, 'x) store_codec_scheme \<Rightarrow> string \<Rightarrow> int \<Rightarrow> 'p workspace \<Rightarrow> bool" where
  "codec_faithful c gen revision w \<longleftrightarrow>
     cd_json c (cd_dump_json c (saved_payload c gen revision w)) = Inr (saved_payload c gen revision w) \<and>
     (\<forall>n \<in> set (workspace_nodes w). cd_uuid c (nd_id n) = Inr (nd_id n) \<and>
        cd_provenance c (cd_dump_provenance c (nd_provenance n)) = Inr (nd_provenance n)) \<and>
     (\<forall>(i, h) \<in> set (wk_plans w). cd_plan c (cd_dump_plan c (ph_data h)) = Inr (ph_data h)) \<and>
     (\<forall>(k, x) \<in> set (ab_tabs (wk_board w)). cd_uuid c k = Inr k \<and>
        cd_json c (cd_dump_json c (cd_dump_tab c x)) = Inr (cd_dump_tab c x) \<and>
        cd_tab c (cd_dump_tab c x) = Inr x) \<and>
     (\<forall>(k, a) \<in> set (ab_analyses (wk_board w)). cd_uuid c k = Inr k \<and>
        cd_record c (cd_dump_json c (cd_dump_record c a)) = Inr a) \<and>
     (\<forall>(k, x) \<in> set (ab_corrupt (wk_board w)). cd_uuid c k = Inr k \<and>
        (\<exists>e. matching_record c k x = Inl e \<and> value_error e)) \<and>
     cd_uuid c (wk_id w) = Inr (wk_id w) \<and>
     (\<forall>time \<in> {wk_created_at w, wk_modified_at w}. \<exists>offset. cd_time c (cd_dump_time c time) = Inr (time, Some offset))"

lemma codec_faithfulD:
  assumes "codec_faithful c gen revision w"
  shows "cd_json c (cd_dump_json c (saved_payload c gen revision w)) = Inr (saved_payload c gen revision w)"
    "n \<in> set (workspace_nodes w) \<Longrightarrow> cd_uuid c (nd_id n) = Inr (nd_id n) \<and>
       cd_provenance c (cd_dump_provenance c (nd_provenance n)) = Inr (nd_provenance n)"
    "(i, h) \<in> set (wk_plans w) \<Longrightarrow> cd_plan c (cd_dump_plan c (ph_data h)) = Inr (ph_data h)"
    "(k, x) \<in> set (ab_tabs (wk_board w)) \<Longrightarrow> cd_uuid c k = Inr k \<and>
       cd_json c (cd_dump_json c (cd_dump_tab c x)) = Inr (cd_dump_tab c x) \<and> cd_tab c (cd_dump_tab c x) = Inr x"
    "(k, a) \<in> set (ab_analyses (wk_board w)) \<Longrightarrow> cd_uuid c k = Inr k \<and>
       cd_record c (cd_dump_json c (cd_dump_record c a)) = Inr a"
    "(k, y) \<in> set (ab_corrupt (wk_board w)) \<Longrightarrow> cd_uuid c k = Inr k \<and>
       (\<exists>e. matching_record c k y = Inl e \<and> value_error e)"
    "cd_uuid c (wk_id w) = Inr (wk_id w)"
    "time \<in> {wk_created_at w, wk_modified_at w} \<Longrightarrow> \<exists>offset. cd_time c (cd_dump_time c time) = Inr (time, Some offset)"
  using assms unfolding codec_faithful_def by blast+

text \<open>Names and tokenizers as \<open>Node.__init__\<close> leaves them, provenance that validates, and a plan for each block.\<close>

definition node_saveable :: "'p workspace \<Rightarrow> node \<Rightarrow> bool" where
  "node_saveable w n \<longleftrightarrow> nd_name n \<noteq> [] \<and> validate_node_provenance (nd_provenance n) = Inr (nd_provenance n) \<and>
     (case nd_tokenizer_model n of None \<Rightarrow> True | Some s \<Rightarrow> py_strip s = s \<and> s \<noteq> [] \<and> length s \<le> 500) \<and>
     (\<exists>h. map_of (wk_plans w) (nd_id n) = Some h)"

definition workspace_saveable :: "'p workspace \<Rightarrow> bool" where
  "workspace_saveable w \<longleftrightarrow> ng_inv (wk_graph w) \<and> board_agrees (wk_board w) \<and> plain_ids w \<and>
     distinct (claimed_ids (wk_board w)) \<and> (\<forall>(k, x) \<in> set (ab_tabs (wk_board w)). tab_id x = k) \<and>
     (\<forall>n \<in> set (workspace_nodes w). node_saveable w n)"

text \<open>The sources of the plans are Parquet files in the data directory, and no path of the new generation leads
  through a link.\<close>

definition source_inside :: "('p, 'x) store_codec_scheme \<Rightarrow> path \<Rightarrow> file_tree \<Rightarrow> string \<Rightarrow> bool" where
  "source_inside c base t raw \<longleftrightarrow> (\<exists>n. py_startswith raw ''/'' \<and> posix_parts raw = base @ [''data'', n] \<and>
     lower_ascii (path_suffix n) = ''.parquet'' \<and> parts_ok [''data'', n] \<and> file_of t [''data'', n] \<noteq> None \<and>
     cd_resolve c raw = base @ [''data'', n])"

definition generation_clear :: "('p, 'x) store_codec_scheme \<Rightarrow> path \<Rightarrow> string \<Rightarrow> 'p workspace \<Rightarrow> file_tree \<Rightarrow> bool" where
  "generation_clear c base gen w t \<longleftrightarrow> plain gen \<and>
     (\<forall>p \<in> insert METADATA_PATH (fst ` set (saved_files c gen w)). \<forall>q. prefix q p \<longrightarrow> \<not> link_at t q) \<and>
     (\<forall>(i, h) \<in> set (wk_plans w). \<exists>raws. cd_sources c (cd_dump_plan c (ph_data h)) = Inr raws \<and>
        (\<forall>raw \<in> set raws. source_inside c base t raw))"

section \<open>The references\<close>

definition refs_for :: "string \<Rightarrow> string \<Rightarrow> uuid list \<Rightarrow> (uuid \<times> path) list" where
  "refs_for gen field ks = map (\<lambda>k. (k, [field, k, gen @ ''.json''])) ks"

lemma scan_saved_references:
  assumes gen: "plain gen" "plain field" and ks: "\<And>k. k \<in> set ks \<Longrightarrow> plain k \<and> cd_uuid d k = Inr k"
    and dist: "distinct (js @ ks)"
  shows "scan_references d field (map (record_entry gen field) ks) (refs_for gen field js) =
    Inr (refs_for gen field (js @ ks))"
  using ks dist
proof (induction ks arbitrary: js)
  case (Cons k ks)
  have k: "plain k" "cd_uuid d k = Inr k" "k \<notin> set js" using Cons.prems by auto
  note parts = record_file_parts [OF k(1) gen]
  have start: "\<not> py_startswith (record_file gen field k) ''/''"
    using gen(2) by (cases field) (auto simp: record_file_def plain_def)
  have "k \<notin> fst ` set (refs_for gen field js)" "[field, k, gen @ ''.json''] \<notin> snd ` set (refs_for gen field js)"
    using k(3) by (auto simp: refs_for_def)
  moreover have "part \<notin> {'''', ''.'', ''..''}" if "part \<in> set [field, k, gen @ ''.json'']" for part
    using that gen k(1) by (auto simp: plain_def append_eq_Cons_conv Cons_eq_append_conv)
  ultimately have "scan_reference d field (record_entry gen field k) (refs_for gen field js) =
      Inr (refs_for gen field (js @ [k]))"
    using k(2) parts start
    by (auto simp: scan_reference_def record_entry_def dict_get_def Let_def refs_for_def)
  then show ?case using Cons.IH [of "js @ [k]"] Cons.prems by simp
qed (simp add: refs_for_def)

lemma reference_of_record_entry:
  "plain k \<Longrightarrow> plain gen \<Longrightarrow> plain field \<Longrightarrow> reference_of (record_entry gen field k) = (k, [field, k, gen @ ''.json''])"
  by (simp add: reference_of_def record_entry_def dict_get_def record_file_parts)

lemma refs_for_ok:
  assumes "plain gen" "plain field" "distinct ks" "\<And>k. k \<in> set ks \<Longrightarrow> plain k \<and> cd_uuid d k = Inr k"
  shows "refs_ok d field (refs_for gen field ks)"
proof -
  have "gen @ ''.json'' \<notin> {'''', ''.'', ''..''}" "CHR ''/'' \<notin> set (gen @ ''.json'')"
    using assms(1) by (auto simp: plain_def append_eq_Cons_conv Cons_eq_append_conv)
  moreover have "path_suffix (gen @ ''.json'') = ''.json''"
    using record_file_parts(2) [OF assms(2,1,2)] .
  ultimately show ?thesis
    using assms(3,4) by (auto simp: refs_ok_def refs_for_def comp_def distinct_map inj_on_def)
qed

section \<open>The saved payload\<close>

definition tab_refs_of :: "string \<Rightarrow> 'p workspace \<Rightarrow> (uuid \<times> path) list" where
  "tab_refs_of gen w = refs_for gen ''tabs'' (dict_keys (ab_tabs (wk_board w)))"

definition analysis_refs_of :: "string \<Rightarrow> 'p workspace \<Rightarrow> (uuid \<times> path) list" where
  "analysis_refs_of gen w =
     refs_for gen ''analyses'' (dict_keys (ab_analyses (wk_board w)) @ map fst (corrupt_items (wk_board w)))"

lemma corrupt_keys: "map fst (corrupt_items b) = sort (remdups (dict_keys (ab_corrupt b)))"
  by (simp add: corrupt_items_def comp_def)

lemma payload_gets [simp]:
  "jget (saved_payload c gen revision w) ''workspace_metadata'' = metadata_of c revision w"
  "jget (saved_payload c gen revision w) ''nodes'' = JList (node_entries_of c gen w)"
  "jget (saved_payload c gen revision w) ''tabs'' = JList (tab_entries_of gen w)"
  "jget (saved_payload c gen revision w) ''analyses'' = JList (analysis_entries_of gen w)"
  "entries_of (saved_payload c gen revision w) = node_entries_of c gen w"
  by (simp_all add: saved_payload_def snapshot_payload_def dict_get_def entries_of_def)

lemma saved_references:
  assumes "plain gen" "plain_ids w" "codec_faithful c gen revision w" "board_agrees (wk_board w)"
  shows "tab_references c (saved_payload c gen revision w) = Inr (tab_refs_of gen w)"
    "analysis_references c (saved_payload c gen revision w) = Inr (analysis_refs_of gen w)"
    "refs_ok c ''tabs'' (tab_refs_of gen w)" "refs_ok c ''analyses'' (analysis_refs_of gen w)"
    "map reference_of (tab_entries_of gen w) = tab_refs_of gen w"
    "map reference_of (analysis_entries_of gen w) = analysis_refs_of gen w"
proof -
  let ?b = "wk_board w" and ?as = "dict_keys (ab_analyses (wk_board w)) @ map fst (corrupt_items (wk_board w))"
  have inv: "ab_inv ?b" and corrupt: "fst ` set (ab_corrupt ?b) = set (claimed_ids ?b) - live_ids ?b"
    using assms(4) by (simp_all add: board_agrees_def)
  note faithful = codec_faithfulD [OF assms(3)]
  have keys: "plain k" if "k \<in> fst ` set (ab_tabs ?b) \<union> fst ` set (ab_analyses ?b) \<union> fst ` set (ab_corrupt ?b)" for k
    using that assms(2) unfolding plain_ids_def by blast
  have tabs: "plain k \<and> cd_uuid c k = Inr k" if "k \<in> set (dict_keys (ab_tabs ?b))" for k
  proof -
    from that have k: "k \<in> fst ` set (ab_tabs ?b)" by simp
    then obtain x where "(k, x) \<in> set (ab_tabs ?b)" by auto
    from faithful(4) [OF this] keys k show ?thesis by simp
  qed
  have "plain k \<and> cd_uuid c k = Inr k" if k: "k \<in> fst ` set (ab_analyses ?b) \<union> fst ` set (ab_corrupt ?b)" for k
  proof -
    have "cd_uuid c k = Inr k"
    proof (cases "k \<in> fst ` set (ab_analyses ?b)")
      case True
      then obtain x where "(k, x) \<in> set (ab_analyses ?b)" by auto
      from faithful(5) [OF this] show ?thesis by simp
    next
      case False
      with k obtain x where "(k, x) \<in> set (ab_corrupt ?b)" by auto
      from faithful(6) [OF this] show ?thesis by simp
    qed
    with keys k show ?thesis by blast
  qed
  then have as: "plain k \<and> cd_uuid c k = Inr k" if "k \<in> set ?as" for k
    using that by (auto simp: corrupt_keys)
  have dt: "distinct ([] @ dict_keys (ab_tabs ?b))" using ab_invD(1) [OF inv] by simp
  have da: "distinct ([] @ ?as)" using ab_invD(2) [OF inv] corrupt by (auto simp: corrupt_keys)
  note P = assms(1)
  show "tab_references c (saved_payload c gen revision w) = Inr (tab_refs_of gen w)"
    using scan_saved_references [OF P plain_fields(1) tabs dt]
    by (simp add: tab_references_def tab_entries_of_def tab_refs_of_def) (simp add: refs_for_def)
  show "analysis_references c (saved_payload c gen revision w) = Inr (analysis_refs_of gen w)"
    using scan_saved_references [OF P plain_fields(2) as da]
    by (simp add: analysis_references_def analysis_entries_of_def analysis_refs_of_def) (simp add: refs_for_def)
  show "refs_ok c ''tabs'' (tab_refs_of gen w)"
    unfolding tab_refs_of_def by (rule refs_for_ok [OF P plain_fields(1) _ tabs]) (use dt in simp_all)
  show "refs_ok c ''analyses'' (analysis_refs_of gen w)"
    unfolding analysis_refs_of_def by (rule refs_for_ok [OF P plain_fields(2) _ as]) (use da in simp_all)
  show "map reference_of (tab_entries_of gen w) = tab_refs_of gen w"
    using tabs P plain_fields reference_of_record_entry
    by (auto simp: tab_entries_of_def tab_refs_of_def refs_for_def)
  show "map reference_of (analysis_entries_of gen w) = analysis_refs_of gen w"
    unfolding analysis_entries_of_def analysis_refs_of_def refs_for_def map_map comp_def
    by (rule map_cong [OF refl]) (use as P plain_fields reference_of_record_entry in blast)
qed

lemma saved_metadata_loads:
  assumes "plain gen" "plain_ids w" "codec_faithful c gen revision w" "board_agrees (wk_board w)"
    "read_bytes t METADATA_PATH = Inr (cd_dump_json c (saved_payload c gen revision w))"
  shows "load_metadata c t = Inr (saved_payload c gen revision w)"
proof -
  have "raise_first (envelope_checks (saved_payload c gen revision w)) x = Inr x" for x :: jval
    unfolding raise_first_Inr_iff envelope_checks_def Let_def payload_gets
    by (auto simp: saved_payload_def snapshot_payload_def metadata_of_def dict_get_def ENVELOPE_FIELDS_def
      METADATA_FIELDS_def WORKSPACE_SCHEMA_VERSION_def)
  moreover have "cd_json c (cd_dump_json c (saved_payload c gen revision w)) = Inr (saved_payload c gen revision w)"
    using assms(3) by (simp add: codec_faithful_def)
  ultimately show ?thesis
    using saved_references [OF assms(1-4)] assms(5) by (simp add: load_metadata_def read_workspace_metadata_def)
qed

section \<open>The files after a commit\<close>

lemma workspace_node_ids:
  assumes "ng_inv (wk_graph w)"
  shows "map nd_id (workspace_nodes w) = dict_keys (ng_nodes (wk_graph w))"
proof -
  have "nd_id (node_at (wk_graph w) a) = i" if "(i, a) \<in> set (ng_nodes (wk_graph w))" for i a
    using ng_lookup(3) [OF assms] ng_invD(1) [OF assms] that by (simp add: map_of_eq_Some_iff)
  then show ?thesis unfolding workspace_nodes_def by (induction "ng_nodes (wk_graph w)") (auto simp: comp_def)
qed

lemma saved_paths:
  "map fst (saved_files c gen w) =
     map (\<lambda>n. [''data'', nd_id n @ ''.'' @ gen @ ''.plbin'']) (workspace_nodes w) @
     map snd (tab_refs_of gen w) @ map snd (analysis_refs_of gen w)"
  by (simp add: saved_files_def tab_refs_of_def analysis_refs_of_def refs_for_def node_written_def record_written_def
      tab_items_def analysis_items_def comp_def)

lemma saved_paths_distinct:
  assumes "workspace_saveable w" "refs_ok d ''tabs'' (tab_refs_of gen w)"
    "refs_ok e ''analyses'' (analysis_refs_of gen w)"
  shows "distinct (map fst (saved_files c gen w @ [(METADATA_PATH, x)]))"
proof -
  have ids: "distinct (map nd_id (workspace_nodes w))"
    using assms(1) workspace_node_ids [of w] ng_invD(1) by (auto simp: workspace_saveable_def)
  have "distinct (map (\<lambda>n. [''data'', nd_id n @ ''.'' @ gen @ ''.plbin'']) (workspace_nodes w))"
    using ids by (simp add: distinct_map inj_on_def)
  moreover have "distinct (map snd (tab_refs_of gen w))" "distinct (map snd (analysis_refs_of gen w))"
    using assms(2,3) by (simp_all add: refs_ok_def)
  ultimately show ?thesis
    unfolding map_append saved_paths by (auto simp: tab_refs_of_def analysis_refs_of_def refs_for_def METADATA_PATH_def)
qed

lemma node_data_paths:
  assumes "plain gen" "plain_ids w"
  shows "map data_path_of (node_entries_of c gen w) =
    map (\<lambda>n. [''data'', nd_id n @ ''.'' @ gen @ ''.plbin'']) (workspace_nodes w)"
  using assms by (auto simp: node_entries_of_def data_path_of_def node_entry_def dict_get_def plain_ids_def
    plan_file_parts)

lemma plbin_suffix:
  assumes "plain i" "plain gen"
  shows "lower_ascii (path_suffix (i @ ''.'' @ gen @ ''.plbin'')) = ''.plbin''"
proof -
  have "lower_ascii ''.plbin'' = ''.plbin''" by code_simp
  then show ?thesis by (simp only: plan_file_parts(2) [OF assms])
qed

lemma parts_ok_saved:
  assumes "plain gen" "plain_ids w" "p \<in> fst ` set (saved_files c gen w)"
  shows "parts_ok p"
proof -
  have "parts_ok [''data'', i @ ''.'' @ gen @ ''.plbin'']" if "plain i" for i
    using that by (cases i) (auto simp: parts_ok_def plain_def)
  moreover have "parts_ok [field, i, gen @ ''.json'']" if "plain i" "plain field" for i field
    using that assms(1) by (auto simp: parts_ok_def plain_def append_eq_Cons_conv Cons_eq_append_conv)
  moreover have "p \<in> set (map fst (saved_files c gen w))" using assms(3) by simp
  then consider n where "n \<in> set (workspace_nodes w)" "p = [''data'', nd_id n @ ''.'' @ gen @ ''.plbin'']"
    | k field where "k \<in> fst ` set (ab_tabs (wk_board w)) \<union> fst ` set (ab_analyses (wk_board w)) \<union>
        fst ` set (ab_corrupt (wk_board w))" "p = [field, k, gen @ ''.json'']" "plain field"
    unfolding saved_paths tab_refs_of_def analysis_refs_of_def refs_for_def corrupt_keys
    using plain_fields by (auto simp: image_Un image_image) force+
  then show ?thesis
    using assms(2) calculation unfolding plain_ids_def by cases metis+
qed

lemma committed_files:
  assumes t: "tree_ok t" and w: "workspace_saveable w" and c: "codec_faithful c gen revision w"
    and clear: "generation_clear c base gen w t" and run: "write_workspace c st base gen revision w t = (Inr (), t')"
  shows "\<And>p x. (p, x) \<in> set (saved_files c gen w) \<Longrightarrow> file_view t' p = Some x"
    "read_bytes t' METADATA_PATH = Inr (cd_dump_json c (saved_payload c gen revision w))"
    "\<And>i h raws raw. i \<in> nd_id ` set (workspace_nodes w) \<Longrightarrow> map_of (wk_plans w) i = Some h \<Longrightarrow>
      cd_sources c (cd_dump_plan c (ph_data h)) = Inr raws \<Longrightarrow> raw \<in> set raws \<Longrightarrow> check_source base t' raw = Inr ()"
proof -
  let ?b = "wk_board w" and ?meta = "cd_dump_json c (saved_payload c gen revision w)"
  let ?paths = "map (\<lambda>n. [''data'', nd_id n @ ''.'' @ gen @ ''.plbin'']) (workspace_nodes w)"
  let ?tabs = "tab_refs_of gen w" and ?analyses = "analysis_refs_of gen w"
  let ?kept = "retained c base"
  have gen: "plain gen" using clear by (simp add: generation_clear_def)
  have ids: "plain_ids w" and board: "board_agrees ?b" using w by (simp_all add: workspace_saveable_def)
  note refs = saved_references [OF gen ids c board]
  obtain t1 acts e where wr: "writes t (saved_files c gen w @ [(METADATA_PATH, ?meta)]) t1"
    and gc: "garbage_collection c base t1 ?paths ?tabs ?analyses (saved_owners ?b) = (acts, e)"
    and t': "t' = fold perform acts t1"
    using write_workspace_writes [OF gen ids t run] unfolding refs(5,6) node_data_paths [OF gen ids]
    by (metis fst_conv prod.collapse)
  have t1: "tree_ok t1" using wr by (simp add: writes_def)
  have "distinct (map fst (saved_files c gen w @ [(METADATA_PATH, ?meta)]))"
    by (rule saved_paths_distinct [OF w refs(3,4)])
  moreover have "\<forall>p \<in> fst ` set (saved_files c gen w @ [(METADATA_PATH, ?meta)]). \<forall>q. prefix q p \<longrightarrow> \<not> link_at t q"
    using clear by (auto simp: generation_clear_def)
  ultimately have new: "\<forall>(p, x) \<in> set (saved_files c gen w @ [(METADATA_PATH, ?meta)]). file_of t1 p = Some x"
    using wr unfolding writes_def by blast
  have keep: "file_view t' q = file_view t1 q \<and> read_bytes t' q = read_bytes t1 q"
    if "?kept t1 ?paths ?tabs ?analyses (saved_owners ?b) q" "file_of t1 q \<noteq> None" for q
  proof -
    have q: "map_of t1 q \<noteq> None" using that(2) by (auto simp: file_of_Some)
    have same: "map_of t' r = map_of t1 r" if "prefix r q" for r
      using garbage_collection_keeps [OF t1 refs(3,4) gc \<open>?kept t1 ?paths ?tabs ?analyses (saved_owners ?b) q\<close> q that,
        of "length acts"] t' by simp
    have "file_view t' q = file_view t1 q" by (rule file_view_prefixes) (use same in simp)
    moreover have "read_bytes t' q = read_bytes t1 q" using same [of q] by (simp add: read_bytes_def entry_at_def)
    ultimately show ?thesis by simp
  qed
  have plan: "?kept t1 ?paths ?tabs ?analyses (saved_owners ?b) q" if q: "q \<in> set ?paths" for q
  proof -
    from q obtain n where n: "n \<in> set (workspace_nodes w)" "q = [''data'', nd_id n @ ''.'' @ gen @ ''.plbin'']" by auto
    have "lower_ascii (path_suffix (nd_id n @ ''.'' @ gen @ ''.plbin'')) = ''.plbin''"
      using n(1) ids gen by (intro plbin_suffix) (simp_all add: plain_ids_def)
    moreover have "nd_id n @ ''.'' @ gen @ ''.plbin'' \<in> file_name ` set ?paths"
      using q by (rule rev_image_eqI) (simp add: n(2) file_name_def)
    ultimately show ?thesis unfolding retained_def n(2) by blast
  qed
  show view: "file_view t' p = Some x" if px: "(p, x) \<in> set (saved_files c gen w)" for p x
  proof -
    have f: "file_of t1 p = Some x" using new px by auto
    have "p \<in> set (map fst (saved_files c gen w))" using px by force
    then have "p \<in> set ?paths \<or> p \<in> snd ` set ?tabs \<union> snd ` set ?analyses" unfolding saved_paths by auto
    then have "?kept t1 ?paths ?tabs ?analyses (saved_owners ?b) p"
      using plan retained_reference [of p ?tabs ?analyses c base t1 ?paths "saved_owners ?b" "[]"] by auto
    from keep [OF this] f have "file_view t' p = file_view t1 p" by simp
    also have "\<dots> = Some x" using f parts_ok_saved [OF gen ids, of p c] px by (force simp: file_view_eq [OF t1])
    finally show ?thesis .
  qed
  have "?kept t1 ?paths ?tabs ?analyses (saved_owners ?b) METADATA_PATH"
    by (simp add: retained_def METADATA_PATH_def)
  from keep [OF this] new show "read_bytes t' METADATA_PATH = Inr ?meta"
    by (simp add: read_bytes_eq METADATA_PATH_def)
  fix i h raws raw
  assume i: "i \<in> nd_id ` set (workspace_nodes w)" and h: "map_of (wk_plans w) i = Some h"
    and raws: "cd_sources c (cd_dump_plan c (ph_data h)) = Inr raws" "raw \<in> set raws"
  have "source_inside c base t raw"
    using clear raws map_of_SomeD [OF h] by (fastforce simp: generation_clear_def)
  then obtain n where n: "py_startswith raw ''/''" "posix_parts raw = base @ [''data'', n]"
    "lower_ascii (path_suffix n) = ''.parquet''" "parts_ok [''data'', n]" "file_of t [''data'', n] \<noteq> None"
    "cd_resolve c raw = base @ [''data'', n]" by (auto simp: source_inside_def)
  obtain m where m: "m \<in> set (workspace_nodes w)" "nd_id m = i" using i by blast
  let ?plan = "[''data'', i @ ''.'' @ gen @ ''.plbin'']"
  have stored: "(?plan, cd_dump_plan c (ph_data h)) \<in> set (saved_files c gen w)"
    using m h by (force simp: saved_files_def node_written_def)
  then have pf: "file_of t1 ?plan = Some (cd_dump_plan c (ph_data h))" using new by auto
  have "[''data'', n] \<noteq> [''data'', nd_id k @ ''.'' @ gen @ ''.plbin'']" if "k \<in> set (workspace_nodes w)" for k
    using plbin_suffix [of "nd_id k" gen] that ids gen n(3) by (auto simp: plain_ids_def)
  then have "[''data'', n] \<notin> set (map fst (saved_files c gen w @ [(METADATA_PATH, ?meta)]))"
    unfolding map_append saved_paths by (auto simp: tab_refs_of_def analysis_refs_of_def refs_for_def METADATA_PATH_def)
  then have s1: "file_of t1 [''data'', n] = file_of t [''data'', n]" using wr by (auto simp: writes_def)
  with n(5) obtain content where "file_of t1 [''data'', n] = Some content" by (metis option.exhaust)
  then have content: "map_of t1 [''data'', n] = Some (File content)" by (simp only: file_of_Some)
  have "base @ [''data'', n] \<in> plan_sources c t1 ?paths"
    unfolding plan_sources_def
  proof (intro CollectI bexI [of _ ?plan] exI conjI)
    show "?plan \<in> set ?paths" using m by auto
    show "path_exists t1 [''data'', file_name ?plan]"
      using pf by (auto simp: path_exists_def file_name_def entry_at_def file_of_Some)
    show "read_bytes t1 [''data'', file_name ?plan] = Inr (cd_dump_plan c (ph_data h))"
      using pf by (simp add: read_bytes_eq file_name_def)
    show "cd_sources c (cd_dump_plan c (ph_data h)) = Inr raws" by fact
    show "base @ [''data'', n] \<in> cd_resolve c ` set raws" using raws(2) n(6) by force
  qed
  then have "?kept t1 ?paths ?tabs ?analyses (saved_owners ?b) [''data'', n]"
    using n(3) content unfolding retained_def by (auto simp: entry_at_def)
  from keep [OF this] s1 n(5) have "file_view t' [''data'', n] = file_view t1 [''data'', n]" by simp
  then have "file_view t' [''data'', n] \<noteq> None" using n(4,5) s1 by (simp add: file_view_eq [OF t1])
  then obtain x where "resolve_regular_under t' [''data'', n] = Inr [''data'', n]"
    using file_view_Some(1) by blast
  then show "check_source base t' raw = Inr ()" using n(1,2) by (simp add: check_source_def Let_def)
qed

section \<open>Reading it back\<close>

lemma refs_for_Cons: "refs_for gen field (k # ks) = (k, [field, k, gen @ ''.json'']) # refs_for gen field ks"
  by (simp add: refs_for_def)

text \<open>The records of the Tabs: what a smaller byte budget admits, a larger one does.\<close>

lemma read_saved_tabs:
  assumes "\<And>k x. (k, x) \<in> set kts \<Longrightarrow> tab_id x = k \<and> cd_json c (enc x) = Inr (cd_dump_tab c x) \<and>
      cd_tab c (cd_dump_tab c x) = Inr x \<and> file_view t [''tabs'', k, gen @ ''.json''] = Some (enc x)"
    "read_tabs_from c t m (refs_for gen ''tabs'' (map fst kts)) tabs used = Inr (ts, u)" "m \<le> m'"
  shows "read_tabs_from c t m' (refs_for gen ''tabs'' (map fst kts)) tabs used = Inr (tabs @ map snd kts, u)"
  using assms(1,2)
proof (induction kts arbitrary: tabs used)
  case Nil
  then show ?case by (simp add: refs_for_def)
next
  case (Cons kx kts)
  obtain k x where kx: "kx = (k, x)" by (cases kx)
  have k: "tab_id x = k" "cd_json c (enc x) = Inr (cd_dump_tab c x)" "cd_tab c (cd_dump_tab c x) = Inr x"
    and view: "file_view t [''tabs'', k, gen @ ''.json''] = Some (enc x)"
    using Cons.prems(1) [of k x] by (simp_all add: kx)
  obtain y n where y: "read_tab c t m (k, [''tabs'', k, gen @ ''.json'']) used (concat (map tab_analysis_ids tabs)) = Inr (y, n)"
    and rest: "read_tabs_from c t m (refs_for gen ''tabs'' (map fst kts)) (tabs @ [y]) (used + n) = Inr (ts, u)"
    using Cons.prems(2) by (auto simp: kx refs_for_Cons bind_result_Inr_iff)
  have one: "y = x \<and> read_tab c t m' (k, [''tabs'', k, gen @ ''.json'']) used (concat (map tab_analysis_ids tabs)) =
      Inr (x, n)"
    using y k file_view_Some(1,2) [OF view] assms(3)
    by (auto simp: read_tab_def Let_def raise_first_Inr_iff split: if_splits)
  have "read_tabs_from c t m' (refs_for gen ''tabs'' (map fst kts)) (tabs @ [x]) (used + n) =
      Inr ((tabs @ [x]) @ map snd kts, u)"
  proof (rule Cons.IH)
    show "tab_id z = j \<and> cd_json c (enc z) = Inr (cd_dump_tab c z) \<and> cd_tab c (cd_dump_tab c z) = Inr z \<and>
        file_view t [''tabs'', j, gen @ ''.json''] = Some (enc z)" if "(j, z) \<in> set kts" for j z
      using Cons.prems(1) [of j z] that by simp
    show "read_tabs_from c t m (refs_for gen ''tabs'' (map fst kts)) (tabs @ [x]) (used + n) = Inr (ts, u)"
      using rest one by simp
  qed
  with one show ?case by (simp add: kx refs_for_Cons)
qed

lemma read_records_append:
  "read_records_from c t m (xs @ ys) l = bind_result (read_records_from c t m xs l) (read_records_from c t m ys)"
  by (induction c t m xs l rule: read_records_from.induct) (auto simp: Let_def split: sum.splits)

lemma read_saved_records:
  assumes "\<And>k a. (k, a) \<in> set kas \<Longrightarrow> rec_id a = k \<and> cd_record c (enc a) = Inr a \<and>
      file_view t [''analyses'', k, gen @ ''.json''] = Some (enc a)"
    "read_records_from c t m (refs_for gen ''analyses'' (map fst kas)) l = Inr l1" "m \<le> m'"
  shows "read_records_from c t m' (refs_for gen ''analyses'' (map fst kas)) l = Inr l1 \<and>
    lr_records l1 = lr_records l @ map (\<lambda>(k, a). (a, enc a)) kas \<and> lr_corrupt l1 = lr_corrupt l"
  using assms(1,2)
proof (induction kas arbitrary: l)
  case Nil
  then show ?case by (simp add: refs_for_def)
next
  case (Cons ka kas)
  obtain k a where ka: "ka = (k, a)" by (cases ka)
  have content: "record_content t [''analyses'', k, gen @ ''.json''] = enc a"
    and match: "matching_record c k (enc a) = Inr a"
    using Cons.prems(1) [of k a] by (simp_all add: ka record_content_view matching_record_def)
  let ?l = "l\<lparr>lr_records := lr_records l @ [(a, enc a)], lr_bytes := lr_bytes l + int (length (enc a))\<rparr>"
  have "lr_bytes l + int (length (enc a)) \<le> m"
    "read_records_from c t m (refs_for gen ''analyses'' (map fst kas)) ?l = Inr l1"
    using Cons.prems(2) by (auto simp: ka refs_for_Cons Let_def content match split: if_splits)
  moreover from this have "read_records_from c t m' (refs_for gen ''analyses'' (map fst kas)) ?l = Inr l1 \<and>
      lr_records l1 = lr_records ?l @ map (\<lambda>(k, a). (a, enc a)) kas \<and> lr_corrupt l1 = lr_corrupt ?l"
  proof (intro Cons.IH)
    show "rec_id z = j \<and> cd_record c (enc z) = Inr z \<and> file_view t [''analyses'', j, gen @ ''.json''] = Some (enc z)"
      if "(j, z) \<in> set kas" for j z
      using Cons.prems(1) [of j z] that by simp
  qed simp
  ultimately show ?case using assms(3) by (simp add: ka refs_for_Cons Let_def content match)
qed

lemma read_saved_corrupt:
  assumes "\<And>k x. (k, x) \<in> set kxs \<Longrightarrow> (\<exists>e. matching_record c k x = Inl e \<and> value_error e) \<and>
      file_view t [''analyses'', k, gen @ ''.json''] = Some x"
    "read_records_from c t m (refs_for gen ''analyses'' (map fst kxs)) l = Inr l1" "m \<le> m'"
    "distinct (dict_keys (lr_corrupt l) @ map fst kxs)"
  shows "read_records_from c t m' (refs_for gen ''analyses'' (map fst kxs)) l = Inr l1 \<and>
    lr_records l1 = lr_records l \<and> lr_corrupt l1 = lr_corrupt l @ kxs"
  using assms(1,2,4)
proof (induction kxs arbitrary: l)
  case Nil
  then show ?case by (simp add: refs_for_def)
next
  case (Cons kx kxs)
  obtain k x where kx: "kx = (k, x)" by (cases kx)
  have content: "record_content t [''analyses'', k, gen @ ''.json''] = x"
    using Cons.prems(1) [of k x] by (simp add: kx record_content_view)
  obtain e where e: "matching_record c k x = Inl e" "value_error e"
    using Cons.prems(1) [of k x] by (auto simp: kx)
  have new: "AList.update k x (lr_corrupt l) = lr_corrupt l @ [(k, x)]"
    using Cons.prems(3) by (intro update_absent) (auto simp: kx)
  let ?l = "l\<lparr>lr_corrupt := lr_corrupt l @ [(k, x)], lr_bytes := lr_bytes l + int (length x)\<rparr>"
  have "lr_bytes l + int (length x) \<le> m"
    "read_records_from c t m (refs_for gen ''analyses'' (map fst kxs)) ?l = Inr l1"
    using Cons.prems(2) by (auto simp: kx refs_for_Cons Let_def content e new split: if_splits)
  moreover from this have "read_records_from c t m' (refs_for gen ''analyses'' (map fst kxs)) ?l = Inr l1 \<and>
      lr_records l1 = lr_records ?l \<and> lr_corrupt l1 = lr_corrupt ?l @ kxs"
  proof (intro Cons.IH)
    show "(\<exists>e. matching_record c j z = Inl e \<and> value_error e) \<and>
        file_view t [''analyses'', j, gen @ ''.json''] = Some z" if "(j, z) \<in> set kxs" for j z
      using Cons.prems(1) [of j z] that by simp
  qed (use Cons.prems(3) kx in simp_all)
  ultimately show ?case using assms(3) by (simp add: kx refs_for_Cons Let_def content e new)
qed

text \<open>The Data Blocks.\<close>

definition spec_of :: "'p workspace \<Rightarrow> node \<Rightarrow> 'p node_spec" where
  "spec_of w n = \<lparr>ns_data = ph_data (the (map_of (wk_plans w) (nd_id n))), ns_name = nd_name n,
     ns_provenance = nd_provenance n, ns_document = nd_document n, ns_color = nd_color n,
     ns_tokenizer_model = nd_tokenizer_model n\<rparr>"

definition specs_of :: "'p workspace \<Rightarrow> (uuid, 'p node_spec) dict" where
  "specs_of w = map (\<lambda>n. (nd_id n, spec_of w n)) (workspace_nodes w)"

lemma optional_text_jopt [simp]: "optional_text key (jopt v) = Inr v"
  by (cases v) (simp_all add: jopt_def)

lemma saved_node_texts:
  assumes "node_saveable w n"
  shows "node_texts (jget (node_entry c n raw) ''node_metadata'') =
    Inr (nd_name n, nd_document n, nd_color n, nd_tokenizer_model n)"
  using assms
  by (cases "nd_tokenizer_model n")
    (auto simp: node_texts_def node_entry_def dict_get_def node_saveable_def stored_tokenizer_def Let_def)

lemma check_sources_all:
  "(\<And>raw. raw \<in> set raws \<Longrightarrow> check_source base t raw = Inr ()) \<Longrightarrow> check_sources base t raws = Inr ()"
  by (induction raws) simp_all

text \<open>A node of a well-formed graph does not refer to itself, and refers to nodes of the graph.\<close>

lemma workspace_node_refs:
  assumes "ng_inv (wk_graph w)" "n \<in> set (workspace_nodes w)"
  shows "nd_id n \<notin> set (referenced_node_ids (nd_provenance n))"
    "set (referenced_node_ids (nd_provenance n)) \<subseteq> nd_id ` set (workspace_nodes w)"
    "\<not> is_reference (nd_provenance n)"
proof -
  let ?g = "wk_graph w"
  from assms(2) obtain a where a: "a \<in> ng_values ?g" "n = node_at ?g a"
    by (auto simp: workspace_nodes_def ng_values_def)
  have ok: "node_ok ?g (nd_id n) a" using ng_lookup(1) [OF assms(1)] ng_invD(2) [OF assms(1)] a by blast
  have refs: "referenced_node_ids (nd_provenance n) = parent_ids ?g a" "set (nd_parents (node_at ?g a)) \<subseteq> ng_values ?g"
    using ok a(2) by (simp_all add: node_ok_def)
  show "\<not> is_reference (nd_provenance n)" using ok a(2) by (simp add: node_ok_def)
  show "set (referenced_node_ids (nd_provenance n)) \<subseteq> nd_id ` set (workspace_nodes w)"
    unfolding refs(1) using refs(2) by (fastforce simp: workspace_nodes_def ng_values_def)
  show "nd_id n \<notin> set (referenced_node_ids (nd_provenance n))"
  proof
    assume "nd_id n \<in> set (referenced_node_ids (nd_provenance n))"
    then obtain b where b: "b \<in> set (nd_parents (node_at ?g a))" "nd_id (node_at ?g b) = nd_id (node_at ?g a)"
      using refs(1) a(2) by auto
    then have "b = a" using ng_lookup(2) [OF assms(1)] refs(2) a(1) by blast
    then have "(a, a) \<in> ng_edges ?g" using b(1) a(1) by (simp add: ng_edges_def)
    with ng_invD(3) [OF assms(1)] show False by (auto simp: acyclic_def)
  qed
qed

definition node_path :: "string \<Rightarrow> node \<Rightarrow> path" where
  "node_path gen n = [''data'', nd_id n @ ''.'' @ gen @ ''.plbin'']"

lemma read_saved_node:
  assumes gen: "plain gen" "plain (nd_id n)" and n: "node_saveable w n"
    and c: "cd_uuid c (nd_id n) = Inr (nd_id n)"
      "cd_provenance c (cd_dump_provenance c (nd_provenance n)) = Inr (nd_provenance n)"
      "map_of (wk_plans w) (nd_id n) = Some h" "cd_plan c (cd_dump_plan c (ph_data h)) = Inr (ph_data h)"
    and refs: "nd_id n \<notin> set (referenced_node_ids (nd_provenance n))"
    and view: "file_view t (node_path gen n) = Some (cd_dump_plan c (ph_data h))"
    and src: "cd_sources c (cd_dump_plan c (ph_data h)) = Inr raws"
      "\<And>raw. raw \<in> set raws \<Longrightarrow> check_source base t raw = Inr ()"
    and new: "nd_id n \<notin> fst ` set specs" "node_path gen n \<notin> set paths"
  shows "read_node c base t (node_entry c n (plan_file gen (nd_id n))) (specs, paths) =
    Inr (specs @ [(nd_id n, spec_of w n)], paths @ [node_path gen n])"
proof -
  let ?entry = "node_entry c n (plan_file gen (nd_id n))"
  note parts = plan_file_parts [OF gen(2,1)]
  have get: "jget ?entry ''data_path'' = JStr (plan_file gen (nd_id n))" "is_jobj ?entry"
    "is_jobj (jget ?entry ''node_metadata'')" "jkeys (jget ?entry ''node_metadata'') = NODE_FIELDS"
    "jget (jget ?entry ''node_metadata'') ''id'' = JStr (nd_id n)"
    "jget (jget ?entry ''node_metadata'') ''provenance'' = cd_dump_provenance c (nd_provenance n)"
    by (simp_all add: node_entry_def dict_get_def NODE_FIELDS_def)
  have "\<not> py_startswith (plan_file gen (nd_id n)) ''/''" by (simp add: plan_file_def)
  moreover have "nd_id n @ ''.'' @ gen @ ''.plbin'' \<noteq> ''..''" using gen(2) by (cases "nd_id n") (auto simp: plain_def)
  ultimately have plan: "data_file t (JStr (plan_file gen (nd_id n))) paths = Inr (node_path gen n)"
    using parts(2) new(2) file_view_Some(1) [OF view, unfolded node_path_def]
    unfolding data_file_def jval.case Let_def parts(1)
    by (simp add: node_path_def raise_first_Inr_iff)
  have valid: "validate_node_provenance (nd_provenance n) = Inr (nd_provenance n)" using n by (simp add: node_saveable_def)
  have "spec_of w n = \<lparr>ns_data = ph_data h, ns_name = nd_name n, ns_provenance = nd_provenance n,
      ns_document = nd_document n, ns_color = nd_color n, ns_tokenizer_model = nd_tokenizer_model n\<rparr>"
    using c(3) by (simp add: spec_of_def)
  then show ?thesis
    using c new(1) refs valid plan file_view_Some(2) [OF view] src(1) check_sources_all [OF src(2), of raws]
      saved_node_texts [OF n, of c "plan_file gen (nd_id n)"] referenced_node_ids_distinct [of "nd_provenance n"]
    unfolding read_node_def Let_def by (simp add: get canonical_id_def)
qed

lemma read_saved_nodes:
  assumes "\<And>n. n \<in> set ns \<Longrightarrow> \<exists>h raws. plain (nd_id n) \<and> node_saveable w n \<and> cd_uuid c (nd_id n) = Inr (nd_id n) \<and>
      cd_provenance c (cd_dump_provenance c (nd_provenance n)) = Inr (nd_provenance n) \<and>
      map_of (wk_plans w) (nd_id n) = Some h \<and> cd_plan c (cd_dump_plan c (ph_data h)) = Inr (ph_data h) \<and>
      nd_id n \<notin> set (referenced_node_ids (nd_provenance n)) \<and>
      file_view t (node_path gen n) = Some (cd_dump_plan c (ph_data h)) \<and>
      cd_sources c (cd_dump_plan c (ph_data h)) = Inr raws \<and> (\<forall>raw \<in> set raws. check_source base t raw = Inr ())"
    "plain gen" "distinct (map nd_id (ms @ ns))"
  shows "read_nodes c base t (map (\<lambda>n. node_entry c n (plan_file gen (nd_id n))) ns)
      (map (\<lambda>n. (nd_id n, spec_of w n)) ms, map (node_path gen) ms) =
    Inr (map (\<lambda>n. (nd_id n, spec_of w n)) (ms @ ns), map (node_path gen) (ms @ ns))"
  using assms(1,3)
proof (induction ns arbitrary: ms)
  case (Cons n ns)
  obtain h raws where h: "plain (nd_id n)" "node_saveable w n" "cd_uuid c (nd_id n) = Inr (nd_id n)"
      "cd_provenance c (cd_dump_provenance c (nd_provenance n)) = Inr (nd_provenance n)"
      "map_of (wk_plans w) (nd_id n) = Some h" "cd_plan c (cd_dump_plan c (ph_data h)) = Inr (ph_data h)"
      "nd_id n \<notin> set (referenced_node_ids (nd_provenance n))"
      "file_view t (node_path gen n) = Some (cd_dump_plan c (ph_data h))"
      "cd_sources c (cd_dump_plan c (ph_data h)) = Inr raws" "\<And>raw. raw \<in> set raws \<Longrightarrow> check_source base t raw = Inr ()"
    using Cons.prems(1) [of n] by auto
  have new: "nd_id n \<notin> nd_id ` set ms" using Cons.prems(2) by auto
  have "read_node c base t (node_entry c n (plan_file gen (nd_id n)))
      (map (\<lambda>n. (nd_id n, spec_of w n)) ms, map (node_path gen) ms) =
    Inr (map (\<lambda>n. (nd_id n, spec_of w n)) ms @ [(nd_id n, spec_of w n)], map (node_path gen) ms @ [node_path gen n])"
    by (rule read_saved_node [OF assms(2) h(1-9)]) (use h(10) new in \<open>auto simp: node_path_def image_image\<close>)
  moreover have "read_nodes c base t (map (\<lambda>n. node_entry c n (plan_file gen (nd_id n))) ns)
      (map (\<lambda>n. (nd_id n, spec_of w n)) (ms @ [n]), map (node_path gen) (ms @ [n])) =
    Inr (map (\<lambda>n. (nd_id n, spec_of w n)) ((ms @ [n]) @ ns), map (node_path gen) ((ms @ [n]) @ ns))"
    by (rule Cons.IH) (use Cons.prems in simp_all)
  ultimately show ?case by simp
qed simp

section \<open>Lineage and Tabs\<close>

lemma acyclic_inv_image: "acyclic r \<Longrightarrow> acyclic (inv_image r f)"
proof -
  assume r: "acyclic r"
  have "(f x, f y) \<in> r\<^sup>+" if "(x, y) \<in> (inv_image r f)\<^sup>+" for x y
    using that by (induction rule: trancl_induct) (auto intro: trancl_into_trancl)
  with r show ?thesis by (auto simp: acyclic_def)
qed

lemma specs_of_keys:
  "dict_keys (specs_of w) = map nd_id (workspace_nodes w)"
  by (simp add: specs_of_def comp_def)

lemma specs_of_ok:
  assumes "workspace_saveable w"
  shows "specs_ok (specs_of w)"
proof -
  have inv: "ng_inv (wk_graph w)" using assms by (simp add: workspace_saveable_def)
  have "wf_dict (specs_of w)"
    using ng_invD(1) [OF inv] unfolding specs_of_keys workspace_node_ids [OF inv] by simp
  moreover have "spec_ok (nd_id n) (spec_of w n)" if n: "n \<in> set (workspace_nodes w)" for n
    using workspace_node_refs(1,3) [OF inv n] assms n
    by (simp add: workspace_saveable_def node_saveable_def spec_ok_def spec_of_def)
  ultimately show ?thesis unfolding specs_ok_def specs_of_def by auto
qed

lemma saved_restoration_order:
  assumes "workspace_saveable w"
  shows "\<exists>order. restoration_order (specs_of w) = Inr order"
proof -
  let ?ids = "dict_keys (specs_of w)" and ?P = "parents_of_specs (specs_of w)" and ?g = "wk_graph w"
  have inv: "ng_inv ?g" using assms by (simp add: workspace_saveable_def)
  have P: "?P = map (\<lambda>n. (nd_id n, referenced_node_ids (nd_provenance n))) (workspace_nodes w)"
    by (simp add: parents_of_specs_def specs_of_def spec_of_def)
  have known: "set (all_parent_ids ?P) \<subseteq> set ?ids"
    using workspace_node_refs(2) [OF inv] by (auto simp: all_parent_ids_def P specs_of_keys)
  note ok = parents_of_specs_ok [OF specs_of_ok [OF assms] known]
  let ?A = "\<lambda>i. the (map_of (ng_nodes ?g) i)"
  have "lineage ?ids ?P \<subseteq> inv_image (ng_edges ?g) ?A"
  proof (rule subrelI)
    fix i j assume "(i, j) \<in> lineage ?ids ?P"
    then have "j \<in> set (dict_get ?P i [])" by (simp add: lineage_def)
    then obtain ps where "(i, ps) \<in> set ?P" "j \<in> set ps" by (auto simp: dict_get_list_mem dest: map_of_SomeD)
    then obtain n where n: "n \<in> set (workspace_nodes w)" "nd_id n = i" "j \<in> set (referenced_node_ids (nd_provenance n))"
      by (auto simp: P)
    then obtain a where a: "a \<in> ng_values ?g" "n = node_at ?g a" by (auto simp: workspace_nodes_def ng_values_def)
    have m: "map_of (ng_nodes ?g) i = Some a" using ng_lookup(1) [OF inv, of a] a n(2) by simp
    have "node_ok ?g i a" using ng_invD(2) [OF inv m] .
    then have r: "referenced_node_ids (nd_provenance n) = parent_ids ?g a"
      and sub: "set (nd_parents (node_at ?g a)) \<subseteq> ng_values ?g" by (simp_all add: node_ok_def a(2))
    obtain b where b: "b \<in> set (nd_parents (node_at ?g a))" "nd_id (node_at ?g b) = j" using n(3) unfolding r by auto
    then have "map_of (ng_nodes ?g) j = Some b" using ng_lookup(1) [OF inv, of b] sub by auto
    with m a(1) b(1) show "(i, j) \<in> inv_image (ng_edges ?g) ?A" by (simp add: ng_edges_def)
  qed
  then have "acyclic (lineage ?ids ?P)"
    using acyclic_subset acyclic_inv_image [OF ng_invD(3) [OF inv]] by blast
  then have "\<not> lineage_has_cycle ?ids ?P" using lineage_has_cycle_iff(1) [OF ok] by blast
  then show ?thesis using known by (simp add: restoration_order_def Let_def)
qed

text \<open>The Tabs are added one by one.\<close>

lemma add_saved_tabs:
  assumes "\<And>k x. (k, x) \<in> set kts \<Longrightarrow> tab_id x = k \<and> distinct (tab_analysis_ids x)"
    "distinct (map fst (ab_tabs b @ kts))" "distinct (claimed_ids (b\<lparr>ab_tabs := ab_tabs b @ kts\<rparr>))"
  shows "add_tabs (map snd kts) b = Inr (b\<lparr>ab_tabs := ab_tabs b @ kts\<rparr>)"
  using assms
proof (induction kts arbitrary: b)
  case (Cons kx kts)
  obtain k x where kx: "kx = (k, x)" by (cases kx)
  have k: "tab_id x = k" "distinct (tab_analysis_ids x)" using Cons.prems(1) [of k x] by (simp_all add: kx)
  have new: "k \<notin> fst ` set (ab_tabs b)" using Cons.prems(2) by (auto simp: kx)
  have "set (claimed_ids b) \<inter> set (tab_analysis_ids x) = {}"
    using Cons.prems(3) by (auto simp: claimed_ids_def kx)
  then have "add_tab x b = (Inr x, b\<lparr>ab_tabs := ab_tabs b @ [(k, x)]\<rparr>)"
    using new k by (simp add: add_tab_def update_absent)
  moreover have "add_tabs (map snd kts) (b\<lparr>ab_tabs := ab_tabs b @ [(k, x)]\<rparr>) =
      Inr ((b\<lparr>ab_tabs := ab_tabs b @ [(k, x)]\<rparr>)\<lparr>ab_tabs := ab_tabs (b\<lparr>ab_tabs := ab_tabs b @ [(k, x)]\<rparr>) @ kts\<rparr>)"
  proof (rule Cons.IH)
    show "tab_id y = j \<and> distinct (tab_analysis_ids y)" if "(j, y) \<in> set kts" for j y
      using Cons.prems(1) [of j y] that by simp
  qed (use Cons.prems(2,3) in \<open>simp_all add: kx claimed_ids_def\<close>)
  ultimately show ?case by (simp add: kx)
qed simp

text \<open>The board does not depend on the order of the corrupt records.\<close>

lemma corrupt_items_map:
  assumes "wf_dict (ab_corrupt b)"
  shows "map_of (corrupt_items b) = map_of (ab_corrupt b)" "fst ` set (corrupt_items b) = fst ` set (ab_corrupt b)"
proof -
  have k: "fst ` set (corrupt_items b) = fst ` set (ab_corrupt b)"
    using arg_cong [OF corrupt_keys [of b], of set] by simp
  then show "fst ` set (corrupt_items b) = fst ` set (ab_corrupt b)" .
  show "map_of (corrupt_items b) = map_of (ab_corrupt b)"
  proof
    fix i
    show "map_of (corrupt_items b) i = map_of (ab_corrupt b) i"
    proof (cases "i \<in> fst ` set (ab_corrupt b)")
      case True
      then obtain x where x: "map_of (ab_corrupt b) i = Some x" by (metis map_of_None_iff_keys option.exhaust)
      then have "map_of (corrupt_items b) i = Some (dict_get (ab_corrupt b) i [])"
        using True unfolding corrupt_items_def by (subst map_of_eq_Some_iff) (auto simp: comp_def)
      with x show ?thesis by (simp add: dict_get_def)
    next
      case False
      then show ?thesis using k by (metis map_of_None_iff_keys)
    qed
  qed
qed

section \<open>The content of a Workspace\<close>

text \<open>What a Workspace holds, without the addresses of its objects and without what lives in memory only.\<close>

record 'p block_content =
  bk_id :: uuid
  bk_name :: string
  bk_provenance :: provenance
  bk_document :: "string option"
  bk_color :: "string option"
  bk_tokenizer_model :: "string option"
  bk_parents :: "uuid list"
  bk_plan :: "'p option"

record 'p workspace_content =
  wc_id :: uuid
  wc_name :: string
  wc_description :: string
  wc_created_at :: timestamp
  wc_modified_at :: timestamp
  wc_blocks :: "'p block_content list"
  wc_tabs :: "(uuid, tab) dict"
  wc_analyses :: "(uuid, analysis_record) dict"
  wc_corrupt :: "uuid \<Rightarrow> string option"

definition block_of :: "'p workspace \<Rightarrow> uuid \<Rightarrow> 'p block_content" where
  "block_of w i = (let a = the (map_of (ng_nodes (wk_graph w)) i); n = node_at (wk_graph w) a in
     \<lparr>bk_id = nd_id n, bk_name = nd_name n, bk_provenance = nd_provenance n, bk_document = nd_document n,
      bk_color = nd_color n, bk_tokenizer_model = nd_tokenizer_model n, bk_parents = parent_ids (wk_graph w) a,
      bk_plan = map_option ph_data (map_of (wk_plans w) i)\<rparr>)"

definition content_of :: "'p workspace \<Rightarrow> 'p workspace_content" where
  "content_of w =
     \<lparr>wc_id = wk_id w, wc_name = wk_name w, wc_description = wk_description w, wc_created_at = wk_created_at w,
      wc_modified_at = wk_modified_at w, wc_blocks = map (block_of w) (dict_keys (ng_nodes (wk_graph w))),
      wc_tabs = ab_tabs (wk_board w), wc_analyses = ab_analyses (wk_board w),
      wc_corrupt = map_of (ab_corrupt (wk_board w))\<rparr>"

text \<open>A commit keeps the content: undo stacks are not part of it.\<close>

lemma map_of_forget_histories:
  "map_of (forget_histories plans) i = map_option (\<lambda>h. ph_init (ph_data h)) (map_of plans i)"
  by (induction plans) (auto simp: forget_histories_def)

lemma content_of_durable: "content_of (durable w) = content_of w"
  by (simp add: content_of_def block_of_def durable_def Let_def map_of_forget_histories option.map_comp comp_def ph_init_def)

lemma restore_saved_board:
  assumes board: "board_agrees (wk_board w)" and c: "codec_faithful c gen revision w"
    and tabs: "distinct (claimed_ids (wk_board w))" "\<forall>(k, x) \<in> set (ab_tabs (wk_board w)). tab_id x = k"
    and l: "lr_records l = map (\<lambda>(k, a). (a, enc a)) (ab_analyses (wk_board w))"
      "lr_corrupt l = corrupt_items (wk_board w)"
  shows "\<exists>b'. restore_board c (map snd (ab_tabs (wk_board w))) l = Inr b' \<and> ab_tabs b' = ab_tabs (wk_board w) \<and>
    ab_analyses b' = ab_analyses (wk_board w) \<and> map_of (ab_corrupt b') = map_of (ab_corrupt (wk_board w))"
proof -
  let ?b = "wk_board w"
  let ?s = "?b\<lparr>ab_corrupt := corrupt_items ?b\<rparr>"
  have inv: "ab_inv ?b" and keys: "fst ` set (ab_corrupt ?b) = set (claimed_ids ?b) - live_ids ?b"
    using board by (simp_all add: board_agrees_def)
  note I = ab_invD [OF inv] and ci = corrupt_items_map [OF ab_invD(3) [OF inv]]
  have cl: "claimed_ids ?s = claimed_ids ?b" by (rule claimed_ids_cong) simp
  have "wf_dict (corrupt_items ?b)" by (simp add: corrupt_keys)
  then have "ab_inv ?s" using inv ci(2) by (simp add: ab_inv_def)
  moreover have "placed ?s = placed ?b" by (rule ext, rule placed_cong) simp
  ultimately have s: "board_agrees ?s"
    using board ci(2) unfolding board_agrees_def cl by simp
  have known: "cd_uuid c i = Inr i" if "i \<in> set (claimed_ids ?s)" for i
  proof (cases "i \<in> live_ids ?b")
    case True
    then obtain a where "(i, a) \<in> set (ab_analyses ?b)" by auto
    from codec_faithfulD(5) [OF c this] show ?thesis by simp
  next
    case False
    then have "i \<in> fst ` set (ab_corrupt ?b)" using that keys cl by simp
    then obtain x where "(i, x) \<in> set (ab_corrupt ?b)" by auto
    from codec_faithfulD(6) [OF c this] show ?thesis by simp
  qed
  have "add_tabs (map snd (ab_tabs ?b)) ab_init = Inr (ab_init\<lparr>ab_tabs := ab_tabs ab_init @ ab_tabs ?b\<rparr>)"
  proof (rule add_saved_tabs)
    show "tab_id x = k \<and> distinct (tab_analysis_ids x)" if "(k, x) \<in> set (ab_tabs ?b)" for k x
      using tabs(2) I(4) that by blast
    show "distinct (map fst (ab_tabs ab_init @ ab_tabs ?b))" using I(1) by (simp add: ab_init_def)
    show "distinct (claimed_ids (ab_init\<lparr>ab_tabs := ab_tabs ab_init @ ab_tabs ?b\<rparr>))"
      using tabs(1) by (simp add: claimed_ids_def ab_init_def)
  qed
  moreover have "ab_init\<lparr>ab_tabs := ab_tabs ab_init @ ab_tabs ?b\<rparr> = ?s\<lparr>ab_analyses := [], ab_corrupt := []\<rparr>"
    by (simp add: ab_init_def)
  moreover obtain b' where "add_workspace_analyses (cd_uuid c) (saved_records enc ?s) (ab_corrupt ?s)
      (?s\<lparr>ab_analyses := [], ab_corrupt := []\<rparr>) = (Inr (), b')" "ab_tabs b' = ab_tabs ?s"
    "ab_analyses b' = ab_analyses ?s" "map_of (ab_corrupt b') = map_of (ab_corrupt ?s)"
    using hydration_roundtrip [OF s, of "cd_uuid c" enc] known by blast
  ultimately show ?thesis
    using l ci(1) by (intro exI [of _ b']) (simp add: restore_board_def saved_records_def)
qed

lemma scan_plans_ge: "scan_plans t entries seen used = Inr n \<Longrightarrow> used \<le> n"
  by (induction t entries seen used rule: scan_plans.induct) (fastforce simp: bind_result_Inr_iff split: if_splits)+

lemma read_tabs_ge: "read_tabs_from c t m refs tabs used = Inr (ts, u) \<Longrightarrow> used \<le> u"
proof (induction refs arbitrary: tabs used)
  case (Cons ref refs)
  then obtain x n where x: "read_tab c t m ref used (concat (map tab_analysis_ids tabs)) = Inr (x, n)"
    "read_tabs_from c t m refs (tabs @ [x]) (used + n) = Inr (ts, u)"
    by (auto simp: bind_result_Inr_iff)
  then have "0 \<le> n" by (auto simp: read_tab_def Let_def bind_result_Inr_iff raise_first_Inr_iff split: if_splits)
  with Cons.IH [OF x(2)] show ?case by simp
qed simp

section \<open>The round trip\<close>

lemma saved_identity:
  assumes "snapshot_identity c (saved_payload c gen revision w) = Inr info"
  shows "si_workspace_id info = wk_id w \<and> si_name info = wk_name w \<and> si_description info = wk_description w \<and>
    si_created_at info = cd_dump_time c (wk_created_at w) \<and> si_modified_at info = cd_dump_time c (wk_modified_at w)"
proof -
  let ?p = "saved_payload c gen revision w" and ?m = "metadata_of c revision w"
  have "jitem ?p ''workspace_metadata'' = Inr ?m" by (simp add: saved_payload_def snapshot_payload_def)
  moreover have "jitem ?m ''id'' = Inr (JStr (wk_id w))" "jitem ?m ''name'' = Inr (JStr (wk_name w))"
    "jitem ?m ''description'' = Inr (JStr (wk_description w))"
    "jitem ?m ''created_at'' = Inr (JStr (cd_dump_time c (wk_created_at w)))"
    "jitem ?m ''modified_at'' = Inr (JStr (cd_dump_time c (wk_modified_at w)))"
    "jitem ?m ''revision'' = Inr (JInt revision)"
    by (simp_all add: metadata_of_def)
  ultimately show ?thesis
    using assms by (auto simp: snapshot_identity_def bind_result_Inr_iff canonical_id_def described_def split: if_splits)
qed

lemma inspect_completeD:
  assumes "inspect_complete c st t = Inr info"
  obtains payload base used tabs ts n refs l where "load_metadata c t = Inr payload"
    "snapshot_identity c payload = Inr base" "0 \<le> used"
    "tab_references c payload = Inr tabs" "read_tabs c t tabs (st_max_snapshot_bytes st - used) = Inr (ts, n)" "0 \<le> n"
    "analysis_references c payload = Inr refs"
    "read_analysis_records c t refs (st_max_snapshot_bytes st - (used + n)) = Inr l"
proof -
  obtain payload info0 used total and content :: string where p: "inspect_metadata c t = Inr (payload, info0)"
    and u: "scan_plans t (entries_of payload) [] (int (length content)) = Inr used"
    and r: "record_bytes c st t payload used = Inr total"
    using assms by (auto simp: inspect_complete_def inspect_snapshot_def bind_result_Inr_iff split: if_splits)
  have l: "load_metadata c t = Inr payload" and i: "snapshot_info_of c payload = Inr info0"
    using p by (auto simp: inspect_metadata_def bind_result_Inr_iff)
  obtain base where b: "snapshot_identity c payload = Inr base" using i by (auto simp: snapshot_info_of_def bind_result_Inr_iff)
  obtain tabs ts n refs l' where R: "tab_references c payload = Inr tabs"
    "read_tabs c t tabs (st_max_snapshot_bytes st - used) = Inr (ts, n)"
    "analysis_references c payload = Inr refs"
    "read_analysis_records c t refs (st_max_snapshot_bytes st - (used + n)) = Inr l'"
    using r by (auto simp: record_bytes_def bind_result_Inr_iff split: if_splits)
  have "0 \<le> used" using scan_plans_ge [OF u] by simp
  moreover have "0 \<le> n" using R(2) read_tabs_ge unfolding read_tabs_def by blast
  ultimately show thesis using that [OF l b _ R(1,2) _ R(3,4)] by blast
qed

lemma restored_block:
  assumes w: "workspace_saveable w" and g: "graph_as (specs_of w) g" and i: "i \<in> set (dict_keys (ng_nodes (wk_graph w)))"
  shows "block_of (restored_workspace info created modified (specs_of w) g b) i = block_of w i"
proof -
  have inv: "ng_inv (wk_graph w)" using w by (simp add: workspace_saveable_def)
  obtain n where n: "n \<in> set (workspace_nodes w)" "nd_id n = i" using i workspace_node_ids [OF inv] by (metis imageE list.set_map)
  then obtain a where a: "a \<in> ng_values (wk_graph w)" "n = node_at (wk_graph w) a"
    by (auto simp: workspace_nodes_def ng_values_def)
  have m: "map_of (ng_nodes (wk_graph w)) i = Some a" using ng_lookup(1) [OF inv, of a] a n(2) by simp
  have refs: "referenced_node_ids (nd_provenance n) = parent_ids (wk_graph w) a"
    using ng_invD(2) [OF inv m] by (simp add: node_ok_def a(2))
  obtain h where h: "map_of (wk_plans w) i = Some h" using w n by (auto simp: workspace_saveable_def node_saveable_def)
  have "distinct (dict_keys (specs_of w))" using specs_of_ok [OF w] by (simp add: specs_ok_def)
  then have s: "map_of (specs_of w) i = Some (spec_of w n)" using n by (auto simp: specs_of_def)
  obtain e where e: "map_of (ng_nodes g) i = Some e" "nd_id (node_at g e) = i" "node_as (spec_of w n) (node_at g e)"
    "parent_ids g e = referenced_node_ids (ns_provenance (spec_of w n))"
    using g s unfolding graph_as_def by blast
  have plan: "map_of (map (\<lambda>(i, spec). (i, ph_init (ns_data spec))) (specs_of w)) i = Some (ph_init (ns_data (spec_of w n)))"
    using map_of_map [of "\<lambda>spec. ph_init (ns_data spec)" "specs_of w"] s by simp
  have data: "ns_data (spec_of w n) = ph_data h" using h n(2) by (simp add: spec_of_def)
  have parents: "parent_ids g e = parent_ids (wk_graph w) a" using e(4) refs by (simp add: spec_of_def)
  have node: "nd_name (node_at g e) = nd_name n" "nd_provenance (node_at g e) = nd_provenance n"
    "nd_document (node_at g e) = nd_document n" "nd_color (node_at g e) = nd_color n"
    "nd_tokenizer_model (node_at g e) = nd_tokenizer_model n"
    using e(3) by (simp_all add: node_as_def spec_of_def)
  show ?thesis
    unfolding block_of_def restored_workspace_def Let_def workspace.simps e(1) m plan h option.sel parents
    by (simp add: node e(2) data ph_init_def n(2) a(2) [symmetric])
qed

lemma restored_content:
  assumes "workspace_saveable w" "graph_as (specs_of w) g" "ab_tabs b = ab_tabs (wk_board w)"
    "ab_analyses b = ab_analyses (wk_board w)" "map_of (ab_corrupt b) = map_of (ab_corrupt (wk_board w))"
    "si_workspace_id info = wk_id w" "si_name info = wk_name w" "si_description info = wk_description w"
  shows "content_of (restored_workspace info (wk_created_at w) (wk_modified_at w) (specs_of w) g b) = content_of w"
proof -
  have inv: "ng_inv (wk_graph w)" using assms(1) by (simp add: workspace_saveable_def)
  have keys: "dict_keys (ng_nodes g) = dict_keys (ng_nodes (wk_graph w))"
    using assms(2) unfolding graph_as_def specs_of_keys workspace_node_ids [OF inv] by blast
  let ?w = "restored_workspace info (wk_created_at w) (wk_modified_at w) (specs_of w) g b"
  have "map (block_of ?w) (dict_keys (ng_nodes g)) = map (block_of w) (dict_keys (ng_nodes (wk_graph w)))"
    unfolding keys by (rule map_cong [OF refl]) (rule restored_block [OF assms(1,2)])
  moreover have "wk_graph ?w = g" "wk_board ?w = b" by (simp_all add: restored_workspace_def)
  ultimately show ?thesis
    using assms(3-8) unfolding content_of_def by (simp add: restored_workspace_def)
qed

lemma saved_files_mem:
  "(k, x) \<in> set (ab_tabs (wk_board w)) \<Longrightarrow>
     ([''tabs'', k, gen @ ''.json''], cd_dump_json c (cd_dump_tab c x)) \<in> set (saved_files c gen w)"
  "(k, a) \<in> set (ab_analyses (wk_board w)) \<Longrightarrow>
     ([''analyses'', k, gen @ ''.json''], cd_dump_json c (cd_dump_record c a)) \<in> set (saved_files c gen w)"
  "(k, y) \<in> set (corrupt_items (wk_board w)) \<Longrightarrow>
     ([''analyses'', k, gen @ ''.json''], y) \<in> set (saved_files c gen w)"
  "n \<in> set (workspace_nodes w) \<Longrightarrow> map_of (wk_plans w) (nd_id n) = Some h \<Longrightarrow>
     (node_path gen n, cd_dump_plan c (ph_data h)) \<in> set (saved_files c gen w)"
  unfolding saved_files_def set_append set_map tab_items_def analysis_items_def image_Un image_image record_written_def
    node_written_def node_path_def
  by (intro UnI1 UnI2, erule rev_image_eqI, simp)+

lemma saved_parts_load:
  assumes t: "tree_ok t" and w: "workspace_saveable w" and c: "codec_faithful c gen revision w"
    and clear: "generation_clear c base gen w t" and run: "write_workspace c st base gen revision w t = (Inr (), t')"
    and info: "inspect_complete c st t' = Inr info"
  shows "\<exists>w'. load_parts c st base self heap t' = Inr w' \<and> content_of w' = content_of w \<and> ng_inv (wk_graph w')"
proof -
  let ?b = "wk_board w" and ?max = "st_max_snapshot_bytes st" and ?payload = "saved_payload c gen revision w"
  have gen: "plain gen" using clear by (simp add: generation_clear_def)
  have W: "ng_inv (wk_graph w)" "board_agrees ?b" "plain_ids w" "distinct (claimed_ids ?b)"
    "\<forall>(k, x) \<in> set (ab_tabs ?b). tab_id x = k" "\<And>n. n \<in> set (workspace_nodes w) \<Longrightarrow> node_saveable w n"
    using w by (auto simp: workspace_saveable_def)
  have inv: "ab_inv ?b" using W(2) by (simp add: board_agrees_def)
  note refs = saved_references [OF gen W(3) c W(2)] and stored = committed_files [OF t w c clear run]
    and faithful = codec_faithfulD [OF c]
  have loaded: "load_metadata c t' = Inr ?payload" by (rule saved_metadata_loads [OF gen W(3) c W(2) stored(2)])
  from info obtain id0 used ts n l where id0: "snapshot_identity c ?payload = Inr id0" and used: "0 \<le> used" "0 \<le> n"
    and tabs: "read_tabs c t' (tab_refs_of gen w) (?max - used) = Inr (ts, n)"
    and records: "read_analysis_records c t' (analysis_refs_of gen w) (?max - (used + n)) = Inr l"
    by (rule inspect_completeD) (use loaded refs(1,2) in auto)
  text \<open>Tabs\<close>
  let ?enc = "\<lambda>x. cd_dump_json c (cd_dump_tab c x)"
  have "read_tabs_from c t' ?max (refs_for gen ''tabs'' (map fst (ab_tabs ?b))) [] 0 = Inr ([] @ map snd (ab_tabs ?b), n)"
  proof (rule read_saved_tabs)
    show "tab_id x = k \<and> cd_json c (?enc x) = Inr (cd_dump_tab c x) \<and> cd_tab c (cd_dump_tab c x) = Inr x \<and>
        file_view t' [''tabs'', k, gen @ ''.json''] = Some (?enc x)" if kx: "(k, x) \<in> set (ab_tabs ?b)" for k x
    proof -
      have "([''tabs'', k, gen @ ''.json''], ?enc x) \<in> set (saved_files c gen w)"
        by (rule saved_files_mem(1) [OF kx])
      from stored(1) [OF this] faithful(4) [OF kx] W(5) kx show ?thesis by auto
    qed
    show "read_tabs_from c t' (?max - used) (refs_for gen ''tabs'' (map fst (ab_tabs ?b))) [] 0 = Inr (ts, n)"
      using tabs by (simp add: read_tabs_def tab_refs_of_def)
  qed (use used in simp)
  then have T: "read_tabs c t' (tab_refs_of gen w) ?max = Inr (map snd (ab_tabs ?b), n)"
    by (simp add: read_tabs_def tab_refs_of_def)
  text \<open>Analyses\<close>
  let ?arec = "\<lambda>a. cd_dump_json c (cd_dump_record c a)" and ?l0 = "\<lparr>lr_records = [], lr_corrupt = [], lr_bytes = 0\<rparr>"
  have split: "analysis_refs_of gen w = refs_for gen ''analyses'' (map fst (ab_analyses ?b)) @
      refs_for gen ''analyses'' (map fst (corrupt_items ?b))"
    by (simp add: analysis_refs_of_def refs_for_def)
  obtain l1 where l1: "read_records_from c t' (?max - (used + n)) (refs_for gen ''analyses'' (map fst (ab_analyses ?b))) ?l0 = Inr l1"
    "read_records_from c t' (?max - (used + n)) (refs_for gen ''analyses'' (map fst (corrupt_items ?b))) l1 = Inr l"
    using records unfolding read_analysis_records_def split read_records_append bind_result_Inr_iff by blast
  have R1: "read_records_from c t' ?max (refs_for gen ''analyses'' (map fst (ab_analyses ?b))) ?l0 = Inr l1 \<and>
      lr_records l1 = lr_records ?l0 @ map (\<lambda>(k, a). (a, ?arec a)) (ab_analyses ?b) \<and> lr_corrupt l1 = lr_corrupt ?l0"
  proof (rule read_saved_records [OF _ l1(1)])
    show "rec_id a = k \<and> cd_record c (?arec a) = Inr a \<and> file_view t' [''analyses'', k, gen @ ''.json''] = Some (?arec a)"
      if ka: "(k, a) \<in> set (ab_analyses ?b)" for k a
    proof -
      have "([''analyses'', k, gen @ ''.json''], ?arec a) \<in> set (saved_files c gen w)"
        by (rule saved_files_mem(2) [OF ka])
      from stored(1) [OF this] faithful(5) [OF ka] ab_invD(5) [OF inv ka] show ?thesis by simp
    qed
  qed (use used in simp)
  have R2: "read_records_from c t' ?max (refs_for gen ''analyses'' (map fst (corrupt_items ?b))) l1 = Inr l \<and>
      lr_records l = lr_records l1 \<and> lr_corrupt l = lr_corrupt l1 @ corrupt_items ?b"
  proof (rule read_saved_corrupt [OF _ l1(2)])
    show "(\<exists>e. matching_record c k x = Inl e \<and> value_error e) \<and> file_view t' [''analyses'', k, gen @ ''.json''] = Some x"
      if kx: "(k, x) \<in> set (corrupt_items ?b)" for k x
    proof -
      have "([''analyses'', k, gen @ ''.json''], x) \<in> set (saved_files c gen w)"
        by (rule saved_files_mem(3) [OF kx])
      moreover have "(k, x) \<in> set (ab_corrupt ?b)"
      proof -
        have "distinct (map fst (corrupt_items ?b))" by (simp add: corrupt_keys)
        with kx have "map_of (corrupt_items ?b) k = Some x" by simp
        then show ?thesis using corrupt_items_map(1) [OF ab_invD(3) [OF inv]] map_of_SomeD by metis
      qed
      ultimately show ?thesis using stored(1) faithful(6) by blast
    qed
    show "distinct (dict_keys (lr_corrupt l1) @ map fst (corrupt_items ?b))" using R1 by (simp add: corrupt_keys)
  qed (use used in simp)
  have A: "read_analysis_records c t' (analysis_refs_of gen w) ?max = Inr l"
    using R1 R2 unfolding read_analysis_records_def split read_records_append by simp
  obtain b' where b': "restore_board c (map snd (ab_tabs ?b)) l = Inr b'" "ab_tabs b' = ab_tabs ?b"
    "ab_analyses b' = ab_analyses ?b" "map_of (ab_corrupt b') = map_of (ab_corrupt ?b)"
    using restore_saved_board [OF W(2) c W(4,5), of l ?arec] R1 R2 by auto
  text \<open>Data Blocks\<close>
  have ids: "distinct (map nd_id (workspace_nodes w))"
    using ng_invD(1) [OF W(1)] unfolding workspace_node_ids [OF W(1)] by simp
  have "read_nodes c base t' (map (\<lambda>n. node_entry c n (plan_file gen (nd_id n))) (workspace_nodes w))
      (map (\<lambda>n. (nd_id n, spec_of w n)) [], map (node_path gen) []) =
    Inr (map (\<lambda>n. (nd_id n, spec_of w n)) ([] @ workspace_nodes w), map (node_path gen) ([] @ workspace_nodes w))"
  proof (rule read_saved_nodes [OF _ gen])
    fix m assume m: "m \<in> set (workspace_nodes w)"
    obtain h where h: "map_of (wk_plans w) (nd_id m) = Some h" using W(6) [OF m] by (auto simp: node_saveable_def)
    obtain raws where raws: "cd_sources c (cd_dump_plan c (ph_data h)) = Inr raws"
      using clear map_of_SomeD [OF h] unfolding generation_clear_def by blast
    have "(node_path gen m, cd_dump_plan c (ph_data h)) \<in> set (saved_files c gen w)"
      by (rule saved_files_mem(4) [OF m h])
    moreover have "plain (nd_id m)" using W(3) m by (simp add: plain_ids_def)
    moreover have "\<forall>raw \<in> set raws. check_source base t' raw = Inr ()" using stored(3) [OF _ h raws] m by blast
    ultimately show "\<exists>h raws. plain (nd_id m) \<and> node_saveable w m \<and> cd_uuid c (nd_id m) = Inr (nd_id m) \<and>
      cd_provenance c (cd_dump_provenance c (nd_provenance m)) = Inr (nd_provenance m) \<and>
      map_of (wk_plans w) (nd_id m) = Some h \<and> cd_plan c (cd_dump_plan c (ph_data h)) = Inr (ph_data h) \<and>
      nd_id m \<notin> set (referenced_node_ids (nd_provenance m)) \<and>
      file_view t' (node_path gen m) = Some (cd_dump_plan c (ph_data h)) \<and>
      cd_sources c (cd_dump_plan c (ph_data h)) = Inr raws \<and> (\<forall>raw \<in> set raws. check_source base t' raw = Inr ())"
      using h raws stored(1) faithful(2) [OF m] faithful(3) [OF map_of_SomeD [OF h]] W(6) [OF m]
        workspace_node_refs(1) [OF W(1) m] by blast
  qed (use ids in simp)
  then obtain paths where nodes: "read_nodes c base t' (entries_of ?payload) ([], []) = Inr (specs_of w, paths)"
    by (simp add: node_entries_of_def specs_of_def)
  obtain order where "restoration_order (specs_of w) = Inr order" using saved_restoration_order [OF w] by blast
  from restore_graph_ok [OF specs_of_ok [OF w] this] obtain g
    where g: "restore_graph self heap (specs_of w) = Inr g" "graph_as (specs_of w) g" by blast
  obtain o1 o2 where times: "cd_time c (cd_dump_time c (wk_created_at w)) = Inr (wk_created_at w, o1)"
    "cd_time c (cd_dump_time c (wk_modified_at w)) = Inr (wk_modified_at w, o2)"
    using faithful(8) by blast
  note I = saved_identity [OF id0]
  let ?w = "restored_workspace id0 (wk_created_at w) (wk_modified_at w) (specs_of w) g b'"
  have "load_parts c st base self heap t' = Inr ?w"
    using loaded refs(1,2) T A nodes g(1) b'(1) id0 times I
    by (simp add: load_parts_def read_workspace_def)
  moreover have "ng_inv (wk_graph ?w)" using g(2) by (simp add: restored_workspace_def graph_as_def)
  moreover have "content_of ?w = content_of w" by (rule restored_content [OF w g(2) b'(2-4)]) (use I in simp_all)
  ultimately show ?thesis by blast
qed

text \<open>The revision a successful commit writes.\<close>

definition committed_revision :: "int option \<Rightarrow> int" where
  "committed_revision expected = (case expected of None \<Rightarrow> 1 | Some n \<Rightarrow> n + 1)"

lemma next_revision_committed: "next_revision c st expected t = Inr r \<Longrightarrow> r = committed_revision expected"
  by (cases expected) (auto simp: next_revision_def committed_revision_def bind_result_Inr_iff split: if_splits)


section \<open>Example\<close>

text \<open>A source and its clone, a Tab with two Analyses and a corrupt record, and a data directory with one Parquet
  file. The graph and the board are written out; \<open>saved_graph_inv\<close> and \<open>saved_board_agrees\<close> show that they are
  well formed, the graph being what \<open>add_node\<close> builds.\<close>

definition saved_heap :: "addr \<Rightarrow> node" where
  "saved_heap a = (if a = 1 then clone_node\<lparr>nd_workspace := Some 0\<rparr> else source_node\<lparr>nd_workspace := Some 0\<rparr>)"

definition saved_graph :: node_graph where
  "saved_graph = \<lparr>ng_self = 0, ng_heap = saved_heap, ng_nodes = [(''s'', 0), (''c'', 1)],
     ng_children = [(''s'', [1]), (''c'', [])]\<rparr>"

definition saved_analysis :: "uuid \<Rightarrow> uuid option \<Rightarrow> analysis_record" where
  "saved_analysis i parent = \<lparr>lc_state = QUEUED, lc_progress = \<lparr>pg_fraction = None, pg_message = None\<rparr>,
     lc_cancellation_requested_at = None, lc_error = None, lc_created_at = 1, lc_started_at = None, lc_finished_at = None,
     lc_revision = 1, rec_id = i, rec_tab_id = ''t'', rec_parent_analysis_id = parent, rec_execution_scope = Preview,
     rec_supersedes_analysis_ids = [],
     rec_request = Quotation \<lparr>qt_node_id = ''s'', qt_column = ''a'', qt_engine = \<lparr>qe_type = LocalEngine, qe_engine_id = None\<rparr>\<rparr>,
     rec_output_node_ids = [], rec_result_payload = None, rec_artifact_references = [], rec_query_snapshot = None\<rparr>"

definition saved_board :: analysis_board where
  "saved_board =
     \<lparr>ab_tabs = [(''t'', \<lparr>tab_id = ''t'', tab_kind = KQuotation, tab_name = ''T'', tab_analysis_ids = [''i'', ''c'', ''x''],
        tab_correction_columns = [], tab_stop_words = [], tab_words_per_topic = None, tab_created_at = 1,
        tab_modified_at = 1, tab_revision = 1\<rparr>)],
      ab_analyses = [(''i'', saved_analysis ''i'' None), (''c'', saved_analysis ''c'' (Some ''i''))],
      ab_corrupt = [(''x'', ''?'')]\<rparr>"

definition example_saved :: "string workspace" where
  "example_saved = \<lparr>wk_id = ''w'', wk_name = ''C'', wk_description = '''', wk_created_at = 1, wk_modified_at = 2,
     wk_graph = saved_graph, wk_plans = [(''s'', ph_init ''p''), (''c'', ph_init ''q'')], wk_board = saved_board\<rparr>"

text \<open>What \<open>workspace.json\<close> contains when it is saved.\<close>

definition saved_example_payload :: jval where
  "saved_example_payload = JObj
     [(''workspace_metadata'', JObj
        [(''id'', JStr ''w''), (''name'', JStr ''C''), (''version'', JInt 17), (''description'', JStr []),
         (''created_at'', JStr ''T''), (''modified_at'', JStr ''TT''), (''revision'', JInt 1)]),
      (''nodes'', JList
        [JObj [(''node_metadata'', JObj [(''id'', JStr ''s''), (''name'', JStr ''s''), (''provenance'', JNull),
             (''document'', JNull), (''color'', JNull), (''tokenizer_model'', JNull)]),
           (''data_path'', JStr ''data/s.g.plbin'')],
         JObj [(''node_metadata'', JObj [(''id'', JStr ''c''), (''name'', JStr ''c''), (''provenance'', JStr ''k''),
             (''document'', JNull), (''color'', JNull), (''tokenizer_model'', JNull)]),
           (''data_path'', JStr ''data/c.g.plbin'')]]),
      (''tabs'', JList [JObj [(''id'', JStr ''t''), (''record_path'', JStr ''tabs/t/g.json'')]]),
      (''analyses'', JList
        [JObj [(''id'', JStr ''i''), (''record_path'', JStr ''analyses/i/g.json'')],
         JObj [(''id'', JStr ''c''), (''record_path'', JStr ''analyses/c/g.json'')],
         JObj [(''id'', JStr ''x''), (''record_path'', JStr ''analyses/x/g.json'')]])]"

definition example_store_codec :: "string store_codec" where
  "example_store_codec = codec.extend (decoders.extend
     (example_decoders\<lparr>cd_provenance := (\<lambda>v. Inr (if v = JNull then SourceProvenance else nd_provenance clone_node))\<rparr>)
     \<lparr>cd_json = (\<lambda>content. Inr (if content = ''!'' then saved_example_payload else JStr content)),
      cd_tab = (\<lambda>_. Inr (snd (hd (ab_tabs saved_board)))),
      cd_record = (\<lambda>content. case map_of (ab_analyses saved_board) content of
         None \<Rightarrow> Inl (ValueError '''') | Some a \<Rightarrow> Inr a),
      cd_sources = (\<lambda>_. Inr [''/w/data/a.parquet'']), cd_resolve = posix_parts\<rparr>)
     \<lparr>cd_plan = Inr, cd_dump_plan = id, cd_dump_json = (\<lambda>v. case v of JStr s \<Rightarrow> s | _ \<Rightarrow> ''!''),
      cd_dump_provenance = (\<lambda>p. if p = SourceProvenance then JNull else JStr ''k''),
      cd_dump_tab = (\<lambda>x. JStr (tab_id x)), cd_dump_record = (\<lambda>a. JStr (rec_id a)),
      cd_dump_time = (\<lambda>n. replicate (nat n) (CHR ''T''))\<rparr>"

definition example_data :: file_tree where
  "example_data = [([''data''], Dir), ([''data'', ''a.parquet''], File '''')]"

lemma saved_graph_inv: "ng_inv saved_graph"
proof -
  let ?i = "ng_init 0 saved_heap"
  let ?g = "\<lparr>ng_self = 0, ng_heap = saved_heap, ng_nodes = [(''s'', 0)], ng_children = [(''s'', [])]\<rparr>"
  have same: "saved_heap(a := saved_heap a\<lparr>nd_workspace := Some 0\<rparr>) = saved_heap" for a
    by (rule ext) (simp add: saved_heap_def)
  have "raise_first (add_node_checks ?i 0) (0 :: addr) = Inr 0"
    "nd_id (saved_heap 0) = ''s'' \<and> nd_parents (saved_heap 0) = []" by code_simp+
  then have s: "snd (add_node 0 ?i) = ?g" by (simp add: add_node_def ng_init_def same)
  have "raise_first (add_node_checks ?g 1) (1 :: addr) = Inr 1"
    "nd_id (saved_heap 1) = ''c'' \<and> parent_ids ?g 1 = [''s'']" by code_simp+
  then have c: "snd (add_node 1 ?g) = saved_graph"
    by (simp add: add_node_def saved_graph_def same add_child_def dict_get_def)
  have "\<not> is_reference (nd_provenance (node_at ?i 0))" "\<not> is_reference (nd_provenance (node_at ?g 1))"
    by code_simp+
  from ng_step.add_node [OF this(1)] ng_step.add_node [OF this(2)] have "ng_reachable saved_graph"
    unfolding s c by (rule ng_reachable.step [OF ng_reachable.step [OF ng_reachable.init]])
  then show ?thesis by (rule ng_reachable_inv)
qed

lemma saved_board_agrees: "board_agrees saved_board"
proof -
  have "parents_first ([] @ [(''i'', saved_analysis ''i'' None)])"
    by (rule parents_first_append) (simp_all add: parents_first_def saved_analysis_def)
  then have "parents_first (([] @ [(''i'', saved_analysis ''i'' None)]) @ [(''c'', saved_analysis ''c'' (Some ''i''))])"
    by (rule parents_first_append) (simp add: saved_analysis_def)
  moreover have "wf_dict (ab_tabs saved_board) \<and> wf_dict (ab_analyses saved_board) \<and> wf_dict (ab_corrupt saved_board)"
    by code_simp
  moreover have "list_all (\<lambda>(k, t). distinct (tab_analysis_ids t)) (ab_tabs saved_board)" by code_simp
  moreover have "list_all (\<lambda>(k, a). rec_id a = k) (ab_analyses saved_board)" by code_simp
  moreover have "fst ` set (ab_analyses saved_board) \<inter> fst ` set (ab_corrupt saved_board) = {}" by code_simp
  ultimately have "ab_inv saved_board" by (simp add: ab_inv_def list_all_iff saved_board_def)
  moreover have "list_all (\<lambda>(k, a). placed saved_board a) (ab_analyses saved_board)" by code_simp
  moreover have "list_all (\<lambda>(k, a). list_all (\<lambda>(j, q). rec_parent_analysis_id a = Some j \<longrightarrow>
       rec_tab_id q = rec_tab_id a) (ab_analyses saved_board)) (ab_analyses saved_board)" by code_simp
  moreover have "fst ` set (ab_corrupt saved_board) = set (claimed_ids saved_board) - live_ids saved_board" by code_simp
  ultimately show ?thesis by (simp add: board_agrees_def list_all_iff)
qed

lemma example_saveable: "workspace_saveable example_saved"
proof -
  have "plain_ids example_saved" "distinct (claimed_ids (wk_board example_saved))"
    "\<forall>(k, x) \<in> set (ab_tabs (wk_board example_saved)). tab_id x = k" by code_simp+
  moreover have "list_all (\<lambda>n. nd_name n \<noteq> [] \<and> list_all (\<lambda>(c, e). \<not> c)
        (field_check (\<not> is_reference (nd_provenance n)) # provenance_checks (nd_provenance n)) \<and>
      nd_tokenizer_model n = None \<and> map_of (wk_plans example_saved) (nd_id n) \<noteq> None) (workspace_nodes example_saved)"
    by code_simp
  then have "node_saveable example_saved n" if "n \<in> set (workspace_nodes example_saved)" for n
    using that unfolding node_saveable_def validate_node_provenance_def raise_first_Inr_iff list_all_iff
    by fastforce
  ultimately show ?thesis
    using saved_board_agrees saved_graph_inv by (simp add: workspace_saveable_def example_saved_def)
qed

lemma example_faithful: "codec_faithful example_store_codec ''g'' (committed_revision None) example_saved"
proof -
  let ?c = example_store_codec
  have "saved_payload ?c ''g'' 1 example_saved = saved_example_payload" by code_simp
  moreover have "cd_dump_json ?c saved_example_payload = ''!''" "cd_json ?c ''!'' = Inr saved_example_payload"
    by (simp_all add: saved_example_payload_def example_store_codec_def decoders.defs codec.defs)
  ultimately have "cd_json ?c (cd_dump_json ?c (saved_payload ?c ''g'' 1 example_saved)) =
      Inr (saved_payload ?c ''g'' 1 example_saved)"
    by simp
  moreover have "list_all (\<lambda>n. cd_uuid ?c (nd_id n) = Inr (nd_id n) \<and>
      cd_provenance ?c (cd_dump_provenance ?c (nd_provenance n)) = Inr (nd_provenance n)) (workspace_nodes example_saved)"
    by code_simp
  moreover have "list_all (\<lambda>(i, h). cd_plan ?c (cd_dump_plan ?c (ph_data h)) = Inr (ph_data h)) (wk_plans example_saved)"
    by code_simp
  moreover have "list_all (\<lambda>(k, x). cd_uuid ?c k = Inr k \<and>
      cd_json ?c (cd_dump_json ?c (cd_dump_tab ?c x)) = Inr (cd_dump_tab ?c x) \<and>
      cd_tab ?c (cd_dump_tab ?c x) = Inr x) (ab_tabs (wk_board example_saved))"
    by code_simp
  moreover have "list_all (\<lambda>(k, a). cd_uuid ?c k = Inr k \<and> cd_record ?c (cd_dump_json ?c (cd_dump_record ?c a)) = Inr a)
      (ab_analyses (wk_board example_saved))"
    by code_simp
  moreover have "ab_corrupt (wk_board example_saved) = [(''x'', ''?'')]" by code_simp
  moreover have "cd_uuid ?c ''x'' = Inr ''x''" "matching_record ?c ''x'' ''?'' = Inl (ValueError '''')"
    by (simp_all add: example_store_codec_def example_decoders_def decoders.defs codec.defs matching_record_def saved_board_def)
  moreover have "cd_uuid ?c (wk_id example_saved) = Inr (wk_id example_saved)" by code_simp
  moreover have "cd_time ?c (cd_dump_time ?c 1) = Inr (1, Some 0)" "cd_time ?c (cd_dump_time ?c 2) = Inr (2, Some 0)"
    by code_simp+
  moreover have "wk_created_at example_saved = 1" "wk_modified_at example_saved = 2" by code_simp+
  ultimately show ?thesis by (simp add: codec_faithful_def committed_revision_def list_all_iff)
qed

lemma example_clear: "generation_clear example_store_codec [''w''] ''g'' example_saved example_data"
proof -
  have "\<not> link_at example_data q" for q by (rule no_links) code_simp
  moreover have "source_inside example_store_codec [''w''] example_data ''/w/data/a.parquet''"
    unfolding source_inside_def by (rule exI [of _ "''a.parquet''"]) code_simp
  moreover have "cd_sources example_store_codec x = Inr [''/w/data/a.parquet'']" for x
    by (simp add: example_store_codec_def decoders.defs codec.defs)
  moreover have "plain ''g''" by code_simp
  ultimately show ?thesis by (auto simp: generation_clear_def)
qed


end
