(* ===== verification/AnalysisCommands.thy ===== *)
theory AnalysisCommands
  imports WorkspaceAggregate SnapshotFiles
begin

text \<open>
  What \<open>AnalysisService\<close> does inside the mutations of a Workspace: \<^verbatim>\<open>services/analyses.py\<close>.

  An \<open>action\<close> works on a lease: the Workspace, the live progress of its Analyses, which is in memory only, the
  readings of the clock so far, \<open>lease.commit_requested\<close>, and the launch entries of the process executor. The
  readings are \<open>ae_clock 0\<close>, \<open>ae_clock 1\<close>, \<dots>. \<open>transact\<close> is the mutation around an action: an error, also one of the
  commit, restores the Workspace and leaves the rest as it is.

  The walk to the root of a tree and \<open>analysis_descendants\<close> might not end on a cyclic hierarchy; there they are
  \<open>None\<close>, and \<open>AnalysisTrees\<close> shows that they end on every well-formed Workspace. Where \<open>None\<close> would have to be used,
  nothing happens. The order of a Python set of Analyses is that of their Tab.
\<close>

section \<open>Actions\<close>

text \<open>\<open>ConcordanceRunAllStoredResult\<close>; \<open>sr_source\<close> is the descriptor without the table. \<open>ae_stored\<close> decodes a stored
  result field by field, and \<open>ae_group_payload\<close> writes the result of a group from the descriptors of its sources and
  their Analyses.\<close>

record stored_result =
  sr_result_type :: string
  sr_source :: "json option"
  sr_sources :: "json list option"

definition stored_shape_checks :: "stored_result \<Rightarrow> (bool \<times> error) list" where
  "stored_shape_checks r =
     [field_check (sr_result_type r \<in> {''source'', ''group''}),
      (sr_result_type r = ''source'' \<and> (sr_source r = None \<or> sr_sources r \<noteq> None),
       ValueError ''A source Result requires exactly one source table''),
      (sr_result_type r \<noteq> ''source'' \<and> (sr_sources r = None \<or> sr_source r \<noteq> None),
       ValueError ''A group Result requires ordered source descriptors''),
      (sr_result_type r \<noteq> ''source'' \<and> sr_sources r = Some [],
       ValueError ''A group Result requires at least one source'')]"

record analysis_env =
  ae_netloc :: "string \<Rightarrow> bool"
  ae_casefold :: "string \<Rightarrow> string"
  ae_clock :: "nat \<Rightarrow> timestamp"
  ae_stored :: "json \<Rightarrow> stored_result result"
  ae_group_payload :: "(json \<times> uuid) list \<Rightarrow> json"

record 'p analyses =
  an_workspace :: "'p workspace"
  an_live :: "(uuid, progress) dict"
  an_reads :: nat
  an_commit :: bool
  an_launches :: "uuid list"

abbreviation an_board :: "'p analyses \<Rightarrow> analysis_board" where
  "an_board s \<equiv> wk_board (an_workspace s)"

type_synonym ('p, 'a) action = "'p analyses \<Rightarrow> 'a result \<times> 'p analyses"

definition act_pure :: "'a result \<Rightarrow> ('p, 'a) action" where
  "act_pure r s = (r, s)"

definition act_bind :: "('p, 'a) action \<Rightarrow> ('a \<Rightarrow> ('p, 'b) action) \<Rightarrow> ('p, 'b) action" where
  "act_bind m f s = (case m s of (Inl e, s') \<Rightarrow> (Inl e, s') | (Inr x, s') \<Rightarrow> f x s')"

fun act_each :: "('a \<Rightarrow> ('p, unit) action) \<Rightarrow> 'a list \<Rightarrow> ('p, unit) action" where
  "act_each f [] = act_pure (Inr ())"
| "act_each f (x # xs) = act_bind (f x) (\<lambda>_. act_each f xs)"

definition on_board :: "(analysis_board \<Rightarrow> 'a result \<times> analysis_board) \<Rightarrow> ('p, 'a) action" where
  "on_board f s = (case f (an_board s) of (r, b) \<Rightarrow> (r, s\<lparr>an_workspace := (an_workspace s)\<lparr>wk_board := b\<rparr>\<rparr>))"

definition read_clock :: "analysis_env \<Rightarrow> ('p, timestamp) action" where
  "read_clock env s = (Inr (ae_clock env (an_reads s)), s\<lparr>an_reads := Suc (an_reads s)\<rparr>)"

definition no_commit :: "'a \<Rightarrow> ('p, 'a) action" where
  "no_commit x s = (Inr x, s\<lparr>an_commit := False\<rparr>)"

definition pop_live :: "uuid \<Rightarrow> ('p, unit) action" where
  "pop_live i s = (Inr (), s\<lparr>an_live := AList.delete i (an_live s)\<rparr>)"

definition put_analysis :: "analysis_record \<Rightarrow> ('p, unit) action" where
  "put_analysis r = act_bind (on_board (replace_analysis r)) (\<lambda>_. act_pure (Inr ()))"

definition removed_board :: "uuid \<Rightarrow> analysis_board \<Rightarrow> analysis_board" where
  "removed_board i b = (case remove_analysis i b of None \<Rightarrow> b | Some (_, b') \<Rightarrow> b')"

definition drop_tree :: "uuid \<Rightarrow> ('p, unit) action" where
  "drop_tree i = on_board (\<lambda>b. (Inr (), removed_board i b))"

text \<open>\<open>tab.modified_at = timestamp; tab.revision += 1\<close>; the validation on assignment accepts what was valid.\<close>

definition touched :: "timestamp \<Rightarrow> tab \<Rightarrow> tab" where
  "touched t tab = tab\<lparr>tab_modified_at := t, tab_revision := tab_revision tab + 1\<rparr>"

definition change_tab :: "uuid \<Rightarrow> (tab \<Rightarrow> tab) \<Rightarrow> ('p, unit) action" where
  "change_tab tid f = on_board (\<lambda>b. (Inr (), case map_of (ab_tabs b) tid of None \<Rightarrow> b
     | Some tab \<Rightarrow> b\<lparr>ab_tabs := AList.update tid (f tab) (ab_tabs b)\<rparr>))"

definition transact :: "error option \<Rightarrow> ('p, 'a) action \<Rightarrow> ('p, 'a) action" where
  "transact commit act s =
     (let restore = \<lambda>s'. s'\<lparr>an_workspace := an_workspace s\<rparr> in
      case act (s\<lparr>an_commit := True\<rparr>) of
        (Inl e, s') \<Rightarrow> (Inl e, restore s')
      | (Inr x, s') \<Rightarrow> (case (an_commit s', commit) of
            (True, Some e) \<Rightarrow> (Inl e, restore s') | _ \<Rightarrow> (Inr x, s')))"

section \<open>Looking at a lease\<close>

definition missing_input_ids :: "'p analyses \<Rightarrow> analysis_request \<Rightarrow> uuid list" where
  "missing_input_ids s request =
     filter (\<lambda>i. i \<notin> set (dict_keys (ng_nodes (wk_graph (an_workspace s))))) (analysis_input_ids request)"

definition project :: "analysis_env \<Rightarrow> analysis_record \<Rightarrow> 'p analyses \<Rightarrow> (analysis_record \<times> integrity) result" where
  "project env r s =
     (let missing = missing_input_ids s (rec_request r) in
      public_analysis (ae_netloc env) (ae_casefold env) r
        (if missing = [] then ValidInputs else InvalidInputs missing) (map_of (an_live s) (rec_id r)))"

definition current_progress :: "'p analyses \<Rightarrow> analysis_record \<Rightarrow> progress" where
  "current_progress s r = dict_get (an_live s) (rec_id r) (lc_progress r)"

text \<open>The record and the ancestors it has, upwards.\<close>

partial_function (option) ancestors :: "analysis_board \<Rightarrow> analysis_record \<Rightarrow> analysis_record list option" where
  "ancestors b r =
     (case Option.bind (rec_parent_analysis_id r) (map_of (ab_analyses b)) of
        None \<Rightarrow> Some [r]
      | Some parent \<Rightarrow> Option.bind (ancestors b parent) (\<lambda>rs. Some (r # rs)))"

declare ancestors.simps [code] descend.simps [code]

definition detached_root_id :: "analysis_board \<Rightarrow> analysis_record \<Rightarrow> uuid option" where
  "detached_root_id b r =
     (case ancestors b r of
        None \<Rightarrow> None
      | Some rs \<Rightarrow> if analysis_tab_id_in (ab_tabs b) (rec_id (last rs)) = None then Some (rec_id (last rs)) else None)"

text \<open>\<open>[root, *workspace.analysis_descendants(root_id)]\<close>, empty when there is no such Analysis.\<close>

definition analysis_tree :: "analysis_board \<Rightarrow> uuid \<Rightarrow> analysis_record list" where
  "analysis_tree b i =
     (case (map_of (ab_analyses b) i, analysis_descendants i b) of
        (Some r, Some descendants) \<Rightarrow> r # descendants | _ \<Rightarrow> [])"

definition remove_terminal_detached_tree :: "uuid option \<Rightarrow> ('p, unit) action" where
  "remove_terminal_detached_tree root_id s =
     (case root_id of
        None \<Rightarrow> (Inr (), s)
      | Some i \<Rightarrow>
          if map_of (ab_analyses (an_board s)) i \<noteq> None \<and>
             list_all (\<lambda>r. terminal (lc_state r)) (analysis_tree (an_board s) i)
          then drop_tree i s else (Inr (), s))"

definition require_live_record :: "analysis_board \<Rightarrow> uuid \<Rightarrow> analysis_record result" where
  "require_live_record b i =
     (if i \<notin> set (live_analysis_ids b) then Inl AnalysisNotFoundError
      else if i \<in> set (dict_keys (ab_corrupt b)) then Inl AnalysisCorruptError
      else case map_of (ab_analyses b) i of None \<Rightarrow> Inl AnalysisNotFoundError | Some r \<Rightarrow> Inr r)"

fun kind_value :: "analysis_kind \<Rightarrow> string" where
  "kind_value KAnnotation = ''annotation''"
| "kind_value KConcordance = ''concordance''"
| "kind_value KQuotation = ''quotation''"
| "kind_value KSequential = ''sequential''"
| "kind_value KTokenFrequency = ''token_frequency''"
| "kind_value KTopicModeling = ''topic_modeling''"

definition tab_kind_for :: "analysis_request \<Rightarrow> string" where
  "tab_kind_for request = dict_get
     [(''annotation_run_all'', ''annotation''), (''concordance_run_all'', ''concordance''),
      (''concordance_match_data_block_creation'', ''concordance''),
      (''concordance_document_data_block_creation'', ''concordance''),
      (''quotation_run_all'', ''quotation''), (''quotation_result_data_block_creation'', ''quotation''),
      (''topic_modeling_data_block_creation'', ''topic_modeling'')] (request_kind request) (request_kind request)"

section \<open>Settling\<close>

definition apply_success_supersession :: "analysis_env \<Rightarrow> analysis_record \<Rightarrow> ('p, unit) action" where
  "apply_success_supersession env r =
     act_bind (act_each drop_tree (rec_supersedes_analysis_ids r)) (\<lambda>_ s.
       if map_of (ab_tabs (an_board s)) (rec_tab_id r) \<noteq> None \<and> rec_supersedes_analysis_ids r \<noteq> []
       then act_bind (read_clock env) (\<lambda>t. change_tab (rec_tab_id r) (touched t)) s
       else (Inr (), s))"

text \<open>The run over several sources that an Analysis may belong to; the run itself is not scheduled.\<close>

fun is_concordance_run_all :: "analysis_request \<Rightarrow> bool" where
  "is_concordance_run_all (ConcordanceRunAll _) \<longleftrightarrow> True"
| "is_concordance_run_all _ \<longleftrightarrow> False"

definition concordance_group :: "analysis_board \<Rightarrow> analysis_record \<Rightarrow> analysis_record option" where
  "concordance_group b child =
     (case Option.bind (rec_parent_analysis_id child) (map_of (ab_analyses b)) of
        None \<Rightarrow> None
      | Some parent \<Rightarrow>
          if lc_state parent = RUNNING \<and> rec_execution_scope parent = RunAll \<and>
             is_concordance_run_all (rec_request parent)
          then Some parent else None)"

definition source_descriptor :: "analysis_env \<Rightarrow> analysis_record \<Rightarrow> (json \<times> uuid) result" where
  "source_descriptor env item =
     (case rec_result_payload item of
        None \<Rightarrow> Inl (ValueError ''Concordance source Result is unavailable'')
      | Some payload \<Rightarrow>
          bind_result (ae_stored env payload) (\<lambda>decoded.
            bind_result (raise_first (stored_shape_checks decoded) decoded) (\<lambda>stored.
              case sr_source stored of
                None \<Rightarrow> Inl (ValueError ''Concordance source Result is invalid'')
              | Some descriptor \<Rightarrow>
                  if sr_result_type stored \<noteq> ''source''
                  then Inl (ValueError ''Concordance source Result is invalid'')
                  else Inr (descriptor, rec_id item))))"

text \<open>What a run becomes when all its children are terminal.\<close>

definition group_terminal ::
    "analysis_env \<Rightarrow> timestamp \<Rightarrow> analysis_record \<Rightarrow> analysis_record list \<Rightarrow> analysis_record result" where
  "group_terminal env t parent children =
     (let n = ae_netloc env; c = ae_casefold env in
      if lc_cancellation_requested_at parent \<noteq> None \<or> (\<exists>item \<in> set children. lc_state item = CANCELLED) then
        bind_result (if lc_cancellation_requested_at parent = None
            then rec_request_running_cancellation n c t parent else Inr parent)
          (\<lambda>parent. rec_confirm_cancelled n c t (lc_progress parent) parent)
      else if \<exists>item \<in> set children. lc_state item = FAILED then
        rec_fail n c t \<lparr>fl_code = ''analysis_execution_failed'', fl_message = ''A Concordance source failed''\<rparr>
          (lc_progress parent) parent
      else bind_result (map_result (source_descriptor env) children) (\<lambda>sources.
        rec_succeed n c t (ae_group_payload env sources) [] [] None parent))"

definition finalize_concordance_group :: "analysis_env \<Rightarrow> analysis_record \<Rightarrow> ('p, unit) action" where
  "finalize_concordance_group env child s =
     (case concordance_group (an_board s) child of
        None \<Rightarrow> (Inr (), s)
      | Some parent \<Rightarrow>
          let children = analysis_children (rec_id parent) (an_board s) in
          if children = [] \<or> (\<exists>item \<in> set children. \<not> terminal (lc_state item)) then (Inr (), s)
          else
            act_bind (read_clock env) (\<lambda>t.
              act_bind (act_pure (group_terminal env t parent children)) (\<lambda>settled.
                act_bind (put_analysis settled) (\<lambda>_.
                  act_bind (if lc_state settled = SUCCEEDED then apply_success_supersession env settled
                      else act_pure (Inr ())) (\<lambda>_.
                    pop_live (rec_id parent))))) s)"

text \<open>How a transition of a member is stored: in its tree, with its run, and with the tree if that is over.\<close>

definition remove_if_detached :: "analysis_record \<Rightarrow> ('p, unit) action" where
  "remove_if_detached r s = remove_terminal_detached_tree (detached_root_id (an_board s) r) s"

definition conclude :: "analysis_env \<Rightarrow> analysis_record \<Rightarrow> ('p, unit) action" where
  "conclude env settled =
     act_bind (put_analysis settled) (\<lambda>_. act_bind (finalize_concordance_group env settled) (\<lambda>_.
       act_bind (pop_live (rec_id settled)) (\<lambda>_. remove_if_detached settled)))"

text \<open>The same of an Analysis that has never run, which has no live progress.\<close>

definition conclude_unstarted :: "analysis_env \<Rightarrow> analysis_record \<Rightarrow> ('p, unit) action" where
  "conclude_unstarted env settled =
     act_bind (put_analysis settled) (\<lambda>_. act_bind (finalize_concordance_group env settled) (\<lambda>_.
       remove_if_detached settled))"

section \<open>Callbacks of the runner\<close>

text \<open>\<open>exc\<close> of \<open>admit_execution\<close>: an \<open>AppError\<close>, or anything else.\<close>

record app_error =
  ax_code :: string
  ax_message :: string
  ax_status_code :: int
  ax_expose_message :: bool

definition start_failure :: "app_error option \<Rightarrow> failure" where
  "start_failure exc =
     (case exc of
        Some e \<Rightarrow> \<lparr>fl_code = ax_code e, fl_message =
          (if ax_status_code e < 500 \<or> ax_expose_message e then ax_message e else ''Analysis failed'')\<rparr>
      | None \<Rightarrow> \<lparr>fl_code = ''analysis_start_failed'', fl_message = ''Analysis could not start''\<rparr>)"

text \<open>\<open>AnalysisProcessExecutor.reserve\<close> and \<open>discard_reservation\<close>, before a process is started.\<close>

definition reserve_launch :: "bool \<Rightarrow> uuid \<Rightarrow> 'p analyses \<Rightarrow> (app_error option + unit) \<times> 'p analyses" where
  "reserve_launch shut i s =
     (if shut \<or> i \<in> set (an_launches s) then (Inl None, s)
      else (Inr (), s\<lparr>an_launches := i # an_launches s\<rparr>))"

definition discard_launch :: "uuid \<Rightarrow> 'p analyses \<Rightarrow> 'p analyses" where
  "discard_launch i s = s\<lparr>an_launches := removeAll i (an_launches s)\<rparr>"

definition input_missing :: failure where
  "input_missing = \<lparr>fl_code = ''analysis_input_missing'', fl_message = ''Analysis input is missing''\<rparr>"

definition interrupted :: failure where
  "interrupted = \<lparr>fl_code = ''analysis_interrupted'', fl_message = ''Analysis was interrupted''\<rparr>"

definition fail_unstarted :: "analysis_env \<Rightarrow> failure \<Rightarrow> analysis_record \<Rightarrow> ('p, 'i option) action" where
  "fail_unstarted env failure r =
     act_bind (read_clock env) (\<lambda>t.
       act_bind (act_pure (rec_fail (ae_netloc env) (ae_casefold env) t failure (lc_progress r) r)) (\<lambda>failed.
         act_bind (conclude_unstarted env failed) (\<lambda>_. act_pure (Inr None))))"

text \<open>The body of \<open>admit_execution\<close>: \<open>prepare\<close> makes the invocation, or raises.\<close>

definition admit_body ::
    "analysis_env \<Rightarrow> bool \<Rightarrow> (analysis_record \<Rightarrow> app_error option + 'i) \<Rightarrow> uuid \<Rightarrow> ('p, 'i option) action" where
  "admit_body env shut prepare i s =
     (case map_of (ab_analyses (an_board s)) i of
        None \<Rightarrow> no_commit None s
      | Some r \<Rightarrow>
          if lc_state r \<noteq> QUEUED then no_commit None s
          else if missing_input_ids s (rec_request r) \<noteq> [] then fail_unstarted env input_missing r s
          else case prepare r of
            Inl exc \<Rightarrow> fail_unstarted env (start_failure exc) r s
          | Inr invocation \<Rightarrow> (case reserve_launch shut i s of
              (Inl exc, s1) \<Rightarrow> fail_unstarted env (start_failure exc) r s1
            | (Inr _, s1) \<Rightarrow>
                (case act_bind (read_clock env) (\<lambda>t.
                    act_bind (act_pure (rec_start (ae_netloc env) (ae_casefold env) t r)) put_analysis) s1 of
                   (Inl e, s2) \<Rightarrow> fail_unstarted env (start_failure None) r (discard_launch i s2)
                 | (Inr _, s2) \<Rightarrow> (Inr (Some invocation), s2))))"

text \<open>An error after the reservation, also of the commit, gives it back.\<close>

definition admit_execution ::
    "analysis_env \<Rightarrow> bool \<Rightarrow> (analysis_record \<Rightarrow> app_error option + 'i) \<Rightarrow> error option \<Rightarrow> uuid \<Rightarrow>
     ('p, 'i option) action" where
  "admit_execution env shut prepare commit i s =
     (case transact commit (admit_body env shut prepare i) s of
        (Inl e, s') \<Rightarrow> (Inl e, if i \<in> set (an_launches s) then s' else discard_launch i s')
      | (Inr x, s') \<Rightarrow> (Inr x, s'))"

text \<open>\<open>PublishedAnalysisResult\<close>, and the errors of a publication that fail the Analysis only.\<close>

record published_result =
  pr_payload :: json
  pr_artifacts :: "artifact_record list"
  pr_output_node_ids :: "uuid list"
  pr_query_snapshot :: "string option"

fun result_error :: "error \<Rightarrow> bool" where
  "result_error (TypeError _) \<longleftrightarrow> True"
| "result_error e \<longleftrightarrow> file_error e"

text \<open>\<open>publish_result\<close> may add Data Blocks to the Workspace.\<close>

definition publish_and_succeed ::
    "analysis_env \<Rightarrow> (analysis_record \<Rightarrow> 'p workspace \<Rightarrow> published_result result \<times> 'p workspace) \<Rightarrow>
     analysis_record \<Rightarrow> ('p, analysis_record) action" where
  "publish_and_succeed env producer r s =
     (case producer r (an_workspace s) of
        (Inl e, w) \<Rightarrow> (Inl e, s\<lparr>an_workspace := w\<rparr>)
      | (Inr p, w) \<Rightarrow>
          act_bind (read_clock env) (\<lambda>t. act_pure (rec_succeed (ae_netloc env) (ae_casefold env) t (pr_payload p)
            (pr_artifacts p) (pr_output_node_ids p) (pr_query_snapshot p) r)) (s\<lparr>an_workspace := w\<rparr>))"

definition fail_at :: "analysis_env \<Rightarrow> failure \<Rightarrow> progress \<Rightarrow> analysis_record \<Rightarrow> ('p, analysis_record) action" where
  "fail_at env failure p r =
     act_bind (read_clock env) (\<lambda>t. act_pure (rec_fail (ae_netloc env) (ae_casefold env) t failure p r))"

definition confirm_at :: "analysis_env \<Rightarrow> progress \<Rightarrow> analysis_record \<Rightarrow> ('p, analysis_record) action" where
  "confirm_at env p r =
     act_bind (read_clock env) (\<lambda>t. act_pure (rec_confirm_cancelled (ae_netloc env) (ae_casefold env) t p r))"

definition complete_terminal ::
    "analysis_env \<Rightarrow> (analysis_record \<Rightarrow> 'p workspace \<Rightarrow> published_result result \<times> 'p workspace) \<Rightarrow>
     analysis_record \<Rightarrow> ('p, analysis_record) action" where
  "complete_terminal env producer r s =
     (let p = current_progress s r in
      if detached_root_id (an_board s) r \<noteq> None \<and> lc_cancellation_requested_at r \<noteq> None then confirm_at env p r s
      else if missing_input_ids s (rec_request r) \<noteq> [] then fail_at env input_missing p r s
      else case publish_and_succeed env producer r s of
        (Inl e, s1) \<Rightarrow>
          if result_error e then
            fail_at env \<lparr>fl_code = ''analysis_execution_failed'', fl_message = ''Analysis failed''\<rparr> p r s1
          else (Inl e, s1)
      | (Inr settled, s1) \<Rightarrow> (Inr settled, s1))"

definition complete_body ::
    "analysis_env \<Rightarrow> (analysis_record \<Rightarrow> 'p workspace \<Rightarrow> published_result result \<times> 'p workspace) \<Rightarrow> uuid \<Rightarrow>
     ('p, background_state option) action" where
  "complete_body env producer i s =
     (case map_of (ab_analyses (an_board s)) i of
        None \<Rightarrow> no_commit None s
      | Some r \<Rightarrow>
          if lc_state r \<noteq> RUNNING then no_commit None s
          else
            let root_id = detached_root_id (an_board s) r in
            act_bind (complete_terminal env producer r) (\<lambda>settled.
              act_bind (put_analysis settled) (\<lambda>_.
                act_bind (if lc_state settled = SUCCEEDED then apply_success_supersession env settled
                    else act_pure (Inr ())) (\<lambda>_.
                  act_bind (if rec_execution_scope settled = Supporting \<and> is_concordance_run_all (rec_request settled)
                      then finalize_concordance_group env settled else act_pure (Inr ())) (\<lambda>_.
                    act_bind (pop_live i) (\<lambda>_. act_bind (remove_terminal_detached_tree root_id) (\<lambda>_.
                      act_pure (Inr (Some (lc_state settled))))))))) s)"

definition active :: "analysis_record \<Rightarrow> bool" where
  "active r \<longleftrightarrow> lc_state r \<in> {QUEUED, RUNNING}"

definition fail_body :: "analysis_env \<Rightarrow> failure \<Rightarrow> uuid \<Rightarrow> ('p, unit) action" where
  "fail_body env failure i s =
     (case map_of (ab_analyses (an_board s)) i of
        None \<Rightarrow> no_commit () s
      | Some r \<Rightarrow>
          if \<not> active r then no_commit () s
          else act_bind (fail_at env failure (current_progress s r) r) (conclude env) s)"

definition confirm_body :: "analysis_env \<Rightarrow> uuid \<Rightarrow> ('p, unit) action" where
  "confirm_body env i s =
     (case map_of (ab_analyses (an_board s)) i of
        None \<Rightarrow> no_commit () s
      | Some r \<Rightarrow>
          if lc_state r \<noteq> RUNNING \<or> lc_cancellation_requested_at r = None then no_commit () s
          else act_bind (confirm_at env (current_progress s r) r) (conclude env) s)"

definition interrupt_body :: "analysis_env \<Rightarrow> uuid \<Rightarrow> ('p, unit) action" where
  "interrupt_body env i s =
     (case map_of (ab_analyses (an_board s)) i of
        None \<Rightarrow> no_commit () s
      | Some r \<Rightarrow>
          if \<not> active r then no_commit () s
          else act_bind (if lc_state r = RUNNING \<and> lc_cancellation_requested_at r \<noteq> None
              then confirm_at env (current_progress s r) r else fail_at env interrupted (current_progress s r) r)
            (conclude env) s)"

definition interrupt_queued_body :: "analysis_env \<Rightarrow> uuid \<Rightarrow> ('p, unit) action" where
  "interrupt_queued_body env i s =
     (case map_of (ab_analyses (an_board s)) i of
        None \<Rightarrow> no_commit () s
      | Some r \<Rightarrow>
          if lc_state r \<noteq> QUEUED then no_commit () s
          else act_bind (fail_at env interrupted (lc_progress r) r) (conclude_unstarted env) s)"

section \<open>Progress\<close>

text \<open>The mean of the fractions of the sources; accepted fractions are finite.\<close>

definition group_aggregate :: "'p analyses \<Rightarrow> analysis_record list \<Rightarrow> progress option" where
  "group_aggregate s children =
     (let fractions = map (\<lambda>item. pg_fraction (current_progress s item)) children in
      if fractions = [] \<or> None \<in> set fractions then None
      else Some \<lparr>pg_fraction = Some (Fin (sum_list (map (fin_val \<circ> the) fractions) / of_nat (length fractions))),
        pg_message = Some ''Processing Concordance sources''\<rparr>)"

definition running_group :: "analysis_board \<Rightarrow> analysis_record \<Rightarrow> analysis_record option" where
  "running_group b r =
     (case Option.bind (rec_parent_analysis_id r) (map_of (ab_analyses b)) of
        None \<Rightarrow> None
      | Some parent \<Rightarrow>
          if lc_state parent = RUNNING \<and> is_concordance_run_all (rec_request parent) then Some parent else None)"

definition set_live :: "uuid \<Rightarrow> progress \<Rightarrow> 'p analyses \<Rightarrow> 'p analyses" where
  "set_live i p s = s\<lparr>an_live := AList.update i p (an_live s)\<rparr>"

text \<open>The result: whether the execution is to be cancelled, and what is announced.\<close>

definition report_body ::
    "analysis_env \<Rightarrow> progress result \<Rightarrow> uuid \<Rightarrow> ('p, bool \<times> (uuid \<times> progress) list) action" where
  "report_body env payload i s =
     (case map_of (ab_analyses (an_board s)) i of
        None \<Rightarrow> no_commit (False, []) s
      | Some r \<Rightarrow>
          if lc_state r \<noteq> RUNNING \<or> i \<notin> set (live_analysis_ids (an_board s)) then no_commit (False, []) s
          else case bind_result payload (accept_progress r (map_of (an_live s) i)) of
            Inl e \<Rightarrow>
              act_bind (fail_at env \<lparr>fl_code = ''progress_invalid'', fl_message = ''Analysis reported invalid progress''\<rparr>
                  (current_progress s r) r) (\<lambda>failed.
                act_bind (put_analysis failed) (\<lambda>_. act_bind (pop_live i) (\<lambda>_. act_pure (Inr (True, []))))) s
          | Inr p \<Rightarrow>
              (let s1 = set_live i p s in
               case Option.bind (running_group (an_board s) r) (\<lambda>parent. map_option (Pair (rec_id parent))
                   (group_aggregate s1 (analysis_children (rec_id parent) (an_board s)))) of
                 None \<Rightarrow> no_commit (False, [(i, p)]) s1
               | Some (k, aggregate) \<Rightarrow> no_commit (False, [(i, p), (k, aggregate)]) (set_live k aggregate s1)))"

section \<open>Submitting\<close>

record analysis_create =
  ac_execution_scope :: execution_scope
  ac_submission :: analysis_submission
  ac_parent_analysis_id :: "uuid option"
  ac_supersedes_analysis_ids :: "uuid list"

definition analysis_create_checks :: "analysis_create \<Rightarrow> (bool \<times> error) list" where
  "analysis_create_checks command =
     [(has_duplicates (ac_supersedes_analysis_ids command), ValueError ''Superseded Analysis IDs must be distinct'')]"

text \<open>What the parent has above it, itself included.\<close>

definition parent_lineage :: "analysis_board \<Rightarrow> uuid \<Rightarrow> analysis_record \<Rightarrow> uuid list result" where
  "parent_lineage b tid parent =
     (if rec_tab_id parent \<noteq> tid then Inl (AnalysisParentInvalidError ''Parent Analysis belongs to another Tab'')
      else case ancestors b parent of
        None \<Rightarrow> Inr []
      | Some rs \<Rightarrow>
          if rec_parent_analysis_id (last rs) \<noteq> None
          then Inl (AnalysisParentInvalidError ''Parent Analysis lineage is incomplete'') else Inr (map rec_id rs))"

fun creation_parent_kind :: "analysis_request \<Rightarrow> string option" where
  "creation_parent_kind (ConcordanceMatchCreation _) = Some ''concordance_run_all''"
| "creation_parent_kind (ConcordanceDocumentCreation _) = Some ''concordance_run_all''"
| "creation_parent_kind (QuotationResultCreation _) = Some ''quotation_run_all''"
| "creation_parent_kind _ = None"

definition creation_checks :: "execution_scope \<Rightarrow> analysis_record option \<Rightarrow> analysis_request \<Rightarrow> (bool \<times> error) list" where
  "creation_checks scope parent request =
     (case creation_parent_kind request of
        None \<Rightarrow> []
      | Some kind \<Rightarrow>
          [(scope \<noteq> Supporting \<or> (case parent of None \<Rightarrow> True | Some p \<Rightarrow> lc_state p \<noteq> SUCCEEDED),
            AnalysisParentInvalidError ''Data Block Creation requires a successful Run All parent''),
           (request_kind (rec_request (the parent)) \<noteq> kind,
            AnalysisParentInvalidError ''Data Block Creation parent kind is invalid'')])"

definition superseded_id :: "analysis_board \<Rightarrow> uuid \<Rightarrow> uuid list \<Rightarrow> uuid \<Rightarrow> uuid result" where
  "superseded_id b tid line i =
     bind_result (require_live_record b i) (\<lambda>candidate.
       raise_first
         [(rec_tab_id candidate \<noteq> tid \<or> active candidate,
           AnalysisParentInvalidError ''Superseded Analysis is not a terminal member of this Tab''),
          (rec_id candidate \<in> set line, AnalysisParentInvalidError ''An Analysis cannot supersede its own lineage'')]
         (rec_id candidate))"

text \<open>The checks of a submission, up to the parent and what it supersedes.\<close>

definition submission_checks :: "analysis_board \<Rightarrow> uuid \<Rightarrow> tab \<Rightarrow> analysis_create \<Rightarrow> analysis_request \<Rightarrow> (bool \<times> error) list" where
  "submission_checks b tid tab command request =
     [(tab_kind_for request \<noteq> kind_value (tab_kind tab), AnalysisKindMismatchError),
      (tab_kind tab = KAnnotation \<and> (ac_execution_scope command = Supporting \<or>
         ac_parent_analysis_id command \<noteq> None \<or> ac_supersedes_analysis_ids command \<noteq> []),
       AnalysisParentInvalidError ''Annotation Analyses use one linear Tab-owned lifecycle''),
      (ac_execution_scope command \<noteq> Supporting \<and> (\<exists>r \<in> set (dict_values (ab_analyses b)).
         rec_tab_id r = tid \<and> rec_execution_scope r \<noteq> Supporting \<and> active r), TabAnalysisExistsError)]"

definition submission_parent ::
    "analysis_board \<Rightarrow> uuid \<Rightarrow> analysis_create \<Rightarrow> (analysis_record option \<times> uuid list) result" where
  "submission_parent b tid command =
     (case ac_parent_analysis_id command of
        None \<Rightarrow> Inr (None, [])
      | Some p \<Rightarrow> bind_result (require_live_record b p) (\<lambda>parent.
          bind_result (parent_lineage b tid parent) (\<lambda>line. Inr (Some parent, line))))"

definition admit_submission ::
    "'p analyses \<Rightarrow> uuid \<Rightarrow> analysis_create \<Rightarrow> analysis_request \<Rightarrow> (tab \<times> uuid option \<times> uuid list) result" where
  "admit_submission s tid command request =
     (let b = an_board s in
      case map_of (ab_tabs b) tid of
        None \<Rightarrow> Inl TabNotFoundError
      | Some tab \<Rightarrow>
          bind_result (raise_first (submission_checks b tid tab command request) ()) (\<lambda>_.
            bind_result (submission_parent b tid command) (\<lambda>(parent, line).
              bind_result (raise_first (creation_checks (ac_execution_scope command) parent request) ()) (\<lambda>_.
                bind_result (map_result (superseded_id b tid line) (ac_supersedes_analysis_ids command)) (\<lambda>supersedes.
                  if missing_input_ids s request \<noteq> []
                  then Inl (AnalysisInputMissingError ''Analysis input is missing'')
                  else Inr (tab, map_option rec_id parent, supersedes))))))"

definition add_record :: "analysis_record \<Rightarrow> ('p, unit) action" where
  "add_record r = act_bind (on_board (add_analysis r True)) (\<lambda>_. act_pure (Inr ()))"

text \<open>The request of one source of a run.\<close>

definition child_request :: "concordance_request \<Rightarrow> uuid \<Rightarrow> analysis_request result" where
  "child_request r i =
     (case map_of (cc_node_columns r) i of
        None \<Rightarrow> Inl (KeyError i)
      | Some column \<Rightarrow> Inr (ConcordanceRunAll (r\<lparr>cc_node_ids := [i], cc_node_columns := [(i, column)],
          cc_node_tokenizer_models := (case map_of (cc_node_tokenizer_models r) i of
            None \<Rightarrow> [] | Some model \<Rightarrow> [(i, model)])\<rparr>)))"

text \<open>The loop over the sources; the identifiers are those that \<open>uuid4\<close> draws.\<close>

fun add_children ::
    "analysis_env \<Rightarrow> timestamp \<Rightarrow> uuid \<Rightarrow> uuid \<Rightarrow> concordance_request \<Rightarrow> (uuid \<times> uuid) list \<Rightarrow>
     ('p, analysis_record list) action" where
  "add_children env t tid parent r [] = act_pure (Inr [])"
| "add_children env t tid parent r ((node, i) # sources) =
     act_bind (act_pure (bind_result (child_request r node) (\<lambda>request.
         rec_create (ae_netloc env) (ae_casefold env) request tid Supporting t (Some parent) [] i))) (\<lambda>child.
       act_bind (add_record child) (\<lambda>_.
         act_bind (add_children env t tid parent r sources) (\<lambda>children. act_pure (Inr (child # children)))))"

fun group_request :: "execution_scope \<Rightarrow> analysis_request \<Rightarrow> concordance_request option" where
  "group_request RunAll (ConcordanceRunAll r) = Some r"
| "group_request _ _ = None"

text \<open>The second half of the mutation: the record, started when it is a run, and its children; the result is the
  public view and the records to schedule.\<close>

definition create_submitted ::
    "analysis_env \<Rightarrow> uuid \<Rightarrow> uuid list \<Rightarrow> timestamp \<Rightarrow> uuid \<Rightarrow> uuid \<Rightarrow> analysis_create \<Rightarrow> analysis_request \<Rightarrow>
     uuid option \<Rightarrow> uuid list \<Rightarrow> ('p, (analysis_record \<times> integrity) \<times> analysis_record \<times> analysis_record list) action" where
  "create_submitted env i child_ids t key tid command request parent supersedes =
     (let n = ae_netloc env; c = ae_casefold env; group = group_request (ac_execution_scope command) request in
      act_bind (act_pure (bind_result (rec_create n c request tid (ac_execution_scope command) t parent supersedes i)
          (\<lambda>r. if group \<noteq> None then rec_start n c t r else Inr r))) (\<lambda>r.
        act_bind (add_record r) (\<lambda>_.
          act_bind (case group of None \<Rightarrow> act_pure (Inr [r])
              | Some source \<Rightarrow> add_children env t tid i source (zip (cc_node_ids source) child_ids)) (\<lambda>scheduled.
            act_bind (change_tab key (touched t)) (\<lambda>_ s.
              act_bind (act_pure (project env r s)) (\<lambda>view. act_pure (Inr (view, r, scheduled))) s)))))"

definition submit_body ::
    "analysis_env \<Rightarrow> uuid \<Rightarrow> uuid list \<Rightarrow> timestamp \<Rightarrow> uuid \<Rightarrow> analysis_create \<Rightarrow> analysis_request \<Rightarrow>
     ('p, (analysis_record \<times> integrity) \<times> analysis_record \<times> analysis_record list) action" where
  "submit_body env i child_ids t tid command request s =
     (case admit_submission s tid command request of
        Inl e \<Rightarrow> (Inl e, s)
      | Inr (tab, parent, supersedes) \<Rightarrow>
          act_bind (if tab_kind tab = KAnnotation then act_each drop_tree (tab_analysis_ids tab)
              else act_pure (Inr ())) (\<lambda>_.
            create_submitted env i child_ids t tid (tab_id tab) command request parent supersedes) s)"

text \<open>The compensation for a record that the scheduler has refused.\<close>

definition remove_unscheduled_body :: "analysis_env \<Rightarrow> uuid \<Rightarrow> ('p, unit) action" where
  "remove_unscheduled_body env i s =
     (case map_of (ab_analyses (an_board s)) i of
        None \<Rightarrow> no_commit () s
      | Some r \<Rightarrow>
          if lc_state r \<noteq> QUEUED then no_commit () s
          else
            act_bind (if map_of (ab_tabs (an_board s)) (rec_tab_id r) \<noteq> None
                then act_bind (read_clock env) (\<lambda>t. change_tab (rec_tab_id r) (touched t)) else act_pure (Inr ())) (\<lambda>_.
              act_bind (drop_tree i) (\<lambda>_. pop_live i)) s)"

section \<open>Cancelling and detaching\<close>

record cancelling =
  cg_record :: analysis_record
  cg_updated :: "analysis_record list"
  cg_keys :: "uuid list"
  cg_pending :: bool

text \<open>What is noted when a member has been updated. A run itself is not scheduled, so it is not signalled.\<close>

definition note_updated :: "uuid \<Rightarrow> analysis_record \<Rightarrow> bool \<Rightarrow> cancelling \<Rightarrow> cancelling" where
  "note_updated i updated pending cg =
     cg\<lparr>cg_record := (if rec_id updated = i then updated else cg_record cg), cg_updated := cg_updated cg @ [updated],
        cg_keys := (if rec_id updated = i \<and> rec_execution_scope updated = RunAll \<and>
            is_concordance_run_all (rec_request updated) then cg_keys cg else cg_keys cg @ [rec_id updated]),
        cg_pending := cg_pending cg \<or> pending\<rparr>"

definition cancel_member :: "analysis_env \<Rightarrow> timestamp \<Rightarrow> uuid \<Rightarrow> analysis_record \<Rightarrow> cancelling \<Rightarrow> ('p, cancelling) action" where
  "cancel_member env t i m cg =
     (let n = ae_netloc env; c = ae_casefold env in
      if lc_state m = QUEUED then
        act_bind (act_pure (rec_cancel_queued n c t m)) (\<lambda>updated.
          act_bind (put_analysis updated) (\<lambda>_. act_pure (Inr (note_updated i updated False cg))))
      else if lc_state m = RUNNING \<and> lc_cancellation_requested_at m = None then
        act_bind (act_pure (rec_request_running_cancellation n c t m)) (\<lambda>updated.
          act_bind (put_analysis updated) (\<lambda>_. act_pure (Inr (note_updated i updated True cg))))
      else act_pure (Inr (cg\<lparr>cg_pending := cg_pending cg \<or> lc_state m = RUNNING\<rparr>)))"

fun cancel_members ::
    "analysis_env \<Rightarrow> timestamp \<Rightarrow> uuid \<Rightarrow> analysis_record list \<Rightarrow> cancelling \<Rightarrow> ('p, cancelling) action" where
  "cancel_members env t i [] cg = act_pure (Inr cg)"
| "cancel_members env t i (m # ms) cg = act_bind (cancel_member env t i m cg) (cancel_members env t i ms)"

text \<open>The result: the public view, whether the cancellation is pending, and whom to signal.\<close>

definition cancel_view ::
    "analysis_env \<Rightarrow> analysis_record \<Rightarrow> bool \<Rightarrow> uuid list \<Rightarrow> ('p, ((analysis_record \<times> integrity) \<times> bool) \<times> uuid list) action" where
  "cancel_view env r pending keys s =
     act_bind (act_pure (project env r s)) (\<lambda>view. act_pure (Inr ((view, pending), keys))) s"

definition cancel_body ::
    "analysis_env \<Rightarrow> uuid \<Rightarrow> ('p, ((analysis_record \<times> integrity) \<times> bool) \<times> uuid list) action" where
  "cancel_body env i s =
     (case require_live_record (an_board s) i of
        Inl e \<Rightarrow> (Inl e, s)
      | Inr r \<Rightarrow>
          if lc_state r = CANCELLED then act_bind (no_commit ()) (\<lambda>_. cancel_view env r False []) s
          else if lc_state r \<in> {SUCCEEDED, FAILED} then (Inl AnalysisNotCancellableError, s)
          else
            act_bind (read_clock env) (\<lambda>t s1.
              act_bind (cancel_members env t i (analysis_tree (an_board s1) i)
                  \<lparr>cg_record = r, cg_updated = [], cg_keys = [], cg_pending = False\<rparr>) (\<lambda>cg.
                act_bind (act_each (finalize_concordance_group env) (cg_updated cg)) (\<lambda>_.
                  cancel_view env (cg_record cg) (cg_pending cg) (cg_keys cg))) s1) s)"

text \<open>The loop over a detached tree; the result is whom to signal.\<close>

fun stop_members :: "analysis_env \<Rightarrow> timestamp \<Rightarrow> analysis_record list \<Rightarrow> ('p, uuid list) action" where
  "stop_members env t [] = act_pure (Inr [])"
| "stop_members env t (m # ms) =
     (let n = ae_netloc env; c = ae_casefold env in
      if lc_state m = QUEUED then
        act_bind (act_pure (rec_cancel_queued n c t m)) (\<lambda>updated. act_bind (put_analysis updated) (\<lambda>_.
          act_bind (stop_members env t ms) (\<lambda>keys. act_pure (Inr (rec_id m # keys)))))
      else if lc_state m = RUNNING then
        act_bind (if lc_cancellation_requested_at m = None
            then act_bind (act_pure (rec_request_running_cancellation n c t m)) put_analysis
            else act_pure (Inr ())) (\<lambda>_.
          act_bind (stop_members env t ms) (\<lambda>keys. act_pure (Inr (rec_id m # keys))))
      else stop_members env t ms)"

definition detach_analysis_tree :: "analysis_env \<Rightarrow> timestamp \<Rightarrow> uuid \<Rightarrow> ('p, uuid list) action" where
  "detach_analysis_tree env t i s =
     (if i \<in> set (dict_keys (ab_corrupt (an_board s))) then act_bind (drop_tree i) (\<lambda>_. act_pure (Inr [])) s
      else if map_of (ab_analyses (an_board s)) i = None then (Inr [], s)
      else
        let tree = analysis_tree (an_board s) i in
        act_bind (stop_members env t tree) (\<lambda>keys.
          act_bind (if \<exists>r \<in> set tree. lc_state r = RUNNING then act_pure (Inr ()) else drop_tree i) (\<lambda>_.
            act_pure (Inr keys))) s)"

fun detach_trees :: "analysis_env \<Rightarrow> timestamp \<Rightarrow> uuid list \<Rightarrow> ('p, uuid list) action" where
  "detach_trees env t [] = act_pure (Inr [])"
| "detach_trees env t (i # is) =
     act_bind (detach_analysis_tree env t i) (\<lambda>keys. act_bind (detach_trees env t is) (\<lambda>more. act_pure (Inr (keys @ more))))"

text \<open>The Analyses of a Tab that have no parent in it.\<close>

definition owned_root_ids :: "analysis_board \<Rightarrow> uuid list \<Rightarrow> uuid list" where
  "owned_root_ids b owned_ids =
     filter (\<lambda>i. case Option.bind (map_of (ab_analyses b) i) rec_parent_analysis_id of
       None \<Rightarrow> True | Some p \<Rightarrow> p \<notin> set owned_ids) (remdups owned_ids)"

definition clear_body :: "analysis_env \<Rightarrow> uuid \<Rightarrow> ('p, uuid list) action" where
  "clear_body env tid s =
     (case map_of (ab_tabs (an_board s)) tid of
        None \<Rightarrow> (Inl TabNotFoundError, s)
      | Some tab \<Rightarrow>
          if tab_analysis_ids tab = [] then no_commit [] s
          else
            let root_ids = owned_root_ids (an_board s) (tab_analysis_ids tab) in
            act_bind (read_clock env) (\<lambda>t.
              act_bind (change_tab tid (\<lambda>tab. touched t (tab\<lparr>tab_analysis_ids := []\<rparr>))) (\<lambda>_.
                detach_trees env t root_ids)) s)"

definition delete_tab_body :: "analysis_env \<Rightarrow> uuid \<Rightarrow> ('p, uuid list) action" where
  "delete_tab_body env tid =
     act_bind (on_board (\<lambda>b. case remove_tab tid b of (found, b') \<Rightarrow> (Inr found, b'))) (\<lambda>found s.
       case found of
         None \<Rightarrow> (Inl TabNotFoundError, s)
       | Some tab \<Rightarrow>
           let root_ids = owned_root_ids (an_board s) (tab_analysis_ids tab) in
           act_bind (read_clock env) (\<lambda>t. detach_trees env t root_ids) s)"

section \<open>Reading\<close>

datatype tab_item = ValidItem "analysis_record \<times> integrity" | CorruptItem uuid uuid

text \<open>The items of a Tab, in the order of its Analyses.\<close>

fun forest_items :: "analysis_env \<Rightarrow> 'p analyses \<Rightarrow> uuid \<Rightarrow> uuid list \<Rightarrow> tab_item list result" where
  "forest_items env s tid [] = Inr []"
| "forest_items env s tid (i # is) =
     (case map_of (ab_analyses (an_board s)) i of
        Some r \<Rightarrow> bind_result (project env r s) (\<lambda>view. bind_result (forest_items env s tid is) (\<lambda>items.
          Inr (ValidItem view # items)))
      | None \<Rightarrow>
          if i \<in> set (dict_keys (ab_corrupt (an_board s)))
          then bind_result (forest_items env s tid is) (\<lambda>items. Inr (CorruptItem i tid # items))
          else forest_items env s tid is)"

definition for_tab :: "analysis_env \<Rightarrow> uuid \<Rightarrow> 'p analyses \<Rightarrow> tab_item list result" where
  "for_tab env tid s =
     (case map_of (ab_tabs (an_board s)) tid of
        None \<Rightarrow> Inl TabNotFoundError | Some tab \<Rightarrow> forest_items env s (tab_id tab) (tab_analysis_ids tab))"

definition get_analysis :: "analysis_env \<Rightarrow> uuid \<Rightarrow> 'p analyses \<Rightarrow> (analysis_record \<times> integrity) result" where
  "get_analysis env i s = bind_result (require_live_record (an_board s) i) (\<lambda>r. project env r s)"

definition successful_record :: "uuid \<Rightarrow> 'p analyses \<Rightarrow> analysis_record result" where
  "successful_record i s =
     bind_result (require_live_record (an_board s) i) (\<lambda>r.
       raise_first
         [(lc_state r \<noteq> SUCCEEDED, AnalysisNotSucceededError),
          (missing_input_ids s (rec_request r) \<noteq> [] \<and>
             request_kind (rec_request r) \<notin> {''concordance_run_all'', ''quotation_run_all''}, AnalysisInputGoneError)] r)"

record analysis_page =
  ap_items :: "tab_item list"
  ap_page :: int
  ap_page_size :: int
  ap_total_items :: int
  ap_total_pages :: int

text \<open>Newest first and by identifier: two stable sorts. The corrupt ones follow.\<close>

definition corrupt_live_items :: "analysis_board \<Rightarrow> tab_item list" where
  "corrupt_live_items b =
     concat (map (\<lambda>i. case analysis_tab_id_in (ab_tabs b) i of None \<Rightarrow> [] | Some tid \<Rightarrow> [CorruptItem i tid])
       (sort (filter (\<lambda>i. i \<in> set (live_analysis_ids b)) (dict_keys (ab_corrupt b)))))"

definition listed_records :: "analysis_board \<Rightarrow> analysis_record list" where
  "listed_records b = sort_key (\<lambda>r. - lc_created_at r) (sort_key rec_id
     (map snd (filter (\<lambda>(i, r). i \<in> set (live_analysis_ids b)) (ab_analyses b))))"

definition list_analyses :: "analysis_env \<Rightarrow> int \<Rightarrow> int \<Rightarrow> 'p analyses \<Rightarrow> analysis_page result" where
  "list_analyses env page page_size s =
     bind_result (map_result (\<lambda>r. project env r s) (listed_records (an_board s))) (\<lambda>views.
       let items = map ValidItem views @ corrupt_live_items (an_board s); total_items = int (length items);
           first = (page - 1) * page_size in
       Inr \<lparr>ap_items = take (nat page_size) (drop (nat first) items), ap_page = page, ap_page_size = page_size,
         ap_total_items = total_items, ap_total_pages = (total_items + page_size - 1) div page_size\<rparr>)"

section \<open>Startup\<close>

definition fail_interrupted :: "analysis_env \<Rightarrow> timestamp \<Rightarrow> analysis_record \<Rightarrow> ('p, unit) action" where
  "fail_interrupted env t r =
     (if active r then
        act_bind (act_pure (rec_fail (ae_netloc env) (ae_casefold env) t interrupted (lc_progress r) r)) put_analysis
      else act_pure (Inr ()))"

definition detached_roots :: "analysis_board \<Rightarrow> uuid list" where
  "detached_roots b = map fst (filter (\<lambda>(i, r). rec_parent_analysis_id r = None \<and>
     analysis_tab_id_in (ab_tabs b) i = None) (ab_analyses b))"

text \<open>The reconciler of one Workspace; the result is \<open>changed\<close>.\<close>

definition drop_over :: "uuid \<Rightarrow> ('p, bool) action" where
  "drop_over i s =
     (if map_of (ab_analyses (an_board s)) i \<noteq> None \<and>
         list_all (\<lambda>r. terminal (lc_state r)) (analysis_tree (an_board s) i)
      then act_bind (drop_tree i) (\<lambda>_. act_pure (Inr True)) s else (Inr False, s))"

fun drop_all_over :: "uuid list \<Rightarrow> ('p, bool) action" where
  "drop_all_over [] = act_pure (Inr False)"
| "drop_all_over (i # is) = act_bind (drop_over i) (\<lambda>a. act_bind (drop_all_over is) (\<lambda>b. act_pure (Inr (a \<or> b))))"

definition reconcile_interrupted :: "analysis_env \<Rightarrow> ('p, bool) action" where
  "reconcile_interrupted env s =
     (let records = dict_values (ab_analyses (an_board s)) in
      act_bind (read_clock env) (\<lambda>t.
        act_bind (act_each (fail_interrupted env t) records) (\<lambda>_ s1.
          act_bind (drop_all_over (detached_roots (an_board s1))) (\<lambda>dropped.
            act_pure (Inr ((\<exists>r \<in> set records. active r) \<or> dropped))) s1)) s)"

end
