(* ===== verification/AnalysisTrees.thy ===== *)
theory AnalysisTrees
  imports AnalysisCommands
begin

text \<open>
  The trees of Analyses on a well-formed Workspace: the walks of \<open>AnalysisCommands\<close> end, a tree lists each member
  once, and the topmost ancestor of an Analysis is the root of the tree it is in.
\<close>

section \<open>Members\<close>

abbreviation stored :: "analysis_board \<Rightarrow> analysis_record \<Rightarrow> bool" where
  "stored b r \<equiv> map_of (ab_analyses b) (rec_id r) = Some r"

lemma stored_iff:
  assumes "ab_inv b"
  shows "r \<in> snd ` set (ab_analyses b) \<longleftrightarrow> stored b r"
    "map_of (ab_analyses b) i = Some r \<longleftrightarrow> stored b r \<and> rec_id r = i"
proof -
  note I = ab_invD [OF assms]
  have id: "rec_id a = k" if "map_of (ab_analyses b) k = Some a" for k a
    using I(5) map_of_SomeD [OF that] by blast
  show "map_of (ab_analyses b) i = Some r \<longleftrightarrow> stored b r \<and> rec_id r = i" using id by auto
  have "stored b r" if "(k, r) \<in> set (ab_analyses b)" for k using that I(2) I(5) by force
  then show "r \<in> snd ` set (ab_analyses b) \<longleftrightarrow> stored b r" by (force dest: map_of_SomeD)
qed

lemma child_relD:
  assumes "ab_inv b" "(r, a) \<in> child_rel b"
  shows "stored b a" "rec_parent_analysis_id a = Some (rec_id r)" "position b r < position b a"
  using assms(2) stored_iff(1) [OF assms(1)] child_later [OF assms] by (auto simp: child_rel_def)

lemma child_relI: "ab_inv b \<Longrightarrow> stored b a \<Longrightarrow> rec_parent_analysis_id a = Some (rec_id r) \<Longrightarrow> (r, a) \<in> child_rel b"
  using stored_iff(1) by (auto simp: child_rel_def)

lemma parent_stored:
  assumes "ab_inv b" "stored b a" "rec_parent_analysis_id a = Some p"
  obtains q where "map_of (ab_analyses b) p = Some q" "stored b q" "rec_id q = p" "(q, a) \<in> child_rel b"
proof -
  obtain xs ys where d: "ab_analyses b = xs @ (rec_id a, a) # ys"
    using map_of_SomeD [OF assms(2)] by (metis split_list)
  then have "p \<in> fst ` set xs"
    using ab_invD(7) [OF assms(1)] assms(3) unfolding parents_first_def by blast
  then have "map_of (ab_analyses b) p \<noteq> None" unfolding map_of_eq_None_iff d by auto
  then obtain q where q: "map_of (ab_analyses b) p = Some q" by blast
  then have s: "stored b q" and i: "rec_id q = p" using stored_iff(2) [OF assms(1), of p q] by blast+
  have "(q, a) \<in> child_rel b" by (rule child_relI [OF assms(1,2)]) (simp add: assms(3) i)
  with q s i show thesis by (rule that)
qed

lemma descendant_later:
  assumes "ab_inv b" "(r, a) \<in> (child_rel b)\<^sup>+"
  shows "position b r < position b a"
  using assms(2)
proof (induction rule: trancl_induct)
  case (step y z)
  with child_relD(3) [OF assms(1), of y z] show ?case by simp
qed (rule child_relD(3) [OF assms(1)])

lemma descendant_position: "ab_inv b \<Longrightarrow> (r, a) \<in> (child_rel b)\<^sup>* \<Longrightarrow> position b r \<le> position b a"
  using descendant_later by (fastforce simp: rtrancl_eq_or_trancl)

lemma descendant_stored: "ab_inv b \<Longrightarrow> (r, a) \<in> (child_rel b)\<^sup>* \<Longrightarrow> stored b r \<Longrightarrow> stored b a"
  by (erule rtranclE) (auto dest: child_relD(1))

lemma position_cong: "rec_id r = rec_id q \<Longrightarrow> position b r = position b q"
  by (simp add: position_def)

text \<open>An Analysis has one parent, so the ancestors of a member are on one line.\<close>

lemma ancestor_of_child:
  assumes inv: "ab_inv b" and r: "stored b r" "(r, a) \<in> (child_rel b)\<^sup>*"
    and c: "(c, a) \<in> child_rel b" "stored b c"
  shows "r = a \<or> (r, c) \<in> (child_rel b)\<^sup>*"
proof (rule disjCI)
  assume "\<not> (r, c) \<in> (child_rel b)\<^sup>*"
  from r(2) show "r = a"
  proof (cases rule: rtranclE)
    case (step x)
    have "rec_id x = rec_id c" using child_relD(2) [OF inv step(2)] child_relD(2) [OF inv c(1)] by simp
    moreover have "stored b x" using descendant_stored [OF inv step(1) r(1)] .
    ultimately have "x = c" using c(2) by (metis option.inject)
    with step(1) \<open>\<not> (r, c) \<in> (child_rel b)\<^sup>*\<close> show ?thesis by blast
  qed simp
qed

section \<open>The descendants, each once\<close>

definition independent :: "analysis_board \<Rightarrow> analysis_record list \<Rightarrow> bool" where
  "independent b xs \<longleftrightarrow> distinct xs \<and> (\<forall>r \<in> set xs. stored b r) \<and>
     (\<forall>r \<in> set xs. \<forall>q \<in> set xs. r \<noteq> q \<longrightarrow> (r, q) \<notin> (child_rel b)\<^sup>*)"

lemma independent_children:
  assumes inv: "ab_inv b" and ind: "independent b (c # rest)"
  shows "independent b (analysis_children (rec_id c) b @ rest)"
proof -
  let ?ch = "analysis_children (rec_id c) b"
  have c: "stored b c" and rest: "\<And>r. r \<in> set rest \<Longrightarrow> stored b r \<and> r \<noteq> c \<and> (r, c) \<notin> (child_rel b)\<^sup>* \<and> (c, r) \<notin> (child_rel b)\<^sup>*"
    using ind unfolding independent_def by auto
  have ch: "a \<in> set ?ch \<longleftrightarrow> (c, a) \<in> child_rel b" for a by (simp add: set_analysis_children)
  have dist: "distinct ?ch"
  proof -
    have "map rec_id (dict_values (ab_analyses b)) = dict_keys (ab_analyses b)"
      using ab_invD(5) [OF inv] by auto
    then have "distinct (map rec_id (dict_values (ab_analyses b)))" using ab_invD(2) [OF inv] by (simp only:)
    then have "distinct (dict_values (ab_analyses b))" unfolding distinct_map [of rec_id] by (rule conjunct1)
    then show ?thesis unfolding analysis_children_def by (rule distinct_filter)
  qed
  have disj: "a \<notin> set rest" if "(c, a) \<in> child_rel b" for a using rest that by blast
  have "(r, q) \<notin> (child_rel b)\<^sup>*" if "r \<in> set (?ch @ rest)" "q \<in> set (?ch @ rest)" "r \<noteq> q" for r q
  proof
    assume path: "(r, q) \<in> (child_rel b)\<^sup>*"
    have r': "(c, r) \<in> child_rel b \<or> r \<in> set rest" using that(1) unfolding set_append Un_iff ch .
    then have r: "stored b r" using rest child_relD(1) [OF inv] by blast
    have "(c, q) \<in> child_rel b \<or> q \<in> set rest" using that(2) unfolding set_append Un_iff ch .
    then show False
    proof
      assume child: "(c, q) \<in> child_rel b"
      then have rc: "(r, c) \<in> (child_rel b)\<^sup>*" using ancestor_of_child [OF inv r path child c] that(3) by blast
      from r' show False
      proof
        assume "(c, r) \<in> child_rel b"
        then have "position b c < position b r" by (rule child_relD(3) [OF inv])
        with descendant_position [OF inv rc] show False by simp
      qed (use rc rest in blast)
    next
      assume rest': "q \<in> set rest"
      from r' show False
      proof
        assume "(c, r) \<in> child_rel b"
        from this path have "(c, q) \<in> (child_rel b)\<^sup>*" by (rule converse_rtrancl_into_rtrancl)
        with rest [OF rest'] show False by blast
      qed (use ind path that(3) rest' in \<open>auto simp: independent_def\<close>)
    qed
  qed
  then show ?thesis
    using dist disj ind child_relD(1) [OF inv] unfolding independent_def by (auto simp: ch)
qed

lemma descend_distinct:
  assumes "ab_inv b" "independent b pending" "descend b pending ds = Some (ds @ R)"
  shows "distinct R"
  using assms(2,3)
proof (induction pending arbitrary: ds R rule: wf_induct [OF wf_inv_image [OF wf_mult [OF wf_less_than],
      where f = "\<lambda>xs. mset (map (\<lambda>a. length (ab_analyses b) - position b a) xs)"]])
  case (1 pending)
  let ?w = "\<lambda>a. length (ab_analyses b) - position b a"
  show ?case
  proof (cases pending)
    case Nil
    then show ?thesis using 1(3) by (simp add: descend.simps)
  next
    case (Cons c rest)
    let ?ch = "analysis_children (rec_id c) b"
    have "\<forall>k \<in> set_mset (mset (map ?w ?ch)). \<exists>j \<in> set_mset {#?w c#}. (k, j) \<in> less_than"
      using child_later [OF assms(1)] by (fastforce simp: set_analysis_children)
    from one_step_implies_mult [OF _ this, of "mset (map ?w rest)"]
    have smaller: "(?ch @ rest, pending) \<in>
        inv_image (mult less_than) (\<lambda>xs. mset (map (\<lambda>a. length (ab_analyses b) - position b a) xs))"
      by (simp add: inv_image_def Cons union_commute)
    have ind: "independent b (?ch @ rest)" by (rule independent_children [OF assms(1)]) (use 1(2) Cons in simp)
    obtain Q where Q: "\<And>ds. descend b (?ch @ rest) ds = Some (ds @ Q)"
      "set Q = {a. \<exists>r \<in> set (?ch @ rest). (r, a) \<in> (child_rel b)\<^sup>*}"
      using descend_total [OF assms(1)] by blast
    have "distinct Q" using 1(1) [rule_format, OF smaller ind, of "[]" Q] Q(1) [of "[]"] by simp
    moreover have "R = c # Q" using 1(3) Q(1) unfolding Cons by (simp add: descend.simps)
    moreover have "c \<notin> set Q"
    proof
      assume "c \<in> set Q"
      then obtain r where r: "r \<in> set (?ch @ rest)" "(r, c) \<in> (child_rel b)\<^sup>*" unfolding Q(2) by blast
      then consider "(c, r) \<in> child_rel b" | "r \<in> set rest" by (auto simp: set_analysis_children)
      then show False
      proof cases
        case 1
        with child_relD(3) [OF assms(1)] descendant_position [OF assms(1) r(2)] show False by fastforce
      next
        case 2
        with \<open>independent b pending\<close> r(2) show False by (auto simp: Cons independent_def)
      qed
    qed
    ultimately show ?thesis by simp
  qed
qed

lemma analysis_tree_facts:
  assumes "ab_inv b" "stored b r"
  shows "set (analysis_tree b (rec_id r)) = {a. (r, a) \<in> (child_rel b)\<^sup>*}"
    "distinct (map rec_id (analysis_tree b (rec_id r)))"
    "\<And>a. a \<in> set (analysis_tree b (rec_id r)) \<Longrightarrow> stored b a"
proof -
  have "independent b [r]" using assms(2) by (simp add: independent_def)
  from independent_children [OF assms(1) this] have ind: "independent b (analysis_children (rec_id r) b)" by simp
  obtain R where R: "\<And>ds. descend b (analysis_children (rec_id r) b) ds = Some (ds @ R)"
    "set R = {a. \<exists>c \<in> set (analysis_children (rec_id r) b). (c, a) \<in> (child_rel b)\<^sup>*}"
    using descend_total [OF assms(1)] by blast
  have dist: "distinct R" using descend_distinct [OF assms(1) ind, of "[]"] R(1) by simp
  have tree: "analysis_tree b (rec_id r) = r # R"
    using assms(2) R(1) by (simp add: analysis_tree_def analysis_descendants_def)
  have R': "set R = {a. (r, a) \<in> (child_rel b)\<^sup>+}"
    unfolding R(2) set_analysis_children by (auto simp: trancl_unfold_left)
  show set: "set (analysis_tree b (rec_id r)) = {a. (r, a) \<in> (child_rel b)\<^sup>*}"
    unfolding tree by (auto simp: R' rtrancl_eq_or_trancl)
  show st: "stored b a" if "a \<in> set (analysis_tree b (rec_id r))" for a
    using that descendant_stored [OF assms(1) _ assms(2)] unfolding set by blast
  have "r \<notin> set R" using descendant_later [OF assms(1)] unfolding R' by fastforce
  then have "distinct (analysis_tree b (rec_id r))" by (simp add: tree dist)
  moreover have "inj_on rec_id (set (analysis_tree b (rec_id r)))"
    using st by (intro inj_onI) (metis option.inject)
  ultimately show "distinct (map rec_id (analysis_tree b (rec_id r)))" by (simp add: distinct_map)
qed

section \<open>The ancestors\<close>

lemma ancestors_total:
  assumes "ab_inv b" "stored b r"
  shows "\<exists>rs. ancestors b r = Some rs \<and> rs \<noteq> [] \<and> stored b (last rs) \<and> rec_parent_analysis_id (last rs) = None \<and>
    (last rs, r) \<in> (child_rel b)\<^sup>*"
  using assms(2)
proof (induction "position b r" arbitrary: r rule: less_induct)
  case less
  show ?case
  proof (cases "rec_parent_analysis_id r")
    case None
    then show ?thesis using less.prems by (intro exI [of _ "[r]"]) (simp add: ancestors.simps)
  next
    case (Some p)
    obtain q where q: "map_of (ab_analyses b) p = Some q" "stored b q" "(q, r) \<in> child_rel b"
      by (rule parent_stored [OF assms(1) less.prems Some])
    from less.hyps [OF child_relD(3) [OF assms(1) q(3)] q(2)] obtain rs where rs: "ancestors b q = Some rs" "rs \<noteq> []"
      "stored b (last rs)" "rec_parent_analysis_id (last rs) = None" "(last rs, q) \<in> (child_rel b)\<^sup>*"
      by blast
    have "ancestors b r = Some (r # rs)" using Some q(1) rs(1) by (subst ancestors.simps) simp
    then show ?thesis using rs q(3) by (intro exI [of _ "r # rs"]) (auto intro: rtrancl_into_rtrancl)
  qed
qed

text \<open>The root of the tree of an Analysis.\<close>

definition root_of :: "analysis_board \<Rightarrow> analysis_record \<Rightarrow> analysis_record" where
  "root_of b r = last (the (ancestors b r))"

lemma root_of_facts:
  assumes "ab_inv b" "stored b r"
  shows "stored b (root_of b r)" "rec_parent_analysis_id (root_of b r) = None" "(root_of b r, r) \<in> (child_rel b)\<^sup>*"
    "detached_root_id b r = (if analysis_tab_id_in (ab_tabs b) (rec_id (root_of b r)) = None
       then Some (rec_id (root_of b r)) else None)"
  using ancestors_total [OF assms] by (auto simp: root_of_def detached_root_id_def)

lemma removed_board_facts:
  assumes "ab_inv b"
  shows "ab_inv (removed_board i b)"
    "stored b r \<Longrightarrow> removed_board (rec_id r) b = without_analyses (analysis_family r b) b"
  using ab_inv_remove_analysis [OF assms, of i] assms remove_analysis_eq [OF assms]
  by (auto simp: removed_board_def split: option.splits prod.splits)

lemma analysis_tab_id_in_None: "analysis_tab_id_in ts i = None \<longleftrightarrow> i \<notin> set (concat (map tab_analysis_ids (dict_values ts)))"
  by (induction ts i rule: analysis_tab_id_in.induct) auto

end
