(* ===== verification/AnalysisMoves.thy ===== *)
theory AnalysisMoves
  imports AnalysisTrees
begin

text \<open>
  What the mutations of \<open>AnalysisCommands\<close> do to a Workspace, as moves of its board. A quiet move settles a record
  along its life cycle without starting it, takes a tree out, stamps or empties a Tab, or removes one; the others
  start a queued record or add a new one. Every body of the service is a sequence of moves, and those of all callbacks
  but the admission are quiet.
\<close>

section \<open>Moves\<close>

lemma rec_transition_keeps:
  assumes "rec_transition n c r r'"
  shows "rec_parent_analysis_id r' = rec_parent_analysis_id r" "rec_execution_scope r' = rec_execution_scope r"
    "rec_supersedes_analysis_ids r' = rec_supersedes_analysis_ids r"
  using assms
  by (auto elim!: rec_transition.cases rec_bumpD simp: rec_ops rec_coerce_def split: if_splits)

definition quiet_transition where
  "quiet_transition n c r r' \<longleftrightarrow> rec_transition n c r r' \<and> (lc_state r = QUEUED \<longrightarrow> lc_state r' \<noteq> RUNNING)"

text \<open>The active Analyses of a Tab that are not Supporting.\<close>

definition main_active :: "analysis_board \<Rightarrow> uuid \<Rightarrow> uuid \<Rightarrow> bool" where
  "main_active b tid i \<longleftrightarrow> (\<exists>r. map_of (ab_analyses b) i = Some r \<and> rec_tab_id r = tid \<and>
     rec_execution_scope r \<noteq> Supporting \<and> active r)"

inductive board_move ::
    "bool \<Rightarrow> (string \<Rightarrow> bool) \<Rightarrow> (string \<Rightarrow> string) \<Rightarrow> analysis_board \<Rightarrow> analysis_board \<Rightarrow> bool"
  for quiet n c where
  settle: "stored b r \<Longrightarrow> (quiet_transition n c)\<^sup>*\<^sup>* r r' \<Longrightarrow> board_move quiet n c b (snd (replace_analysis r' b))"
| drop: "board_move quiet n c b (removed_board i b)"
| stamp: "map_of (ab_tabs b) tid = Some tab \<Longrightarrow> ids = tab_analysis_ids tab \<or> ids = [] \<Longrightarrow>
    board_move quiet n c b (b\<lparr>ab_tabs := AList.update tid (touched t (tab\<lparr>tab_analysis_ids := ids\<rparr>)) (ab_tabs b)\<rparr>)"
| remove_tab: "board_move quiet n c b (snd (remove_tab tid b))"
| start: "\<not> quiet \<Longrightarrow> stored b r \<Longrightarrow> rec_start n c t r = Inr r' \<Longrightarrow> board_move quiet n c b (snd (replace_analysis r' b))"
| add: "\<not> quiet \<Longrightarrow> rec_create n c request tid scope t parent supersedes i = Inr r \<Longrightarrow>
    r' = r \<or> rec_start n c t r = Inr r' \<Longrightarrow> scope = Supporting \<or> (\<forall>j. \<not> main_active b tid j) \<Longrightarrow>
    board_move quiet n c b (snd (add_analysis r' True b))"

lemma board_move_loud: "board_move quiet n c b b' \<Longrightarrow> board_move False n c b b'"
  by (induction rule: board_move.induct) (auto intro: board_move.intros)

lemma moves_loud: "(board_move quiet n c)\<^sup>*\<^sup>* b b' \<Longrightarrow> (board_move False n c)\<^sup>*\<^sup>* b b'"
  by (induction rule: rtranclp_induct) (auto intro: rtranclp.rtrancl_into_rtrancl board_move_loud)

section \<open>What a move keeps\<close>

lemma quiet_transition_step:
  assumes "quiet_transition n c q q'"
  shows "lc_state q' \<noteq> QUEUED" "\<not> terminal (lc_state q)" "lc_state q' = RUNNING \<Longrightarrow> lc_state q = RUNNING"
proof -
  have t: "rec_transition n c q q'" and s: "lc_state q = QUEUED \<longrightarrow> lc_state q' \<noteq> RUNNING"
    using assms by (simp_all add: quiet_transition_def)
  from t show "lc_state q' \<noteq> QUEUED" by (cases rule: rec_transition_cases) (force simp: terminal_def)+
  from t show "\<not> terminal (lc_state q)" by (cases rule: rec_transition_cases) (force simp: terminal_def)+
  from t s show "lc_state q = RUNNING" if "lc_state q' = RUNNING"
    by (cases rule: rec_transition_cases) (use that in \<open>force simp: terminal_def\<close>)+
qed

lemma quiet_transitions_keep:
  assumes "(quiet_transition n c)\<^sup>*\<^sup>* r r'"
  shows "rec_id r' = rec_id r" "rec_tab_id r' = rec_tab_id r" "rec_parent_analysis_id r' = rec_parent_analysis_id r"
    "rec_execution_scope r' = rec_execution_scope r" "lc_created_at r' = lc_created_at r"
    "lc_state r' = QUEUED \<Longrightarrow> r' = r" "lc_state r' = RUNNING \<Longrightarrow> lc_state r = RUNNING"
    "lc_cancellation_requested_at r \<noteq> None \<Longrightarrow> lc_cancellation_requested_at r' \<noteq> None"
    "rec_ok r \<Longrightarrow> rec_ok r'" "terminal (lc_state r) \<Longrightarrow> r' = r"
    "rec_supersedes_analysis_ids r' = rec_supersedes_analysis_ids r"
proof -
  have "rec_id r' = rec_id r \<and> rec_tab_id r' = rec_tab_id r \<and> rec_parent_analysis_id r' = rec_parent_analysis_id r \<and>
    rec_execution_scope r' = rec_execution_scope r \<and> lc_created_at r' = lc_created_at r \<and>
    (lc_state r' = QUEUED \<longrightarrow> r' = r) \<and> (lc_state r' = RUNNING \<longrightarrow> lc_state r = RUNNING) \<and>
    (lc_cancellation_requested_at r \<noteq> None \<longrightarrow> lc_cancellation_requested_at r' \<noteq> None) \<and>
    (rec_ok r \<longrightarrow> rec_ok r') \<and> (terminal (lc_state r) \<longrightarrow> r' = r) \<and>
    rec_supersedes_analysis_ids r' = rec_supersedes_analysis_ids r"
    using assms
  proof (induction rule: rtranclp_induct)
    case (step q q')
    have t: "rec_transition n c q q'" using step.hyps(2) by (simp add: quiet_transition_def)
    note q = quiet_transition_step [OF step.hyps(2)]
    note requested = analysis.transition_requested [OF t]
    note fr = rec_transition_frame [OF t] and ke = rec_transition_keeps [OF t]
    show ?case
    proof (intro conjI impI)
      show "q' = r" if "terminal (lc_state r)" using step.IH q(2) that by blast
      show "q' = r" if "lc_state q' = QUEUED" using q(1) that by blast
      show "lc_state r = RUNNING" if "lc_state q' = RUNNING" using step.IH q(3) that by blast
      show "lc_cancellation_requested_at q' \<noteq> None" if "lc_cancellation_requested_at r \<noteq> None"
        using step.IH requested that by blast
      show "rec_id q' = rec_id r" using step.IH fr by metis
      show "rec_tab_id q' = rec_tab_id r" using step.IH fr by metis
      show "rec_parent_analysis_id q' = rec_parent_analysis_id r" using step.IH ke by metis
      show "rec_execution_scope q' = rec_execution_scope r" using step.IH ke by metis
      show "lc_created_at q' = lc_created_at r" using step.IH fr by metis
      show "rec_supersedes_analysis_ids q' = rec_supersedes_analysis_ids r" using step.IH ke by metis
      show "rec_ok q'" by (rule fr(1))
    qed
  qed simp
  then show "rec_id r' = rec_id r" "rec_tab_id r' = rec_tab_id r"
    "rec_parent_analysis_id r' = rec_parent_analysis_id r"
    "rec_execution_scope r' = rec_execution_scope r" "lc_created_at r' = lc_created_at r"
    "lc_state r' = QUEUED \<Longrightarrow> r' = r" "lc_state r' = RUNNING \<Longrightarrow> lc_state r = RUNNING"
    "lc_cancellation_requested_at r \<noteq> None \<Longrightarrow> lc_cancellation_requested_at r' \<noteq> None"
    "rec_ok r \<Longrightarrow> rec_ok r'" "terminal (lc_state r) \<Longrightarrow> r' = r"
    "rec_supersedes_analysis_ids r' = rec_supersedes_analysis_ids r"
    by blast+
qed

text \<open>The boards after a replacement, a removal and an addition.\<close>

lemma replaced_board:
  "snd (replace_analysis r b) = b \<or>
   snd (replace_analysis r b) = b\<lparr>ab_analyses := AList.update (rec_id r) r (ab_analyses b)\<rparr>"
  by (auto simp: replace_analysis_def split: option.splits)

lemma replaced_map:
  "ab_tabs (snd (replace_analysis r b)) = ab_tabs b" "ab_corrupt (snd (replace_analysis r b)) = ab_corrupt b"
  "map_of (ab_analyses (snd (replace_analysis r b))) i = map_of (ab_analyses b) i \<or>
     i = rec_id r \<and> map_of (ab_analyses (snd (replace_analysis r b))) i = Some r"
  using replaced_board [of r b] by (auto simp: update_conv' split: if_splits)

lemma removed_map:
  assumes "ab_inv b"
  shows "map_of (ab_analyses (removed_board i b)) k = Some r \<Longrightarrow> map_of (ab_analyses b) k = Some r"
    "set (claimed_ids (removed_board i b)) \<subseteq> set (claimed_ids b)"
    "k \<in> set (claimed_ids b) \<Longrightarrow> map_of (ab_analyses (removed_board i b)) k \<noteq> None \<Longrightarrow>
       k \<in> set (claimed_ids (removed_board i b))"
    "dict_keys (ab_tabs (removed_board i b)) = dict_keys (ab_tabs b)"
proof -
  have fil: "map_of (filter (\<lambda>kv. fst kv \<notin> S) d) k = (if k \<in> S then None else map_of d k)" for S and d :: "(uuid, analysis_record) dict"
    by (induction d) auto
  consider (none) "removed_board i b = b"
    | (corrupt) "map_of (ab_analyses b) i = None" "i \<notin> fst ` set (ab_analyses b)"
        "removed_board i b = unlink_analysis_id i (b\<lparr>ab_corrupt := AList.delete i (ab_corrupt b)\<rparr>)"
    | (family) q where "stored b q" "removed_board i b = without_analyses (analysis_family q b) b"
  proof (cases "map_of (ab_analyses b) i")
    case None
    then have "i \<notin> fst ` set (ab_analyses b)" by (simp add: map_of_eq_None_iff)
    with None show thesis
      by (cases "map_of (ab_corrupt b) i") (auto simp: removed_board_def remove_analysis_def intro: none corrupt)
  next
    case (Some q)
    then have "stored b q" using stored_iff(2) [OF assms] by blast
    with Some show thesis by (intro family) (simp_all add: removed_board_def remove_analysis_eq [OF assms])
  qed
  then have "(map_of (ab_analyses (removed_board i b)) k = Some r \<longrightarrow> map_of (ab_analyses b) k = Some r) \<and>
    set (claimed_ids (removed_board i b)) \<subseteq> set (claimed_ids b) \<and>
    (k \<in> set (claimed_ids b) \<longrightarrow> map_of (ab_analyses (removed_board i b)) k \<noteq> None \<longrightarrow>
       k \<in> set (claimed_ids (removed_board i b))) \<and>
    dict_keys (ab_tabs (removed_board i b)) = dict_keys (ab_tabs b)"
  proof cases
    case corrupt
    have "set (remove1 i xs) \<subseteq> set xs" "k \<noteq> i \<Longrightarrow> k \<in> set xs \<Longrightarrow> k \<in> set (remove1 i xs)" for xs :: "uuid list"
      by (auto simp: set_remove1_subset in_set_remove1)
    then show ?thesis
      using corrupt(1) unfolding corrupt(3) unlink_analysis_id_def claimed_ids_def
      by (cases "k = i") (fastforce simp: case_prod_unfold comp_def)+
  next
    case (family q)
    then show ?thesis
      unfolding family(2) without_analyses_def claimed_ids_def
      by (auto simp: fil case_prod_unfold comp_def split: if_splits)
  qed simp
  then show "map_of (ab_analyses (removed_board i b)) k = Some r \<Longrightarrow> map_of (ab_analyses b) k = Some r"
    "set (claimed_ids (removed_board i b)) \<subseteq> set (claimed_ids b)"
    "k \<in> set (claimed_ids b) \<Longrightarrow> map_of (ab_analyses (removed_board i b)) k \<noteq> None \<Longrightarrow>
       k \<in> set (claimed_ids (removed_board i b))"
    "dict_keys (ab_tabs (removed_board i b)) = dict_keys (ab_tabs b)"
    by blast+
qed

lemma ab_inv_stamp:
  assumes "ab_inv b" "map_of (ab_tabs b) tid = Some tab" "ids = tab_analysis_ids tab \<or> ids = []"
  shows "ab_inv (b\<lparr>ab_tabs := AList.update tid (touched t (tab\<lparr>tab_analysis_ids := ids\<rparr>)) (ab_tabs b)\<rparr>)"
proof -
  have "distinct (tab_analysis_ids tab)" using ab_invD(4) [OF assms(1)] map_of_SomeD [OF assms(2)] by blast
  then show ?thesis
    using assms(1,3) set_update_dict [of tid "touched t (tab\<lparr>tab_analysis_ids := ids\<rparr>)" "ab_tabs b"]
    by (auto simp: ab_inv_def touched_def distinct_update)
qed

lemma board_move_inv: "board_move quiet n c b b' \<Longrightarrow> ab_inv b \<Longrightarrow> ab_inv b'"
  by (induction rule: board_move.induct)
    (auto intro: ab_inv_replace removed_board_facts(1) ab_inv_stamp ab_inv_remove_tab ab_inv_add_analysis)

lemma moves_inv: "(board_move quiet n c)\<^sup>*\<^sup>* b b' \<Longrightarrow> ab_inv b \<Longrightarrow> ab_inv b'"
  by (induction rule: rtranclp_induct) (auto intro: board_move_inv)

section \<open>What a sequence of moves does to the records\<close>

lemma link_analysis_map [simp]: "ab_analyses (link_analysis tid i b) = ab_analyses b"
  by (simp add: link_analysis_def split: option.split)

lemma add_analysis_map:
  "map_of (ab_analyses (snd (add_analysis r True b))) k = map_of (ab_analyses b) k \<or>
   k = rec_id r \<and> map_of (ab_analyses (snd (add_analysis r True b))) k = Some r"
  by (cases rule: add_analysis_cases [of r True b]) (auto simp: update_conv' split: if_splits)

lemma remove_tab_map [simp]: "ab_analyses (snd (remove_tab tid b)) = ab_analyses b"
  by (simp add: remove_tab_def)

lemma quiet_move_record:
  assumes "board_move True n c b b'" "ab_inv b" "map_of (ab_analyses b') i = Some r'"
  shows "\<exists>r. map_of (ab_analyses b) i = Some r \<and> (quiet_transition n c)\<^sup>*\<^sup>* r r'"
  using assms(1)
proof (cases rule: board_move.cases)
  case (settle q q')
  have "rec_id q' = rec_id q" by (rule quiet_transitions_keep(1) [OF settle(3)])
  then show ?thesis
    using replaced_map(3) [of q' b i] assms(3) settle by (metis option.inject rtranclp.rtrancl_refl)
next
  case (drop j)
  then show ?thesis using removed_map(1) [OF assms(2)] assms(3) by blast
qed (use assms(3) in auto)

lemma quiet_moves_record:
  assumes "(board_move True n c)\<^sup>*\<^sup>* b b'" "ab_inv b" "map_of (ab_analyses b') i = Some r'"
  shows "\<exists>r. map_of (ab_analyses b) i = Some r \<and> (quiet_transition n c)\<^sup>*\<^sup>* r r'"
  using assms(1,3)
proof (induction arbitrary: r' rule: rtranclp_induct)
  case (step x y)
  obtain q where q: "map_of (ab_analyses x) i = Some q" "(quiet_transition n c)\<^sup>*\<^sup>* q r'"
    using quiet_move_record [OF step.hyps(2) moves_inv [OF step.hyps(1) assms(2)] step.prems] by blast
  from step.IH [OF q(1)] obtain r where "map_of (ab_analyses b) i = Some r" "(quiet_transition n c)\<^sup>*\<^sup>* r q" by blast
  with q(2) show ?case by (meson rtranclp_trans)
qed blast

lemma quiet_moves_main_active:
  assumes "(board_move True n c)\<^sup>*\<^sup>* b b'" "ab_inv b" "main_active b' tid i"
  shows "main_active b tid i"
proof -
  obtain r' where r': "map_of (ab_analyses b') i = Some r'" "rec_tab_id r' = tid" "rec_execution_scope r' \<noteq> Supporting"
    "active r'"
    using assms(3) by (auto simp: main_active_def)
  obtain r where r: "map_of (ab_analyses b) i = Some r" "(quiet_transition n c)\<^sup>*\<^sup>* r r'"
    using quiet_moves_record [OF assms(1,2) r'(1)] by blast
  note k = quiet_transitions_keep [OF r(2)]
  have "active r" using k(6,7) r'(4) by (auto simp: active_def)
  with k(2,4) r r' show ?thesis by (auto simp: main_active_def)
qed

section \<open>The invariant of the board\<close>

definition tabs_keyed :: "analysis_board \<Rightarrow> bool" where
  "tabs_keyed b \<longleftrightarrow> (\<forall>(k, tab) \<in> set (ab_tabs b). tab_id tab = k)"

definition board_ok :: "analysis_board \<Rightarrow> bool" where
  "board_ok b \<longleftrightarrow> ab_inv b \<and> tabs_keyed b \<and> (\<forall>r \<in> set (dict_values (ab_analyses b)). rec_ok r) \<and>
     (\<forall>i j tid. main_active b tid i \<longrightarrow> main_active b tid j \<longrightarrow> i = j)"

lemma board_okI:
  assumes "ab_inv b'" "tabs_keyed b'" "\<And>i r. map_of (ab_analyses b') i = Some r \<Longrightarrow> rec_ok r"
    and "\<And>i j tid. main_active b' tid i \<Longrightarrow> main_active b' tid j \<Longrightarrow> i = j"
  shows "board_ok b'"
proof -
  have "rec_ok r" if "r \<in> snd ` set (ab_analyses b')" for r
    using assms(3) that unfolding wf_dict_values_mem [OF ab_invD(2) [OF assms(1)]] by blast
  with assms(1,2,4) show ?thesis unfolding board_ok_def by auto
qed

lemma board_okD:
  assumes "board_ok b"
  shows "ab_inv b" "map_of (ab_analyses b) i = Some r \<Longrightarrow> rec_ok r"
    "main_active b tid i \<Longrightarrow> main_active b tid j \<Longrightarrow> i = j" "tabs_keyed b"
proof -
  show "rec_ok r" if "map_of (ab_analyses b) i = Some r"
    using assms map_of_SomeD [OF that] by (force simp: board_ok_def)
qed (use assms in \<open>auto simp: board_ok_def\<close>)

lemma board_ok_changed:
  assumes "board_ok b" "ab_inv b'" "tabs_keyed b'" "rec_ok r'"
    and "\<And>i. map_of (ab_analyses b') i = map_of (ab_analyses b) i \<or>
      i = rec_id r' \<and> map_of (ab_analyses b') i = Some r'"
    and "rec_execution_scope r' = Supporting \<or> \<not> active r' \<or> main_active b (rec_tab_id r') (rec_id r') \<or>
      (\<forall>j. \<not> main_active b (rec_tab_id r') j)"
  shows "board_ok b'"
proof (rule board_okI [OF assms(2,3)])
  show "rec_ok r" if "map_of (ab_analyses b') i = Some r" for i r
    using assms(5) [of i] that board_okD(2) [OF assms(1)] assms(4) by auto
  have old: "main_active b tid i \<or> i = rec_id r' \<and> tid = rec_tab_id r' \<and> rec_execution_scope r' \<noteq> Supporting \<and> active r'"
    if "main_active b' tid i" for tid i
    using that assms(5) [of i] by (auto simp: main_active_def)
  show "i = j" if "main_active b' tid i" "main_active b' tid j" for i j tid
    using old [OF that(1)] old [OF that(2)] assms(6) board_okD(3) [OF assms(1)] by metis
qed

lemma board_ok_shrunk:
  assumes "board_ok b" "ab_inv b'" "tabs_keyed b'" "\<And>i r. map_of (ab_analyses b') i = Some r \<Longrightarrow> map_of (ab_analyses b) i = Some r"
  shows "board_ok b'"
proof (rule board_okI [OF assms(2,3)])
  show "rec_ok r" if "map_of (ab_analyses b') i = Some r" for i r
    using assms(4) [OF that] board_okD(2) [OF assms(1)] by blast
  show "i = j" if "main_active b' tid i" "main_active b' tid j" for i j tid
    using that assms(4) board_okD(3) [OF assms(1)] unfolding main_active_def by metis
qed

lemma board_move_keyed:
  assumes "board_move quiet n c b b'" "tabs_keyed b" "ab_inv b"
  shows "tabs_keyed b'"
proof -
  have upd: "tabs_keyed (x\<lparr>ab_tabs := AList.update k tab (ab_tabs b)\<rparr>)" if "tab_id tab = k" for x k tab
    using assms(2) set_update_dict [of k tab "ab_tabs b"] that by (auto simp: tabs_keyed_def)
  have old: "tab_id tab = k" if "map_of (ab_tabs b) k = Some tab" for k tab
    using assms(2) map_of_SomeD [OF that] by (auto simp: tabs_keyed_def)
  have filtered: "tabs_keyed x" if "ab_tabs x = map (\<lambda>(k, tab). (k, tab\<lparr>tab_analysis_ids := f tab\<rparr>)) (ab_tabs b)"
    for x f using assms(2) that by (auto simp: tabs_keyed_def)
  from assms(1) show ?thesis
  proof (cases rule: board_move.cases)
    case (settle r r')
    then show ?thesis using assms(2) replaced_map(1) [of r' b] by (simp add: tabs_keyed_def)
  next
    case (start r t r')
    then show ?thesis using assms(2) replaced_map(1) [of r' b] by (simp add: tabs_keyed_def)
  next
    case (drop i)
    show ?thesis
    proof (cases "map_of (ab_analyses b) i")
      case None
      then show ?thesis
        using assms(2) drop by (cases "map_of (ab_corrupt b) i")
          (auto simp: removed_board_def remove_analysis_def unlink_analysis_id_def intro: filtered)
    next
      case (Some r)
      then have "stored b r" "rec_id r = i" using stored_iff(2) [OF assms(3)] by blast+
      then have "b' = without_analyses (analysis_family r b) b" using removed_board_facts(2) [OF assms(3)] drop by blast
      then show ?thesis
        by (intro filtered [where f = "\<lambda>tab. filter (\<lambda>j. j \<notin> analysis_family r b) (tab_analysis_ids tab)"])
          (simp add: without_analyses_def)
    qed
  next
    case (stamp tid tab ids t)
    have "tab_id (touched t (tab\<lparr>tab_analysis_ids := ids\<rparr>)) = tid" using old [OF stamp(2)] by (simp add: touched_def)
    from upd [OF this, of b] show ?thesis unfolding stamp(1) .
  next
    case (remove_tab tid)
    then show ?thesis using assms(2) set_delete_dict [of tid "ab_tabs b"] by (auto simp: tabs_keyed_def remove_tab_def)
  next
    case (add request tid scope t parent supersedes i r r')
    have same: "tabs_keyed (b\<lparr>ab_analyses := d\<rparr>)" for d using assms(2) by (simp add: tabs_keyed_def)
    have "tabs_keyed (link_analysis tid i (b\<lparr>ab_analyses := d\<rparr>))" for tid i d
    proof (cases "map_of (ab_tabs b) tid")
      case (Some tab)
      have "tab_id (tab\<lparr>tab_analysis_ids := tab_analysis_ids tab @ [i]\<rparr>) = tid" using old [OF Some] by simp
      from upd [OF this, of "b\<lparr>ab_analyses := d\<rparr>"] same Some show ?thesis by (simp add: link_analysis_def)
    qed (simp add: link_analysis_def same)
    then show ?thesis
      using same assms(2) unfolding add(1) by (cases rule: add_analysis_cases [of r' True b]) auto
  qed
qed

lemma board_move_ok:
  assumes "board_move quiet n c b b'" "board_ok b"
  shows "board_ok b'"
proof -
  note inv = board_move_inv [OF assms(1) board_okD(1) [OF assms(2)]]
  note keyed = board_move_keyed [OF assms(1) board_okD(4,1) [OF assms(2)]]
  from assms(1) show ?thesis
  proof (cases rule: board_move.cases)
    case (settle r r')
    note k = quiet_transitions_keep [OF settle(3)]
    have "main_active b (rec_tab_id r') (rec_id r')" if "rec_execution_scope r' \<noteq> Supporting" "active r'"
    proof -
      have "active r" using k(6,7) that(2) by (auto simp: active_def)
      with k(1,2,4) that settle(2) show ?thesis by (auto simp: main_active_def)
    qed
    then show ?thesis
      using board_ok_changed [OF assms(2) inv keyed k(9) [OF board_okD(2) [OF assms(2) settle(2)]]] replaced_map(3) [of r' b]
      unfolding settle(1) by blast
  next
    case (drop i)
    show ?thesis
      by (rule board_ok_shrunk [OF assms(2) inv keyed]) (use removed_map(1) [OF board_okD(1) [OF assms(2)]] drop in blast)
  next
    case (start r t r')
    have tr: "rec_transition n c r r'" by (rule rec_transition.start [OF start(4)])
    note k = rec_transition_keeps [OF tr] and f = rec_transition_frame [OF tr]
    have "lc_state r = QUEUED" using start(4) by (auto simp: rec_start_def split: if_splits)
    then have "main_active b (rec_tab_id r') (rec_id r')" if "rec_execution_scope r' \<noteq> Supporting"
      using start(3) f(4,5) k(2) that by (auto simp: main_active_def active_def)
    then show ?thesis
      using board_ok_changed [OF assms(2) inv keyed f(1)] replaced_map(3) [of r' b] unfolding start(1) by blast
  next
    case (add request tid scope t parent supersedes i r r')
    have r: "rec_ok r" "rec_tab_id r = tid" "rec_execution_scope r = scope"
      using add(3) by (auto simp: rec_create_def rec_validate_Inr_iff rec_coerce_def)
    have r': "rec_ok r' \<and> rec_tab_id r' = tid \<and> rec_execution_scope r' = scope"
    proof (cases "r' = r")
      case False
      then have "rec_transition n c r r'" using add(4) by (blast intro: rec_transition.start)
      then show ?thesis using rec_transition_keeps rec_transition_frame r by metis
    qed (use r in simp)
    then show ?thesis
      using board_ok_changed [OF assms(2) inv keyed, of r'] add_analysis_map [of r' b] add(5) unfolding add(1) by blast
  qed (use board_ok_shrunk [OF assms(2) inv keyed] in auto)
qed

lemma moves_ok: "(board_move quiet n c)\<^sup>*\<^sup>* b b' \<Longrightarrow> board_ok b \<Longrightarrow> board_ok b'"
  by (induction rule: rtranclp_induct) (auto intro: board_move_ok)

end
