(* ===== verification/AnalysisActs.thy ===== *)
theory AnalysisActs
  imports AnalysisMoves
begin

text \<open>
  The bodies of \<open>AnalysisCommands\<close> as sequences of moves. \<open>acts quiet env s out\<close> says it of one run from \<open>s\<close> that
  ends in \<open>out\<close>, whether it returns or raises, and has a rule for each way of composing actions.
\<close>

section \<open>The rules\<close>

definition acts :: "bool \<Rightarrow> analysis_env \<Rightarrow> 'p analyses \<Rightarrow> 'a result \<times> 'p analyses \<Rightarrow> bool" where
  "acts quiet env s out \<longleftrightarrow> (board_move quiet (ae_netloc env) (ae_casefold env))\<^sup>*\<^sup>* (an_board s) (an_board (snd out))"

named_theorems act_simps

lemmas [act_simps] = act_pure_def act_bind_def on_board_def read_clock_def no_commit_def pop_live_def

lemma acts_loud: "acts quiet env s out \<Longrightarrow> acts False env s out"
  by (simp add: acts_def moves_loud)

lemma acts_inv: "acts quiet env s out \<Longrightarrow> ab_inv (an_board s) \<Longrightarrow> ab_inv (an_board (snd out))"
  by (auto simp: acts_def intro: moves_inv)

lemma acts_same: "an_board (snd out) = an_board s \<Longrightarrow> acts quiet env s out"
  by (simp add: acts_def)

lemma acts_frame [intro, simp]:
  "acts quiet env s (act_pure x s)" "acts quiet env s (read_clock env' s)" "acts quiet env s (no_commit y s)"
  "acts quiet env s (pop_live i s)" "acts quiet env s (x, s)"
  by (simp_all add: acts_same act_simps)

lemma acts_move:
  "board_move quiet (ae_netloc env) (ae_casefold env) (an_board s) (an_board (snd out)) \<Longrightarrow> acts quiet env s out"
  by (simp add: acts_def)

lemma acts_bind:
  assumes "acts quiet env s (m s)" "ab_inv (an_board s)"
    and "\<And>x s'. m s = (Inr x, s') \<Longrightarrow> ab_inv (an_board s') \<Longrightarrow> acts quiet env s' (f x s')"
  shows "acts quiet env s (act_bind m f s)"
proof (cases "m s")
  case (Pair r s')
  show ?thesis
  proof (cases r)
    case (Inl e)
    then show ?thesis using assms(1) Pair by (simp add: acts_def act_bind_def)
  next
    case (Inr x)
    have m: "m s = (Inr x, s')" using Pair Inr by simp
    have "acts quiet env s' (f x s')" using assms(3) [OF m] acts_inv [OF assms(1,2)] m by simp
    then show ?thesis using assms(1) m by (auto simp: acts_def act_bind_def intro: rtranclp_trans)
  qed
qed

lemma act_bind_Inr:
  "act_bind m f s = (Inr y, s'') \<longleftrightarrow> (\<exists>x s'. m s = (Inr x, s') \<and> f x s' = (Inr y, s''))"
  by (auto simp: act_bind_def split: prod.split sum.split)

lemma act_pure_Inr: "act_pure r s = (Inr x, s') \<longleftrightarrow> r = Inr x \<and> s' = s"
  by (auto simp: act_pure_def)

lemma acts_if: "(c \<Longrightarrow> acts q env s (f s)) \<Longrightarrow> (\<not> c \<Longrightarrow> acts q env s (g s)) \<Longrightarrow> acts q env s ((if c then f else g) s)"
  by simp

lemma acts_then_pure: "acts q env s (m s) \<Longrightarrow> ab_inv (an_board s) \<Longrightarrow> acts q env s (act_bind m (\<lambda>x. act_pure (g x)) s)"
  by (rule acts_bind) auto

text \<open>Actions that succeed leave the board alone where they only read.\<close>

lemma read_clock_Inr: "read_clock env s = (Inr t, s') \<Longrightarrow> an_board s' = an_board s \<and> an_live s' = an_live s"
  by (auto simp: read_clock_def)

lemma acts_clock:
  assumes "ab_inv (an_board s)"
    and "\<And>t s'. an_board s' = an_board s \<Longrightarrow> an_live s' = an_live s \<Longrightarrow> acts q env s' (f t s')"
  shows "acts q env s (act_bind (read_clock env) f s)"
  using assms read_clock_Inr by (intro acts_bind) blast+

lemma acts_pure_bind:
  assumes "\<And>x. r = Inr x \<Longrightarrow> acts q env s (f x s)"
  shows "acts q env s (act_bind (act_pure r) f s)"
  using assms by (cases r) (auto simp: act_bind_def act_pure_def)

lemma acts_drop [intro, simp]: "acts quiet env s (drop_tree i s)"
  by (rule acts_move) (simp add: drop_tree_def on_board_def board_move.drop)

lemma put_board [simp]: "an_board (snd (put_analysis r s)) = snd (replace_analysis r (an_board s))"
  by (simp add: put_analysis_def act_simps split: prod.split sum.split)

lemma acts_put:
  assumes "stored (an_board s) r" "(quiet_transition (ae_netloc env) (ae_casefold env))\<^sup>*\<^sup>* r r'"
  shows "acts quiet env s (put_analysis r' s)"
  by (rule acts_move) (simp add: board_move.settle [OF assms])

lemma acts_put_bind:
  assumes "ab_inv (an_board s)" "stored (an_board s) r" "(quiet_transition (ae_netloc env) (ae_casefold env))\<^sup>*\<^sup>* r r'"
    and "\<And>s'. put_analysis r' s = (Inr (), s') \<Longrightarrow> ab_inv (an_board s') \<Longrightarrow> acts quiet env s' (f s')"
  shows "acts quiet env s (act_bind (put_analysis r') (\<lambda>_. f) s)"
  using assms(4) by (intro acts_bind acts_put [OF assms(2,3)] assms(1)) simp

lemma acts_put_started:
  assumes "stored (an_board s) r" "rec_start (ae_netloc env) (ae_casefold env) t r = Inr r'"
  shows "acts False env s (put_analysis r' s)"
  by (rule acts_move) (simp add: board_move.start [where quiet = False, OF _ assms])

lemma acts_touch [intro, simp]: "acts quiet env s (change_tab tid (touched t) s)"
proof (cases "map_of (ab_tabs (an_board s)) tid")
  case (Some tab)
  have "tab\<lparr>tab_analysis_ids := tab_analysis_ids tab\<rparr> = tab" by simp
  with board_move.stamp [OF Some, of "tab_analysis_ids tab" quiet "ae_netloc env" "ae_casefold env" t] Some
  show ?thesis by (intro acts_move) (simp add: change_tab_def on_board_def)
qed (simp add: acts_same change_tab_def on_board_def)

lemma acts_empty_tab: "acts quiet env s (change_tab tid (\<lambda>tab. touched t (tab\<lparr>tab_analysis_ids := []\<rparr>)) s)"
proof (cases "map_of (ab_tabs (an_board s)) tid")
  case (Some tab)
  from board_move.stamp [OF Some, of "[]" quiet "ae_netloc env" "ae_casefold env" t] Some
  show ?thesis by (intro acts_move) (simp add: change_tab_def on_board_def)
qed (simp add: acts_same change_tab_def on_board_def)

lemma acts_each:
  assumes "ab_inv (an_board s)" "\<And>x s'. x \<in> set xs \<Longrightarrow> ab_inv (an_board s') \<Longrightarrow> acts quiet env s' (f x s')"
  shows "acts quiet env s (act_each f xs s)"
  using assms
proof (induction xs arbitrary: s)
  case (Cons x xs)
  then show ?case unfolding act_each.simps by (intro acts_bind) auto
qed auto

section \<open>Transitions that settle\<close>

abbreviation settles :: "analysis_env \<Rightarrow> analysis_record \<Rightarrow> analysis_record \<Rightarrow> bool" where
  "settles env \<equiv> (quiet_transition (ae_netloc env) (ae_casefold env))\<^sup>*\<^sup>*"

lemma settles_by:
  "rec_fail (ae_netloc env) (ae_casefold env) t f p r = Inr r' \<Longrightarrow> settles env r r'"
  "rec_cancel_queued (ae_netloc env) (ae_casefold env) t r = Inr r' \<Longrightarrow> settles env r r'"
  "rec_confirm_cancelled (ae_netloc env) (ae_casefold env) t p r = Inr r' \<Longrightarrow> settles env r r'"
  "rec_succeed (ae_netloc env) (ae_casefold env) t j as ids q r = Inr r' \<Longrightarrow> settles env r r'"
  "rec_request_running_cancellation (ae_netloc env) (ae_casefold env) t r = Inr r' \<Longrightarrow> settles env r r'"
proof -
  have step: "rec_transition (ae_netloc env) (ae_casefold env) r r' \<Longrightarrow>
      lc_state r = QUEUED \<longrightarrow> lc_state r' \<noteq> RUNNING \<Longrightarrow> settles env r r'"
    by (simp add: quiet_transition_def r_into_rtranclp)
  show "settles env r r'" if *: "rec_fail (ae_netloc env) (ae_casefold env) t f p r = Inr r'"
    using * by (intro step rec_transition.fail [OF *]) (auto simp: rec_fail_def split: if_splits elim!: rec_bumpD)
  show "settles env r r'" if *: "rec_cancel_queued (ae_netloc env) (ae_casefold env) t r = Inr r'"
    using * by (intro step rec_transition.cancel_queued [OF *])
      (auto simp: rec_cancel_queued_def split: if_splits elim!: rec_bumpD)
  show "settles env r r'" if *: "rec_confirm_cancelled (ae_netloc env) (ae_casefold env) t p r = Inr r'"
    using * by (intro step rec_transition.confirm_cancelled [OF *]) (auto simp: rec_confirm_cancelled_def split: if_splits)
  show "settles env r r'" if *: "rec_succeed (ae_netloc env) (ae_casefold env) t j as ids q r = Inr r'"
    using * by (intro step rec_transition.succeed [OF *]) (auto simp: rec_succeed_def split: if_splits)
  show "settles env r r'" if *: "rec_request_running_cancellation (ae_netloc env) (ae_casefold env) t r = Inr r'"
  proof (cases "lc_cancellation_requested_at r = None")
    case True
    then show ?thesis using * by (intro step rec_transition.request_cancellation [OF *])
        (auto simp: rec_request_running_cancellation_def split: if_splits)
  qed (use * in \<open>simp add: rec_request_running_cancellation_def split: if_splits\<close>)
qed

lemma ends_in:
  "rec_fail n c t f p r = Inr r' \<Longrightarrow> lc_state r' = FAILED"
  "rec_cancel_queued n c t r = Inr r' \<Longrightarrow> lc_state r' = CANCELLED"
  "rec_confirm_cancelled n c t p r = Inr r' \<Longrightarrow> lc_state r' = CANCELLED"
  "rec_succeed n c t j as ids q r = Inr r' \<Longrightarrow> lc_state r' = SUCCEEDED"
  by (auto simp: rec_ops split: if_splits elim!: rec_bumpD)

lemma settles_at:
  "fail_at env f p r s = (Inr r', s') \<Longrightarrow> settles env r r' \<and> lc_state r' = FAILED \<and> an_board s' = an_board s"
  "confirm_at env p r s = (Inr r', s') \<Longrightarrow> settles env r r' \<and> lc_state r' = CANCELLED \<and> an_board s' = an_board s"
proof -
  assume "fail_at env f p r s = (Inr r', s')"
  then obtain t where "an_board s' = an_board s" "rec_fail (ae_netloc env) (ae_casefold env) t f p r = Inr r'"
    by (auto simp: fail_at_def act_bind_Inr act_pure_Inr dest: read_clock_Inr)
  then show "settles env r r' \<and> lc_state r' = FAILED \<and> an_board s' = an_board s"
    using settles_by(1) ends_in(1) by blast
next
  assume "confirm_at env p r s = (Inr r', s')"
  then obtain t where "an_board s' = an_board s" "rec_confirm_cancelled (ae_netloc env) (ae_casefold env) t p r = Inr r'"
    by (auto simp: confirm_at_def act_bind_Inr act_pure_Inr dest: read_clock_Inr)
  then show "settles env r r' \<and> lc_state r' = CANCELLED \<and> an_board s' = an_board s"
    using settles_by(3) ends_in(3) by blast
qed

lemma acts_at [intro, simp]: "acts q env s (fail_at env f p r s)" "acts q env s (confirm_at env p r s)"
  unfolding fail_at_def confirm_at_def by (rule acts_same; simp add: act_simps split: sum.split)+

section \<open>Settling a run and removing a tree\<close>

lemma acts_supersession [intro, simp]:
  assumes "ab_inv (an_board s)"
  shows "acts q env s (apply_success_supersession env r s)"
  unfolding apply_success_supersession_def
  by (intro acts_bind [OF acts_each] assms) (auto intro!: acts_clock)

lemma concordance_group_stored:
  assumes "ab_inv (an_board s)" "concordance_group (an_board s) child = Some parent"
  shows "stored (an_board s) parent" "lc_state parent = RUNNING" "rec_execution_scope parent = RunAll"
    "is_concordance_run_all (rec_request parent)" "rec_parent_analysis_id child = Some (rec_id parent)"
proof -
  obtain p where p: "rec_parent_analysis_id child = Some p" "map_of (ab_analyses (an_board s)) p = Some parent"
    "lc_state parent = RUNNING" "rec_execution_scope parent = RunAll" "is_concordance_run_all (rec_request parent)"
    using assms(2) by (auto simp: concordance_group_def split: option.splits if_splits Option.bind_splits)
  then have "stored (an_board s) parent \<and> rec_id parent = p" using stored_iff(2) [OF assms(1)] by blast
  with p show "stored (an_board s) parent" "lc_state parent = RUNNING" "rec_execution_scope parent = RunAll"
    "is_concordance_run_all (rec_request parent)" "rec_parent_analysis_id child = Some (rec_id parent)" by auto
qed

lemma group_terminal_settles:
  assumes "group_terminal env t parent children = Inr settled"
  shows "settles env parent settled" "lc_state settled \<in> {CANCELLED, FAILED, SUCCEEDED}"
proof -
  have "settles env parent settled \<and> lc_state settled \<in> {CANCELLED, FAILED, SUCCEEDED}"
  proof (cases "lc_cancellation_requested_at parent \<noteq> None \<or> (\<exists>item \<in> set children. lc_state item = CANCELLED)")
    case True
    then obtain parent' where p: "(if lc_cancellation_requested_at parent = None
        then rec_request_running_cancellation (ae_netloc env) (ae_casefold env) t parent else Inr parent) = Inr parent'"
      "rec_confirm_cancelled (ae_netloc env) (ae_casefold env) t (lc_progress parent') parent' = Inr settled"
      using assms by (auto simp: group_terminal_def Let_def bind_result_Inr_iff)
    have "settles env parent parent'" using p(1) settles_by(5) by (auto split: if_splits)
    with settles_by(3) [OF p(2)] ends_in(3) [OF p(2)] show ?thesis by (auto intro: rtranclp_trans)
  next
    case F: False
    show ?thesis
    proof (cases "\<exists>item \<in> set children. lc_state item = FAILED")
      case True
      with F assms show ?thesis unfolding group_terminal_def Let_def
        by (auto dest: settles_by(1) ends_in(1))
    next
      case False
      with F assms show ?thesis unfolding group_terminal_def Let_def
        by (auto simp: bind_result_Inr_iff dest: settles_by(4) ends_in(4))
    qed
  qed
  then show "settles env parent settled" "lc_state settled \<in> {CANCELLED, FAILED, SUCCEEDED}" by auto
qed

lemma acts_finalize [intro, simp]:
  assumes "ab_inv (an_board s)"
  shows "acts q env s (finalize_concordance_group env child s)"
proof (cases "concordance_group (an_board s) child")
  case (Some parent)
  note g = concordance_group_stored [OF assms Some]
  have "acts q env s (act_bind (read_clock env) (\<lambda>t.
      act_bind (act_pure (group_terminal env t parent (analysis_children (rec_id parent) (an_board s)))) (\<lambda>settled.
        act_bind (put_analysis settled) (\<lambda>_.
          act_bind (if lc_state settled = SUCCEEDED then apply_success_supersession env settled
              else act_pure (Inr ())) (\<lambda>_. pop_live (rec_id parent))))) s)"
    using g(1) assms group_terminal_settles(1)
    by (intro acts_clock [OF assms] acts_pure_bind acts_put_bind [where r = parent] acts_bind [where m = "if _ then _ else _"])
      auto
  then show ?thesis by (simp add: finalize_concordance_group_def Some Let_def)
qed (simp add: finalize_concordance_group_def)

lemma acts_remove_tree [intro, simp]:
  "acts q env s (remove_terminal_detached_tree i s)" "acts q env s (remove_if_detached r s)"
  by (auto simp: remove_terminal_detached_tree_def remove_if_detached_def split: option.split)

lemma acts_conclude:
  assumes "ab_inv (an_board s)" "stored (an_board s) r" "settles env r settled"
  shows "acts q env s (conclude env settled s)" "acts q env s (conclude_unstarted env settled s)"
proof -
  show "acts q env s (conclude_unstarted env settled s)"
    unfolding conclude_unstarted_def
    by (rule acts_put_bind [OF assms], rule acts_bind, simp_all)
  have "acts q env s' (act_bind (pop_live (rec_id settled)) (\<lambda>_. remove_if_detached settled) s')"
    if "ab_inv (an_board s')" for s' :: "'a analyses"
    by (rule acts_bind) (simp_all add: that)
  then show "acts q env s (conclude env settled s)"
    unfolding conclude_def by (intro acts_put_bind [OF assms], intro acts_bind) simp_all
qed

section \<open>The callbacks\<close>

lemma stored_of: "ab_inv (an_board s) \<Longrightarrow> map_of (ab_analyses (an_board s)) i = Some r \<Longrightarrow> stored (an_board s) r"
  using stored_iff(2) by blast

lemma acts_fail [intro]:
  assumes inv: "ab_inv (an_board s)"
  shows "acts q env s (fail_body env failure i s)"
proof (cases "map_of (ab_analyses (an_board s)) i")
  case (Some r)
  have "acts q env s (act_bind (fail_at env failure (current_progress s r) r) (conclude env) s)"
    by (intro acts_bind acts_at inv) (use settles_at(1) stored_of [OF inv Some] acts_conclude(1) in metis)
  then show ?thesis by (simp add: fail_body_def Some)
qed (simp add: fail_body_def)

lemma acts_confirm [intro]:
  assumes inv: "ab_inv (an_board s)"
  shows "acts q env s (confirm_body env i s)"
proof (cases "map_of (ab_analyses (an_board s)) i")
  case (Some r)
  have "acts q env s (act_bind (confirm_at env (current_progress s r) r) (conclude env) s)"
    by (intro acts_bind acts_at inv) (use settles_at(2) stored_of [OF inv Some] acts_conclude(1) in metis)
  then show ?thesis by (simp add: confirm_body_def Some)
qed (simp add: confirm_body_def)

lemma acts_interrupt [intro]:
  assumes inv: "ab_inv (an_board s)"
  shows "acts q env s (interrupt_body env i s)" "acts q env s (interrupt_queued_body env i s)"
proof -
  show "acts q env s (interrupt_body env i s)"
  proof (cases "map_of (ab_analyses (an_board s)) i")
    case (Some r)
    let ?settle = "if lc_state r = RUNNING \<and> lc_cancellation_requested_at r \<noteq> None
      then confirm_at env (current_progress s r) r else fail_at env interrupted (current_progress s r) r"
    have "acts q env s' (conclude env r' s')" if *: "?settle s = (Inr r', s')" for r' s'
    proof -
      have "settles env r r' \<and> an_board s' = an_board s"
      proof (cases "lc_state r = RUNNING \<and> lc_cancellation_requested_at r \<noteq> None")
        case True
        then have "confirm_at env (current_progress s r) r s = (Inr r', s')" using * by simp
        from settles_at(2) [OF this] show ?thesis by simp
      next
        case False
        then have "fail_at env interrupted (current_progress s r) r s = (Inr r', s')" using * by (simp only: if_False)
        from settles_at(1) [OF this] show ?thesis by simp
      qed
      then show ?thesis using stored_of [OF inv Some] inv by (intro acts_conclude(1) [of _ r]) simp_all
    qed
    then have "acts q env s (act_bind ?settle (conclude env) s)" by (intro acts_bind inv) auto
    then show ?thesis by (simp add: interrupt_body_def Some)
  qed (simp add: interrupt_body_def)
  show "acts q env s (interrupt_queued_body env i s)"
  proof (cases "map_of (ab_analyses (an_board s)) i")
    case (Some r)
    have "acts q env s (act_bind (fail_at env interrupted (lc_progress r) r) (conclude_unstarted env) s)"
      by (intro acts_bind acts_at inv) (use settles_at(1) stored_of [OF inv Some] acts_conclude(2) in metis)
    then show ?thesis by (simp add: interrupt_queued_body_def Some)
  qed (simp add: interrupt_queued_body_def)
qed

text \<open>A publication may change the rest of the Workspace, but not its Tabs and Analyses.\<close>

definition board_kept :: "(analysis_record \<Rightarrow> 'p workspace \<Rightarrow> published_result result \<times> 'p workspace) \<Rightarrow> bool" where
  "board_kept producer \<longleftrightarrow> (\<forall>r w. wk_board (snd (producer r w)) = wk_board w)"

lemma publish_and_succeed_frame:
  assumes "board_kept producer"
  shows "an_board (snd (publish_and_succeed env producer r s)) = an_board s"
    "publish_and_succeed env producer r s = (Inr settled, s') \<Longrightarrow> settles env r settled \<and> lc_state settled = SUCCEEDED"
proof -
  obtain x w where p: "producer r (an_workspace s) = (x, w)" by (cases "producer r (an_workspace s)")
  then have w: "wk_board w = an_board s" using assms by (metis board_kept_def snd_conv)
  show "an_board (snd (publish_and_succeed env producer r s)) = an_board s"
    using p w by (cases x) (simp_all add: publish_and_succeed_def act_simps split: sum.split)
  show "settles env r settled \<and> lc_state settled = SUCCEEDED"
    if "publish_and_succeed env producer r s = (Inr settled, s')"
  proof (cases x)
    case (Inr y)
    from that obtain t where "rec_succeed (ae_netloc env) (ae_casefold env) t (pr_payload y) (pr_artifacts y)
        (pr_output_node_ids y) (pr_query_snapshot y) r = Inr settled"
      using p Inr by (auto simp: publish_and_succeed_def act_bind_Inr act_pure_Inr)
    then show ?thesis using settles_by(4) ends_in(4) by blast
  qed (use that p in \<open>simp add: publish_and_succeed_def\<close>)
qed

lemma complete_terminal_frame:
  assumes "board_kept producer"
  shows "an_board (snd (complete_terminal env producer r s)) = an_board s"
    "complete_terminal env producer r s = (Inr settled, s') \<Longrightarrow>
       settles env r settled \<and> lc_state settled \<in> {SUCCEEDED, FAILED, CANCELLED}"
proof -
  have at: "an_board (snd (fail_at env f p r s1)) = an_board s1" "an_board (snd (confirm_at env p r s1)) = an_board s1"
    for f p and s1 :: "'a analyses"
    by (simp_all add: fail_at_def confirm_at_def act_simps split: sum.split)
  note pub = publish_and_succeed_frame [OF assms]
  obtain x s1 where x: "publish_and_succeed env producer r s = (x, s1)" by (cases "publish_and_succeed env producer r s")
  then have s1: "an_board s1 = an_board s" using pub(1) by (metis snd_conv)
  show "an_board (snd (complete_terminal env producer r s)) = an_board s"
    using x s1 by (auto simp: complete_terminal_def Let_def at split: sum.split)
  show "settles env r settled \<and> lc_state settled \<in> {SUCCEEDED, FAILED, CANCELLED}"
    if "complete_terminal env producer r s = (Inr settled, s')"
    using that x unfolding complete_terminal_def Let_def
    by (auto split: if_splits sum.splits dest: settles_at pub(2))
qed

lemma acts_complete:
  assumes inv: "ab_inv (an_board s)" and kept: "board_kept producer"
  shows "acts q env s (complete_body env producer i s)"
proof (cases "map_of (ab_analyses (an_board s)) i")
  case (Some r)
  note ct = complete_terminal_frame [OF kept]
  have rest: "acts q env s2 (act_bind (if lc_state settled = SUCCEEDED then apply_success_supersession env settled
        else act_pure (Inr ())) (\<lambda>_.
      act_bind (if rec_execution_scope settled = Supporting \<and> is_concordance_run_all (rec_request settled)
          then finalize_concordance_group env settled else act_pure (Inr ())) (\<lambda>_.
        act_bind (pop_live i) (\<lambda>_. act_bind (remove_terminal_detached_tree root_id) (\<lambda>_.
          act_pure (Inr (Some (lc_state settled))))))) s2)"
    if inv2: "ab_inv (an_board s2)" for s2 :: "'a analyses" and settled root_id
  proof -
    have last: "acts q env s3 (act_bind (pop_live i) (\<lambda>_. act_bind (remove_terminal_detached_tree root_id) (\<lambda>_.
        act_pure (Inr (Some (lc_state settled))))) s3)" if "ab_inv (an_board s3)" for s3 :: "'a analyses"
      by (rule acts_bind, simp, rule that, rule acts_bind) simp_all
    show ?thesis
      by (rule acts_bind, simp add: inv2, rule inv2, rule acts_bind) (simp_all add: last)
  qed
  have "acts q env s (act_bind (complete_terminal env producer r) (\<lambda>settled.
      act_bind (put_analysis settled) (\<lambda>_. act_bind (if lc_state settled = SUCCEEDED
          then apply_success_supersession env settled else act_pure (Inr ())) (\<lambda>_.
        act_bind (if rec_execution_scope settled = Supporting \<and> is_concordance_run_all (rec_request settled)
            then finalize_concordance_group env settled else act_pure (Inr ())) (\<lambda>_.
          act_bind (pop_live i) (\<lambda>_. act_bind (remove_terminal_detached_tree (detached_root_id (an_board s) r)) (\<lambda>_.
            act_pure (Inr (Some (lc_state settled))))))))) s)"
  proof (rule acts_bind [OF acts_same inv])
    show "an_board (snd (complete_terminal env producer r s)) = an_board s" by (rule ct(1))
    fix settled s1
    assume c: "complete_terminal env producer r s = (Inr settled, s1)" and inv1: "ab_inv (an_board s1)"
    have "an_board s1 = an_board s" using ct(1) [of env r s] by (simp add: c)
    then have st: "stored (an_board s1) r" using stored_of [OF inv Some] by simp
    show "acts q env s1 (act_bind (put_analysis settled) (\<lambda>_. act_bind (if lc_state settled = SUCCEEDED
          then apply_success_supersession env settled else act_pure (Inr ())) (\<lambda>_.
        act_bind (if rec_execution_scope settled = Supporting \<and> is_concordance_run_all (rec_request settled)
            then finalize_concordance_group env settled else act_pure (Inr ())) (\<lambda>_.
          act_bind (pop_live i) (\<lambda>_. act_bind (remove_terminal_detached_tree (detached_root_id (an_board s) r)) (\<lambda>_.
            act_pure (Inr (Some (lc_state settled)))))))) s1)"
      by (rule acts_put_bind [OF inv1 st conjunct1 [OF ct(2) [OF c]] rest])
  qed
  then show ?thesis by (simp add: complete_body_def Some Let_def)
qed (simp add: complete_body_def)

lemma set_live_board [simp]: "an_board (set_live i p s) = an_board s"
  by (simp add: set_live_def)

lemma acts_report:
  assumes inv: "ab_inv (an_board s)"
  shows "acts q env s (report_body env payload i s)"
proof (cases "map_of (ab_analyses (an_board s)) i")
  case (Some r)
  let ?f = "\<lparr>fl_code = ''progress_invalid'', fl_message = ''Analysis reported invalid progress''\<rparr>"
  have "acts q env s (act_bind (fail_at env ?f (current_progress s r) r) (\<lambda>failed.
      act_bind (put_analysis failed) (\<lambda>_. act_bind (pop_live i) (\<lambda>_. act_pure (Inr (True, []))))) s)"
  proof (rule acts_bind)
    show "acts q env s (fail_at env ?f (current_progress s r) r s)" "ab_inv (an_board s)" by (simp_all add: inv)
    fix failed s1
    assume f: "fail_at env ?f (current_progress s r) r s = (Inr failed, s1)" and inv1: "ab_inv (an_board s1)"
    from settles_at(1) [OF f] stored_of [OF inv Some] have "stored (an_board s1) r" "settles env r failed" by simp_all
    then show "acts q env s1 (act_bind (put_analysis failed) (\<lambda>_. act_bind (pop_live i) (\<lambda>_. act_pure (Inr (True, [])))) s1)"
      by (rule acts_put_bind [OF inv1]) (rule acts_then_pure, simp_all)
  qed
  then show ?thesis
    by (auto simp: report_body_def Some Let_def no_commit_def acts_same split: sum.split option.split)
qed (simp add: report_body_def)

lemma acts_remove_unscheduled:
  assumes "ab_inv (an_board s)"
  shows "acts q env s (remove_unscheduled_body env i s)"
proof (cases "map_of (ab_analyses (an_board s)) i")
  case (Some r)
  have "acts q env s (act_bind (if map_of (ab_tabs (an_board s)) (rec_tab_id r) \<noteq> None
      then act_bind (read_clock env) (\<lambda>t. change_tab (rec_tab_id r) (touched t)) else act_pure (Inr ())) (\<lambda>_.
        act_bind (drop_tree i) (\<lambda>_. pop_live i)) s)"
    using assms by (intro acts_bind [OF acts_if] acts_clock) (auto intro!: acts_bind)
  then show ?thesis by (simp add: remove_unscheduled_body_def Some)
qed (simp add: remove_unscheduled_body_def)

lemma discard_launch_board [simp]: "an_board (discard_launch i s) = an_board s"
  by (simp add: discard_launch_def)

lemma acts_from: "an_board s1 = an_board s \<Longrightarrow> acts q env s1 out \<Longrightarrow> acts q env s out"
  by (simp add: acts_def)

lemma acts_fail_unstarted:
  assumes inv: "ab_inv (an_board s)" and st: "stored (an_board s) r"
  shows "acts q env s (fail_unstarted env failure r s)"
  unfolding fail_unstarted_def
proof (rule acts_clock [OF inv], rule acts_pure_bind)
  fix t s1 failed
  assume b: "an_board s1 = an_board s"
    and f: "rec_fail (ae_netloc env) (ae_casefold env) t failure (lc_progress r) r = Inr failed"
  have inv1: "ab_inv (an_board s1)" and st1: "stored (an_board s1) r" using inv st b by simp_all
  show "acts q env s1 (act_bind (conclude_unstarted env failed) (\<lambda>_. act_pure (Inr None)) s1)"
    by (rule acts_then_pure, rule acts_conclude(2) [OF inv1 st1 settles_by(1) [OF f]], rule inv1)
qed

lemma acts_admit_body:
  assumes inv: "ab_inv (an_board s)"
  shows "acts False env s (admit_body env shut prepare i s)"
proof (cases "map_of (ab_analyses (an_board s)) i")
  case (Some r)
  note st = stored_of [OF inv Some]
  note fails = acts_fail_unstarted [OF inv st, of False env]
  let ?start = "act_bind (read_clock env) (\<lambda>t.
    act_bind (act_pure (rec_start (ae_netloc env) (ae_casefold env) t r)) put_analysis)"
  have start: "acts False env s1 (?start s1)" and kept: "fst (?start s1) = Inl e \<Longrightarrow> an_board (snd (?start s1)) = an_board s1"
    if "an_board s1 = an_board s" for s1 e
  proof -
    show "acts False env s1 (?start s1)"
      by (rule acts_clock, simp add: inv that, rule acts_pure_bind, rule acts_put_started) (simp_all add: st that)
    show "an_board (snd (?start s1)) = an_board s1" if "fst (?start s1) = Inl e"
      using that by (auto simp: act_simps put_analysis_def replace_analysis_def split: sum.splits option.splits if_splits)
  qed
  have launch: "an_board (snd (reserve_launch shut i s)) = an_board s" by (simp add: reserve_launch_def)
  show ?thesis
  proof (cases "lc_state r \<noteq> QUEUED \<or> missing_input_ids s (rec_request r) \<noteq> [] \<or> (\<exists>e. prepare r = Inl e)")
    case True
    then show ?thesis using fails by (auto simp: admit_body_def Some)
  next
    case False
    then obtain invocation where p: "prepare r = Inr invocation" by (cases "prepare r") auto
    obtain x s1 where x: "reserve_launch shut i s = (x, s1)" by (cases "reserve_launch shut i s")
    have s1: "an_board s1 = an_board s" using launch by (simp add: x)
    obtain y s2 where y: "?start s1 = (y, s2)" by (cases "?start s1")
    have m: "admit_body env shut prepare i s = (case x of Inl exc \<Rightarrow> fail_unstarted env (start_failure exc) r s1
        | Inr _ \<Rightarrow> (case (y, s2) of (Inl e, s2) \<Rightarrow> fail_unstarted env (start_failure None) r (discard_launch i s2)
            | (Inr _, s2) \<Rightarrow> (Inr (Some invocation), s2)))"
      using False unfolding admit_body_def Some option.case x y [symmetric] by (auto simp: p x split: sum.split)
    show ?thesis
    proof (cases x)
      case (Inl e)
      show ?thesis unfolding m Inl sum.case
        by (rule acts_from [OF s1]) (rule acts_fail_unstarted, simp_all add: inv st s1)
    next
      case (Inr u)
      show ?thesis
      proof (cases y)
        case (Inl e)
        then have s2: "an_board (discard_launch i s2) = an_board s" using kept [OF s1, of e] by (simp add: y s1)
        show ?thesis unfolding m Inr Inl sum.case prod.case
          by (rule acts_from [OF s2]) (rule acts_fail_unstarted, simp_all only: inv st s2)
      next
        case (Inr v)
        have "acts False env s (Inr (Some invocation), s2)"
          using start [OF s1] unfolding y acts_def by (simp add: s1)
        then show ?thesis unfolding m \<open>x = Inr u\<close> Inr sum.case prod.case .
      qed
    qed
  qed
qed (simp add: admit_body_def)

section \<open>Cancelling and detaching\<close>

lemma put_keeps:
  "stored (an_board s) m \<Longrightarrow> rec_id m \<noteq> rec_id r \<Longrightarrow> stored (an_board (snd (put_analysis r s))) m"
  using replaced_map(3) [of r "an_board s" "rec_id m"] by auto

text \<open>A loop over members, each step of which touches its own member only.\<close>

definition touches :: "analysis_env \<Rightarrow> uuid \<Rightarrow> 'p analyses \<Rightarrow> 'a result \<times> 'p analyses \<Rightarrow> bool" where
  "touches env i s out \<longleftrightarrow> acts True env s out \<and>
     (\<forall>q. stored (an_board s) q \<longrightarrow> rec_id q \<noteq> i \<longrightarrow> stored (an_board (snd out)) q)"

lemma touches_id: "settles env r r' \<Longrightarrow> rec_id r' = rec_id r"
  using quiet_transitions_keep(1) .

lemma acts_quiet: "acts True env s out \<Longrightarrow> acts q env s out"
  by (cases q) (metis acts_loud)+

lemma touches_put:
  assumes "ab_inv (an_board s)" "stored (an_board s) m" "\<And>u. r = Inr u \<Longrightarrow> settles env m u"
  shows "touches env (rec_id m) s (act_bind (act_pure r) (\<lambda>u. act_bind (put_analysis u) (\<lambda>_. act_pure (g u))) s)"
proof (cases r)
  case (Inr u)
  have "snd (act_bind (act_pure r) (\<lambda>u. act_bind (put_analysis u) (\<lambda>_. act_pure (g u))) s) = snd (put_analysis u s)"
    by (simp add: Inr act_bind_def act_pure_def split: prod.split sum.split)
  moreover have "acts True env s (put_analysis u s)" by (rule acts_put [OF assms(2) assms(3) [OF Inr]])
  ultimately show ?thesis
    using put_keeps touches_id [OF assms(3) [OF Inr]] unfolding touches_def acts_def by metis
qed (simp add: touches_def acts_def act_bind_def act_pure_def)

lemma touches_bind_members:
  assumes "ab_inv (an_board s)" "\<forall>q \<in> set (m # ms). stored (an_board s) q" "distinct (map rec_id (m # ms))"
    and "touches env (rec_id m) s (f s)"
    and "\<And>x s'. ab_inv (an_board s') \<Longrightarrow> \<forall>q \<in> set ms. stored (an_board s') q \<Longrightarrow> distinct (map rec_id ms) \<Longrightarrow>
      acts True env s' (g x s')"
  shows "acts True env s (act_bind f g s)"
proof (rule acts_bind [OF _ assms(1)])
  show "acts True env s (f s)" using assms(4) by (simp add: touches_def)
  fix x s'
  assume f: "f s = (Inr x, s')" and inv: "ab_inv (an_board s')"
  have "stored (an_board s') q" if "q \<in> set ms" for q
  proof -
    have "rec_id q \<noteq> rec_id m" using assms(3) that by (metis distinct.simps(2) image_eqI list.set_map list.simps(9))
    then show ?thesis using assms(2,4) that f by (auto simp: touches_def)
  qed
  then show "acts True env s' (g x s')" using assms(3) by (intro assms(5) [OF inv]) auto
qed

lemma cancel_member_touches:
  assumes "ab_inv (an_board s)" "stored (an_board s) m"
  shows "touches env (rec_id m) s (cancel_member env t i m cg s)"
proof -
  have "touches env (rec_id m) s (act_pure x s)" for x :: "cancelling result" by (simp add: touches_def act_pure_def)
  then show ?thesis
    unfolding cancel_member_def Let_def by (auto intro!: touches_put [OF assms] dest: settles_by(2,5))
qed

lemma acts_cancel_members:
  assumes "ab_inv (an_board s)" "\<forall>m \<in> set ms. stored (an_board s) m" "distinct (map rec_id ms)"
  shows "acts True env s (cancel_members env t i ms cg s)"
  using assms
proof (induction ms arbitrary: cg s)
  case (Cons m ms)
  show ?case unfolding cancel_members.simps
    by (rule touches_bind_members [OF Cons.prems], rule cancel_member_touches) (use Cons in auto)
qed simp

lemma acts_stop_members:
  assumes "ab_inv (an_board s)" "\<forall>m \<in> set ms. stored (an_board s) m" "distinct (map rec_id ms)"
  shows "acts True env s (stop_members env t ms s)"
  using assms
proof (induction ms arbitrary: s)
  case (Cons m ms)
  note rest = Cons.IH
  have st: "stored (an_board s) m" using Cons.prems(2) by simp
  let ?more = "act_bind (stop_members env t ms) (\<lambda>keys. act_pure (Inr (rec_id m # keys)))"
  have more: "acts True env s' (?more s')"
    if "ab_inv (an_board s')" "\<forall>q \<in> set ms. stored (an_board s') q" "distinct (map rec_id ms)" for s' :: "'a analyses"
    by (rule acts_then_pure, rule rest [OF that], rule that(1))
  consider (queued) "lc_state m = QUEUED" | (running) "lc_state m = RUNNING" | (over) "lc_state m \<notin> {QUEUED, RUNNING}"
    by auto
  then show ?case
  proof cases
    case queued
    let ?r = "rec_cancel_queued (ae_netloc env) (ae_casefold env) t m"
    have "acts True env s (act_bind (act_bind (act_pure ?r) (\<lambda>u. act_bind (put_analysis u) (\<lambda>_. act_pure (Inr ()))))
        (\<lambda>_. ?more) s)"
      by (rule touches_bind_members [OF Cons.prems], rule touches_put [OF Cons.prems(1) st settles_by(2)])
        (use more in auto)
    moreover have "act_bind (act_bind (act_pure ?r) (\<lambda>u. act_bind (put_analysis u) (\<lambda>_. act_pure (Inr ())))) (\<lambda>_. ?more) s =
        stop_members env t (m # ms) s"
      using queued by (simp add: act_bind_def act_pure_def split: prod.split sum.split)
    ultimately show ?thesis by simp
  next
    case running
    let ?r = "rec_request_running_cancellation (ae_netloc env) (ae_casefold env) t m"
    let ?m = "if lc_cancellation_requested_at m = None then act_bind (act_pure ?r) put_analysis else act_pure (Inr ())"
    have put: "act_bind (act_pure ?r) put_analysis s =
        act_bind (act_pure ?r) (\<lambda>u. act_bind (put_analysis u) (\<lambda>_. act_pure (Inr ()))) s"
      by (auto simp: act_bind_def act_pure_def split: prod.split sum.split)
    have "touches env (rec_id m) s (?m s)"
    proof (cases "lc_cancellation_requested_at m = None")
      case True
      have "touches env (rec_id m) s (act_bind (act_pure ?r) put_analysis s)"
        unfolding put by (rule touches_put [OF Cons.prems(1) st settles_by(5)])
      then show ?thesis unfolding if_P [OF True] .
    qed (auto simp: touches_def act_pure_def)
    then have "acts True env s (act_bind ?m (\<lambda>_. ?more) s)"
      by (rule touches_bind_members [OF Cons.prems]) (use more in auto)
    then show ?thesis using running by simp
  next
    case over
    then show ?thesis using rest Cons.prems by simp
  qed
qed simp

lemma tree_members:
  assumes "ab_inv (an_board s)"
  shows "\<forall>m \<in> set (analysis_tree (an_board s) i). stored (an_board s) m"
    "distinct (map rec_id (analysis_tree (an_board s) i))"
proof -
  have "(\<forall>m \<in> set (analysis_tree (an_board s) i). stored (an_board s) m) \<and>
    distinct (map rec_id (analysis_tree (an_board s) i))"
  proof (cases "map_of (ab_analyses (an_board s)) i")
    case (Some r)
    then have "rec_id r = i" using stored_iff(2) [OF assms] by blast
    with analysis_tree_facts(2,3) [OF assms stored_of [OF assms Some]] show ?thesis by auto
  qed (simp add: analysis_tree_def)
  then show "\<forall>m \<in> set (analysis_tree (an_board s) i). stored (an_board s) m"
    "distinct (map rec_id (analysis_tree (an_board s) i))" by blast+
qed

lemma acts_view [simp]: "acts q env s (cancel_view env r pending keys s)"
  by (rule acts_same) (simp add: cancel_view_def act_simps split: sum.split)

lemma acts_cancel:
  assumes inv: "ab_inv (an_board s)"
  shows "acts q env s (cancel_body env i s)"
proof (cases "require_live_record (an_board s) i")
  case (Inr r)
  have members: "acts q env s1 (act_bind (cancel_members env t i (analysis_tree (an_board s1) i)
          \<lparr>cg_record = r, cg_updated = [], cg_keys = [], cg_pending = False\<rparr>) (\<lambda>cg.
        act_bind (act_each (finalize_concordance_group env) (cg_updated cg)) (\<lambda>_.
          cancel_view env (cg_record cg) (cg_pending cg) (cg_keys cg))) s1)"
    if inv1: "ab_inv (an_board s1)" for t and s1 :: "'a analyses"
    by (rule acts_bind, rule acts_quiet, rule acts_cancel_members [OF inv1 tree_members [OF inv1]], rule inv1,
        rule acts_bind, rule acts_each) simp_all
  have "acts q env s (act_bind (read_clock env) (\<lambda>t s1. act_bind (cancel_members env t i
          (analysis_tree (an_board s1) i) \<lparr>cg_record = r, cg_updated = [], cg_keys = [], cg_pending = False\<rparr>) (\<lambda>cg.
        act_bind (act_each (finalize_concordance_group env) (cg_updated cg)) (\<lambda>_.
          cancel_view env (cg_record cg) (cg_pending cg) (cg_keys cg))) s1) s)"
    by (rule acts_clock [OF inv], rule members) (simp add: inv)
  moreover have "acts q env s (act_bind (no_commit ()) (\<lambda>_. cancel_view env r False []) s)"
    by (rule acts_bind) (simp_all add: inv)
  ultimately show ?thesis by (simp add: cancel_body_def Inr)
qed (simp add: cancel_body_def)

lemma acts_detach:
  assumes inv: "ab_inv (an_board s)"
  shows "acts q env s (detach_analysis_tree env t i s)"
proof -
  have "acts q env s (act_bind (stop_members env t (analysis_tree (an_board s) i)) (\<lambda>keys.
      act_bind (if \<exists>r \<in> set (analysis_tree (an_board s) i). lc_state r = RUNNING then act_pure (Inr ()) else drop_tree i)
        (\<lambda>_. act_pure (Inr keys))) s)"
    by (rule acts_bind, rule acts_quiet, rule acts_stop_members [OF inv tree_members [OF inv]], rule inv,
        rule acts_then_pure) simp_all
  moreover have "acts q env s (act_bind (drop_tree i) (\<lambda>_. act_pure (Inr ([] :: uuid list))) s)"
    by (rule acts_then_pure, rule acts_drop, rule inv)
  ultimately show ?thesis by (simp add: detach_analysis_tree_def Let_def)
qed

lemma acts_detach_trees:
  "ab_inv (an_board s) \<Longrightarrow> acts q env s (detach_trees env t is s)"
proof (induction "is" arbitrary: s)
  case (Cons i "is")
  show ?case unfolding detach_trees.simps
    by (rule acts_bind, rule acts_detach [OF Cons.prems], rule Cons.prems, rule acts_then_pure, rule Cons.IH)
qed simp

lemma acts_clear:
  assumes inv: "ab_inv (an_board s)"
  shows "acts q env s (clear_body env tid s)"
proof -
  have "acts q env s1 (act_bind (change_tab tid (\<lambda>tab. touched t (tab\<lparr>tab_analysis_ids := []\<rparr>))) (\<lambda>_.
      detach_trees env t ids) s1)" if "ab_inv (an_board s1)" for t ids and s1 :: "'a analyses"
    by (rule acts_bind, rule acts_empty_tab, rule that, rule acts_detach_trees)
  then show ?thesis using inv by (auto simp: clear_body_def Let_def intro!: acts_clock split: option.split)
qed

lemma acts_delete_tab:
  assumes inv: "ab_inv (an_board s)"
  shows "acts q env s (delete_tab_body env tid s)"
  unfolding delete_tab_body_def
proof (rule acts_bind)
  show "ab_inv (an_board s)" by (rule inv)
  have "an_board (snd (on_board (\<lambda>b. case remove_tab tid b of (found, b') \<Rightarrow> (Inr found, b')) s)) =
      snd (remove_tab tid (an_board s))"
    by (simp add: on_board_def remove_tab_def)
  then show "acts q env s (on_board (\<lambda>b. case remove_tab tid b of (found, b') \<Rightarrow> (Inr found, b')) s)"
    by (intro acts_move) (simp add: board_move.remove_tab)
qed (auto simp: Let_def intro!: acts_clock acts_detach_trees split: option.split)

section \<open>Submitting\<close>

lemma acts_add:
  assumes "rec_create (ae_netloc env) (ae_casefold env) request tid scope t parent supersedes i = Inr r"
    and "r' = r \<or> rec_start (ae_netloc env) (ae_casefold env) t r = Inr r'"
    and "scope = Supporting \<or> (\<forall>j. \<not> main_active (an_board s) tid j)"
  shows "acts False env s (add_record r' s)"
proof (rule acts_move)
  have "an_board (snd (add_record r' s)) = snd (add_analysis r' True (an_board s))"
    by (simp add: add_record_def act_simps split: prod.split sum.split)
  then show "board_move False (ae_netloc env) (ae_casefold env) (an_board s) (an_board (snd (add_record r' s)))"
    using board_move.add [where quiet = False, OF _ assms] by simp
qed

lemma acts_add_children:
  "ab_inv (an_board s) \<Longrightarrow> acts False env s (add_children env t tid parent r sources s)"
proof (induction sources arbitrary: s)
  case (Cons source sources)
  obtain node i where x: "source = (node, i)" by (cases source)
  show ?case unfolding x add_children.simps
  proof (rule acts_pure_bind)
    fix child
    assume "bind_result (child_request r node) (\<lambda>request. rec_create (ae_netloc env) (ae_casefold env) request tid
      Supporting t (Some parent) [] i) = Inr child"
    then obtain request where c: "rec_create (ae_netloc env) (ae_casefold env) request tid Supporting t (Some parent) [] i =
        Inr child" unfolding bind_result_Inr_iff by blast
    show "acts False env s (act_bind (add_record child) (\<lambda>_. act_bind (add_children env t tid parent r sources)
        (\<lambda>children. act_pure (Inr (child # children)))) s)"
      by (rule acts_bind, rule acts_add [OF c], simp, simp, rule Cons.prems, rule acts_then_pure) (simp_all add: Cons.IH)
  qed
qed simp

lemma acts_create:
  assumes inv: "ab_inv (an_board s)"
    and main: "ac_execution_scope command = Supporting \<or> (\<forall>j. \<not> main_active (an_board s) tid j)"
  shows "acts False env s (create_submitted env i child_ids t key tid command request parent supersedes s)"
  unfolding create_submitted_def Let_def
proof (rule acts_pure_bind)
  let ?group = "group_request (ac_execution_scope command) request"
  fix r
  assume "bind_result (rec_create (ae_netloc env) (ae_casefold env) request tid (ac_execution_scope command) t parent
      supersedes i) (\<lambda>r. if ?group \<noteq> None then rec_start (ae_netloc env) (ae_casefold env) t r else Inr r) = Inr r"
  then obtain q where q: "rec_create (ae_netloc env) (ae_casefold env) request tid (ac_execution_scope command) t parent
      supersedes i = Inr q" "r = q \<or> rec_start (ae_netloc env) (ae_casefold env) t q = Inr r"
    unfolding bind_result_Inr_iff by (auto split: if_splits)
  have view: "acts False env s2 (act_bind (change_tab key (touched t)) (\<lambda>_ s. act_bind (act_pure (project env r s))
      (\<lambda>view. act_pure (Inr (view, r, scheduled))) s) s2)" if "ab_inv (an_board s2)" for s2 :: "'a analyses" and scheduled
    by (rule acts_bind, rule acts_touch, rule that, rule acts_pure_bind) simp
  have "acts False env s1 ((case ?group of None \<Rightarrow> act_pure (Inr [r])
      | Some source \<Rightarrow> add_children env t tid i source (zip (cc_node_ids source) child_ids)) s1)"
    if "ab_inv (an_board s1)" for s1 :: "'a analyses"
    using that by (simp add: acts_add_children split: option.split)
  then show "acts False env s (act_bind (add_record r) (\<lambda>_. act_bind (case ?group of None \<Rightarrow> act_pure (Inr [r])
        | Some source \<Rightarrow> add_children env t tid i source (zip (cc_node_ids source) child_ids)) (\<lambda>scheduled.
      act_bind (change_tab key (touched t)) (\<lambda>_ s. act_bind (act_pure (project env r s))
        (\<lambda>view. act_pure (Inr (view, r, scheduled))) s))) s)"
    using view by (intro acts_bind acts_add [OF q main] inv) auto
qed

lemma admit_submission_main:
  assumes "admit_submission s tid command request = Inr (tab, parent, supersedes)" "ab_inv (an_board s)"
  shows "ac_execution_scope command = Supporting \<or> (\<forall>j. \<not> main_active (an_board s) tid j)"
proof -
  have "list_all (\<lambda>(c, e). \<not> c) (submission_checks (an_board s) tid tab command request)"
    using assms(1) by (auto simp: admit_submission_def Let_def bind_result_Inr_iff raise_first_Inr_iff
        split: option.splits if_splits)
  then show ?thesis
    unfolding submission_checks_def main_active_def by (force dest: map_of_SomeD)
qed

lemma acts_submit:
  assumes inv: "ab_inv (an_board s)" and keyed: "tabs_keyed (an_board s)"
  shows "acts False env s (submit_body env i child_ids t tid command request s)"
proof (cases "admit_submission s tid command request")
  case (Inr a)
  obtain tab parent supersedes where a: "a = (tab, parent, supersedes)" by (cases a)
  have "map_of (ab_tabs (an_board s)) tid = Some tab"
    using Inr [unfolded a] by (auto simp: admit_submission_def Let_def bind_result_Inr_iff split: option.splits if_splits)
  then have key: "tab_id tab = tid" using keyed map_of_SomeD by (fastforce simp: tabs_keyed_def)
  note main = admit_submission_main [OF Inr [unfolded a] inv]
  let ?drop = "if tab_kind tab = KAnnotation then act_each drop_tree (tab_analysis_ids tab) else act_pure (Inr ())"
  have d: "acts True env s (?drop s)" using inv by (auto intro: acts_each)
  have "acts False env s (act_bind ?drop
      (\<lambda>_. create_submitted env i child_ids t tid (tab_id tab) command request parent supersedes) s)"
  proof (rule acts_bind)
    show "acts False env s (?drop s)" "ab_inv (an_board s)" using acts_quiet [OF d] inv by simp_all
    fix x s1
    assume "?drop s = (Inr x, s1)" and inv1: "ab_inv (an_board s1)"
    then have "(board_move True (ae_netloc env) (ae_casefold env))\<^sup>*\<^sup>* (an_board s) (an_board s1)"
      using d by (simp add: acts_def)
    from quiet_moves_main_active [OF this inv] main
    have "ac_execution_scope command = Supporting \<or> (\<forall>j. \<not> main_active (an_board s1) tid j)" by blast
    then show "acts False env s1 (create_submitted env i child_ids t tid (tab_id tab) command request parent supersedes s1)"
      unfolding key by (rule acts_create [OF inv1])
  qed
  then show ?thesis unfolding submit_body_def Inr a by simp
qed (simp add: submit_body_def)

end
