(* ===== verification/AnalysisRecovery.thy ===== *)
theory AnalysisRecovery
  imports AnalysisActs
begin

text \<open>
  The reconciliation at startup: every Analysis that was queued or running has lost its executor, and every tree
  without a Tab is garbage. The loops of \<open>reconcile_interrupted\<close> are shown to do what they are for.
\<close>

section \<open>Failing what was interrupted\<close>

lemma put_Inr:
  assumes "put_analysis r s = (Inr u, s')"
  shows "an_board s' = (an_board s)\<lparr>ab_analyses := AList.update (rec_id r) r (ab_analyses (an_board s))\<rparr>"
  using assms
  by (auto simp: put_analysis_def act_bind_Inr act_pure_Inr on_board_def replace_analysis_def
      split: option.splits if_splits)

lemma put_accepted:
  assumes "stored (an_board s) r" "rec_id r' = rec_id r" "rec_parent_analysis_id r' = rec_parent_analysis_id r"
    "rec_request r' = rec_request r"
  shows "\<exists>s'. put_analysis r' s = (Inr (), s')"
  using assms by (simp add: put_analysis_def act_simps replace_analysis_def)

definition failed_from :: "analysis_record \<Rightarrow> analysis_record \<Rightarrow> bool" where
  "failed_from r r' \<longleftrightarrow> lc_state r' = FAILED \<and> lc_error r' = Some interrupted \<and> rec_id r' = rec_id r"

lemma fail_interrupted_Inr:
  assumes "fail_interrupted env t r s = (Inr u, s')"
  shows "\<not> active r \<and> s' = s \<or> active r \<and> (\<exists>r'. failed_from r r' \<and> settles env r r' \<and>
    an_board s' = (an_board s)\<lparr>ab_analyses := AList.update (rec_id r) r' (ab_analyses (an_board s))\<rparr>)"
proof (cases "active r")
  case True
  with assms obtain r' where f: "rec_fail (ae_netloc env) (ae_casefold env) t interrupted (lc_progress r) r = Inr r'"
    and p: "put_analysis r' s = (Inr u, s')"
    by (auto simp: fail_interrupted_def act_bind_Inr act_pure_Inr)
  have "lc_error r' = Some interrupted"
    using f by (auto simp: rec_fail_def rec_coerce_def split: if_splits elim!: rec_bumpD)
  then have "failed_from r r'" using ends_in(1) [OF f] touches_id [OF settles_by(1) [OF f]] by (simp add: failed_from_def)
  with settles_by(1) [OF f] put_Inr [OF p] True show ?thesis by (auto simp: failed_from_def)
qed (use assms in \<open>simp add: fail_interrupted_def act_pure_def\<close>)

lemma fail_interrupted_all:
  assumes "act_each (fail_interrupted env t) ms s = (Inr u, s')"
    and "\<forall>m \<in> set ms. stored (an_board s) m" "distinct (map rec_id ms)"
  shows "ab_tabs (an_board s') = ab_tabs (an_board s) \<and> ab_corrupt (an_board s') = ab_corrupt (an_board s) \<and>
    dict_keys (ab_analyses (an_board s')) = dict_keys (ab_analyses (an_board s)) \<and>
    (\<forall>i. i \<notin> rec_id ` set ms \<longrightarrow> map_of (ab_analyses (an_board s')) i = map_of (ab_analyses (an_board s)) i) \<and>
    (\<forall>m \<in> set ms. \<exists>r'. map_of (ab_analyses (an_board s')) (rec_id m) = Some r' \<and>
       (if active m then failed_from m r' else r' = m))"
  using assms
proof (induction ms arbitrary: s)
  case (Cons m ms)
  obtain x s1 where f: "fail_interrupted env t m s = (Inr x, s1)" and rest: "act_each (fail_interrupted env t) ms s1 = (Inr u, s')"
    using Cons.prems(1) by (auto simp: act_bind_Inr)
  have m: "stored (an_board s) m" using Cons.prems(2) by simp
  then have key: "rec_id m \<in> set (dict_keys (ab_analyses (an_board s)))" by (metis dict_keys_dom domI list.set_map)
  obtain r' where r': "if active m then failed_from m r' else r' = m"
    and same: "ab_tabs (an_board s1) = ab_tabs (an_board s)" "ab_corrupt (an_board s1) = ab_corrupt (an_board s)"
      "dict_keys (ab_analyses (an_board s1)) = dict_keys (ab_analyses (an_board s))"
    and map: "map_of (ab_analyses (an_board s1)) = (map_of (ab_analyses (an_board s)))(rec_id m \<mapsto> r')"
  proof -
    from fail_interrupted_Inr [OF f] show thesis
    proof
      assume "\<not> active m \<and> s1 = s"
      with m show thesis by (intro that [of m]) auto
    next
      assume "active m \<and> (\<exists>r'. failed_from m r' \<and> settles env m r' \<and>
        an_board s1 = (an_board s)\<lparr>ab_analyses := AList.update (rec_id m) r' (ab_analyses (an_board s))\<rparr>)"
      then obtain r' where r': "active m" "failed_from m r'"
        "an_board s1 = (an_board s)\<lparr>ab_analyses := AList.update (rec_id m) r' (ab_analyses (an_board s))\<rparr>" by blast
      have "dict_keys (AList.update (rec_id m) r' (ab_analyses (an_board s))) = dict_keys (ab_analyses (an_board s))"
        by (simp only: update_keys key if_True)
      with r' show thesis by (intro that [of r']) (simp_all add: update_conv')
    qed
  qed
  have others: "rec_id q \<noteq> rec_id m" if "q \<in> set ms" for q
    using Cons.prems(3) that by (metis distinct.simps(2) image_eqI list.set_map list.simps(9))
  have "\<forall>q \<in> set ms. stored (an_board s1) q" using Cons.prems(2) others unfolding map by simp
  from Cons.IH [OF rest this] Cons.prems(3)
  have ih: "ab_tabs (an_board s') = ab_tabs (an_board s1) \<and> ab_corrupt (an_board s') = ab_corrupt (an_board s1) \<and>
    dict_keys (ab_analyses (an_board s')) = dict_keys (ab_analyses (an_board s1))"
    "\<And>i. i \<notin> rec_id ` set ms \<Longrightarrow> map_of (ab_analyses (an_board s')) i = map_of (ab_analyses (an_board s1)) i"
    "\<And>q. q \<in> set ms \<Longrightarrow> \<exists>r'. map_of (ab_analyses (an_board s')) (rec_id q) = Some r' \<and>
       (if active q then failed_from q r' else r' = q)"
    by (simp_all del: fun_upd_apply)
  have "rec_id m \<notin> rec_id ` set ms" using Cons.prems(3) by simp
  from ih(2) [OF this] have "map_of (ab_analyses (an_board s')) (rec_id m) = Some r'" by (simp add: map)
  with r' ih same show ?case by (auto simp: map)
qed (simp add: act_pure_def)

lemma fail_interrupted_accepted:
  assumes "rec_validate (ae_netloc env) (ae_casefold env) r = Inr r" "active r" "rec_now t r"
  shows "\<exists>r'. rec_fail (ae_netloc env) (ae_casefold env) t interrupted (lc_progress r) r = Inr r' \<and>
    rec_id r' = rec_id r \<and> rec_parent_analysis_id r' = rec_parent_analysis_id r \<and> rec_request r' = rec_request r"
proof -
  have ok: "rec_ok r" using assms(1) unfolding rec_validate_Inr_iff by blast
  have st: "lc_state r \<in> {QUEUED, RUNNING}" using assms(2) by (simp add: active_def)
  have "progress_ok (lc_progress r)" using ok by (simp add: rec_ok_def rec_checks_def rec_field_check_def)
  then have "rec_open_progress (lc_progress r)"
    using st rec_okD(6) [OF ok] by (auto simp: rec_open_progress_def)
  moreover have "failure_ok interrupted" by code_simp
  ultimately have ok': "rec_ok (rec_coerce (r\<lparr>lc_state := FAILED, lc_progress := lc_progress r, lc_error := Some interrupted,
      lc_finished_at := Some t, lc_revision := lc_revision r + 1\<rparr>))"
    by (rule rec_ok_active(5) [OF ok st assms(3)])
  let ?ch = "\<lambda>q. q\<lparr>lc_state := FAILED, lc_progress := lc_progress r, lc_error := Some interrupted, lc_finished_at := Some t\<rparr>"
  have "rec_bump (ae_netloc env) (ae_casefold env) ?ch r = Inr (rec_coerce ((?ch r)\<lparr>lc_revision := lc_revision r + 1\<rparr>))"
    by (rule rec_bump_accepted [OF assms(1)], simp, rule ok')
  then have "rec_fail (ae_netloc env) (ae_casefold env) t interrupted (lc_progress r) r =
      Inr (rec_coerce ((?ch r)\<lparr>lc_revision := lc_revision r + 1\<rparr>))"
    using st unfolding rec_fail_def by (simp only: not_True_eq_False if_False)
  then show ?thesis by (intro exI conjI) (assumption | simp)+
qed

lemma fail_interrupted_all_accepted:
  assumes "\<forall>m \<in> set ms. stored (an_board s) m \<and> rec_validate (ae_netloc env) (ae_casefold env) m = Inr m \<and>
      (active m \<longrightarrow> rec_now t m)" "distinct (map rec_id ms)"
  shows "\<exists>s'. act_each (fail_interrupted env t) ms s = (Inr (), s')"
  using assms
proof (induction ms arbitrary: s)
  case (Cons m ms)
  have m: "stored (an_board s) m" "rec_validate (ae_netloc env) (ae_casefold env) m = Inr m" "active m \<Longrightarrow> rec_now t m"
    using Cons.prems(1) by simp_all
  obtain s1 where f: "fail_interrupted env t m s = (Inr (), s1)"
  proof (cases "active m")
    case True
    from fail_interrupted_accepted [OF m(2) True m(3) [OF True]] obtain r' where r':
      "rec_fail (ae_netloc env) (ae_casefold env) t interrupted (lc_progress m) m = Inr r'" "rec_id r' = rec_id m"
      "rec_parent_analysis_id r' = rec_parent_analysis_id m" "rec_request r' = rec_request m" by blast
    from put_accepted [OF m(1) r'(2-4)] obtain s' where "put_analysis r' s = (Inr (), s')" by blast
    with True r'(1) show thesis by (intro that [of s']) (simp add: fail_interrupted_def act_simps)
  qed (simp add: that fail_interrupted_def act_simps)
  have "fst (act_each (fail_interrupted env t) [m] s) = Inr ()" "snd (act_each (fail_interrupted env t) [m] s) = s1"
    using f by (simp_all add: act_simps)
  then have "act_each (fail_interrupted env t) [m] s = (Inr (), s1)" by (simp add: prod_eq_iff)
  from fail_interrupted_all [OF this] m(1)
  have kept: "i \<noteq> rec_id m \<Longrightarrow> map_of (ab_analyses (an_board s1)) i = map_of (ab_analyses (an_board s)) i" for i by simp
  have "stored (an_board s1) q \<and> rec_validate (ae_netloc env) (ae_casefold env) q = Inr q \<and> (active q \<longrightarrow> rec_now t q)"
    if "q \<in> set ms" for q
  proof -
    have "rec_id q \<noteq> rec_id m" using Cons.prems(2) that by (metis distinct.simps(2) image_eqI list.set_map list.simps(9))
    from kept [OF this] Cons.prems(1) that show ?thesis by simp
  qed
  then have "\<forall>q \<in> set ms. stored (an_board s1) q \<and> rec_validate (ae_netloc env) (ae_casefold env) q = Inr q \<and>
      (active q \<longrightarrow> rec_now t q)" by blast
  from Cons.IH [OF this] Cons.prems(2) f show ?case by (auto simp: act_bind_def)
qed (simp add: act_pure_def)

section \<open>Removing what has no Tab\<close>

lemma removed_gone:
  assumes "ab_inv b"
  shows "map_of (ab_analyses (removed_board i b)) i = None"
proof (cases "map_of (ab_analyses b) i")
  case None
  then show ?thesis using removed_map(1) [OF assms] by (metis not_Some_eq)
next
  case (Some r)
  then have r: "stored b r" "rec_id r = i" using stored_iff(2) [OF assms] by blast+
  have "i \<in> analysis_family r b" using r(2) by (auto simp: analysis_family_def)
  then have "map_of (filter (\<lambda>kv. fst kv \<notin> analysis_family r b) (ab_analyses b)) i = None"
    by (auto simp: map_of_None_iff_keys)
  then show ?thesis using removed_board_facts(2) [OF assms r(1)] r(2) by (simp add: without_analyses_def)
qed

definition all_over :: "analysis_board \<Rightarrow> bool" where
  "all_over b \<longleftrightarrow> (\<forall>i r. map_of (ab_analyses b) i = Some r \<longrightarrow> terminal (lc_state r))"

lemma drop_over_spec:
  assumes "ab_inv (an_board s)" "all_over (an_board s)"
  shows "drop_over i s = (if map_of (ab_analyses (an_board s)) i = None then (Inr False, s)
    else (Inr True, snd (drop_tree i s)))"
proof -
  have "list_all (\<lambda>r. terminal (lc_state r)) (analysis_tree (an_board s) i)"
    using tree_members(1) [OF assms(1)] assms(2) by (auto simp: list_all_iff all_over_def)
  then show ?thesis by (auto simp: drop_over_def act_simps drop_tree_def)
qed

text \<open>What a sequence of removals leaves.\<close>

definition pruned :: "uuid list \<Rightarrow> analysis_board \<Rightarrow> analysis_board \<Rightarrow> bool" where
  "pruned is b b' \<longleftrightarrow> ab_inv b' \<and>
     (\<forall>k r. map_of (ab_analyses b') k = Some r \<longrightarrow> map_of (ab_analyses b) k = Some r \<and> k \<notin> set is) \<and>
     (\<forall>k. k \<in> set (claimed_ids b) \<longrightarrow> map_of (ab_analyses b') k \<noteq> None \<longrightarrow> k \<in> set (claimed_ids b')) \<and>
     (\<forall>k q. map_of (ab_analyses b) k = Some q \<longrightarrow> map_of (ab_analyses b') k = None \<longrightarrow>
        (\<exists>a. (a, q) \<in> (child_rel b)\<^sup>* \<and> rec_id a \<in> set is \<and> stored b a))"

lemma pruned_one:
  assumes inv: "ab_inv b"
  shows "pruned [i] b (removed_board i b)"
  unfolding pruned_def
proof (intro conjI allI impI)
  show "ab_inv (removed_board i b)" by (rule removed_board_facts(1) [OF inv])
  show "map_of (ab_analyses b) k = Some r" "k \<notin> set [i]" if "map_of (ab_analyses (removed_board i b)) k = Some r" for k r
    using that removed_map(1) [OF inv] removed_gone [OF inv, of i] by auto
  show "k \<in> set (claimed_ids (removed_board i b))"
    if "k \<in> set (claimed_ids b)" "map_of (ab_analyses (removed_board i b)) k \<noteq> None" for k
    using that by (rule removed_map(3) [OF inv])
  fix k q
  assume q: "map_of (ab_analyses b) k = Some q" "map_of (ab_analyses (removed_board i b)) k = None"
  show "\<exists>a. (a, q) \<in> (child_rel b)\<^sup>* \<and> rec_id a \<in> set [i] \<and> stored b a"
  proof (cases "map_of (ab_analyses b) i")
    case None
    then show ?thesis
      using q by (cases "map_of (ab_corrupt b) i")
        (auto simp: removed_board_def remove_analysis_def unlink_analysis_id_def)
  next
    case (Some r)
    then have r: "stored b r" "rec_id r = i" using stored_iff(2) [OF inv] by blast+
    have k: "rec_id q = k" "stored b q" using q(1) stored_iff(2) [OF inv] by blast+
    have "map_of (filter (\<lambda>kv. fst kv \<notin> analysis_family r b) (ab_analyses b)) k = None"
      using q(2) removed_board_facts(2) [OF inv r(1)] r(2) by (simp add: without_analyses_def)
    then have "k \<in> analysis_family r b" using map_of_SomeD [OF q(1)] by (force simp: map_of_None_iff_keys)
    then obtain a where a: "rec_id a = k" "(r, a) \<in> (child_rel b)\<^sup>*" by (auto simp: analysis_family_def)
    have "stored b a" by (rule descendant_stored [OF inv a(2) r(1)])
    then have "a = q" using a(1) k by simp
    with a(2) r show ?thesis by auto
  qed
qed

lemma pruned_trans:
  assumes inv: "ab_inv b" and p: "pruned xs b b1" "pruned ys b1 b2"
  shows "pruned (xs @ ys) b b2"
  unfolding pruned_def
proof (intro conjI allI impI)
  have sub: "map_of (ab_analyses b) k = Some r" if "map_of (ab_analyses b1) k = Some r" for k r
    using p(1) that by (simp add: pruned_def)
  show "ab_inv b2" using p(2) by (simp add: pruned_def)
  show "map_of (ab_analyses b) k = Some q" "k \<notin> set (xs @ ys)" if "map_of (ab_analyses b2) k = Some q" for k q
    using p that by (auto simp: pruned_def)
  show "k \<in> set (claimed_ids b2)" if "k \<in> set (claimed_ids b)" "map_of (ab_analyses b2) k \<noteq> None" for k
    using p that unfolding pruned_def by (metis not_Some_eq)
  fix k q
  assume q: "map_of (ab_analyses b) k = Some q" "map_of (ab_analyses b2) k = None"
  show "\<exists>a. (a, q) \<in> (child_rel b)\<^sup>* \<and> rec_id a \<in> set (xs @ ys) \<and> stored b a"
  proof (cases "map_of (ab_analyses b1) k")
    case None
    with q(1) p(1) show ?thesis unfolding pruned_def by force
  next
    case (Some q')
    then have q': "map_of (ab_analyses b1) k = Some q" using sub q(1) by simp
    then obtain a where a: "(a, q) \<in> (child_rel b1)\<^sup>*" "rec_id a \<in> set ys" "stored b1 a"
      using p(2) q(2) unfolding pruned_def by blast
    have inv1: "ab_inv b1" using p(1) by (simp add: pruned_def)
    have "(x, y) \<in> child_rel b" if "(x, y) \<in> child_rel b1" for x y
      using child_relD(1,2) [OF inv1 that] sub child_relI [OF inv] by blast
    then have "child_rel b1 \<subseteq> child_rel b" by (rule subrelI)
    from subsetD [OF rtrancl_mono [OF this] a(1)] have "(a, q) \<in> (child_rel b)\<^sup>*" .
    with a(2,3) sub show ?thesis by auto
  qed
qed

lemma drop_all_over_spec:
  assumes "ab_inv (an_board s)" "all_over (an_board s)"
  shows "\<exists>dropped s'. drop_all_over is s = (Inr dropped, s') \<and> pruned is (an_board s) (an_board s') \<and>
    an_reads s' = an_reads s \<and> (\<not> dropped \<longrightarrow> s' = s)"
  using assms
proof (induction "is" arbitrary: s)
  case (Cons i "is")
  define s1 where "s1 = snd (drop_over i s)"
  define a where "a = (map_of (ab_analyses (an_board s)) i \<noteq> None)"
  have d: "drop_over i s = (Inr a, s1)" unfolding s1_def a_def drop_over_spec [OF Cons.prems] by simp
  have b1: "an_board s1 = (if a then removed_board i (an_board s) else an_board s)" and n: "\<not> a \<Longrightarrow> s1 = s"
    "an_reads s1 = an_reads s"
    unfolding s1_def a_def drop_over_spec [OF Cons.prems] by (auto simp: drop_tree_def on_board_def)
  have p1: "pruned [i] (an_board s) (an_board s1)"
    using pruned_one [OF Cons.prems(1), of i] b1 Cons.prems(1) by (cases a) (auto simp: a_def pruned_def)
  then have "ab_inv (an_board s1)" "all_over (an_board s1)"
    using Cons.prems(2) by (auto simp: pruned_def all_over_def)
  from Cons.IH [OF this] obtain dropped s' where r: "drop_all_over is s1 = (Inr dropped, s')"
    "pruned is (an_board s1) (an_board s')" "an_reads s' = an_reads s1" "\<not> dropped \<Longrightarrow> s' = s1" by blast
  have "pruned (i # is) (an_board s) (an_board s')" using pruned_trans [OF Cons.prems(1) p1 r(2)] by simp
  moreover have "drop_all_over (i # is) s = (Inr (a \<or> dropped), s')"
    by (simp add: act_bind_def act_pure_def d r(1))
  ultimately show ?case using r(3,4) n by auto
qed (auto simp: act_pure_def pruned_def intro: exI [of _ False])

lemma detached_roots_iff:
  assumes "ab_inv b"
  shows "i \<in> set (detached_roots b) \<longleftrightarrow>
    (\<exists>r. map_of (ab_analyses b) i = Some r \<and> rec_parent_analysis_id r = None) \<and> i \<notin> set (claimed_ids b)"
proof -
  have "map_of (ab_analyses b) i = Some r \<longleftrightarrow> (i, r) \<in> set (ab_analyses b)" for r
    using ab_invD(2) [OF assms] by (simp add: map_of_eq_Some_iff)
  then have "i \<in> set (detached_roots b) \<longleftrightarrow> (\<exists>r. map_of (ab_analyses b) i = Some r \<and> rec_parent_analysis_id r = None \<and>
      analysis_tab_id_in (ab_tabs b) i = None)"
    by (auto simp: detached_roots_def image_iff simp del: not_None_eq)
  then show ?thesis unfolding analysis_tab_id_in_None claimed_ids_def by blast
qed

lemma pruned_detached:
  assumes "ab_inv b" "pruned (detached_roots b) b b'"
  shows "detached_roots b' = []"
proof -
  have inv': "ab_inv b'" using assms(2) by (simp add: pruned_def)
  have "i \<notin> set (detached_roots b')" for i
    unfolding detached_roots_iff [OF inv']
  proof
    assume "(\<exists>r. map_of (ab_analyses b') i = Some r \<and> rec_parent_analysis_id r = None) \<and> i \<notin> set (claimed_ids b')"
    then obtain r where r: "map_of (ab_analyses b') i = Some r" "rec_parent_analysis_id r = None" "i \<notin> set (claimed_ids b')"
      by blast
    then have "map_of (ab_analyses b) i = Some r" "i \<notin> set (detached_roots b)" "i \<notin> set (claimed_ids b)"
      using assms(2) by (auto simp: pruned_def)
    with r(2) show False unfolding detached_roots_iff [OF assms(1)] by blast
  qed
  then show ?thesis by (metis list.set_intros(1) neq_Nil_conv)
qed

section \<open>The root of a tree before and after\<close>

lemma root_of_step:
  assumes "ab_inv b" "stored b r"
  shows "rec_parent_analysis_id r = None \<Longrightarrow> root_of b r = r"
    "rec_parent_analysis_id r = Some p \<Longrightarrow> map_of (ab_analyses b) p = Some q \<Longrightarrow> root_of b r = root_of b q"
proof -
  show "root_of b r = r" if "rec_parent_analysis_id r = None" using that by (simp add: root_of_def ancestors.simps)
  assume p: "rec_parent_analysis_id r = Some p" "map_of (ab_analyses b) p = Some q"
  then have "stored b q" using stored_iff(2) [OF assms(1)] by blast
  then obtain rs where "ancestors b q = Some rs" "rs \<noteq> []" using ancestors_total [OF assms(1)] by blast
  moreover from this have "ancestors b r = Some (r # rs)" using p by (subst ancestors.simps) simp
  ultimately show "root_of b r = root_of b q" by (simp add: root_of_def)
qed

lemma detached_root_id_root:
  "rec_parent_analysis_id r = None \<Longrightarrow> detached_root_id b r =
     (if analysis_tab_id_in (ab_tabs b) (rec_id r) = None then Some (rec_id r) else None)"
  by (simp add: detached_root_id_def ancestors.simps)

lemma root_of_same_shape:
  assumes inv: "ab_inv b" "ab_inv b'"
    and shape: "\<And>i. map_option rec_parent_analysis_id (map_of (ab_analyses b') i) =
      map_option rec_parent_analysis_id (map_of (ab_analyses b) i)"
    and r: "stored b r" "stored b' r'" "rec_id r' = rec_id r"
  shows "rec_id (root_of b' r') = rec_id (root_of b r)"
  using r
proof (induction "position b r" arbitrary: r r' rule: less_induct)
  case less
  have same: "rec_parent_analysis_id r' = rec_parent_analysis_id r" using shape [of "rec_id r"] less.prems by simp
  show ?case
  proof (cases "rec_parent_analysis_id r")
    case None
    then show ?thesis using same root_of_step(1) inv less.prems by simp
  next
    case (Some p)
    obtain q where q: "map_of (ab_analyses b) p = Some q" "stored b q" "rec_id q = p" "(q, r) \<in> child_rel b"
      by (rule parent_stored [OF inv(1) less.prems(1) Some])
    obtain q' where q': "map_of (ab_analyses b') p = Some q'" "stored b' q'" "rec_id q' = p" "(q', r') \<in> child_rel b'"
      by (rule parent_stored [OF inv(2) less.prems(2)]) (use Some same in simp)
    have "rec_id (root_of b' q') = rec_id (root_of b q)"
      by (rule less.hyps [OF child_relD(3) [OF inv(1) q(4)] q(2) q'(2)]) (simp add: q q')
    then show ?thesis
      using root_of_step(2) [OF inv(1) less.prems(1) Some q(1)] root_of_step(2) [OF inv(2) less.prems(2) _ q'(1)] Some same
      by simp
  qed
qed

lemma root_of_descendant:
  assumes "ab_inv b" "(a, r) \<in> (child_rel b)\<^sup>*" "stored b a" "rec_parent_analysis_id a = None"
  shows "root_of b r = a"
  using assms(2)
proof (induction rule: rtrancl_induct)
  case base
  show ?case by (rule root_of_step(1) [OF assms(1,3,4)])
next
  case (step x y)
  have "map_of (ab_analyses b) (rec_id x) = Some x" by (rule descendant_stored [OF assms(1) step.hyps(1) assms(3)])
  from root_of_step(2) [OF assms(1) child_relD(1,2) [OF assms(1) step.hyps(2)] this] step.IH show ?case by simp
qed

text \<open>What the second loop keeps: exactly the trees whose root is in a Tab.\<close>

lemma pruned_detached_iff:
  assumes inv: "ab_inv b" and p: "pruned (detached_roots b) b b'" and r: "stored b r"
  shows "map_of (ab_analyses b') (rec_id r) \<noteq> None \<longleftrightarrow> detached_root_id b r = None"
proof -
  let ?q = "root_of b r"
  note rf = root_of_facts [OF inv r]
  have inv': "ab_inv b'" and sub: "\<And>k a. map_of (ab_analyses b') k = Some a \<Longrightarrow> map_of (ab_analyses b) k = Some a"
    using p by (auto simp: pruned_def)
  have det: "detached_root_id b r = None \<longleftrightarrow> rec_id ?q \<notin> set (detached_roots b)"
    unfolding detached_roots_iff [OF inv] rf(4) analysis_tab_id_in_None claimed_ids_def using rf(1,2) by auto
  show ?thesis
    unfolding det
  proof
    assume gone: "rec_id ?q \<notin> set (detached_roots b)"
    show "map_of (ab_analyses b') (rec_id r) \<noteq> None"
    proof
      assume "map_of (ab_analyses b') (rec_id r) = None"
      then obtain a where a: "(a, r) \<in> (child_rel b)\<^sup>*" "rec_id a \<in> set (detached_roots b)" "stored b a"
        using p r unfolding pruned_def by blast
      then have "rec_parent_analysis_id a = None" unfolding detached_roots_iff [OF inv] by auto
      from root_of_descendant [OF inv a(1,3) this] a(2) gone show False by simp
    qed
  next
    assume "map_of (ab_analyses b') (rec_id r) \<noteq> None"
    have up: "stored b' x" if "(x, y) \<in> (child_rel b)\<^sup>*" "stored b' y" "stored b x" for x y
      using that
    proof (induction rule: rtrancl_induct)
      case (step y z)
      have z: "rec_parent_analysis_id z = Some (rec_id y)" by (rule child_relD(2) [OF inv step.hyps(2)])
      obtain q where q: "map_of (ab_analyses b') (rec_id y) = Some q" by (rule parent_stored [OF inv' step.prems(1) z])
      have "stored b y" by (rule descendant_stored [OF inv step.hyps(1) step.prems(2)])
      then have "stored b' y" using sub [OF q] q by simp
      from step.IH [OF this step.prems(2)] show ?case .
    qed
    obtain r' where "map_of (ab_analyses b') (rec_id r) = Some r'"
      using \<open>map_of (ab_analyses b') (rec_id r) \<noteq> None\<close> by blast
    then have "stored b' r" using sub r by (metis option.inject)
    from up [OF rf(3) this rf(1)] show "rec_id ?q \<notin> set (detached_roots b)" using p by (auto simp: pruned_def)
  qed
qed

section \<open>The whole reconciliation\<close>

lemma fail_none: "\<forall>m \<in> set ms. \<not> active m \<Longrightarrow> act_each (fail_interrupted env t) ms s = (Inr (), s)"
  by (induction ms) (simp_all add: act_simps fail_interrupted_def)

lemma acts_interrupted_all:
  assumes "ab_inv (an_board s)" "\<forall>m \<in> set ms. stored (an_board s) m" "distinct (map rec_id ms)"
  shows "acts True env s (act_each (fail_interrupted env t) ms s)"
  using assms
proof (induction ms arbitrary: s)
  case (Cons m ms)
  have "touches env (rec_id m) s (fail_interrupted env t m s)"
  proof (cases "active m")
    case True
    let ?r = "rec_fail (ae_netloc env) (ae_casefold env) t interrupted (lc_progress m) m"
    have m: "stored (an_board s) m" using Cons.prems(2) by simp
    have "act_bind (act_pure ?r) put_analysis s =
        act_bind (act_pure ?r) (\<lambda>u. act_bind (put_analysis u) (\<lambda>_. act_pure (Inr ()))) s"
      by (auto simp: act_bind_def act_pure_def split: prod.split sum.split)
    moreover have "touches env (rec_id m) s (act_bind (act_pure ?r) (\<lambda>u. act_bind (put_analysis u) (\<lambda>_. act_pure (Inr ()))) s)"
      by (rule touches_put [OF Cons.prems(1) m settles_by(1)])
    ultimately show ?thesis using True by (simp add: fail_interrupted_def)
  qed (simp add: fail_interrupted_def touches_def act_pure_def)
  then show ?case unfolding act_each.simps
    by (rule touches_bind_members [OF Cons.prems]) (use Cons.IH in auto)
qed simp

lemma failed_boards:
  assumes inv: "ab_inv (an_board s)"
    and f: "act_each (fail_interrupted env t) (dict_values (ab_analyses (an_board s))) s = (Inr (), s1)"
  shows "ab_tabs (an_board s1) = ab_tabs (an_board s)"
    "map_of (ab_analyses (an_board s)) i = Some r \<Longrightarrow>
       \<exists>r'. map_of (ab_analyses (an_board s1)) i = Some r' \<and> (if active r then failed_from r r' else r' = r)"
    "map_of (ab_analyses (an_board s)) i = None \<Longrightarrow> map_of (ab_analyses (an_board s1)) i = None"
    "ab_inv (an_board s1)" "all_over (an_board s1)"
proof -
  let ?ms = "dict_values (ab_analyses (an_board s))"
  have st: "\<forall>m \<in> set ?ms. stored (an_board s) m" using stored_iff(1) [OF inv] by auto
  have keys: "map rec_id ?ms = dict_keys (ab_analyses (an_board s))" using ab_invD(5) [OF inv] by auto
  have dist: "distinct (map rec_id ?ms)" unfolding keys by (rule ab_invD(2) [OF inv])
  note all = fail_interrupted_all [OF f st dist]
  show tabs: "ab_tabs (an_board s1) = ab_tabs (an_board s)" using all by blast
  show rec: "\<exists>r'. map_of (ab_analyses (an_board s1)) i = Some r' \<and> (if active r then failed_from r r' else r' = r)"
    if "map_of (ab_analyses (an_board s)) i = Some r" for i r
  proof -
    have "rec_id r = i" using that stored_iff(2) [OF inv] by blast
    moreover have "r \<in> set ?ms" using map_of_SomeD [OF that] by force
    ultimately show ?thesis using all by blast
  qed
  show new: "map_of (ab_analyses (an_board s1)) i = None" if "map_of (ab_analyses (an_board s)) i = None" for i
    using all that unfolding map_of_None_iff_keys by (metis list.set_map)
  show "ab_inv (an_board s1)"
  proof -
    have "acts True env s (act_each (fail_interrupted env t) ?ms s)" by (rule acts_interrupted_all [OF inv st dist])
    from acts_inv [OF this inv] show ?thesis by (simp add: f)
  qed
  show "all_over (an_board s1)"
    unfolding all_over_def
  proof (intro allI impI)
    fix i r' assume r': "map_of (ab_analyses (an_board s1)) i = Some r'"
    then obtain r where "map_of (ab_analyses (an_board s)) i = Some r" using new by fastforce
    from rec [OF this] r' show "terminal (lc_state r')"
      by (cases "lc_state r") (auto simp: failed_from_def active_def terminal_def split: if_splits)
  qed
qed

lemma failed_shape:
  assumes inv: "ab_inv (an_board s)"
    and f: "act_each (fail_interrupted env t) (dict_values (ab_analyses (an_board s))) s = (Inr (), s1)"
  shows "map_option rec_parent_analysis_id (map_of (ab_analyses (an_board s1)) j) =
    map_option rec_parent_analysis_id (map_of (ab_analyses (an_board s)) j)"
proof (cases "map_of (ab_analyses (an_board s1)) j")
  case None
  then show ?thesis using failed_boards(2) [OF inv f] by (metis option.exhaust option.distinct(1))
next
  case (Some q)
  have st: "\<forall>m \<in> set (dict_values (ab_analyses (an_board s))). stored (an_board s) m" using stored_iff(1) [OF inv] by auto
  have "map rec_id (dict_values (ab_analyses (an_board s))) = dict_keys (ab_analyses (an_board s))"
    using ab_invD(5) [OF inv] by auto
  then have "distinct (map rec_id (dict_values (ab_analyses (an_board s))))" using ab_invD(2) [OF inv] by (simp only:)
  from acts_interrupted_all [OF inv st this, of env t] f
  have "(board_move True (ae_netloc env) (ae_casefold env))\<^sup>*\<^sup>* (an_board s) (an_board s1)" by (simp add: acts_def)
  from quiet_moves_record [OF this inv Some] quiet_transitions_keep(3) Some show ?thesis by fastforce
qed


section \<open>Example\<close>

text \<open>A Tab with a running Analysis, and a queued one that no Tab holds.\<close>

definition example_env :: analysis_env where
  "example_env = \<lparr>ae_netloc = (\<lambda>n. True), ae_casefold = id, ae_clock = (\<lambda>n. 200 + int n),
     ae_stored = (\<lambda>j. Inr \<lparr>sr_result_type = ''source'', sr_source = Some j, sr_sources = None\<rparr>),
     ae_group_payload = (\<lambda>sources. concat (map fst sources))\<rparr>"

definition example_lease :: "analysis_board \<Rightarrow> nat analyses" where
  "example_lease b = \<lparr>an_workspace = (workspace_init 0 (\<lambda>a. source_node) ''w'' ''C'' 1)\<lparr>wk_board := b\<rparr>, an_live = [],
     an_reads = 0, an_commit = True, an_launches = []\<rparr>"

definition concordance_tab :: "uuid list \<Rightarrow> tab" where
  "concordance_tab ids = \<lparr>tab_id = ''t'', tab_kind = KConcordance, tab_name = ''Concordance'', tab_analysis_ids = ids,
     tab_correction_columns = [], tab_stop_words = [], tab_words_per_topic = None, tab_created_at = 50,
     tab_modified_at = 60, tab_revision = 2\<rparr>"

definition lost_record :: analysis_record where
  "lost_record = example_record\<lparr>rec_id := ''d''\<rparr>"

definition lost_board :: analysis_board where
  "lost_board = \<lparr>ab_tabs = [(''t'', concordance_tab [''i''])],
     ab_analyses = [(''i'', example_running), (''d'', lost_record)], ab_corrupt = []\<rparr>"

lemma lease_board [simp]: "an_board (example_lease b) = b"
  by (simp add: example_lease_def)

lemma parents_first_roots: "\<forall>(k, a) \<in> set d. rec_parent_analysis_id a = None \<Longrightarrow> parents_first d"
  unfolding parents_first_def by force

lemma lost_board_inv: "ab_inv lost_board"
proof -
  have "wf_dict (ab_tabs lost_board)" "wf_dict (ab_analyses lost_board)" "ab_corrupt lost_board = []"
    "\<forall>(k, x) \<in> set (ab_tabs lost_board). distinct (tab_analysis_ids x)"
    "\<forall>(k, a) \<in> set (ab_analyses lost_board). rec_id a = k"
    "\<forall>(k, a) \<in> set (ab_analyses lost_board). rec_parent_analysis_id a = None"
    by code_simp+
  then show ?thesis unfolding ab_inv_def by (simp add: parents_first_roots)
qed


end
