(* ===== verification/AnalysisService.thy ===== *)
theory AnalysisService
  imports AnalysisRecovery
begin

text \<open>
  The transactions of \<open>AnalysisService\<close> as a state machine, and what holds in every state it reaches. A settling step
  is a callback, a cancellation or a removal; the others submit, admit, reconcile at startup, create a Tab, change
  the rest of the Workspace, or lose what is in memory only.
\<close>

section \<open>Steps\<close>

lemma acts_transact:
  assumes "acts q env (s\<lparr>an_commit := True\<rparr>) (act (s\<lparr>an_commit := True\<rparr>))"
  shows "acts q env s (transact commit act s)"
proof -
  obtain r s' where r: "act (s\<lparr>an_commit := True\<rparr>) = (r, s')" by (cases "act (s\<lparr>an_commit := True\<rparr>)")
  then have moved: "acts q env s (x, s')" for x :: "'b result" using assms by (simp add: acts_def)
  have undone: "acts q env s (x, s'\<lparr>an_workspace := an_workspace s\<rparr>)" for x :: "'b result" by (simp add: acts_same)
  show ?thesis
    using moved undone by (auto simp: transact_def Let_def r split: sum.split bool.split option.split)
qed

lemma acts_steps:
  "acts q env s out \<Longrightarrow> (board_move q (ae_netloc env) (ae_casefold env))\<^sup>*\<^sup>* (an_board s) (an_board (snd out))"
  by (simp add: acts_def)

inductive settle_step :: "analysis_env \<Rightarrow> 'p analyses \<Rightarrow> 'p analyses \<Rightarrow> bool" for env where
  complete: "board_kept producer \<Longrightarrow> settle_step env s (snd (transact commit (complete_body env producer i) s))"
| fail: "settle_step env s (snd (transact commit (fail_body env failure i) s))"
| confirm: "settle_step env s (snd (transact commit (confirm_body env i) s))"
| interrupt: "settle_step env s (snd (transact commit (interrupt_body env i) s))"
| interrupt_queued: "settle_step env s (snd (transact commit (interrupt_queued_body env i) s))"
| report: "settle_step env s (snd (transact commit (report_body env payload i) s))"
| remove_unscheduled: "settle_step env s (snd (transact commit (remove_unscheduled_body env i) s))"
| cancel: "settle_step env s (snd (transact commit (cancel_body env i) s))"
| clear: "settle_step env s (snd (transact commit (clear_body env tid) s))"
| delete_tab: "settle_step env s (snd (transact commit (delete_tab_body env tid) s))"

inductive service_step :: "analysis_env \<Rightarrow> 'p analyses \<Rightarrow> 'p analyses \<Rightarrow> bool" for env where
  settle: "settle_step env s s' \<Longrightarrow> service_step env s s'"
| submit: "service_step env s (snd (transact commit (submit_body env i child_ids t tid command request) s))"
| admit: "service_step env s (snd (admit_execution env shut (prepare :: analysis_record \<Rightarrow> app_error option + json) commit i s))"
| reconcile: "reconcile_interrupted env s = (Inr changed, s') \<Longrightarrow> service_step env s s'"
| new_tab: "tab_create i kind name t = Inr tab \<Longrightarrow> service_step env s (snd (on_board (add_tab tab) s))"
| elsewhere: "wk_board w = an_board s \<Longrightarrow> service_step env s (s\<lparr>an_workspace := w\<rparr>)"
| restart: "service_step env s (s\<lparr>an_live := [], an_launches := []\<rparr>)"

inductive service_reachable :: "analysis_env \<Rightarrow> 'p analyses \<Rightarrow> bool" for env where
  init: "an_board s = ab_init \<Longrightarrow> service_reachable env s"
| step: "service_reachable env s \<Longrightarrow> service_step env s s' \<Longrightarrow> service_reachable env s'"

lemma settle_step_moves:
  assumes "settle_step env s s'" "ab_inv (an_board s)"
  shows "(board_move True (ae_netloc env) (ae_casefold env))\<^sup>*\<^sup>* (an_board s) (an_board s')"
proof -
  have inv: "ab_inv (an_board (s\<lparr>an_commit := True\<rparr>))" using assms(2) by simp
  from assms(1) show ?thesis
  proof (cases rule: settle_step.cases)
    case (complete producer commit i)
    show ?thesis unfolding complete(1)
      by (rule acts_steps, rule acts_transact, rule acts_complete [OF inv complete(2)])
  next
    case (fail commit failure i)
    show ?thesis unfolding fail
      by (rule acts_steps, rule acts_transact, rule acts_fail [OF inv])
  next
    case (confirm commit i)
    show ?thesis unfolding confirm
      by (rule acts_steps, rule acts_transact, rule acts_confirm [OF inv])
  next
    case (interrupt commit i)
    show ?thesis unfolding interrupt
      by (rule acts_steps, rule acts_transact, rule acts_interrupt(1) [OF inv])
  next
    case (interrupt_queued commit i)
    show ?thesis unfolding interrupt_queued
      by (rule acts_steps, rule acts_transact, rule acts_interrupt(2) [OF inv])
  next
    case (report commit payload i)
    show ?thesis unfolding report
      by (rule acts_steps, rule acts_transact, rule acts_report [OF inv])
  next
    case (remove_unscheduled commit i)
    show ?thesis unfolding remove_unscheduled
      by (rule acts_steps, rule acts_transact, rule acts_remove_unscheduled [OF inv])
  next
    case (cancel commit i)
    show ?thesis unfolding cancel
      by (rule acts_steps, rule acts_transact, rule acts_cancel [OF inv])
  next
    case (clear commit tid)
    show ?thesis unfolding clear
      by (rule acts_steps, rule acts_transact, rule acts_clear [OF inv])
  next
    case (delete_tab commit tid)
    show ?thesis unfolding delete_tab
      by (rule acts_steps, rule acts_transact, rule acts_delete_tab [OF inv])
  qed
qed

lemma acts_admit:
  assumes inv: "ab_inv (an_board s)"
  shows "acts False env s (admit_execution env shut prepare commit i s)"
proof -
  have "acts False env s (transact commit (admit_body env shut prepare i) s)"
    by (rule acts_transact, rule acts_admit_body) (simp add: inv)
  then show ?thesis
    by (auto simp: admit_execution_def acts_def split: prod.split sum.split)
qed

lemma acts_reconcile:
  assumes inv: "ab_inv (an_board s)"
  shows "acts True env s (reconcile_interrupted env s)"
proof -
  let ?ms = "dict_values (ab_analyses (an_board s))"
  have st: "\<forall>m \<in> set ?ms. stored (an_board s) m" using stored_iff(1) [OF inv] by auto
  have "map rec_id ?ms = dict_keys (ab_analyses (an_board s))" using ab_invD(5) [OF inv] by auto
  then have dist: "distinct (map rec_id ?ms)" using ab_invD(2) [OF inv] by (simp only:)
  have drops: "acts True env s1 (drop_all_over is s1)" if "ab_inv (an_board s1)" for "is" and s1 :: "'a analyses"
    using that
  proof (induction "is" arbitrary: s1)
    case (Cons i "is")
    have "acts True env s1 (drop_over i s1)"
      unfolding drop_over_def by (simp, intro impI, rule acts_then_pure, simp, rule Cons.prems)
    then show ?case unfolding drop_all_over.simps
      by (rule acts_bind) (use Cons in \<open>auto intro: acts_then_pure\<close>)
  qed simp
  show ?thesis
    unfolding reconcile_interrupted_def Let_def
  proof (rule acts_clock [OF inv], rule acts_bind)
    fix t and s1 :: "'a analyses" assume b: "an_board s1 = an_board s"
    show "acts True env s1 (act_each (fail_interrupted env t) ?ms s1)" "ab_inv (an_board s1)"
      using acts_interrupted_all [of s1 ?ms] inv st dist b by simp_all
    show "acts True env s2 (act_bind (drop_all_over (detached_roots (an_board s2)))
        (\<lambda>dropped. act_pure (Inr ((\<exists>r\<in>set ?ms. active r) \<or> dropped))) s2)" if "ab_inv (an_board s2)" for s2 :: "'a analyses"
      by (rule acts_then_pure, rule drops [OF that], rule that)
  qed
qed

lemma board_ok_new_tab:
  assumes "board_ok b" "tab_create i kind name t = Inr tab"
  shows "board_ok (snd (add_tab tab b))"
proof -
  have same: "ab_analyses (snd (add_tab tab b)) = ab_analyses b" by (simp add: add_tab_def split: sum.split)
  have "tabs_keyed (snd (add_tab tab b))"
    using board_okD(4) [OF assms(1)] set_update_dict [of "tab_id tab" tab "ab_tabs b"]
    by (auto simp: add_tab_def tabs_keyed_def split: sum.split)
  then show ?thesis
    by (rule board_ok_shrunk [OF assms(1) ab_inv_add_tab [OF board_okD(1) [OF assms(1)]]]) (simp add: same)
qed

lemma service_step_ok:
  assumes "service_step env s s'" "board_ok (an_board s)"
  shows "board_ok (an_board s')"
proof -
  note inv = board_okD(1) [OF assms(2)]
  have moved: "board_ok (an_board (snd out))" if "acts q env s out" for q and out :: "'b result \<times> 'a analyses"
    using that assms(2) unfolding acts_def by (rule moves_ok)
  from assms(1) show ?thesis
  proof (cases rule: service_step.cases)
    case settle
    show ?thesis by (rule moves_ok [OF settle_step_moves [OF settle inv] assms(2)])
  next
    case (submit commit i child_ids t tid command request)
    have "acts False env s (transact commit (submit_body env i child_ids t tid command request) s)"
      by (rule acts_transact, rule acts_submit) (use inv board_okD(4) [OF assms(2)] in simp_all)
    then show ?thesis unfolding submit using assms(2) unfolding acts_def by (rule moves_ok)
  next
    case (admit shut prepare commit i)
    show ?thesis unfolding admit using acts_admit [OF inv] assms(2) unfolding acts_def by (rule moves_ok)
  next
    case (reconcile changed)
    have "acts True env s (Inr changed, s')" using acts_reconcile [OF inv, of env] reconcile by simp
    then show ?thesis using assms(2) moves_ok unfolding acts_def by fastforce
  next
    case (new_tab i kind name t tab)
    have "an_board s' = snd (add_tab tab (an_board s))"
      unfolding new_tab(1) by (simp add: on_board_def split: prod.split)
    then show ?thesis using board_ok_new_tab [OF assms(2) new_tab(2)] by simp
  qed (use assms(2) in simp_all)
qed

lemma service_reachable_ok: "service_reachable env s \<Longrightarrow> board_ok (an_board s)"
proof (induction rule: service_reachable.induct)
  case (init s)
  have "board_ok ab_init" by (rule board_okI) (simp_all add: ab_inv_init, simp_all add: ab_init_def tabs_keyed_def main_active_def)
  then show ?case using init by simp
next
  case (step s s')
  then show ?case by (blast intro: service_step_ok)
qed

end
