(* ===== verification/AnalysisExample.thy ===== *)
theory AnalysisExample
  imports AnalysisService
begin

text \<open>
  A run over two sources, from an empty Workspace: the witnesses of the properties of the Analysis service evaluate its
  states. \<open>run_lease\<close> is after the submission; in \<open>busy_lease\<close> both sources run; in \<open>half_lease\<close> the first has
  failed, in \<open>over_lease\<close> the second too; in \<open>stuck_lease\<close> the second has reported an invalid progress instead.
\<close>

section \<open>States\<close>

definition open_lease :: "nat analyses" where
  "open_lease = \<lparr>an_workspace = (workspace_init 0 (\<lambda>a. source_node) ''w'' ''C'' 1)
       \<lparr>wk_graph := (ng_init 0 (\<lambda>a. source_node))\<lparr>ng_nodes := [(''n1'', 0), (''n2'', 1)]\<rparr>\<rparr>,
     an_live = [], an_reads = 0, an_commit = True, an_launches = []\<rparr>"

definition run_tab :: tab where
  "run_tab = projr (tab_create ''t'' KConcordance ''Concordance'' 50)"

definition tabbed_lease :: "nat analyses" where
  "tabbed_lease = snd (on_board (add_tab run_tab) open_lease)"

definition run_request :: analysis_request where
  "run_request = ConcordanceRunAll (cc_coerce example_concordance)"

definition run_command :: analysis_create where
  "run_command = \<lparr>ac_execution_scope = RunAll, ac_submission = \<lparr>sub_request = run_request, sub_api_key = None\<rparr>,
     ac_parent_analysis_id = None, ac_supersedes_analysis_ids = []\<rparr>"

definition run_lease :: "nat analyses" where
  "run_lease = snd (transact None (submit_body example_env ''p'' [''c1'', ''c2''] 100 ''t'' run_command run_request)
     tabbed_lease)"

definition start_source :: "uuid \<Rightarrow> nat analyses \<Rightarrow> nat analyses" where
  "start_source i s = snd (admit_execution example_env False (\<lambda>r. Inr ''job'') None i s)"

definition busy_lease :: "nat analyses" where
  "busy_lease = start_source ''c2'' (start_source ''c1'' run_lease)"

definition half_lease :: "nat analyses" where
  "half_lease = snd (transact None (fail_body example_env input_missing ''c1'') busy_lease)"

definition over_lease :: "nat analyses" where
  "over_lease = snd (transact None (fail_body example_env input_missing ''c2'') half_lease)"

definition stuck_lease :: "nat analyses" where
  "stuck_lease = snd (transact None (report_body example_env (Inl (ValueError ''progress'')) ''c2'') half_lease)"

section \<open>They are reachable\<close>

lemma tabbed_reachable: "service_reachable example_env tabbed_lease"
proof -
  have "tab_create ''t'' KConcordance ''Concordance'' 50 = Inr run_tab" "an_board open_lease = ab_init" by code_simp+
  then show ?thesis
    unfolding tabbed_lease_def by (blast intro: service_reachable.intros service_step.new_tab)
qed

lemma run_reachable: "service_reachable example_env run_lease"
  unfolding run_lease_def by (rule service_reachable.step [OF tabbed_reachable service_step.submit])

lemma start_reachable: "service_reachable example_env s \<Longrightarrow> service_reachable example_env (start_source i s)"
  unfolding start_source_def by (rule service_reachable.step [OF _ service_step.admit])

lemma busy_reachable: "service_reachable example_env busy_lease"
  unfolding busy_lease_def by (intro start_reachable run_reachable)

lemma half_reachable: "service_reachable example_env half_lease"
  unfolding half_lease_def
  by (rule service_reachable.step [OF busy_reachable service_step.settle [OF settle_step.fail]])

lemma over_reachable: "service_reachable example_env over_lease"
  unfolding over_lease_def
  by (rule service_reachable.step [OF half_reachable service_step.settle [OF settle_step.fail]])

lemma stuck_reachable: "service_reachable example_env stuck_lease"
  unfolding stuck_lease_def
  by (rule service_reachable.step [OF half_reachable service_step.settle [OF settle_step.report]])

section \<open>What they hold\<close>

abbreviation states_of :: "nat analyses \<Rightarrow> (uuid \<times> background_state) list" where
  "states_of s \<equiv> map (\<lambda>(i, r). (i, lc_state r)) (ab_analyses (an_board s))"

lemma example_states:
  "states_of run_lease = [(''p'', RUNNING), (''c1'', QUEUED), (''c2'', QUEUED)]"
  "states_of busy_lease = [(''p'', RUNNING), (''c1'', RUNNING), (''c2'', RUNNING)]"
  "states_of half_lease = [(''p'', RUNNING), (''c1'', FAILED), (''c2'', RUNNING)]"
  by code_simp+

lemma example_end_states:
  "states_of over_lease = [(''p'', FAILED), (''c1'', FAILED), (''c2'', FAILED)]"
  "states_of stuck_lease = [(''p'', RUNNING), (''c1'', FAILED), (''c2'', FAILED)]"
  by code_simp+

lemma state_of:
  assumes "states_of s = d" "map_of d i = Some q"
  shows "\<exists>r. map_of (ab_analyses (an_board s)) i = Some r \<and> lc_state r = q"
proof -
  have "map_of (states_of s) i = map_option lc_state (map_of (ab_analyses (an_board s)) i)"
    by (simp add: map_of_map)
  with assms show ?thesis by (cases "map_of (ab_analyses (an_board s)) i") auto
qed

end
