(* ===== verification/AnalysisProperties.thy ===== *)
theory AnalysisProperties
  imports AnalysisExample
begin

text \<open>
  What holds of the Analyses in every state that the service reaches, and after every callback.
\<close>

section \<open>Every reachable state\<close>

text \<open>C7: the Analyses of a Workspace stay well formed through every transaction of the service, refused and rolled
  back ones included. In every reachable state each is stored under its own identifier and passes all its
  validators, its parent is there, and no identifier is both an Analysis and a corrupt one.\<close>

theorem service_records_valid:
  assumes "service_reachable env s"
  shows "wf_dict (ab_analyses (an_board s)) \<and>
    list_all (\<lambda>(i, r). rec_id r = i \<and> rec_ok r \<and> i \<notin> set (dict_keys (ab_corrupt (an_board s))) \<and>
      (case rec_parent_analysis_id r of None \<Rightarrow> True | Some p \<Rightarrow> p \<in> set (dict_keys (ab_analyses (an_board s)))))
      (ab_analyses (an_board s))"
proof -
  note ok = service_reachable_ok [OF assms]
  note inv = board_okD(1) [OF ok]
  have "rec_id r = i \<and> rec_ok r \<and> i \<notin> set (dict_keys (ab_corrupt (an_board s))) \<and>
      (case rec_parent_analysis_id r of None \<Rightarrow> True | Some p \<Rightarrow> p \<in> set (dict_keys (ab_analyses (an_board s))))"
    if m: "(i, r) \<in> set (ab_analyses (an_board s))" for i r
  proof -
    have r: "map_of (ab_analyses (an_board s)) i = Some r" using ab_invD(2) [OF inv] m by simp
    have "i \<notin> set (dict_keys (ab_corrupt (an_board s)))" using ab_invD(6) [OF inv] m by force
    moreover have "p \<in> set (dict_keys (ab_analyses (an_board s)))" if p: "rec_parent_analysis_id r = Some p" for p
    proof -
      obtain q where "map_of (ab_analyses (an_board s)) p = Some q"
        by (rule parent_stored [OF inv stored_of [OF inv r] p])
      then show ?thesis using map_of_SomeD by force
    qed
    ultimately show ?thesis using ab_invD(5) [OF inv m] board_okD(2) [OF ok r] by (simp split: option.split)
  qed
  then show ?thesis using ab_invD(2) [OF inv] by (auto simp: list_all_iff)
qed

theorem service_records_valid_witness:
  "\<exists>r. (''c2'', r) \<in> set (ab_analyses (an_board stuck_lease)) \<and> lc_state r = FAILED \<and> rec_ok r"
proof -
  obtain r where r: "map_of (ab_analyses (an_board stuck_lease)) ''c2'' = Some r" "lc_state r = FAILED"
    using state_of [OF example_end_states(2), of "''c2''" FAILED] by auto
  from service_records_valid [OF stuck_reachable] map_of_SomeD [OF r(1)] have "rec_ok r"
    by (auto simp: list_all_iff)
  with r(2) map_of_SomeD [OF r(1)] show ?thesis by blast
qed

text \<open>C8: a Tab runs one thing at a time. In every reachable state at most one Analysis of a Tab that is not a
  Supporting one is queued or running.\<close>

theorem one_active_analysis_per_tab:
  assumes "service_reachable env s"
  shows "length (filter (\<lambda>(i, r). rec_tab_id r = tid \<and> rec_execution_scope r \<noteq> Supporting \<and> active r)
    (ab_analyses (an_board s))) \<le> 1"
proof -
  note ok = service_reachable_ok [OF assms]
  note inv = board_okD(1) [OF ok]
  let ?d = "filter (\<lambda>(i, r). rec_tab_id r = tid \<and> rec_execution_scope r \<noteq> Supporting \<and> active r) (ab_analyses (an_board s))"
  have main: "main_active (an_board s) tid i" if i: "i \<in> set (map fst ?d)" for i
  proof -
    obtain r where "(i, r) \<in> set (ab_analyses (an_board s))" and r: "rec_tab_id r = tid" "rec_execution_scope r \<noteq> Supporting"
      "active r" using i by auto
    then have "map_of (ab_analyses (an_board s)) i = Some r" using ab_invD(2) [OF inv] by (simp add: map_of_is_SomeI)
    with r show ?thesis unfolding main_active_def by blast
  qed
  have "i = j" if "i \<in> set (map fst ?d)" "j \<in> set (map fst ?d)" for i j
    by (rule board_okD(3) [OF ok main [OF that(1)] main [OF that(2)]])
  then have "card (set (map fst ?d)) \<le> Suc 0" unfolding card_le_Suc0_iff_eq [OF finite_set] by blast
  moreover have "distinct (map fst ?d)" by (rule distinct_map_filter [OF ab_invD(2) [OF inv]])
  ultimately have "length (map fst ?d) \<le> Suc 0" by (simp only: distinct_card)
  then show ?thesis unfolding One_nat_def length_map .
qed

theorem one_active_analysis_per_tab_witness:
  "length (filter (\<lambda>(i, r). rec_tab_id r = ''t'' \<and> rec_execution_scope r \<noteq> Supporting \<and> active r)
     (ab_analyses (an_board busy_lease))) \<le> 1"
  by (rule one_active_analysis_per_tab [OF busy_reachable])

text \<open>C9: what has happened to an Analysis is never undone. A callback of the runner, a cancellation, a removal or the
  clearing or deletion of a Tab adds no Analysis, starts none and puts none back: each Analysis that is still there
  was there before, with the same Tab, parent, scope and creation, unchanged when it had finished, and otherwise at the
  same or a later point of its life cycle, a request to cancel it included.\<close>

theorem settling_never_goes_back:
  assumes "service_reachable env s" "settle_step env s s'" "map_of (ab_analyses (an_board s')) i = Some r'"
  shows "\<exists>r. map_of (ab_analyses (an_board s)) i = Some r \<and>
    (terminal (lc_state r) \<longrightarrow> r' = r) \<and> (lc_state r' = QUEUED \<longrightarrow> r' = r) \<and>
    (lc_state r' = RUNNING \<longrightarrow> lc_state r = RUNNING) \<and>
    (lc_cancellation_requested_at r \<noteq> None \<longrightarrow> lc_cancellation_requested_at r' \<noteq> None) \<and>
    rec_tab_id r' = rec_tab_id r \<and> rec_parent_analysis_id r' = rec_parent_analysis_id r \<and>
    rec_execution_scope r' = rec_execution_scope r \<and> lc_created_at r' = lc_created_at r"
proof -
  note inv = board_okD(1) [OF service_reachable_ok [OF assms(1)]]
  obtain r where r: "map_of (ab_analyses (an_board s)) i = Some r" "settles env r r'"
    using quiet_moves_record [OF settle_step_moves [OF assms(2) inv] inv assms(3)] by blast
  from r(1) quiet_transitions_keep [OF r(2)] show ?thesis by blast
qed

theorem settling_never_goes_back_witness:
  "map_of (ab_analyses (an_board over_lease)) ''c1'' = map_of (ab_analyses (an_board half_lease)) ''c1''"
proof -
  have step: "settle_step example_env half_lease over_lease"
    unfolding over_lease_def by (rule settle_step.fail)
  obtain r' where r': "map_of (ab_analyses (an_board over_lease)) ''c1'' = Some r'"
    using state_of [OF example_end_states(1), of "''c1''" FAILED] by auto
  obtain q where q: "map_of (ab_analyses (an_board half_lease)) ''c1'' = Some q" "lc_state q = FAILED"
    using state_of [OF example_states(3), of "''c1''" FAILED] by auto
  from settling_never_goes_back [OF half_reachable step r'] q have "r' = q" by auto
  with r' q(1) show ?thesis by simp
qed

section \<open>After a callback\<close>

lemma concluded:
  assumes "conclude env settled s = (Inr u, s')" "ab_inv (an_board s)" "stored (an_board s) r" "settles env r settled"
    "terminal (lc_state settled)"
  shows "\<exists>s1 s2. ab_inv (an_board s1) \<and> s2 = s1\<lparr>an_live := AList.delete (rec_id settled) (an_live s1)\<rparr> \<and>
    remove_if_detached settled s2 = (Inr u, s') \<and> an_live s' = an_live s2 \<and>
    (map_of (ab_analyses (an_board s1)) (rec_id settled) = None \<or> stored (an_board s1) settled)"
proof -
  obtain sp s1 where p: "put_analysis settled s = (Inr (), sp)"
    and f: "finalize_concordance_group env settled sp = (Inr (), s1)"
    and rm: "remove_if_detached settled (s1\<lparr>an_live := AList.delete (rec_id settled) (an_live s1)\<rparr>) = (Inr u, s')"
    using assms(1) by (auto simp: conclude_def act_bind_Inr pop_live_def)
  have invp: "ab_inv (an_board sp)" using acts_inv [OF acts_put [OF assms(3,4), of True] assms(2)] by (simp add: p)
  have st: "stored (an_board sp) settled" by (simp add: put_Inr [OF p] update_conv')
  have m: "(board_move True (ae_netloc env) (ae_casefold env))\<^sup>*\<^sup>* (an_board sp) (an_board s1)"
    using acts_steps [OF acts_finalize [OF invp, of True env settled]] by (simp add: f)
  have "map_of (ab_analyses (an_board s1)) (rec_id settled) = None \<or> stored (an_board s1) settled"
  proof (cases "map_of (ab_analyses (an_board s1)) (rec_id settled)")
    case (Some q)
    obtain q0 where "map_of (ab_analyses (an_board sp)) (rec_id settled) = Some q0" "settles env q0 q"
      using quiet_moves_record [OF m invp Some] by blast
    then have "q = settled" using st quiet_transitions_keep(10) [of _ _ q0 q] assms(5) by simp
    with Some show ?thesis by simp
  qed simp
  moreover have "an_live s' = an_live (s1\<lparr>an_live := AList.delete (rec_id settled) (an_live s1)\<rparr>)"
    using rm by (auto simp: remove_if_detached_def remove_terminal_detached_tree_def drop_tree_def on_board_def
        split: option.splits if_splits)
  ultimately show ?thesis using rm moves_inv [OF m invp] by blast
qed

lemma removed_if_over:
  assumes "remove_if_detached r s = (Inr u, s')" "ab_inv (an_board s)" "stored (an_board s) r"
    "detached_root_id (an_board s) r = Some k" "list_all (\<lambda>a. terminal (lc_state a)) (analysis_tree (an_board s) k)"
  shows "\<forall>a \<in> set (analysis_tree (an_board s) k). map_of (ab_analyses (an_board s')) (rec_id a) = None"
    "map_of (ab_analyses (an_board s')) (rec_id r) = None"
proof -
  note rf = root_of_facts [OF assms(2,3)]
  have k: "k = rec_id (root_of (an_board s) r)" using assms(4) unfolding rf(4) by (simp split: if_splits)
  have "an_board s' = removed_board k (an_board s)"
    using assms(1,4,5) rf(1) k by (auto simp: remove_if_detached_def remove_terminal_detached_tree_def drop_tree_def on_board_def)
  then have b: "an_board s' = without_analyses (analysis_family (root_of (an_board s) r) (an_board s)) (an_board s)"
    using removed_board_facts(2) [OF assms(2) rf(1)] k by simp
  have gone: "map_of (ab_analyses (an_board s')) (rec_id a) = None" if "(root_of (an_board s) r, a) \<in> (child_rel (an_board s))\<^sup>*" for a
    using that unfolding b by (auto simp: map_of_None_iff_keys without_analyses_def analysis_family_def)
  show "map_of (ab_analyses (an_board s')) (rec_id r) = None" by (rule gone [OF rf(3)])
  show "\<forall>a \<in> set (analysis_tree (an_board s) k). map_of (ab_analyses (an_board s')) (rec_id a) = None"
    using analysis_tree_facts(1) [OF assms(2) rf(1)] gone unfolding k by blast
qed

text \<open>What a settling callback leaves of its Analysis.\<close>

definition settled_in :: "'p analyses \<Rightarrow> uuid \<Rightarrow> bool" where
  "settled_in s i \<longleftrightarrow> map_of (an_live s) i = None \<and>
     (case map_of (ab_analyses (an_board s)) i of
        None \<Rightarrow> True
      | Some r \<Rightarrow> terminal (lc_state r) \<and>
          (case detached_root_id (an_board s) r of
             None \<Rightarrow> True | Some k \<Rightarrow> \<not> list_all (\<lambda>a. terminal (lc_state a)) (analysis_tree (an_board s) k)))"

lemma conclude_settles:
  assumes "conclude env settled s = (Inr u, s')" "ab_inv (an_board s)" "stored (an_board s) r" "settles env r settled"
    "terminal (lc_state settled)"
  shows "settled_in s' (rec_id settled)"
proof -
  obtain s1 s2 where s: "ab_inv (an_board s1)" "s2 = s1\<lparr>an_live := AList.delete (rec_id settled) (an_live s1)\<rparr>"
    "remove_if_detached settled s2 = (Inr u, s')" "an_live s' = an_live s2"
    "map_of (ab_analyses (an_board s1)) (rec_id settled) = None \<or> stored (an_board s1) settled"
    using concluded [OF assms] by blast
  have inv2: "ab_inv (an_board s2)" and live: "map_of (an_live s') (rec_id settled) = None"
    using s(1,2,4) by (simp_all add: delete_conv')
  have b: "an_board s2 = an_board s1" using s(2) by simp
  show ?thesis
  proof (cases "map_of (ab_analyses (an_board s')) (rec_id settled)")
    case None
    then show ?thesis using live by (simp add: settled_in_def)
  next
    case (Some q)
    have kept: "an_board s' = an_board s2 \<or> (\<exists>k. an_board s' = removed_board k (an_board s2))"
      using s(3) by (auto simp: remove_if_detached_def remove_terminal_detached_tree_def drop_tree_def on_board_def
          split: option.splits if_splits)
    then have q2: "map_of (ab_analyses (an_board s2)) (rec_id settled) = Some q"
      using Some removed_map(1) [OF inv2] by auto
    then have st: "stored (an_board s2) settled" and q: "q = settled" using s(5) b by auto
    have over: "\<not> list_all (\<lambda>a. terminal (lc_state a)) (analysis_tree (an_board s2) k)"
      if "detached_root_id (an_board s2) settled = Some k" for k
      using removed_if_over(2) [OF s(3) inv2 st that] Some by auto
    then have "s' = s2"
      using s(3) by (auto simp: remove_if_detached_def remove_terminal_detached_tree_def split: option.splits if_splits)
    then show ?thesis using over live Some q assms(5) by (auto simp: settled_in_def split: option.split)
  qed
qed

lemma transact_Inr: "transact commit act s = (Inr x, s') \<Longrightarrow> act (s\<lparr>an_commit := True\<rparr>) = (Inr x, s')"
  by (auto simp: transact_def Let_def split: prod.splits sum.splits bool.splits option.splits)

lemma ended_conclude:
  assumes e: "\<And>r' s1. settle s = (Inr r', s1) \<Longrightarrow> settles env r r' \<and> terminal (lc_state r') \<and> an_board s1 = an_board s"
    and run: "act_bind settle (conclude env) s = (Inr (), s')"
    and inv: "ab_inv (an_board s)" and r: "map_of (ab_analyses (an_board s)) i = Some r"
  shows "settled_in s' i"
proof -
  obtain r' s1 where r': "settle s = (Inr r', s1)" "conclude env r' s1 = (Inr (), s')"
    using run unfolding act_bind_Inr by blast
  note k = e [OF r'(1)]
  have st: "stored (an_board s) r" "rec_id r = i" using stored_iff(2) [OF inv] r by blast+
  have "settled_in s' (rec_id r')"
    by (rule conclude_settles [OF r'(2), of r]) (use k inv st in auto)
  then show ?thesis using touches_id k st(2) by metis
qed

text \<open>The later callbacks of an Analysis that has been settled.\<close>

definition ignores_callbacks :: "analysis_env \<Rightarrow> 'p analyses \<Rightarrow> uuid \<Rightarrow> bool" where
  "ignores_callbacks env s i \<longleftrightarrow>
     (\<forall>failure. fail_body env failure i s = (Inr (), s\<lparr>an_commit := False\<rparr>)) \<and>
     (\<forall>producer. complete_body env producer i s = (Inr None, s\<lparr>an_commit := False\<rparr>)) \<and>
     (\<forall>payload. report_body env payload i s = (Inr (False, []), s\<lparr>an_commit := False\<rparr>)) \<and>
     (\<forall>shut prepare. admit_body env shut (prepare :: analysis_record \<Rightarrow> app_error option + json) i s =
        (Inr None, s\<lparr>an_commit := False\<rparr>)) \<and>
     confirm_body env i s = (Inr (), s\<lparr>an_commit := False\<rparr>) \<and> interrupt_body env i s = (Inr (), s\<lparr>an_commit := False\<rparr>) \<and>
     interrupt_queued_body env i s = (Inr (), s\<lparr>an_commit := False\<rparr>)"

lemma over_ignores:
  "(case map_of (ab_analyses (an_board s)) i of None \<Rightarrow> True | Some r \<Rightarrow> terminal (lc_state r)) \<Longrightarrow> ignores_callbacks env s i"
  by (auto simp: ignores_callbacks_def fail_body_def complete_body_def report_body_def admit_body_def
      confirm_body_def interrupt_body_def interrupt_queued_body_def no_commit_def active_def terminal_def
      split: option.splits)

lemma settled_ignores: "settled_in s i \<Longrightarrow> ignores_callbacks env s i"
  by (rule over_ignores) (simp add: settled_in_def split: option.splits)



end
