(* ===== verification/AnalysisGroups.thy ===== *)
theory AnalysisGroups
  imports AnalysisProperties
begin

text \<open>
  Runs over several sources: how one is settled from its children, and the callback that forgets to do it. Then the
  admission of an execution, which reserves a launch entry and starts the record together.
\<close>

section \<open>Settling a run\<close>

definition group_state :: "analysis_record \<Rightarrow> analysis_record list \<Rightarrow> background_state" where
  "group_state parent children =
     (if lc_cancellation_requested_at parent \<noteq> None \<or> list_ex (\<lambda>item. lc_state item = CANCELLED) children then CANCELLED
      else if list_ex (\<lambda>item. lc_state item = FAILED) children then FAILED else SUCCEEDED)"

lemma source_descriptor_id: "source_descriptor env item = Inr (d, i) \<Longrightarrow> i = rec_id item"
  by (auto simp: source_descriptor_def bind_result_Inr_iff split: option.splits if_splits)

lemma sources_in_order:
  "map_result (source_descriptor env) children = Inr sources \<Longrightarrow> map snd sources = map rec_id children"
proof (induction children arbitrary: sources)
  case (Cons c cs)
  then obtain d ds where d: "source_descriptor env c = Inr d" "map_result (source_descriptor env) cs = Inr ds" "sources = d # ds"
    by (auto simp: bind_result_Inr_iff)
  obtain x i where "d = (x, i)" by (cases d)
  then have "snd d = rec_id c" using source_descriptor_id d(1) by auto
  then show ?case using d Cons.IH by simp
qed (simp add: map_result_Inr_iff)

lemma group_terminal_state:
  assumes "group_terminal env t parent children = Inr settled"
  shows "lc_state settled = group_state parent children"
    "lc_state settled = SUCCEEDED \<Longrightarrow> \<exists>sources. map_result (source_descriptor env) children = Inr sources \<and>
       rec_result_payload settled = Some (ae_group_payload env sources)"
proof -
  have "lc_state settled = group_state parent children \<and> (lc_state settled = SUCCEEDED \<longrightarrow>
    (\<exists>sources. map_result (source_descriptor env) children = Inr sources \<and>
       rec_result_payload settled = Some (ae_group_payload env sources)))"
  proof (cases "lc_cancellation_requested_at parent \<noteq> None \<or> (\<exists>item \<in> set children. lc_state item = CANCELLED)")
    case True
    then have "group_state parent children = CANCELLED" by (auto simp: group_state_def list_ex_iff)
    moreover obtain parent' where "rec_confirm_cancelled (ae_netloc env) (ae_casefold env) t (lc_progress parent') parent' = Inr settled"
      using assms True by (auto simp: group_terminal_def Let_def bind_result_Inr_iff)
    ultimately show ?thesis using ends_in(3) by fastforce
  next
    case F: False
    show ?thesis
    proof (cases "\<exists>item \<in> set children. lc_state item = FAILED")
      case True
      then have g: "group_state parent children = FAILED" using F by (auto simp: group_state_def list_ex_iff)
      have "rec_fail (ae_netloc env) (ae_casefold env) t
          \<lparr>fl_code = ''analysis_execution_failed'', fl_message = ''A Concordance source failed''\<rparr> (lc_progress parent) parent =
          Inr settled"
        using assms True F unfolding group_terminal_def Let_def by simp
      from ends_in(1) [OF this] g show ?thesis by simp
    next
      case False
      then have g: "group_state parent children = SUCCEEDED" using F by (auto simp: group_state_def list_ex_iff)
      obtain sources where s: "map_result (source_descriptor env) children = Inr sources"
        "rec_succeed (ae_netloc env) (ae_casefold env) t (ae_group_payload env sources) [] [] None parent = Inr settled"
        using assms False F unfolding group_terminal_def Let_def by (auto simp: bind_result_Inr_iff)
      have "rec_result_payload settled = Some (ae_group_payload env sources)"
        using s(2) by (auto simp: rec_succeed_def rec_coerce_def split: if_splits elim!: rec_bumpD)
      with ends_in(4) [OF s(2)] s(1) g show ?thesis by (intro conjI impI exI [of _ sources]) simp_all
    qed
  qed
  then show "lc_state settled = group_state parent children"
    "lc_state settled = SUCCEEDED \<Longrightarrow> \<exists>sources. map_result (source_descriptor env) children = Inr sources \<and>
       rec_result_payload settled = Some (ae_group_payload env sources)" by auto
qed


lemma example_run:
  "map_option (\<lambda>child. (lc_state child, map_option (\<lambda>parent. (rec_id parent, rec_tab_id parent, lc_state parent,
       rec_supersedes_analysis_ids parent, lc_cancellation_requested_at parent))
     (concordance_group (an_board half_lease) child))) (map_of (ab_analyses (an_board half_lease)) ''c2'') =
   Some (RUNNING, Some (''p'', ''t'', RUNNING, [], None))"
  "map_option (\<lambda>child. (lc_state child, map_option (\<lambda>parent. (rec_id parent, rec_tab_id parent, lc_state parent,
       rec_supersedes_analysis_ids parent, lc_cancellation_requested_at parent))
     (concordance_group (an_board stuck_lease) child))) (map_of (ab_analyses (an_board stuck_lease)) ''c2'') =
   Some (FAILED, Some (''p'', ''t'', RUNNING, [], None))"
  by code_simp+

lemma example_children:
  "map (\<lambda>r. (rec_id r, lc_state r)) (analysis_children ''p'' (an_board half_lease)) = [(''c1'', FAILED), (''c2'', RUNNING)]"
  "map (\<lambda>r. (rec_id r, lc_state r)) (analysis_children ''p'' (an_board stuck_lease)) = [(''c1'', FAILED), (''c2'', FAILED)]"
  by code_simp+


section \<open>A run that is left behind\<close>

text \<open>A run whose children are all over, while it is still running: nothing executes it.\<close>

definition left_behind :: "analysis_board \<Rightarrow> uuid \<Rightarrow> bool" where
  "left_behind b i \<longleftrightarrow> (case map_of (ab_analyses b) i of
     None \<Rightarrow> False
   | Some parent \<Rightarrow> lc_state parent = RUNNING \<and> rec_execution_scope parent = RunAll \<and>
       is_concordance_run_all (rec_request parent) \<and> analysis_children i b \<noteq> [] \<and>
       list_all (\<lambda>item. terminal (lc_state item)) (analysis_children i b))"

lemma analysis_children_stored:
  "ab_inv b \<Longrightarrow> a \<in> set (analysis_children p b) \<longleftrightarrow> stored b a \<and> rec_parent_analysis_id a = Some p"
  using stored_iff(1) [of b a] by (auto simp: analysis_children_def)

lemma reported_invalid:
  assumes "report_body env payload i s = (Inr (True, keys), s')" "map_of (ab_analyses (an_board s)) i = Some r"
  shows "\<exists>failed. settles env r failed \<and> lc_state failed = FAILED \<and>
    an_board s' = (an_board s)\<lparr>ab_analyses := AList.update (rec_id failed) failed (ab_analyses (an_board s))\<rparr>"
proof -
  let ?f = "\<lparr>fl_code = ''progress_invalid'', fl_message = ''Analysis reported invalid progress''\<rparr>"
  have "act_bind (fail_at env ?f (current_progress s r) r) (\<lambda>failed. act_bind (put_analysis failed) (\<lambda>_.
      act_bind (pop_live i) (\<lambda>_. act_pure (Inr (True, []))))) s = (Inr (True, keys), s')"
    using assms by (auto simp: report_body_def no_commit_def Let_def split: if_splits sum.splits option.splits)
  then obtain failed s1 s2 where f: "fail_at env ?f (current_progress s r) r s = (Inr failed, s1)"
    and p: "put_analysis failed s1 = (Inr (), s2)" and b: "an_board s' = an_board s2"
    by (auto simp: act_bind_Inr act_pure_Inr pop_live_def)
  from settles_at(1) [OF f] put_Inr [OF p] b show ?thesis by auto
qed

text \<open>C30: an invalid progress leaves a run behind. When the last running child of a run over several sources reports a
  progress that is refused, the child fails, but the run is not settled: it stays running although all its children
  are over and nothing executes it. Every later callback for a child is ignored, so none of them settles it, and as
  long as it is like this no Preview and no Run All is accepted in its Tab.\<close>

theorem invalid_progress_leaves_run_behind:
  assumes "service_reachable env s" "map_of (ab_analyses (an_board s)) i = Some child"
    and "concordance_group (an_board s) child = Some parent"
    and "\<forall>item \<in> set (analysis_children (rec_id parent) (an_board s)). rec_id item \<noteq> i \<longrightarrow> terminal (lc_state item)"
    and "transact commit (report_body env payload i) s = (Inr (True, keys), s')"
  shows "left_behind (an_board s') (rec_id parent) \<and>
    (\<forall>item \<in> set (analysis_children (rec_id parent) (an_board s')). ignores_callbacks env s' (rec_id item)) \<and>
    (\<forall>command request. ac_execution_scope command = Supporting \<or>
       (\<exists>e. admit_submission s' (rec_tab_id parent) command request = Inl e))"
proof -
  have inv: "ab_inv (an_board s)" by (rule board_okD(1) [OF service_reachable_ok [OF assms(1)]])
  have c: "map_of (ab_analyses (an_board (s\<lparr>an_commit := True\<rparr>))) i = Some child" using assms(2) by simp
  note g = concordance_group_stored [OF inv assms(3)]
  obtain failed where f: "settles env child failed" "lc_state failed = FAILED"
    and b: "an_board s' = (an_board s)\<lparr>ab_analyses := AList.update (rec_id failed) failed (ab_analyses (an_board s))\<rparr>"
    using reported_invalid [OF transact_Inr [OF assms(5)] c] by auto
  note k = quiet_transitions_keep [OF f(1)]
  have i: "rec_id child = i" "stored (an_board s) child" using assms(2) stored_iff(2) [OF inv] by blast+
  have "service_reachable env s'"
    using service_reachable.step [OF assms(1) service_step.settle [OF settle_step.report]] assms(5) by (metis snd_conv)
  note inv' = board_okD(1) [OF service_reachable_ok [OF this]]
  have map: "map_of (ab_analyses (an_board s')) = (map_of (ab_analyses (an_board s)))(i \<mapsto> failed)"
    using b k(1) i(1) by (simp add: update_conv')
  have "(parent, child) \<in> child_rel (an_board s)" by (rule child_relI [OF inv i(2) g(5)])
  then have "rec_id parent \<noteq> i"
    using descendant_later [OF inv, of parent child] i(1) position_cong [of parent child] by fastforce
  then have p: "map_of (ab_analyses (an_board s')) (rec_id parent) = Some parent" using g(1) by (simp add: map)
  have over: "terminal (lc_state a)" if "a \<in> set (analysis_children (rec_id parent) (an_board s'))" for a
  proof (cases "rec_id a = i")
    case True
    then have "a = failed" using that analysis_children_stored [OF inv'] map by simp
    then show ?thesis using f(2) by (simp add: terminal_def)
  next
    case False
    then have "a \<in> set (analysis_children (rec_id parent) (an_board s))"
      using that unfolding analysis_children_stored [OF inv'] analysis_children_stored [OF inv] map by simp
    with assms(4) False show ?thesis by blast
  qed
  have "failed \<in> set (analysis_children (rec_id parent) (an_board s'))"
    unfolding analysis_children_stored [OF inv'] map using k(1,3) i(1) g(5) by simp
  then have left: "left_behind (an_board s') (rec_id parent)"
    using p g over by (auto simp: left_behind_def list_all_iff)
  have "ignores_callbacks env s' (rec_id item)" if "item \<in> set (analysis_children (rec_id parent) (an_board s'))" for item
    by (rule over_ignores) (use over [OF that] that analysis_children_stored [OF inv'] in simp)
  moreover have "main_active (an_board s') (rec_tab_id parent) (rec_id parent)"
    using p g by (simp add: main_active_def active_def)
  then have "ac_execution_scope command = Supporting \<or> (\<exists>e. admit_submission s' (rec_tab_id parent) command request = Inl e)"
    for command request
    using admit_submission_main [OF _ inv'] by (cases "admit_submission s' (rec_tab_id parent) command request") fastforce+
  ultimately show ?thesis using left by blast
qed

text \<open>A cancellation of the run is accepted, stays pending, and does not end it either.\<close>

lemma example_cancel:
  "map_option lc_state (map_of (ab_analyses (an_board (snd (transact None (cancel_body example_env ''p'') stuck_lease)))) ''p'') =
     Some RUNNING"
  "(case fst (transact None (cancel_body example_env ''p'') stuck_lease) of Inr ((view, pending), keys) \<Rightarrow> pending \<and> keys = []
     | Inl e \<Rightarrow> False)"
  by code_simp+

theorem invalid_progress_leaves_run_behind_witness:
  "left_behind (an_board stuck_lease) ''p'' \<and> ignores_callbacks example_env stuck_lease ''c2'' \<and>
   (\<exists>e. admit_submission stuck_lease ''t'' run_command run_request = Inl e) \<and>
   map_option lc_state (map_of (ab_analyses (an_board (snd (transact None (cancel_body example_env ''p'') stuck_lease)))) ''p'') =
     Some RUNNING"
proof -
  obtain child parent where c: "map_of (ab_analyses (an_board half_lease)) ''c2'' = Some child"
    "concordance_group (an_board half_lease) child = Some parent" "rec_id parent = ''p''" "rec_tab_id parent = ''t''"
    using example_run(1) by (auto simp: map_option_case split: option.splits)
  have "\<forall>x \<in> set (map (\<lambda>r. (rec_id r, lc_state r)) (analysis_children ''p'' (an_board half_lease))).
      fst x \<noteq> ''c2'' \<longrightarrow> terminal (snd x)" unfolding example_children(1) by (simp add: terminal_def)
  then have o: "\<forall>item \<in> set (analysis_children (rec_id parent) (an_board half_lease)). rec_id item \<noteq> ''c2'' \<longrightarrow> terminal (lc_state item)"
    using c(3) by auto
  have "fst (transact None (report_body example_env (Inl (ValueError ''progress'')) ''c2'') half_lease) = Inr (True, [])" by code_simp
  then have "transact None (report_body example_env (Inl (ValueError ''progress'')) ''c2'') half_lease = (Inr (True, []), stuck_lease)"
    by (simp add: stuck_lease_def prod_eq_iff)
  note left = invalid_progress_leaves_run_behind [OF half_reachable c(1,2) o this]
  obtain item where "item \<in> set (analysis_children ''p'' (an_board stuck_lease))" "rec_id item = ''c2''"
  proof -
    have "''c2'' \<in> set (map fst (map (\<lambda>r. (rec_id r, lc_state r)) (analysis_children ''p'' (an_board stuck_lease))))"
      unfolding example_children(2) by simp
    then show thesis by (auto intro: that)
  qed
  moreover from this left have "ignores_callbacks example_env stuck_lease ''c2''" unfolding c(3) by metis
  moreover have "ac_execution_scope run_command \<noteq> Supporting" by (simp add: run_command_def)
  ultimately show ?thesis using left example_cancel(1) unfolding c(3,4) by blast
qed

text \<open>Clearing a Tab leaves a run behind too, when none of its children has started: they are cancelled in place, without
  settling the run, which no Tab holds any more.\<close>

definition cleared_lease :: "nat analyses" where
  "cleared_lease = snd (transact None (clear_body example_env ''t'') run_lease)"

theorem clearing_leaves_run_behind:
  "states_of cleared_lease = [(''p'', RUNNING), (''c1'', CANCELLED), (''c2'', CANCELLED)]"
  "left_behind (an_board cleared_lease) ''p''" "detached_roots (an_board cleared_lease) = [''p'']"
  by code_simp+

end
