(* ===== verification/AnalysisAdmission.thy ===== *)
theory AnalysisAdmission
  imports AnalysisExample
begin

text \<open>
  The admission of an execution: the launch entry of the process executor and the start of the record come together.
\<close>

section \<open>Who touches the launch entries\<close>

definition launches_kept :: "('p, 'a) action \<Rightarrow> bool" where
  "launches_kept m \<longleftrightarrow> (\<forall>s. an_launches (snd (m s)) = an_launches s)"

lemma launches_bind [intro]:
  "launches_kept m \<Longrightarrow> (\<And>x. launches_kept (f x)) \<Longrightarrow> launches_kept (act_bind m f)"
  unfolding launches_kept_def act_bind_def by (simp add: case_prod_unfold split: sum.split)

lemma launches_step [intro, simp]:
  "launches_kept (act_pure r)" "launches_kept (on_board g)" "launches_kept (read_clock env)" "launches_kept (no_commit y)"
  "launches_kept (pop_live i)" "launches_kept (drop_tree i)" "launches_kept (change_tab tid h)" "launches_kept (put_analysis q)"
  by (auto simp: launches_kept_def act_simps drop_tree_def change_tab_def put_analysis_def split: prod.split sum.split)

lemma launches_each [intro]: "(\<And>x. launches_kept (f x)) \<Longrightarrow> launches_kept (act_each f xs)"
  by (induction xs) auto

lemma launches_at: "(\<And>s. \<exists>m. launches_kept m \<and> f s = m s) \<Longrightarrow> launches_kept f"
  unfolding launches_kept_def by metis

lemma launches_supersession [intro, simp]: "launches_kept (apply_success_supersession env r)"
  unfolding apply_success_supersession_def
proof (intro launches_bind launches_each launches_step)
  fix x :: unit
  show "launches_kept (\<lambda>s. if map_of (ab_tabs (an_board s)) (rec_tab_id r) \<noteq> None \<and> rec_supersedes_analysis_ids r \<noteq> []
      then act_bind (read_clock env) (\<lambda>t. change_tab (rec_tab_id r) (touched t)) s else (Inr (), s))" (is "launches_kept ?f")
  proof (rule launches_at)
    fix s
    show "\<exists>m. launches_kept m \<and> ?f s = m s"
    proof (cases "map_of (ab_tabs (an_board s)) (rec_tab_id r) \<noteq> None \<and> rec_supersedes_analysis_ids r \<noteq> []")
      case True
      have "launches_kept (act_bind (read_clock env) (\<lambda>t. change_tab (rec_tab_id r) (touched t)))"
        by (intro launches_bind launches_step)
      then show ?thesis using True by auto
    qed (auto intro: exI [of _ "act_pure (Inr ())"] simp: act_pure_def)
  qed
qed

lemma launches_finalize [intro, simp]: "launches_kept (finalize_concordance_group env child)"
proof (rule launches_at)
  fix s
  have idle: "launches_kept (act_pure (Inr ()))" "(Inr (), s) = act_pure (Inr ()) s" by (simp_all add: act_pure_def)
  show "\<exists>m. launches_kept m \<and> finalize_concordance_group env child s = m s"
  proof (cases "concordance_group (an_board s) child")
    case (Some parent)
    let ?m = "act_bind (read_clock env) (\<lambda>t. act_bind (act_pure (group_terminal env t parent
        (analysis_children (rec_id parent) (an_board s)))) (\<lambda>settled. act_bind (put_analysis settled) (\<lambda>_.
          act_bind (if lc_state settled = SUCCEEDED then apply_success_supersession env settled else act_pure (Inr ()))
            (\<lambda>_. pop_live (rec_id parent)))))"
    have "launches_kept ?m" by (intro launches_bind) auto
    then show ?thesis using idle by (auto simp: finalize_concordance_group_def Some Let_def)
  qed (use idle in \<open>auto simp: finalize_concordance_group_def\<close>)
qed

lemma launches_remove [intro, simp]: "launches_kept (remove_if_detached r)"
  by (auto simp: launches_kept_def remove_if_detached_def remove_terminal_detached_tree_def drop_tree_def on_board_def
      split: option.split)

lemma launches_conclude [intro, simp]: "launches_kept (conclude_unstarted env r)"
  unfolding conclude_unstarted_def by (intro launches_bind) auto

lemma launches_fail [intro, simp]: "launches_kept (fail_unstarted env failure r)"
  unfolding fail_unstarted_def by (intro launches_bind) auto

section \<open>The admission\<close>

lemma fail_unstarted_value: "fst (fail_unstarted env failure r s) = Inr x \<Longrightarrow> x = None"
  by (auto simp: fail_unstarted_def act_simps split: sum.splits prod.splits)

lemma reserve_cases:
  obtains (refused) e where "reserve_launch shut i s = (Inl e, s)"
    | (reserved) "i \<notin> set (an_launches s)" "reserve_launch shut i s = (Inr (), s\<lparr>an_launches := i # an_launches s\<rparr>)"
  by (cases "shut \<or> i \<in> set (an_launches s)") (auto simp: reserve_launch_def)

text \<open>What an admission leaves, on each of its results.\<close>

definition entry_matches ::
    "(analysis_record \<Rightarrow> app_error option + 'i) \<Rightarrow> uuid \<Rightarrow> 'p analyses \<Rightarrow> 'i option result \<times> 'p analyses \<Rightarrow> bool" where
  "entry_matches prepare i s out \<longleftrightarrow>
     (case fst out of
        Inr (Some invocation) \<Rightarrow> i \<notin> set (an_launches s) \<and> an_launches (snd out) = i # an_launches s \<and>
          (\<exists>r r'. map_of (ab_analyses (an_board s)) i = Some r \<and> lc_state r = QUEUED \<and>
             missing_input_ids s (rec_request r) = [] \<and> prepare r = Inr invocation \<and>
             map_of (ab_analyses (an_board (snd out))) i = Some r' \<and> lc_state r' = RUNNING)
      | _ \<Rightarrow> an_launches (snd out) = an_launches s)"

lemma unstarted_matches:
  assumes "an_launches s1 = an_launches s"
  shows "entry_matches prepare i s (fail_unstarted env failure r s1)"
proof -
  have "an_launches (snd (fail_unstarted env failure r s1)) = an_launches s"
    using launches_fail assms unfolding launches_kept_def by metis
  then show ?thesis
    using fail_unstarted_value [of env failure r s1] by (auto simp: entry_matches_def split: sum.split option.split)
qed

lemma admit_body_matches:
  fixes s :: "'a analyses"
  assumes inv: "ab_inv (an_board s)"
  shows "entry_matches prepare i s (admit_body env shut prepare i s)"
proof (cases "map_of (ab_analyses (an_board s)) i")
  case (Some r)
  note st = stored_of [OF inv Some]
  have idle: "entry_matches prepare i s (no_commit None s)" by (simp add: entry_matches_def no_commit_def)
  let ?start = "act_bind (read_clock env) (\<lambda>t.
    act_bind (act_pure (rec_start (ae_netloc env) (ae_casefold env) t r)) put_analysis)"
  have kept: "an_launches (snd (?start s1)) = an_launches s1" for s1 :: "'a analyses"
  proof -
    have "launches_kept (?start :: ('a, unit) action)" by (intro launches_bind) auto
    then show ?thesis by (simp only: launches_kept_def)
  qed
  show ?thesis
  proof (cases "lc_state r \<noteq> QUEUED \<or> missing_input_ids s (rec_request r) \<noteq> [] \<or> (\<exists>e. prepare r = Inl e)")
    case True
    then show ?thesis by (auto simp: admit_body_def Some unstarted_matches idle)
  next
    case False
    then obtain invocation where p: "prepare r = Inr invocation" by (cases "prepare r") auto
    have q: "lc_state r = QUEUED" "missing_input_ids s (rec_request r) = []" using False by auto
    show ?thesis
    proof (cases rule: reserve_cases [of shut i s])
      case (refused e)
      then show ?thesis using q by (simp add: admit_body_def Some p unstarted_matches)
    next
      case reserved
      let ?s1 = "s\<lparr>an_launches := i # an_launches s\<rparr>"
      obtain y s2 where y: "?start ?s1 = (y, s2)" by (cases "?start ?s1")
      have l: "an_launches s2 = i # an_launches s" using kept [of ?s1] y by simp
      show ?thesis
      proof (cases y)
        case (Inl e)
        have "an_launches (discard_launch i s2) = an_launches s"
          using l reserved(1) by (simp add: discard_launch_def)
        then show ?thesis using q reserved(2) y Inl by (simp add: admit_body_def Some p unstarted_matches)
      next
        case (Inr u)
        then obtain t r' s1 where s1: "an_board s1 = an_board ?s1" "rec_start (ae_netloc env) (ae_casefold env) t r = Inr r'"
          "put_analysis r' s1 = (Inr u, s2)"
          using y by (auto simp: act_bind_Inr act_pure_Inr dest: read_clock_Inr)
        have "rec_transition (ae_netloc env) (ae_casefold env) r r'" by (rule rec_transition.start [OF s1(2)])
        then have "rec_id r' = i" using rec_transition_frame(4) st stored_iff(2) [OF inv] Some by metis
        moreover have "lc_state r' = RUNNING" using s1(2) by (auto simp: rec_start_def split: if_splits elim!: rec_bumpD)
        ultimately have "map_of (ab_analyses (an_board s2)) i = Some r' \<and> lc_state r' = RUNNING"
          using put_Inr [OF s1(3)] by (simp add: update_conv')
        then show ?thesis using q reserved y Inr l p by (simp add: admit_body_def Some entry_matches_def)
      qed
    qed
  qed
qed (simp add: admit_body_def no_commit_def entry_matches_def)



end
