(* ===== verification/Spec2Isabelle.thy ===== *)
theory Spec2Isabelle
  imports AnalysisScheduler ImportScheduler AnalysisRecords UserFileImports WorkspaceGraph
    PlanHistory WorkspaceAnalyses StorageAdmission EventHub WorkspaceLifecycle SnapshotRoundtrip
    AnalysisGroups AnalysisAdmission
begin

text \<open>
  A verification development for the core of the LDaCA Wordflow backend, the Python package
  \<^verbatim>\<open>src/src/ldaca_wordflow\<close>; paths below are relative to it.

  \<^bold>\<open>The program.\<close> A user works in Workspaces. A Workspace holds Data Blocks, which are derived from one
  another (\<^verbatim>\<open>domain/workspace/graph.py\<close>, \<^verbatim>\<open>node.py\<close>, \<^verbatim>\<open>provenance.py\<close>), and Tabs with the Analyses run on
  the blocks (\<^verbatim>\<open>analysis.py\<close>, \<^verbatim>\<open>tab.py\<close>). An Analysis or a User File Import (\<^verbatim>\<open>domain/user_file_import.py\<close>)
  is a durable background resource: it is queued, run by a process-local scheduler that serves users in
  turn (\<^verbatim>\<open>services/fair_queue.py\<close>, \<^verbatim>\<open>analysis_scheduler.py\<close>, \<^verbatim>\<open>user_file_import_scheduler.py\<close>), and ends
  in success, failure or cancellation. Its changes are announced to the user's sessions by an event hub
  (\<^verbatim>\<open>services/events.py\<close>), and whatever it writes is admitted first against the user's quota and the disk
  (\<^verbatim>\<open>services/quota.py\<close>, \<^verbatim>\<open>storage_admission.py\<close>).

  \<^bold>\<open>Conventions\<close> (\<open>Prelude\<close>, \<open>PyString\<close>, \<open>Background\<close>). A Python function that may raise returns
  \<open>error + 'a\<close>; a method of a mutable object takes the state and returns the new one next to its result, so
  a mutation before a raise is visible. A \<open>dict\<close> is an association list in insertion order, a \<open>str\<close> a
  \<open>string\<close> of Isabelle characters (code points up to 255; nothing depends on larger ones), an \<open>int\<close> an
  \<open>int\<close>, a \<open>float\<close> a rational, an infinity or NaN, a UUID its text, a datetime an integer instant. A
  pydantic model is a record with the coercion of its fields and the list of its checks, run in order.
  What comes from outside the repository (Unicode tables, clocks, \<open>uuid4\<close>, the file system, JSON) is an
  argument. A coroutine is split at its \<open>await\<close>s: every section that runs without interruption, or under
  a lock, is one function, and an \<open>inductive\<close> step relation interleaves the sections of all tasks.

  \<^bold>\<open>Theories.\<close>
  \<^item> \<open>FairQueue\<close>: \<open>FairUserQueue\<close>. The locales \<open>work_queue\<close> and \<open>keyed_queue\<close> state what a scheduler
    needs of a queue; the lemmas show that the queue rotates its users, serves each in order, and makes no
    item wait longer than a bound.
  \<^item> \<open>SchedulerCore\<close>, \<open>AnalysisScheduler\<close>, \<open>ImportScheduler\<close>: the two schedulers, as sections of their
    coroutines, with their events. The invariants give capacity, uniqueness, no lost wake-up, no lost
    cancellation, and that stopping is final.
  \<^item> \<open>PortableNames\<close>: \<^verbatim>\<open>shared/portable_names.py\<close>: accepted paths are confined and round-trip.
  \<^item> \<open>Annotation\<close>, \<open>AnalysisRequests\<close>: the provider values and all request models; validation is
    idempotent on its results, and the blocks a request reads are distinct.
  \<^item> \<open>AnalysisRecords\<close>, \<open>UserFileImports\<close>: the two life cycles, each an interpretation of the locale
    \<open>background_resource\<close> of \<open>Background\<close>, which bounds the length of every history.
  \<^item> \<open>Provenance\<close>: expressions, operations and provenance trees; references, composition, description.
  \<^item> \<open>WorkspaceGraph\<close>: the Data Blocks of a Workspace, with node objects in an explicit heap because
    parents and children share them. Well-formedness is an invariant, and removal always succeeds.
  \<^item> \<open>PlanHistory\<close>: the bounded undo and redo stacks of a Data Block.
  \<^item> \<open>WorkspaceAnalyses\<close>: Tabs and Analyses. The search for descendants is a \<open>partial_function\<close>, which
    is shown to end on every reachable Workspace.
  \<^item> \<open>Quota\<close>, \<open>StorageAdmission\<close>: the measured usage, reservations and both ledgers, which are
    interpretations of the locale \<open>reservation_ledger\<close>.
  \<^item> \<open>EventHub\<close>: subscriptions in a store, with the history of what was published and taken.
  \<^item> \<open>WorkspaceAggregate\<close>: a Workspace as its service holds it, graph, plans, Tabs and Analyses together, with
    the commands that change it. Their contract with the service is the locale \<open>mutation_command\<close>: without
    a commit nothing durable has changed. The events of a commit are exactly the differences it makes.
  \<^item> \<open>WorkspaceService\<close>, \<open>WorkspaceCommit\<close>, \<open>WorkspaceConsistency\<close>: slots, leases, open capacity, mutation,
    commit and rollback, opening, closing, deletion, creation, shutdown, startup (\<^verbatim>\<open>services/workspace.py\<close>);
    then one commit in isolation; then the invariant (memory mirrors disk, ledgers empty, capacity bounded)
    and the properties of all reachable states.
  \<^item> \<open>WorkspaceLifecycle\<close>: the catalogue and exclusive opening (\<^verbatim>\<open>services/workspace_lifecycle.py\<close>).
  \<^item> \<open>FileTree\<close>, \<open>LineageOrder\<close>, \<open>SnapshotMetadata\<close>, \<open>SnapshotHydration\<close>, \<open>SnapshotFiles\<close>,
    \<open>SnapshotCollection\<close>, \<open>SnapshotStore\<close>, \<open>SnapshotCommit\<close>: a Workspace's directory
    (\<^verbatim>\<open>infrastructure/storage/workspace_store.py\<close>). The directory is a tree of paths; the loop that orders
    lineage decides acyclicity; an accepted snapshot's references stay inside it; the Analyses of a snapshot
    are restored where their owners allow it; garbage collection keeps what is referenced; and a commit is
    atomic at every step at which the process may die. The JSON parser, the pydantic models and the plan
    format are the functions of the record \<open>codec\<close>. A directory behind a link is not followed, and
    \<^verbatim>\<open>fsync\<close> does nothing: a crash is the death of the process.
  \<^item> \<open>SnapshotLoad\<close>, \<open>SnapshotRestore\<close>, \<open>SnapshotWrite\<close>, \<open>SnapshotWriting\<close>, \<open>SnapshotRoundtrip\<close>: loading a
    whole Workspace and writing one (\<^verbatim>\<open>_read_workspace\<close>, \<^verbatim>\<open>_write_workspace\<close>, also \<^verbatim>\<open>node_store.py\<close> and
    \<^verbatim>\<open>durable_fs.py\<close>). \<open>SnapshotRestore\<close> shows that the graph of valid entries is restored, \<open>SnapshotWriting\<close>
    which files a commit leaves, and \<open>SnapshotRoundtrip\<close> that what was committed is what is loaded.
  \<^item> \<open>AnalysisCommands\<close>: the operations of \<open>AnalysisService\<close> (\<^verbatim>\<open>services/analyses.py\<close>) inside the mutations of a
    Workspace, as actions on a lease: submission, admission, the callbacks of the runner, cancellation, Tabs,
    views, startup. \<open>AnalysisTrees\<close> shows that the walks over trees of Analyses end; \<open>AnalysisMoves\<close> and
    \<open>AnalysisActs\<close> that every operation is a sequence of moves of the board, one rule per way of composing
    actions; \<open>AnalysisService\<close> makes the operations a state machine. \<open>AnalysisProperties\<close> has the properties of all
    reachable states and of the end of an Analysis, \<open>AnalysisGroups\<close> those of runs over several sources,
    \<open>AnalysisAdmission\<close> that of starting, \<open>AnalysisRecovery\<close> that of the startup reconciliation;
    \<open>AnalysisExample\<close> runs two sources for the witnesses. The preparation of an invocation, the publication of a
    result and the decoding of stored results are arguments; a publication is assumed to leave Tabs and
    Analyses alone where that matters (\<open>board_kept\<close>).

  \<^bold>\<open>Bounds.\<close> No definition uses fuel. Recursion is structural or comes with a termination proof, except
  \<open>descend\<close> in \<open>WorkspaceAnalyses\<close> and \<open>ancestors\<close> in \<open>AnalysisCommands\<close>, whose \<open>None\<close> means that the loop does
  not end; both are shown to end on every well-formed Workspace.

  \<^bold>\<open>Not modelled.\<close> The HTTP layer, settings and process start-up, SQLite, provider clients, the files of
  the storage layer, and the workers whose results are computed by Polars, spaCy or BERTopic: these are
  calls to libraries with little logic of their own. Of the services that wrap the modelled objects into
  transactions, those of Workspaces (without the installation of archives) and of Analyses are modelled; of the
  latter the lookup of credentials, the calls of the scheduler with their compensation and the announcements,
  which come before and after the mutation, are not. The other services, which prepare invocations, publish
  results, store artifacts and serve files, are not: they are parameters where the modelled code calls them. Of
  the snapshot store, the rebasing of plans and the identity of an imported archive are not.
\<close>

end
